(* ===== verification/Prelude.thy ===== *)
theory Prelude
  imports "HOL-Library.Word" "HOL-Library.Char_ord"
begin

text \<open>
  Shared vocabulary of the development: C bytes and C strings, the error codes of
  \<open>fasterhttp.h\<close>, reading and writing at an offset of a memory area, and the collections of
  facts (\<open>buffer_simps\<close>, \<open>err_simps\<close>) that the component theories extend.

  Conventions used everywhere: a pointer into a memory area is its offset from the start of the
  area, a natural number; a C \<open>int\<close> is an \<open>int\<close>; a byte is a \<open>char\<close>; a C string that a caller
  passes is the list of its bytes before the terminating NUL.
\<close>

named_theorems buffer_simps
named_theorems err_simps

section \<open>Bytes\<close>

abbreviation NUL :: char where "NUL \<equiv> CHR 0x00"
abbreviation CR :: char where "CR \<equiv> CHR 0x0D"
abbreviation LF :: char where "LF \<equiv> CHR 0x0A"
abbreviation TAB :: char where "TAB \<equiv> CHR 0x09"
abbreviation SP :: char where "SP \<equiv> CHR 0x20"

type_synonym bytes = "char list"

text \<open>The value of a byte read through a (signed) C \<open>char\<close>.\<close>

definition char_int :: "char \<Rightarrow> int" where
  "char_int c = (let n = int (of_char c :: nat) in if n < 128 then n else n - 256)"

definition is_digit :: "char \<Rightarrow> bool" where
  "is_digit c \<longleftrightarrow> 48 \<le> char_int c \<and> char_int c \<le> 57"

section \<open>C strings\<close>

text \<open>The C string stored at the start of a memory area: the bytes before the first NUL.\<close>

definition cstr :: "bytes \<Rightarrow> bytes" where
  "cstr bs = takeWhile (\<lambda>c. c \<noteq> NUL) bs"

definition is_cstr :: "bytes \<Rightarrow> bool" where
  "is_cstr s \<longleftrightarrow> NUL \<notin> set s"

lemma cstr_id [simp]: "is_cstr s \<Longrightarrow> cstr s = s"
  by (induction s) (auto simp: is_cstr_def cstr_def)

lemma cstr_append_NUL [simp]: "is_cstr s \<Longrightarrow> cstr (s @ NUL # r) = s"
  by (induction s) (auto simp: is_cstr_def cstr_def)

section \<open>Memory areas\<close>

text \<open>\<open>memcpy(base + i, s, length s)\<close> on the area \<open>m\<close>.\<close>

definition write_at :: "nat \<Rightarrow> bytes \<Rightarrow> bytes \<Rightarrow> bytes" where
  "write_at i s m = take i m @ s @ drop (i + length s) m"

definition slice :: "nat \<Rightarrow> nat \<Rightarrow> bytes \<Rightarrow> bytes" where
  "slice off len m = take len (drop off m)"

lemma length_write_at [simp]:
  "i + length s \<le> length m \<Longrightarrow> length (write_at i s m) = length m"
  by (simp add: write_at_def)

lemma take_write_at_before [simp]:
  "k \<le> i \<Longrightarrow> i \<le> length m \<Longrightarrow> take k (write_at i s m) = take k m"
  by (simp add: write_at_def min_def)

lemma take_write_at_end [simp]:
  "i \<le> length m \<Longrightarrow> take (i + length s) (write_at i s m) = take i m @ s"
  by (simp add: write_at_def)

lemma length_slice [simp]: "off + len \<le> length m \<Longrightarrow> length (slice off len m) = len"
  by (simp add: slice_def)

lemma slice_0 [simp]: "slice off 0 m = []"
  by (simp add: slice_def)

lemma slice_append_before: "off + len \<le> length m \<Longrightarrow> slice off len (m @ r) = slice off len m"
  by (simp add: slice_def)

lemma slice_take: "off + len \<le> n \<Longrightarrow> slice off len (take n m) = slice off len m"
  by (simp add: slice_def take_drop)

section \<open>Return codes of the HTTP library (\<open>fasterhttp.h\<close>)\<close>

abbreviation FASTERHTTP_ERROR_ALLOC :: int where "FASTERHTTP_ERROR_ALLOC \<equiv> - 11"
abbreviation FASTERHTTP_ERROR_PARAMTER :: int where "FASTERHTTP_ERROR_PARAMTER \<equiv> - 12"
abbreviation FASTERHTTP_ERROR_INTERNAL :: int where "FASTERHTTP_ERROR_INTERNAL \<equiv> - 14"
abbreviation FASTERHTTP_ERROR_TCP_SELECT_SEND :: int where "FASTERHTTP_ERROR_TCP_SELECT_SEND \<equiv> - 31"
abbreviation FASTERHTTP_ERROR_TCP_SELECT_SEND_TIMEOUT :: int where
  "FASTERHTTP_ERROR_TCP_SELECT_SEND_TIMEOUT \<equiv> - 32"
abbreviation FASTERHTTP_ERROR_TCP_SEND :: int where "FASTERHTTP_ERROR_TCP_SEND \<equiv> - 33"
abbreviation FASTERHTTP_INFO_TCP_SEND_WOULDBLOCK :: int where "FASTERHTTP_INFO_TCP_SEND_WOULDBLOCK \<equiv> 35"
abbreviation FASTERHTTP_ERROR_TCP_SELECT_RECEIVE :: int where
  "FASTERHTTP_ERROR_TCP_SELECT_RECEIVE \<equiv> - 41"
abbreviation FASTERHTTP_ERROR_TCP_SELECT_RECEIVE_TIMEOUT :: int where
  "FASTERHTTP_ERROR_TCP_SELECT_RECEIVE_TIMEOUT \<equiv> - 42"
abbreviation FASTERHTTP_ERROR_TCP_RECEIVE :: int where "FASTERHTTP_ERROR_TCP_RECEIVE \<equiv> - 43"
abbreviation FASTERHTTP_ERROR_TCP_CLOSE :: int where "FASTERHTTP_ERROR_TCP_CLOSE \<equiv> - 44"
abbreviation FASTERHTTP_INFO_TCP_CLOSE :: int where "FASTERHTTP_INFO_TCP_CLOSE \<equiv> 45"
abbreviation FASTERHTTP_INFO_NEED_MORE_HTTP_BUFFER :: int where
  "FASTERHTTP_INFO_NEED_MORE_HTTP_BUFFER \<equiv> 46"
abbreviation FASTERHTTP_ERROR_METHOD_INVALID :: int where "FASTERHTTP_ERROR_METHOD_INVALID \<equiv> - 51"
abbreviation FASTERHTTP_ERROR_VERSION_NOT_SUPPORTED :: int where
  "FASTERHTTP_ERROR_VERSION_NOT_SUPPORTED \<equiv> - 52"
abbreviation FASTERHTTP_ERROR_HTTP_HEADERSTARTLINE_INVALID :: int where
  "FASTERHTTP_ERROR_HTTP_HEADERSTARTLINE_INVALID \<equiv> - 53"
abbreviation FASTERHTTP_ERROR_HTTP_HEADER_INVALID :: int where
  "FASTERHTTP_ERROR_HTTP_HEADER_INVALID \<equiv> - 54"
abbreviation FASTERHTTP_ERROR_HTTP_TRUNCATE :: int where "FASTERHTTP_ERROR_HTTP_TRUNCATE \<equiv> - 55"
abbreviation FASTERHTTP_ERROR_ZLIB :: int where "FASTERHTTP_ERROR_ZLIB \<equiv> - 81"
abbreviation FASTERHTTP_ERROR_FILE_NOT_FOUND :: int where "FASTERHTTP_ERROR_FILE_NOT_FOUND \<equiv> - 82"

abbreviation (input) HTTP_OK :: int where "HTTP_OK \<equiv> 200"
abbreviation (input) HTTP_BAD_REQUEST :: int where "HTTP_BAD_REQUEST \<equiv> 400"

end
