(* ===== verification/HttpBuffer.thy ===== *)
theory HttpBuffer
  imports Prelude
begin

text \<open>
  \<open>struct HttpBuffer\<close> of \<open>fasterhttp.c\<close> and its operations.  A buffer is a memory area (\<open>base\<close>,
  \<open>None\<close> for the null pointer) with the two offsets \<open>fill_ptr\<close> (end of the received or written
  bytes) and \<open>process_ptr\<close> (end of the parsed bytes).  The allocator is a parameter: \<open>alloc n\<close>
  says whether \<open>malloc\<close> or \<open>realloc\<close> of \<open>n\<close> bytes succeeds.  The loops that grow a buffer may run
  for ever (\<open>ReallocHttpBuffer\<close> reports success on a borrowed area without growing it), so they are
  partial functions: \<open>None\<close> is the call that does not return.  Contents: the operations, the
  invariant \<open>buffer_ok\<close>, what every append does to the contents, and the interface \<open>byte_sink\<close>
  shared by the ways of appending.
\<close>

record http_buffer =
  buf_size :: int
  base :: "bytes option"
  ref_flag :: bool
  fill_ptr :: nat
  process_ptr :: nat

type_synonym allocator = "int \<Rightarrow> bool"

definition area :: "http_buffer \<Rightarrow> bytes" where
  "area b = (case base b of Some m \<Rightarrow> m | None \<Rightarrow> [])"

section \<open>Creation, release and raw access\<close>

definition InitHttpBuffer :: "allocator \<Rightarrow> http_buffer \<Rightarrow> int \<Rightarrow> int \<times> http_buffer" where
  "InitHttpBuffer alloc b sz =
     (if \<not> alloc sz then (- 1, b\<lparr>buf_size := sz, base := None\<rparr>)
      else (0, b\<lparr>buf_size := sz, base := Some (replicate (nat sz) NUL), ref_flag := False,
                 fill_ptr := 0, process_ptr := 0\<rparr>))"

definition InitHttpBuffer2 :: "http_buffer \<Rightarrow> int \<Rightarrow> bytes \<Rightarrow> int \<times> http_buffer" where
  "InitHttpBuffer2 b sz m =
     (0, b\<lparr>buf_size := sz, base := Some m, ref_flag := True, fill_ptr := 0, process_ptr := 0\<rparr>)"

definition ReformingHttpBuffer :: "http_buffer \<Rightarrow> http_buffer" where
  "ReformingHttpBuffer b =
     (let len = fill_ptr b - process_ptr b in
      b\<lparr>base := Some (write_at 0 (slice (process_ptr b) len (area b)) (area b)),
        process_ptr := 0, fill_ptr := len\<rparr>)"

definition ResetHttpBuffer :: "http_buffer \<Rightarrow> http_buffer" where
  "ResetHttpBuffer b = b\<lparr>fill_ptr := 0, process_ptr := 0\<rparr>"

definition CleanHttpBuffer :: "http_buffer \<Rightarrow> http_buffer" where
  "CleanHttpBuffer b =
     (if \<not> ref_flag b \<and> buf_size b > 0 \<and> base b \<noteq> None then b\<lparr>base := None, buf_size := 0\<rparr> else b)"

text \<open>\<open>memset(b, 0x00, sizeof(struct HttpBuffer))\<close>\<close>

definition zero_buffer :: http_buffer where
  "zero_buffer = \<lparr>buf_size = 0, base = None, ref_flag = False, fill_ptr = 0, process_ptr = 0\<rparr>"

text \<open>The two allocating constructors; \<open>node\<close> says whether the \<open>malloc\<close> of the struct itself
  succeeds.\<close>

definition AllocHttpBuffer :: "bool \<Rightarrow> allocator \<Rightarrow> int \<Rightarrow> http_buffer option" where
  "AllocHttpBuffer node alloc sz =
     (if \<not> node then None
      else let (nret, b) = InitHttpBuffer alloc zero_buffer sz in
           if nret \<noteq> 0 then None else Some b)"

definition AllocHttpBuffer2 :: "bool \<Rightarrow> int \<Rightarrow> bytes \<Rightarrow> http_buffer option" where
  "AllocHttpBuffer2 node sz m =
     (if \<not> node then None else Some (snd (InitHttpBuffer2 zero_buffer sz m)))"

definition realloc_size :: "int \<Rightarrow> int \<Rightarrow> int" where
  "realloc_size sz new_size =
     (if new_size = - 1
      then if sz \<le> 100 * 1024 * 1024 then sz * 2 else new_size + (sz + 100 * 1024 * 1024)
      else new_size)"

definition ReallocHttpBuffer :: "allocator \<Rightarrow> http_buffer \<Rightarrow> int \<Rightarrow> int \<times> http_buffer" where
  "ReallocHttpBuffer alloc b new_size =
     (if ref_flag b then (0, b)
      else let n = realloc_size (buf_size b) new_size in
           if \<not> alloc n then (FASTERHTTP_ERROR_ALLOC, b)
           else (0, b\<lparr>buf_size := n,
                      base := Some (take (fill_ptr b) (area b) @ replicate (nat n - fill_ptr b) NUL)\<rparr>))"

definition SetHttpBufferPtr :: "http_buffer \<Rightarrow> int \<Rightarrow> bytes \<Rightarrow> http_buffer" where
  "SetHttpBufferPtr b sz m =
     b\<lparr>buf_size := sz, base := Some m, ref_flag := True, fill_ptr := nat (sz - 1), process_ptr := 0\<rparr>"

definition DuplicateHttpBufferPtr :: "allocator \<Rightarrow> http_buffer \<Rightarrow> int \<times> http_buffer" where
  "DuplicateHttpBufferPtr alloc b =
     (case base b of
        None \<Rightarrow> (1, b)
      | Some m \<Rightarrow> if \<not> alloc (buf_size b) then (- 1, b)
                  else (0, b\<lparr>ref_flag := False, base := Some (take (nat (buf_size b)) m)\<rparr>))"

definition GetHttpBufferBase :: "http_buffer \<Rightarrow> bytes option \<times> int" where
  "GetHttpBufferBase b = (base b, int (fill_ptr b))"

definition GetHttpBufferLength :: "http_buffer \<Rightarrow> int" where
  "GetHttpBufferLength b = int (fill_ptr b)"

definition GetHttpBufferSize :: "http_buffer \<Rightarrow> int" where
  "GetHttpBufferSize b = buf_size b"

definition GetHttpBufferFillPtr :: "http_buffer \<Rightarrow> nat" where
  "GetHttpBufferFillPtr b = fill_ptr b"

definition SetHttpBufferFillPtr :: "http_buffer \<Rightarrow> int \<Rightarrow> http_buffer" where
  "SetHttpBufferFillPtr b offset = b\<lparr>fill_ptr := nat offset\<rparr>"

definition OffsetHttpBufferFillPtr :: "http_buffer \<Rightarrow> int \<Rightarrow> http_buffer" where
  "OffsetHttpBufferFillPtr b offset = b\<lparr>fill_ptr := nat (int (fill_ptr b) + offset)\<rparr>"

definition GetHttpBufferLengthUnfilled :: "http_buffer option \<Rightarrow> int" where
  "GetHttpBufferLengthUnfilled bo =
     (case bo of Some b \<Rightarrow> buf_size b - 1 - int (fill_ptr b) | None \<Rightarrow> 0)"

definition OffsetHttpBufferProcessPtr :: "http_buffer \<Rightarrow> int \<Rightarrow> http_buffer" where
  "OffsetHttpBufferProcessPtr b offset = b\<lparr>process_ptr := nat (int (process_ptr b) + offset)\<rparr>"

definition GetHttpBufferLengthProcessed :: "http_buffer option \<Rightarrow> int" where
  "GetHttpBufferLengthProcessed bo = (case bo of Some b \<Rightarrow> int (process_ptr b) | None \<Rightarrow> 0)"

definition GetHttpBufferLengthUnprocessed :: "http_buffer option \<Rightarrow> int" where
  "GetHttpBufferLengthUnprocessed bo =
     (case bo of Some b \<Rightarrow> int (fill_ptr b) - int (process_ptr b) | None \<Rightarrow> 0)"

section \<open>Writing\<close>

text \<open>The \<open>while\<close> loop \<open>while( need > b->buf_size-1 ) { nret = ReallocHttpBuffer( b , -1 ); ... }\<close>
  shared by the copying operations: \<open>need\<close> does not change while the buffer grows.\<close>

partial_function (option) grow_to :: "allocator \<Rightarrow> int \<Rightarrow> http_buffer \<Rightarrow> (int \<times> http_buffer) option" where
  "grow_to alloc need b =
     (if need > buf_size b - 1
      then (let (nret, b') = ReallocHttpBuffer alloc b (- 1) in
            if nret \<noteq> 0 then Some (nret, b') else grow_to alloc need b')
      else Some (0, b))"

definition StrcpyHttpBuffer :: "allocator \<Rightarrow> http_buffer \<Rightarrow> bytes \<Rightarrow> (int \<times> http_buffer) option" where
  "StrcpyHttpBuffer alloc b str =
     (case grow_to alloc (int (length str)) b of
        None \<Rightarrow> None
      | Some (nret, b') \<Rightarrow>
          if nret \<noteq> 0 then Some (nret, b')
          else Some (0, b'\<lparr>base := Some (write_at 0 str (area b')), fill_ptr := length str\<rparr>))"

definition MemcatHttpBuffer :: "allocator \<Rightarrow> http_buffer \<Rightarrow> bytes \<Rightarrow> (int \<times> http_buffer) option" where
  "MemcatHttpBuffer alloc b s =
     (case grow_to alloc (int (fill_ptr b) + int (length s)) b of
        None \<Rightarrow> None
      | Some (nret, b') \<Rightarrow>
          if nret \<noteq> 0 then Some (nret, b')
          else Some (0, b'\<lparr>base := Some (write_at (fill_ptr b') s (area b')),
                           fill_ptr := fill_ptr b' + length s\<rparr>))"

definition StrcatHttpBuffer :: "allocator \<Rightarrow> http_buffer \<Rightarrow> bytes \<Rightarrow> (int \<times> http_buffer) option" where
  "StrcatHttpBuffer alloc b str =
     (case grow_to alloc (int (fill_ptr b) + int (length str)) b of
        None \<Rightarrow> None
      | Some (nret, b') \<Rightarrow>
          if nret \<noteq> 0 then Some (nret, b')
          else Some (0, b'\<lparr>base := Some (write_at (fill_ptr b') str (area b')),
                           fill_ptr := fill_ptr b' + length str\<rparr>))"

text \<open>\<open>vsnprintf(base + i, n, format, ...)\<close> on the area \<open>m\<close>, where \<open>text\<close> is what the format and its
  arguments expand to: at most \<open>n - 1\<close> bytes of the text are stored and terminated by a NUL, and the
  length of the whole text is returned.\<close>

definition vsnprintf :: "nat \<Rightarrow> int \<Rightarrow> bytes \<Rightarrow> bytes \<Rightarrow> int \<times> bytes" where
  "vsnprintf i n text m =
     (int (length text), if n > 0 then write_at i (take (nat (n - 1)) text @ [NUL]) m else m)"

partial_function (option) StrcpyfHttpBuffer ::
    "allocator \<Rightarrow> http_buffer \<Rightarrow> bytes \<Rightarrow> (int \<times> http_buffer) option" where
  "StrcpyfHttpBuffer alloc b text =
     (let (len, m) = vsnprintf 0 (buf_size b - 1) text (area b); b1 = b\<lparr>base := Some m\<rparr> in
      if len = - 1 \<or> len = buf_size b - 1
      then (let (nret, b2) = ReallocHttpBuffer alloc b1 (- 1) in
            if nret \<noteq> 0 then Some (nret, b2) else StrcpyfHttpBuffer alloc b2 text)
      else Some (0, b1\<lparr>fill_ptr := nat len\<rparr>))"

partial_function (option) StrcpyvHttpBuffer ::
    "allocator \<Rightarrow> http_buffer \<Rightarrow> bytes \<Rightarrow> (int \<times> http_buffer) option" where
  "StrcpyvHttpBuffer alloc b text =
     (let (len, m) = vsnprintf 0 (buf_size b - 1) text (area b); b1 = b\<lparr>base := Some m\<rparr> in
      if len = - 1 \<or> len = buf_size b - 1
      then (let (nret, b2) = ReallocHttpBuffer alloc b1 (- 1) in
            if nret \<noteq> 0 then Some (nret, b2) else StrcpyvHttpBuffer alloc b2 text)
      else Some (0, b1\<lparr>fill_ptr := nat len\<rparr>))"

partial_function (option) StrcatfHttpBuffer ::
    "allocator \<Rightarrow> http_buffer \<Rightarrow> bytes \<Rightarrow> (int \<times> http_buffer) option" where
  "StrcatfHttpBuffer alloc b text =
     (let room = buf_size b - 1 - int (fill_ptr b);
          (len, m) = vsnprintf (fill_ptr b) room text (area b); b1 = b\<lparr>base := Some m\<rparr> in
      if len = - 1 \<or> len \<ge> room
      then (let (nret, b2) = ReallocHttpBuffer alloc b1 (- 1) in
            if nret \<noteq> 0 then Some (nret, b2) else StrcatfHttpBuffer alloc b2 text)
      else Some (0, b1\<lparr>fill_ptr := fill_ptr b + nat len\<rparr>))"

partial_function (option) StrcatvHttpBuffer ::
    "allocator \<Rightarrow> http_buffer \<Rightarrow> bytes \<Rightarrow> (int \<times> http_buffer) option" where
  "StrcatvHttpBuffer alloc b text =
     (let room = buf_size b - 1 - int (fill_ptr b);
          (len, m) = vsnprintf (fill_ptr b) room text (area b); b1 = b\<lparr>base := Some m\<rparr> in
      if len = - 1 \<or> len = room
      then (let (nret, b2) = ReallocHttpBuffer alloc b1 (- 1) in
            if nret \<noteq> 0 then Some (nret, b2) else StrcatvHttpBuffer alloc b2 text)
      else Some (0, b1\<lparr>fill_ptr := fill_ptr b + nat len\<rparr>))"

text \<open>\<open>MemcatHttpBufferFromFile\<close>: \<open>fstat f\<close> is the size \<open>stat\<close> reports (\<open>None\<close>: it fails) and \<open>fopen f\<close>
  the bytes \<open>fopen\<close> and \<open>fread\<close> then see (\<open>None\<close>: the file does not open).  The third component is
  \<open>*p_file_len\<close>.\<close>

fun decimal :: "nat \<Rightarrow> bytes" where
  "decimal n = (if n < 10 then [char_of (48 + n)] else decimal (n div 10) @ [char_of (48 + n mod 10)])"

definition MemcatHttpBufferFromFile ::
    "allocator \<Rightarrow> ('f \<Rightarrow> nat option) \<Rightarrow> ('f \<Rightarrow> bytes option) \<Rightarrow> http_buffer \<Rightarrow> 'f
       \<Rightarrow> (int \<times> http_buffer \<times> nat option) option" where
  "MemcatHttpBufferFromFile alloc fstat fopen b f =
     (case fstat f of
        None \<Rightarrow> Some (FASTERHTTP_ERROR_FILE_NOT_FOUND, b, None)
      | Some st_size \<Rightarrow>
          if st_size = 0 then
            (case StrcatfHttpBuffer alloc b [CR, LF] of
               None \<Rightarrow> None
             | Some (nret, b1) \<Rightarrow> if nret \<noteq> 0 then Some (nret, b1, None) else Some (0, b1, Some 0))
          else
            (case StrcatfHttpBuffer alloc b (''Content-Length: '' @ decimal st_size @ [CR, LF, CR, LF]) of
               None \<Rightarrow> None
             | Some (nret, b1) \<Rightarrow>
                 if nret \<noteq> 0 then Some (nret, b1, None)
                 else let new_buf_size = int (fill_ptr b1) + int st_size + 1;
                          (nret2, b2) = (if new_buf_size > buf_size b1
                                         then ReallocHttpBuffer alloc b1 new_buf_size else (0, b1)) in
                      if nret2 \<noteq> 0 then Some (nret2, b2, None)
                      else (case fopen f of
                              None \<Rightarrow> Some (FASTERHTTP_ERROR_FILE_NOT_FOUND, b2, None)
                            | Some bytes_read \<Rightarrow>
                                let got = take st_size bytes_read;
                                    b3 = b2\<lparr>base := Some (write_at (fill_ptr b2) got (area b2))\<rparr> in
                                if length got \<noteq> st_size
                                then Some (FASTERHTTP_ERROR_FILE_NOT_FOUND, b3, None)
                                else Some (0, b3\<lparr>fill_ptr := fill_ptr b2 + st_size\<rparr>, Some st_size))))"

section \<open>Invariant and contents\<close>

text \<open>The invariant of a live buffer: its area has \<open>buf_size\<close> bytes, the parsed part lies within the
  filled part, and one byte is always left behind the filled part.\<close>

definition buffer_ok :: "http_buffer \<Rightarrow> bool" where
  "buffer_ok b \<longleftrightarrow> base b \<noteq> None \<and> int (length (area b)) = buf_size b
                 \<and> process_ptr b \<le> fill_ptr b \<and> int (fill_ptr b) < buf_size b"

definition content :: "http_buffer \<Rightarrow> bytes" where
  "content b = take (fill_ptr b) (area b)"

definition unprocessed :: "http_buffer \<Rightarrow> bytes" where
  "unprocessed b = drop (process_ptr b) (content b)"

text \<open>\<open>b'\<close> is \<open>b\<close> after zero or more successful reallocations.\<close>

definition grown :: "http_buffer \<Rightarrow> http_buffer \<Rightarrow> bool" where
  "grown b b' \<longleftrightarrow> buffer_ok b' \<and> content b' = content b \<and> fill_ptr b' = fill_ptr b
     \<and> process_ptr b' = process_ptr b \<and> ref_flag b' = ref_flag b \<and> buf_size b \<le> buf_size b'"

text \<open>What an operation that appends \<open>s\<close> promises of its return code and of the buffer it leaves.\<close>

definition appended :: "bytes \<Rightarrow> http_buffer \<Rightarrow> int \<times> http_buffer \<Rightarrow> bool" where
  "appended s b = (\<lambda>(nret, b').
     buffer_ok b' \<and> process_ptr b' = process_ptr b \<and> ref_flag b' = ref_flag b
     \<and> (if nret = 0 then content b' = content b @ s
        else nret = FASTERHTTP_ERROR_ALLOC \<and> content b' = content b))"

lemma area_simps [buffer_simps, simp]:
  "area (b\<lparr>base := Some m\<rparr>) = m" "area (b\<lparr>fill_ptr := n\<rparr>) = area b"
  "area (b\<lparr>process_ptr := n\<rparr>) = area b" "area (b\<lparr>buf_size := z\<rparr>) = area b"
  "area (b\<lparr>ref_flag := r\<rparr>) = area b"
  by (simp_all add: area_def)

lemma length_content [simp]: "buffer_ok b \<Longrightarrow> length (content b) = fill_ptr b"
  by (auto simp: buffer_ok_def content_def)

lemma realloc_size_grows: "sz > 0 \<Longrightarrow> realloc_size sz (- 1) > sz"
  by (simp add: realloc_size_def)

lemma realloc_grown:
  assumes "buffer_ok b" "ReallocHttpBuffer alloc b n = (nret, b')" "n = - 1 \<or> n \<ge> buf_size b"
  shows "grown b b' \<and> (nret = 0 \<or> nret = FASTERHTTP_ERROR_ALLOC)"
proof -
  have "buf_size b > 0" using assms(1) by (auto simp: buffer_ok_def)
  then have "realloc_size (buf_size b) n \<ge> buf_size b"
    using assms(3) by (auto simp: realloc_size_def)
  then show ?thesis
    using assms(1,2)
    by (auto simp: ReallocHttpBuffer_def grown_def buffer_ok_def content_def Let_def min_def
             split: if_splits)
qed

lemma realloc_grows:
  assumes "buffer_ok b" "\<not> ref_flag b" "ReallocHttpBuffer alloc b (- 1) = (0, b')"
  shows "buf_size b' > buf_size b"
  using assms realloc_size_grows [of "buf_size b"]
  by (auto simp: ReallocHttpBuffer_def buffer_ok_def Let_def split: if_splits)

lemma grown_trans: "grown a b \<Longrightarrow> grown b c \<Longrightarrow> grown a c"
  by (auto simp: grown_def)

lemma grown_refl [simp]: "buffer_ok b \<Longrightarrow> grown b b"
  by (simp add: grown_def)

lemma grow_to_returns:
  assumes "buffer_ok b" "\<not> ref_flag b"
  shows "\<exists>nret b'. grow_to alloc need b = Some (nret, b') \<and> grown b b'
           \<and> (if nret = 0 then need \<le> buf_size b' - 1 else nret = FASTERHTTP_ERROR_ALLOC)"
  using assms
proof (induction "nat (need + 1 - buf_size b)" arbitrary: b rule: less_induct)
  case less
  show ?case
  proof (cases "need > buf_size b - 1")
    case False
    then show ?thesis using less.prems by (subst grow_to.simps) auto
  next
    case True
    obtain nret b' where r: "ReallocHttpBuffer alloc b (- 1) = (nret, b')" by fastforce
    note g = realloc_grown [OF less.prems(1) r, simplified]
    show ?thesis
    proof (cases "nret = 0")
      case False
      then show ?thesis using True r g by (subst grow_to.simps) auto
    next
      case ok: True
      have "buf_size b' > buf_size b" using realloc_grows less.prems r ok by blast
      then have "nat (need + 1 - buf_size b') < nat (need + 1 - buf_size b)" using True by linarith
      moreover have "buffer_ok b'" "\<not> ref_flag b'" using g less.prems by (auto simp: grown_def)
      ultimately obtain n2 b2 where "grow_to alloc need b' = Some (n2, b2)" "grown b' b2"
        "if n2 = 0 then need \<le> buf_size b2 - 1 else n2 = FASTERHTTP_ERROR_ALLOC"
        using less.hyps by blast
      then show ?thesis using True r ok g grown_trans by (subst grow_to.simps) auto
    qed
  qed
qed

lemma grow_to_SomeD:
  assumes "grow_to alloc need b = Some y"
  shows "\<not> (ref_flag b \<and> need > buf_size b - 1)"
  by (rule grow_to.raw_induct [OF _ assms])
     (auto simp: ReallocHttpBuffer_def split: if_splits)

lemma grow_to_ref_stuck: "ref_flag b \<Longrightarrow> need > buf_size b - 1 \<Longrightarrow> grow_to alloc need b = None"
  using grow_to_SomeD by (metis option.exhaust)

text \<open>Storing \<open>s\<close> behind the filled part of a buffer that has room for it appends it.\<close>

lemma store_appended:
  assumes "grown b b'" "int (fill_ptr b') + int (length s) \<le> buf_size b' - 1"
  shows "appended s b (0, b'\<lparr>base := Some (write_at (fill_ptr b') s (area b')),
                             fill_ptr := fill_ptr b' + length s\<rparr>)"
  using assms by (auto simp: appended_def grown_def buffer_ok_def content_def)

lemma grown_failed: "grown b b' \<Longrightarrow> appended s b (FASTERHTTP_ERROR_ALLOC, b')"
  by (auto simp: appended_def grown_def)

lemma Strcat_appends:
  assumes "buffer_ok b" "\<not> ref_flag b"
  shows "\<exists>r. StrcatHttpBuffer alloc b s = Some r \<and> appended s b r"
proof -
  obtain nret b' where "grow_to alloc (int (fill_ptr b) + int (length s)) b = Some (nret, b')"
    "grown b b'" "if nret = 0 then int (fill_ptr b) + int (length s) \<le> buf_size b' - 1
                  else nret = FASTERHTTP_ERROR_ALLOC"
    using grow_to_returns [OF assms] by blast
  then show ?thesis
    using store_appended [of b b' s] grown_failed [of b b' s]
    by (auto simp: StrcatHttpBuffer_def grown_def split: if_splits)
qed

lemma Memcat_eq_Strcat: "MemcatHttpBuffer alloc b s = StrcatHttpBuffer alloc b s"
  by (simp add: MemcatHttpBuffer_def StrcatHttpBuffer_def)

lemma vsnprintf_keeps:
  assumes "buffer_ok b" "vsnprintf (fill_ptr b) (buf_size b - 1 - int (fill_ptr b)) text (area b) = (len, m)"
  shows "grown b (b\<lparr>base := Some m\<rparr>)" "len = int (length text)"
proof -
  let ?room = "buf_size b - 1 - int (fill_ptr b)"
  have "fill_ptr b + length (take (nat (?room - 1)) text @ [NUL]) \<le> length (area b)" if "?room > 0"
    using assms(1) that by (auto simp: buffer_ok_def)
  then show "grown b (b\<lparr>base := Some m\<rparr>)"
    using assms by (auto simp: vsnprintf_def grown_def buffer_ok_def content_def split: if_splits)
  show "len = int (length text)" using assms(2) by (simp add: vsnprintf_def)
qed

lemma vsnprintf_stores:
  assumes "buffer_ok b" "vsnprintf (fill_ptr b) (buf_size b - 1 - int (fill_ptr b)) text (area b) = (len, m)"
    and "len < buf_size b - 1 - int (fill_ptr b)"
  shows "appended text b (0, b\<lparr>base := Some m, fill_ptr := fill_ptr b + nat len\<rparr>)"
proof -
  have len: "len = int (length text)" using vsnprintf_keeps(2) [OF assms(1,2)] .
  have m: "m = write_at (fill_ptr b) (text @ [NUL]) (area b)"
    using assms(2,3) len by (auto simp: vsnprintf_def)
  have room: "fill_ptr b + length (text @ [NUL]) \<le> length (area b)"
    using assms(1,3) len by (auto simp: buffer_ok_def)
  have "take (fill_ptr b + length text) m = take (fill_ptr b) (area b) @ text"
    using room by (simp add: m write_at_def)
  then show ?thesis
    using assms(1,3) len room length_write_at [OF room] m
    by (auto simp: appended_def buffer_ok_def content_def)
qed

lemma grown_appended: "grown b b' \<Longrightarrow> appended s b' r \<Longrightarrow> appended s b r"
  by (auto simp: grown_def appended_def split: prod.splits if_splits)

lemma Strcatf_appends:
  assumes "buffer_ok b" "\<not> ref_flag b"
  shows "\<exists>r. StrcatfHttpBuffer alloc b text = Some r \<and> appended text b r"
  using assms
proof (induction "nat (int (fill_ptr b) + int (length text) + 2 - buf_size b)" arbitrary: b rule: less_induct)
  case less
  let ?room = "buf_size b - 1 - int (fill_ptr b)"
  obtain len m where v: "vsnprintf (fill_ptr b) ?room text (area b) = (len, m)" by fastforce
  let ?b1 = "b\<lparr>base := Some m\<rparr>"
  note g1 = vsnprintf_keeps [OF less.prems(1) v]
  show ?case
  proof (cases "len \<ge> ?room")
    case False
    then show ?thesis
      using vsnprintf_stores [OF less.prems(1) v] g1(2) v by (subst StrcatfHttpBuffer.simps) auto
  next
    case True
    have ok1: "buffer_ok ?b1" "\<not> ref_flag ?b1" using g1 less.prems by (auto simp: grown_def)
    obtain nret b2 where r: "ReallocHttpBuffer alloc ?b1 (- 1) = (nret, b2)" by fastforce
    note g2 = realloc_grown [OF ok1(1) r, simplified]
    have g: "grown b b2" using g1 g2 grown_trans by blast
    show ?thesis
    proof (cases "nret = 0")
      case False
      then show ?thesis
        using True r v g g2 grown_failed by (subst StrcatfHttpBuffer.simps) auto
    next
      case ok: True
      have "buf_size b2 > buf_size b" using realloc_grows [OF ok1] r ok by fastforce
      moreover have "fill_ptr b2 = fill_ptr b" "buffer_ok b2" "\<not> ref_flag b2"
        using g less.prems by (auto simp: grown_def)
      moreover have "int (fill_ptr b) + int (length text) + 2 - buf_size b > 0" using True g1(2) by simp
      ultimately obtain r2 where "StrcatfHttpBuffer alloc b2 text = Some r2" "appended text b2 r2"
        using less.hyps [of b2] by auto
      then show ?thesis
        using True r v ok grown_appended [OF g] by (subst StrcatfHttpBuffer.simps) auto
    qed
  qed
qed

text \<open>\<open>StrcatvHttpBuffer\<close> tests the length that \<open>vsnprintf\<close> returns with \<open>==\<close> where \<open>StrcatfHttpBuffer\<close>
  tests it with \<open>>=\<close>: a text longer than the room is truncated, reported as stored, and moves
  \<open>fill_ptr\<close> past the end of the area.\<close>

lemma Strcatv_overruns:
  assumes "buffer_ok b" "int (length text) > buf_size b - 1 - int (fill_ptr b)"
  shows "\<exists>b'. StrcatvHttpBuffer alloc b text = Some (0, b') \<and> int (fill_ptr b') \<ge> buf_size b'"
  using assms by (subst StrcatvHttpBuffer.simps) (auto simp: vsnprintf_def Let_def)

lemma Strcatv_fits:
  assumes "buffer_ok b" "int (length text) < buf_size b - 1 - int (fill_ptr b)"
  shows "\<exists>r. StrcatvHttpBuffer alloc b text = Some r \<and> appended text b r \<and> fst r = 0"
proof -
  obtain len m where v: "vsnprintf (fill_ptr b) (buf_size b - 1 - int (fill_ptr b)) text (area b) = (len, m)"
    by fastforce
  then have "len = int (length text)" by (simp add: vsnprintf_def)
  then show ?thesis
    using v assms vsnprintf_stores [OF assms(1) v] by (subst StrcatvHttpBuffer.simps) auto
qed

lemma Reforming_content:
  assumes "buffer_ok b"
  shows "buffer_ok (ReformingHttpBuffer b)" "content (ReformingHttpBuffer b) = unprocessed b"
    "process_ptr (ReformingHttpBuffer b) = 0"
  using assms
  by (auto simp: ReformingHttpBuffer_def buffer_ok_def content_def unprocessed_def slice_def write_at_def
                 drop_take Let_def min_def)

lemma Reset_content:
  "buffer_ok b \<Longrightarrow> buffer_ok (ResetHttpBuffer b) \<and> content (ResetHttpBuffer b) = []"
  by (auto simp: ResetHttpBuffer_def buffer_ok_def content_def)

lemma Init_ok:
  "sz > 0 \<Longrightarrow> InitHttpBuffer alloc b sz = (0, b') \<Longrightarrow> buffer_ok b' \<and> content b' = [] \<and> \<not> ref_flag b'"
  by (auto simp: InitHttpBuffer_def buffer_ok_def content_def split: if_splits)

lemma SetPtr_ok:
  "sz > 0 \<Longrightarrow> int (length m) = sz \<Longrightarrow>
     buffer_ok (SetHttpBufferPtr b sz m) \<and> content (SetHttpBufferPtr b sz m) = butlast m"
  by (auto simp: SetHttpBufferPtr_def buffer_ok_def content_def butlast_conv_take nat_diff_distrib')

lemma Duplicate_ok:
  assumes "buffer_ok b" "DuplicateHttpBufferPtr alloc b = (0, b')"
  shows "buffer_ok b' \<and> content b' = content b \<and> process_ptr b' = process_ptr b \<and> \<not> ref_flag b'"
  using assms
  by (auto simp: DuplicateHttpBufferPtr_def buffer_ok_def content_def area_def split: option.splits if_splits)

section \<open>Appending pieces\<close>

text \<open>The code builds a message by a sequence of appends, each followed by \<open>if( nret ) return nret;\<close>.\<close>

fun put_all :: "('b \<Rightarrow> bytes \<Rightarrow> (int \<times> 'b) option) \<Rightarrow> 'b \<Rightarrow> bytes list \<Rightarrow> (int \<times> 'b) option" where
  "put_all put b [] = Some (0, b)"
| "put_all put b (s # ss) =
     (case put b s of
        None \<Rightarrow> None
      | Some (nret, b') \<Rightarrow> if nret \<noteq> 0 then Some (nret, b') else put_all put b' ss)"

locale byte_sink =
  fixes put :: "'b \<Rightarrow> bytes \<Rightarrow> (int \<times> 'b) option"
    and ok :: "'b \<Rightarrow> bool"
    and contents :: "'b \<Rightarrow> bytes"
  assumes put_law: "ok b \<Longrightarrow> \<exists>nret b'. put b s = Some (nret, b') \<and> ok b'
                      \<and> contents b' = (if nret = 0 then contents b @ s else contents b)"
begin

lemma put_all_returns:
  "ok b \<Longrightarrow> \<exists>nret b'. put_all put b ss = Some (nret, b') \<and> ok b'
     \<and> (nret = 0 \<longrightarrow> contents b' = contents b @ concat ss)"
proof (induction ss arbitrary: b)
  case (Cons s ss)
  then obtain n1 b1 where "put b s = Some (n1, b1)" "ok b1"
    "contents b1 = (if n1 = 0 then contents b @ s else contents b)"
    using put_law by blast
  then show ?case using Cons.IH [of b1] by (cases "n1 = 0") auto
qed simp

end

definition writable :: "http_buffer \<Rightarrow> bool" where
  "writable b \<longleftrightarrow> buffer_ok b \<and> \<not> ref_flag b"

lemma appended_writable:
  "writable b \<Longrightarrow> appended s b (nret, b') \<Longrightarrow>
     writable b' \<and> content b' = (if nret = 0 then content b @ s else content b)"
  by (auto simp: writable_def appended_def split: if_splits)

lemma appended_put_law:
  assumes "writable b" "\<exists>r. put b s = Some r \<and> appended s b r"
  shows "\<exists>nret b'. put b s = Some (nret, b') \<and> writable b'
           \<and> content b' = (if nret = 0 then content b @ s else content b)"
proof -
  obtain nret b' where "put b s = Some (nret, b')" "appended s b (nret, b')" using assms(2) by auto
  then show ?thesis using appended_writable [OF assms(1)] by blast
qed

lemma Strcat_put_law:
  "writable b \<Longrightarrow> \<exists>nret b'. StrcatHttpBuffer alloc b s = Some (nret, b') \<and> writable b'
     \<and> content b' = (if nret = 0 then content b @ s else content b)"
  by (rule appended_put_law) (blast intro: Strcat_appends dest: writable_def [THEN iffD1])+

lemma Strcatf_put_law:
  "writable b \<Longrightarrow> \<exists>nret b'. StrcatfHttpBuffer alloc b s = Some (nret, b') \<and> writable b'
     \<and> content b' = (if nret = 0 then content b @ s else content b)"
  by (rule appended_put_law) (blast intro: Strcatf_appends dest: writable_def [THEN iffD1])+

interpretation strcat_sink: byte_sink "StrcatHttpBuffer alloc" writable content for alloc
  by unfold_locales (rule Strcat_put_law)

interpretation strcatf_sink: byte_sink "StrcatfHttpBuffer alloc" writable content for alloc
  by unfold_locales (rule Strcatf_put_law)

interpretation memcat_sink: byte_sink "MemcatHttpBuffer alloc" writable content for alloc
  by unfold_locales (simp add: Memcat_eq_Strcat Strcat_put_law)

text \<open>\<open>nret = f(b); if( nret ) return nret;\<close> followed by the rest of the function.\<close>

definition then_ok :: "(int \<times> 'b) option \<Rightarrow> ('b \<Rightarrow> (int \<times> 'b) option) \<Rightarrow> (int \<times> 'b) option" where
  "then_ok r k = (case r of None \<Rightarrow> None | Some (nret, b) \<Rightarrow> if nret \<noteq> 0 then Some (nret, b) else k b)"

text \<open>\<open>wrote s r\<close>: the chain of appends \<open>r\<close> returned, left a writable buffer, and if it reports
  success the buffer holds exactly \<open>s\<close>; the only failure is a failed allocation.\<close>

definition wrote :: "bytes \<Rightarrow> (int \<times> http_buffer) option \<Rightarrow> bool" where
  "wrote s r = (case r of None \<Rightarrow> False
     | Some (nret, b) \<Rightarrow> writable b \<and> process_ptr b = 0
                          \<and> (if nret = 0 then content b = s else nret = FASTERHTTP_ERROR_ALLOC))"

lemma appended_wrote:
  "writable b \<Longrightarrow> process_ptr b = 0 \<Longrightarrow> appended s b r \<Longrightarrow> wrote (content b @ s) (Some r)"
  using appended_writable [of b s "fst r" "snd r"]
  by (auto simp: wrote_def appended_def split: prod.splits if_splits)

lemma wrote_then:
  assumes "wrote s r" "\<And>b. writable b \<Longrightarrow> process_ptr b = 0 \<Longrightarrow> content b = s \<Longrightarrow> wrote t (k b)"
  shows "wrote t (then_ok r k)"
proof -
  obtain nret b where r: "r = Some (nret, b)"
    using assms(1) by (auto simp: wrote_def split: option.splits)
  show ?thesis
    using assms(1) assms(2) [of b] r
    by (cases "nret = 0") (simp_all add: wrote_def then_ok_def)
qed

lemma wrote_Strcat:
  "writable b \<Longrightarrow> process_ptr b = 0 \<Longrightarrow> wrote (content b @ s) (StrcatHttpBuffer alloc b s)"
  using Strcat_appends [of b alloc s] appended_wrote by (auto simp: writable_def)

lemma wrote_Strcatf:
  "writable b \<Longrightarrow> process_ptr b = 0 \<Longrightarrow> wrote (content b @ s) (StrcatfHttpBuffer alloc b s)"
  using Strcatf_appends [of b alloc s] appended_wrote by (auto simp: writable_def)

lemma wrote_Strcpyf:
  assumes "writable b" "process_ptr b = 0" "int (length text) < buf_size b - 1"
  shows "wrote text (StrcpyfHttpBuffer alloc b text)"
proof -
  have "take (length text) (write_at 0 (text @ [NUL]) (area b)) = text"
    by (simp add: write_at_def)
  moreover have "length (write_at 0 (text @ [NUL]) (area b)) = length (area b)"
    using assms by (intro length_write_at) (auto simp: writable_def buffer_ok_def)
  ultimately show ?thesis
    using assms
    by (subst StrcpyfHttpBuffer.simps)
       (auto simp: vsnprintf_def wrote_def writable_def buffer_ok_def content_def Let_def)
qed

lemma Strcpyf_overruns:
  assumes "int (length text) > buf_size b - 1"
  shows "\<exists>b'. StrcpyfHttpBuffer alloc b text = Some (0, b') \<and> int (fill_ptr b') \<ge> buf_size b'"
  using assms by (subst StrcpyfHttpBuffer.simps) (auto simp: vsnprintf_def Let_def)

end
