(* ===== verification/HttpEnv.thy ===== *)
theory HttpEnv
  imports HttpBuffer
begin

text \<open>
  \<open>struct HttpEnv\<close>, \<open>struct HttpHeaders\<close> and \<open>struct HttpHeader\<close> of \<open>fasterhttp.c\<close>: creation, reset and
  release of an environment, its properties, the time-out arithmetic, the table of status codes and
  the accessors of the parsed message.  A \<open>struct HttpBuffer *\<close> that a header keeps is one of the
  environment's two buffers or the library's static status-code buffer (\<open>buffer_ref\<close>); a pointer into
  a message is the pair of that reference and an offset.
\<close>

datatype buffer_ref = RequestBuffer | ResponseBuffer | StatusCodeBuffer

record http_header =
  p_buffer :: "buffer_ref option"
  name_offset :: nat
  name_len :: int
  value_offset :: nat
  value_len :: int

record http_headers =
  METHOD :: http_header
  method_n :: int
  URI :: http_header
  VERSION :: http_header
  version :: int
  STATUSCODE :: http_header
  REASONPHRASE :: http_header
  content_length :: int
  transfer_encoding__chunked :: int
  TRAILER :: http_header
  CONNECTION :: http_header
  connection__keepalive :: int
  header_array :: "http_header list"
  header_array_size :: nat
  header_array_count :: nat

text \<open>The values of \<open>parse_step\<close>: the \<open>FASTERHTTP_PARSESTEP_*\<close> constants of \<open>fasterhttp.h\<close>.\<close>

datatype parse_step =
    PARSESTEP_BEGIN
  | PARSESTEP_REQUESTSTARTLINE_METHOD0 | PARSESTEP_REQUESTSTARTLINE_METHOD
  | PARSESTEP_REQUESTSTARTLINE_URI0 | PARSESTEP_REQUESTSTARTLINE_URI
  | PARSESTEP_REQUESTSTARTLINE_VERSION0 | PARSESTEP_REQUESTSTARTLINE_VERSION
  | PARSESTEP_RESPONSESTARTLINE_VERSION0 | PARSESTEP_RESPONSESTARTLINE_VERSION
  | PARSESTEP_RESPONSESTARTLINE_STATUSCODE0 | PARSESTEP_RESPONSESTARTLINE_STATUSCODE
  | PARSESTEP_RESPONSESTARTLINE_REASONPHRASE0 | PARSESTEP_RESPONSESTARTLINE_REASONPHRASE
  | PARSESTEP_HEADER_NAME0 | PARSESTEP_HEADER_NAME
  | PARSESTEP_HEADER_VALUE0 | PARSESTEP_HEADER_VALUE
  | PARSESTEP_BODY | PARSESTEP_CHUNKED_SIZE | PARSESTEP_CHUNKED_DATA | PARSESTEP_DONE

record timeval =
  tv_sec :: int
  tv_usec :: int

record http_env =
  init_timeout :: int
  timeout :: timeval
  p_timeout :: bool  \<comment> \<open>whether \<open>p_timeout\<close> points to \<open>timeout\<close>; otherwise it is null\<close>
  enable_response_compressing :: int
  reforming_flag :: int
  request_buffer :: http_buffer
  response_buffer :: http_buffer
  p_append_buffer :: "http_buffer option"
  parse_step :: parse_step
  headers :: http_headers
  p_body_buffer :: "buffer_ref option"
  body_base_offset :: nat
  chunked_body :: nat
  chunked_body_end :: nat
  chunked_length :: int
  chunked_length_length :: int
  int_data :: int
  ptr_data :: "nat option"
  send_proc_flag :: int
  pfuncProcessBeforeSendProc :: "nat option"
  pfuncProcessAfterReceiveProc :: "nat option"

abbreviation (input) HTTP_METHOD_GET_N :: int where "HTTP_METHOD_GET_N \<equiv> 1"
abbreviation (input) HTTP_METHOD_POST_N :: int where "HTTP_METHOD_POST_N \<equiv> 2"
abbreviation (input) HTTP_METHOD_HEAD_N :: int where "HTTP_METHOD_HEAD_N \<equiv> 3"
abbreviation (input) HTTP_METHOD_TRACE_N :: int where "HTTP_METHOD_TRACE_N \<equiv> 4"
abbreviation (input) HTTP_METHOD_OPTIONS_N :: int where "HTTP_METHOD_OPTIONS_N \<equiv> 5"
abbreviation (input) HTTP_METHOD_PUT_N :: int where "HTTP_METHOD_PUT_N \<equiv> 6"
abbreviation (input) HTTP_METHOD_DELETE_N :: int where "HTTP_METHOD_DELETE_N \<equiv> 7"
abbreviation (input) HTTP_VERSION_1_0_N :: int where "HTTP_VERSION_1_0_N \<equiv> 10"
abbreviation (input) HTTP_VERSION_1_1_N :: int where "HTTP_VERSION_1_1_N \<equiv> 11"

section \<open>Status codes\<close>

text \<open>The \<open>HTTP_*\<close>, \<open>HTTP_*_S\<close> and \<open>HTTP_*_T\<close> macros of \<open>fasterhttp.h\<close>.\<close>

definition http_status_macros :: "(int \<times> bytes \<times> bytes) list" where
  "http_status_macros =
    [(100, ''100'', ''Continue''), (101, ''101'', ''Switching Protocol''), (200, ''200'', ''OK''),
     (201, ''201'', ''Created''), (202, ''202'', ''Accepted''),
     (203, ''203'', ''Non Authoritative Information''), (204, ''204'', ''No Content''),
     (205, ''205'', ''Reset Content''), (206, ''206'', ''Partial Content''),
     (300, ''300'', ''Multiple Choices''), (301, ''301'', ''Moved Permannetly''), (302, ''302'', ''Found''),
     (303, ''303'', ''See Other''), (304, ''304'', ''Not Modified''), (305, ''305'', ''Use Proxy''),
     (307, ''307'', ''Temporary Redirect''), (400, ''400'', ''Bad Request''), (401, ''401'', ''Unauthorized''),
     (402, ''402'', ''Payment Required''), (403, ''403'', ''Forbidden''), (404, ''404'', ''Not Found''),
     (405, ''405'', ''Method Not Allowed''), (406, ''406'', ''Not Acceptable''),
     (407, ''407'', ''Proxy Authentication Required''), (408, ''408'', ''Request Timeout''),
     (409, ''409'', ''Conflict''), (410, ''410'', ''Gone''), (411, ''411'', ''Length Request''),
     (412, ''412'', ''Precondition Failed''), (413, ''413'', ''Request Entity Too Large''),
     (414, ''414'', ''Request URI Too Long''), (415, ''415'', ''Unsupported Media Type''),
     (416, ''416'', ''Requested Range Not Satisfiable''), (417, ''417'', ''Expectation Failed''),
     (500, ''500'', ''Internal Server Error''), (501, ''501'', ''Not Implemented''),
     (502, ''502'', ''Bad Gateway''), (503, ''503'', ''Service Unavailable''),
     (504, ''504'', ''Gateway Timeout''), (505, ''505'', ''HTTP Version Not Supported'')]"

record http_status =
  STATUS :: int
  STATUS_S :: "bytes option"
  STATUS_T :: "bytes option"

text \<open>The static data of the library: the status table (506 entries, all zero at start) with its
  initialisation flag, and the buffer that \<open>FormatHttpResponseStartLine\<close> points the status code to.\<close>

record http_lib =
  g_init_httpstatus :: int
  g_httpstatus_array :: "http_status list"
  status_code_httpbuf :: http_buffer

definition http_lib_init :: http_lib where
  "http_lib_init = \<lparr>g_init_httpstatus = 0,
     g_httpstatus_array = replicate 506 \<lparr>STATUS = 0, STATUS_S = None, STATUS_T = None\<rparr>,
     status_code_httpbuf = zero_buffer\<rparr>"

definition SetHttpStatus :: "http_lib \<Rightarrow> int \<Rightarrow> bytes \<Rightarrow> bytes \<Rightarrow> http_lib" where
  "SetHttpStatus l code s t =
     l\<lparr>g_httpstatus_array := (g_httpstatus_array l)
         [nat code := \<lparr>STATUS = code, STATUS_S = Some s, STATUS_T = Some t\<rparr>]\<rparr>"

definition ResetAllHttpStatus :: "http_lib \<Rightarrow> http_lib" where
  "ResetAllHttpStatus l =
     (if g_init_httpstatus l = 0
      then (fold (\<lambda>(code, s, t) l. SetHttpStatus l code s t) http_status_macros l)\<lparr>g_init_httpstatus := 1\<rparr>
      else l)"

definition GetHttpStatus :: "http_lib \<Rightarrow> int \<Rightarrow> bytes option \<times> bytes option" where
  "GetHttpStatus l code =
     (let s = g_httpstatus_array l ! nat code in (STATUS_S s, STATUS_T s))"

section \<open>Creation, reset and properties\<close>

definition zero_header :: http_header where
  "zero_header = \<lparr>p_buffer = None, name_offset = 0, name_len = 0, value_offset = 0, value_len = 0\<rparr>"

definition zero_headers :: http_headers where
  "zero_headers = \<lparr>METHOD = zero_header, method_n = 0, URI = zero_header, VERSION = zero_header, version = 0,
     STATUSCODE = zero_header, REASONPHRASE = zero_header, content_length = 0,
     transfer_encoding__chunked = 0, TRAILER = zero_header, CONNECTION = zero_header,
     connection__keepalive = 0, header_array = [], header_array_size = 0, header_array_count = 0\<rparr>"

definition zero_env :: http_env where
  "zero_env = \<lparr>init_timeout = 0, timeout = \<lparr>tv_sec = 0, tv_usec = 0\<rparr>, p_timeout = False,
     enable_response_compressing = 0, reforming_flag = 0, request_buffer = zero_buffer,
     response_buffer = zero_buffer, p_append_buffer = None, parse_step = PARSESTEP_BEGIN,
     headers = zero_headers, p_body_buffer = None, body_base_offset = 0, chunked_body = 0,
     chunked_body_end = 0, chunked_length = 0, chunked_length_length = 0, int_data = 0, ptr_data = None,
     send_proc_flag = 0, pfuncProcessBeforeSendProc = None, pfuncProcessAfterReceiveProc = None\<rparr>"

definition ResetHttpTimeout :: "http_env \<Rightarrow> http_env" where
  "ResetHttpTimeout e =
     (if init_timeout e \<ge> 0
      then e\<lparr>timeout := \<lparr>tv_sec = init_timeout e, tv_usec = 0\<rparr>, p_timeout := True\<rparr>
      else e\<lparr>p_timeout := False\<rparr>)"

definition SetHttpTimeout :: "http_env \<Rightarrow> int \<Rightarrow> http_env" where
  "SetHttpTimeout e t = ResetHttpTimeout (e\<lparr>init_timeout := t\<rparr>)"

definition GetHttpElapse :: "http_env \<Rightarrow> timeval option" where
  "GetHttpElapse e = (if p_timeout e then Some (timeout e) else None)"

text \<open>\<open>(char)enable_response_compressing\<close> keeps the low byte.\<close>

definition EnableHttpResponseCompressing :: "http_env \<Rightarrow> int \<Rightarrow> http_env" where
  "EnableHttpResponseCompressing e n = e\<lparr>enable_response_compressing := signed_take_bit 7 n\<rparr>"

definition SetParserCustomIntData :: "http_env \<Rightarrow> int \<Rightarrow> http_env" where
  "SetParserCustomIntData e n = e\<lparr>int_data := n\<rparr>"

definition GetParserCustomIntData :: "http_env \<Rightarrow> int" where
  "GetParserCustomIntData e = int_data e"

definition SetParserCustomPtrData :: "http_env \<Rightarrow> nat option \<Rightarrow> http_env" where
  "SetParserCustomPtrData e p = e\<lparr>ptr_data := p\<rparr>"

definition GetParserCustomPtrData :: "http_env \<Rightarrow> nat option" where
  "GetParserCustomPtrData e = ptr_data e"

definition SetProcessBeforeSendProc :: "http_env \<Rightarrow> nat option \<Rightarrow> http_env" where
  "SetProcessBeforeSendProc e f = e\<lparr>pfuncProcessBeforeSendProc := f\<rparr>"

definition SetProcessAfterReceiveProc :: "http_env \<Rightarrow> nat option \<Rightarrow> http_env" where
  "SetProcessAfterReceiveProc e f = e\<lparr>pfuncProcessAfterReceiveProc := f\<rparr>"

abbreviation FASTERHTTP_TIMEOUT_DEFAULT :: int where "FASTERHTTP_TIMEOUT_DEFAULT \<equiv> 60"
abbreviation FASTERHTTP_REQUEST_BUFSIZE_DEFAULT :: int where "FASTERHTTP_REQUEST_BUFSIZE_DEFAULT \<equiv> 512"
abbreviation FASTERHTTP_RESPONSE_BUFSIZE_DEFAULT :: int where "FASTERHTTP_RESPONSE_BUFSIZE_DEFAULT \<equiv> 1024"
abbreviation FASTERHTTP_HEADER_ARRAYSIZE_DEFAULT :: nat where "FASTERHTTP_HEADER_ARRAYSIZE_DEFAULT \<equiv> 8"
abbreviation FASTERHTTP_REQUEST_BUFSIZE_MAX :: int where "FASTERHTTP_REQUEST_BUFSIZE_MAX \<equiv> 10 * 1024"
abbreviation FASTERHTTP_RESPONSE_BUFSIZE_MAX :: int where "FASTERHTTP_RESPONSE_BUFSIZE_MAX \<equiv> 100 * 1024"
abbreviation FASTERHTTP_HEADER_ARRAYSIZE_MAX :: nat where "FASTERHTTP_HEADER_ARRAYSIZE_MAX \<equiv> 32"
abbreviation sizeof_HttpHeader :: int where "sizeof_HttpHeader \<equiv> 24"

text \<open>\<open>CreateHttpEnv\<close>; \<open>node\<close> says whether the \<open>malloc\<close> of the struct succeeds.\<close>

definition CreateHttpEnv :: "bool \<Rightarrow> allocator \<Rightarrow> http_lib \<Rightarrow> http_env option \<times> http_lib" where
  "CreateHttpEnv node alloc l =
     (let l = ResetAllHttpStatus l in
      if \<not> node then (None, l)
      else
        let e = SetHttpTimeout zero_env FASTERHTTP_TIMEOUT_DEFAULT;
            (nret, rb) = InitHttpBuffer alloc (request_buffer e) FASTERHTTP_REQUEST_BUFSIZE_DEFAULT in
        if nret \<noteq> 0 then (None, l)
        else
          let (nret, sb) = InitHttpBuffer alloc (response_buffer e) FASTERHTTP_RESPONSE_BUFSIZE_DEFAULT in
          if nret \<noteq> 0 then (None, l)
          else if \<not> alloc (sizeof_HttpHeader * int FASTERHTTP_HEADER_ARRAYSIZE_DEFAULT) then (None, l)
          else (Some (e\<lparr>request_buffer := rb, response_buffer := sb,
                        headers := (headers e)
                          \<lparr>header_array_size := FASTERHTTP_HEADER_ARRAYSIZE_DEFAULT,
                           header_array := replicate FASTERHTTP_HEADER_ARRAYSIZE_DEFAULT zero_header,
                           header_array_count := 0\<rparr>,
                        parse_step := PARSESTEP_BEGIN\<rparr>), l))"

text \<open>The part of \<open>ResetHttpEnv\<close> that treats one buffer: keep the bytes behind \<open>process_ptr\<close> when the
  parser has marked the environment for reforming, forget everything otherwise.\<close>

definition reset_env_buffer :: "int \<Rightarrow> http_buffer \<Rightarrow> http_buffer \<times> int" where
  "reset_env_buffer flag b =
     (if \<not> ref_flag b \<and> process_ptr b < fill_ptr b \<and> flag = 1
      then (ReformingHttpBuffer b, 0)
      else (ResetHttpBuffer b, flag))"

definition reset_header_fields :: "allocator \<Rightarrow> http_headers \<Rightarrow> http_headers" where
  "reset_header_fields alloc hs =
     (let z = (\<lambda>h. h\<lparr>p_buffer := None, value_offset := 0, value_len := 0\<rparr>);
          hs = hs\<lparr>METHOD := z (METHOD hs), method_n := 0, URI := z (URI hs), VERSION := z (VERSION hs),
                  version := 0, STATUSCODE := z (STATUSCODE hs), REASONPHRASE := z (REASONPHRASE hs),
                  content_length := 0, TRAILER := z (TRAILER hs), transfer_encoding__chunked := 0,
                  connection__keepalive := 0\<rparr>;
          hs = (if header_array_size hs > FASTERHTTP_HEADER_ARRAYSIZE_MAX
                   \<and> alloc (sizeof_HttpHeader * int FASTERHTTP_HEADER_ARRAYSIZE_DEFAULT)
                then hs\<lparr>header_array_size := FASTERHTTP_HEADER_ARRAYSIZE_DEFAULT\<rparr> else hs) in
      hs\<lparr>header_array := replicate (header_array_size hs) zero_header, header_array_count := 0\<rparr>)"

definition ResetHttpEnv :: "allocator \<Rightarrow> http_env \<Rightarrow> http_env" where
  "ResetHttpEnv alloc e =
     (let e = ResetHttpTimeout e;
          e = (if enable_response_compressing e = 2 then e\<lparr>enable_response_compressing := 1\<rparr> else e);
          (b, flag) = reset_env_buffer (reforming_flag e) (request_buffer e);
          b = (if \<not> ref_flag b \<and> buf_size b > FASTERHTTP_REQUEST_BUFSIZE_MAX
                  \<and> int (fill_ptr b) - int (process_ptr b) < FASTERHTTP_REQUEST_BUFSIZE_MAX
               then snd (ReallocHttpBuffer alloc b FASTERHTTP_REQUEST_BUFSIZE_MAX) else b);
          e = e\<lparr>request_buffer := b, reforming_flag := flag\<rparr>;
          (b, flag) = reset_env_buffer (reforming_flag e) (response_buffer e);
          b = (if \<not> ref_flag b \<and> buf_size b > FASTERHTTP_RESPONSE_BUFSIZE_MAX
               then snd (ReallocHttpBuffer alloc b FASTERHTTP_RESPONSE_BUFSIZE_MAX) else b) in
      e\<lparr>response_buffer := b, reforming_flag := flag, p_append_buffer := None,
        parse_step := PARSESTEP_BEGIN, p_body_buffer := None, body_base_offset := 0, chunked_body := 0,
        chunked_body_end := 0, chunked_length := 0, chunked_length_length := 0, send_proc_flag := 0,
        headers := reset_header_fields alloc (headers e)\<rparr>)"

text \<open>\<open>DestroyHttpEnv\<close> releases the areas that the environment owns; what is left of it is freed.\<close>

definition DestroyHttpEnv :: "http_env option \<Rightarrow> (http_buffer \<times> http_buffer) option" where
  "DestroyHttpEnv eo =
     (case eo of None \<Rightarrow> None
      | Some e \<Rightarrow> Some (CleanHttpBuffer (request_buffer e), CleanHttpBuffer (response_buffer e)))"

text \<open>\<open>AjustTimeval\<close> (the branch for Unix): subtract the time between \<open>t1\<close> and \<open>t2\<close>.\<close>

function borrow_usec :: "timeval \<Rightarrow> timeval" where
  "borrow_usec t = (if tv_usec t < 0
     then borrow_usec (t\<lparr>tv_usec := tv_usec t + 1000000, tv_sec := tv_sec t - 1\<rparr>) else t)"
  by pat_completeness auto
termination by (relation "measure (\<lambda>t. nat (- tv_usec t))") auto

declare borrow_usec.simps [simp del]

definition AjustTimeval :: "timeval \<Rightarrow> timeval \<Rightarrow> timeval \<Rightarrow> timeval" where
  "AjustTimeval ptv t1 t2 =
     (let t = borrow_usec (ptv\<lparr>tv_sec := tv_sec ptv - (tv_sec t2 - tv_sec t1),
                                tv_usec := tv_usec ptv - (tv_usec t2 - tv_usec t1)\<rparr>) in
      if tv_sec t < 0 then t\<lparr>tv_sec := 0\<rparr> else t)"

section \<open>Lemmas\<close>

definition micros :: "timeval \<Rightarrow> int" where
  "micros t = tv_sec t * 1000000 + tv_usec t"

lemma borrow_usec_result:
  "micros (borrow_usec t) = micros t \<and> 0 \<le> tv_usec (borrow_usec t)
     \<and> tv_usec (borrow_usec t) \<le> max (tv_usec t) 999999"
proof (induction t rule: borrow_usec.induct)
  case (1 t)
  show ?case
  proof (cases "tv_usec t < 0")
    case True
    then show ?thesis using 1 by (auto simp: borrow_usec.simps [of t] micros_def)
  next
    case False
    then show ?thesis by (simp add: borrow_usec.simps [of t])
  qed
qed

text \<open>While more than a second is left the subtraction is exact; afterwards up to two seconds remain.\<close>

lemma AjustTimeval_micros:
  assumes "tv_usec ptv \<le> 999999" "tv_usec t1 \<le> 999999" "0 \<le> tv_usec t2"
  defines "left \<equiv> micros ptv - (micros t2 - micros t1)"
  shows "1000000 \<le> left \<Longrightarrow> micros (AjustTimeval ptv t1 t2) = left"
    "0 \<le> micros (AjustTimeval ptv t1 t2)" "left < 0 \<Longrightarrow> micros (AjustTimeval ptv t1 t2) < 2000000"
proof -
  define t where "t = ptv\<lparr>tv_sec := tv_sec ptv - (tv_sec t2 - tv_sec t1),
                          tv_usec := tv_usec ptv - (tv_usec t2 - tv_usec t1)\<rparr>"
  have t: "micros t = left" "tv_usec t \<le> 1999998"
    using assms by (simp_all add: t_def left_def micros_def)
  have "AjustTimeval ptv t1 t2 =
      (if tv_sec (borrow_usec t) < 0 then (borrow_usec t)\<lparr>tv_sec := 0\<rparr> else borrow_usec t)"
    by (simp add: AjustTimeval_def t_def Let_def)
  then show "1000000 \<le> left \<Longrightarrow> micros (AjustTimeval ptv t1 t2) = left"
    "0 \<le> micros (AjustTimeval ptv t1 t2)" "left < 0 \<Longrightarrow> micros (AjustTimeval ptv t1 t2) < 2000000"
    using borrow_usec_result [of t] t by (auto simp: micros_def max_def split: if_splits)
qed

lemma status_table_distinct: "distinct (map fst http_status_macros)"
  by (simp add: http_status_macros_def)

lemma status_table_codes: "\<forall>x \<in> set http_status_macros. 100 \<le> fst x \<and> fst x \<le> 505"
  by (simp add: http_status_macros_def)

lemma fold_SetHttpStatus:
  assumes "distinct (map fst ms)" "\<forall>x \<in> set ms. 0 \<le> fst x \<and> nat (fst x) < length (g_httpstatus_array l)"
    and "(code, s, t) \<in> set ms"
  shows "GetHttpStatus (fold (\<lambda>(code, s, t) l. SetHttpStatus l code s t) ms l) code = (Some s, Some t)"
  using assms
proof (induction ms arbitrary: l)
  case (Cons m ms)
  obtain c s1 t1 where m: "m = (c, s1, t1)" by (cases m)
  let ?l = "SetHttpStatus l c s1 t1"
  have len: "length (g_httpstatus_array ?l) = length (g_httpstatus_array l)" by (simp add: SetHttpStatus_def)
  show ?case
  proof (cases "(code, s, t) \<in> set ms")
    case True
    then show ?thesis using Cons.IH [of ?l] Cons.prems len m by simp
  next
    case False
    then have eq: "code = c" "s = s1" "t = t1" using Cons.prems(3) m by auto
    have "GetHttpStatus (fold (\<lambda>(code, s, t) l. SetHttpStatus l code s t) ms l') code = GetHttpStatus l' code"
      if "\<forall>x \<in> set ms. 0 \<le> fst x \<and> fst x \<noteq> code" "0 \<le> code" for l'
      using that
    proof (induction ms arbitrary: l')
      case (Cons m ms)
      then show ?case
        by (cases m) (auto simp: GetHttpStatus_def SetHttpStatus_def Let_def nth_list_update)
    qed simp
    moreover have "\<forall>x \<in> set ms. 0 \<le> fst x \<and> fst x \<noteq> code" "0 \<le> code"
      using Cons.prems m eq by auto
    ultimately show ?thesis
      using Cons.prems m eq by (simp add: GetHttpStatus_def SetHttpStatus_def Let_def)
  qed
qed simp

lemma GetHttpStatus_table:
  assumes "(code, s, t) \<in> set http_status_macros"
  shows "GetHttpStatus (ResetAllHttpStatus http_lib_init) code = (Some s, Some t)"
proof -
  have "\<forall>x \<in> set http_status_macros. 0 \<le> fst x \<and> nat (fst x) < length (g_httpstatus_array http_lib_init)"
    using status_table_codes by (auto simp: http_lib_init_def)
  then have "GetHttpStatus (fold (\<lambda>(code, s, t) l. SetHttpStatus l code s t) http_status_macros http_lib_init) code
      = (Some s, Some t)"
    using fold_SetHttpStatus [OF status_table_distinct _ assms] by blast
  then show ?thesis
    by (simp add: ResetAllHttpStatus_def GetHttpStatus_def Let_def) (simp add: http_lib_init_def)
qed

end
