(* ===== verification/HttpMessage.thy ===== *)
theory HttpMessage
  imports HttpEnv
begin

text \<open>
  The accessors of a parsed message (\<open>GetHttpHeader*\<close>, \<open>QueryHttpHeader*\<close>, \<open>TravelHttpHeaderPtr\<close>,
  \<open>GetHttpBody*\<close>), the keep-alive rule, the tokeniser of header values and the start line of a
  response (\<open>FormatHttpResponseStartLine\<close>) of \<open>fasterhttp.c\<close>.  A pointer into a message is a
  \<open>buffer_ref\<close> with an offset; \<open>pointed_area\<close> reads it.
\<close>

type_synonym msg_ptr = "buffer_ref \<times> nat"

fun buffer_at :: "http_lib \<Rightarrow> http_env \<Rightarrow> buffer_ref \<Rightarrow> http_buffer" where
  "buffer_at l e RequestBuffer = request_buffer e"
| "buffer_at l e ResponseBuffer = response_buffer e"
| "buffer_at l e StatusCodeBuffer = status_code_httpbuf l"

definition deref :: "http_lib \<Rightarrow> http_env \<Rightarrow> msg_ptr \<Rightarrow> int \<Rightarrow> bytes" where
  "deref l e p len = slice (snd p) (nat len) (area (buffer_at l e (fst p)))"

definition value_ptr :: "http_header \<Rightarrow> msg_ptr option" where
  "value_ptr h = map_option (\<lambda>r. (r, value_offset h)) (p_buffer h)"

section \<open>Accessors\<close>

definition GetHttpHeaderPtr_METHOD :: "http_env \<Rightarrow> msg_ptr option \<times> int" where
  "GetHttpHeaderPtr_METHOD e = (let h = METHOD (headers e) in (value_ptr h, value_len h))"
definition GetHttpHeaderLen_METHOD :: "http_env \<Rightarrow> int" where
  "GetHttpHeaderLen_METHOD e = value_len (METHOD (headers e))"
definition GetHttpHeaderPtr_URI :: "http_env \<Rightarrow> msg_ptr option \<times> int" where
  "GetHttpHeaderPtr_URI e = (let h = URI (headers e) in (value_ptr h, value_len h))"
definition GetHttpHeaderLen_URI :: "http_env \<Rightarrow> int" where
  "GetHttpHeaderLen_URI e = value_len (URI (headers e))"
definition GetHttpHeaderPtr_VERSION :: "http_env \<Rightarrow> msg_ptr option \<times> int" where
  "GetHttpHeaderPtr_VERSION e = (let h = VERSION (headers e) in (value_ptr h, value_len h))"
definition GetHttpHeaderLen_VERSION :: "http_env \<Rightarrow> int" where
  "GetHttpHeaderLen_VERSION e = value_len (VERSION (headers e))"
definition GetHttpHeaderPtr_STATUSCODE :: "http_env \<Rightarrow> msg_ptr option \<times> int" where
  "GetHttpHeaderPtr_STATUSCODE e = (let h = STATUSCODE (headers e) in (value_ptr h, value_len h))"
definition GetHttpHeaderLen_STATUSCODE :: "http_env \<Rightarrow> int" where
  "GetHttpHeaderLen_STATUSCODE e = value_len (STATUSCODE (headers e))"
definition GetHttpHeaderPtr_REASONPHRASE :: "http_env \<Rightarrow> msg_ptr option \<times> int" where
  "GetHttpHeaderPtr_REASONPHRASE e = (let h = REASONPHRASE (headers e) in (value_ptr h, value_len h))"
definition GetHttpHeaderLen_REASONPHRASE :: "http_env \<Rightarrow> int" where
  "GetHttpHeaderLen_REASONPHRASE e = value_len (REASONPHRASE (headers e))"
definition GetHttpHeader_METHOD :: "http_env \<Rightarrow> int" where
  "GetHttpHeader_METHOD e = method_n (headers e)"
definition GetHttpHeader_VERSION :: "http_env \<Rightarrow> int" where
  "GetHttpHeader_VERSION e = version (headers e)"

text \<open>Does the header entry \<open>h\<close> carry exactly the name \<open>name\<close> (compared byte by byte)?\<close>

definition header_named :: "http_lib \<Rightarrow> http_env \<Rightarrow> bytes \<Rightarrow> http_header \<Rightarrow> bool" where
  "header_named l e name h =
     (case p_buffer h of
        None \<Rightarrow> False
      | Some r \<Rightarrow> base (buffer_at l e r) \<noteq> None \<and> name_len h = int (length name)
                  \<and> deref l e (r, name_offset h) (int (length name)) = name)"

text \<open>A pointer to a header entry is its index in \<open>header_array\<close>.\<close>

definition QueryHttpHeader :: "http_lib \<Rightarrow> http_env \<Rightarrow> bytes \<Rightarrow> nat option" where
  "QueryHttpHeader l e name =
     List.find (\<lambda>i. header_named l e name (header_array (headers e) ! i)) [0..<header_array_size (headers e)]"

definition QueryHttpHeaderPtr :: "http_lib \<Rightarrow> http_env \<Rightarrow> bytes \<Rightarrow> (msg_ptr \<times> int) option" where
  "QueryHttpHeaderPtr l e name =
     (case QueryHttpHeader l e name of
        None \<Rightarrow> None
      | Some i \<Rightarrow> let h = header_array (headers e) ! i in
                  map_option (\<lambda>p. (p, value_len h)) (value_ptr h))"

definition QueryHttpHeaderLen :: "http_lib \<Rightarrow> http_env \<Rightarrow> bytes \<Rightarrow> int" where
  "QueryHttpHeaderLen l e name =
     (case QueryHttpHeader l e name of None \<Rightarrow> 0 | Some i \<Rightarrow> value_len (header_array (headers e) ! i))"

definition CountHttpHeaders :: "http_env \<Rightarrow> nat" where
  "CountHttpHeaders e = header_array_count (headers e)"

definition TravelHttpHeaderPtr :: "http_env \<Rightarrow> nat option \<Rightarrow> nat option" where
  "TravelHttpHeaderPtr e po =
     (let start = (case po of None \<Rightarrow> 0 | Some i \<Rightarrow> i + 1) in
      List.find (\<lambda>i. name_offset (header_array (headers e) ! i) \<noteq> 0) [start..<header_array_size (headers e)])"

definition GetHttpHeaderNamePtr :: "http_header option \<Rightarrow> (msg_ptr option \<times> int) option" where
  "GetHttpHeaderNamePtr ho =
     map_option (\<lambda>h. (map_option (\<lambda>r. (r, name_offset h)) (p_buffer h), name_len h)) ho"
definition GetHttpHeaderNameLen :: "http_header \<Rightarrow> int" where
  "GetHttpHeaderNameLen h = name_len h"
definition GetHttpHeaderValuePtr :: "http_header option \<Rightarrow> (msg_ptr option \<times> int) option" where
  "GetHttpHeaderValuePtr ho = map_option (\<lambda>h. (value_ptr h, value_len h)) ho"
definition GetHttpHeaderValueLen :: "http_header \<Rightarrow> int" where
  "GetHttpHeaderValueLen h = value_len h"

definition GetHttpBodyPtr :: "http_env \<Rightarrow> msg_ptr option \<times> int" where
  "GetHttpBodyPtr e =
     ((if content_length (headers e) > 0
       then map_option (\<lambda>r. (r, body_base_offset e)) (p_body_buffer e) else None),
      content_length (headers e))"

definition GetHttpBodyLen :: "http_env \<Rightarrow> int" where
  "GetHttpBodyLen e = content_length (headers e)"

definition TruncateHttpBodyLen :: "http_env \<Rightarrow> int \<Rightarrow> http_env" where
  "TruncateHttpBodyLen e n = e\<lparr>headers := (headers e)\<lparr>content_length := n\<rparr>\<rparr>"

definition GetHttpRequestBuffer :: "http_env \<Rightarrow> http_buffer" where
  "GetHttpRequestBuffer e = request_buffer e"
definition GetHttpResponseBuffer :: "http_env \<Rightarrow> http_buffer" where
  "GetHttpResponseBuffer e = response_buffer e"
definition GetHttpAppendBuffer :: "http_env \<Rightarrow> http_buffer option" where
  "GetHttpAppendBuffer e = p_append_buffer e"
definition AppendHttpBuffer :: "http_env \<Rightarrow> http_buffer option \<Rightarrow> http_env" where
  "AppendHttpBuffer e b = e\<lparr>p_append_buffer := b\<rparr>"

definition CopyHttpHeader_STATUSCODE :: "http_env \<Rightarrow> http_env \<Rightarrow> http_env" where
  "CopyHttpHeader_STATUSCODE e e2 = e\<lparr>headers := (headers e)\<lparr>STATUSCODE := STATUSCODE (headers e2)\<rparr>\<rparr>"

text \<open>\<open>atoi\<close> on at most three bytes: white space, a sign and the digits that follow.\<close>

definition is_space :: "char \<Rightarrow> bool" where
  "is_space c \<longleftrightarrow> c \<in> {SP, TAB, LF, CHR 0x0B, CHR 0x0C, CR}"

definition digits_value :: "bytes \<Rightarrow> int" where
  "digits_value s = foldl (\<lambda>v c. v * 10 + (char_int c - 48)) 0 (takeWhile is_digit s)"

definition signed_digits :: "bytes \<Rightarrow> int" where
  "signed_digits s =
     (let t = dropWhile is_space s in
      if t \<noteq> [] \<and> hd t = CHR ''-'' then - digits_value (tl t)
      else if t \<noteq> [] \<and> hd t = CHR ''+'' then digits_value (tl t) else digits_value t)"

definition GetHttpStatusCode :: "http_lib \<Rightarrow> http_env \<Rightarrow> int" where
  "GetHttpStatusCode l e =
     (case GetHttpHeaderPtr_STATUSCODE e of
        (None, _) \<Rightarrow> - 1
      | (Some p, len) \<Rightarrow> if len \<noteq> 3 then - 1 else signed_digits (cstr (deref l e p 3)))"

section \<open>Keep-alive\<close>

definition CheckHttpKeepAlive :: "http_env \<Rightarrow> bool" where
  "CheckHttpKeepAlive e \<longleftrightarrow>
     (version (headers e) = HTTP_VERSION_1_0_N \<and> connection__keepalive (headers e) = 1)
     \<or> (version (headers e) = HTTP_VERSION_1_1_N \<and> connection__keepalive (headers e) \<noteq> - 1)"

definition SetHttpKeepAlive :: "http_env \<Rightarrow> bool \<Rightarrow> http_env" where
  "SetHttpKeepAlive e keepalive =
     e\<lparr>headers := (headers e)\<lparr>connection__keepalive :=
         (if keepalive then 1
          else if version (headers e) = HTTP_VERSION_1_0_N then 0
          else if version (headers e) = HTTP_VERSION_1_1_N then - 1
          else 0)\<rparr>\<rparr>"

section \<open>Tokens of a header value\<close>

text \<open>\<open>TokenHttpHeaderValue\<close> on the bytes from \<open>str\<close> on; the end of the list counts as the NUL.  The
  result is the offset of the token, its length and the offset behind it.\<close>

definition token_sep :: "char \<Rightarrow> bool" where
  "token_sep c \<longleftrightarrow> c = SP \<or> c = CHR '',''"

definition token_end :: "char \<Rightarrow> bool" where
  "token_end c \<longleftrightarrow> c = CR \<or> c = LF \<or> c = NUL"

definition TokenHttpHeaderValue :: "bytes \<Rightarrow> (nat \<times> nat \<times> nat) option" where
  "TokenHttpHeaderValue str =
     (let skip = length (takeWhile token_sep str); rest = drop skip str in
      if rest = [] \<or> token_end (hd rest) then None
      else let len = length (takeWhile (\<lambda>c. \<not> token_sep c \<and> \<not> token_end c) rest) in
           if len = 0 then None else Some (skip, len, skip + len))"

text \<open>The loop in which the callers use it.\<close>

function header_tokens :: "bytes \<Rightarrow> bytes list" where
  "header_tokens str =
     (case TokenHttpHeaderValue str of
        None \<Rightarrow> []
      | Some (off, len, next) \<Rightarrow> slice off len str # header_tokens (drop next str))"
  by pat_completeness auto

lemma TokenHttpHeaderValue_bounds:
  assumes "TokenHttpHeaderValue str = Some (off, len, next)"
  shows "next = off + len" "0 < len" "next \<le> length str"
proof -
  let ?rest = "drop (length (takeWhile token_sep str)) str"
  let ?tok = "takeWhile (\<lambda>c. \<not> token_sep c \<and> \<not> token_end c) ?rest"
  have *: "off = length (takeWhile token_sep str)" "len = length ?tok" "next = off + len" "0 < len"
    using assms by (auto simp: TokenHttpHeaderValue_def Let_def split: if_splits)
  moreover have "length ?tok \<le> length ?rest" "length (takeWhile token_sep str) \<le> length str"
    by (rule length_takeWhile_le)+
  ultimately show "next = off + len" "0 < len" "next \<le> length str" by auto
qed

termination header_tokens
  using TokenHttpHeaderValue_bounds by (relation "measure length") fastforce+

declare header_tokens.simps [simp del]

section \<open>The start line of a response\<close>

text \<open>The \<open>switch\<close> of \<open>FormatHttpResponseStartLine\<close>: its cases are the codes of the macro table, its
  default is the line of code 500.\<close>

definition status_line :: "int \<Rightarrow> bytes" where
  "status_line code =
     (case map_of http_status_macros code of
        Some (s, t) \<Rightarrow> '' '' @ s @ '' '' @ t @ [CR, LF]
      | None \<Rightarrow> '' 500 Internal Server Error'' @ [CR, LF])"

definition startline_pieces ::
    "allocator \<Rightarrow> http_lib \<Rightarrow> http_env \<Rightarrow> int \<Rightarrow> bytes \<Rightarrow> bytes option \<Rightarrow> (int \<times> http_buffer) option" where
  "startline_pieces alloc l e code vtext format =
     then_ok (StrcpyfHttpBuffer alloc (response_buffer e) vtext) (\<lambda>b.
     then_ok (StrcatfHttpBuffer alloc b (status_line code)) (\<lambda>b.
     then_ok (if CheckHttpKeepAlive e
              then StrcatHttpBuffer alloc b (''Connection: keep-alive'' @ [CR, LF]) else Some (0, b)) (\<lambda>b.
     (case format of None \<Rightarrow> Some (0, b) | Some text \<Rightarrow> StrcatvHttpBuffer alloc b text))))"

text \<open>\<open>format\<close> is the expanded variable text (\<open>None\<close> for a null format).  A code without an entry in
  the status table has a null text, and \<open>strlen\<close> of it does not return: \<open>None\<close>.\<close>

definition FormatHttpResponseStartLine ::
    "allocator \<Rightarrow> http_lib \<Rightarrow> int \<Rightarrow> http_env \<Rightarrow> bool \<Rightarrow> bytes option \<Rightarrow> (int \<times> http_lib \<times> http_env) option" where
  "FormatHttpResponseStartLine alloc l status_code e fill_body_with_status_flag format =
     (let code = (if status_code \<le> 0 then 500 else status_code) in
      case GetHttpHeaderPtr_VERSION e of
        (None, _) \<Rightarrow> Some (- 1, l, e)
      | (Some v, vlen) \<Rightarrow>
        (case startline_pieces alloc l e code (cstr (deref l e v vlen)) format of
           None \<Rightarrow> None
         | Some (nret, b) \<Rightarrow>
           if nret \<noteq> 0 then Some (nret, l, e\<lparr>response_buffer := b\<rparr>)
           else
             let (s, t) = GetHttpStatus l code;
                 l = l\<lparr>status_code_httpbuf := zero_buffer\<lparr>base := s\<rparr>\<rparr>;
                 e = e\<lparr>response_buffer := b,
                       headers := (headers e)\<lparr>STATUSCODE := (STATUSCODE (headers e))
                         \<lparr>p_buffer := Some StatusCodeBuffer, value_offset := 0, value_len := 3\<rparr>\<rparr>\<rparr> in
             if \<not> fill_body_with_status_flag then Some (0, l, e)
             else
               (case t of
                  None \<Rightarrow> None
                | Some text \<Rightarrow>
                  (case StrcatfHttpBuffer alloc b
                          (''Content-length: '' @ decimal (length text) @ [CR, LF, CR, LF] @ text) of
                     None \<Rightarrow> None
                   | Some (nret, b) \<Rightarrow> Some (nret, l, e\<lparr>response_buffer := b\<rparr>)))))"

section \<open>Lemmas\<close>

text \<open>A value printed as separators and tokens in turn, up to the end of the line, is read back as the
  tokens.\<close>

definition tokens_text :: "(bytes \<times> bytes) list \<Rightarrow> bytes" where
  "tokens_text sws = concat (map (\<lambda>(s, w). s @ w) sws)"

definition is_token :: "bytes \<Rightarrow> bool" where
  "is_token w \<longleftrightarrow> w \<noteq> [] \<and> (\<forall>c \<in> set w. \<not> token_sep c \<and> \<not> token_end c)"

lemma sep_not_end: "token_sep c \<Longrightarrow> \<not> token_end c"
  by (auto simp: token_sep_def token_end_def)

lemma TokenHttpHeaderValue_token:
  assumes "\<forall>c \<in> set s. token_sep c" "is_token w" "r = [] \<or> token_sep (hd r) \<or> token_end (hd r)"
  shows "TokenHttpHeaderValue (s @ w @ r) = Some (length s, length w, length s + length w)"
proof -
  have w: "w \<noteq> []" "\<not> token_sep (hd w)" "\<not> token_end (hd w)" "\<forall>c \<in> set w. \<not> token_sep c \<and> \<not> token_end c"
    using assms(2) by (auto simp: is_token_def)
  have "takeWhile token_sep (w @ r) = []" using w(1,2) by (cases w) auto
  then have "takeWhile token_sep (s @ w @ r) = s" using assms(1) by (simp add: takeWhile_append2)
  moreover have "takeWhile (\<lambda>c. \<not> token_sep c \<and> \<not> token_end c) r = []" using assms(3) by (cases r) auto
  then have "takeWhile (\<lambda>c. \<not> token_sep c \<and> \<not> token_end c) (w @ r) = w"
    using w(4) by (simp add: takeWhile_append2)
  ultimately show ?thesis using w(1,3) by (simp add: TokenHttpHeaderValue_def Let_def)
qed

lemma TokenHttpHeaderValue_none:
  assumes "\<forall>c \<in> set s. token_sep c" "r = [] \<or> token_end (hd r)"
  shows "TokenHttpHeaderValue (s @ r) = None"
proof -
  have "takeWhile token_sep r = []" using assms(2) sep_not_end by (cases r) auto
  then have "takeWhile token_sep (s @ r) = s" using assms(1) by (simp add: takeWhile_append2)
  then show ?thesis using assms(2) by (auto simp: TokenHttpHeaderValue_def Let_def)
qed

lemma header_tokens_printed:
  assumes "\<forall>(s, w) \<in> set sws. (\<forall>c \<in> set s. token_sep c) \<and> is_token w" "\<forall>(s, w) \<in> set (tl sws). s \<noteq> []"
    and "\<forall>c \<in> set sp. token_sep c" "r = [] \<or> token_end (hd r)"
  shows "header_tokens (tokens_text sws @ sp @ r) = map snd sws"
  using assms(1,2)
proof (induction sws)
  case Nil
  then show ?case
    using TokenHttpHeaderValue_none [OF assms(3,4)] by (simp add: tokens_text_def header_tokens.simps)
next
  case (Cons sw sws)
  obtain s w where sw: "sw = (s, w)" by (cases sw)
  let ?r = "tokens_text sws @ sp @ r"
  have "?r = [] \<or> token_sep (hd ?r) \<or> token_end (hd ?r)"
  proof (cases sws)
    case Nil
    then show ?thesis using assms(3,4) by (cases sp) (auto simp: tokens_text_def)
  next
    case (Cons p ps)
    obtain s2 w2 where p: "p = (s2, w2)" by (cases p)
    then have "s2 \<noteq> []" "\<forall>c \<in> set s2. token_sep c" using Cons.prems Cons p by auto
    then show ?thesis using Cons p by (cases s2) (auto simp: tokens_text_def)
  qed
  then have "TokenHttpHeaderValue (s @ w @ ?r) = Some (length s, length w, length s + length w)"
    using TokenHttpHeaderValue_token Cons.prems(1) sw by simp
  moreover have "header_tokens ?r = map snd sws"
    using Cons.prems by (intro Cons.IH; cases sws; auto)
  ultimately show ?case
    by (simp add: sw tokens_text_def header_tokens.simps [of "s @ w @ _"] slice_def)
qed

lemma keepalive_after_set:
  "version (headers e) \<in> {HTTP_VERSION_1_0_N, HTTP_VERSION_1_1_N} \<Longrightarrow>
     CheckHttpKeepAlive (SetHttpKeepAlive e k) = k"
  by (auto simp: CheckHttpKeepAlive_def SetHttpKeepAlive_def)

definition startline_text :: "http_env \<Rightarrow> int \<Rightarrow> bytes \<Rightarrow> bytes" where
  "startline_text e code vtext =
     vtext @ status_line code @ (if CheckHttpKeepAlive e then ''Connection: keep-alive'' @ [CR, LF] else [])"

lemma wrote_same: "writable b \<Longrightarrow> process_ptr b = 0 \<Longrightarrow> wrote (content b) (Some (0, b))"
  by (simp add: wrote_def)

lemma wrote_keepalive:
  "writable b \<Longrightarrow> process_ptr b = 0 \<Longrightarrow>
     wrote (content b @ (if k then s else [])) (if k then StrcatHttpBuffer alloc b s else Some (0, b))"
  by (simp add: wrote_Strcat wrote_same)

lemma startline_pieces_wrote:
  assumes "writable (response_buffer e)" "process_ptr (response_buffer e) = 0"
    and "int (length vtext) < buf_size (response_buffer e) - 1"
  shows "wrote (startline_text e code vtext) (startline_pieces alloc l e code vtext None)"
  unfolding startline_pieces_def option.case startline_text_def append_assoc [symmetric]
proof (intro wrote_then)
  show "wrote vtext (StrcpyfHttpBuffer alloc (response_buffer e) vtext)"
    using assms by (rule wrote_Strcpyf)
  fix b assume "writable b" "process_ptr b = 0" "content b = vtext"
  then show "wrote (vtext @ status_line code) (StrcatfHttpBuffer alloc b (status_line code))"
    using wrote_Strcatf by blast
next
  fix b assume "writable b" "process_ptr b = 0" "content b = vtext @ status_line code"
  then show "wrote ((vtext @ status_line code)
      @ (if CheckHttpKeepAlive e then ''Connection: keep-alive'' @ [CR, LF] else []))
    (if CheckHttpKeepAlive e then StrcatHttpBuffer alloc b (''Connection: keep-alive'' @ [CR, LF]) else Some (0, b))"
    using wrote_keepalive by metis
next
  fix b assume "writable b" "process_ptr b = 0" "content b = (vtext @ status_line code)
      @ (if CheckHttpKeepAlive e then ''Connection: keep-alive'' @ [CR, LF] else [])"
  then show "wrote ((vtext @ status_line code)
      @ (if CheckHttpKeepAlive e then ''Connection: keep-alive'' @ [CR, LF] else [])) (Some (0, b))"
    using wrote_same by metis
qed

lemma FormatHttpResponseStartLine_text:
  assumes "writable (response_buffer e)" "process_ptr (response_buffer e) = 0"
    and "GetHttpHeaderPtr_VERSION e = (Some v, vlen)"
    and "int (length (cstr (deref l e v vlen))) < buf_size (response_buffer e) - 1" "0 < code"
  shows "\<exists>nret l' e'. FormatHttpResponseStartLine alloc l code e False None = Some (nret, l', e')
     \<and> (nret = 0 \<and> content (response_buffer e') = startline_text e code (cstr (deref l e v vlen))
          \<and> GetHttpHeaderPtr_STATUSCODE e' = (Some (StatusCodeBuffer, 0), 3)
        \<or> nret = FASTERHTTP_ERROR_ALLOC)"
proof -
  have "wrote (startline_text e code (cstr (deref l e v vlen)))
      (startline_pieces alloc l e code (cstr (deref l e v vlen)) None)"
    using startline_pieces_wrote assms(1,2,4) by blast
  then obtain nret b where "startline_pieces alloc l e code (cstr (deref l e v vlen)) None = Some (nret, b)"
    "if nret = 0 then content b = startline_text e code (cstr (deref l e v vlen)) else nret = FASTERHTTP_ERROR_ALLOC"
    by (auto simp: wrote_def split: option.splits)
  then show ?thesis
    using assms(3,5)
    by (cases "GetHttpStatus l code")
       (auto simp: FormatHttpResponseStartLine_def GetHttpHeaderPtr_STATUSCODE_def value_ptr_def Let_def)
qed

text \<open>The code that the start line carries is the one that was asked for, and 500 otherwise.\<close>

lemma status_line_known:
  "(code, s, t) \<in> set http_status_macros \<Longrightarrow> status_line code = '' '' @ s @ '' '' @ t @ [CR, LF]"
  using status_table_distinct by (simp add: status_line_def map_of_is_SomeI)

end
