(* ===== verification/HttpParser.thy ===== *)
theory HttpParser
  imports HttpMessage
begin

text \<open>
  The incremental parser \<open>ParseHttpBuffer\<close> of \<open>fasterhttp.c\<close>: one definition per label of its
  \<open>switch\<close>.  A step works on the environment, the buffer and the local pointer \<open>p\<close>; it either
  returns from the function (\<open>Return\<close>) or goes on at the label stored in \<open>parse_step\<close> (\<open>Goto\<close>; the
  code stores the label before every \<open>goto\<close> and fall-through).  \<open>parse_loop\<close> is the resulting control
  flow, which always ends.  The local \<open>p_header\<close> is always the entry of index
  \<open>header_array_count\<close>.
\<close>

datatype flow = Return int http_env http_buffer | Goto http_env http_buffer nat

section \<open>Reading bytes\<close>

definition rd :: "bytes \<Rightarrow> nat \<Rightarrow> char" where
  "rd m p = (if p < length m then m ! p else NUL)"

text \<open>\<open>while( p < fill_ptr ) { if( stop(*p) ) break; p++; }\<close>\<close>

function scan :: "(char \<Rightarrow> bool) \<Rightarrow> bytes \<Rightarrow> nat \<Rightarrow> nat \<Rightarrow> nat" where
  "scan stop m fill p = (if p < fill \<and> \<not> stop (rd m p) then scan stop m fill (Suc p) else p)"
  by pat_completeness auto
termination by (relation "measure (\<lambda>(_, _, fill, p). fill - p)") auto

declare scan.simps [simp del]

definition tolower :: "char \<Rightarrow> char" where
  "tolower c = (let n = (of_char c :: nat) in if 65 \<le> n \<and> n \<le> 90 then char_of (n + 32) else c)"

text \<open>\<open>strncasecmp(s, t, n) == 0\<close> on the bytes from two pointers on.\<close>

fun strnicmp_eq :: "nat \<Rightarrow> bytes \<Rightarrow> bytes \<Rightarrow> bool" where
  "strnicmp_eq 0 s t = True"
| "strnicmp_eq (Suc n) s t =
     (tolower (rd s 0) = tolower (rd t 0) \<and> (rd s 0 = NUL \<or> strnicmp_eq n (drop 1 s) (drop 1 t)))"

text \<open>\<open>(int)strtol(s, NULL, 10)\<close>: the value is clamped to \<open>long\<close> and then cut to \<open>int\<close>.\<close>

definition strtol10 :: "bytes \<Rightarrow> int" where
  "strtol10 s = max (- (2 ^ 63)) (min (2 ^ 63 - 1) (signed_digits s))"

definition int_of_long :: "int \<Rightarrow> int" where
  "int_of_long v = signed_take_bit 31 v"

section \<open>Start lines\<close>

text \<open>The shape of the steps \<open>*_METHOD0\<close>, \<open>*_URI0\<close>, \<open>*_VERSION0\<close>, \<open>*_STATUSCODE0\<close> and
  \<open>*_REASONPHRASE0\<close>: skip spaces and remember where the token starts.\<close>

definition token_start ::
    "((http_header \<Rightarrow> http_header) \<Rightarrow> http_headers \<Rightarrow> http_headers) \<Rightarrow> parse_step
       \<Rightarrow> buffer_ref \<Rightarrow> http_env \<Rightarrow> http_buffer \<Rightarrow> nat \<Rightarrow> flow" where
  "token_start upd next_step r e b p0 =
     (let m = area b; p = scan (\<lambda>c. c \<noteq> SP) m (fill_ptr b) p0 in
      if p \<ge> fill_ptr b then Return FASTERHTTP_INFO_NEED_MORE_HTTP_BUFFER e (b\<lparr>process_ptr := p\<rparr>)
      else if rd m p = LF then Return FASTERHTTP_ERROR_HTTP_HEADERSTARTLINE_INVALID e b
      else Goto (e\<lparr>headers := upd (\<lambda>h. h\<lparr>p_buffer := Some r, value_offset := p\<rparr>) (headers e),
                   parse_step := next_step\<rparr>) b (p + 1))"

text \<open>The shape of the steps that read a token up to a space: a newline ends the message.\<close>

definition token_body ::
    "(http_headers \<Rightarrow> http_header) \<Rightarrow> ((http_header \<Rightarrow> http_header) \<Rightarrow> http_headers \<Rightarrow> http_headers)
       \<Rightarrow> (http_env \<Rightarrow> http_buffer \<Rightarrow> nat \<Rightarrow> flow) \<Rightarrow> http_env \<Rightarrow> http_buffer \<Rightarrow> nat \<Rightarrow> flow" where
  "token_body get upd k e b p0 =
     (let m = area b; p = scan (\<lambda>c. c = SP \<or> c = LF) m (fill_ptr b) p0 in
      if p \<ge> fill_ptr b then Return FASTERHTTP_INFO_NEED_MORE_HTTP_BUFFER e (b\<lparr>process_ptr := p\<rparr>)
      else if rd m p = LF then Return FASTERHTTP_ERROR_HTTP_HEADERSTARTLINE_INVALID e b
      else k (e\<lparr>headers := upd (\<lambda>h. h\<lparr>value_len := int p - int (value_offset (get (headers e)))\<rparr>)
                               (headers e)\<rparr>) b (p + 1))"

text \<open>The shape of the steps that read the rest of the line, less one trailing \<open>\r\<close>.\<close>

definition line_rest ::
    "(http_headers \<Rightarrow> http_header) \<Rightarrow> ((http_header \<Rightarrow> http_header) \<Rightarrow> http_headers \<Rightarrow> http_headers)
       \<Rightarrow> (http_env \<Rightarrow> http_buffer \<Rightarrow> nat \<Rightarrow> flow) \<Rightarrow> http_env \<Rightarrow> http_buffer \<Rightarrow> nat \<Rightarrow> flow" where
  "line_rest get upd k e b p0 =
     (let m = area b; p = scan (\<lambda>c. c = LF) m (fill_ptr b) p0 in
      if p \<ge> fill_ptr b then Return FASTERHTTP_INFO_NEED_MORE_HTTP_BUFFER e (b\<lparr>process_ptr := p\<rparr>)
      else
        let len = int p - int (value_offset (get (headers e)));
            len = (if rd m (p - 1) = CR then len - 1 else len) in
        k (e\<lparr>headers := upd (\<lambda>h. h\<lparr>value_len := len\<rparr>) (headers e)\<rparr>) b (p + 1))"

definition goto_step :: "parse_step \<Rightarrow> http_env \<Rightarrow> http_buffer \<Rightarrow> nat \<Rightarrow> flow" where
  "goto_step s e b p = Goto (e\<lparr>parse_step := s\<rparr>) b p"

text \<open>The comparison of the method token with the known methods.\<close>

definition method_number :: "bytes \<Rightarrow> int option" where
  "method_number s =
     (if s = ''GET'' then Some HTTP_METHOD_GET_N
      else if s = ''PUT'' then Some HTTP_METHOD_PUT_N
      else if s = ''POST'' then Some HTTP_METHOD_POST_N
      else if s = ''HEAD'' then Some HTTP_METHOD_HEAD_N
      else if s = ''TRACE'' then Some HTTP_METHOD_TRACE_N
      else if s = ''DELETE'' then Some HTTP_METHOD_DELETE_N
      else if s = ''OPTIONS'' then Some HTTP_METHOD_OPTIONS_N
      else None)"

definition parse_METHOD0 :: "buffer_ref \<Rightarrow> http_env \<Rightarrow> http_buffer \<Rightarrow> nat \<Rightarrow> flow" where
  "parse_METHOD0 = token_start METHOD_update PARSESTEP_REQUESTSTARTLINE_METHOD"

definition parse_METHOD :: "http_env \<Rightarrow> http_buffer \<Rightarrow> nat \<Rightarrow> flow" where
  "parse_METHOD = token_body METHOD METHOD_update
     (\<lambda>e b p. let h = METHOD (headers e) in
        case method_number (slice (value_offset h) (nat (value_len h)) (area b)) of
          None \<Rightarrow> Return FASTERHTTP_ERROR_METHOD_INVALID e b
        | Some n \<Rightarrow> Goto (e\<lparr>headers := (headers e)\<lparr>method_n := n\<rparr>,
                            parse_step := PARSESTEP_REQUESTSTARTLINE_URI0\<rparr>) b p)"

definition parse_URI0 :: "buffer_ref \<Rightarrow> http_env \<Rightarrow> http_buffer \<Rightarrow> nat \<Rightarrow> flow" where
  "parse_URI0 = token_start URI_update PARSESTEP_REQUESTSTARTLINE_URI"

definition parse_URI :: "http_env \<Rightarrow> http_buffer \<Rightarrow> nat \<Rightarrow> flow" where
  "parse_URI = token_body URI URI_update (goto_step PARSESTEP_REQUESTSTARTLINE_VERSION0)"

text \<open>The comparison of the version token.  An eight byte token that does not start with \<open>HTTP/1.\<close>
  falls through with \<open>version\<close> unchanged, as in the code.\<close>

definition check_version ::
    "parse_step \<Rightarrow> http_env \<Rightarrow> http_buffer \<Rightarrow> nat \<Rightarrow> flow" where
  "check_version next_step e b p =
     (let h = VERSION (headers e); v = slice (value_offset h) 8 (area b) in
      if value_len h \<noteq> 8 then Return FASTERHTTP_ERROR_VERSION_NOT_SUPPORTED e b
      else if take 7 v = ''HTTP/1.'' then
        (if rd v 7 = CHR ''0'' then
           goto_step next_step (e\<lparr>headers := (headers e)\<lparr>version := HTTP_VERSION_1_0_N\<rparr>\<rparr>) b p
         else if rd v 7 = CHR ''1'' then
           goto_step next_step (e\<lparr>headers := (headers e)\<lparr>version := HTTP_VERSION_1_1_N\<rparr>\<rparr>) b p
         else Return FASTERHTTP_ERROR_VERSION_NOT_SUPPORTED e b)
      else goto_step next_step e b p)"

definition parse_REQ_VERSION0 :: "buffer_ref \<Rightarrow> http_env \<Rightarrow> http_buffer \<Rightarrow> nat \<Rightarrow> flow" where
  "parse_REQ_VERSION0 = token_start VERSION_update PARSESTEP_REQUESTSTARTLINE_VERSION"

definition parse_REQ_VERSION :: "http_env \<Rightarrow> http_buffer \<Rightarrow> nat \<Rightarrow> flow" where
  "parse_REQ_VERSION = line_rest VERSION VERSION_update (check_version PARSESTEP_HEADER_NAME0)"

definition parse_RSP_VERSION0 :: "buffer_ref \<Rightarrow> http_env \<Rightarrow> http_buffer \<Rightarrow> nat \<Rightarrow> flow" where
  "parse_RSP_VERSION0 = token_start VERSION_update PARSESTEP_RESPONSESTARTLINE_VERSION"

definition parse_RSP_VERSION :: "http_env \<Rightarrow> http_buffer \<Rightarrow> nat \<Rightarrow> flow" where
  "parse_RSP_VERSION =
     token_body VERSION VERSION_update (check_version PARSESTEP_RESPONSESTARTLINE_STATUSCODE0)"

definition parse_STATUSCODE0 :: "buffer_ref \<Rightarrow> http_env \<Rightarrow> http_buffer \<Rightarrow> nat \<Rightarrow> flow" where
  "parse_STATUSCODE0 = token_start STATUSCODE_update PARSESTEP_RESPONSESTARTLINE_STATUSCODE"

definition parse_STATUSCODE :: "http_env \<Rightarrow> http_buffer \<Rightarrow> nat \<Rightarrow> flow" where
  "parse_STATUSCODE =
     token_body STATUSCODE STATUSCODE_update (goto_step PARSESTEP_RESPONSESTARTLINE_REASONPHRASE0)"

definition parse_REASONPHRASE0 :: "buffer_ref \<Rightarrow> http_env \<Rightarrow> http_buffer \<Rightarrow> nat \<Rightarrow> flow" where
  "parse_REASONPHRASE0 = token_start REASONPHRASE_update PARSESTEP_RESPONSESTARTLINE_REASONPHRASE"

definition parse_REASONPHRASE :: "http_env \<Rightarrow> http_buffer \<Rightarrow> nat \<Rightarrow> flow" where
  "parse_REASONPHRASE =
     line_rest REASONPHRASE REASONPHRASE_update (goto_step PARSESTEP_HEADER_NAME0)"

section \<open>Headers\<close>

definition cur_header :: "http_env \<Rightarrow> http_header" where
  "cur_header e = header_array (headers e) ! header_array_count (headers e)"

definition upd_cur_header :: "(http_header \<Rightarrow> http_header) \<Rightarrow> http_env \<Rightarrow> http_env" where
  "upd_cur_header f e =
     e\<lparr>headers := (headers e)\<lparr>header_array :=
         (header_array (headers e))[header_array_count (headers e) := f (cur_header e)]\<rparr>\<rparr>"

text \<open>The macro \<open>_IF_THEN_GO_PARSING_BODY\<close>, at the empty line behind the headers.\<close>

definition go_parsing_body :: "buffer_ref \<Rightarrow> http_env \<Rightarrow> http_buffer \<Rightarrow> nat \<Rightarrow> flow" where
  "go_parsing_body r e b p =
     (if method_n (headers e) = HTTP_METHOD_HEAD_N then
        Return 0 (e\<lparr>parse_step := PARSESTEP_DONE\<rparr>) (b\<lparr>process_ptr := p\<rparr>)
      else if content_length (headers e) > 0 then
        Goto (e\<lparr>p_body_buffer := Some r, body_base_offset := p, parse_step := PARSESTEP_BODY\<rparr>) b p
      else if transfer_encoding__chunked (headers e) = 1 then
        Goto (e\<lparr>p_body_buffer := Some r, body_base_offset := p, chunked_body_end := p,
                parse_step := PARSESTEP_CHUNKED_SIZE\<rparr>) b p
      else Return 0 (e\<lparr>parse_step := PARSESTEP_DONE\<rparr>) (b\<lparr>process_ptr := p\<rparr>))"

definition parse_NAME0 :: "buffer_ref \<Rightarrow> http_env \<Rightarrow> http_buffer \<Rightarrow> nat \<Rightarrow> flow" where
  "parse_NAME0 r e b p0 =
     (let m = area b; p = scan (\<lambda>c. c \<noteq> SP) m (fill_ptr b) p0 in
      if p \<ge> fill_ptr b then Return FASTERHTTP_INFO_NEED_MORE_HTTP_BUFFER e (b\<lparr>process_ptr := p\<rparr>)
      else if rd m p = CR then
        (if p + 1 \<ge> fill_ptr b then Return FASTERHTTP_INFO_NEED_MORE_HTTP_BUFFER e b
         else if rd m (p + 1) = LF then go_parsing_body r e b (p + 2)
         else go_parsing_body r e b (p + 1))
      else if rd m p = LF then go_parsing_body r e b (p + 1)
      else Goto ((upd_cur_header (\<lambda>h. h\<lparr>p_buffer := Some r, name_offset := p\<rparr>) e)
                   \<lparr>parse_step := PARSESTEP_HEADER_NAME\<rparr>) b (p + 1))"

definition parse_NAME :: "http_env \<Rightarrow> http_buffer \<Rightarrow> nat \<Rightarrow> flow" where
  "parse_NAME e b p0 =
     (let m = area b; p = scan (\<lambda>c. c = SP \<or> c = CHR '':'' \<or> c = LF) m (fill_ptr b) p0 in
      if p \<ge> fill_ptr b then Return FASTERHTTP_INFO_NEED_MORE_HTTP_BUFFER e (b\<lparr>process_ptr := p\<rparr>)
      else if rd m p = LF then Return FASTERHTTP_ERROR_HTTP_HEADER_INVALID e b
      else
        let e = upd_cur_header (\<lambda>h. h\<lparr>name_len := int p - int (name_offset h)\<rparr>) e;
            p = scan (\<lambda>c. c = CHR '':'' \<or> c = LF) m (fill_ptr b) p in
        if rd m p = LF then Return FASTERHTTP_ERROR_HTTP_HEADER_INVALID e b
        else if p \<ge> fill_ptr b then
          Return FASTERHTTP_INFO_NEED_MORE_HTTP_BUFFER e (b\<lparr>process_ptr := p\<rparr>)
        else Goto (e\<lparr>parse_step := PARSESTEP_HEADER_VALUE0\<rparr>) b (p + 1))"

definition parse_VALUE0 :: "http_env \<Rightarrow> http_buffer \<Rightarrow> nat \<Rightarrow> flow" where
  "parse_VALUE0 e b p0 =
     (let m = area b; p = scan (\<lambda>c. c \<noteq> SP) m (fill_ptr b) p0 in
      if p \<ge> fill_ptr b then Return FASTERHTTP_INFO_NEED_MORE_HTTP_BUFFER e (b\<lparr>process_ptr := p\<rparr>)
      else if rd m p = LF then Return FASTERHTTP_ERROR_HTTP_HEADER_INVALID e b
      else Goto ((upd_cur_header (\<lambda>h. h\<lparr>value_offset := p\<rparr>) e)
                   \<lparr>parse_step := PARSESTEP_HEADER_VALUE\<rparr>) b (p + 1))"

text \<open>The backward loop \<open>while( *p2 == ' ' || *p2 == '\r' ) { value_len--; p2--; }\<close>: how often it
  runs when it starts at \<open>p2\<close>.  It has no other bound than the start of the area.\<close>

fun trailing_blanks :: "bytes \<Rightarrow> nat \<Rightarrow> nat" where
  "trailing_blanks m 0 = (if rd m 0 = SP \<or> rd m 0 = CR then 1 else 0)"
| "trailing_blanks m (Suc p) = (if rd m (Suc p) = SP \<or> rd m (Suc p) = CR then Suc (trailing_blanks m p) else 0)"

text \<open>The chain that looks for the headers the parser itself needs.\<close>

definition header_name_is :: "bytes \<Rightarrow> http_header \<Rightarrow> bytes \<Rightarrow> bool" where
  "header_name_is m h lit \<longleftrightarrow> name_len h = int (length lit) \<and> strnicmp_eq (length lit) (drop (name_offset h) m) lit"

definition header_value_is :: "bytes \<Rightarrow> http_header \<Rightarrow> bytes \<Rightarrow> bool" where
  "header_value_is m h lit \<longleftrightarrow> value_len h = int (length lit) \<and> strnicmp_eq (length lit) (drop (value_offset h) m) lit"

definition known_header :: "buffer_ref \<Rightarrow> bytes \<Rightarrow> http_header \<Rightarrow> http_headers \<Rightarrow> http_headers" where
  "known_header r m h hs =
     (if header_name_is m h ''Content-Length'' then
        hs\<lparr>content_length := int_of_long (strtol10 (drop (value_offset h) m))\<rparr>
      else if header_name_is m h ''Transfer-Encoding'' \<and> header_value_is m h ''chunked'' then
        hs\<lparr>transfer_encoding__chunked := 1\<rparr>
      else if header_name_is m h ''Trailer'' then
        hs\<lparr>TRAILER := (TRAILER hs)\<lparr>p_buffer := Some r, value_offset := value_offset h, value_len := value_len h\<rparr>\<rparr>
      else if header_name_is m h ''Connection'' then
        hs\<lparr>connection__keepalive := (if header_value_is m h ''Keep-Alive'' then 1
                                     else if header_value_is m h ''Close'' then - 1 else 0)\<rparr>
      else hs)"

definition mark_reforming :: "http_env \<Rightarrow> http_buffer \<Rightarrow> http_env" where
  "mark_reforming e b = (if fill_ptr b > process_ptr b then e\<lparr>reforming_flag := 1\<rparr> else e)"

text \<open>What follows once the value of the current header is delimited: look at the header, count it, end
  the message if it is the announced trailer, make room for the next header.\<close>

definition end_of_header :: "allocator \<Rightarrow> buffer_ref \<Rightarrow> http_env \<Rightarrow> http_buffer \<Rightarrow> nat \<Rightarrow> flow" where
  "end_of_header alloc r e b p =
     (let m = area b;
          h = cur_header e;
          hs = known_header r m h (headers e);
          count = header_array_count hs + 1;
          hs = hs\<lparr>header_array_count := count\<rparr>;
          e = e\<lparr>headers := hs\<rparr> in
      if transfer_encoding__chunked hs = 1 \<and> content_length hs > 0
         \<and> name_len h = value_len (TRAILER hs)
         \<and> strnicmp_eq (nat (name_len h)) (drop (name_offset h) m) (drop (value_offset (TRAILER hs)) m)
      then (let b = b\<lparr>process_ptr := p\<rparr>; e = e\<lparr>parse_step := PARSESTEP_DONE\<rparr> in
            Return 0 (mark_reforming e b) b)
      else if count \<ge> header_array_size hs then
        (let new_size = header_array_size hs * 2 in
         if \<not> alloc (sizeof_HttpHeader * int new_size) then Return FASTERHTTP_ERROR_ALLOC e b
         else Goto (e\<lparr>headers := hs\<lparr>header_array_size := new_size,
                        header_array := take count (header_array hs) @ replicate (new_size - count) zero_header\<rparr>,
                      parse_step := PARSESTEP_HEADER_NAME0\<rparr>) b p)
      else Goto (e\<lparr>parse_step := PARSESTEP_HEADER_NAME0\<rparr>) b p)"

definition parse_VALUE :: "allocator \<Rightarrow> buffer_ref \<Rightarrow> http_env \<Rightarrow> http_buffer \<Rightarrow> nat \<Rightarrow> flow" where
  "parse_VALUE alloc r e b p0 =
     (let m = area b; p = scan (\<lambda>c. c = LF) m (fill_ptr b) p0 in
      if p \<ge> fill_ptr b then Return FASTERHTTP_INFO_NEED_MORE_HTTP_BUFFER e (b\<lparr>process_ptr := p\<rparr>)
      else end_of_header alloc r
             (upd_cur_header (\<lambda>h. h\<lparr>value_len := int p - int (value_offset h)
                                                   - int (trailing_blanks m (p - 1))\<rparr>) e) b (p + 1))"

section \<open>Bodies\<close>

definition parse_BODY :: "http_env \<Rightarrow> http_buffer \<Rightarrow> flow" where
  "parse_BODY e b =
     (if int (fill_ptr b) - int (body_base_offset e) \<ge> content_length (headers e)
      then (let b = b\<lparr>process_ptr := nat (int (body_base_offset e) + content_length (headers e))\<rparr>;
                e = e\<lparr>parse_step := PARSESTEP_DONE\<rparr> in
            Return 0 (mark_reforming e b) b)
      else Return FASTERHTTP_INFO_NEED_MORE_HTTP_BUFFER e (b\<lparr>process_ptr := fill_ptr b\<rparr>))"

text \<open>One byte of the chunk-size line.  The code multiplies by 10 for hexadecimal digits as well.\<close>

definition chunk_digit :: "int \<Rightarrow> char \<Rightarrow> int" where
  "chunk_digit len c =
     (let v = char_int c in
      if 48 \<le> v \<and> v \<le> 57 then len * 10 + v - 48
      else if 97 \<le> v \<and> v \<le> 102 then len * 10 + v - 97 + 10
      else if 65 \<le> v \<and> v \<le> 70 then len * 10 + v - 65 + 10
      else len)"

function chunk_size_scan :: "bytes \<Rightarrow> nat \<Rightarrow> http_env \<Rightarrow> nat \<Rightarrow> http_env \<times> nat" where
  "chunk_size_scan m fill e p =
     (if p < fill \<and> rd m p \<noteq> LF
      then chunk_size_scan m fill
             (e\<lparr>chunked_length := chunk_digit (chunked_length e) (rd m p),
                chunked_length_length := chunked_length_length e + 1\<rparr>) (Suc p)
      else (e, p))"
  by pat_completeness auto
termination by (relation "measure (\<lambda>(_, fill, _, p). fill - p)") auto

declare chunk_size_scan.simps [simp del]

definition parse_CHUNKED_SIZE :: "http_env \<Rightarrow> http_buffer \<Rightarrow> nat \<Rightarrow> flow" where
  "parse_CHUNKED_SIZE e0 b p0 =
     (let (e, p) = chunk_size_scan (area b) (fill_ptr b) e0 p0 in
      if p \<ge> fill_ptr b then Return FASTERHTTP_INFO_NEED_MORE_HTTP_BUFFER e (b\<lparr>process_ptr := p\<rparr>)
      else
        let e = e\<lparr>chunked_length_length := chunked_length_length e + 1\<rparr>; p = p + 1 in
        if chunked_length e = 0 then
          (if value_offset (TRAILER (headers e)) \<noteq> 0
           then Goto (e\<lparr>parse_step := PARSESTEP_HEADER_NAME0\<rparr>) b p
           else (let b = b\<lparr>process_ptr := p\<rparr>; e = e\<lparr>parse_step := PARSESTEP_DONE\<rparr> in
                 Return 0 (mark_reforming e b) b))
        else Goto (e\<lparr>chunked_body := p, parse_step := PARSESTEP_CHUNKED_DATA\<rparr>) b p)"

definition parse_CHUNKED_DATA :: "http_env \<Rightarrow> http_buffer \<Rightarrow> flow" where
  "parse_CHUNKED_DATA e b =
     (if int (fill_ptr b) - int (chunked_body e) \<ge> chunked_length e + 2
      then
        let len = nat (chunked_length e);
            m = write_at (chunked_body_end e) (slice (chunked_body e) len (area b)) (area b);
            p = chunked_body e + len;
            p' = (if rd m p = CR \<and> rd m (p + 1) = LF then p + 2 else if rd m p = LF then p + 1 else p) in
        Goto (e\<lparr>chunked_body_end := chunked_body_end e + len,
                headers := (headers e)\<lparr>content_length := content_length (headers e) + chunked_length e\<rparr>,
                parse_step := PARSESTEP_CHUNKED_SIZE, chunked_length := 0, chunked_length_length := 0\<rparr>)
             (b\<lparr>base := Some m\<rparr>) p'
      else Return FASTERHTTP_INFO_NEED_MORE_HTTP_BUFFER e (b\<lparr>process_ptr := fill_ptr b\<rparr>))"

section \<open>Control flow\<close>

text \<open>The \<open>switch\<close>; \<open>PARSESTEP_BEGIN\<close> has been replaced before it is reached.\<close>

definition parse_switch :: "allocator \<Rightarrow> buffer_ref \<Rightarrow> http_env \<Rightarrow> http_buffer \<Rightarrow> nat \<Rightarrow> flow" where
  "parse_switch alloc r e b p =
     (case parse_step e of
        PARSESTEP_BEGIN \<Rightarrow> Return FASTERHTTP_ERROR_INTERNAL e b
      | PARSESTEP_REQUESTSTARTLINE_METHOD0 \<Rightarrow> parse_METHOD0 r e b p
      | PARSESTEP_REQUESTSTARTLINE_METHOD \<Rightarrow> parse_METHOD e b p
      | PARSESTEP_REQUESTSTARTLINE_URI0 \<Rightarrow> parse_URI0 r e b p
      | PARSESTEP_REQUESTSTARTLINE_URI \<Rightarrow> parse_URI e b p
      | PARSESTEP_REQUESTSTARTLINE_VERSION0 \<Rightarrow> parse_REQ_VERSION0 r e b p
      | PARSESTEP_REQUESTSTARTLINE_VERSION \<Rightarrow> parse_REQ_VERSION e b p
      | PARSESTEP_RESPONSESTARTLINE_VERSION0 \<Rightarrow> parse_RSP_VERSION0 r e b p
      | PARSESTEP_RESPONSESTARTLINE_VERSION \<Rightarrow> parse_RSP_VERSION e b p
      | PARSESTEP_RESPONSESTARTLINE_STATUSCODE0 \<Rightarrow> parse_STATUSCODE0 r e b p
      | PARSESTEP_RESPONSESTARTLINE_STATUSCODE \<Rightarrow> parse_STATUSCODE e b p
      | PARSESTEP_RESPONSESTARTLINE_REASONPHRASE0 \<Rightarrow> parse_REASONPHRASE0 r e b p
      | PARSESTEP_RESPONSESTARTLINE_REASONPHRASE \<Rightarrow> parse_REASONPHRASE e b p
      | PARSESTEP_HEADER_NAME0 \<Rightarrow> parse_NAME0 r e b p
      | PARSESTEP_HEADER_NAME \<Rightarrow> parse_NAME e b p
      | PARSESTEP_HEADER_VALUE0 \<Rightarrow> parse_VALUE0 e b p
      | PARSESTEP_HEADER_VALUE \<Rightarrow> parse_VALUE alloc r e b p
      | PARSESTEP_BODY \<Rightarrow> parse_BODY e b
      | PARSESTEP_CHUNKED_SIZE \<Rightarrow> parse_CHUNKED_SIZE e b p
      | PARSESTEP_CHUNKED_DATA \<Rightarrow> parse_CHUNKED_DATA e b
      | PARSESTEP_DONE \<Rightarrow> Return 0 e b)"

lemma scan_le: "p \<le> scan stop m fill p"
  by (induction stop m fill p rule: scan.induct) (subst scan.simps, auto)

lemma scan_bound: "p \<le> fill \<Longrightarrow> scan stop m fill p \<le> fill"
  by (induction stop m fill p rule: scan.induct) (subst scan.simps, auto)

lemma scan_stops: "scan stop m fill p < fill \<Longrightarrow> stop (rd m (scan stop m fill p))"
proof (induction stop m fill p rule: scan.induct)
  case (1 stop m fill p)
  then show ?case
    by (cases "p < fill \<and> \<not> stop (rd m p)") (simp_all add: scan.simps [of stop m fill p] split: if_splits)
qed

lemma scan_here: "stop (rd m p) \<Longrightarrow> scan stop m fill p = p"
  by (subst scan.simps) simp

lemma scan_end: "fill \<le> p \<Longrightarrow> scan stop m fill p = p"
  by (subst scan.simps) simp

lemma chunk_size_scan_result:
  assumes "chunk_size_scan m fill e p = (e', p')"
  shows "p' = scan (\<lambda>c. c = LF) m fill p
     \<and> (\<exists>k l. e' = e\<lparr>chunked_length := k, chunked_length_length := l\<rparr>)"
  using assms
proof (induction m fill e p rule: chunk_size_scan.induct)
  case (1 m fill e p)
  show ?case
  proof (cases "p < fill \<and> rd m p \<noteq> LF")
    case True
    then show ?thesis
      using 1 by (subst scan.simps) (auto simp: chunk_size_scan.simps [of m fill e p])
  next
    case False
    then have "e' = e" "p' = p" using 1(2) by (auto simp: chunk_size_scan.simps [of m fill e p])
    moreover have "e = e\<lparr>chunked_length := chunked_length e, chunked_length_length := chunked_length_length e\<rparr>"
      by simp
    moreover have "scan (\<lambda>c. c = LF) m fill p = p" using False by (subst scan.simps) auto
    ultimately show ?thesis by metis
  qed
qed

text \<open>Every jump makes progress: the position that matters for the label moves forward, or a chunk has
  been moved and its size line comes next.\<close>

definition position :: "http_env \<Rightarrow> nat \<Rightarrow> nat" where
  "position e p = (if parse_step e = PARSESTEP_CHUNKED_DATA then chunked_body e else p)"

definition parse_rank :: "http_env \<Rightarrow> nat" where
  "parse_rank e = (if parse_step e = PARSESTEP_CHUNKED_DATA then 1 else 0)"

lemma go_parsing_body_goto:
  "go_parsing_body r e b p = Goto e' b' p' \<Longrightarrow>
     b' = b \<and> p' = p \<and> parse_step e' \<in> {PARSESTEP_BODY, PARSESTEP_CHUNKED_SIZE}"
  by (auto simp: go_parsing_body_def split: if_splits)

lemma check_version_goto:
  "check_version s e b p = Goto e' b' p' \<Longrightarrow> b' = b \<and> p' = p \<and> parse_step e' = s"
  by (auto simp: check_version_def goto_step_def Let_def split: if_splits)

lemma goto_step_goto: "goto_step s e b p = Goto e' b' p' \<Longrightarrow> b' = b \<and> p' = p \<and> parse_step e' = s"
  by (auto simp: goto_step_def)

lemma token_start_goto:
  "token_start upd s r e b p = Goto e' b' p' \<Longrightarrow>
     b' = b \<and> parse_step e' = s \<and> p < p' \<and> p < fill_ptr b"
  using scan_le [of p "\<lambda>c. c \<noteq> SP" "area b" "fill_ptr b"]
  by (auto simp: token_start_def Let_def split: if_splits)

lemma token_body_goto:
  assumes "token_body get upd k e b p = Goto e' b' p'"
  shows "\<exists>e1 p1. k e1 b p1 = Goto e' b' p' \<and> p < p1 \<and> p < fill_ptr b"
  using assms scan_le [of p "\<lambda>c. c = SP \<or> c = LF" "area b" "fill_ptr b"]
  by (fastforce simp: token_body_def Let_def split: if_splits)

lemma line_rest_goto:
  assumes "line_rest get upd k e b p = Goto e' b' p'"
  shows "\<exists>e1 p1. k e1 b p1 = Goto e' b' p' \<and> p < p1 \<and> p < fill_ptr b"
  using assms scan_le [of p "\<lambda>c. c = LF" "area b" "fill_ptr b"]
  by (fastforce simp: line_rest_def Let_def split: if_splits)

lemma parse_METHOD_goto:
  "parse_METHOD e b p = Goto e' b' p' \<Longrightarrow>
     b' = b \<and> parse_step e' = PARSESTEP_REQUESTSTARTLINE_URI0 \<and> p < p' \<and> p < fill_ptr b"
  unfolding parse_METHOD_def
  by (drule token_body_goto) (auto simp: Let_def split: option.splits)

lemma parse_NAME0_goto:
  assumes "parse_NAME0 r e b p = Goto e' b' p'"
  shows "b' = b \<and> parse_step e' \<noteq> PARSESTEP_CHUNKED_DATA \<and> parse_step e' \<noteq> PARSESTEP_DONE \<and> p < p' \<and> p < fill_ptr b"
  using assms scan_le [of p "\<lambda>c. c \<noteq> SP" "area b" "fill_ptr b"]
  by (auto simp: parse_NAME0_def Let_def split: if_splits dest!: go_parsing_body_goto)

lemma parse_NAME_goto:
  assumes "parse_NAME e b p = Goto e' b' p'"
  shows "b' = b \<and> parse_step e' = PARSESTEP_HEADER_VALUE0 \<and> p < p' \<and> p < fill_ptr b"
proof -
  let ?q = "scan (\<lambda>c. c = SP \<or> c = CHR '':'' \<or> c = LF) (area b) (fill_ptr b) p"
  have "p \<le> ?q" "?q \<le> scan (\<lambda>c. c = CHR '':'' \<or> c = LF) (area b) (fill_ptr b) ?q"
    by (rule scan_le)+
  then show ?thesis
    using assms by (auto simp: parse_NAME_def Let_def split: if_splits)
qed

lemma parse_VALUE0_goto:
  assumes "parse_VALUE0 e b p = Goto e' b' p'"
  shows "b' = b \<and> parse_step e' = PARSESTEP_HEADER_VALUE \<and> p < p' \<and> p < fill_ptr b"
  using assms scan_le [of p "\<lambda>c. c \<noteq> SP" "area b" "fill_ptr b"]
  by (auto simp: parse_VALUE0_def Let_def split: if_splits)

lemma end_of_header_goto:
  "end_of_header alloc r e b p = Goto e' b' p' \<Longrightarrow>
     b' = b \<and> p' = p \<and> parse_step e' = PARSESTEP_HEADER_NAME0"
  by (auto simp: end_of_header_def Let_def split: if_splits)

lemma parse_VALUE_goto:
  assumes "parse_VALUE alloc r e b p = Goto e' b' p'"
  shows "b' = b \<and> parse_step e' = PARSESTEP_HEADER_NAME0 \<and> p < p' \<and> p < fill_ptr b"
  using assms scan_le [of p "\<lambda>c. c = LF" "area b" "fill_ptr b"]
  by (auto simp: parse_VALUE_def Let_def split: if_splits dest!: end_of_header_goto)

lemma parse_BODY_no_goto [simp]: "parse_BODY e b \<noteq> Goto e' b' p'"
  by (auto simp: parse_BODY_def Let_def)

lemma parse_CHUNKED_SIZE_goto:
  assumes "parse_CHUNKED_SIZE e b p = Goto e' b' p'"
  shows "b' = b \<and> parse_step e' \<in> {PARSESTEP_HEADER_NAME0, PARSESTEP_CHUNKED_DATA} \<and> p < position e' p' \<and> p < fill_ptr b"
proof -
  obtain e1 p1 where c: "chunk_size_scan (area b) (fill_ptr b) e p = (e1, p1)" by fastforce
  have "p \<le> p1" using chunk_size_scan_result [OF c] scan_le by metis
  then show ?thesis
    using assms c by (auto simp: parse_CHUNKED_SIZE_def position_def Let_def split: if_splits)
qed

lemma parse_CHUNKED_DATA_goto:
  assumes "parse_CHUNKED_DATA e b = Goto e' b' p'"
  shows "fill_ptr b' = fill_ptr b \<and> chunked_body e \<le> p' \<and> parse_step e' = PARSESTEP_CHUNKED_SIZE"
  using assms by (auto simp: parse_CHUNKED_DATA_def Let_def split: if_splits)

lemmas parse_start_goto = token_start_goto token_body_goto line_rest_goto

lemma parse_switch_progress:
  assumes "parse_switch alloc r e b p = Goto e' b' p'"
  shows "fill_ptr b' = fill_ptr b
    \<and> (position e p < position e' p' \<and> position e p < fill_ptr b
       \<or> position e p \<le> position e' p' \<and> parse_rank e' < parse_rank e)"
proof (cases "parse_step e")
  case PARSESTEP_CHUNKED_DATA
  then show ?thesis using assms parse_CHUNKED_DATA_goto
    by (auto simp: parse_switch_def position_def parse_rank_def)
next
  case PARSESTEP_CHUNKED_SIZE
  then show ?thesis using assms parse_CHUNKED_SIZE_goto
    by (fastforce simp: parse_switch_def position_def)
qed (use assms in \<open>auto simp: parse_switch_def position_def
       parse_METHOD0_def parse_URI0_def parse_URI_def parse_REQ_VERSION0_def parse_REQ_VERSION_def
       parse_RSP_VERSION0_def parse_RSP_VERSION_def parse_STATUSCODE0_def parse_STATUSCODE_def
       parse_REASONPHRASE0_def parse_REASONPHRASE_def
       dest!: parse_start_goto check_version_goto goto_step_goto parse_METHOD_goto parse_NAME0_goto
         parse_NAME_goto parse_VALUE0_goto parse_VALUE_goto\<close>)

function parse_loop :: "allocator \<Rightarrow> buffer_ref \<Rightarrow> http_env \<Rightarrow> http_buffer \<Rightarrow> nat \<Rightarrow> int \<times> http_env \<times> http_buffer" where
  "parse_loop alloc r e b p =
     (case parse_switch alloc r e b p of
        Return nret e' b' \<Rightarrow> (nret, e', b')
      | Goto e' b' p' \<Rightarrow> parse_loop alloc r e' b' p')"
  by pat_completeness auto
termination
proof (relation "measures [\<lambda>(_, _, e, b, p). fill_ptr b - position e p, \<lambda>(_, _, e, _, _). parse_rank e]",
       goal_cases)
  case (2 alloc r e b p e' b' p')
  then show ?case using parse_switch_progress [of alloc r e b p e' b' p'] by auto
qed simp

declare parse_loop.simps [simp del]

lemma parse_loop_goto:
  "parse_switch alloc r e b p = Goto e' b' p' \<Longrightarrow> parse_loop alloc r e b p = parse_loop alloc r e' b' p'"
  by (subst parse_loop.simps) simp

lemma parse_loop_return:
  "parse_switch alloc r e b p = Return n e' b' \<Longrightarrow> parse_loop alloc r e b p = (n, e', b')"
  by (subst parse_loop.simps) simp

definition set_buffer :: "buffer_ref \<Rightarrow> http_buffer \<Rightarrow> http_env \<Rightarrow> http_env" where
  "set_buffer r b e = (case r of RequestBuffer \<Rightarrow> e\<lparr>request_buffer := b\<rparr>
     | ResponseBuffer \<Rightarrow> e\<lparr>response_buffer := b\<rparr> | StatusCodeBuffer \<Rightarrow> e)"

definition ParseHttpBuffer :: "allocator \<Rightarrow> http_lib \<Rightarrow> http_env \<Rightarrow> buffer_ref \<Rightarrow> int \<times> http_env" where
  "ParseHttpBuffer alloc l e r =
     (let b = buffer_at l e r in
      if parse_step e = PARSESTEP_BEGIN \<and> r = StatusCodeBuffer then (FASTERHTTP_ERROR_PARAMTER, e)
      else
        let e1 = (if parse_step e \<noteq> PARSESTEP_BEGIN then e
                  else if r = RequestBuffer then e\<lparr>parse_step := PARSESTEP_REQUESTSTARTLINE_METHOD0\<rparr>
                  else e\<lparr>parse_step := PARSESTEP_RESPONSESTARTLINE_VERSION0\<rparr>);
            (nret, e2, b2) = parse_loop alloc r e1 b (process_ptr b) in
        (nret, set_buffer r b2 e2))"

definition ParseHttpRequest :: "allocator \<Rightarrow> http_lib \<Rightarrow> http_env \<Rightarrow> int \<times> http_env" where
  "ParseHttpRequest alloc l e = ParseHttpBuffer alloc l e RequestBuffer"

definition ParseHttpResponse :: "allocator \<Rightarrow> http_lib \<Rightarrow> http_env \<Rightarrow> int \<times> http_env" where
  "ParseHttpResponse alloc l e = ParseHttpBuffer alloc l e ResponseBuffer"

end
