(* ===== verification/HttpParserSafety.thy ===== *)
theory HttpParserSafety
  imports HttpParser
begin

text \<open>
  The invariant of the parser: while it runs, and whenever it asks for more bytes, every position and
  every header it remembers lies within the filled part of the buffer, the header array has a free
  entry, and the body moved together from the chunks ends at or before the position being read.  The
  five fields of the start lines share the contract \<open>header_field\<close>.
\<close>

section \<open>The invariant\<close>

definition header_ok :: "nat \<Rightarrow> http_header \<Rightarrow> bool" where
  "header_ok n h \<longleftrightarrow> name_offset h \<le> n \<and> value_offset h \<le> n
     \<and> int (name_offset h) + name_len h \<le> int n \<and> int (value_offset h) + value_len h \<le> int n"

definition headers_ok :: "nat \<Rightarrow> http_headers \<Rightarrow> bool" where
  "headers_ok n hs \<longleftrightarrow> header_array_count hs \<le> header_array_size hs
     \<and> length (header_array hs) = header_array_size hs \<and> (\<forall>h \<in> set (header_array hs). header_ok n h)
     \<and> header_ok n (METHOD hs) \<and> header_ok n (URI hs) \<and> header_ok n (VERSION hs)
     \<and> header_ok n (STATUSCODE hs) \<and> header_ok n (REASONPHRASE hs) \<and> header_ok n (TRAILER hs)"

text \<open>The number of the message part that a label reads; the fields of later parts are still empty.\<close>

fun stage :: "parse_step \<Rightarrow> nat" where
  "stage PARSESTEP_BEGIN = 0"
| "stage PARSESTEP_REQUESTSTARTLINE_METHOD0 = 1"
| "stage PARSESTEP_REQUESTSTARTLINE_METHOD = 1"
| "stage PARSESTEP_REQUESTSTARTLINE_URI0 = 2"
| "stage PARSESTEP_REQUESTSTARTLINE_URI = 2"
| "stage PARSESTEP_REQUESTSTARTLINE_VERSION0 = 3"
| "stage PARSESTEP_REQUESTSTARTLINE_VERSION = 3"
| "stage PARSESTEP_RESPONSESTARTLINE_VERSION0 = 3"
| "stage PARSESTEP_RESPONSESTARTLINE_VERSION = 3"
| "stage PARSESTEP_RESPONSESTARTLINE_STATUSCODE0 = 4"
| "stage PARSESTEP_RESPONSESTARTLINE_STATUSCODE = 4"
| "stage PARSESTEP_RESPONSESTARTLINE_REASONPHRASE0 = 5"
| "stage PARSESTEP_RESPONSESTARTLINE_REASONPHRASE = 5"
| "stage _ = 6"

definition pending :: "nat \<Rightarrow> http_headers \<Rightarrow> bool" where
  "pending j hs \<longleftrightarrow> (j \<le> 1 \<longrightarrow> value_len (METHOD hs) \<le> 0) \<and> (j \<le> 2 \<longrightarrow> value_len (URI hs) \<le> 0)
     \<and> (j \<le> 3 \<longrightarrow> value_len (VERSION hs) \<le> 0) \<and> (j \<le> 4 \<longrightarrow> value_len (STATUSCODE hs) \<le> 0)
     \<and> (j \<le> 5 \<longrightarrow> value_len (REASONPHRASE hs) \<le> 0)"

text \<open>The entries of the header array that are still to be filled.\<close>

definition reading_header :: "parse_step \<Rightarrow> bool" where
  "reading_header s \<longleftrightarrow> s \<in> {PARSESTEP_HEADER_NAME, PARSESTEP_HEADER_VALUE0, PARSESTEP_HEADER_VALUE}"

definition fresh_entries :: "bool \<Rightarrow> http_headers \<Rightarrow> bool" where
  "fresh_entries reading hs \<longleftrightarrow>
     (\<forall>i. header_array_count hs \<le> i \<and> i < header_array_size hs \<longrightarrow> value_len (header_array hs ! i) \<le> 0
          \<and> (header_array_count hs < i \<or> \<not> reading \<longrightarrow> name_len (header_array hs ! i) \<le> 0))"

definition core_ok :: "http_env \<Rightarrow> http_buffer \<Rightarrow> nat \<Rightarrow> bool" where
  "core_ok e b p \<longleftrightarrow> buffer_ok b \<and> p \<le> fill_ptr b \<and> headers_ok (fill_ptr b) (headers e)
     \<and> header_array_count (headers e) < header_array_size (headers e)
     \<and> 0 \<le> chunked_length e \<and> body_base_offset e \<le> fill_ptr b"

definition chunk_ok :: "http_env \<Rightarrow> nat \<Rightarrow> nat \<Rightarrow> bool" where
  "chunk_ok e n p \<longleftrightarrow>
     (parse_step e = PARSESTEP_CHUNKED_DATA \<longrightarrow> chunked_body e \<le> n)
     \<and> (parse_step e = PARSESTEP_CHUNKED_SIZE \<or> parse_step e = PARSESTEP_CHUNKED_DATA \<longrightarrow>
          body_base_offset e \<le> chunked_body_end e \<and> chunked_body_end e \<le> position e p)"

definition parse_inv :: "http_env \<Rightarrow> http_buffer \<Rightarrow> nat \<Rightarrow> bool" where
  "parse_inv e b p \<longleftrightarrow> core_ok e b p \<and> pending (stage (parse_step e)) (headers e)
     \<and> fresh_entries (reading_header (parse_step e)) (headers e) \<and> chunk_ok e (fill_ptr b) p"

text \<open>What holds when the parser returns \<open>nret\<close>: the buffer is sound, the remembered headers lie
  within it, and if it asks for more bytes the invariant holds for the next call.\<close>

definition return_inv :: "nat \<Rightarrow> int \<Rightarrow> http_env \<Rightarrow> http_buffer \<Rightarrow> bool" where
  "return_inv n nret e b \<longleftrightarrow> buffer_ok b \<and> fill_ptr b = n \<and> headers_ok n (headers e)
     \<and> (nret = FASTERHTTP_INFO_NEED_MORE_HTTP_BUFFER \<longrightarrow> parse_inv e b (process_ptr b))"

definition flow_inv :: "nat \<Rightarrow> flow \<Rightarrow> bool" where
  "flow_inv n f = (case f of Return nret e b \<Rightarrow> return_inv n nret e b
                           | Goto e b p \<Rightarrow> parse_inv e b p \<and> fill_ptr b = n)"

lemma buffer_ok_process [simp]:
  "buffer_ok b \<Longrightarrow> p \<le> fill_ptr b \<Longrightarrow> buffer_ok (b\<lparr>process_ptr := p\<rparr>)"
  by (simp add: buffer_ok_def)

lemma flow_inv_Return_error:
  "core_ok e b p \<Longrightarrow> nret \<noteq> FASTERHTTP_INFO_NEED_MORE_HTTP_BUFFER \<Longrightarrow> flow_inv (fill_ptr b) (Return nret e b)"
  by (simp add: flow_inv_def return_inv_def core_ok_def)

lemma flow_inv_NEED_MORE:
  "parse_inv e b p \<Longrightarrow> p \<le> q \<Longrightarrow> q \<le> fill_ptr b \<Longrightarrow>
     flow_inv (fill_ptr b) (Return FASTERHTTP_INFO_NEED_MORE_HTTP_BUFFER e (b\<lparr>process_ptr := q\<rparr>))"
  by (auto simp: flow_inv_def return_inv_def parse_inv_def core_ok_def chunk_ok_def position_def)

section \<open>Start lines\<close>

locale header_field =
  fixes get :: "http_headers \<Rightarrow> http_header"
    and upd :: "(http_header \<Rightarrow> http_header) \<Rightarrow> http_headers \<Rightarrow> http_headers"
    and k :: nat
  assumes get_upd: "get (upd f hs) = f (get hs)"
    and get_ok: "headers_ok n hs \<Longrightarrow> header_ok n (get hs)"
    and upd_ok: "headers_ok n hs \<Longrightarrow> header_ok n (f (get hs)) \<Longrightarrow> headers_ok n (upd f hs)"
    and upd_count: "header_array_count (upd f hs) = header_array_count hs"
    and upd_size: "header_array_size (upd f hs) = header_array_size hs"
    and upd_fresh: "fresh_entries d (upd f hs) = fresh_entries d hs"
    and pending_get: "pending k hs \<Longrightarrow> value_len (get hs) \<le> 0"
    and pending_upd: "pending k hs \<Longrightarrow> value_len (f (get hs)) \<le> 0 \<Longrightarrow> pending k (upd f hs)"
    and pending_next: "pending k hs \<Longrightarrow> pending (Suc k) (upd f hs)"
begin

lemma token_start_inv:
  assumes "parse_inv e b p" "stage (parse_step e) = k" "stage s = k" "k \<le> 5"
  shows "flow_inv (fill_ptr b) (token_start upd s r e b p)"
proof -
  let ?q = "scan (\<lambda>c. c \<noteq> SP) (area b) (fill_ptr b) p"
  let ?f = "\<lambda>h. h\<lparr>p_buffer := Some r, value_offset := ?q\<rparr>"
  have c: "core_ok e b p" "pending k (headers e)" "fresh_entries (reading_header (parse_step e)) (headers e)"
    using assms by (auto simp: parse_inv_def)
  have "header_ok (fill_ptr b) (get (headers e))" "value_len (get (headers e)) \<le> 0"
    using c get_ok pending_get by (auto simp: core_ok_def)
  moreover have q: "?q \<le> fill_ptr b" "p \<le> ?q"
    using c scan_bound scan_le by (auto simp: core_ok_def)
  ultimately have "headers_ok (fill_ptr b) (upd ?f (headers e))" "pending k (upd ?f (headers e))"
    using c by (auto intro!: upd_ok pending_upd simp: core_ok_def header_ok_def)
  moreover have "\<not> reading_header s" "\<not> reading_header (parse_step e)"
    "s \<noteq> PARSESTEP_CHUNKED_SIZE" "s \<noteq> PARSESTEP_CHUNKED_DATA"
    using assms by (auto simp: reading_header_def)
  ultimately have "parse_inv (e\<lparr>headers := upd ?f (headers e), parse_step := s\<rparr>) b (?q + 1)"
    if "?q < fill_ptr b"
    using that c assms(3) by (auto simp: parse_inv_def core_ok_def chunk_ok_def upd_count upd_size upd_fresh)
  then show ?thesis
    using flow_inv_NEED_MORE [OF assms(1) q(2,1)] flow_inv_Return_error [OF c(1)]
    by (auto simp: token_start_def Let_def flow_inv_def)
qed

text \<open>Reading the token itself.  \<open>cont\<close> is the code behind it, entered with the length stored.\<close>

lemma token_read:
  assumes "parse_inv e b p" "stage (parse_step e) = k" "q < fill_ptr b" "len \<le> int q - int (value_offset (get (headers e)))"
  defines "e' \<equiv> e\<lparr>headers := upd (\<lambda>h. h\<lparr>value_len := len\<rparr>) (headers e)\<rparr>"
  shows "core_ok e' b (q + 1)" "pending (Suc k) (headers e')" "fresh_entries (reading_header (parse_step e)) (headers e')"
proof -
  have c: "core_ok e b p" "pending k (headers e)" "fresh_entries (reading_header (parse_step e)) (headers e)"
    using assms by (auto simp: parse_inv_def)
  have "header_ok (fill_ptr b) (get (headers e))" using c get_ok by (auto simp: core_ok_def)
  then show "core_ok e' b (q + 1)" "pending (Suc k) (headers e')"
    "fresh_entries (reading_header (parse_step e)) (headers e')"
    using c assms(3,4) unfolding e'_def
    by (auto intro!: upd_ok pending_next simp: core_ok_def header_ok_def upd_count upd_size upd_fresh)
qed

lemma token_body_inv:
  assumes "parse_inv e b p" "stage (parse_step e) = k"
    and "\<And>e' q. core_ok e' b q \<Longrightarrow> pending (Suc k) (headers e') \<Longrightarrow>
           fresh_entries (reading_header (parse_step e)) (headers e') \<Longrightarrow> flow_inv (fill_ptr b) (cont e' b q)"
  shows "flow_inv (fill_ptr b) (token_body get upd cont e b p)"
proof -
  let ?q = "scan (\<lambda>c. c = SP \<or> c = LF) (area b) (fill_ptr b) p"
  have c: "core_ok e b p" using assms by (simp add: parse_inv_def)
  then have q: "?q \<le> fill_ptr b" "p \<le> ?q" using scan_bound scan_le by (auto simp: core_ok_def)
  have step: "flow_inv (fill_ptr b)
      (cont (e\<lparr>headers := upd (\<lambda>h. h\<lparr>value_len := len\<rparr>) (headers e)\<rparr>) b (Suc i))"
    if "i < fill_ptr b" "len \<le> int i - int (value_offset (get (headers e)))" for i len
    using token_read [OF assms(1,2) that] by (intro assms(3)) simp_all
  show ?thesis
    using flow_inv_NEED_MORE [OF assms(1) q(2,1)] flow_inv_Return_error [OF c] step
    by (simp add: token_body_def Let_def)
qed

lemma line_rest_inv:
  assumes "parse_inv e b p" "stage (parse_step e) = k"
    and "\<And>e' q. core_ok e' b q \<Longrightarrow> pending (Suc k) (headers e') \<Longrightarrow>
           fresh_entries (reading_header (parse_step e)) (headers e') \<Longrightarrow> flow_inv (fill_ptr b) (cont e' b q)"
  shows "flow_inv (fill_ptr b) (line_rest get upd cont e b p)"
proof -
  let ?q = "scan (\<lambda>c. c = LF) (area b) (fill_ptr b) p"
  have c: "core_ok e b p" using assms by (simp add: parse_inv_def)
  then have q: "?q \<le> fill_ptr b" "p \<le> ?q" using scan_bound scan_le by (auto simp: core_ok_def)
  have step: "flow_inv (fill_ptr b)
      (cont (e\<lparr>headers := upd (\<lambda>h. h\<lparr>value_len := len\<rparr>) (headers e)\<rparr>) b (Suc i))"
    if "i < fill_ptr b" "len \<le> int i - int (value_offset (get (headers e)))" for i len
    using token_read [OF assms(1,2) that] by (intro assms(3)) simp_all
  show ?thesis
    using flow_inv_NEED_MORE [OF assms(1) q(2,1)] flow_inv_Return_error [OF c] step
    by (simp add: line_rest_def Let_def)
qed

end

lemmas header_field_defs = headers_ok_def pending_def fresh_entries_def

interpretation method_field: header_field METHOD METHOD_update 1
  by unfold_locales (auto simp: header_field_defs)
interpretation uri_field: header_field URI URI_update 2
  by unfold_locales (auto simp: header_field_defs)
interpretation version_field: header_field VERSION VERSION_update 3
  by unfold_locales (auto simp: header_field_defs)
interpretation statuscode_field: header_field STATUSCODE STATUSCODE_update 4
  by unfold_locales (auto simp: header_field_defs)
interpretation reasonphrase_field: header_field REASONPHRASE REASONPHRASE_update 5
  by unfold_locales (auto simp: header_field_defs)

lemma goto_step_inv:
  assumes "core_ok e b q" "pending j (headers e)" "fresh_entries d (headers e)"
    and "j \<le> stage s" "stage s = 6 \<Longrightarrow> s = PARSESTEP_HEADER_NAME0" "\<not> d"
  shows "flow_inv (fill_ptr b) (goto_step s e b q)"
proof -
  have "\<not> reading_header s" "s \<noteq> PARSESTEP_CHUNKED_SIZE" "s \<noteq> PARSESTEP_CHUNKED_DATA"
    using assms(5) by (auto simp: reading_header_def)
  then show ?thesis
    using assms by (auto simp: goto_step_def flow_inv_def parse_inv_def core_ok_def chunk_ok_def pending_def)
qed

lemma core_ok_method [simp]: "core_ok (e\<lparr>headers := headers e\<lparr>method_n := n\<rparr>\<rparr>) b q = core_ok e b q"
  by (simp add: core_ok_def headers_ok_def)

lemma core_ok_version [simp]: "core_ok (e\<lparr>headers := headers e\<lparr>version := n\<rparr>\<rparr>) b q = core_ok e b q"
  by (simp add: core_ok_def headers_ok_def)

lemma scalar_fields [simp]:
  "pending j (hs\<lparr>method_n := n\<rparr>) = pending j hs" "pending j (hs\<lparr>version := n\<rparr>) = pending j hs"
  "fresh_entries d (hs\<lparr>method_n := n\<rparr>) = fresh_entries d hs"
  "fresh_entries d (hs\<lparr>version := n\<rparr>) = fresh_entries d hs"
  by (simp_all add: header_field_defs)

lemma check_version_inv:
  assumes "core_ok e b q" "pending j (headers e)" "fresh_entries d (headers e)"
    and "j \<le> stage s" "stage s = 6 \<Longrightarrow> s = PARSESTEP_HEADER_NAME0" "\<not> d"
  shows "flow_inv (fill_ptr b) (check_version s e b q)"
  using assms flow_inv_Return_error [OF assms(1)]
  by (auto simp: check_version_def Let_def intro!: goto_step_inv)

lemma parse_METHOD_inv:
  assumes "parse_inv e b p" "parse_step e = PARSESTEP_REQUESTSTARTLINE_METHOD"
  shows "flow_inv (fill_ptr b) (parse_METHOD e b p)"
  unfolding parse_METHOD_def
proof (rule method_field.token_body_inv [OF assms(1)])
  fix e' q
  assume a: "core_ok e' b q" "pending (Suc 1) (headers e')" "fresh_entries (reading_header (parse_step e)) (headers e')"
  have "flow_inv (fill_ptr b) (goto_step PARSESTEP_REQUESTSTARTLINE_URI0
          (e'\<lparr>headers := (headers e')\<lparr>method_n := n\<rparr>\<rparr>) b q)" for n
    using a assms(2) by (intro goto_step_inv [where j = 2 and d = False]) (auto simp: reading_header_def numeral_2_eq_2)
  then show "flow_inv (fill_ptr b)
      (let h = METHOD (headers e') in
        case method_number (slice (value_offset h) (nat (value_len h)) (area b)) of
          None \<Rightarrow> Return FASTERHTTP_ERROR_METHOD_INVALID e' b
        | Some n \<Rightarrow> Goto (e'\<lparr>headers := (headers e')\<lparr>method_n := n\<rparr>,
                            parse_step := PARSESTEP_REQUESTSTARTLINE_URI0\<rparr>) b q)"
    using flow_inv_Return_error [OF a(1)] by (auto simp: Let_def goto_step_def split: option.split)
qed (simp add: assms)

text \<open>The steps of the two start lines keep the invariant.\<close>

lemma parse_start_inv:
  assumes "parse_inv e b p" "stage (parse_step e) \<le> 5" "parse_step e \<noteq> PARSESTEP_BEGIN"
  shows "flow_inv (fill_ptr b) (parse_switch alloc r e b p)"
proof (cases "parse_step e")
  case PARSESTEP_REQUESTSTARTLINE_METHOD0
  then show ?thesis using assms
    by (simp add: parse_switch_def parse_METHOD0_def method_field.token_start_inv)
next
  case PARSESTEP_REQUESTSTARTLINE_METHOD
  then show ?thesis using assms by (simp add: parse_switch_def parse_METHOD_inv)
next
  case PARSESTEP_REQUESTSTARTLINE_URI0
  then show ?thesis using assms by (simp add: parse_switch_def parse_URI0_def uri_field.token_start_inv)
next
  case PARSESTEP_REQUESTSTARTLINE_URI
  then show ?thesis using assms unfolding parse_switch_def parse_URI_def
    by (auto intro!: uri_field.token_body_inv goto_step_inv simp: reading_header_def)
next
  case PARSESTEP_REQUESTSTARTLINE_VERSION0
  then show ?thesis using assms
    by (simp add: parse_switch_def parse_REQ_VERSION0_def version_field.token_start_inv)
next
  case PARSESTEP_REQUESTSTARTLINE_VERSION
  then show ?thesis using assms unfolding parse_switch_def parse_REQ_VERSION_def
    by (auto intro!: version_field.line_rest_inv check_version_inv simp: reading_header_def)
next
  case PARSESTEP_RESPONSESTARTLINE_VERSION0
  then show ?thesis using assms
    by (simp add: parse_switch_def parse_RSP_VERSION0_def version_field.token_start_inv)
next
  case PARSESTEP_RESPONSESTARTLINE_VERSION
  then show ?thesis using assms unfolding parse_switch_def parse_RSP_VERSION_def
    by (auto intro!: version_field.token_body_inv check_version_inv simp: reading_header_def)
next
  case PARSESTEP_RESPONSESTARTLINE_STATUSCODE0
  then show ?thesis using assms
    by (simp add: parse_switch_def parse_STATUSCODE0_def statuscode_field.token_start_inv)
next
  case PARSESTEP_RESPONSESTARTLINE_STATUSCODE
  then show ?thesis using assms unfolding parse_switch_def parse_STATUSCODE_def
    by (auto intro!: statuscode_field.token_body_inv goto_step_inv simp: reading_header_def)
next
  case PARSESTEP_RESPONSESTARTLINE_REASONPHRASE0
  then show ?thesis using assms
    by (simp add: parse_switch_def parse_REASONPHRASE0_def reasonphrase_field.token_start_inv)
next
  case PARSESTEP_RESPONSESTARTLINE_REASONPHRASE
  then show ?thesis using assms unfolding parse_switch_def parse_REASONPHRASE_def
    by (auto intro!: reasonphrase_field.line_rest_inv goto_step_inv simp: reading_header_def)
qed (use assms in auto)

section \<open>Headers\<close>

lemma cur_header_in: "core_ok e b p \<Longrightarrow> header_ok (fill_ptr b) (cur_header e)"
  by (auto simp: core_ok_def headers_ok_def cur_header_def)

lemma upd_cur_simps [simp]:
  "parse_step (upd_cur_header f e) = parse_step e"
  "header_array_count (headers (upd_cur_header f e)) = header_array_count (headers e)"
  "header_array_size (headers (upd_cur_header f e)) = header_array_size (headers e)"
  "chunked_length (upd_cur_header f e) = chunked_length e"
  "body_base_offset (upd_cur_header f e) = body_base_offset e"
  "METHOD (headers (upd_cur_header f e)) = METHOD (headers e)"
  "URI (headers (upd_cur_header f e)) = URI (headers e)"
  "VERSION (headers (upd_cur_header f e)) = VERSION (headers e)"
  "STATUSCODE (headers (upd_cur_header f e)) = STATUSCODE (headers e)"
  "REASONPHRASE (headers (upd_cur_header f e)) = REASONPHRASE (headers e)"
  "TRAILER (headers (upd_cur_header f e)) = TRAILER (headers e)"
  by (simp_all add: upd_cur_header_def)

lemma upd_cur_core:
  assumes "core_ok e b p" "header_ok (fill_ptr b) (f (cur_header e))" "q \<le> fill_ptr b"
  shows "core_ok (upd_cur_header f e) b q"
  using assms set_update_subset_insert [of "header_array (headers e)"]
  by (fastforce simp: core_ok_def headers_ok_def upd_cur_header_def)

lemma upd_cur_pending [simp]: "pending j (headers (upd_cur_header f e)) = pending j (headers e)"
  by (simp add: pending_def)

lemma upd_cur_fresh:
  assumes "core_ok e b p" "fresh_entries d (headers e)" "value_len (f (cur_header e)) \<le> 0"
    and "\<not> d' \<Longrightarrow> \<not> d \<and> name_len (f (cur_header e)) \<le> 0"
  shows "fresh_entries d' (headers (upd_cur_header f e))"
  using assms
  by (auto simp: fresh_entries_def upd_cur_header_def cur_header_def core_ok_def headers_ok_def nth_list_update)

lemma parse_inv_parts:
  "parse_inv e b p \<Longrightarrow> core_ok e b p \<and> pending (stage (parse_step e)) (headers e)
     \<and> fresh_entries (reading_header (parse_step e)) (headers e)"
  by (simp add: parse_inv_def)

lemma cur_header_fresh:
  "core_ok e b p \<Longrightarrow> fresh_entries d (headers e) \<Longrightarrow>
     value_len (cur_header e) \<le> 0 \<and> (\<not> d \<longrightarrow> name_len (cur_header e) \<le> 0)"
  by (auto simp: fresh_entries_def cur_header_def core_ok_def)

text \<open>The labels that read a header field are entered through a jump that keeps the rest.\<close>

lemma goto_header_inv:
  assumes "core_ok e b q" "pending 6 (headers e)" "fresh_entries (reading_header s) (headers e)"
    and "s = PARSESTEP_HEADER_NAME0 \<or> reading_header s"
  shows "flow_inv (fill_ptr b) (Goto (e\<lparr>parse_step := s\<rparr>) b q)"
  using assms
  by (auto simp: flow_inv_def parse_inv_def core_ok_def chunk_ok_def reading_header_def)

lemma go_parsing_body_inv:
  assumes "core_ok e b q" "pending 6 (headers e)" "fresh_entries False (headers e)"
  shows "flow_inv (fill_ptr b) (go_parsing_body r e b q)"
  using assms
  by (auto simp: go_parsing_body_def flow_inv_def return_inv_def parse_inv_def core_ok_def chunk_ok_def
      position_def reading_header_def)

lemma parse_NAME0_inv:
  assumes "parse_inv e b p" "parse_step e = PARSESTEP_HEADER_NAME0"
  shows "flow_inv (fill_ptr b) (parse_NAME0 r e b p)"
proof -
  let ?q = "scan (\<lambda>c. c \<noteq> SP) (area b) (fill_ptr b) p"
  let ?f = "\<lambda>h. h\<lparr>p_buffer := Some r, name_offset := ?q\<rparr>"
  have c: "core_ok e b p" "pending 6 (headers e)" "fresh_entries False (headers e)"
    using assms parse_inv_parts [OF assms(1)] by (auto simp: reading_header_def)
  have q: "?q \<le> fill_ptr b" "p \<le> ?q" using c(1) scan_bound scan_le by (auto simp: core_ok_def)
  have body: "flow_inv (fill_ptr b) (go_parsing_body r e b i)" if "i \<le> fill_ptr b" for i
    using c that by (intro go_parsing_body_inv) (auto simp: core_ok_def)
  have f: "header_ok (fill_ptr b) (?f (cur_header e))" "value_len (?f (cur_header e)) \<le> 0"
    "name_len (?f (cur_header e)) \<le> 0"
    using cur_header_in [OF c(1)] cur_header_fresh [OF c(1,3)] q by (auto simp: header_ok_def)
  have "flow_inv (fill_ptr b)
     (Goto ((upd_cur_header ?f e)\<lparr>parse_step := PARSESTEP_HEADER_NAME\<rparr>) b (Suc ?q))" if "?q < fill_ptr b"
    using that c f by (intro goto_header_inv upd_cur_core upd_cur_fresh) (auto simp: reading_header_def)
  moreover have "flow_inv (fill_ptr b) (Return FASTERHTTP_INFO_NEED_MORE_HTTP_BUFFER e b)"
    using assms(1) c(1)
    by (auto simp: flow_inv_def return_inv_def parse_inv_def core_ok_def chunk_ok_def buffer_ok_def assms(2))
  ultimately show ?thesis
    using flow_inv_NEED_MORE [OF assms(1) q(2,1)] body by (simp add: parse_NAME0_def Let_def)
qed

lemma upd_name_inv:
  assumes "parse_inv e b p" "parse_step e = PARSESTEP_HEADER_NAME"
    and "len \<le> int q - int (name_offset (cur_header e))" "q \<le> fill_ptr b"
  shows "parse_inv (upd_cur_header (\<lambda>h. h\<lparr>name_len := len\<rparr>) e) b p"
proof -
  let ?f = "\<lambda>h. h\<lparr>name_len := len\<rparr>"
  have c: "core_ok e b p" "pending 6 (headers e)" "fresh_entries True (headers e)"
    using assms(2) parse_inv_parts [OF assms(1)] by (auto simp: reading_header_def)
  have "header_ok (fill_ptr b) (?f (cur_header e))" "value_len (?f (cur_header e)) \<le> 0"
    using cur_header_in [OF c(1)] cur_header_fresh [OF c(1,3)] assms(3,4) by (auto simp: header_ok_def)
  moreover have "p \<le> fill_ptr b" using c(1) by (simp add: core_ok_def)
  ultimately have "core_ok (upd_cur_header ?f e) b p" "fresh_entries True (headers (upd_cur_header ?f e))"
    using upd_cur_core [OF c(1), of ?f p] upd_cur_fresh [OF c(1,3), of ?f True] by simp_all
  then show ?thesis
    using c assms(2) by (simp add: parse_inv_def chunk_ok_def reading_header_def)
qed

lemma parse_NAME_inv:
  assumes "parse_inv e b p" "parse_step e = PARSESTEP_HEADER_NAME"
  shows "flow_inv (fill_ptr b) (parse_NAME e b p)"
proof -
  let ?q = "scan (\<lambda>c. c = SP \<or> c = CHR '':'' \<or> c = LF) (area b) (fill_ptr b) p"
  let ?q2 = "scan (\<lambda>c. c = CHR '':'' \<or> c = LF) (area b) (fill_ptr b) ?q"
  let ?e = "upd_cur_header (\<lambda>h. h\<lparr>name_len := int ?q - int (name_offset h)\<rparr>) e"
  have c: "core_ok e b p" using parse_inv_parts [OF assms(1)] by simp
  have q: "?q \<le> fill_ptr b" "p \<le> ?q" using c scan_bound scan_le by (auto simp: core_ok_def)
  then have q2: "?q2 \<le> fill_ptr b" "p \<le> ?q2" using scan_bound scan_le order_trans by blast+
  have "?e = upd_cur_header (\<lambda>h. h\<lparr>name_len := int ?q - int (name_offset (cur_header e))\<rparr>) e"
    by (simp add: upd_cur_header_def)
  then have i: "parse_inv ?e b p" using upd_name_inv [OF assms _ q(1)] by simp
  note parts = parse_inv_parts [OF i]
  have "flow_inv (fill_ptr b) (Goto (?e\<lparr>parse_step := PARSESTEP_HEADER_VALUE0\<rparr>) b (Suc ?q2))"
    if "?q2 < fill_ptr b"
    using parts that assms(2) by (intro goto_header_inv) (auto simp: reading_header_def core_ok_def)
  then show ?thesis
    using flow_inv_NEED_MORE [OF assms(1) q(2,1)] flow_inv_NEED_MORE [OF i q2(2,1)]
      flow_inv_Return_error [OF c] flow_inv_Return_error [OF parts [THEN conjunct1]]
    by (simp add: parse_NAME_def Let_def)
qed

lemma parse_VALUE0_inv:
  assumes "parse_inv e b p" "parse_step e = PARSESTEP_HEADER_VALUE0"
  shows "flow_inv (fill_ptr b) (parse_VALUE0 e b p)"
proof -
  let ?q = "scan (\<lambda>c. c \<noteq> SP) (area b) (fill_ptr b) p"
  let ?f = "\<lambda>h. h\<lparr>value_offset := ?q\<rparr>"
  have c: "core_ok e b p" "pending 6 (headers e)" "fresh_entries True (headers e)"
    using assms(2) parse_inv_parts [OF assms(1)] by (auto simp: reading_header_def)
  have q: "?q \<le> fill_ptr b" "p \<le> ?q" using c(1) scan_bound scan_le by (auto simp: core_ok_def)
  have "header_ok (fill_ptr b) (?f (cur_header e))" "value_len (?f (cur_header e)) \<le> 0"
    using cur_header_in [OF c(1)] cur_header_fresh [OF c(1,3)] q by (auto simp: header_ok_def)
  then have "flow_inv (fill_ptr b)
     (Goto ((upd_cur_header ?f e)\<lparr>parse_step := PARSESTEP_HEADER_VALUE\<rparr>) b (Suc ?q))" if "?q < fill_ptr b"
    using that c by (intro goto_header_inv upd_cur_core upd_cur_fresh) (auto simp: reading_header_def)
  then show ?thesis
    using flow_inv_NEED_MORE [OF assms(1) q(2,1)] flow_inv_Return_error [OF c(1)]
    by (simp add: parse_VALUE0_def Let_def)
qed

section \<open>The end of a header\<close>

lemma known_header_simps [simp]:
  "header_array (known_header r m h hs) = header_array hs"
  "header_array_count (known_header r m h hs) = header_array_count hs"
  "header_array_size (known_header r m h hs) = header_array_size hs"
  "METHOD (known_header r m h hs) = METHOD hs" "URI (known_header r m h hs) = URI hs"
  "VERSION (known_header r m h hs) = VERSION hs" "STATUSCODE (known_header r m h hs) = STATUSCODE hs"
  "REASONPHRASE (known_header r m h hs) = REASONPHRASE hs"
  by (simp_all add: known_header_def)

lemma known_header_TRAILER:
  "header_ok n h \<Longrightarrow> header_ok n (TRAILER hs) \<Longrightarrow> header_ok n (TRAILER (known_header r m h hs))"
  by (auto simp: known_header_def header_ok_def)

lemma known_header_ok:
  "header_ok n h \<Longrightarrow> headers_ok n hs \<Longrightarrow> headers_ok n (known_header r m h hs)"
  by (auto simp: headers_ok_def known_header_TRAILER)

text \<open>Storing the value, looking at the header and counting it.\<close>

lemma value_stored:
  fixes r :: buffer_ref
  assumes "parse_inv e b p" "parse_step e = PARSESTEP_HEADER_VALUE" "q < fill_ptr b"
    and "len \<le> int q - int (value_offset (cur_header e))"
  defines "e1 \<equiv> upd_cur_header (\<lambda>h. h\<lparr>value_len := len\<rparr>) e"
  defines "hs \<equiv> known_header r (area b) (cur_header e1) (headers e1)"
  shows "headers_ok (fill_ptr b) (hs\<lparr>header_array_count := header_array_count hs + 1\<rparr>)"
    "fresh_entries False (hs\<lparr>header_array_count := header_array_count hs + 1\<rparr>)"
    "pending 6 hs" "header_array_count hs < header_array_size hs" "core_ok e1 b (q + 1)"
proof -
  have c: "core_ok e b p" "pending 6 (headers e)" "fresh_entries True (headers e)"
    using assms(2) parse_inv_parts [OF assms(1)] by (auto simp: reading_header_def)
  have "header_ok (fill_ptr b) ((cur_header e)\<lparr>value_len := len\<rparr>)"
    using cur_header_in [OF c(1)] assms(3,4) by (auto simp: header_ok_def)
  then show core: "core_ok e1 b (q + 1)"
    using upd_cur_core [OF c(1)] assms(3) by (simp add: e1_def)
  then have "headers_ok (fill_ptr b) hs"
    using known_header_ok cur_header_in by (auto simp: hs_def core_ok_def)
  then show "headers_ok (fill_ptr b) (hs\<lparr>header_array_count := header_array_count hs + 1\<rparr>)"
    using core by (auto simp: headers_ok_def hs_def core_ok_def)
  show "fresh_entries False (hs\<lparr>header_array_count := header_array_count hs + 1\<rparr>)"
    using c(3) by (auto simp: fresh_entries_def hs_def e1_def upd_cur_header_def)
  show "pending 6 hs" by (simp add: pending_def)
  show "header_array_count hs < header_array_size hs" using core by (simp add: hs_def core_ok_def)
qed

lemma return_done:
  assumes "buffer_ok b" "headers_ok (fill_ptr b) (headers e)" "q \<le> fill_ptr b"
  shows "flow_inv (fill_ptr b) (Return 0 (mark_reforming (e\<lparr>parse_step := s\<rparr>) (b\<lparr>process_ptr := q\<rparr>))
           (b\<lparr>process_ptr := q\<rparr>))"
  using assms by (auto simp: flow_inv_def return_inv_def mark_reforming_def)

text \<open>Doubling the header array leaves it with a free entry.\<close>

lemma grown_array:
  assumes "headers_ok n hs" "fresh_entries False hs" "header_array_count hs \<ge> header_array_size hs"
    and "0 < header_array_size hs"
  defines "k \<equiv> header_array_size hs * 2"
  defines "hs' \<equiv> hs\<lparr>header_array_size := k, header_array := take (header_array_count hs) (header_array hs)
                      @ replicate (k - header_array_count hs) zero_header\<rparr>"
  shows "headers_ok n hs'" "fresh_entries False hs'" "header_array_count hs' < header_array_size hs'"
proof -
  have "header_array_count hs = header_array_size hs" "length (header_array hs) = header_array_size hs"
    using assms(1,3) by (auto simp: headers_ok_def)
  then show "headers_ok n hs'" "fresh_entries False hs'" "header_array_count hs' < header_array_size hs'"
    using assms(1,4) unfolding hs'_def k_def
    by (auto simp: headers_ok_def fresh_entries_def nth_append zero_header_def header_ok_def)
qed

lemma parse_VALUE_inv:
  assumes "parse_inv e b p" "parse_step e = PARSESTEP_HEADER_VALUE"
  shows "flow_inv (fill_ptr b) (parse_VALUE alloc r e b p)"
proof -
  let ?q = "scan (\<lambda>c. c = LF) (area b) (fill_ptr b) p"
  have c: "core_ok e b p" using parse_inv_parts [OF assms(1)] by simp
  have q: "?q \<le> fill_ptr b" "p \<le> ?q" using c scan_bound scan_le by (auto simp: core_ok_def)
  show ?thesis
  proof (cases "?q < fill_ptr b")
    case False
    then show ?thesis
      using flow_inv_NEED_MORE [OF assms(1) q(2,1)] by (simp add: parse_VALUE_def Let_def)
  next
    case True
    define len where "len = int ?q - int (value_offset (cur_header e)) - int (trailing_blanks (area b) (?q - 1))"
    define e1 where "e1 = upd_cur_header (\<lambda>h. h\<lparr>value_len := len\<rparr>) e"
    define hs where "hs = known_header r (area b) (cur_header e1) (headers e1)"
    define hs1 where "hs1 = hs\<lparr>header_array_count := header_array_count hs + 1\<rparr>"
    have e1: "e1 = upd_cur_header (\<lambda>h. h\<lparr>value_len := int ?q - int (value_offset h)
                                    - int (trailing_blanks (area b) (?q - 1))\<rparr>) e"
      by (simp add: e1_def len_def upd_cur_header_def)
    have v: "headers_ok (fill_ptr b) hs1" "fresh_entries False hs1" "pending 6 hs"
      "header_array_count hs < header_array_size hs" "core_ok e1 b (?q + 1)"
      unfolding hs1_def hs_def e1_def
      by (rule value_stored [OF assms True]; simp add: len_def)+
    have size: "header_array_size hs1 = header_array_size hs" "header_array_count hs1 = Suc (header_array_count hs)"
      by (simp_all add: hs1_def)
    have fin: "flow_inv (fill_ptr b) (Return 0 (mark_reforming (e1\<lparr>headers := hs1, parse_step := PARSESTEP_DONE\<rparr>)
        (b\<lparr>process_ptr := Suc ?q\<rparr>)) (b\<lparr>process_ptr := Suc ?q\<rparr>))"
      using return_done [of b "e1\<lparr>headers := hs1\<rparr>" "Suc ?q" PARSESTEP_DONE] v(1,5) True
      by (simp add: core_ok_def)
    have err: "flow_inv (fill_ptr b) (Return FASTERHTTP_ERROR_ALLOC (e1\<lparr>headers := hs1\<rparr>) b)"
      using v(1,5) by (simp add: flow_inv_def return_inv_def core_ok_def)
    have next_header: "flow_inv (fill_ptr b) (Goto (e1\<lparr>headers := hs2, parse_step := PARSESTEP_HEADER_NAME0\<rparr>) b (Suc ?q))"
      if "headers_ok (fill_ptr b) hs2" "fresh_entries False hs2" "header_array_count hs2 < header_array_size hs2"
      for hs2
      using goto_header_inv [of "e1\<lparr>headers := hs2\<rparr>" b "Suc ?q" PARSESTEP_HEADER_NAME0] that v(5)
      by (simp add: core_ok_def reading_header_def pending_def)
    note more = next_header [OF v(1,2)]
      next_header [OF grown_array [OF v(1,2)], unfolded size]
    show ?thesis
      using True fin err more v(4)
      unfolding parse_VALUE_def end_of_header_def Let_def e1 [symmetric] hs_def [symmetric] hs1_def [symmetric]
      by (simp add: size flow_inv_def hs1_def)
  qed
qed

section \<open>Bodies\<close>

lemma parse_BODY_inv:
  assumes "parse_inv e b p" "parse_step e = PARSESTEP_BODY"
  shows "flow_inv (fill_ptr b) (parse_BODY e b)"
proof -
  have c: "core_ok e b p" using parse_inv_parts [OF assms(1)] by simp
  let ?q = "nat (int (body_base_offset e) + content_length (headers e))"
  have "flow_inv (fill_ptr b) (Return 0 (mark_reforming (e\<lparr>parse_step := PARSESTEP_DONE\<rparr>) (b\<lparr>process_ptr := ?q\<rparr>))
      (b\<lparr>process_ptr := ?q\<rparr>))" if "?q \<le> fill_ptr b"
    using c that by (intro return_done) (auto simp: core_ok_def)
  then show ?thesis
    using flow_inv_NEED_MORE [OF assms(1), of "fill_ptr b"] c
    by (auto simp: parse_BODY_def Let_def core_ok_def nat_le_iff)
qed

lemma chunk_digit_nonneg: "0 \<le> len \<Longrightarrow> 0 \<le> chunk_digit len c"
  by (auto simp: chunk_digit_def Let_def)

lemma chunk_size_scan_inv:
  assumes "chunk_size_scan m fill e p = (e', p')" "0 \<le> chunked_length e"
  shows "0 \<le> chunked_length e'"
  using assms
proof (induction m fill e p arbitrary: e' p' rule: chunk_size_scan.induct)
  case (1 m fill e p)
  then show ?case
    by (cases "p < fill \<and> rd m p \<noteq> LF")
       (auto simp: chunk_size_scan.simps [of m fill e p] chunk_digit_nonneg)
qed

lemma parse_CHUNKED_SIZE_inv:
  assumes "parse_inv e b p" "parse_step e = PARSESTEP_CHUNKED_SIZE"
  shows "flow_inv (fill_ptr b) (parse_CHUNKED_SIZE e b p)"
proof -
  obtain e1 q where sc: "chunk_size_scan (area b) (fill_ptr b) e p = (e1, q)" by fastforce
  obtain k l where e1: "e1 = e\<lparr>chunked_length := k, chunked_length_length := l\<rparr>"
    and q: "q = scan (\<lambda>c. c = LF) (area b) (fill_ptr b) p"
    using chunk_size_scan_result [OF sc] by auto
  have c: "core_ok e b p" using parse_inv_parts [OF assms(1)] by simp
  have qb: "q \<le> fill_ptr b" "p \<le> q" using c q scan_bound scan_le by (auto simp: core_ok_def)
  have "0 \<le> k" using chunk_size_scan_inv [OF sc] c e1 by (simp add: core_ok_def)
  then have i: "parse_inv e1 b p"
    using assms e1 by (simp add: parse_inv_def core_ok_def chunk_ok_def position_def)
  note parts = i [unfolded parse_inv_def] and s = assms(2)
  have fin: "flow_inv (fill_ptr b) (Return 0 (mark_reforming (e1\<lparr>chunked_length_length := l', parse_step := PARSESTEP_DONE\<rparr>)
      (b\<lparr>process_ptr := Suc q\<rparr>)) (b\<lparr>process_ptr := Suc q\<rparr>))" if "q < fill_ptr b" for l'
    using return_done [of b "e1\<lparr>chunked_length_length := l'\<rparr>" "Suc q"] parts that by (simp add: core_ok_def)
  have trailer: "flow_inv (fill_ptr b) (Goto (e1\<lparr>chunked_length_length := l', parse_step := PARSESTEP_HEADER_NAME0\<rparr>) b (Suc q))"
    if "q < fill_ptr b" for l'
    using parts that e1 s by (simp add: flow_inv_def parse_inv_def core_ok_def chunk_ok_def reading_header_def)
  have chunk: "flow_inv (fill_ptr b) (Goto (e1\<lparr>chunked_length_length := l', chunked_body := Suc q,
      parse_step := PARSESTEP_CHUNKED_DATA\<rparr>) b (Suc q))" if "q < fill_ptr b" for l'
    using parts that e1 s qb
    by (simp add: flow_inv_def parse_inv_def core_ok_def chunk_ok_def reading_header_def position_def)
  show ?thesis
    using flow_inv_NEED_MORE [OF i qb(2,1)] fin trailer chunk sc
    by (simp add: parse_CHUNKED_SIZE_def Let_def)
qed

lemma parse_CHUNKED_DATA_inv:
  assumes "parse_inv e b p" "parse_step e = PARSESTEP_CHUNKED_DATA"
  shows "flow_inv (fill_ptr b) (parse_CHUNKED_DATA e b)"
proof -
  have c: "core_ok e b p" "chunk_ok e (fill_ptr b) p" using assms by (auto simp: parse_inv_def)
  show ?thesis
  proof (cases "int (fill_ptr b) - int (chunked_body e) \<ge> chunked_length e + 2")
    case False
    then show ?thesis
      using flow_inv_NEED_MORE [OF assms(1), of "fill_ptr b"] c by (simp add: parse_CHUNKED_DATA_def core_ok_def)
  next
    case True
    let ?len = "nat (chunked_length e)"
    let ?m = "write_at (chunked_body_end e) (slice (chunked_body e) ?len (area b)) (area b)"
    have "0 \<le> chunked_length e" using c by (simp add: core_ok_def)
    then have len: "chunked_body e + ?len + 2 \<le> fill_ptr b" using True by linarith
    have area: "fill_ptr b < length (area b)" using c by (auto simp: core_ok_def buffer_ok_def)
    have ends: "chunked_body_end e \<le> chunked_body e" using c assms(2) by (simp add: chunk_ok_def position_def)
    have "length ?m = length (area b)"
      by (intro length_write_at) (use len area ends in simp)
    then have "buffer_ok (b\<lparr>base := Some ?m\<rparr>)" using c by (auto simp: core_ok_def buffer_ok_def)
    then show ?thesis
      using True assms c len ends
      by (auto simp: parse_CHUNKED_DATA_def Let_def flow_inv_def parse_inv_def core_ok_def chunk_ok_def
          position_def reading_header_def headers_ok_def fresh_entries_def pending_def)
  qed
qed

section \<open>The whole parser\<close>

lemma parse_switch_inv:
  assumes "parse_inv e b p"
  shows "flow_inv (fill_ptr b) (parse_switch alloc r e b p)"
proof -
  have c: "core_ok e b p" using parse_inv_parts [OF assms] by simp
  consider "stage (parse_step e) \<le> 5" "parse_step e \<noteq> PARSESTEP_BEGIN" | "parse_step e = PARSESTEP_BEGIN"
    | "parse_step e = PARSESTEP_HEADER_NAME0" | "parse_step e = PARSESTEP_HEADER_NAME"
    | "parse_step e = PARSESTEP_HEADER_VALUE0" | "parse_step e = PARSESTEP_HEADER_VALUE"
    | "parse_step e = PARSESTEP_BODY" | "parse_step e = PARSESTEP_CHUNKED_SIZE"
    | "parse_step e = PARSESTEP_CHUNKED_DATA" | "parse_step e = PARSESTEP_DONE"
    by (cases "parse_step e") auto
  then show ?thesis
  proof cases
    case 1
    then show ?thesis by (rule parse_start_inv [OF assms])
  qed (use assms flow_inv_Return_error [OF c] in \<open>simp_all add: parse_switch_def parse_NAME0_inv parse_NAME_inv
         parse_VALUE0_inv parse_VALUE_inv parse_BODY_inv parse_CHUNKED_SIZE_inv parse_CHUNKED_DATA_inv\<close>)
qed

lemma parse_loop_inv:
  assumes "parse_inv e b p" "parse_loop alloc r e b p = (nret, e', b')"
  shows "return_inv (fill_ptr b) nret e' b'"
  using assms
proof (induction alloc r e b p rule: parse_loop.induct)
  case (1 alloc r e b p)
  note inv = parse_switch_inv [OF 1(2), of alloc r]
  show ?case
  proof (cases "parse_switch alloc r e b p")
    case (Return n e1 b1)
    then show ?thesis using inv 1(3) by (simp add: parse_loop.simps [of alloc r e b p] flow_inv_def)
  next
    case (Goto e1 b1 p1)
    then show ?thesis
      using inv 1(1) [OF Goto] 1(3) by (auto simp: parse_loop.simps [of alloc r e b p] flow_inv_def)
  qed
qed

text \<open>The state of an environment between two calls of the parser on its buffer \<open>r\<close>.\<close>

definition parser_ready :: "http_lib \<Rightarrow> http_env \<Rightarrow> buffer_ref \<Rightarrow> bool" where
  "parser_ready l e r \<longleftrightarrow>
     (let b = buffer_at l e r in parse_inv e b (process_ptr b)) \<and> r \<noteq> StatusCodeBuffer"

lemma buffer_at_set_buffer [simp]: "r \<noteq> StatusCodeBuffer \<Longrightarrow> buffer_at l (set_buffer r b e) r = b"
  by (cases r) (simp_all add: set_buffer_def)

lemma set_buffer_simps [simp]:
  "headers (set_buffer r b e) = headers e" "parse_step (set_buffer r b e) = parse_step e"
  by (simp_all add: set_buffer_def split: buffer_ref.split)

lemma parse_inv_set_buffer [simp]: "parse_inv (set_buffer r b e) b' p = parse_inv e b' p"
  by (simp add: set_buffer_def parse_inv_def core_ok_def chunk_ok_def position_def split: buffer_ref.split)

lemma parse_inv_start:
  assumes "parse_inv e b p" "parse_step e = PARSESTEP_BEGIN" "stage s \<in> {1, 3}"
  shows "parse_inv (e\<lparr>parse_step := s\<rparr>) b p"
proof -
  have "\<not> reading_header s" "s \<noteq> PARSESTEP_CHUNKED_SIZE" "s \<noteq> PARSESTEP_CHUNKED_DATA"
    using assms(3) by (auto simp: reading_header_def)
  then show ?thesis
    using assms by (auto simp: parse_inv_def core_ok_def chunk_ok_def pending_def reading_header_def)
qed

lemma ParseHttpBuffer_inv:
  assumes "parser_ready l e r" "ParseHttpBuffer alloc l e r = (nret, e')"
  shows "return_inv (fill_ptr (buffer_at l e r)) nret e' (buffer_at l e' r)"
proof -
  let ?b = "buffer_at l e r"
  define e1 where "e1 = (if parse_step e \<noteq> PARSESTEP_BEGIN then e
                  else if r = RequestBuffer then e\<lparr>parse_step := PARSESTEP_REQUESTSTARTLINE_METHOD0\<rparr>
                  else e\<lparr>parse_step := PARSESTEP_RESPONSESTARTLINE_VERSION0\<rparr>)"
  have r: "r \<noteq> StatusCodeBuffer" and i: "parse_inv e ?b (process_ptr ?b)"
    using assms(1) by (auto simp: parser_ready_def Let_def)
  have i1: "parse_inv e1 ?b (process_ptr ?b)"
    unfolding e1_def using i parse_inv_start [OF i] by (auto simp del: buffer_at.simps)
  obtain e2 b2 where l: "parse_loop alloc r e1 ?b (process_ptr ?b) = (nret, e2, b2)" and e': "e' = set_buffer r b2 e2"
    using assms(2) r unfolding ParseHttpBuffer_def Let_def e1_def [symmetric]
    by (auto split: prod.splits)
  show ?thesis
    using parse_loop_inv [OF i1 l] r by (simp add: e' return_inv_def)
qed

text \<open>More bytes behind the filled part do not disturb a waiting parser.\<close>

lemma header_ok_mono: "header_ok n h \<Longrightarrow> n \<le> k \<Longrightarrow> header_ok k h"
  by (auto simp: header_ok_def)

lemma headers_ok_mono: "headers_ok n hs \<Longrightarrow> n \<le> k \<Longrightarrow> headers_ok k hs"
  by (auto simp: headers_ok_def intro: header_ok_mono)

lemma parse_inv_more:
  assumes "parse_inv e b p" "buffer_ok b'" "fill_ptr b \<le> fill_ptr b'"
  shows "parse_inv e b' p"
  using assms headers_ok_mono by (auto simp: parse_inv_def core_ok_def chunk_ok_def)

end
