(* ===== verification/HttpParserResume.thy ===== *)
theory HttpParserResume
  imports HttpParserSafety
begin

text \<open>
  Parsing in instalments.  A parser that has consumed the first bytes of a message and asked for more
  goes on, once \<open>fill_ptr\<close> has moved, exactly as if all bytes had been there from the start.  There are
  two exceptions, both visible in the state it stops in: a \<open>\r\<close> at the end of the bytes when the next
  header is due (\<open>process_ptr\<close> is not moved), and a blank between a header name and its colon (the
  length of the name is measured again).  \<open>clean_stop\<close> excludes them.
\<close>

section \<open>Scanning with a later end\<close>

lemma scan_more:
  "scan stop m k p < k \<Longrightarrow> k \<le> n \<Longrightarrow> scan stop m n p = scan stop m k p"
proof (induction stop m k p rule: scan.induct)
  case (1 stop m k p)
  then show ?case
    by (cases "p < k \<and> \<not> stop (rd m p)") (auto simp: scan.simps [of stop m k p] scan.simps [of stop m n p])
qed

lemma scan_resume:
  "k \<le> scan stop m k p \<Longrightarrow> p \<le> k \<Longrightarrow> k \<le> n \<Longrightarrow> scan stop m n p = scan stop m n k"
proof (induction stop m k p rule: scan.induct)
  case (1 stop m k p)
  show ?case
  proof (cases "p < k \<and> \<not> stop (rd m p)")
    case True
    then show ?thesis using 1 by (auto simp: scan.simps [of stop m k p] scan.simps [of stop m n p])
  next
    case False
    then have "p = k" using 1(2,3) by (auto simp: scan.simps [of stop m k p] split: if_splits)
    then show ?thesis by simp
  qed
qed

lemma scan_full: "k \<le> scan stop m k p \<Longrightarrow> p \<le> k \<Longrightarrow> scan stop m k p = k"
  using scan_bound by (metis le_antisym)

lemma chunk_scan_more:
  assumes "chunk_size_scan m k e p = (e', p')" "p' < k" "k \<le> n"
  shows "chunk_size_scan m n e p = (e', p')"
  using assms
proof (induction m k e p rule: chunk_size_scan.induct)
  case (1 m k e p)
  show ?case
  proof (cases "p < k \<and> rd m p \<noteq> LF")
    case True
    then show ?thesis using 1 by (simp add: chunk_size_scan.simps [of m k e p] chunk_size_scan.simps [of m n e p])
  next
    case False
    then have *: "e' = e" "p' = p" using 1(2) by (auto simp: chunk_size_scan.simps [of m k e p])
    then have "rd m p = LF" using False 1(3) by simp
    then show ?thesis unfolding * by (subst chunk_size_scan.simps) simp
  qed
qed

lemma chunk_scan_resume:
  assumes "chunk_size_scan m k e p = (e', p')" "k \<le> p'" "p \<le> k" "k \<le> n"
  shows "chunk_size_scan m n e p = chunk_size_scan m n e' k"
  using assms
proof (induction m k e p rule: chunk_size_scan.induct)
  case (1 m k e p)
  show ?case
  proof (cases "p < k \<and> rd m p \<noteq> LF")
    case True
    then show ?thesis
      using 1 by (auto simp: chunk_size_scan.simps [of m k e p] chunk_size_scan.simps [of m n e p])
  next
    case False
    then have "p = k" "e' = e"
      using 1(2-4) by (auto simp: chunk_size_scan.simps [of m k e p] split: if_splits)
    then show ?thesis by simp
  qed
qed

section \<open>A jump does not look behind the end it was given\<close>

lemma go_parsing_body_more:
  "go_parsing_body r e (b\<lparr>fill_ptr := k\<rparr>) q = Goto e' b' p' \<Longrightarrow>
     b' = b\<lparr>fill_ptr := k\<rparr> \<and> go_parsing_body r e b q = Goto e' b p'"
  by (auto simp: go_parsing_body_def split: if_splits)

lemma goto_step_more:
  "goto_step s e (b\<lparr>fill_ptr := k\<rparr>) q = Goto e' b' p' \<Longrightarrow>
     b' = b\<lparr>fill_ptr := k\<rparr> \<and> goto_step s e b q = Goto e' b p'"
  by (auto simp: goto_step_def)

lemma check_version_more:
  "check_version s e (b\<lparr>fill_ptr := k\<rparr>) q = Goto e' b' p' \<Longrightarrow>
     b' = b\<lparr>fill_ptr := k\<rparr> \<and> check_version s e b q = Goto e' b p'"
  by (auto simp: check_version_def goto_step_def Let_def split: if_splits)

lemma token_start_more:
  assumes "token_start upd s r e (b\<lparr>fill_ptr := k\<rparr>) p = Goto e' b' p'" "k \<le> fill_ptr b"
  shows "b' = b\<lparr>fill_ptr := k\<rparr> \<and> token_start upd s r e b p = Goto e' b p'"
  using assms scan_more [of "\<lambda>c. c \<noteq> SP" "area b" k p "fill_ptr b"]
  by (auto simp: token_start_def Let_def split: if_splits)

lemma token_body_more:
  assumes "token_body get upd cont e (b\<lparr>fill_ptr := k\<rparr>) p = Goto e' b' p'" "k \<le> fill_ptr b"
    and "\<And>e1 q. cont e1 (b\<lparr>fill_ptr := k\<rparr>) q = Goto e' b' p' \<Longrightarrow>
           b' = b\<lparr>fill_ptr := k\<rparr> \<and> cont e1 b q = Goto e' b p'"
  shows "b' = b\<lparr>fill_ptr := k\<rparr> \<and> token_body get upd cont e b p = Goto e' b p'"
  using assms scan_more [of "\<lambda>c. c = SP \<or> c = LF" "area b" k p "fill_ptr b"]
  by (auto simp: token_body_def Let_def not_le split: if_splits)

lemma line_rest_more:
  assumes "line_rest get upd cont e (b\<lparr>fill_ptr := k\<rparr>) p = Goto e' b' p'" "k \<le> fill_ptr b"
    and "\<And>e1 q. cont e1 (b\<lparr>fill_ptr := k\<rparr>) q = Goto e' b' p' \<Longrightarrow>
           b' = b\<lparr>fill_ptr := k\<rparr> \<and> cont e1 b q = Goto e' b p'"
  shows "b' = b\<lparr>fill_ptr := k\<rparr> \<and> line_rest get upd cont e b p = Goto e' b p'"
  using assms scan_more [of "\<lambda>c. c = LF" "area b" k p "fill_ptr b"]
  by (auto simp: line_rest_def Let_def not_le split: if_splits)

lemma parse_METHOD_more:
  assumes "parse_METHOD e (b\<lparr>fill_ptr := k\<rparr>) p = Goto e' b' p'" "k \<le> fill_ptr b"
  shows "b' = b\<lparr>fill_ptr := k\<rparr> \<and> parse_METHOD e b p = Goto e' b p'"
  using assms unfolding parse_METHOD_def
  by (rule token_body_more) (auto simp: Let_def split: option.splits)

lemma parse_NAME0_more:
  assumes "parse_NAME0 r e (b\<lparr>fill_ptr := k\<rparr>) p = Goto e' b' p'" "k \<le> fill_ptr b"
  shows "b' = b\<lparr>fill_ptr := k\<rparr> \<and> parse_NAME0 r e b p = Goto e' b p'"
  using assms scan_more [of "\<lambda>c. c \<noteq> SP" "area b" k p "fill_ptr b"]
  by (auto simp: parse_NAME0_def Let_def not_le split: if_splits dest!: go_parsing_body_more)

lemma parse_NAME_more:
  assumes "parse_NAME e (b\<lparr>fill_ptr := k\<rparr>) p = Goto e' b' p'" "k \<le> fill_ptr b"
  shows "b' = b\<lparr>fill_ptr := k\<rparr> \<and> parse_NAME e b p = Goto e' b p'"
proof -
  let ?q = "scan (\<lambda>c. c = SP \<or> c = CHR '':'' \<or> c = LF) (area b) k p"
  show ?thesis
    using assms scan_more [of "\<lambda>c. c = SP \<or> c = CHR '':'' \<or> c = LF" "area b" k p "fill_ptr b"]
      scan_more [of "\<lambda>c. c = CHR '':'' \<or> c = LF" "area b" k ?q "fill_ptr b"]
    by (auto simp: parse_NAME_def Let_def not_le split: if_splits)
qed

lemma parse_VALUE0_more:
  assumes "parse_VALUE0 e (b\<lparr>fill_ptr := k\<rparr>) p = Goto e' b' p'" "k \<le> fill_ptr b"
  shows "b' = b\<lparr>fill_ptr := k\<rparr> \<and> parse_VALUE0 e b p = Goto e' b p'"
  using assms scan_more [of "\<lambda>c. c \<noteq> SP" "area b" k p "fill_ptr b"]
  by (auto simp: parse_VALUE0_def Let_def split: if_splits)

lemma end_of_header_more:
  "end_of_header alloc r e (b\<lparr>fill_ptr := k\<rparr>) q = Goto e' b' p' \<Longrightarrow>
     b' = b\<lparr>fill_ptr := k\<rparr> \<and> end_of_header alloc r e b q = Goto e' b p'"
  by (auto simp: end_of_header_def Let_def split: if_splits)

lemma parse_VALUE_more:
  assumes "parse_VALUE alloc r e (b\<lparr>fill_ptr := k\<rparr>) p = Goto e' b' p'" "k \<le> fill_ptr b"
  shows "b' = b\<lparr>fill_ptr := k\<rparr> \<and> parse_VALUE alloc r e b p = Goto e' b p'"
  using assms scan_more [of "\<lambda>c. c = LF" "area b" k p "fill_ptr b"]
  by (auto simp: parse_VALUE_def Let_def not_le split: if_splits dest!: end_of_header_more)

lemma token_goto_more:
  assumes "token_body get upd (goto_step s) e (b\<lparr>fill_ptr := k\<rparr>) p = Goto e' b' p'" "k \<le> fill_ptr b"
  shows "b' = b\<lparr>fill_ptr := k\<rparr> \<and> token_body get upd (goto_step s) e b p = Goto e' b p'"
  by (rule token_body_more [OF assms]) (rule goto_step_more)

lemma token_version_more:
  assumes "token_body get upd (check_version s) e (b\<lparr>fill_ptr := k\<rparr>) p = Goto e' b' p'" "k \<le> fill_ptr b"
  shows "b' = b\<lparr>fill_ptr := k\<rparr> \<and> token_body get upd (check_version s) e b p = Goto e' b p'"
  by (rule token_body_more [OF assms]) (rule check_version_more)

lemma line_goto_more:
  assumes "line_rest get upd (goto_step s) e (b\<lparr>fill_ptr := k\<rparr>) p = Goto e' b' p'" "k \<le> fill_ptr b"
  shows "b' = b\<lparr>fill_ptr := k\<rparr> \<and> line_rest get upd (goto_step s) e b p = Goto e' b p'"
  by (rule line_rest_more [OF assms]) (rule goto_step_more)

lemma line_version_more:
  assumes "line_rest get upd (check_version s) e (b\<lparr>fill_ptr := k\<rparr>) p = Goto e' b' p'" "k \<le> fill_ptr b"
  shows "b' = b\<lparr>fill_ptr := k\<rparr> \<and> line_rest get upd (check_version s) e b p = Goto e' b p'"
  by (rule line_rest_more [OF assms]) (rule check_version_more)

lemma parse_CHUNKED_SIZE_more:
  assumes "parse_CHUNKED_SIZE e (b\<lparr>fill_ptr := k\<rparr>) p = Goto e' b' p'" "k \<le> fill_ptr b"
  shows "b' = b\<lparr>fill_ptr := k\<rparr> \<and> parse_CHUNKED_SIZE e b p = Goto e' b p'"
proof -
  obtain e1 q where sc: "chunk_size_scan (area b) k e p = (e1, q)" by fastforce
  show ?thesis
    using assms sc chunk_scan_more [OF sc _ assms(2)]
    by (auto simp: parse_CHUNKED_SIZE_def Let_def split: if_splits)
qed

lemma parse_CHUNKED_DATA_more:
  assumes "parse_CHUNKED_DATA e (b\<lparr>fill_ptr := k\<rparr>) = Goto e' b' p'" "k \<le> fill_ptr b"
  shows "\<exists>m. b' = b\<lparr>fill_ptr := k, base := m\<rparr> \<and> parse_CHUNKED_DATA e b = Goto e' (b\<lparr>base := m\<rparr>) p'"
  using assms by (auto simp: parse_CHUNKED_DATA_def Let_def split: if_splits)

lemmas parse_defs = parse_switch_def parse_METHOD0_def parse_URI0_def parse_URI_def parse_REQ_VERSION0_def
  parse_REQ_VERSION_def parse_RSP_VERSION0_def parse_RSP_VERSION_def parse_STATUSCODE0_def
  parse_STATUSCODE_def parse_REASONPHRASE0_def parse_REASONPHRASE_def

lemma parse_switch_more:
  assumes "parse_switch alloc r e (b\<lparr>fill_ptr := k\<rparr>) p = Goto e' b' p'" "k \<le> fill_ptr b"
  shows "\<exists>m. b' = b\<lparr>fill_ptr := k, base := m\<rparr> \<and> parse_switch alloc r e b p = Goto e' (b\<lparr>base := m\<rparr>) p'"
proof (cases "parse_step e = PARSESTEP_CHUNKED_DATA")
  case True
  then show ?thesis using assms parse_CHUNKED_DATA_more by (simp add: parse_switch_def)
next
  case False
  have "b' = b\<lparr>fill_ptr := k\<rparr> \<and> parse_switch alloc r e b p = Goto e' b p'"
    using assms(1) False
    by (cases "parse_step e")
       (auto simp: parse_defs
         dest!: token_start_more [OF _ assms(2)] parse_METHOD_more [OF _ assms(2)]
           token_goto_more [OF _ assms(2)] token_version_more [OF _ assms(2)]
           line_goto_more [OF _ assms(2)] line_version_more [OF _ assms(2)]
           parse_NAME0_more [OF _ assms(2)] parse_NAME_more [OF _ assms(2)] parse_VALUE0_more [OF _ assms(2)]
           parse_VALUE_more [OF _ assms(2)] parse_CHUNKED_SIZE_more [OF _ assms(2)])
  moreover have "b\<lparr>fill_ptr := k\<rparr> = b\<lparr>fill_ptr := k, base := base b\<rparr>" "b\<lparr>base := base b\<rparr> = b" by simp_all
  ultimately show ?thesis by metis
qed

section \<open>A stopped step goes on from where it stopped\<close>

text \<open>Where the parser can be resumed: the bytes do not end with \<open>\r\<close> when the next header is due, and no
  blank stands behind the start of a header name.\<close>

definition clean_stop :: "http_env \<Rightarrow> http_buffer \<Rightarrow> bool" where
  "clean_stop e b \<longleftrightarrow> (parse_step e = PARSESTEP_HEADER_NAME0 \<longrightarrow> rd (area b) (fill_ptr b - 1) \<noteq> CR)
     \<and> (parse_step e = PARSESTEP_HEADER_NAME \<longrightarrow>
          SP \<notin> set (slice (name_offset (cur_header e)) (fill_ptr b - name_offset (cur_header e)) (area b)))"

definition stopped :: "http_env \<Rightarrow> http_buffer \<Rightarrow> nat \<Rightarrow> http_env \<Rightarrow> http_buffer \<Rightarrow> bool" where
  "stopped e b k e1 b1 \<longleftrightarrow> parse_step e1 = parse_step e \<and> b1 = b\<lparr>fill_ptr := k, process_ptr := k\<rparr>"

abbreviation NEED_MORE :: int where "NEED_MORE \<equiv> FASTERHTTP_INFO_NEED_MORE_HTTP_BUFFER"

lemma go_parsing_body_not_need: "go_parsing_body r e b q \<noteq> Return NEED_MORE e1 b1"
  by (auto simp: go_parsing_body_def)

lemma goto_step_not_need: "goto_step s e b q \<noteq> Return NEED_MORE e1 b1"
  by (simp add: goto_step_def)

lemma check_version_not_need: "check_version s e b q \<noteq> Return NEED_MORE e1 b1"
  by (auto simp: check_version_def goto_step_def Let_def)

lemma end_of_header_not_need: "end_of_header alloc r e b q \<noteq> Return NEED_MORE e1 b1"
  by (auto simp: end_of_header_def Let_def)

lemma token_start_stop:
  assumes "token_start upd s r e (b\<lparr>fill_ptr := k\<rparr>) p = Return NEED_MORE e1 b1" "p \<le> k" "k \<le> fill_ptr b"
  shows "stopped e b k e1 b1 \<and> token_start upd s r e b p = token_start upd s r e1 b k"
  using assms scan_resume [of k "\<lambda>c. c \<noteq> SP" "area b" p "fill_ptr b"] scan_full [of k "\<lambda>c. c \<noteq> SP" "area b" p]
  by (auto simp: token_start_def stopped_def Let_def split: if_splits)

lemma token_body_stop:
  assumes "token_body get upd cont e (b\<lparr>fill_ptr := k\<rparr>) p = Return NEED_MORE e1 b1" "p \<le> k" "k \<le> fill_ptr b"
    and "\<And>e q. cont e (b\<lparr>fill_ptr := k\<rparr>) q \<noteq> Return NEED_MORE e1 b1"
  shows "stopped e b k e1 b1 \<and> token_body get upd cont e b p = token_body get upd cont e1 b k"
  using assms scan_resume [of k "\<lambda>c. c = SP \<or> c = LF" "area b" p "fill_ptr b"]
    scan_full [of k "\<lambda>c. c = SP \<or> c = LF" "area b" p]
  by (auto simp: token_body_def stopped_def Let_def split: if_splits)

lemma line_rest_stop:
  assumes "line_rest get upd cont e (b\<lparr>fill_ptr := k\<rparr>) p = Return NEED_MORE e1 b1" "p \<le> k" "k \<le> fill_ptr b"
    and "\<And>e q. cont e (b\<lparr>fill_ptr := k\<rparr>) q \<noteq> Return NEED_MORE e1 b1"
  shows "stopped e b k e1 b1 \<and> line_rest get upd cont e b p = line_rest get upd cont e1 b k"
  using assms scan_resume [of k "\<lambda>c. c = LF" "area b" p "fill_ptr b"] scan_full [of k "\<lambda>c. c = LF" "area b" p]
  by (auto simp: line_rest_def stopped_def Let_def split: if_splits)

lemma token_goto_stop:
  assumes "token_body get upd (goto_step s) e (b\<lparr>fill_ptr := k\<rparr>) p = Return NEED_MORE e1 b1" "p \<le> k" "k \<le> fill_ptr b"
  shows "stopped e b k e1 b1 \<and> token_body get upd (goto_step s) e b p = token_body get upd (goto_step s) e1 b k"
  by (rule token_body_stop [OF assms]) (rule goto_step_not_need)

lemma token_version_stop:
  assumes "token_body get upd (check_version s) e (b\<lparr>fill_ptr := k\<rparr>) p = Return NEED_MORE e1 b1" "p \<le> k" "k \<le> fill_ptr b"
  shows "stopped e b k e1 b1 \<and> token_body get upd (check_version s) e b p = token_body get upd (check_version s) e1 b k"
  by (rule token_body_stop [OF assms]) (rule check_version_not_need)

lemma line_goto_stop:
  assumes "line_rest get upd (goto_step s) e (b\<lparr>fill_ptr := k\<rparr>) p = Return NEED_MORE e1 b1" "p \<le> k" "k \<le> fill_ptr b"
  shows "stopped e b k e1 b1 \<and> line_rest get upd (goto_step s) e b p = line_rest get upd (goto_step s) e1 b k"
  by (rule line_rest_stop [OF assms]) (rule goto_step_not_need)

lemma line_version_stop:
  assumes "line_rest get upd (check_version s) e (b\<lparr>fill_ptr := k\<rparr>) p = Return NEED_MORE e1 b1" "p \<le> k" "k \<le> fill_ptr b"
  shows "stopped e b k e1 b1 \<and> line_rest get upd (check_version s) e b p = line_rest get upd (check_version s) e1 b k"
  by (rule line_rest_stop [OF assms]) (rule check_version_not_need)

lemma parse_METHOD_stop:
  assumes "parse_METHOD e (b\<lparr>fill_ptr := k\<rparr>) p = Return NEED_MORE e1 b1" "p \<le> k" "k \<le> fill_ptr b"
  shows "stopped e b k e1 b1 \<and> parse_METHOD e b p = parse_METHOD e1 b k"
  using assms unfolding parse_METHOD_def
  by (rule token_body_stop) (auto simp: Let_def split: option.splits)

lemma parse_NAME0_stop:
  assumes "parse_NAME0 r e (b\<lparr>fill_ptr := k\<rparr>) p = Return NEED_MORE e1 b1" "p \<le> k" "k \<le> fill_ptr b"
    and "parse_step e = PARSESTEP_HEADER_NAME0" "clean_stop e1 b1"
  shows "stopped e b k e1 b1 \<and> parse_NAME0 r e b p = parse_NAME0 r e1 b k"
proof -
  let ?q = "scan (\<lambda>c. c \<noteq> SP) (area b) k p"
  show ?thesis
  proof (cases "k \<le> ?q")
    case True
    then show ?thesis
      using assms(1-4) scan_resume [OF True assms(2,3)] scan_full [OF True assms(2)]
      by (simp add: parse_NAME0_def stopped_def Let_def)
  next
    case False
    then have "rd (area b) ?q = CR" "k \<le> ?q + 1" "e1 = e" "b1 = b\<lparr>fill_ptr := k\<rparr>"
      using assms(1) go_parsing_body_not_need by (auto simp: parse_NAME0_def Let_def split: if_splits)
    moreover from this have "?q = k - 1" using False by simp
    ultimately show ?thesis using assms(4,5) by (simp add: clean_stop_def)
  qed
qed

lemma parse_VALUE0_stop:
  assumes "parse_VALUE0 e (b\<lparr>fill_ptr := k\<rparr>) p = Return NEED_MORE e1 b1" "p \<le> k" "k \<le> fill_ptr b"
  shows "stopped e b k e1 b1 \<and> parse_VALUE0 e b p = parse_VALUE0 e1 b k"
  using assms scan_resume [of k "\<lambda>c. c \<noteq> SP" "area b" p "fill_ptr b"] scan_full [of k "\<lambda>c. c \<noteq> SP" "area b" p]
  by (auto simp: parse_VALUE0_def stopped_def Let_def split: if_splits)

lemma parse_VALUE_stop:
  assumes "parse_VALUE alloc r e (b\<lparr>fill_ptr := k\<rparr>) p = Return NEED_MORE e1 b1" "p \<le> k" "k \<le> fill_ptr b"
  shows "stopped e b k e1 b1 \<and> parse_VALUE alloc r e b p = parse_VALUE alloc r e1 b k"
  using assms scan_resume [of k "\<lambda>c. c = LF" "area b" p "fill_ptr b"] scan_full [of k "\<lambda>c. c = LF" "area b" p]
    end_of_header_not_need
  by (auto simp: parse_VALUE_def stopped_def Let_def split: if_splits)

lemma parse_BODY_stop:
  assumes "parse_BODY e (b\<lparr>fill_ptr := k\<rparr>) = Return NEED_MORE e1 b1"
  shows "stopped e b k e1 b1 \<and> parse_BODY e b = parse_BODY e1 b"
  using assms by (auto simp: parse_BODY_def stopped_def Let_def split: if_splits)

lemma parse_CHUNKED_DATA_stop:
  assumes "parse_CHUNKED_DATA e (b\<lparr>fill_ptr := k\<rparr>) = Return NEED_MORE e1 b1"
  shows "stopped e b k e1 b1 \<and> parse_CHUNKED_DATA e b = parse_CHUNKED_DATA e1 b"
  using assms by (auto simp: parse_CHUNKED_DATA_def stopped_def Let_def split: if_splits)

lemma parse_CHUNKED_SIZE_stop:
  assumes "parse_CHUNKED_SIZE e (b\<lparr>fill_ptr := k\<rparr>) p = Return NEED_MORE e1 b1" "p \<le> k" "k \<le> fill_ptr b"
  shows "stopped e b k e1 b1 \<and> parse_CHUNKED_SIZE e b p = parse_CHUNKED_SIZE e1 b k"
proof -
  obtain e2 q where sc: "chunk_size_scan (area b) k e p = (e2, q)" by fastforce
  obtain i j where e2: "e2 = e\<lparr>chunked_length := i, chunked_length_length := j\<rparr>"
    and q: "q = scan (\<lambda>c. c = LF) (area b) k p"
    using chunk_size_scan_result [OF sc] by auto
  have "k \<le> q" "e1 = e2" "b1 = b\<lparr>fill_ptr := k, process_ptr := q\<rparr>"
    using assms(1) sc by (auto simp: parse_CHUNKED_SIZE_def Let_def split: if_splits)
  moreover from this have "q = k" using scan_full q assms(2) by metis
  ultimately show ?thesis
    using chunk_scan_resume [OF sc _ assms(2,3)] e2 by (simp add: stopped_def parse_CHUNKED_SIZE_def)
qed

text \<open>In the label \<open>HEADER_NAME\<close> the start of the name lies behind the position.\<close>

definition name_begun :: "http_env \<Rightarrow> nat \<Rightarrow> bool" where
  "name_begun e p \<longleftrightarrow> (parse_step e = PARSESTEP_HEADER_NAME \<longrightarrow> name_offset (cur_header e) < p)
     \<and> header_array_count (headers e) < length (header_array (headers e))"

lemma slice_nth_in:
  assumes "i \<le> q" "q < k" "k \<le> length m"
  shows "m ! q \<in> set (slice i (k - i) m)"
proof -
  have "slice i (k - i) m ! (q - i) = m ! q" "q - i < length (slice i (k - i) m)"
    using assms by (simp_all add: slice_def)
  then show ?thesis using nth_mem by metis
qed

lemma parse_NAME_stop:
  assumes "parse_NAME e (b\<lparr>fill_ptr := k\<rparr>) p = Return NEED_MORE e1 b1" "p \<le> k" "k \<le> fill_ptr b"
    and "parse_step e = PARSESTEP_HEADER_NAME" "clean_stop e1 b1" "name_begun e p" "k < length (area b)"
  shows "stopped e b k e1 b1 \<and> parse_NAME e b p = parse_NAME e1 b k"
proof -
  let ?stop = "\<lambda>c. c = SP \<or> c = CHR '':'' \<or> c = LF" and ?stop2 = "\<lambda>c. c = CHR '':'' \<or> c = LF"
  let ?q = "scan ?stop (area b) k p"
  let ?e2 = "upd_cur_header (\<lambda>h. h\<lparr>name_len := int ?q - int (name_offset h)\<rparr>) e"
  show ?thesis
  proof (cases "k \<le> ?q")
    case True
    then show ?thesis
      using assms(1-4) scan_resume [OF True assms(2,3)] scan_full [OF True assms(2)]
      by (auto simp: parse_NAME_def stopped_def Let_def split: if_splits)
  next
    case False
    then have q: "?q < k" by simp
    have stop: "?stop (rd (area b) ?q)" by (rule scan_stops [OF q])
    have r: "k \<le> scan ?stop2 (area b) k ?q" and e1: "e1 = ?e2" and b1: "fill_ptr b1 = k" "area b1 = area b"
      using assms(1) q by (auto simp: parse_NAME_def Let_def split: if_splits)
    have "rd (area b) ?q = SP"
      using stop r q scan_here [of ?stop2 "area b" ?q k] by auto
    moreover have *: "name_offset (cur_header e1) = name_offset (cur_header e)" "parse_step e1 = PARSESTEP_HEADER_NAME"
      using assms(4,6) by (auto simp: e1 name_begun_def upd_cur_header_def cur_header_def)
    moreover have "name_offset (cur_header e) \<le> ?q"
      using assms(4,6) scan_le [of p ?stop "area b" k] by (auto simp: name_begun_def)
    moreover have "rd (area b) ?q = area b ! ?q" using q assms(7) by (simp add: rd_def)
    ultimately have "SP \<in> set (slice (name_offset (cur_header e)) (k - name_offset (cur_header e)) (area b))"
      using slice_nth_in [of "name_offset (cur_header e)" ?q k "area b"] q assms(7) by simp
    then show ?thesis using assms(5) *
      by (simp add: clean_stop_def b1)
  qed
qed

lemma parse_switch_stop:
  assumes "parse_switch alloc r e (b\<lparr>fill_ptr := k\<rparr>) p = Return NEED_MORE e1 b1" "p \<le> k" "k \<le> fill_ptr b"
    and "clean_stop e1 b1" "name_begun e p" "k < length (area b)"
  shows "stopped e b k e1 b1 \<and> parse_switch alloc r e b p = parse_switch alloc r e1 b k"
proof -
  note stop = token_start_stop [OF _ assms(2,3)] parse_METHOD_stop [OF _ assms(2,3)]
    token_goto_stop [OF _ assms(2,3)] token_version_stop [OF _ assms(2,3)]
    line_goto_stop [OF _ assms(2,3)] line_version_stop [OF _ assms(2,3)]
    parse_VALUE0_stop [OF _ assms(2,3)] parse_VALUE_stop [OF _ assms(2,3)]
    parse_BODY_stop parse_CHUNKED_SIZE_stop [OF _ assms(2,3)] parse_CHUNKED_DATA_stop
  note name0 = parse_NAME0_stop [OF _ assms(2,3) _ assms(4), of r e]
  note name = parse_NAME_stop [OF _ assms(2,3) _ assms(4-6)]
  have "stopped e b k e1 b1 \<Longrightarrow> parse_step e1 = parse_step e" by (simp add: stopped_def)
  then show ?thesis
    using assms(1) name0 name
    by (cases "parse_step e") (auto simp: parse_defs dest!: stop)
qed

section \<open>The position of \<open>process_ptr\<close> does not matter while the parser runs\<close>

definition flow_sim :: "flow \<Rightarrow> flow \<Rightarrow> bool" where
  "flow_sim f g \<longleftrightarrow>
     (case f of
        Return n e b \<Rightarrow> \<exists>x. g = Return n e (b\<lparr>process_ptr := x\<rparr>) \<and> (n = 0 \<longrightarrow> x = process_ptr b)
      | Goto e b p \<Rightarrow> \<exists>x. g = Goto e (b\<lparr>process_ptr := x\<rparr>) p)"

lemma flow_sim_refl [simp]: "flow_sim f f"
proof (cases f)
  case (Return n e b)
  show ?thesis unfolding flow_sim_def Return flow.case by (rule exI [of _ "process_ptr b"]) simp
next
  case (Goto e b p)
  show ?thesis unfolding flow_sim_def Goto flow.case by (rule exI [of _ "process_ptr b"]) simp
qed

lemma flow_sim_if:
  "(P \<Longrightarrow> flow_sim f f') \<Longrightarrow> (\<not> P \<Longrightarrow> flow_sim g g') \<Longrightarrow> flow_sim (if P then f else g) (if P then f' else g')"
  by simp

lemma flow_sim_Goto [simp]: "flow_sim (Goto e b p) (Goto e (b\<lparr>process_ptr := x\<rparr>) p)"
  by (auto simp: flow_sim_def)

lemma flow_sim_Return [simp]: "n \<noteq> 0 \<Longrightarrow> flow_sim (Return n e b) (Return n e (b\<lparr>process_ptr := x\<rparr>))"
  by (auto simp: flow_sim_def)

lemma mark_reforming_process [simp]:
  "mark_reforming e (b\<lparr>process_ptr := x, process_ptr := y\<rparr>) = mark_reforming e (b\<lparr>process_ptr := y\<rparr>)"
  by simp

lemma go_parsing_body_sim: "flow_sim (go_parsing_body r e b q) (go_parsing_body r e (b\<lparr>process_ptr := x\<rparr>) q)"
  by (simp add: go_parsing_body_def)

lemma goto_step_sim: "flow_sim (goto_step s e b q) (goto_step s e (b\<lparr>process_ptr := x\<rparr>) q)"
  by (simp add: goto_step_def)

lemma check_version_sim: "flow_sim (check_version s e b q) (check_version s e (b\<lparr>process_ptr := x\<rparr>) q)"
  by (simp add: check_version_def goto_step_sim Let_def)

lemma end_of_header_sim: "flow_sim (end_of_header alloc r e b q) (end_of_header alloc r e (b\<lparr>process_ptr := x\<rparr>) q)"
  unfolding end_of_header_def Let_def area_simps by (intro flow_sim_if) simp_all

lemma token_start_sim: "flow_sim (token_start upd s r e b p) (token_start upd s r e (b\<lparr>process_ptr := x\<rparr>) p)"
  by (simp add: token_start_def Let_def)

lemma token_body_sim:
  assumes "\<And>e q. flow_sim (cont e b q) (cont e (b\<lparr>process_ptr := x\<rparr>) q)"
  shows "flow_sim (token_body get upd cont e b p) (token_body get upd cont e (b\<lparr>process_ptr := x\<rparr>) p)"
  using assms by (simp add: token_body_def Let_def)

lemma line_rest_sim:
  assumes "\<And>e q. flow_sim (cont e b q) (cont e (b\<lparr>process_ptr := x\<rparr>) q)"
  shows "flow_sim (line_rest get upd cont e b p) (line_rest get upd cont e (b\<lparr>process_ptr := x\<rparr>) p)"
  using assms by (simp add: line_rest_def Let_def)

lemma parse_METHOD_sim: "flow_sim (parse_METHOD e b p) (parse_METHOD e (b\<lparr>process_ptr := x\<rparr>) p)"
  unfolding parse_METHOD_def by (rule token_body_sim) (simp add: Let_def split: option.split)

lemma header_steps_sim:
  "flow_sim (parse_NAME0 r e b p) (parse_NAME0 r e (b\<lparr>process_ptr := x\<rparr>) p)"
  "flow_sim (parse_NAME e b p) (parse_NAME e (b\<lparr>process_ptr := x\<rparr>) p)"
  "flow_sim (parse_VALUE0 e b p) (parse_VALUE0 e (b\<lparr>process_ptr := x\<rparr>) p)"
  "flow_sim (parse_VALUE alloc r e b p) (parse_VALUE alloc r e (b\<lparr>process_ptr := x\<rparr>) p)"
  by (simp_all add: parse_NAME0_def parse_NAME_def parse_VALUE0_def parse_VALUE_def Let_def
      go_parsing_body_sim end_of_header_sim)

lemma body_steps_sim:
  "flow_sim (parse_BODY e b) (parse_BODY e (b\<lparr>process_ptr := x\<rparr>))"
  "flow_sim (parse_CHUNKED_SIZE e b p) (parse_CHUNKED_SIZE e (b\<lparr>process_ptr := x\<rparr>) p)"
  "flow_sim (parse_CHUNKED_DATA e b) (parse_CHUNKED_DATA e (b\<lparr>process_ptr := x\<rparr>))"
proof -
  show "flow_sim (parse_BODY e b) (parse_BODY e (b\<lparr>process_ptr := x\<rparr>))"
    by (simp add: parse_BODY_def Let_def)
  show "flow_sim (parse_CHUNKED_SIZE e b p) (parse_CHUNKED_SIZE e (b\<lparr>process_ptr := x\<rparr>) p)"
    by (simp add: parse_CHUNKED_SIZE_def Let_def split: prod.split)
  have eq: "b\<lparr>process_ptr := x, base := m\<rparr> = b\<lparr>base := m, process_ptr := x\<rparr>"
    "fill_ptr (b\<lparr>process_ptr := x\<rparr>) = fill_ptr b" for m by simp_all
  show "flow_sim (parse_CHUNKED_DATA e b) (parse_CHUNKED_DATA e (b\<lparr>process_ptr := x\<rparr>))"
    unfolding parse_CHUNKED_DATA_def Let_def area_simps eq by (intro flow_sim_if) simp_all
qed

lemma parse_switch_sim:
  "parse_step e \<noteq> PARSESTEP_DONE \<Longrightarrow>
     flow_sim (parse_switch alloc r e b p) (parse_switch alloc r e (b\<lparr>process_ptr := x\<rparr>) p)"
  by (cases "parse_step e")
     (simp_all add: parse_defs token_start_sim parse_METHOD_sim token_body_sim line_rest_sim goto_step_sim
        check_version_sim header_steps_sim body_steps_sim)

lemmas switch_goto = parse_start_goto check_version_goto goto_step_goto parse_METHOD_goto parse_NAME_goto
  parse_VALUE0_goto parse_VALUE_goto parse_CHUNKED_SIZE_goto parse_CHUNKED_DATA_goto

lemma parse_switch_not_done:
  assumes "parse_switch alloc r e b p = Goto e' b' p'"
  shows "parse_step e' \<noteq> PARSESTEP_DONE"
  using assms by (cases "parse_step e") (auto simp: parse_defs dest!: switch_goto parse_NAME0_goto)

text \<open>The results of two runs that may differ in \<open>process_ptr\<close> unless the message is complete.\<close>

definition same_result :: "int \<times> http_env \<times> http_buffer \<Rightarrow> int \<times> http_env \<times> http_buffer \<Rightarrow> bool" where
  "same_result f g \<longleftrightarrow> (\<exists>x. g = (fst f, fst (snd f), (snd (snd f))\<lparr>process_ptr := x\<rparr>)
     \<and> (fst f = 0 \<longrightarrow> x = process_ptr (snd (snd f))))"

lemma parse_loop_sim:
  assumes "parse_step e \<noteq> PARSESTEP_DONE"
  shows "same_result (parse_loop alloc r e b p) (parse_loop alloc r e (b\<lparr>process_ptr := x\<rparr>) p)"
  using assms
proof (induction alloc r e b p arbitrary: x rule: parse_loop.induct)
  case (1 alloc r e b p)
  note sim = parse_switch_sim [OF 1(2), of alloc r b p x]
  show ?case
  proof (cases "parse_switch alloc r e b p")
    case (Return n e1 b1)
    then obtain y where "parse_switch alloc r e (b\<lparr>process_ptr := x\<rparr>) p = Return n e1 (b1\<lparr>process_ptr := y\<rparr>)"
      "n = 0 \<longrightarrow> y = process_ptr b1"
      using sim by (auto simp: flow_sim_def)
    then show ?thesis using Return parse_loop_return by (auto simp: same_result_def)
  next
    case (Goto e1 b1 p1)
    then obtain y where "parse_switch alloc r e (b\<lparr>process_ptr := x\<rparr>) p = Goto e1 (b1\<lparr>process_ptr := y\<rparr>) p1"
      using sim by (auto simp: flow_sim_def)
    then show ?thesis using 1(1) [OF Goto parse_switch_not_done [OF Goto], of y] Goto parse_loop_goto by metis
  qed
qed

section \<open>The whole parser\<close>

lemma parse_switch_name_begun:
  assumes "parse_switch alloc r e b p = Goto e' b' p'" "parse_inv e b p"
  shows "name_begun e' p'"
proof -
  have inv: "parse_inv e' b' p'" using parse_switch_inv [OF assms(2), of alloc r] assms(1) by (simp add: flow_inv_def)
  then have cnt: "header_array_count (headers e') < length (header_array (headers e'))"
    by (auto simp: parse_inv_def core_ok_def headers_ok_def)
  have "name_offset (cur_header e') < p'" if "parse_step e' = PARSESTEP_HEADER_NAME"
  proof (cases "parse_step e = PARSESTEP_HEADER_NAME0")
    case True
    have "header_array_count (headers e) < length (header_array (headers e))"
      using assms(2) by (auto simp: parse_inv_def core_ok_def headers_ok_def)
    then show ?thesis
      using assms(1) True that
      by (auto simp: parse_switch_def parse_NAME0_def go_parsing_body_def Let_def upd_cur_header_def cur_header_def
          split: if_splits)
  next
    case False
    then show ?thesis using assms(1) that
      by (cases "parse_step e")
         (auto simp: parse_defs dest!: switch_goto)
  qed
  then show ?thesis using cnt by (simp add: name_begun_def)
qed

theorem parse_loop_resume:
  assumes "parse_loop alloc r e (b\<lparr>fill_ptr := k\<rparr>) p = (NEED_MORE, e1, b1)"
    and "parse_inv e (b\<lparr>fill_ptr := k\<rparr>) p" "name_begun e p" "clean_stop e1 b1"
    and "buffer_ok b" "k \<le> fill_ptr b"
  shows "same_result (parse_loop alloc r e b p)
     (parse_loop alloc r e1 (b1\<lparr>fill_ptr := fill_ptr b\<rparr>) (process_ptr b1))"
  using assms
proof (induction alloc r e "b\<lparr>fill_ptr := k\<rparr>" p arbitrary: b rule: parse_loop.induct)
  case (1 alloc r e p b)
  show ?case
  proof (cases "parse_switch alloc r e (b\<lparr>fill_ptr := k\<rparr>) p")
    case (Return n e2 b2)
    then have eq: "n = NEED_MORE" "e2 = e1" "b2 = b1" using 1(2) parse_loop_return by auto
    have "p \<le> k" using 1(3) by (simp add: parse_inv_def core_ok_def)
    moreover have "k < length (area b)" using 1(6,7) by (auto simp: buffer_ok_def)
    ultimately have st: "stopped e b k e1 b1" "parse_switch alloc r e b p = parse_switch alloc r e1 b k"
      using parse_switch_stop [of alloc r e k b p e1 b1] Return eq 1(4-7) by auto
    have "b1\<lparr>fill_ptr := fill_ptr b\<rparr> = b\<lparr>process_ptr := k\<rparr>" "process_ptr b1 = k"
      using st(1) by (simp_all add: stopped_def)
    moreover have "parse_step e1 \<noteq> PARSESTEP_DONE"
      using Return eq st(1) by (auto simp: stopped_def parse_switch_def)
    moreover have "parse_loop alloc r e b p = parse_loop alloc r e1 b k"
      using st(2) by (simp add: parse_loop.simps [of alloc r e b p] parse_loop.simps [of alloc r e1 b k])
    ultimately show ?thesis using parse_loop_sim by metis
  next
    case (Goto e2 b2 p2)
    obtain m where m: "b2 = b\<lparr>fill_ptr := k, base := m\<rparr>" "parse_switch alloc r e b p = Goto e2 (b\<lparr>base := m\<rparr>) p2"
      using parse_switch_more [OF Goto 1(7)] by blast
    have b2: "b2 = (b\<lparr>base := m\<rparr>)\<lparr>fill_ptr := k\<rparr>" using m(1) by simp
    have inv: "parse_inv e2 b2 p2" using parse_switch_inv [OF 1(3), of alloc r] Goto by (simp add: flow_inv_def)
    then have "buffer_ok b2" by (simp add: parse_inv_def core_ok_def)
    then have "buffer_ok (b\<lparr>base := m\<rparr>)" using 1(6) m(1) by (auto simp: buffer_ok_def area_def)
    moreover have "parse_loop alloc r e2 b2 p2 = (NEED_MORE, e1, b1)" using 1(2) Goto parse_loop_goto by metis
    ultimately have "same_result (parse_loop alloc r e2 (b\<lparr>base := m\<rparr>) p2)
        (parse_loop alloc r e1 (b1\<lparr>fill_ptr := fill_ptr b\<rparr>) (process_ptr b1))"
      using 1(1) [of e2 "b\<lparr>base := m\<rparr>" p2] Goto inv parse_switch_name_begun [OF Goto 1(3)] 1(5,7) b2 by simp
    then show ?thesis using m(2) parse_loop_goto by metis
  qed
qed

end
