(* ===== verification/HttpParserCorrect.thy ===== *)
theory HttpParserCorrect
  imports HttpParserSafety
begin

text \<open>
  What the parser makes of a well-formed message: \<open>format_request\<close> prints a request in the way RFC
  7230 describes it, and the lemmas here follow \<open>parse_loop\<close> over the printed text, part by part, up
  to the theorem that parsing the printed request gives back its parts.
\<close>

section \<open>Text at a position of the area\<close>

definition text_at :: "bytes \<Rightarrow> nat \<Rightarrow> bytes \<Rightarrow> bool" where
  "text_at m p s \<longleftrightarrow> slice p (length s) m = s"

lemma text_at_Nil [simp]: "text_at m p []"
  by (simp add: text_at_def)

lemma slice_append: "slice p (k + l) m = slice p k m @ slice (p + k) l m"
  by (simp add: slice_def take_add add.commute)

lemma length_slice_le: "length (slice p k m) \<le> k"
  by (simp add: slice_def)

lemma text_at_append: "text_at m p (s @ t) \<longleftrightarrow> text_at m p s \<and> text_at m (p + length s) t"
proof
  assume "text_at m p (s @ t)"
  then have eq: "slice p (length s) m @ slice (p + length s) (length t) m = s @ t"
    by (simp add: text_at_def slice_append)
  have "length (slice p (length s) m) \<le> length s" "length (slice (p + length s) (length t) m) \<le> length t"
    by (rule length_slice_le)+
  moreover have "length (slice p (length s) m) + length (slice (p + length s) (length t) m) = length s + length t"
    using arg_cong [OF eq, of length] by simp
  ultimately have "length (slice p (length s) m) = length s" by linarith
  then show "text_at m p s \<and> text_at m (p + length s) t" using eq by (simp add: text_at_def)
next
  assume "text_at m p s \<and> text_at m (p + length s) t"
  then show "text_at m p (s @ t)" by (simp add: text_at_def slice_append)
qed

lemma text_at_Cons: "text_at m p (c # s) \<longleftrightarrow> text_at m p [c] \<and> text_at m (Suc p) s"
  using text_at_append [of m p "[c]" s] by simp

lemma text_at_char: "text_at m p [c] \<Longrightarrow> rd m p = c"
  by (auto simp: text_at_def slice_def rd_def take_Suc hd_drop_conv_nth split: if_splits)

lemma text_at_len: "text_at m p s \<Longrightarrow> s \<noteq> [] \<Longrightarrow> p + length s \<le> length m"
  unfolding text_at_def slice_def
  by (metis add_diff_inverse_nat add_le_cancel_left drop_all length_drop length_take linorder_not_less
      min.absorb_iff2 nat_le_linear take_Nil)

lemma text_at_nth: "text_at m p s \<Longrightarrow> i < length s \<Longrightarrow> rd m (p + i) = s ! i"
proof (induction s arbitrary: p i)
  case (Cons c s)
  then show ?case
    using text_at_char [of m p c] Cons.IH [of "Suc p" "i - 1"] text_at_Cons [of m p c s] by (cases i) auto
qed simp

section \<open>Scanning a known text\<close>

lemma scan_over:
  "text_at m p s \<Longrightarrow> \<forall>c \<in> set s. \<not> stop c \<Longrightarrow> p + length s \<le> fill \<Longrightarrow>
     scan stop m fill p = scan stop m fill (p + length s)"
proof (induction s arbitrary: p)
  case (Cons c s)
  then have "rd m p = c" "text_at m (Suc p) s" using text_at_Cons text_at_char by blast+
  then show ?case using Cons by (subst scan.simps) auto
qed simp

lemma scan_to:
  assumes "text_at m p (s @ [c])" "\<forall>c \<in> set s. \<not> stop c" "stop c" "p + length s \<le> fill"
  shows "scan stop m fill p = p + length s"
proof -
  have "text_at m p s" "rd m (p + length s) = c"
    using assms(1) text_at_append text_at_char by blast+
  then show ?thesis using scan_over assms scan_here by metis
qed

section \<open>One header line\<close>

definition header_text :: "bytes \<times> bytes \<Rightarrow> bytes" where
  "header_text nv = fst nv @ '': '' @ snd nv @ [CR, LF]"

definition good_header :: "bytes \<times> bytes \<Rightarrow> bool" where
  "good_header nv = (let (n, v) = nv in
     n \<noteq> [] \<and> hd n \<noteq> CR \<and> SP \<notin> set n \<and> CHR '':'' \<notin> set n \<and> LF \<notin> set n
     \<and> v \<noteq> [] \<and> LF \<notin> set v \<and> hd v \<noteq> SP \<and> last v \<noteq> SP \<and> last v \<noteq> CR)"

definition header_entry :: "buffer_ref \<Rightarrow> nat \<Rightarrow> bytes \<times> bytes \<Rightarrow> http_header" where
  "header_entry r p nv = \<lparr>p_buffer = Some r, name_offset = p, name_len = int (length (fst nv)),
     value_offset = p + length (fst nv) + 2, value_len = int (length (snd nv))\<rparr>"

definition grow_array :: "http_headers \<Rightarrow> http_headers" where
  "grow_array hs =
     (if header_array_count hs \<ge> header_array_size hs
      then hs\<lparr>header_array_size := header_array_size hs * 2,
              header_array := take (header_array_count hs) (header_array hs)
                @ replicate (header_array_size hs * 2 - header_array_count hs) zero_header\<rparr>
      else hs)"

text \<open>The headers after the parser has read the header \<open>nv\<close> at \<open>p\<close>.\<close>

definition store_header :: "buffer_ref \<Rightarrow> bytes \<Rightarrow> nat \<Rightarrow> bytes \<times> bytes \<Rightarrow> http_headers \<Rightarrow> http_headers" where
  "store_header r m p nv hs =
     (let h = header_entry r p nv;
          hs = known_header r m h (hs\<lparr>header_array := (header_array hs)[header_array_count hs := h]\<rparr>) in
      grow_array (hs\<lparr>header_array_count := header_array_count hs + 1\<rparr>))"

lemma text_at_appendD:
  assumes "text_at m p (s @ t)"
  shows "text_at m p s" "text_at m (p + length s) t"
  using assms text_at_append by blast+

lemma text_at_ConsD:
  assumes "text_at m p (c # t)"
  shows "rd m p = c" "text_at m (Suc p) t"
  using assms text_at_Cons [of m p c t] text_at_char by blast+

lemma header_text_parts:
  assumes "text_at m p (header_text (n, v))"
  shows "text_at m p (n @ '':'')" "rd m (p + length n) = CHR '':''" "rd m (p + length n + 1) = SP"
    "text_at m (p + length n + 2) (v @ [CR, LF])"
proof -
  have n: "text_at m p n" and r: "text_at m (p + length n) (CHR '':'' # SP # v @ [CR, LF])"
    using text_at_appendD [of m p n "CHR '':'' # SP # v @ [CR, LF]"] assms by (simp_all add: header_text_def)
  note r1 = text_at_ConsD [OF r] and r2 = text_at_ConsD [OF text_at_ConsD(2) [OF r]]
  show "rd m (p + length n) = CHR '':''" "rd m (p + length n + 1) = SP"
    "text_at m (p + length n + 2) (v @ [CR, LF])"
    using r1 r2 by simp_all
  have "text_at m (p + length n) ([CHR '':''] @ SP # v @ [CR, LF])" using r by simp
  then show "text_at m p (n @ '':'')" using n text_at_append text_at_appendD(1) by blast
qed

text \<open>The four labels that read a header, on a line of that form.\<close>

lemma NAME0_line:
  assumes "text_at m p (header_text (n, v))" "good_header (n, v)" "area b = m" "p < fill_ptr b"
  shows "parse_NAME0 r e b p = Goto ((upd_cur_header (\<lambda>h. h\<lparr>p_buffer := Some r, name_offset := p\<rparr>) e)
           \<lparr>parse_step := PARSESTEP_HEADER_NAME\<rparr>) b (p + 1)"
proof -
  obtain c n' where n: "n = c # n'" "c \<noteq> SP" "c \<noteq> CR" "c \<noteq> LF"
    using assms(2) by (cases n) (auto simp: good_header_def)
  have "rd m p = c" using header_text_parts(1) [OF assms(1)] n text_at_ConsD(1) by fastforce
  then show ?thesis using n assms(3,4) scan_here [of "\<lambda>c. c \<noteq> SP" m p] by (simp add: parse_NAME0_def Let_def)
qed

lemma NAME_line:
  assumes "text_at m p (header_text (n, v))" "good_header (n, v)" "area b = m" "p + length n < fill_ptr b"
    and "name_offset (cur_header e) = p" "header_array_count (headers e) < length (header_array (headers e))"
  shows "parse_NAME e b (p + 1) =
           Goto ((upd_cur_header (\<lambda>h. h\<lparr>name_len := int (length n)\<rparr>) e)
                  \<lparr>parse_step := PARSESTEP_HEADER_VALUE0\<rparr>) b (p + length n + 1)"
proof -
  obtain c n' where n: "n = c # n'" using assms(2) by (cases n) (auto simp: good_header_def)
  note parts = header_text_parts [OF assms(1)]
  have "text_at m (p + 1) (n' @ '':'')" using parts(1) n text_at_ConsD(2) by fastforce
  then have "scan (\<lambda>c. c = SP \<or> c = CHR '':'' \<or> c = LF) m (fill_ptr b) (p + 1) = p + 1 + length n'"
    using assms(2,4) n by (intro scan_to) (auto simp: good_header_def)
  then have "scan (\<lambda>c. c = SP \<or> c = CHR '':'' \<or> c = LF) m (fill_ptr b) (Suc p) = p + length n"
    using n by simp
  moreover have "scan (\<lambda>c. c = CHR '':'' \<or> c = LF) m (fill_ptr b) (p + length n) = p + length n"
    using parts(2) by (simp add: scan_here)
  moreover have "upd_cur_header (\<lambda>h. h\<lparr>name_len := int (p + length n) - int (name_offset h)\<rparr>) e
      = upd_cur_header (\<lambda>h. h\<lparr>name_len := int (length n)\<rparr>) e"
    using assms(5) by (simp add: upd_cur_header_def)
  ultimately show ?thesis using parts(2) assms(3,4) by (simp add: parse_NAME_def Let_def)
qed

lemma VALUE0_line:
  assumes "text_at m p (header_text (n, v))" "good_header (n, v)" "area b = m" "p + length n + 2 < fill_ptr b"
  shows "parse_VALUE0 e b (p + length n + 1) =
           Goto ((upd_cur_header (\<lambda>h. h\<lparr>value_offset := p + length n + 2\<rparr>) e)
                  \<lparr>parse_step := PARSESTEP_HEADER_VALUE\<rparr>) b (p + length n + 3)"
proof -
  obtain c v' where v: "v = c # v'" "c \<noteq> SP" "c \<noteq> LF"
    using assms(2) by (cases v) (auto simp: good_header_def)
  note parts = header_text_parts [OF assms(1)]
  have c: "rd m (p + length n + 2) = c" using parts(4) v text_at_ConsD(1) by fastforce
  let ?s = "\<lambda>c. c \<noteq> SP"
  have "scan ?s m (fill_ptr b) (p + length n + 1) = scan ?s m (fill_ptr b) (Suc (p + length n + 1))"
    using parts(3) assms(4) scan.simps [of ?s m "fill_ptr b" "p + length n + 1"] by simp
  also have "\<dots> = p + length n + 2" using c v scan_here [of ?s m "p + length n + 2"] by simp
  finally have "scan ?s m (fill_ptr b) (p + length n + 1) = p + length n + 2" .
  then show ?thesis using c v assms(3,4) unfolding parse_VALUE0_def Let_def by simp
qed

lemma trailing_blanks_none: "rd m k \<noteq> SP \<Longrightarrow> rd m k \<noteq> CR \<Longrightarrow> trailing_blanks m k = 0"
  by (cases k) auto

lemma trailing_blanks_line:
  assumes "text_at m q (v @ [CR, LF])" "v \<noteq> []" "last v \<noteq> SP" "last v \<noteq> CR"
  shows "trailing_blanks m (q + length v) = 1"
proof -
  obtain l where l: "length v = Suc l" using assms(2) by (cases v) auto
  have "rd m (q + length v) = CR" using text_at_ConsD(1) text_at_appendD(2) [OF assms(1)] by blast
  then have cr: "rd m (Suc (q + l)) = CR" using l by simp
  have "rd m (q + l) = last v"
    using text_at_nth [OF text_at_appendD(1) [OF assms(1)], of l] assms(2) l by (simp add: last_conv_nth)
  then have "trailing_blanks m (q + l) = 0" using assms(3,4) trailing_blanks_none by simp
  then show ?thesis using cr l by simp
qed

lemma VALUE_line:
  fixes r :: buffer_ref
  assumes "text_at m p (header_text (n, v))" "good_header (n, v)" "area b = m"
    and "p + length n + length v + 3 < fill_ptr b"
    and "value_offset (cur_header e) = p + length n + 2"
    and "header_array_count (headers e) < length (header_array (headers e))"
  defines "e1 \<equiv> upd_cur_header (\<lambda>h. h\<lparr>value_len := int (length v)\<rparr>) e"
  defines "hs \<equiv> known_header r m (cur_header e1) (headers e1)"
  assumes "\<not> (transfer_encoding__chunked hs = 1 \<and> content_length hs > 0)"
    and "\<And>n. alloc n"
  shows "parse_VALUE alloc r e b (p + length n + 3) =
           Goto (e1\<lparr>headers := grow_array (hs\<lparr>header_array_count := header_array_count hs + 1\<rparr>),
                     parse_step := PARSESTEP_HEADER_NAME0\<rparr>) b (p + length n + length v + 4)"
proof -
  let ?q = "p + length n + length v + 3"
  obtain c v' where v: "v = c # v'" using assms(2) by (cases v) (auto simp: good_header_def)
  have good: "v \<noteq> []" "last v \<noteq> SP" "last v \<noteq> CR" "LF \<notin> set v" using assms(2) by (auto simp: good_header_def)
  note t = header_text_parts(4) [OF assms(1)]
  have "text_at m (Suc (p + length n + 2)) (v' @ [CR, LF])"
    using t v text_at_ConsD(2) [of m "p + length n + 2" c "v' @ [CR, LF]"] by simp
  moreover have "Suc (p + length n + 2) = p + length n + 3" by simp
  ultimately have "text_at m (p + length n + 3) ((v' @ [CR]) @ [LF])" by (metis append.assoc append_Cons append_Nil)
  then have "scan (\<lambda>c. c = LF) m (fill_ptr b) (p + length n + 3) = p + length n + 3 + length (v' @ [CR])"
    using good v assms(4) by (intro scan_to) auto
  then have q: "scan (\<lambda>c. c = LF) m (fill_ptr b) (p + length n + 3) = ?q" using v by simp
  have tb: "trailing_blanks m (?q - 1) = 1"
    using trailing_blanks_line [OF t good(1-3)] by (simp add: add.commute add.left_commute)
  have e1: "upd_cur_header (\<lambda>h. h\<lparr>value_len := int ?q - int (value_offset h) - int (trailing_blanks m (?q - 1))\<rparr>) e = e1"
    unfolding tb using assms(5) by (simp add: e1_def upd_cur_header_def)
  have "alloc k" for k by fact
  then show ?thesis
    using q assms(3,4,9)
    unfolding parse_VALUE_def end_of_header_def Let_def assms(3) q e1 hs_def [symmetric]
    by (auto simp: grow_array_def eval_nat_numeral)
qed

text \<open>The four labels together: the line is stored and the next label is again \<open>HEADER_NAME0\<close>.\<close>

definition plain_framing :: "http_headers \<Rightarrow> bool" where
  "plain_framing hs \<longleftrightarrow> \<not> (transfer_encoding__chunked hs = 1 \<and> content_length hs > 0)"

lemma length_header_text: "length (header_text (n, v)) = length n + length v + 4"
  by (simp add: header_text_def)

lemma upd_cur_nth [simp]:
  assumes "header_array_count (headers e) < length (header_array (headers e))"
  shows "cur_header (upd_cur_header f e) = f (cur_header e)"
    "length (header_array (headers (upd_cur_header f e))) = length (header_array (headers e))"
    "cur_header (e\<lparr>parse_step := s\<rparr>) = cur_header e"
    "headers (upd_cur_header f e) = (headers e)\<lparr>header_array :=
       (header_array (headers e))[header_array_count (headers e) := f (cur_header e)]\<rparr>"
  using assms by (simp_all add: upd_cur_header_def cur_header_def)

lemma header_full [simp]:
  "(h :: http_header)\<lparr>p_buffer := a, name_offset := i, name_len := k, value_offset := j, value_len := l\<rparr>
     = \<lparr>p_buffer = a, name_offset = i, name_len = k, value_offset = j, value_len = l\<rparr>"
  by (cases h) simp

lemma parse_header_line:
  assumes "text_at (area b) p (header_text nv)" "good_header nv" "p + length (header_text nv) \<le> fill_ptr b"
    and "parse_step e = PARSESTEP_HEADER_NAME0"
    and "header_array_count (headers e) < length (header_array (headers e))"
    and "plain_framing (store_header r (area b) p nv (headers e))" "\<And>n. alloc n"
  shows "parse_loop alloc r e b p =
           parse_loop alloc r (e\<lparr>headers := store_header r (area b) p nv (headers e)\<rparr>) b
             (p + length (header_text nv))"
proof -
  obtain n v where nv: "nv = (n, v)" by fastforce
  define e1 where "e1 = (upd_cur_header (\<lambda>h. h\<lparr>p_buffer := Some r, name_offset := p\<rparr>) e)
                          \<lparr>parse_step := PARSESTEP_HEADER_NAME\<rparr>"
  define e2 where "e2 = (upd_cur_header (\<lambda>h. h\<lparr>name_len := int (length n)\<rparr>) e1)
                          \<lparr>parse_step := PARSESTEP_HEADER_VALUE0\<rparr>"
  define e3 where "e3 = (upd_cur_header (\<lambda>h. h\<lparr>value_offset := p + length n + 2\<rparr>) e2)
                          \<lparr>parse_step := PARSESTEP_HEADER_VALUE\<rparr>"
  define e4 where "e4 = upd_cur_header (\<lambda>h. h\<lparr>value_len := int (length v)\<rparr>) e3"
  note t = assms(1,2) [unfolded nv]
  have fill: "p + length n + length v + 4 \<le> fill_ptr b" using assms(3) by (simp add: nv length_header_text)
  have cnt: "header_array_count (headers e1) < length (header_array (headers e1))"
    "header_array_count (headers e2) < length (header_array (headers e2))"
    "header_array_count (headers e3) < length (header_array (headers e3))"
    using assms(5) by (simp_all add: e1_def e2_def e3_def upd_cur_header_def)
  have h4: "cur_header e4 = header_entry r p nv"
    using assms(5) cnt by (simp add: e1_def e2_def e3_def e4_def header_entry_def nv)
  have hs4: "headers e4 = (headers e)\<lparr>header_array :=
      (header_array (headers e))[header_array_count (headers e) := header_entry r p nv]\<rparr>"
    using assms(5) by (simp add: e1_def e2_def e3_def e4_def header_entry_def nv upd_cur_header_def cur_header_def)
  define hs where "hs = known_header r (area b) (cur_header e4) (headers e4)"
  have store: "store_header r (area b) p nv (headers e) = grow_array (hs\<lparr>header_array_count := header_array_count hs + 1\<rparr>)"
    by (simp add: store_header_def hs_def h4 hs4 Let_def)
  have plain: "\<not> (transfer_encoding__chunked hs = 1 \<and> content_length hs > 0)"
    using assms(6) by (auto simp: store plain_framing_def grow_array_def split: if_splits)
  have s1: "parse_switch alloc r e b p = Goto e1 b (p + 1)"
    unfolding e1_def using NAME0_line [OF t refl] fill assms(4) by (simp add: parse_switch_def)
  have s2: "parse_switch alloc r e1 b (p + 1) = Goto e2 b (p + length n + 1)"
    unfolding e2_def using NAME_line [OF t refl _ _ cnt(1)] fill assms(5) by (simp add: parse_switch_def e1_def)
  have s3: "parse_switch alloc r e2 b (p + length n + 1) = Goto e3 b (p + length n + 3)"
    unfolding e3_def using VALUE0_line [OF t refl, of e2] fill by (simp add: parse_switch_def e2_def)
  have s4: "parse_switch alloc r e3 b (p + length n + 3) =
      Goto (e4\<lparr>headers := store_header r (area b) p nv (headers e), parse_step := PARSESTEP_HEADER_NAME0\<rparr>) b
        (p + length n + length v + 4)"
    using VALUE_line [OF t refl _ _ cnt(3), of r alloc] plain fill assms(7) cnt(2)
    unfolding store hs_def e4_def by (simp add: parse_switch_def e3_def)
  have e4: "e4\<lparr>headers := hs', parse_step := PARSESTEP_HEADER_NAME0\<rparr> = e\<lparr>headers := hs'\<rparr>" for hs'
    using assms(4) by (simp add: e1_def e2_def e3_def e4_def upd_cur_header_def)
  show ?thesis
    using parse_loop_goto [OF s1] parse_loop_goto [OF s2] parse_loop_goto [OF s3] parse_loop_goto [OF s4]
    by (simp add: e4 nv length_header_text add.assoc)
qed

section \<open>A block of header lines\<close>

text \<open>Equality of a name with a literal up to the case of letters.\<close>

definition ci_eq :: "bytes \<Rightarrow> bytes \<Rightarrow> bool" where
  "ci_eq s lit \<longleftrightarrow> length s = length lit \<and> strnicmp_eq (length lit) s lit"

lemma strnicmp_eq_append: "strnicmp_eq (length n) (n @ r) t = strnicmp_eq (length n) n t"
  by (induction n arbitrary: t) (auto simp: rd_def)

lemma text_at_drop: "text_at m p s \<Longrightarrow> \<exists>r. drop p m = s @ r"
  unfolding text_at_def slice_def by (metis append_take_drop_id)

lemma header_name_is_ci:
  assumes "text_at m p n" "name_offset h = p" "name_len h = int (length n)"
  shows "header_name_is m h lit = ci_eq n lit"
proof -
  obtain r where "drop p m = n @ r" using text_at_drop [OF assms(1)] by blast
  then show ?thesis using assms(2,3) strnicmp_eq_append [of n r lit] by (auto simp: header_name_is_def ci_eq_def)
qed

lemma header_text_name: "text_at m p (header_text nv) \<Longrightarrow> text_at m p (fst nv)"
  using text_at_appendD(1) by (auto simp: header_text_def)

lemma entry_name_is:
  "text_at m p (header_text nv) \<Longrightarrow> header_name_is m (header_entry r p nv) lit = ci_eq (fst nv) lit"
  by (rule header_name_is_ci [OF header_text_name]) (simp_all add: header_entry_def)

text \<open>The parts of the headers that stay what they are while header lines are read.\<close>

definition same_start :: "http_headers \<Rightarrow> http_headers \<Rightarrow> bool" where
  "same_start hs hs' \<longleftrightarrow> METHOD hs' = METHOD hs \<and> URI hs' = URI hs \<and> VERSION hs' = VERSION hs
     \<and> STATUSCODE hs' = STATUSCODE hs \<and> REASONPHRASE hs' = REASONPHRASE hs
     \<and> method_n hs' = method_n hs \<and> version hs' = version hs"

lemma grow_array_simps [simp]:
  "header_array_count (grow_array hs) = header_array_count hs"
  "content_length (grow_array hs) = content_length hs"
  "transfer_encoding__chunked (grow_array hs) = transfer_encoding__chunked hs"
  "same_start hs (grow_array hs)"
  by (simp_all add: grow_array_def same_start_def)

definition array_room :: "http_headers \<Rightarrow> bool" where
  "array_room hs \<longleftrightarrow> length (header_array hs) = header_array_size hs
     \<and> header_array_count hs < header_array_size hs"

lemma known_header_framing:
  "\<not> header_name_is m h ''Content-Length'' \<Longrightarrow> content_length (known_header r m h hs) = content_length hs"
  "\<not> header_name_is m h ''Transfer-Encoding'' \<Longrightarrow>
     transfer_encoding__chunked (known_header r m h hs) = transfer_encoding__chunked hs"
  by (simp_all add: known_header_def)

lemma known_header_start: "same_start hs (known_header r m h hs)"
  by (simp add: known_header_def same_start_def)

lemma same_start_trans: "same_start a b \<Longrightarrow> same_start b c \<Longrightarrow> same_start a c"
  by (simp add: same_start_def)

lemma store_header_array:
  fixes r :: buffer_ref and m :: bytes and p :: nat and nv :: "bytes \<times> bytes"
  assumes "array_room hs"
  defines "hs' \<equiv> store_header r m p nv hs"
  shows "array_room hs'" "header_array_count hs' = header_array_count hs + 1"
    "header_array hs' ! header_array_count hs = header_entry r p nv"
    "\<And>i. i < header_array_count hs \<Longrightarrow> header_array hs' ! i = header_array hs ! i"
  using assms by (auto simp: array_room_def hs'_def store_header_def Let_def grow_array_def nth_append)

lemma store_header_framing:
  assumes "text_at m p (header_text nv)"
  shows "\<not> ci_eq (fst nv) ''Content-Length'' \<Longrightarrow> content_length (store_header r m p nv hs) = content_length hs"
    "\<not> ci_eq (fst nv) ''Transfer-Encoding'' \<Longrightarrow>
       transfer_encoding__chunked (store_header r m p nv hs) = transfer_encoding__chunked hs"
  using known_header_framing entry_name_is [OF assms] by (simp_all add: store_header_def Let_def)

lemma store_header_start: "same_start hs (store_header r m p nv hs)"
proof -
  define hs1 where "hs1 = hs\<lparr>header_array := (header_array hs)[header_array_count hs := header_entry r p nv]\<rparr>"
  have "same_start hs hs1" by (simp add: hs1_def same_start_def)
  moreover note known_header_start [of hs1 r m "header_entry r p nv"]
  ultimately show ?thesis
    by (simp add: store_header_def hs1_def [symmetric] Let_def same_start_def grow_array_def)
qed

fun store_headers :: "buffer_ref \<Rightarrow> bytes \<Rightarrow> nat \<Rightarrow> (bytes \<times> bytes) list \<Rightarrow> http_headers \<Rightarrow> http_headers" where
  "store_headers r m p [] hs = hs"
| "store_headers r m p (nv # nvs) hs =
     store_headers r m (p + length (header_text nv)) nvs (store_header r m p nv hs)"

definition headers_text :: "(bytes \<times> bytes) list \<Rightarrow> bytes" where
  "headers_text nvs = concat (map header_text nvs)"

definition unchunked :: "(bytes \<times> bytes) list \<Rightarrow> bool" where
  "unchunked nvs \<longleftrightarrow> (\<forall>nv \<in> set nvs. \<not> ci_eq (fst nv) ''Transfer-Encoding'')"

lemma parse_header_lines:
  assumes "text_at (area b) p (headers_text nvs)" "\<forall>nv \<in> set nvs. good_header nv" "unchunked nvs"
    and "p + length (headers_text nvs) \<le> fill_ptr b" "parse_step e = PARSESTEP_HEADER_NAME0"
    and "array_room (headers e)" "transfer_encoding__chunked (headers e) \<noteq> 1" "\<And>n. alloc n"
  shows "parse_loop alloc r e b p =
           parse_loop alloc r (e\<lparr>headers := store_headers r (area b) p nvs (headers e)\<rparr>) b
             (p + length (headers_text nvs))"
  using assms(1-7)
proof (induction nvs arbitrary: p e)
  case Nil
  then show ?case by (simp add: headers_text_def)
next
  case (Cons nv nvs)
  let ?hs = "store_header r (area b) p nv (headers e)"
  have t: "text_at (area b) p (header_text nv)" "text_at (area b) (p + length (header_text nv)) (headers_text nvs)"
    using Cons.prems(1) text_at_append by (simp_all add: headers_text_def)
  have te: "transfer_encoding__chunked ?hs \<noteq> 1"
    using store_header_framing(2) [OF t(1)] Cons.prems(3,7) by (simp add: unchunked_def)
  have "parse_loop alloc r e b p = parse_loop alloc r (e\<lparr>headers := ?hs\<rparr>) b (p + length (header_text nv))"
    using Cons.prems t(1) te assms(8)
    by (intro parse_header_line) (auto simp: headers_text_def array_room_def plain_framing_def)
  also have "\<dots> = parse_loop alloc r (e\<lparr>headers := ?hs,
        headers := store_headers r (area b) (p + length (header_text nv)) nvs ?hs\<rparr>) b
        (p + length (header_text nv) + length (headers_text nvs))"
    using Cons.IH [OF t(2), of "e\<lparr>headers := ?hs\<rparr>"] Cons.prems te store_header_array(1)
    by (simp add: headers_text_def unchunked_def)
  finally show ?case by (simp add: headers_text_def add.assoc)
qed

text \<open>What the header array holds afterwards.\<close>

lemma store_headers_array:
  fixes r :: buffer_ref and m :: bytes and p :: nat and nvs :: "(bytes \<times> bytes) list"
  assumes "array_room hs"
  defines "hs' \<equiv> store_headers r m p nvs hs"
  shows "array_room hs' \<and> header_array_count hs' = header_array_count hs + length nvs
    \<and> (\<forall>i < header_array_count hs. header_array hs' ! i = header_array hs ! i)
    \<and> (\<forall>i < length nvs. header_array hs' ! (header_array_count hs + i)
          = header_entry r (p + length (headers_text (take i nvs))) (nvs ! i))
    \<and> same_start hs hs'"
  using assms(1) unfolding hs'_def
proof (induction nvs arbitrary: p hs)
  case Nil
  then show ?case by (simp add: same_start_def)
next
  case (Cons nv nvs)
  let ?hs = "store_header r m p nv hs" and ?p = "p + length (header_text nv)"
  note one = store_header_array [OF Cons.prems, where r = r and m = m and p = p and nv = nv]
  note rest = Cons.IH [OF one(1), of ?p]
  have entry: "header_array (store_headers r m ?p nvs ?hs) ! (header_array_count hs + i)
      = header_entry r (p + length (headers_text (take i (nv # nvs)))) ((nv # nvs) ! i)"
    if "i < length (nv # nvs)" for i
    using that rest one(2,3) by (cases i) (auto simp: headers_text_def add.assoc)
  show ?case
    using rest one(1,2,4) entry store_header_start [of hs r m p nv] same_start_trans by auto
qed

lemma store_headers_content_length:
  assumes "text_at m p (headers_text nvs)" "\<forall>nv \<in> set nvs. \<not> ci_eq (fst nv) ''Content-Length''"
  shows "content_length (store_headers r m p nvs hs) = content_length hs"
  using assms
proof (induction nvs arbitrary: p hs)
  case (Cons nv nvs)
  have t: "text_at m p (header_text nv)" "text_at m (p + length (header_text nv)) (headers_text nvs)"
    using Cons.prems(1) text_at_append by (simp_all add: headers_text_def)
  then show ?case using Cons.IH [OF t(2)] store_header_framing(1) [OF t(1)] Cons.prems(2) by simp
qed simp

section \<open>Decimal numbers\<close>

lemma char_int_digit: "(d :: nat) < 10 \<Longrightarrow> char_int (char_of (48 + d)) = 48 + int d"
  by (simp add: char_int_def Let_def)

lemma is_digit_of: "(d :: nat) < 10 \<Longrightarrow> is_digit (char_of (48 + d))"
  by (simp add: is_digit_def char_int_digit)

declare decimal.simps [simp del]

lemma decimal_digits: "\<forall>c \<in> set (decimal n). is_digit c"
proof (induction n rule: decimal.induct)
  case (1 n)
  show ?case
    using 1 is_digit_of [of n] is_digit_of [of "n mod 10"] by (auto simp: decimal.simps [of n])
qed

lemma decimal_not_Nil [simp]: "decimal n \<noteq> []"
  by (simp add: decimal.simps [of n])

lemma decimal_value: "foldl (\<lambda>v c. v * 10 + (char_int c - 48)) 0 (decimal n) = int n"
proof (induction n rule: decimal.induct)
  case (1 n)
  show ?case
  proof (cases "n < 10")
    case True
    then show ?thesis by (simp add: decimal.simps [of n] char_int_digit)
  next
    case False
    then have "decimal n = decimal (n div 10) @ [char_of (48 + n mod 10)]" by (simp add: decimal.simps [of n])
    moreover have "int (n div 10) * 10 + int (n mod 10) = int n"
      by (metis div_mult_mod_eq of_nat_add of_nat_mult of_nat_numeral)
    ultimately show ?thesis using 1 False char_int_digit [of "n mod 10"] by simp
  qed
qed

lemma digits_value_decimal: "\<not> is_digit c \<Longrightarrow> digits_value (decimal n @ c # r) = int n"
  using decimal_digits decimal_value by (simp add: digits_value_def takeWhile_append2)

lemma digit_plain: "is_digit c \<Longrightarrow> \<not> is_space c \<and> c \<noteq> CHR ''-'' \<and> c \<noteq> CHR ''+''
    \<and> c \<noteq> CR \<and> c \<noteq> LF \<and> c \<noteq> SP"
  by (auto simp: is_digit_def is_space_def char_int_def)

lemma signed_digits_decimal:
  assumes "\<not> is_digit c"
  shows "signed_digits (decimal n @ c # r) = int n"
proof -
  obtain d ds where d: "decimal n = d # ds" using decimal_not_Nil by (cases "decimal n") auto
  then have "is_digit d" using decimal_digits [of n] by simp
  then have "\<not> is_space d" "d \<noteq> CHR ''-''" "d \<noteq> CHR ''+''" using digit_plain by blast+
  then have "signed_digits (decimal n @ c # r) = digits_value (decimal n @ c # r)"
    using d by (simp add: signed_digits_def)
  then show ?thesis using digits_value_decimal [OF assms] by simp
qed

lemma not_digit_CR: "\<not> is_digit CR"
  by (simp add: is_digit_def char_int_def)

lemma content_length_value:
  assumes "n < 2 ^ 31" "text_at m p (decimal n @ [CR, LF])"
  shows "int_of_long (strtol10 (drop p m)) = int n"
proof -
  obtain r where "drop p m = decimal n @ CR # LF # r" using text_at_drop [OF assms(2)] by auto
  then have "signed_digits (drop p m) = int n" using signed_digits_decimal [OF not_digit_CR] by simp
  then have "strtol10 (drop p m) = int n" using assms(1) by (simp add: strtol10_def)
  then show ?thesis
    using assms(1) by (simp add: int_of_long_def signed_take_bit_int_eq_self)
qed

section \<open>The start line\<close>

lemma token_start_text:
  assumes "text_at (area b) p s" "s \<noteq> []" "hd s \<noteq> SP" "hd s \<noteq> LF" "p < fill_ptr b"
  shows "token_start upd s' r e b p = Goto (e\<lparr>headers := upd (\<lambda>h. h\<lparr>p_buffer := Some r, value_offset := p\<rparr>)
           (headers e), parse_step := s'\<rparr>) b (p + 1)"
proof -
  have "rd (area b) p = hd s" using assms(1,2) text_at_ConsD(1) by (cases s) auto
  then show ?thesis using assms scan_here [of "\<lambda>c. c \<noteq> SP"] by (simp add: token_start_def Let_def)
qed

lemma text_at_tl: "text_at m p (s @ t) \<Longrightarrow> s \<noteq> [] \<Longrightarrow> text_at m (p + 1) (tl s @ t)"
  using text_at_ConsD(2) by (cases s) auto

lemma token_body_text:
  assumes "text_at (area b) p (s @ [SP])" "s \<noteq> []" "SP \<notin> set s" "LF \<notin> set s" "p + length s < fill_ptr b"
    and "value_offset (get (headers e)) = p"
  shows "token_body get upd k e b (p + 1) =
           k (e\<lparr>headers := upd (\<lambda>h. h\<lparr>value_len := int (length s)\<rparr>) (headers e)\<rparr>) b (p + length s + 1)"
proof -
  have "scan (\<lambda>c. c = SP \<or> c = LF) (area b) (fill_ptr b) (p + 1) = p + 1 + length (tl s)"
    using text_at_tl [OF assms(1,2)] assms(2-5) by (intro scan_to) (auto dest: list.set_sel(2))
  moreover have "p + 1 + length (tl s) = p + length s" using assms(2) by (cases s) auto
  ultimately have q: "scan (\<lambda>c. c = SP \<or> c = LF) (area b) (fill_ptr b) (p + 1) = p + length s" by simp
  have "rd (area b) (p + length s) = SP" using text_at_appendD(2) [OF assms(1)] text_at_char by blast
  then show ?thesis
    using assms(5,6) unfolding token_body_def Let_def q by simp
qed

lemma line_rest_text:
  assumes "text_at (area b) p (s @ [CR, LF])" "s \<noteq> []" "LF \<notin> set s" "p + length s + 1 < fill_ptr b"
    and "value_offset (get (headers e)) = p"
  shows "line_rest get upd k e b (p + 1) =
           k (e\<lparr>headers := upd (\<lambda>h. h\<lparr>value_len := int (length s)\<rparr>) (headers e)\<rparr>) b (p + length s + 2)"
proof -
  have "text_at (area b) (p + 1) ((tl s @ [CR]) @ [LF])" using text_at_tl [OF assms(1,2)] by simp
  then have "scan (\<lambda>c. c = LF) (area b) (fill_ptr b) (p + 1) = p + 1 + length (tl s @ [CR])"
    using assms(2-4) by (intro scan_to) (auto dest: list.set_sel(2))
  moreover have "p + 1 + length (tl s @ [CR]) = p + length s + 1" using assms(2) by (cases s) auto
  ultimately have q: "scan (\<lambda>c. c = LF) (area b) (fill_ptr b) (p + 1) = p + length s + 1" by simp
  have "rd (area b) (p + length s) = CR" using text_at_appendD(2) [OF assms(1)] text_at_ConsD(1) by blast
  then show ?thesis using assms(4,5) unfolding line_rest_def Let_def q by simp
qed

definition start_text :: "bytes \<Rightarrow> bytes \<Rightarrow> bytes" where
  "start_text mt u = mt @ [SP] @ u @ [SP] @ ''HTTP/1.1'' @ [CR, LF]"

definition good_uri :: "bytes \<Rightarrow> bool" where
  "good_uri u \<longleftrightarrow> u \<noteq> [] \<and> SP \<notin> set u \<and> LF \<notin> set u"

definition value_at :: "buffer_ref \<Rightarrow> nat \<Rightarrow> bytes \<Rightarrow> http_header \<Rightarrow> http_header" where
  "value_at r p s h = h\<lparr>p_buffer := Some r, value_offset := p, value_len := int (length s)\<rparr>"

text \<open>The headers after the start line \<open>mt u HTTP/1.1\<close> at \<open>p\<close>.\<close>

definition store_start :: "buffer_ref \<Rightarrow> nat \<Rightarrow> bytes \<Rightarrow> bytes \<Rightarrow> int \<Rightarrow> http_headers \<Rightarrow> http_headers" where
  "store_start r p mt u k hs = hs\<lparr>METHOD := value_at r p mt (METHOD hs), method_n := k,
     URI := value_at r (p + length mt + 1) u (URI hs),
     VERSION := value_at r (p + length mt + length u + 2) ''HTTP/1.1'' (VERSION hs),
     version := HTTP_VERSION_1_1_N\<rparr>"

lemma method_text:
  assumes "method_number mt = Some k"
  shows "mt \<noteq> []" "hd mt \<noteq> SP" "hd mt \<noteq> LF" "SP \<notin> set mt" "LF \<notin> set mt"
  using assms by (auto simp: method_number_def split: if_splits)

lemma parse_start_line:
  assumes "text_at (area b) p (start_text mt u)" "method_number mt = Some k" "good_uri u"
    and "p + length (start_text mt u) \<le> fill_ptr b"
    and "parse_step e = PARSESTEP_REQUESTSTARTLINE_METHOD0"
  shows "parse_loop alloc r e b p =
     parse_loop alloc r (e\<lparr>headers := store_start r p mt u k (headers e), parse_step := PARSESTEP_HEADER_NAME0\<rparr>)
       b (p + length (start_text mt u))"
proof -
  let ?u = "p + length mt + 1" and ?v = "p + length mt + length u + 2" and ?ver = "''HTTP/1.1''"
  let ?m = "area b"
  note m = method_text [OF assms(2)] and u = assms(3) [unfolded good_uri_def]
  have t0: "text_at ?m p ((mt @ [SP]) @ (u @ [SP]) @ ?ver @ [CR, LF])"
    using assms(1) by (simp add: start_text_def)
  have tm: "text_at ?m p (mt @ [SP])" and t1: "text_at ?m (p + length (mt @ [SP])) ((u @ [SP]) @ ?ver @ [CR, LF])"
    using text_at_appendD [OF t0] by blast+
  have tu: "text_at ?m ?u (u @ [SP])" and "text_at ?m (?u + length (u @ [SP])) (?ver @ [CR, LF])"
    using text_at_appendD [OF t1] by simp_all
  then have tv: "text_at ?m ?v (?ver @ [CR, LF])" by (simp add: add.commute add.left_commute)
  have fill: "?v + 10 \<le> fill_ptr b" using assms(4) by (simp add: start_text_def)
  define e1 where "e1 = e\<lparr>headers := (headers e)\<lparr>METHOD := (METHOD (headers e))\<lparr>p_buffer := Some r, value_offset := p\<rparr>\<rparr>,
      parse_step := PARSESTEP_REQUESTSTARTLINE_METHOD\<rparr>"
  define e2 where "e2 = e\<lparr>headers := (headers e)\<lparr>METHOD := value_at r p mt (METHOD (headers e)), method_n := k\<rparr>,
      parse_step := PARSESTEP_REQUESTSTARTLINE_URI0\<rparr>"
  define e3 where "e3 = e2\<lparr>headers := (headers e2)\<lparr>URI := (URI (headers e2))\<lparr>p_buffer := Some r, value_offset := ?u\<rparr>\<rparr>,
      parse_step := PARSESTEP_REQUESTSTARTLINE_URI\<rparr>"
  define e4 where "e4 = e2\<lparr>headers := (headers e2)\<lparr>URI := value_at r ?u u (URI (headers e2))\<rparr>,
      parse_step := PARSESTEP_REQUESTSTARTLINE_VERSION0\<rparr>"
  define e5 where "e5 = e4\<lparr>headers := (headers e4)\<lparr>VERSION := (VERSION (headers e4))\<lparr>p_buffer := Some r, value_offset := ?v\<rparr>\<rparr>,
      parse_step := PARSESTEP_REQUESTSTARTLINE_VERSION\<rparr>"
  define e6 where "e6 = e4\<lparr>headers := (headers e4)\<lparr>VERSION := value_at r ?v ?ver (VERSION (headers e4)),
      version := HTTP_VERSION_1_1_N\<rparr>, parse_step := PARSESTEP_HEADER_NAME0\<rparr>"
  have hu: "u \<noteq> []" "hd u \<noteq> SP" "hd u \<noteq> LF" using u by (cases u; auto)+
  have slice_m: "slice p (length mt) ?m = mt"
    using text_at_appendD(1) [OF tm] by (simp add: text_at_def)
  have slice_v: "slice ?v 8 ?m = ?ver"
    using text_at_appendD(1) [OF tv] by (simp add: text_at_def eval_nat_numeral)
  have s1: "parse_switch alloc r e b p = Goto e1 b (p + 1)"
    using token_start_text [OF text_at_appendD(1) [OF tm] m(1-3)] fill assms(5)
    by (simp add: parse_switch_def parse_METHOD0_def e1_def)
  have s2: "parse_switch alloc r e1 b (p + 1) = Goto e2 b ?u"
    using token_body_text [OF tm m(1,4,5), of METHOD e1] fill slice_m assms(2)
    by (simp add: parse_switch_def parse_METHOD_def e1_def e2_def value_at_def)
  have s3: "parse_switch alloc r e2 b ?u = Goto e3 b (?u + 1)"
    using token_start_text [OF text_at_appendD(1) [OF tu] hu] fill
    by (simp add: parse_switch_def parse_URI0_def e2_def e3_def)
  have s4: "parse_switch alloc r e3 b (?u + 1) = Goto e4 b ?v"
    using token_body_text [OF tu, of URI e3] fill u
    by (simp add: parse_switch_def parse_URI_def e3_def e4_def value_at_def goto_step_def e2_def
        add.commute add.left_commute)
  have s5: "parse_switch alloc r e4 b ?v = Goto e5 b (?v + 1)"
    using token_start_text [OF text_at_appendD(1) [OF tv]] fill
    by (simp add: parse_switch_def parse_REQ_VERSION0_def e4_def e5_def)
  have s6: "parse_switch alloc r e5 b (?v + 1) = Goto e6 b (?v + 10)"
    using line_rest_text [OF tv, of VERSION e5] fill slice_v
    by (simp add: parse_switch_def parse_REQ_VERSION_def e5_def e6_def value_at_def check_version_def
        goto_step_def rd_def e4_def e2_def)
  have len: "?v + 10 = p + length (start_text mt u)" by (simp add: start_text_def)
  have e6: "e6 = e\<lparr>headers := store_start r p mt u k (headers e), parse_step := PARSESTEP_HEADER_NAME0\<rparr>"
    by (simp add: e6_def e4_def e2_def store_start_def)
  show ?thesis
    using parse_loop_goto [OF s1] parse_loop_goto [OF s2] parse_loop_goto [OF s3] parse_loop_goto [OF s4]
      parse_loop_goto [OF s5] parse_loop_goto [OF s6]
    unfolding e6 len by simp
qed

section \<open>Printing and parsing a request\<close>

text \<open>The printed form of a request: the start line, one line per header, a \<open>Content-Length\<close> line if
  there is a body, the empty line, the body.\<close>

definition framing :: "bytes \<Rightarrow> (bytes \<times> bytes) list" where
  "framing body = (if body = [] then [] else [(''Content-Length'', decimal (length body))])"

definition request_head :: "bytes \<Rightarrow> bytes \<Rightarrow> (bytes \<times> bytes) list \<Rightarrow> bytes \<Rightarrow> bytes" where
  "request_head mt u nvs body = start_text mt u @ headers_text (nvs @ framing body) @ [CR, LF]"

definition request_text :: "bytes \<Rightarrow> bytes \<Rightarrow> (bytes \<times> bytes) list \<Rightarrow> bytes \<Rightarrow> bytes" where
  "request_text mt u nvs body = request_head mt u nvs body @ body"

text \<open>A request that can be printed: a known method, a URI and headers without the bytes that end
  them, no framing header among them, and a body whose length is an \<open>int\<close> (none for \<open>HEAD\<close>).\<close>

definition good_request :: "bytes \<Rightarrow> bytes \<Rightarrow> (bytes \<times> bytes) list \<Rightarrow> bytes \<Rightarrow> bool" where
  "good_request mt u nvs body \<longleftrightarrow> method_number mt \<noteq> None \<and> good_uri u
     \<and> (\<forall>nv \<in> set nvs. good_header nv \<and> \<not> ci_eq (fst nv) ''Content-Length'')
     \<and> unchunked nvs \<and> length body < 2 ^ 31 \<and> (mt = ''HEAD'' \<longrightarrow> body = [])"

text \<open>An environment that waits for a new message.\<close>

definition fresh_env :: "http_env \<Rightarrow> bool" where
  "fresh_env e \<longleftrightarrow> parse_step e = PARSESTEP_BEGIN \<and> array_room (headers e)
     \<and> header_array_count (headers e) = 0 \<and> content_length (headers e) = 0
     \<and> transfer_encoding__chunked (headers e) = 0"

lemma framing_header_good: "body \<noteq> [] \<Longrightarrow> good_header (''Content-Length'', decimal (length body))"
proof -
  have *: "c \<noteq> LF \<and> c \<noteq> SP \<and> c \<noteq> CR" if "c \<in> set (decimal n)" for c n
    using decimal_digits that digit_plain by blast
  then show ?thesis
    using * [OF hd_in_set [OF decimal_not_Nil]] * [OF last_in_set [OF decimal_not_Nil]]
    by (auto simp: good_header_def)
qed

lemma ci_eq_refl_lits [simp]:
  "ci_eq ''Content-Length'' ''Content-Length''" "\<not> ci_eq ''Content-Length'' ''Transfer-Encoding''"
  by (simp_all add: ci_eq_def)

lemma store_headers_snoc:
  "store_headers r m p (nvs @ [nv]) hs =
     store_header r m (p + length (headers_text nvs)) nv (store_headers r m p nvs hs)"
  by (induction nvs arbitrary: p hs) (simp_all add: headers_text_def add.assoc)

lemma headers_text_append: "headers_text (a @ b) = headers_text a @ headers_text b"
  by (simp add: headers_text_def)

lemma framing_length:
  assumes "text_at m p (headers_text (nvs @ framing body))" "length body < 2 ^ 31" "content_length hs = 0"
    and "\<forall>nv \<in> set nvs. \<not> ci_eq (fst nv) ''Content-Length''"
  shows "content_length (store_headers r m p (nvs @ framing body) hs) = int (length body)"
proof (cases "body = []")
  case True
  then show ?thesis using store_headers_content_length assms by (simp add: framing_def)
next
  case False
  let ?nv = "(''Content-Length'', decimal (length body))" and ?p = "p + length (headers_text nvs)"
  have t: "text_at m ?p (header_text ?nv)"
    using assms(1) text_at_appendD(2) False by (simp add: framing_def headers_text_def)
  have "text_at m (?p + 16) (decimal (length body) @ [CR, LF])"
    using header_text_parts(4) [OF t] by (simp add: eval_nat_numeral)
  then have "content_length (store_header r m ?p ?nv hs') = int (length body)" for hs'
    using content_length_value [OF assms(2)] entry_name_is [OF t]
    by (simp add: store_header_def Let_def known_header_def header_entry_def eval_nat_numeral)
  then show ?thesis using False by (simp add: framing_def store_headers_snoc)
qed

text \<open>The empty line behind the headers, and the body.\<close>

lemma parse_end_of_headers:
  assumes "text_at (area b) p [CR, LF]" "p + 2 \<le> fill_ptr b" "parse_step e = PARSESTEP_HEADER_NAME0"
    and "content_length (headers e) = int (length body)" "transfer_encoding__chunked (headers e) \<noteq> 1"
    and "method_n (headers e) = HTTP_METHOD_HEAD_N \<longrightarrow> body = []" "p + 2 + length body \<le> fill_ptr b"
  shows "\<exists>e'. parse_loop alloc r e b p = (0, e', b\<lparr>process_ptr := p + 2 + length body\<rparr>)
           \<and> headers e' = headers e \<and> parse_step e' = PARSESTEP_DONE
           \<and> (body \<noteq> [] \<longrightarrow> p_body_buffer e' = Some r \<and> body_base_offset e' = p + 2)
           \<and> reforming_flag e' = (if body \<noteq> [] \<and> p + 2 + length body < fill_ptr b then 1 else reforming_flag e)"
proof -
  have rd: "rd (area b) p = CR" "rd (area b) (p + 1) = LF"
    using text_at_ConsD [OF assms(1)] text_at_char by auto
  have sc: "scan (\<lambda>c. c \<noteq> SP) (area b) (fill_ptr b) p = p" using rd by (simp add: scan_here)
  have s1: "parse_switch alloc r e b p = go_parsing_body r e b (p + 2)"
    using sc rd assms(2,3) by (simp add: parse_switch_def parse_NAME0_def Let_def)
  show ?thesis
  proof (cases "body = []")
    case True
    then show ?thesis
      using parse_loop_return [of alloc r e b p] s1 assms(4,5) by (simp add: go_parsing_body_def)
  next
    case False
    let ?e1 = "e\<lparr>p_body_buffer := Some r, body_base_offset := p + 2, parse_step := PARSESTEP_BODY\<rparr>"
    let ?b1 = "b\<lparr>process_ptr := p + 2 + length body\<rparr>"
    have "parse_switch alloc r e b p = Goto ?e1 b (p + 2)"
      using s1 False assms(4,6) by (simp add: go_parsing_body_def)
    moreover have "parse_switch alloc r ?e1 b (p + 2)
        = Return 0 (mark_reforming (?e1\<lparr>parse_step := PARSESTEP_DONE\<rparr>) ?b1) ?b1"
      using assms(4,7) by (simp add: parse_switch_def parse_BODY_def Let_def nat_add_distrib)
    ultimately show ?thesis
      using parse_loop_goto parse_loop_return False by (simp add: mark_reforming_def)
  qed
qed

lemma store_headers_unchunked:
  assumes "text_at m p (headers_text nvs)" "unchunked nvs"
  shows "transfer_encoding__chunked (store_headers r m p nvs hs) = transfer_encoding__chunked hs"
  using assms
proof (induction nvs arbitrary: p hs)
  case (Cons nv nvs)
  have t: "text_at m p (header_text nv)" "text_at m (p + length (header_text nv)) (headers_text nvs)"
    using Cons.prems(1) text_at_append by (simp_all add: headers_text_def)
  then show ?case
    using Cons.IH [OF t(2)] store_header_framing(2) [OF t(1)] Cons.prems(2) by (simp add: unchunked_def)
qed simp

lemma parse_request_loop:
  fixes r :: buffer_ref
  assumes "text_at (area b) p (request_text mt u nvs body)" "good_request mt u nvs body"
    and "p + length (request_text mt u nvs body) \<le> fill_ptr b"
    and "parse_step e = PARSESTEP_REQUESTSTARTLINE_METHOD0" "method_number mt = Some k"
    and "array_room (headers e)" "content_length (headers e) = 0"
    and "transfer_encoding__chunked (headers e) = 0" "\<And>n. alloc n"
  defines "all \<equiv> nvs @ framing body" and "p1 \<equiv> p + length (start_text mt u)"
  defines "hs \<equiv> store_headers r (area b) p1 all (store_start r p mt u k (headers e))"
  shows "\<exists>e'. parse_loop alloc r e b p = (0, e', b\<lparr>process_ptr := p + length (request_text mt u nvs body)\<rparr>)
     \<and> headers e' = hs \<and> parse_step e' = PARSESTEP_DONE \<and> content_length hs = int (length body)
     \<and> (body \<noteq> [] \<longrightarrow> p_body_buffer e' = Some r
           \<and> body_base_offset e' = p + length (request_head mt u nvs body))
     \<and> reforming_flag e' = (if body \<noteq> [] \<and> p + length (request_text mt u nvs body) < fill_ptr b
                            then 1 else reforming_flag e)"
proof -
  let ?hs0 = "store_start r p mt u k (headers e)" and ?m = "area b"
  let ?p2 = "p1 + length (headers_text all)"
  have good: "good_uri u" "\<forall>nv \<in> set nvs. good_header nv \<and> \<not> ci_eq (fst nv) ''Content-Length''" "unchunked nvs"
    "length body < 2 ^ 31" "mt = ''HEAD'' \<longrightarrow> body = []"
    using assms(2) by (auto simp: good_request_def)
  have t0: "text_at ?m p (start_text mt u @ headers_text all @ [CR, LF] @ body)"
    using assms(1) by (simp add: request_text_def request_head_def all_def)
  have t1: "text_at ?m p1 (headers_text all @ [CR, LF] @ body)" and ts: "text_at ?m p (start_text mt u)"
    using text_at_appendD [OF t0] by (auto simp: p1_def)
  have th: "text_at ?m p1 (headers_text all)" and t2: "text_at ?m ?p2 ([CR, LF] @ body)"
    using text_at_appendD [OF t1] by auto
  have end_line: "text_at ?m ?p2 [CR, LF]" by (rule text_at_appendD(1) [OF t2])
  have len: "p + length (request_text mt u nvs body) = ?p2 + 2 + length body"
    "p + length (request_head mt u nvs body) = ?p2 + 2"
    by (simp_all add: request_text_def request_head_def p1_def all_def)
  have all: "\<forall>nv \<in> set all. good_header nv" "unchunked all"
    using good framing_header_good by (auto simp: all_def framing_def unchunked_def)
  have hs0: "array_room ?hs0" "content_length ?hs0 = 0" "transfer_encoding__chunked ?hs0 = 0" "method_n ?hs0 = k"
    using assms(6-8) by (simp_all add: store_start_def array_room_def)
  let ?e1 = "e\<lparr>headers := ?hs0, parse_step := PARSESTEP_HEADER_NAME0\<rparr>"
  let ?e2 = "?e1\<lparr>headers := hs\<rparr>"
  have cl: "content_length hs = int (length body)"
    unfolding hs_def all_def using framing_length th good hs0(2) all_def by metis
  have te: "transfer_encoding__chunked hs = 0"
    unfolding hs_def using store_headers_unchunked [OF th all(2)] hs0(3) by simp
  have "same_start ?hs0 hs" unfolding hs_def using store_headers_array [OF hs0(1)] by blast
  then have hd: "method_n hs = HTTP_METHOD_HEAD_N \<longrightarrow> body = []"
    using assms(5) good(5) hs0(4) by (auto simp: same_start_def method_number_def split: if_splits)
  have "parse_loop alloc r e b p = parse_loop alloc r ?e1 b p1"
    unfolding p1_def using parse_start_line [OF ts assms(5) good(1) _ assms(4)] assms(3) len by (simp add: p1_def)
  also have "\<dots> = parse_loop alloc r ?e2 b ?p2"
    unfolding hs_def using parse_header_lines [OF th all, of "?e1" alloc r] hs0 assms(3,9) len by simp
  finally have run: "parse_loop alloc r e b p = parse_loop alloc r ?e2 b ?p2" .
  show ?thesis
    using parse_end_of_headers [OF end_line, of ?e2 body alloc r] cl te hd assms(3) len run by auto
qed

text \<open>What a pointer and a length, as an accessor returns them, point to.\<close>

definition read_ptr :: "http_lib \<Rightarrow> http_env \<Rightarrow> msg_ptr option \<times> int \<Rightarrow> bytes option" where
  "read_ptr l e pl = map_option (\<lambda>p. deref l e p (snd pl)) (fst pl)"

lemma unprocessed_text_at:
  assumes "buffer_ok b" "unprocessed b = s @ r"
  shows "text_at (area b) (process_ptr b) s" "process_ptr b + length s \<le> fill_ptr b"
proof -
  have len: "length (unprocessed b) = fill_ptr b - process_ptr b" "process_ptr b \<le> fill_ptr b"
    using assms(1) by (auto simp: unprocessed_def buffer_ok_def)
  then show *: "process_ptr b + length s \<le> fill_ptr b" using assms(2) by simp
  have "unprocessed b = take (fill_ptr b - process_ptr b) (drop (process_ptr b) (area b))"
    by (simp add: unprocessed_def content_def drop_take)
  then have "take (length s) (drop (process_ptr b) (area b)) = take (length s) (s @ r)"
    using assms(2) * by (metis add_le_imp_le_diff add.commute min.absorb1 take_take)
  then show "text_at (area b) (process_ptr b) s" by (simp add: text_at_def slice_def)
qed

lemma unprocessed_rest:
  assumes "unprocessed b = s @ r"
  shows "unprocessed (b\<lparr>process_ptr := process_ptr b + length s\<rparr>) = r"
proof -
  have "drop (length s) (unprocessed b) = r" using assms by simp
  then show ?thesis by (simp add: unprocessed_def content_def add.commute)
qed

lemma read_value:
  assumes "text_at (area (request_buffer e)) p s"
  shows "read_ptr l e (Some (RequestBuffer, p), int (length s)) = Some s"
  using assms by (simp add: read_ptr_def deref_def text_at_def)

lemma headers_text_nth:
  assumes "text_at m p (headers_text nvs)" "i < length nvs"
  shows "text_at m (p + length (headers_text (take i nvs))) (header_text (nvs ! i))"
proof -
  have "headers_text nvs = headers_text (take i nvs) @ header_text (nvs ! i) @ headers_text (drop (Suc i) nvs)"
    using assms(2) by (metis headers_text_append id_take_nth_drop append_Cons append_Nil headers_text_def
        concat.simps(2) list.simps(9))
  then show ?thesis using assms(1) text_at_append by metis
qed

text \<open>A request as its parts: method token, URI, headers and body.  \<open>delivers l e rq\<close> says that the
  accessors of the library return exactly these parts from the parsed environment \<open>e\<close>.\<close>

type_synonym request = "bytes \<times> bytes \<times> (bytes \<times> bytes) list \<times> bytes"

definition delivers :: "http_lib \<Rightarrow> http_env \<Rightarrow> request \<Rightarrow> bool" where
  "delivers l e rq \<longleftrightarrow> (case rq of (mt, u, nvs, body) \<Rightarrow>
     Some (GetHttpHeader_METHOD e) = method_number mt
     \<and> read_ptr l e (GetHttpHeaderPtr_METHOD e) = Some mt
     \<and> read_ptr l e (GetHttpHeaderPtr_URI e) = Some u
     \<and> read_ptr l e (GetHttpHeaderPtr_VERSION e) = Some ''HTTP/1.1'' \<and> GetHttpHeader_VERSION e = 11
     \<and> CountHttpHeaders e = length (nvs @ framing body)
     \<and> (\<forall>i < length (nvs @ framing body). let h = header_array (headers e) ! i in
          Option.bind (GetHttpHeaderNamePtr (Some h)) (read_ptr l e) = Some (fst ((nvs @ framing body) ! i))
          \<and> Option.bind (GetHttpHeaderValuePtr (Some h)) (read_ptr l e) = Some (snd ((nvs @ framing body) ! i)))
     \<and> GetHttpBodyLen e = int (length body)
     \<and> (body \<noteq> [] \<longrightarrow> read_ptr l e (GetHttpBodyPtr e) = Some body))"

lemma parsed_request:
  assumes "good_request mt u nvs body" "fresh_env e" "buffer_ok (request_buffer e)"
    and "unprocessed (request_buffer e) = request_text mt u nvs body @ rest" "\<And>n. alloc n"
  shows "\<exists>e'. ParseHttpRequest alloc l e = (0, e') \<and> parse_step e' = PARSESTEP_DONE
    \<and> delivers l e' (mt, u, nvs, body) \<and> unprocessed (request_buffer e') = rest
    \<and> (\<exists>p \<le> fill_ptr (request_buffer e). request_buffer e' = (request_buffer e)\<lparr>process_ptr := p\<rparr>)
    \<and> array_room (headers e')
    \<and> reforming_flag e' = (if body \<noteq> [] \<and> rest \<noteq> [] then 1 else reforming_flag e)"
proof -
  let ?b = "request_buffer e" and ?all = "nvs @ framing body"
  let ?m = "area ?b" and ?p = "process_ptr ?b" and ?txt = "request_text mt u nvs body"
  let ?p1 = "?p + length (start_text mt u)"
  obtain k where k: "method_number mt = Some k" using assms(1) by (auto simp: good_request_def)
  note t = unprocessed_text_at [OF assms(3,4)]
  let ?e1 = "e\<lparr>parse_step := PARSESTEP_REQUESTSTARTLINE_METHOD0\<rparr>"
  let ?hs0 = "store_start RequestBuffer ?p mt u k (headers e)"
  define hs where "hs = store_headers RequestBuffer ?m ?p1 ?all ?hs0"
  have fresh: "array_room (headers e)" "content_length (headers e) = 0" "header_array_count (headers e) = 0"
    "transfer_encoding__chunked (headers e) = 0" "parse_step e = PARSESTEP_BEGIN"
    using assms(2) by (auto simp: fresh_env_def)
  obtain e2 where run: "parse_loop alloc RequestBuffer ?e1 ?b ?p = (0, e2, ?b\<lparr>process_ptr := ?p + length ?txt\<rparr>)"
    and e2: "headers e2 = hs" "parse_step e2 = PARSESTEP_DONE" "content_length hs = int (length body)"
      "body \<noteq> [] \<Longrightarrow> p_body_buffer e2 = Some RequestBuffer
         \<and> body_base_offset e2 = ?p + length (request_head mt u nvs body)"
      "reforming_flag e2 = (if body \<noteq> [] \<and> ?p + length ?txt < fill_ptr ?b then 1 else reforming_flag e)"
  proof -
    have "parse_step ?e1 = PARSESTEP_REQUESTSTARTLINE_METHOD0" "array_room (headers ?e1)"
      "content_length (headers ?e1) = 0" "transfer_encoding__chunked (headers ?e1) = 0" "headers ?e1 = headers e"
      "reforming_flag ?e1 = reforming_flag e"
      using fresh by simp_all
    then show thesis
      using that parse_request_loop [OF t(1) assms(1) t(2), where r = RequestBuffer and e = ?e1 and alloc = alloc]
        k assms(5)
      unfolding hs_def by metis
  qed
  define e' where "e' = e2\<lparr>request_buffer := ?b\<lparr>process_ptr := ?p + length ?txt\<rparr>\<rparr>"
  have parse: "ParseHttpRequest alloc l e = (0, e')"
    using run fresh(5) by (simp add: ParseHttpRequest_def ParseHttpBuffer_def set_buffer_def e'_def Let_def)
  have e': "headers e' = hs" "area (request_buffer e') = ?m" "parse_step e' = PARSESTEP_DONE"
    using e2 by (simp_all add: e'_def)
  have room: "array_room ?hs0" using fresh by (simp add: store_start_def array_room_def)
  have arr: "header_array_count hs = length ?all" "same_start ?hs0 hs"
    "\<And>i. i < length ?all \<Longrightarrow> header_array hs ! i
        = header_entry RequestBuffer (?p1 + length (headers_text (take i ?all))) (?all ! i)"
    using store_headers_array [OF room, of RequestBuffer ?m ?p1 ?all] fresh(3)
    unfolding hs_def by (auto simp: store_start_def)
  have t0: "text_at ?m ?p (start_text mt u @ headers_text ?all @ [CR, LF] @ body)"
    using t(1) by (simp add: request_text_def request_head_def)
  have th: "text_at ?m ?p1 (headers_text ?all)" and ts: "text_at ?m ?p (start_text mt u)"
    using text_at_appendD [OF t0] text_at_appendD(1) by blast+
  have tb: "text_at ?m (?p + length (request_head mt u nvs body)) body"
    using t(1) text_at_appendD(2) unfolding request_text_def by blast
  have start: "text_at ?m ?p mt" "text_at ?m (?p + length mt + 1) u"
    "text_at ?m (?p + length mt + length u + 2) ''HTTP/1.1''"
    using ts text_at_appendD [of ?m ?p mt "[SP] @ u @ [SP] @ ''HTTP/1.1'' @ [CR, LF]"]
      text_at_appendD [of ?m "?p + length mt + 1" u "[SP] @ ''HTTP/1.1'' @ [CR, LF]"]
      text_at_appendD [of ?m "?p + length mt + length u + 2" "''HTTP/1.1''" "[CR, LF]"]
      text_at_ConsD(2) [of ?m "?p + length mt" SP "u @ [SP] @ ''HTTP/1.1'' @ [CR, LF]"]
      text_at_ConsD(2) [of ?m "?p + length mt + 1 + length u" SP "''HTTP/1.1'' @ [CR, LF]"]
    by (simp_all add: start_text_def)
  have val: "read_ptr l e' (Some (RequestBuffer, q), int (length s)) = Some s" if "text_at ?m q s" for q s
    using read_value [of e' q s l] e'(2) that by simp
  have line: "let h = header_array (headers e') ! i in
        Option.bind (GetHttpHeaderNamePtr (Some h)) (read_ptr l e') = Some (fst (?all ! i))
        \<and> Option.bind (GetHttpHeaderValuePtr (Some h)) (read_ptr l e') = Some (snd (?all ! i))"
    if i: "i < length ?all" for i
  proof -
    obtain n v where nv: "?all ! i = (n, v)" by fastforce
    let ?q = "?p1 + length (headers_text (take i ?all))"
    have t: "text_at ?m ?q (header_text (n, v))" using headers_text_nth [OF th i] nv by simp
    show ?thesis
      using val [OF header_text_name [OF t]] val [OF text_at_appendD(1) [OF header_text_parts(4) [OF t]]] arr(3) [OF i] nv e'(1)
      by (simp add: GetHttpHeaderNamePtr_def GetHttpHeaderValuePtr_def value_ptr_def header_entry_def)
  qed
  have body: "read_ptr l e' (GetHttpBodyPtr e') = Some body" if "body \<noteq> []"
    using val [OF tb] e2(3,4) that e'(1) by (simp add: GetHttpBodyPtr_def e'_def)
  have start_ptrs: "Some (GetHttpHeader_METHOD e') = method_number mt" "GetHttpHeader_VERSION e' = 11"
    "read_ptr l e' (GetHttpHeaderPtr_METHOD e') = Some mt" "read_ptr l e' (GetHttpHeaderPtr_URI e') = Some u"
    "read_ptr l e' (GetHttpHeaderPtr_VERSION e') = Some ''HTTP/1.1''"
    using val [OF start(1)] val [OF start(2)] val [OF start(3)] arr(2) k e'(1)
    by (simp_all add: same_start_def store_start_def value_at_def GetHttpHeader_METHOD_def
        GetHttpHeader_VERSION_def GetHttpHeaderPtr_METHOD_def GetHttpHeaderPtr_URI_def
        GetHttpHeaderPtr_VERSION_def value_ptr_def Let_def)
  have counts: "CountHttpHeaders e' = length ?all" "GetHttpBodyLen e' = int (length body)"
    using arr(1) e2(3) e'(1) by (simp_all add: CountHttpHeaders_def GetHttpBodyLen_def)
  have rest: "unprocessed (request_buffer e') = rest"
    using unprocessed_rest [OF assms(4)] by (simp add: e'_def)
  have "length (unprocessed ?b) = fill_ptr ?b - ?p"
    using assms(3) by (simp add: unprocessed_def)
  then have "?p + length ?txt < fill_ptr ?b \<longleftrightarrow> rest \<noteq> []"
    using assms(4) t(2) by (cases rest) auto
  then have flag: "reforming_flag e' = (if body \<noteq> [] \<and> rest \<noteq> [] then 1 else reforming_flag e)"
    using e2(5) by (simp add: e'_def)
  have "array_room hs"
    unfolding hs_def using store_headers_array [OF room, of RequestBuffer ?m ?p1 ?all] by blast
  moreover have "\<exists>p \<le> fill_ptr ?b. request_buffer e' = ?b\<lparr>process_ptr := p\<rparr>"
    using t(2) by (auto simp: e'_def)
  moreover have "delivers l e' (mt, u, nvs, body)"
    using start_ptrs counts line body by (simp add: delivers_def)
  ultimately show ?thesis using parse e'(1,3) rest flag by blast
qed

end
