(* ===== verification/HttpParserChunked.thy ===== *)
theory HttpParserChunked
  imports HttpParserCorrect
begin

text \<open>
  The chunked transfer coding as \<open>ParseHttpBuffer\<close> decodes it: the chunks are moved together in place
  from \<open>chunked_body_end\<close> on, and their lengths are added up in \<open>content_length\<close>.  The size line is
  read as a decimal number, so the coding that is undone here is \<open>chunk_text\<close> with decimal sizes.
\<close>

definition chunk_text :: "bytes \<Rightarrow> bytes" where
  "chunk_text c = decimal (length c) @ [CR, LF] @ c @ [CR, LF]"

definition chunks_text :: "bytes list \<Rightarrow> bytes" where
  "chunks_text cs = concat (map chunk_text cs) @ ''0'' @ [CR, LF]"

section \<open>The size line\<close>

lemma chunk_size_scan_text:
  "text_at m p s \<Longrightarrow> LF \<notin> set s \<Longrightarrow> p + length s \<le> fill \<Longrightarrow>
     chunk_size_scan m fill e p =
       chunk_size_scan m fill (e\<lparr>chunked_length := foldl chunk_digit (chunked_length e) s,
         chunked_length_length := chunked_length_length e + int (length s)\<rparr>) (p + length s)"
proof (induction s arbitrary: p e)
  case (Cons c s)
  note t = text_at_ConsD [OF Cons.prems(1)]
  let ?e = "e\<lparr>chunked_length := chunk_digit (chunked_length e) c,
              chunked_length_length := chunked_length_length e + 1\<rparr>"
  have "chunk_size_scan m fill e p = chunk_size_scan m fill ?e (Suc p)"
    using t(1) Cons.prems(2,3) by (subst chunk_size_scan.simps) auto
  also have "\<dots> = chunk_size_scan m fill (?e\<lparr>chunked_length := foldl chunk_digit (chunked_length ?e) s,
         chunked_length_length := chunked_length_length ?e + int (length s)\<rparr>) (Suc p + length s)"
    using Cons.IH [OF t(2)] Cons.prems(2,3) by simp
  finally show ?case by (simp add: algebra_simps)
qed simp

lemma chunk_digit_digit: "is_digit c \<Longrightarrow> chunk_digit v c = v * 10 + (char_int c - 48)"
  by (simp add: chunk_digit_def is_digit_def Let_def)

lemma chunk_digit_CR [simp]: "chunk_digit v CR = v"
  by (simp add: chunk_digit_def char_int_def Let_def)

lemma foldl_chunk_digits:
  "\<forall>c \<in> set s. is_digit c \<Longrightarrow> foldl chunk_digit v s = foldl (\<lambda>v c. v * 10 + (char_int c - 48)) v s"
  by (induction s arbitrary: v) (auto simp: chunk_digit_digit)

lemma chunk_size_decimal: "foldl chunk_digit 0 (decimal n @ [CR]) = int n"
  using foldl_chunk_digits [OF decimal_digits] decimal_value by simp

lemma size_line:
  assumes "text_at m p (decimal n @ [CR, LF])" "p + length (decimal n) + 2 \<le> fill" "chunked_length e = 0"
  shows "\<exists>l. chunk_size_scan m fill e p =
     (e\<lparr>chunked_length := int n, chunked_length_length := l\<rparr>, p + length (decimal n) + 1)"
proof -
  have t: "text_at m p ((decimal n @ [CR]) @ [LF])" using assms(1) by simp
  have lf: "LF \<notin> set (decimal n @ [CR])" using decimal_digits digit_plain by fastforce
  have "rd m (p + length (decimal n) + 1) = LF"
    using text_at_char text_at_appendD(2) [OF t] by simp
  then have "chunk_size_scan m fill e' (p + length (decimal n) + 1) = (e', p + length (decimal n) + 1)" for e'
    by (subst chunk_size_scan.simps) simp
  moreover have "chunk_size_scan m fill e p = chunk_size_scan m fill
      (e\<lparr>chunked_length := int n, chunked_length_length := chunked_length_length e + int (length (decimal n @ [CR]))\<rparr>)
      (p + length (decimal n @ [CR]))"
    using chunk_size_scan_text [OF text_at_appendD(1) [OF t] lf, of fill e] assms(2,3) chunk_size_decimal [of n]
    by simp
  ultimately show ?thesis by auto
qed

section \<open>Moving a chunk\<close>

lemma drop_write_at:
  "q + length s \<le> x \<Longrightarrow> q \<le> length m \<Longrightarrow> drop x (write_at q s m) = drop x m"
  by (simp add: write_at_def min_def)

lemma slice_write_after: "q + length s \<le> x \<Longrightarrow> q \<le> length m \<Longrightarrow> slice x k (write_at q s m) = slice x k m"
  by (simp add: slice_def drop_write_at)

lemma text_at_write_after:
  "q + length s \<le> x \<Longrightarrow> q \<le> length m \<Longrightarrow> text_at (write_at q s m) x t = text_at m x t"
  by (simp add: text_at_def slice_write_after)

lemma slice_write_append:
  assumes "slice q0 (length acc) m = acc" "q0 + length acc \<le> length m"
  shows "slice q0 (length acc + length s) (write_at (q0 + length acc) s m) = acc @ s"
proof -
  have "take (length acc) (drop q0 m) = acc" using assms(1) by (simp add: slice_def)
  then have "drop q0 (take (q0 + length acc) m) = acc" by (simp add: drop_take)
  then have "drop q0 (write_at (q0 + length acc) s m) = acc @ s @ drop (q0 + length acc + length s) m"
    using assms(2) by (simp add: write_at_def)
  then show ?thesis by (simp add: slice_def)
qed

text \<open>The parser between two chunks: \<open>acc\<close> has been collected from \<open>q0\<close> on.\<close>

definition between_chunks :: "nat \<Rightarrow> bytes \<Rightarrow> http_env \<Rightarrow> http_buffer \<Rightarrow> nat \<Rightarrow> bool" where
  "between_chunks q0 acc e b p \<longleftrightarrow> parse_step e = PARSESTEP_CHUNKED_SIZE \<and> chunked_length e = 0
     \<and> chunked_body_end e = q0 + length acc \<and> slice q0 (length acc) (area b) = acc
     \<and> q0 + length acc \<le> p \<and> fill_ptr b \<le> length (area b) \<and> value_offset (TRAILER (headers e)) = 0"

lemma parse_chunk:
  assumes "between_chunks q0 acc e b p" "text_at (area b) p (chunk_text c @ rest)" "c \<noteq> []"
    and "p + length (chunk_text c) \<le> fill_ptr b"
  shows "\<exists>e' b'. parse_loop alloc r e b p = parse_loop alloc r e' b' (p + length (chunk_text c))
     \<and> between_chunks q0 (acc @ c) e' b' (p + length (chunk_text c)) \<and> fill_ptr b' = fill_ptr b
     \<and> text_at (area b') (p + length (chunk_text c)) rest
     \<and> content_length (headers e') = content_length (headers e) + int (length c)"
proof -
  let ?n = "length c" and ?m = "area b" and ?q = "q0 + length acc"
  let ?cb = "p + length (decimal ?n) + 2"
  note st = assms(1) [unfolded between_chunks_def]
  have t0: "text_at ?m p ((decimal ?n @ [CR, LF]) @ c @ [CR, LF] @ rest)"
    using assms(2) by (simp add: chunk_text_def)
  have ts: "text_at ?m p (decimal ?n @ [CR, LF])" and "text_at ?m ?cb (c @ [CR, LF] @ rest)"
    using text_at_appendD [OF t0] by simp_all
  then have tc: "text_at ?m ?cb c" and te: "text_at ?m (?cb + ?n) ([CR, LF] @ rest)"
    using text_at_appendD by blast+
  have tr: "text_at ?m (?cb + ?n + 2) rest" using text_at_appendD(2) [OF te] by simp
  have len: "p + length (chunk_text c) = ?cb + ?n + 2" by (simp add: chunk_text_def)
  have fill: "?cb + ?n + 2 \<le> fill_ptr b" using assms(4) len by simp
  obtain l where sc: "chunk_size_scan ?m (fill_ptr b) e p =
      (e\<lparr>chunked_length := int ?n, chunked_length_length := l\<rparr>, p + length (decimal ?n) + 1)"
    using size_line [OF ts _, of "fill_ptr b" e] fill st by auto
  define e1 where "e1 = e\<lparr>chunked_length := int ?n, chunked_length_length := l + 1, chunked_body := ?cb,
      parse_step := PARSESTEP_CHUNKED_DATA\<rparr>"
  have s1: "parse_switch alloc r e b p = Goto e1 b ?cb"
    using sc fill st assms(3) by (simp add: parse_switch_def parse_CHUNKED_SIZE_def e1_def)
  define m' where "m' = write_at ?q c ?m"
  define e2 where "e2 = e1\<lparr>chunked_body_end := ?q + ?n,
      headers := (headers e)\<lparr>content_length := content_length (headers e) + int ?n\<rparr>,
      parse_step := PARSESTEP_CHUNKED_SIZE, chunked_length := 0, chunked_length_length := 0\<rparr>"
  have q: "?q + ?n \<le> ?cb + ?n" "?q + length c \<le> length ?m" "?q \<le> length ?m" using st fill by auto
  have "text_at m' (?cb + ?n) ([CR, LF] @ rest)"
    unfolding m'_def using te text_at_write_after [of ?q c "?cb + ?n" ?m] q by simp
  then have rd: "rd m' (?cb + ?n) = CR" "rd m' (?cb + ?n + 1) = LF"
    using text_at_ConsD [of m' "?cb + ?n" CR "LF # rest"] text_at_ConsD(1) [of m' "Suc (?cb + ?n)" LF rest] by simp_all
  have sl: "slice ?cb ?n ?m = c" using tc by (simp add: text_at_def)
  have s2: "parse_switch alloc r e1 b ?cb = Goto e2 (b\<lparr>base := Some m'\<rparr>) (?cb + ?n + 2)"
    using fill st rd sl
    by (simp add: parse_switch_def parse_CHUNKED_DATA_def e1_def e2_def m'_def Let_def)
  have run: "parse_loop alloc r e b p = parse_loop alloc r e2 (b\<lparr>base := Some m'\<rparr>) (?cb + ?n + 2)"
    using parse_loop_goto [OF s1] parse_loop_goto [OF s2] by simp
  have lm: "length m' = length ?m" unfolding m'_def using q by simp
  have "slice q0 (length (acc @ c)) m' = acc @ c"
    unfolding m'_def using slice_write_append [of q0 acc ?m c] st q by simp
  then have "between_chunks q0 (acc @ c) e2 (b\<lparr>base := Some m'\<rparr>) (?cb + ?n + 2)"
    using st lm by (simp add: between_chunks_def e2_def e1_def)
  moreover have "text_at m' (?cb + ?n + 2) rest"
    unfolding m'_def using tr text_at_write_after [of ?q c "?cb + ?n + 2" ?m] q by simp
  moreover have "content_length (headers e2) = content_length (headers e) + int ?n" by (simp add: e2_def)
  ultimately show ?thesis unfolding len run by (intro exI conjI) (rule refl, simp_all)
qed

lemma decimal_0: "decimal 0 = ''0''"
  by code_simp

lemma parse_last_chunk:
  assumes "between_chunks q0 acc e b p" "text_at (area b) p (''0'' @ [CR, LF])" "p + 3 \<le> fill_ptr b"
  shows "\<exists>e'. parse_loop alloc r e b p = (0, e', b\<lparr>process_ptr := p + 3\<rparr>) \<and> headers e' = headers e
     \<and> parse_step e' = PARSESTEP_DONE \<and> reforming_flag e' = (if p + 3 < fill_ptr b then 1 else reforming_flag e)"
proof -
  note st = assms(1) [unfolded between_chunks_def]
  obtain l where "chunk_size_scan (area b) (fill_ptr b) e p =
      (e\<lparr>chunked_length := 0, chunked_length_length := l\<rparr>, p + 2)"
    using size_line [of "area b" p 0 "fill_ptr b" e] assms(2,3) st by (auto simp: decimal_0)
  then have "parse_switch alloc r e b p = Return 0 (mark_reforming
      (e\<lparr>chunked_length := 0, chunked_length_length := l + 1, parse_step := PARSESTEP_DONE\<rparr>)
      (b\<lparr>process_ptr := p + 3\<rparr>)) (b\<lparr>process_ptr := p + 3\<rparr>)"
    using st assms(3) by (simp add: parse_switch_def parse_CHUNKED_SIZE_def eval_nat_numeral Let_def)
  then show ?thesis using parse_loop_return by (auto simp: mark_reforming_def)
qed

theorem parse_chunks:
  assumes "between_chunks q0 acc e b p" "text_at (area b) p (chunks_text cs)" "[] \<notin> set cs"
    and "p + length (chunks_text cs) \<le> fill_ptr b"
  shows "\<exists>e' b'. parse_loop alloc r e b p = (0, e', b') \<and> parse_step e' = PARSESTEP_DONE
     \<and> content_length (headers e') = content_length (headers e) + int (length (concat cs))
     \<and> slice q0 (length (acc @ concat cs)) (area b') = acc @ concat cs
     \<and> process_ptr b' = p + length (chunks_text cs)"
  using assms
proof (induction cs arbitrary: acc e b p)
  case Nil
  then obtain e' where "parse_loop alloc r e b p = (0, e', b\<lparr>process_ptr := p + 3\<rparr>)" "headers e' = headers e"
    "parse_step e' = PARSESTEP_DONE"
    using parse_last_chunk [OF Nil.prems(1)] by (auto simp: chunks_text_def eval_nat_numeral)
  then show ?case using Nil.prems(1) by (simp add: chunks_text_def between_chunks_def)
next
  case (Cons c cs)
  have split: "chunks_text (c # cs) = chunk_text c @ chunks_text cs" by (simp add: chunks_text_def)
  obtain e1 b1 where one: "parse_loop alloc r e b p = parse_loop alloc r e1 b1 (p + length (chunk_text c))"
    "between_chunks q0 (acc @ c) e1 b1 (p + length (chunk_text c))" "fill_ptr b1 = fill_ptr b"
    "text_at (area b1) (p + length (chunk_text c)) (chunks_text cs)"
    "content_length (headers e1) = content_length (headers e) + int (length c)"
    using parse_chunk [OF Cons.prems(1), of c "chunks_text cs" alloc r] Cons.prems(2-4) unfolding split by auto
  then show ?case
    using Cons.IH [OF one(2,4)] Cons.prems(3,4) unfolding split by (auto simp: add.assoc)
qed

end
