(* ===== verification/HttpPipeline.thy ===== *)
theory HttpPipeline
  imports HttpParserCorrect HttpParserResume HttpParserChunked
begin

text \<open>
  The life of an environment over several messages: \<open>CreateHttpEnv\<close>, then \<open>ParseHttpRequest\<close> and
  \<open>ResetHttpEnv\<close> in turn.  Creation and reset establish what the parser needs (\<open>fresh_env\<close>,
  \<open>parser_ready\<close>); bytes behind a message with a body survive the reset, so requests that a client
  sends ahead are all served; bytes behind a message without a body do not.
\<close>

section \<open>Creation\<close>

lemma zero_header_ok [simp]: "header_ok n zero_header"
  by (simp add: header_ok_def zero_header_def)

lemma InitHttpBuffer_created:
  assumes "InitHttpBuffer alloc b sz = (0, b')" "sz > 0"
  shows "writable b' \<and> content b' = [] \<and> process_ptr b' = 0 \<and> fill_ptr b' = 0"
  using Init_ok [OF assms(2,1)] assms(1) by (auto simp: writable_def InitHttpBuffer_def split: if_splits)

lemma CreateHttpEnv_made:
  assumes "CreateHttpEnv node alloc l = (Some e, l')"
  shows "fresh_env e" "writable (request_buffer e)" "writable (response_buffer e)"
    "content (request_buffer e) = []" "process_ptr (request_buffer e) = 0" "content (response_buffer e) = []"
    "process_ptr (response_buffer e) = 0" "l' = ResetAllHttpStatus l" "init_timeout e = 60"
    "headers e = zero_headers\<lparr>header_array_size := 8, header_array := replicate 8 zero_header\<rparr>"
    "chunked_length e = 0" "body_base_offset e = 0"
  using assms
  by (auto simp: CreateHttpEnv_def Let_def fresh_env_def array_room_def zero_env_def zero_headers_def
      SetHttpTimeout_def ResetHttpTimeout_def dest!: InitHttpBuffer_created split: if_splits prod.splits)

section \<open>Reset\<close>

lemma reset_env_buffer_ok:
  assumes "buffer_ok b" "reset_env_buffer flag b = (b', flag')"
  shows "buffer_ok b'" "process_ptr b' = 0" "ref_flag b' = ref_flag b" "buf_size b' = buf_size b"
    "content b' = (if \<not> ref_flag b \<and> process_ptr b < fill_ptr b \<and> flag = 1 then unprocessed b else [])"
    "fill_ptr b' \<le> fill_ptr b - process_ptr b"
  using assms Reforming_content [OF assms(1)] Reset_content [OF assms(1)]
  by (auto simp: reset_env_buffer_def ResetHttpBuffer_def ReformingHttpBuffer_def Let_def split: if_splits)

lemma realloc_shrink:
  assumes "buffer_ok b" "int (fill_ptr b) < n" "ReallocHttpBuffer alloc b n = (nret, b')"
  shows "buffer_ok b'" "content b' = content b" "process_ptr b' = process_ptr b" "ref_flag b' = ref_flag b"
    "fill_ptr b' = fill_ptr b"
  using assms
  by (auto simp: ReallocHttpBuffer_def buffer_ok_def content_def realloc_size_def Let_def min_def split: if_splits)

lemma unprocessed_content: "process_ptr b = 0 \<Longrightarrow> unprocessed b = content b"
  by (simp add: unprocessed_def)

text \<open>What a reset keeps of a buffer with the unprocessed bytes \<open>s\<close>.\<close>

definition kept :: "http_env \<Rightarrow> http_buffer \<Rightarrow> bytes" where
  "kept e b = (if \<not> ref_flag b \<and> process_ptr b < fill_ptr b \<and> reforming_flag e = 1 then unprocessed b else [])"

lemma ResetHttpTimeout_simps [simp]:
  "request_buffer (ResetHttpTimeout e) = request_buffer e" "response_buffer (ResetHttpTimeout e) = response_buffer e"
  "reforming_flag (ResetHttpTimeout e) = reforming_flag e" "headers (ResetHttpTimeout e) = headers e"
  by (simp_all add: ResetHttpTimeout_def)

lemma ResetHttpEnv_request_buffer:
  fixes alloc :: allocator
  assumes "buffer_ok (request_buffer e)"
  defines "b \<equiv> request_buffer (ResetHttpEnv alloc e)"
  shows "buffer_ok b" "ref_flag b = ref_flag (request_buffer e)" "process_ptr b = 0"
    "content b = kept e (request_buffer e)"
proof -
  obtain b1 f1 where r: "reset_env_buffer (reforming_flag e) (request_buffer e) = (b1, f1)" by fastforce
  note k = reset_env_buffer_ok [OF assms(1) r]
  define b2 where "b2 = (if \<not> ref_flag b1 \<and> buf_size b1 > FASTERHTTP_REQUEST_BUFSIZE_MAX
                  \<and> int (fill_ptr b1) - int (process_ptr b1) < FASTERHTTP_REQUEST_BUFSIZE_MAX
               then snd (ReallocHttpBuffer alloc b1 FASTERHTTP_REQUEST_BUFSIZE_MAX) else b1)"
  have "b = b2" unfolding b_def b2_def using r by (simp add: ResetHttpEnv_def Let_def split: prod.splits)
  moreover have "buffer_ok b2 \<and> content b2 = content b1 \<and> process_ptr b2 = 0 \<and> ref_flag b2 = ref_flag b1"
    using realloc_shrink [OF k(1), of FASTERHTTP_REQUEST_BUFSIZE_MAX alloc] k(1,2) unfolding b2_def
    by (cases "ReallocHttpBuffer alloc b1 FASTERHTTP_REQUEST_BUFSIZE_MAX") auto
  ultimately show "buffer_ok b" "ref_flag b = ref_flag (request_buffer e)" "process_ptr b = 0"
    "content b = kept e (request_buffer e)"
    using k by (simp_all add: kept_def)
qed

lemma ResetHttpEnv_fields:
  "parse_step (ResetHttpEnv alloc e) = PARSESTEP_BEGIN" "chunked_length (ResetHttpEnv alloc e) = 0"
  "body_base_offset (ResetHttpEnv alloc e) = 0"
  "headers (ResetHttpEnv alloc e) = reset_header_fields alloc (headers e)"
  by (simp_all add: ResetHttpEnv_def Let_def split: prod.splits)

lemma reset_header_fields_room:
  "0 < header_array_size hs \<Longrightarrow> array_room (reset_header_fields alloc hs)"
  "header_array_count (reset_header_fields alloc hs) = 0"
  "content_length (reset_header_fields alloc hs) = 0"
  "transfer_encoding__chunked (reset_header_fields alloc hs) = 0"
  by (simp_all add: reset_header_fields_def array_room_def Let_def)

lemma ResetHttpEnv_fresh: "0 < header_array_size (headers e) \<Longrightarrow> fresh_env (ResetHttpEnv alloc e)"
  by (simp add: fresh_env_def ResetHttpEnv_fields reset_header_fields_room)

text \<open>The response buffer is shrunk whenever it is larger than the limit, without the comparison with
  the bytes in use that protects the request buffer.\<close>

lemma ResetHttpEnv_response_buffer:
  assumes "buffer_ok (response_buffer e)"
    and "int (fill_ptr (response_buffer e)) - int (process_ptr (response_buffer e)) < FASTERHTTP_RESPONSE_BUFSIZE_MAX"
  shows "buffer_ok (response_buffer (ResetHttpEnv alloc e))"
proof -
  obtain b1 f1 where r1: "reset_env_buffer (reforming_flag e) (request_buffer e) = (b1, f1)" by fastforce
  obtain b2 f2 where r: "reset_env_buffer f1 (response_buffer e) = (b2, f2)" by fastforce
  note k = reset_env_buffer_ok [OF assms(1) r]
  have "int (fill_ptr b2) < FASTERHTTP_RESPONSE_BUFSIZE_MAX" using k(6) assms by (auto simp: buffer_ok_def)
  then have "buffer_ok (snd (ReallocHttpBuffer alloc b2 FASTERHTTP_RESPONSE_BUFSIZE_MAX))"
    using realloc_shrink(1) [OF k(1)] by (metis prod.collapse)
  then show ?thesis using r1 r k(1) by (simp add: ResetHttpEnv_def Let_def split: prod.splits)
qed

section \<open>Requests in a row\<close>

fun serve_all :: "allocator \<Rightarrow> http_lib \<Rightarrow> http_env \<Rightarrow> request list \<Rightarrow> bool" where
  "serve_all alloc l e [] = True"
| "serve_all alloc l e (rq # rqs) =
     (let (nret, e') = ParseHttpRequest alloc l e in
      nret = 0 \<and> delivers l e' rq \<and> serve_all alloc l (ResetHttpEnv alloc e') rqs)"

definition rq_text :: "request \<Rightarrow> bytes" where
  "rq_text rq = (case rq of (mt, u, nvs, body) \<Rightarrow> request_text mt u nvs body)"

definition rq_good :: "request \<Rightarrow> bool" where
  "rq_good rq = (case rq of (mt, u, nvs, body) \<Rightarrow> good_request mt u nvs body)"

definition rq_body :: "request \<Rightarrow> bytes" where
  "rq_body rq = snd (snd (snd rq))"

lemma rq_simps [simp]:
  "rq_text (mt, u, nvs, body) = request_text mt u nvs body"
  "rq_good (mt, u, nvs, body) = good_request mt u nvs body" "rq_body (mt, u, nvs, body) = body"
  by (simp_all add: rq_text_def rq_good_def rq_body_def)

lemma unprocessed_nonempty: "unprocessed b \<noteq> [] \<Longrightarrow> process_ptr b < fill_ptr b"
  by (auto simp: unprocessed_def content_def)

lemma request_text_not_Nil: "rq_good rq \<Longrightarrow> rq_text rq \<noteq> []"
  by (auto simp: rq_text_def request_text_def request_head_def start_text_def split: prod.splits)

lemma buffer_ok_processed: "buffer_ok b \<Longrightarrow> p \<le> fill_ptr b \<Longrightarrow> buffer_ok (b\<lparr>process_ptr := p\<rparr>)"
  by (simp add: buffer_ok_def)

lemma served_in_order:
  assumes "\<forall>rq \<in> set rqs. rq_good rq" "\<forall>rq \<in> set (butlast rqs). rq_body rq \<noteq> []"
    and "fresh_env e" "writable (request_buffer e)" "unprocessed (request_buffer e) = concat (map rq_text rqs)"
    and "\<And>n. alloc n"
  shows "serve_all alloc l e rqs"
  using assms(1-5)
proof (induction rqs arbitrary: e)
  case (Cons rq rqs)
  obtain mt u nvs body where rq: "rq = (mt, u, nvs, body)" by (cases rq)
  let ?rest = "concat (map rq_text rqs)"
  obtain e' p where p: "ParseHttpRequest alloc l e = (0, e')" "delivers l e' rq" "unprocessed (request_buffer e') = ?rest"
    "p \<le> fill_ptr (request_buffer e)" "request_buffer e' = (request_buffer e)\<lparr>process_ptr := p\<rparr>"
    "array_room (headers e')" "reforming_flag e' = (if body \<noteq> [] \<and> ?rest \<noteq> [] then 1 else reforming_flag e)"
  proof -
    have g: "good_request mt u nvs body" "buffer_ok (request_buffer e)"
      "unprocessed (request_buffer e) = request_text mt u nvs body @ ?rest"
      using Cons.prems rq by (simp_all add: writable_def)
    show thesis
      using parsed_request [where alloc = alloc and l = l, OF g(1) Cons.prems(3) g(2,3) assms(6)] rq that by blast
  qed
  have ok: "buffer_ok (request_buffer e')" "\<not> ref_flag (request_buffer e')"
    using Cons.prems(4) p(4,5) buffer_ok_processed by (auto simp: writable_def)
  note r = ResetHttpEnv_request_buffer [OF ok(1), of alloc]
  have "unprocessed (request_buffer (ResetHttpEnv alloc e')) = ?rest"
  proof (cases rqs)
    case Nil
    then show ?thesis using r p(3) by (auto simp: unprocessed_content kept_def)
  next
    case (Cons a as)
    then have "body \<noteq> []" "?rest \<noteq> []"
      using Cons.prems(1,2) request_text_not_Nil rq by auto
    then show ?thesis
      using r p(3,7) ok(2) unprocessed_nonempty [of "request_buffer e'"] by (simp add: unprocessed_content kept_def)
  qed
  moreover have "fresh_env (ResetHttpEnv alloc e')" "writable (request_buffer (ResetHttpEnv alloc e'))"
    using p(6) ok r by (auto simp: ResetHttpEnv_fresh array_room_def writable_def)
  moreover have "\<forall>rq \<in> set rqs. rq_good rq" "\<forall>rq \<in> set (butlast rqs). rq_body rq \<noteq> []"
    using Cons.prems(1,2) by (auto split: if_splits)
  ultimately show ?case using Cons.IH p(1,2) by simp
qed simp

text \<open>Behind a request without a body nothing is kept.\<close>

lemma bodyless_dropped:
  assumes "good_request mt u nvs []" "fresh_env e" "buffer_ok (request_buffer e)" "reforming_flag e = 0"
    and "unprocessed (request_buffer e) = request_text mt u nvs [] @ rest" "\<And>n. alloc n"
  shows "\<exists>e'. ParseHttpRequest alloc l e = (0, e') \<and> unprocessed (request_buffer e') = rest
     \<and> unprocessed (request_buffer (ResetHttpEnv alloc e')) = []"
proof -
  obtain e' p where p: "ParseHttpRequest alloc l e = (0, e')" "unprocessed (request_buffer e') = rest"
    "p \<le> fill_ptr (request_buffer e)" "request_buffer e' = (request_buffer e)\<lparr>process_ptr := p\<rparr>"
    "reforming_flag e' = 0"
  proof -
    have "\<And>n. alloc n" by (rule assms(6))
    from parsed_request [where alloc = alloc and l = l, OF assms(1-3,5) this] show thesis using that assms(4) by fastforce
  qed
  have "buffer_ok (request_buffer e')" using p(3,4) assms(3) buffer_ok_processed by simp
  then show ?thesis
    using ResetHttpEnv_request_buffer [of e' alloc] p by (auto simp: unprocessed_content kept_def)
qed

section \<open>A concrete environment\<close>

text \<open>An environment as \<open>CreateHttpEnv\<close> makes it, with the bytes \<open>s\<close> received.\<close>

definition received_buffer :: "bytes \<Rightarrow> http_buffer" where
  "received_buffer s = \<lparr>buf_size = int (length s) + 1, base = Some (s @ [NUL]), ref_flag = False,
     fill_ptr = length s, process_ptr = 0\<rparr>"

definition received :: "bytes \<Rightarrow> http_env" where
  "received s = (the (fst (CreateHttpEnv True (\<lambda>_. True) http_lib_init)))\<lparr>request_buffer := received_buffer s\<rparr>"

lemma received_buffer_ok [simp]:
  "writable (received_buffer s)" "unprocessed (received_buffer s) = s" "buffer_ok (received_buffer s)"
  by (simp_all add: received_buffer_def writable_def buffer_ok_def unprocessed_def content_def area_def)

lemma CreateHttpEnv_succeeds: "\<exists>e l'. CreateHttpEnv True (\<lambda>_. True) l = (Some e, l') \<and> reforming_flag e = 0"
  by (simp add: CreateHttpEnv_def InitHttpBuffer_def Let_def zero_env_def SetHttpTimeout_def ResetHttpTimeout_def)

lemma received_ready [simp]:
  "fresh_env (received s)" "request_buffer (received s) = received_buffer s" "reforming_flag (received s) = 0"
proof -
  obtain e l' where c: "CreateHttpEnv True (\<lambda>_. True) http_lib_init = (Some e, l')" "reforming_flag e = 0"
    using CreateHttpEnv_succeeds by blast
  then show "fresh_env (received s)" "request_buffer (received s) = received_buffer s"
    "reforming_flag (received s) = 0"
    using CreateHttpEnv_made(1) [OF c(1)] by (simp_all add: received_def fresh_env_def)
qed

text \<open>What creation makes is ready for the parser.\<close>

lemma fresh_entries_zero: "fresh_entries b (zero_headers\<lparr>header_array_size := k, header_array := replicate k zero_header\<rparr>)"
  by (simp add: fresh_entries_def zero_headers_def zero_header_def)

lemma created_parser_ready:
  assumes "CreateHttpEnv node alloc l = (Some e, l')" "r \<noteq> StatusCodeBuffer"
  shows "parser_ready l' e r"
proof -
  note m = CreateHttpEnv_made [OF assms(1)]
  have "buffer_ok (buffer_at l' e r)" "process_ptr (buffer_at l' e r) = 0"
    using m assms(2) by (cases r; simp add: writable_def)+
  moreover have "parse_step e = PARSESTEP_BEGIN" using m(1) by (simp add: fresh_env_def)
  moreover have "headers_ok n (headers e)" for n
    unfolding m(10) headers_ok_def by (simp add: zero_headers_def)
  moreover have "pending 0 (headers e)"
    unfolding m(10) pending_def by (simp add: zero_headers_def zero_header_def)
  moreover have "fresh_entries False (headers e)" unfolding m(10) by (rule fresh_entries_zero)
  moreover have "header_array_count (headers e) < header_array_size (headers e)"
    unfolding m(10) by (simp add: zero_headers_def)
  ultimately show ?thesis
    using assms(2) m(11,12)
    by (simp add: parser_ready_def parse_inv_def core_ok_def chunk_ok_def reading_header_def Let_def)
qed

text \<open>The environment written out, so that runs on concrete bytes can be evaluated.\<close>

definition plain_env :: http_env where
  "plain_env = zero_env\<lparr>init_timeout := 60, timeout := \<lparr>tv_sec = 60, tv_usec = 0\<rparr>, p_timeout := True,
     headers := zero_headers\<lparr>header_array_size := 8, header_array := replicate 8 zero_header\<rparr>,
     response_buffer := \<lparr>buf_size = 1024, base = Some (replicate 1024 NUL), ref_flag = False, fill_ptr = 0,
                         process_ptr = 0\<rparr>\<rparr>"

lemma received_eq: "received s = plain_env\<lparr>request_buffer := received_buffer s\<rparr>"
  by (simp add: received_def plain_env_def CreateHttpEnv_def InitHttpBuffer_def Let_def zero_env_def
      zero_headers_def SetHttpTimeout_def ResetHttpTimeout_def zero_buffer_def)

definition waiting :: http_env where
  "waiting = plain_env\<lparr>parse_step := PARSESTEP_REQUESTSTARTLINE_METHOD0\<rparr>"

lemma waiting_headers: "headers waiting = zero_headers\<lparr>header_array_size := 8, header_array := replicate 8 zero_header\<rparr>"
  by (simp add: waiting_def plain_env_def)

lemma waiting_inv: "buffer_ok b \<Longrightarrow> parse_inv waiting b 0"
  unfolding parse_inv_def core_ok_def waiting_headers
  by (simp add: fresh_entries_zero headers_ok_def pending_def chunk_ok_def waiting_def plain_env_def)
     (simp add: zero_headers_def zero_header_def zero_env_def header_ok_def)

lemma waiting_begun: "name_begun waiting 0"
  by (simp add: name_begun_def waiting_headers) (simp add: waiting_def zero_headers_def)

lemma waiting_cut:
  "\<exists>e1 b1. parse_loop (\<lambda>_. True) RequestBuffer waiting ((received_buffer ''GET /x'')\<lparr>fill_ptr := 2\<rparr>) 0
      = (FASTERHTTP_INFO_NEED_MORE_HTTP_BUFFER, e1, b1) \<and> parse_step e1 = PARSESTEP_REQUESTSTARTLINE_METHOD"
  by (simp add: parse_loop.simps parse_switch_def parse_METHOD0_def parse_METHOD_def token_start_def token_body_def
      Let_def waiting_def received_buffer_def area_def scan.simps rd_def)

definition chunk_waiting :: http_env where
  "chunk_waiting = plain_env\<lparr>parse_step := PARSESTEP_CHUNKED_SIZE\<rparr>"

lemma chunk_waiting_between: "between_chunks 0 [] chunk_waiting (received_buffer s) 0"
  by (simp add: between_chunks_def chunk_waiting_def plain_env_def zero_env_def zero_headers_def zero_header_def
      received_buffer_def area_def)

text \<open>A parsed HTTP/1.1 request line, for the start line of its response.\<close>

definition versioned :: http_env where
  "versioned = plain_env\<lparr>request_buffer := received_buffer ''HTTP/1.1'',
     headers := zero_headers\<lparr>version := 11,
       VERSION := zero_header\<lparr>p_buffer := Some RequestBuffer, value_len := 8\<rparr>\<rparr>\<rparr>"

lemma versioned_version: "GetHttpHeaderPtr_VERSION versioned = (Some (RequestBuffer, 0), 8)"
  by (simp add: GetHttpHeaderPtr_VERSION_def value_ptr_def versioned_def zero_header_def)

lemma versioned_writable: "writable (response_buffer versioned)" "process_ptr (response_buffer versioned) = 0"
  by (simp_all add: versioned_def plain_env_def writable_def buffer_ok_def area_def)

lemma versioned_line:
  "cstr (deref l versioned (RequestBuffer, 0) 8) = ''HTTP/1.1''" "buf_size (response_buffer versioned) = 1024"
  "startline_text versioned 404 ''HTTP/1.1'' = ''HTTP/1.1 404 Not Found'' @ [CR, LF] @ ''Connection: keep-alive'' @ [CR, LF]"
  by (simp_all add: deref_def versioned_def plain_env_def received_buffer_def area_def slice_def cstr_def
      startline_text_def status_line_def http_status_macros_def CheckHttpKeepAlive_def zero_headers_def)

end
