(* ===== verification/HttpCompress.thy ===== *)
theory HttpCompress
  imports HttpParser
begin

text \<open>
  Compression of bodies in \<open>fasterhttp.c\<close>: \<open>strcasestrstr\<close>, \<open>CompressBuffer\<close>, \<open>CompressHttpBody\<close>,
  \<open>UncompressBuffer\<close>, \<open>UncompressHttpBody\<close>.  The library zlib is the parameter \<open>'z zlib\<close>: the results of
  its calls as functions of what the code passes to them.  Proved: what the search routine finds; the
  message that compression leaves; that an inflate which reports the end of the stream before the end
  of the body keeps the loop going until the allocation fails.
\<close>

section \<open>Searching in C strings\<close>

text \<open>\<open>strstr\<close> and \<open>strcasestr\<close> from the start of the list on; a NUL or the end of the area ends the
  string.\<close>

fun find_text :: "(char \<Rightarrow> char) \<Rightarrow> bytes \<Rightarrow> bytes \<Rightarrow> nat option" where
  "find_text f pat [] = (if pat = [] then Some 0 else None)"
| "find_text f pat (c # cs) =
     (if map f (take (length pat) (cstr (c # cs))) = map f pat then Some 0
      else if c = NUL then None else map_option Suc (find_text f pat cs))"

text \<open>A search from offset \<open>p\<close> of the area \<open>m\<close>; the result is an offset of the area.\<close>

definition strstr_from :: "bytes \<Rightarrow> nat \<Rightarrow> bytes \<Rightarrow> nat option" where
  "strstr_from m p pat = map_option (\<lambda>i. p + i) (find_text (\<lambda>c. c) pat (drop p m))"

definition strcasestr_from :: "bytes \<Rightarrow> nat \<Rightarrow> bytes \<Rightarrow> nat option" where
  "strcasestr_from m p pat = map_option (\<lambda>i. p + i) (find_text tolower pat (drop p m))"

definition toupper :: "char \<Rightarrow> char" where
  "toupper c = (let n = (of_char c :: nat) in if 97 \<le> n \<and> n \<le> 122 then char_of (n - 32) else c)"

text \<open>The loop of \<open>strcasestrstr\<close>: \<open>p\<close> is the offset of \<open>p_str\<close>, \<open>i\<close> and \<open>j\<close> those of \<open>p_find1\<close> and
  \<open>p_find2\<close> in their strings.\<close>

partial_function (option) strcasestrstr_loop ::
    "bytes \<Rightarrow> bytes \<Rightarrow> bytes \<Rightarrow> nat \<Rightarrow> nat \<Rightarrow> nat \<Rightarrow> nat option option" where
  "strcasestrstr_loop s f1 f2 p i j =
     (if rd s p = NUL then Some None
      else if i \<noteq> 0 then
        (if toupper (rd s p) = toupper (rd f1 i) then
           (if rd f1 (i + 1) = NUL then Some (Some (p + 1 - length f1))
            else strcasestrstr_loop s f1 f2 (p + 1) (i + 1) j)
         else
           (let p = p - i in
            if toupper (rd s p) = toupper (rd f2 j) then
              (if rd f2 (j + 1) = NUL then Some (Some (p + 1 - length f2))
               else strcasestrstr_loop s f1 f2 (p + 1) 0 (j + 1))
            else strcasestrstr_loop s f1 f2 (p + 1) 0 j))
      else if j \<noteq> 0 then
        (if toupper (rd s p) = toupper (rd f2 j) then
           (if rd f2 (j + 1) = NUL then Some (Some (p + 1 - length f2))
            else strcasestrstr_loop s f1 f2 (p + 1) i (j + 1))
         else strcasestrstr_loop s f1 f2 (p - (j - 1)) i 0)
      else
        (if toupper (rd s p) = toupper (rd f1 i) then
           (if rd f1 (i + 1) = NUL then Some (Some (p + 1 - length f1))
            else strcasestrstr_loop s f1 f2 (p + 1) (i + 1) j)
         else if toupper (rd s p) = toupper (rd f2 j) then
           (if rd f2 (j + 1) = NUL then Some (Some (p + 1 - length f2))
            else strcasestrstr_loop s f1 f2 (p + 1) i (j + 1))
         else strcasestrstr_loop s f1 f2 (p + 1) i j))"

definition strcasestrstr :: "bytes \<Rightarrow> bytes \<Rightarrow> bytes \<Rightarrow> nat option option" where
  "strcasestrstr s f1 f2 = strcasestrstr_loop s f1 f2 0 0 0"

section \<open>zlib\<close>

text \<open>The calls of zlib the code makes.  \<open>deflate_init w\<close> and \<open>inflate_init w\<close> are the results of
  \<open>deflateInit2\<close> and \<open>inflateInit2\<close> for the window bits \<open>w\<close>; \<open>deflate_all w s n\<close> is the result of
  \<open>deflate(Z_FINISH)\<close> with the input \<open>s\<close> and \<open>n\<close> bytes of room, with the bytes it produced;
  \<open>inflate_some z s n\<close> is the result of \<open>inflate\<close> in the state \<open>z\<close>, with the number of bytes consumed,
  the bytes produced and the next state.\<close>

record 'z zlib =
  deflate_init :: "int \<Rightarrow> int"
  deflate_bound :: "nat \<Rightarrow> nat"
  deflate_all :: "int \<Rightarrow> bytes \<Rightarrow> nat \<Rightarrow> int \<times> bytes"
  deflate_end :: "int \<Rightarrow> bytes \<Rightarrow> int"
  inflate_init :: "int \<Rightarrow> int \<times> 'z"
  inflate_some :: "'z \<Rightarrow> bytes \<Rightarrow> nat \<Rightarrow> int \<times> nat \<times> bytes \<times> 'z"
  inflate_end :: "'z \<Rightarrow> int"

abbreviation (input) Z_OK :: int where "Z_OK \<equiv> 0"
abbreviation (input) Z_STREAM_END :: int where "Z_STREAM_END \<equiv> 1"
abbreviation MAX_WBITS :: int where "MAX_WBITS \<equiv> 15"
abbreviation HTTP_COMPRESSALGORITHM_GZIP :: int where "HTTP_COMPRESSALGORITHM_GZIP \<equiv> MAX_WBITS + 16"
abbreviation HTTP_COMPRESSALGORITHM_DEFLATE :: int where "HTTP_COMPRESSALGORITHM_DEFLATE \<equiv> MAX_WBITS"

section \<open>Compression\<close>

text \<open>The three searches that locate the \<open>Content-Length\<close> line and the end of the headers: the start of
  the line, the start of the next line, the start of the empty line.\<close>

definition find_content_length :: "http_buffer \<Rightarrow> (nat \<times> nat \<times> nat) option" where
  "find_content_length b =
     (let m = area b; fill = fill_ptr b in
      case strcasestr_from m 0 ''Content-Length'' of
        None \<Rightarrow> None
      | Some cl \<Rightarrow> if cl \<ge> fill then None else
         (case strstr_from m (cl + 1) [CR, LF] of
            None \<Rightarrow> None
          | Some ce \<Rightarrow> if ce \<ge> fill then None else
             (case strstr_from m (cl + 1) [CR, LF, CR, LF] of
                None \<Rightarrow> None
              | Some he \<Rightarrow> if he \<ge> fill then None else Some (cl, ce + 2, he + 2))))"

text \<open>The rewriting of the message once the body is compressed to \<open>out\<close>.  \<open>alg m\<close> is the name of the
  algorithm, read from the area \<open>m\<close> as it is at that time (the code keeps a pointer, which may point
  into the very buffer).\<close>

definition replace_body ::
    "allocator \<Rightarrow> (bytes \<Rightarrow> bytes) \<Rightarrow> http_buffer \<Rightarrow> nat \<times> nat \<times> nat \<Rightarrow> bytes \<Rightarrow> (int \<times> http_buffer) option" where
  "replace_body alloc alg b pos out =
     (let (cl, ce, he) = pos;
          m = write_at cl (slice ce (he - ce) (area b)) (area b);
          b = b\<lparr>base := Some m, fill_ptr := cl + (he - ce)\<rparr> in
      then_ok (StrcatfHttpBuffer alloc b (''Content-Encoding: '' @ alg m @ [CR, LF]
                 @ ''Content-Length: '' @ decimal (length out) @ [CR, LF, CR, LF]))
        (\<lambda>b. MemcatHttpBuffer alloc b out))"

definition CompressBuffer ::
    "'z zlib \<Rightarrow> allocator \<Rightarrow> http_buffer \<Rightarrow> (bytes \<Rightarrow> bytes) \<Rightarrow> int \<Rightarrow> (int \<times> http_buffer) option" where
  "CompressBuffer z alloc b alg algorithm =
     (case find_content_length b of
        None \<Rightarrow> Some (0, b)
      | Some (cl, ce, he) \<Rightarrow>
        let body = he + 2; nret = deflate_init z algorithm in
        if nret \<noteq> Z_OK then Some (FASTERHTTP_ERROR_ZLIB + nret, b)
        else
          let input = slice body (fill_ptr b - body) (area b); out_len = deflate_bound z (length input) in
          if \<not> alloc (int out_len + 1) then Some (FASTERHTTP_ERROR_ALLOC, b)
          else
            let (nret, out) = deflate_all z algorithm input out_len in
            if nret \<noteq> Z_OK \<and> nret \<noteq> Z_STREAM_END then Some (FASTERHTTP_ERROR_ZLIB + nret, b)
            else
              let new_buf_size = int body + (14 + 2 + 10 + 2) + (16 + 2 + 10 + 2) + (10 + 2) + int (length out) + 1;
                  (nret, b1) = (if new_buf_size > buf_size b then ReallocHttpBuffer alloc b new_buf_size
                                else (0, b)) in
              if nret \<noteq> 0 then Some (nret, b1)
              else
                (case (if new_buf_size > buf_size b then find_content_length b1 else Some (cl, ce, he)) of
                   None \<Rightarrow> Some (0, b1)
                 | Some pos \<Rightarrow>
                   then_ok (replace_body alloc alg b1 pos out)
                     (\<lambda>b. let nret = deflate_end z algorithm input in
                           if nret \<noteq> Z_OK then Some (FASTERHTTP_ERROR_ZLIB + nret, b) else Some (0, b))))"

text \<open>The search for a supported algorithm among the tokens that start at offset \<open>p\<close> of the area \<open>m\<close>:
  its offset, its length and the window bits.\<close>

function find_algorithm :: "bytes \<Rightarrow> nat \<Rightarrow> (nat \<times> nat \<times> int) option" where
  "find_algorithm m p =
     (case TokenHttpHeaderValue (drop p m) of
        None \<Rightarrow> None
      | Some (off, len, next) \<Rightarrow>
          if len = 4 \<and> strnicmp_eq 4 (drop (p + off) m) ''gzip'' then
            Some (p + off, len, HTTP_COMPRESSALGORITHM_GZIP)
          else if len = 7 \<and> strnicmp_eq 7 (drop (p + off) m) ''deflate'' then
            Some (p + off, len, HTTP_COMPRESSALGORITHM_DEFLATE)
          else find_algorithm m (p + next))"
  by pat_completeness auto
termination
  using TokenHttpHeaderValue_bounds
  by (relation "measure (\<lambda>(m, p). length m - p)") fastforce+

declare find_algorithm.simps [simp del]

definition CompressHttpBody ::
    "'z zlib \<Rightarrow> allocator \<Rightarrow> http_lib \<Rightarrow> http_env \<Rightarrow> bytes \<Rightarrow> http_buffer \<Rightarrow> (int \<times> http_buffer) option" where
  "CompressHttpBody z alloc l e header b =
     (if parse_step e = PARSESTEP_BEGIN then
        (case strcasestrstr (area b) ''Content-Encoding'' [CR, LF, CR, LF] of
           None \<Rightarrow> None
         | Some None \<Rightarrow> Some (0, b)
         | Some (Some p) \<Rightarrow>
             if rd (area b) p \<noteq> CHR ''C'' then Some (0, b)
             else
               (case strstr_from (area b) (p + 1) '':'' of
                  None \<Rightarrow> Some (FASTERHTTP_ERROR_HTTP_HEADER_INVALID, b)
                | Some q \<Rightarrow>
                    (case find_algorithm (area b) (q + 1) of
                       None \<Rightarrow> Some (0, b)
                     | Some (a, len, w) \<Rightarrow> CompressBuffer z alloc b (slice a len) w)))
      else
        (case QueryHttpHeaderPtr l e header of
           None \<Rightarrow> Some (0, b)
         | Some ((r, p), _) \<Rightarrow>
             (case find_algorithm (area (buffer_at l e r)) p of
                None \<Rightarrow> Some (0, b)
              | Some (a, len, w) \<Rightarrow>
                  CompressBuffer z alloc b (\<lambda>_. slice a len (area (buffer_at l e r))) w)))"

section \<open>Decompression\<close>

partial_function (option) inflate_loop ::
    "'z zlib \<Rightarrow> allocator \<Rightarrow> 'z \<Rightarrow> bytes \<Rightarrow> bytes \<Rightarrow> nat \<Rightarrow> (int \<times> bytes \<times> 'z) option" where
  "inflate_loop z alloc st inp out out_len =
     (let (nret, used, more, st') = inflate_some z st inp (out_len - length out); out = out @ more in
      if nret \<noteq> Z_OK \<and> nret \<noteq> Z_STREAM_END then Some (FASTERHTTP_ERROR_ZLIB + nret, out, st')
      else if drop used inp = [] then Some (0, out, st')
      else
        let new_out_len = out_len * 2 in
        if \<not> alloc (int new_out_len + 1) then Some (FASTERHTTP_ERROR_ALLOC, out, st')
        else inflate_loop z alloc st' (drop used inp) out new_out_len)"

definition UncompressBuffer ::
    "'z zlib \<Rightarrow> allocator \<Rightarrow> http_env \<Rightarrow> http_buffer \<Rightarrow> int \<Rightarrow> (int \<times> http_env \<times> http_buffer) option" where
  "UncompressBuffer z alloc e b algorithm =
     (let in_len = nat (content_length (headers e)); out_len = in_len * 10 in
      if \<not> alloc (int out_len + 1) then Some (FASTERHTTP_ERROR_ALLOC, e, b)
      else
        let (nret, st) = inflate_init z algorithm in
        if nret \<noteq> Z_OK then Some (FASTERHTTP_ERROR_ZLIB + nret, e, b)
        else
          (case inflate_loop z alloc st (slice (body_base_offset e) in_len (area b)) [] out_len of
             None \<Rightarrow> None
           | Some (nret, out, st) \<Rightarrow>
               if nret \<noteq> 0 then Some (nret, e, b)
               else
                 let new_buf_size = int (body_base_offset e) + int (length out) + 1;
                     (nret, b) = (if new_buf_size > buf_size b then ReallocHttpBuffer alloc b new_buf_size
                                  else (0, b)) in
                 if nret \<noteq> 0 then Some (nret, e, b)
                 else
                   let b = b\<lparr>base := Some (write_at (body_base_offset e) out (area b)),
                             fill_ptr := body_base_offset e + length out\<rparr>;
                       e = e\<lparr>headers := (headers e)\<lparr>content_length := int (length out)\<rparr>\<rparr>;
                       nret = inflate_end z st in
                   if nret \<noteq> Z_OK then Some (FASTERHTTP_ERROR_ZLIB + nret, e, b) else Some (0, e, b)))"

definition UncompressHttpBody ::
    "'z zlib \<Rightarrow> allocator \<Rightarrow> http_lib \<Rightarrow> http_env \<Rightarrow> bytes \<Rightarrow> http_buffer
       \<Rightarrow> (int \<times> http_env \<times> http_buffer) option" where
  "UncompressHttpBody z alloc l e header b =
     (case QueryHttpHeaderPtr l e header of
        None \<Rightarrow> Some (0, e, b)
      | Some ((r, p), _) \<Rightarrow>
          (case find_algorithm (area (buffer_at l e r)) p of
             None \<Rightarrow> Some (0, e, b)
           | Some (_, _, w) \<Rightarrow> UncompressBuffer z alloc e b w))"

section \<open>What the search routine finds\<close>

text \<open>The reference: the first position at which one of the two strings stands, upper and lower case
  being the same.\<close>

definition starts :: "bytes \<Rightarrow> bytes \<Rightarrow> bool" where
  "starts pat s \<longleftrightarrow> map toupper (take (length pat) s) = map toupper pat"

fun first_of :: "bytes \<Rightarrow> bytes \<Rightarrow> bytes \<Rightarrow> nat option" where
  "first_of f1 f2 [] = None"
| "first_of f1 f2 (c # cs) =
     (if starts f1 (c # cs) \<or> starts f2 (c # cs) then Some 0 else map_option Suc (first_of f1 f2 cs))"

lemma starts_nth: "starts pat s \<longleftrightarrow> length pat \<le> length s \<and> (\<forall>q < length pat. toupper (s ! q) = toupper (pat ! q))"
  by (auto simp: starts_def list_eq_iff_nth_eq)

lemma first_of_None:
  "(\<And>i. i < length s \<Longrightarrow> \<not> starts f1 (drop i s) \<and> \<not> starts f2 (drop i s)) \<Longrightarrow> first_of f1 f2 s = None"
proof (induction s)
  case (Cons c cs)
  have "\<not> starts f1 (drop i cs) \<and> \<not> starts f2 (drop i cs)" if "i < length cs" for i
    using Cons.prems [of "Suc i"] that by simp
  then have "first_of f1 f2 cs = None" using Cons.IH by blast
  then show ?case using Cons.prems [of 0] by simp
qed simp

lemma rd_cstr: "p \<le> length (cstr s) \<Longrightarrow> rd s p = rd (cstr s) p"
proof (cases "p < length (cstr s)")
  case True
  then show ?thesis
    using length_takeWhile_le [of "\<lambda>c. c \<noteq> NUL" s] takeWhile_nth [of p "\<lambda>c. c \<noteq> NUL" s]
    by (simp add: rd_def cstr_def)
next
  case False
  moreover assume "p \<le> length (cstr s)"
  ultimately have p: "p = length (takeWhile (\<lambda>c. c \<noteq> NUL) s)" by (simp add: cstr_def)
  then have "p < length s \<Longrightarrow> s ! p = NUL" using nth_length_takeWhile [of "\<lambda>c. c \<noteq> NUL" s] by simp
  then show ?thesis using p by (simp add: rd_def cstr_def)
qed

lemma rd_end: "rd s (length s) = NUL" "is_cstr s \<Longrightarrow> p < length s \<Longrightarrow> rd s p \<noteq> NUL"
  by (auto simp: rd_def is_cstr_def) (metis nth_mem)

lemma is_cstr_cstr: "is_cstr (cstr s)"
  using set_takeWhileD by (fastforce simp: is_cstr_def cstr_def)

text \<open>The bytes from \<open>st\<close> on agree with the first \<open>i\<close> bytes of \<open>pat\<close>.\<close>

definition matched :: "bytes \<Rightarrow> nat \<Rightarrow> bytes \<Rightarrow> nat \<Rightarrow> bool" where
  "matched t st pat i \<longleftrightarrow> st + i \<le> length t \<and> i \<le> length pat
     \<and> (\<forall>q < i. toupper (t ! (st + q)) = toupper (pat ! q))"

lemma matched_Suc:
  "matched t st pat i \<Longrightarrow> st + i < length t \<Longrightarrow> i < length pat \<Longrightarrow>
     toupper (t ! (st + i)) = toupper (pat ! i) \<Longrightarrow> matched t st pat (Suc i)"
  by (auto simp: matched_def less_Suc_eq)

lemma matched_full: "matched t st pat (length pat) \<longleftrightarrow> st \<le> length t \<and> starts pat (drop st t)"
  by (auto simp: matched_def starts_nth)

locale two_strings =
  fixes s f1 f2 :: bytes
  assumes texts: "f1 \<noteq> []" "is_cstr f1" "f2 \<noteq> []" "is_cstr f2"
    and apart: "\<forall>c \<in> set f1. toupper c \<noteq> toupper (hd f2)" "\<forall>c \<in> set f2. toupper c \<noteq> toupper (hd f1)"
begin

definition t where "t = cstr s"

lemma byte: "p < length t \<Longrightarrow> rd s p = t ! p \<and> t ! p \<noteq> NUL" "rd s (length t) = NUL"
  using rd_cstr [of p s] rd_end(2) [OF is_cstr_cstr, of p s] rd_cstr [of "length t" s] rd_end(1) [of "cstr s"]
  unfolding t_def by (auto simp: rd_def)

lemma rd_pat: "i < length f1 \<Longrightarrow> rd f1 i = f1 ! i" "i < length f2 \<Longrightarrow> rd f2 i = f2 ! i"
  "rd f1 0 = hd f1" "rd f2 0 = hd f2"
  using texts by (auto simp: rd_def hd_conv_nth)

lemma rd_next:
  "i < length f1 \<Longrightarrow> rd f1 (Suc i) = NUL \<longleftrightarrow> Suc i = length f1"
  "i < length f2 \<Longrightarrow> rd f2 (Suc i) = NUL \<longleftrightarrow> Suc i = length f2"
  using rd_end(2) [OF texts(2), of "Suc i"] rd_end(2) [OF texts(4), of "Suc i"]
    rd_end(1) [of f1] rd_end(1) [of f2] by (auto simp: not_less_eq le_Suc_eq) (metis Suc_lessI)+

text \<open>A run that compares \<open>f1\<close> from \<open>st\<close> on: it ends with a hit, at the end of the string, or goes on
  one byte further.\<close>

lemma run1:
  assumes "0 < i" "i < length f1" "matched t st f1 i"
  shows "strcasestrstr_loop s f1 f2 (st + i) i 0 =
    (if starts f1 (drop st t) then Some (Some st)
     else if matched t st f1 (length t - st) then Some None
     else strcasestrstr_loop s f1 f2 (st + 1) 0 0)"
  using assms
proof (induction "length f1 - i" arbitrary: i rule: less_induct)
  case less
  have bounds: "st + i \<le> length t" using less.prems by (simp add: matched_def)
  show ?case
  proof (cases "st + i = length t")
    case True
    have "\<not> length f1 \<le> length (drop st t)" using True less.prems(2) by simp
    then have "\<not> starts f1 (drop st t)" by (simp add: starts_nth)
    moreover have "matched t st f1 (length t - st)" using less.prems(3) True by (metis diff_add_inverse)
    ultimately show ?thesis using byte(2) True by (subst strcasestrstr_loop.simps) simp
  next
    case False
    then have lt: "st + i < length t" using bounds by simp
    show ?thesis
    proof (cases "toupper (t ! (st + i)) = toupper (f1 ! i)")
      case True
      have m: "matched t st f1 (Suc i)" using matched_Suc [OF less.prems(3) lt less.prems(2) True] .
      have step: "strcasestrstr_loop s f1 f2 (st + i) i 0 = (if Suc i = length f1 then Some (Some st)
          else strcasestrstr_loop s f1 f2 (st + Suc i) (Suc i) 0)"
        using byte(1) [OF lt] rd_pat(1) [OF less.prems(2)] True rd_next(1) [OF less.prems(2)] less.prems(1)
        by (subst strcasestrstr_loop.simps) auto
      show ?thesis
      proof (cases "Suc i = length f1")
        case True
        then show ?thesis using step m matched_full [of t st f1] by simp
      next
        case False
        then have "Suc i < length f1" using less.prems(2) by simp
        then show ?thesis using step False less.hyps [of "Suc i"] m less.prems(2) by simp
      qed
    next
      case False
      have st: "st < length t" "toupper (t ! st) = toupper (f1 ! 0)"
        using lt less.prems(1,3) by (auto simp: matched_def)
      have "toupper (t ! st) \<noteq> toupper (hd f2)" using st(2) apart(1) texts(1) by simp
      then have "strcasestrstr_loop s f1 f2 (st + i) i 0 = strcasestrstr_loop s f1 f2 (st + 1) 0 0"
        using byte(1) [OF lt] byte(1) [OF st(1)] rd_pat False less.prems(1,2)
        by (subst strcasestrstr_loop.simps) (simp add: Let_def)
      moreover have "\<not> starts f1 (drop st t)" using False less.prems(2) lt by (auto simp: starts_nth)
      moreover have "i < length t - st" using lt by simp
      then have "\<not> matched t st f1 (length t - st)" using False by (auto simp: matched_def)
      ultimately show ?thesis by simp
    qed
  qed
qed

lemma run2:
  assumes "0 < j" "j < length f2" "matched t st f2 j"
  shows "strcasestrstr_loop s f1 f2 (st + j) 0 j =
    (if starts f2 (drop st t) then Some (Some st)
     else if matched t st f2 (length t - st) then Some None
     else strcasestrstr_loop s f1 f2 (st + 1) 0 0)"
  using assms
proof (induction "length f2 - j" arbitrary: j rule: less_induct)
  case less
  have bounds: "st + j \<le> length t" using less.prems by (simp add: matched_def)
  show ?case
  proof (cases "st + j = length t")
    case True
    have "\<not> length f2 \<le> length (drop st t)" using True less.prems(2) by simp
    then have "\<not> starts f2 (drop st t)" by (simp add: starts_nth)
    moreover have "matched t st f2 (length t - st)" using less.prems(3) True by (metis diff_add_inverse)
    ultimately show ?thesis using byte(2) True by (subst strcasestrstr_loop.simps) simp
  next
    case False
    then have lt: "st + j < length t" using bounds by simp
    show ?thesis
    proof (cases "toupper (t ! (st + j)) = toupper (f2 ! j)")
      case True
      have m: "matched t st f2 (Suc j)" using matched_Suc [OF less.prems(3) lt less.prems(2) True] .
      have step: "strcasestrstr_loop s f1 f2 (st + j) 0 j = (if Suc j = length f2 then Some (Some st)
          else strcasestrstr_loop s f1 f2 (st + Suc j) 0 (Suc j))"
        using byte(1) [OF lt] rd_pat(2) [OF less.prems(2)] True rd_next(2) [OF less.prems(2)] less.prems(1)
        by (subst strcasestrstr_loop.simps) auto
      show ?thesis
      proof (cases "Suc j = length f2")
        case True
        then show ?thesis using step m matched_full [of t st f2] by simp
      next
        case False
        then have "Suc j < length f2" using less.prems(2) by simp
        then show ?thesis using step False less.hyps [of "Suc j"] m less.prems(2) by simp
      qed
    next
      case False
      have "st + j - (j - 1) = st + 1" using less.prems(1) by simp
      then have "strcasestrstr_loop s f1 f2 (st + j) 0 j = strcasestrstr_loop s f1 f2 (st + 1) 0 0"
        using byte(1) [OF lt] rd_pat(2) False less.prems(1,2)
        by (subst strcasestrstr_loop.simps) simp
      moreover have "\<not> starts f2 (drop st t)" using False less.prems(2) lt by (auto simp: starts_nth)
      moreover have "j < length t - st" using lt by simp
      then have "\<not> matched t st f2 (length t - st)" using False by (auto simp: matched_def)
      ultimately show ?thesis by simp
    qed
  qed
qed

text \<open>A rest of the string that agrees with the start of one of the two contains neither.\<close>

lemma rest_None:
  assumes "matched t st f (length t - st)" "\<not> starts f (drop st t)" "st < length t"
    and "f = f1 \<and> g = f2 \<or> f = f2 \<and> g = f1"
  shows "first_of f1 f2 (drop st t) = None"
proof (rule first_of_None)
  fix i assume i: "i < length (drop st t)"
  have len: "length t - st < length f"
  proof (rule ccontr)
    assume "\<not> length t - st < length f"
    then have "length t - st = length f" using assms(1) by (simp add: matched_def)
    then show False using assms(1,2) matched_full by metis
  qed
  have "\<not> starts f (drop i (drop st t))" using len i by (auto simp: starts_nth)
  moreover have "\<not> starts g (drop i (drop st t))"
  proof
    assume "starts g (drop i (drop st t))"
    then have "toupper (t ! (st + i)) = toupper (hd g)"
      using texts assms(4) i by (auto simp: starts_nth hd_conv_nth add.commute)
    moreover have "toupper (t ! (st + i)) = toupper (f ! i)" "f ! i \<in> set f"
      using assms(1) i len by (auto simp: matched_def)
    ultimately show False using apart assms(4) by metis
  qed
  ultimately show "\<not> starts f1 (drop i (drop st t)) \<and> \<not> starts f2 (drop i (drop st t))" using assms(4) by blast
qed

lemma first_of_step:
  assumes "st < length t"
  shows "first_of f1 f2 (drop st t) = (if starts f1 (drop st t) \<or> starts f2 (drop st t) then Some 0
           else map_option Suc (first_of f1 f2 (drop (Suc st) t)))"
  using Cons_nth_drop_Suc [OF assms, symmetric] by simp

lemma starts_single: "length f = 1 \<Longrightarrow> st < length t \<Longrightarrow> starts f (drop st t) \<longleftrightarrow> toupper (t ! st) = toupper (f ! 0)"
  by (auto simp: starts_nth)

lemma starts_head:
  assumes "f \<noteq> []" "starts f (drop st t)"
  shows "toupper (t ! st) = toupper (hd f) \<and> st < length t"
proof -
  have l: "0 < length f" "length f \<le> length t - st" using assms by (auto simp: starts_nth)
  then have "toupper (drop st t ! 0) = toupper (f ! 0)"
    using assms(2) [unfolded starts_nth, THEN conjunct2, rule_format, of 0] by simp
  moreover have "st < length t" using l by linarith
  ultimately show ?thesis using l assms(1) by (simp add: hd_conv_nth)
qed

lemma search:
  "st \<le> length t \<Longrightarrow>
     strcasestrstr_loop s f1 f2 st 0 0 = Some (map_option (\<lambda>i. st + i) (first_of f1 f2 (drop st t)))"
proof (induction "length t - st" arbitrary: st rule: less_induct)
  case less
  show ?case
  proof (cases "st = length t")
    case True
    then show ?thesis using byte(2) by (subst strcasestrstr_loop.simps) simp
  next
    case False
    then have lt: "st < length t" using less.prems by simp
    note b = byte(1) [OF lt] and ih = less.hyps [of "Suc st"] and fs = first_of_step [OF lt]
    have next_st: "strcasestrstr_loop s f1 f2 (st + 1) 0 0 =
        Some (map_option (\<lambda>i. st + i) (map_option Suc (first_of f1 f2 (drop (Suc st) t))))"
    proof -
      have "(+) (Suc st) = (\<lambda>i. st + Suc i)" by auto
      then show ?thesis using ih lt by (simp add: option.map_comp comp_def)
    qed
    have one: "matched t st f 1" if "toupper (t ! st) = toupper (hd f)" "f \<noteq> []" for f
      using that lt by (auto simp: matched_def hd_conv_nth Suc_le_eq)
    consider (first) "toupper (t ! st) = toupper (hd f1)"
      | (second) "toupper (t ! st) \<noteq> toupper (hd f1)" "toupper (t ! st) = toupper (hd f2)"
      | (neither) "toupper (t ! st) \<noteq> toupper (hd f1)" "toupper (t ! st) \<noteq> toupper (hd f2)" by blast
    then show ?thesis
    proof cases
      case first
      have n2: "\<not> starts f2 (drop st t)" using starts_head [OF texts(3), of st] first apart(1) texts(1) by auto
      have step: "strcasestrstr_loop s f1 f2 st 0 0 = (if length f1 = 1 then Some (Some st)
          else strcasestrstr_loop s f1 f2 (st + 1) 1 0)"
        using b rd_pat(3) first rd_next(1) [of 0] texts(1) by (subst strcasestrstr_loop.simps) auto
      show ?thesis
      proof (cases "length f1 = 1")
        case True
        then have "starts f1 (drop st t)" using starts_single [OF True lt] first texts(1) by (simp add: hd_conv_nth)
        then show ?thesis using step True fs by simp
      next
        case False
        then have "1 < length f1" using texts(1) by (cases f1) auto
        then have r: "strcasestrstr_loop s f1 f2 (st + 1) 1 0 = (if starts f1 (drop st t) then Some (Some st)
            else if matched t st f1 (length t - st) then Some None
            else strcasestrstr_loop s f1 f2 (st + 1) 0 0)"
          using run1 [of 1 st] one [OF first texts(1)] by simp
        show ?thesis
          using step False r next_st fs n2 rest_None [of st f1 f2] lt by (cases "starts f1 (drop st t)") auto
      qed
    next
      case second
      have n1: "\<not> starts f1 (drop st t)" using starts_head [OF texts(1), of st] second by auto
      have step: "strcasestrstr_loop s f1 f2 st 0 0 = (if length f2 = 1 then Some (Some st)
          else strcasestrstr_loop s f1 f2 (st + 1) 0 1)"
        using b rd_pat(3,4) second rd_next(2) [of 0] texts(3) by (subst strcasestrstr_loop.simps) auto
      show ?thesis
      proof (cases "length f2 = 1")
        case True
        then have "starts f2 (drop st t)" using starts_single [OF True lt] second texts(3) by (simp add: hd_conv_nth)
        then show ?thesis using step True fs by simp
      next
        case False
        then have "1 < length f2" using texts(3) by (cases f2) auto
        then have r: "strcasestrstr_loop s f1 f2 (st + 1) 0 1 = (if starts f2 (drop st t) then Some (Some st)
            else if matched t st f2 (length t - st) then Some None
            else strcasestrstr_loop s f1 f2 (st + 1) 0 0)"
          using run2 [of 1 st] one [OF second(2) texts(3)] by simp
        show ?thesis
          using step False r next_st fs n1 rest_None [of st f2 f1] lt by (cases "starts f2 (drop st t)") auto
      qed
    next
      case neither
      have "\<not> starts f1 (drop st t)" "\<not> starts f2 (drop st t)"
        using starts_head [OF texts(1), of st] starts_head [OF texts(3), of st] neither by auto
      moreover have "strcasestrstr_loop s f1 f2 st 0 0 = strcasestrstr_loop s f1 f2 (st + 1) 0 0"
        using b rd_pat(3,4) neither by (subst strcasestrstr_loop.simps) simp
      ultimately show ?thesis using next_st fs by simp
    qed
  qed
qed

lemma found: "strcasestrstr s f1 f2 = Some (first_of f1 f2 (cstr s))"
  using search [of 0] by (simp add: strcasestrstr_def t_def option.map_ident)

end

text \<open>The two strings of the only caller.\<close>

interpretation encoding_search: two_strings s "''Content-Encoding''" "[CR, LF, CR, LF]" for s
  by unfold_locales (simp_all add: is_cstr_def toupper_def char_of_eq_iff)

section \<open>What compression makes of a message\<close>

lemma find_text_prefix:
  assumes "find_text f (pat @ ext) s = Some i" "pat \<noteq> []" "\<forall>c \<in> set pat. f c \<noteq> f NUL"
  shows "\<exists>j \<le> i. find_text f pat s = Some j"
  using assms(1)
proof (induction s arbitrary: i)
  case Nil
  then show ?case using assms(2) by (simp split: if_splits)
next
  case (Cons c cs)
  show ?case
  proof (cases "map f (take (length (pat @ ext)) (cstr (c # cs))) = map f (pat @ ext)")
    case True
    then have "take (length pat) (map f (take (length (pat @ ext)) (cstr (c # cs)))) = map f pat" by simp
    then show ?thesis using Cons.prems by (simp add: take_map)
  next
    case False
    then obtain k where "find_text f (pat @ ext) cs = Some k" "i = Suc k" "c \<noteq> NUL"
      using Cons.prems by (auto split: if_splits)
    then show ?thesis using Cons.IH [of k] by auto
  qed
qed

lemma find_content_length_order:
  assumes "find_content_length b = Some (cl, ce, he)"
  shows "cl < ce" "ce \<le> he" "cl < fill_ptr b" "he < fill_ptr b + 2"
proof -
  obtain c h where f: "find_text (\<lambda>c. c) [CR, LF] (drop (cl + 1) (area b)) = Some c" "ce = cl + 1 + c + 2"
    "find_text (\<lambda>c. c) ([CR, LF] @ [CR, LF]) (drop (cl + 1) (area b)) = Some h" "he = cl + 1 + h + 2"
    "cl < fill_ptr b" "cl + 1 + h < fill_ptr b"
    using assms by (auto simp: find_content_length_def strstr_from_def Let_def split: option.splits if_splits)
  moreover have "c \<le> h" using find_text_prefix [OF f(3)] f(1) by auto
  ultimately show "cl < ce" "ce \<le> he" "cl < fill_ptr b" "he < fill_ptr b + 2" by auto
qed

lemma find_content_length_grown:
  assumes "grown b b'" "buffer_ok b"
    and "find_content_length b = Some (cl, ce, he)" "find_content_length b' = Some (cl', ce', he')"
  shows "cl' < fill_ptr b'"
  using find_content_length_order [OF assms(4)] by simp

text \<open>The message with its \<open>Content-Length\<close> line removed and the two new lines and the new body behind
  the remaining headers.\<close>

definition compressed_message :: "bytes \<Rightarrow> bytes \<Rightarrow> nat \<times> nat \<times> nat \<Rightarrow> bytes \<Rightarrow> bytes" where
  "compressed_message text alg pos out = (let (cl, ce, he) = pos in
     take cl text @ slice ce (he - ce) text @ ''Content-Encoding: '' @ alg @ [CR, LF]
       @ ''Content-Length: '' @ decimal (length out) @ [CR, LF, CR, LF] @ out)"

lemma replace_body_result:
  assumes "writable b" "process_ptr b = 0" "cl < ce" "ce \<le> he" "he \<le> fill_ptr b"
  shows "wrote (compressed_message (content b) (alg m) (cl, ce, he) out)
     (replace_body alloc (\<lambda>_. alg m) b (cl, ce, he) out)"
proof -
  let ?s = "slice ce (he - ce) (area b)"
  define b1 where "b1 = b\<lparr>base := Some (write_at cl ?s (area b)), fill_ptr := cl + (he - ce)\<rparr>"
  have fill: "fill_ptr b < length (area b)" using assms(1) by (auto simp: writable_def buffer_ok_def)
  have len: "length ?s = he - ce" using assms(4,5) fill by simp
  have "cl + (he - ce) \<le> he" using assms(3,4) by simp
  then have fit: "cl + length ?s \<le> length (area b)" using len assms(5) fill by simp
  have w: "writable b1" "process_ptr b1 = 0"
    using assms fill len fit unfolding b1_def by (auto simp: writable_def buffer_ok_def)
  have c: "content b1 = take cl (content b) @ slice ce (he - ce) (content b)"
    using take_write_at_end [of cl "area b" ?s] fit len assms(3-5) fill
    by (simp add: b1_def content_def slice_take min_def)
  let ?line = "''Content-Encoding: '' @ alg m @ [CR, LF] @ ''Content-Length: '' @ decimal (length out) @ [CR, LF, CR, LF]"
  have eq: "compressed_message (content b) (alg m) (cl, ce, he) out = (content b1 @ ?line) @ out"
    by (simp add: compressed_message_def c)
  show ?thesis
    unfolding replace_body_def Let_def prod.case b1_def [symmetric] eq
    by (rule wrote_then [OF wrote_Strcatf [OF w]]) (metis Memcat_eq_Strcat wrote_Strcat)
qed

text \<open>The case in which the area is large enough for the compressed message.\<close>

lemma CompressBuffer_in_place:
  assumes "writable b" "process_ptr b = 0" "find_content_length b = Some (cl, ce, he)" "he + 2 \<le> fill_ptr b"
    and "deflate_init z w = Z_OK" "\<And>n. alloc n"
    and "input = slice (he + 2) (fill_ptr b - (he + 2)) (area b)"
    and "deflate_all z w input (deflate_bound z (length input)) = (Z_STREAM_END, out)"
    and "deflate_end z w input = Z_OK" "int he + 73 + int (length out) \<le> buf_size b"
  shows "wrote (compressed_message (content b) name (cl, ce, he) out) (CompressBuffer z alloc b (\<lambda>_. name) w)"
proof -
  let ?m = "compressed_message (content b) name (cl, ce, he) out"
  have r: "wrote ?m (replace_body alloc (\<lambda>_. name) b (cl, ce, he) out)"
    using replace_body_result [OF assms(1,2) find_content_length_order(1,2) [OF assms(3)], of "\<lambda>_. name" _ out alloc]
      assms(4) by simp
  have "CompressBuffer z alloc b (\<lambda>_. name) w =
      then_ok (replace_body alloc (\<lambda>_. name) b (cl, ce, he) out) (\<lambda>b. Some (0, b))"
    using assms(3,5,6,8,9,10) unfolding CompressBuffer_def assms(7) by (simp add: Let_def)
  moreover have "wrote ?m (then_ok (replace_body alloc (\<lambda>_. name) b (cl, ce, he) out) (\<lambda>b. Some (0, b)))"
    by (rule wrote_then [OF r]) (simp add: wrote_def)
  ultimately show ?thesis by simp
qed

section \<open>What decompression does\<close>

text \<open>Bytes behind the end of the compressed stream: zlib reports the end of the stream again and
  consumes nothing, so the loop only doubles its output area.\<close>

lemma inflate_loop_trailing:
  assumes "inflate_loop z alloc st inp out n = Some r"
  shows "(\<forall>room. inflate_some z st inp room = (Z_STREAM_END, 0, [], st)) \<longrightarrow> inp \<noteq> [] \<longrightarrow>
     fst r = FASTERHTTP_ERROR_ALLOC \<and> (\<exists>k. \<not> alloc k)"
  by (rule inflate_loop.raw_induct [OF _ assms]) (auto simp: Let_def split: if_splits)

text \<open>\<open>UncompressBuffer\<close> sets \<open>fill_ptr\<close> to the end of the decompressed body and leaves \<open>process_ptr\<close> where
  the compressed body ended.\<close>

lemma UncompressBuffer_result:
  assumes "writable b" "0 < content_length (headers e)" "\<And>n. alloc n" "inflate_init z w = (Z_OK, st)"
    and "inflate_loop z alloc st (slice (body_base_offset e) (nat (content_length (headers e))) (area b)) []
           (nat (content_length (headers e)) * 10) = Some (0, out, st')"
    and "inflate_end z st' = Z_OK" "body_base_offset e \<le> fill_ptr b"
  shows "\<exists>b'. UncompressBuffer z alloc e b w
        = Some (0, e\<lparr>headers := (headers e)\<lparr>content_length := int (length out)\<rparr>\<rparr>, b')
     \<and> content b' = take (body_base_offset e) (content b) @ out \<and> process_ptr b' = process_ptr b"
proof -
  let ?off = "body_base_offset e"
  define b1 where "b1 = (if int ?off + int (length out) + 1 > buf_size b
     then snd (ReallocHttpBuffer alloc b (int ?off + int (length out) + 1)) else b)"
  have ok: "buffer_ok b" "\<not> ref_flag b" using assms(1) by (auto simp: writable_def)
  have re: "ReallocHttpBuffer alloc b n = (0, snd (ReallocHttpBuffer alloc b n))" for n
    using assms(3) ok(2) by (simp add: ReallocHttpBuffer_def Let_def)
  have g: "grown b b1" "int ?off + int (length out) < buf_size b1"
  proof -
    show "grown b b1"
      using realloc_grown [OF ok(1) re, of "int ?off + int (length out) + 1"] ok(1) unfolding b1_def by auto
    show "int ?off + int (length out) < buf_size b1"
      using assms(3) ok(2) unfolding b1_def by (auto simp: ReallocHttpBuffer_def realloc_size_def Let_def)
  qed
  let ?b' = "b1\<lparr>base := Some (write_at ?off out (area b1)), fill_ptr := ?off + length out\<rparr>"
  have fit: "?off + length out \<le> length (area b1)" using g by (auto simp: grown_def buffer_ok_def)
  have "take ?off (area b1) = take ?off (content b)"
  proof -
    have "content b1 = content b" "fill_ptr b1 = fill_ptr b" using g(1) by (simp_all add: grown_def)
    then have "take ?off (take (fill_ptr b) (area b1)) = take ?off (content b)" by (simp add: content_def)
    then show ?thesis using assms(7) by (simp add: min_def)
  qed
  then have c: "content ?b' = take ?off (content b) @ out"
    using fit take_write_at_end [of ?off "area b1" out] by (simp add: content_def)
  have "UncompressBuffer z alloc e b w
      = Some (0, e\<lparr>headers := (headers e)\<lparr>content_length := int (length out)\<rparr>\<rparr>, ?b')"
  proof -
    have "(if int ?off + int (length out) + 1 > buf_size b
        then ReallocHttpBuffer alloc b (int ?off + int (length out) + 1) else (0, b)) = (0, b1)"
      unfolding b1_def using re [of "int ?off + int (length out) + 1"] by simp
    then show ?thesis using assms(3-6) unfolding UncompressBuffer_def Let_def by simp
  qed
  moreover have "process_ptr ?b' = process_ptr b" using g(1) by (simp add: grown_def)
  ultimately show ?thesis using c by blast
qed

end
