(* ===== verification/HttpTransport.thy ===== *)
theory HttpTransport
  imports HttpCompress HttpPipeline
begin

text \<open>
  Sending and receiving messages in \<open>fasterhttp.c\<close>.  The operating system (or OpenSSL, whose
  \<open>SSL_read\<close> and \<open>SSL_write\<close> are used in the same way) is the parameter \<open>'w os\<close>: its calls as functions
  of a world \<open>'w\<close>.  Contents: one call of \<open>send\<close> and \<open>recv\<close> with the bookkeeping around it, the blocking
  and the non-blocking drivers for requests and responses, the server loop \<open>ResponseAllHttp\<close>; what
  arrives on the wire; what reception does to the buffer and to bytes sent ahead; a request on which
  reception never ends.
\<close>

section \<open>The operating system\<close>

datatype recv_result = Received bytes | Recv_failed int  \<comment> \<open>the value of \<open>errno\<close>\<close>
datatype send_result = Sent nat | Send_failed int

record 'w os =
  os_time :: "'w \<Rightarrow> timeval \<times> 'w"
  os_select :: "timeval option \<Rightarrow> 'w \<Rightarrow> int \<times> 'w"
  os_recv :: "nat \<Rightarrow> 'w \<Rightarrow> recv_result \<times> 'w"
  os_send :: "bytes \<Rightarrow> 'w \<Rightarrow> send_result \<times> 'w"

abbreviation (input) EAGAIN :: int where "EAGAIN \<equiv> 11"
abbreviation (input) ECONNRESET :: int where "ECONNRESET \<equiv> 104"

text \<open>\<open>gettimeofday\<close>, called only when the environment has a time-out.\<close>

definition clock :: "'w os \<Rightarrow> http_env \<Rightarrow> 'w \<Rightarrow> timeval \<times> 'w" where
  "clock os e w = (if init_timeout e \<ge> 0 then os_time os w else (\<lparr>tv_sec = 0, tv_usec = 0\<rparr>, w))"

definition spend_time :: "http_env \<Rightarrow> timeval \<Rightarrow> timeval \<Rightarrow> http_env" where
  "spend_time e t1 t2 = (if init_timeout e \<ge> 0 then e\<lparr>timeout := AjustTimeval (timeout e) t1 t2\<rparr> else e)"

definition wait_ready :: "'w os \<Rightarrow> bool \<Rightarrow> http_env \<Rightarrow> 'w \<Rightarrow> int \<times> 'w" where
  "wait_ready os wait e w =
     (if wait then os_select os (if p_timeout e then Some (timeout e) else None) w else (1, w))"

section \<open>One call\<close>

text \<open>\<open>SendHttpBuffer\<close> offers everything between \<open>process_ptr\<close> and \<open>fill_ptr\<close>, \<open>SendHttpBuffer1\<close> ten bytes;
  \<open>offer\<close> is that number.\<close>

definition send_some ::
    "(http_buffer \<Rightarrow> nat) \<Rightarrow> 'w os \<Rightarrow> bool \<Rightarrow> http_env \<Rightarrow> http_buffer \<Rightarrow> 'w \<Rightarrow> int \<times> http_env \<times> http_buffer \<times> 'w" where
  "send_some offer os wait e b w =
     (if process_ptr b \<ge> fill_ptr b then (0, e, b, w)
      else
        let (t1, w) = clock os e w; (ready, w) = wait_ready os wait e w in
        if ready = 0 then (FASTERHTTP_ERROR_TCP_SELECT_SEND_TIMEOUT, e, b, w)
        else if ready \<noteq> 1 then (FASTERHTTP_ERROR_TCP_SELECT_SEND, e, b, w)
        else
          (case os_send os (slice (process_ptr b) (offer b) (area b)) w of
             (Send_failed err, w) \<Rightarrow>
               ((if err = EAGAIN then FASTERHTTP_INFO_TCP_SEND_WOULDBLOCK else FASTERHTTP_ERROR_TCP_SEND), e, b, w)
           | (Sent len, w) \<Rightarrow>
               let (t2, w) = clock os e w; e = spend_time e t1 t2;
                   b = b\<lparr>process_ptr := process_ptr b + len\<rparr> in
               ((if process_ptr b \<ge> fill_ptr b then 0 else FASTERHTTP_INFO_TCP_SEND_WOULDBLOCK), e, b, w)))"

definition SendHttpBuffer ::
    "'w os \<Rightarrow> bool \<Rightarrow> http_env \<Rightarrow> http_buffer \<Rightarrow> 'w \<Rightarrow> int \<times> http_env \<times> http_buffer \<times> 'w" where
  "SendHttpBuffer = send_some (\<lambda>b. fill_ptr b - process_ptr b)"

definition SendHttpBuffer1 ::
    "'w os \<Rightarrow> bool \<Rightarrow> http_env \<Rightarrow> http_buffer \<Rightarrow> 'w \<Rightarrow> int \<times> http_env \<times> http_buffer \<times> 'w" where
  "SendHttpBuffer1 = send_some (\<lambda>_. 10)"

text \<open>Reception into the room behind \<open>fill_ptr\<close>, which is made if there is none: all of it
  (\<open>ReceiveHttpBuffer\<close>) or one byte (\<open>ReceiveHttpBuffer1\<close>).  Nothing is received while the buffer starts
  with unprocessed bytes.\<close>

definition receive_some ::
    "(http_buffer \<Rightarrow> nat) \<Rightarrow> 'w os \<Rightarrow> bool \<Rightarrow> allocator \<Rightarrow> http_env \<Rightarrow> http_buffer \<Rightarrow> 'w
       \<Rightarrow> (int \<times> http_env \<times> http_buffer \<times> 'w) option" where
  "receive_some room os wait alloc e b w =
     (if process_ptr b = 0 \<and> process_ptr b < fill_ptr b then Some (0, e, b, w)
      else
        (case grow_to alloc (int (fill_ptr b) + 1) b of
           None \<Rightarrow> None
         | Some (nret, b) \<Rightarrow>
           if nret \<noteq> 0 then Some (nret, e, b, w)
           else
             let (t1, w) = clock os e w; (ready, w) = wait_ready os wait e w in
             if ready = 0 then Some (FASTERHTTP_ERROR_TCP_SELECT_RECEIVE_TIMEOUT, e, b, w)
             else if ready \<noteq> 1 then Some (FASTERHTTP_ERROR_TCP_SELECT_RECEIVE, e, b, w)
             else
               (case os_recv os (room b) w of
                  (Recv_failed err, w) \<Rightarrow>
                    Some ((if err = EAGAIN then FASTERHTTP_INFO_NEED_MORE_HTTP_BUFFER
                           else if err = ECONNRESET then FASTERHTTP_ERROR_TCP_CLOSE
                           else FASTERHTTP_ERROR_TCP_RECEIVE), e, b, w)
                | (Received bs, w) \<Rightarrow>
                    if bs = [] then Some (FASTERHTTP_ERROR_TCP_CLOSE, e, b, w)
                    else
                      let (t2, w) = clock os e w; e = spend_time e t1 t2 in
                      Some (0, e, b\<lparr>base := Some (write_at (fill_ptr b) bs (area b)),
                                    fill_ptr := fill_ptr b + length bs\<rparr>, w))))"

definition ReceiveHttpBuffer ::
    "'w os \<Rightarrow> bool \<Rightarrow> allocator \<Rightarrow> http_env \<Rightarrow> http_buffer \<Rightarrow> 'w \<Rightarrow> (int \<times> http_env \<times> http_buffer \<times> 'w) option" where
  "ReceiveHttpBuffer = receive_some (\<lambda>b. nat (buf_size b - 1 - int (fill_ptr b)))"

definition ReceiveHttpBuffer1 ::
    "'w os \<Rightarrow> bool \<Rightarrow> allocator \<Rightarrow> http_env \<Rightarrow> http_buffer \<Rightarrow> 'w \<Rightarrow> (int \<times> http_env \<times> http_buffer \<times> 'w) option" where
  "ReceiveHttpBuffer1 = receive_some (\<lambda>_. 1)"

section \<open>Sending a message\<close>

text \<open>The call-backs of the application, by the number that stands for the function pointer.\<close>

type_synonym hook = "nat \<Rightarrow> http_env \<Rightarrow> buffer_ref \<Rightarrow> int \<times> http_env"

text \<open>What precedes the transmission: compression if it is enabled, then the call-back.  The non-blocking
  drivers mark both as done (\<open>mark\<close>), for they are called again until everything is sent.\<close>

definition prepare_send ::
    "'z zlib \<Rightarrow> allocator \<Rightarrow> http_lib \<Rightarrow> hook \<Rightarrow> bytes \<Rightarrow> buffer_ref \<Rightarrow> bool \<Rightarrow> http_env \<Rightarrow> (int \<times> http_env) option" where
  "prepare_send z alloc l hook header r mark e =
     then_ok
       (if enable_response_compressing e = 1 then
          (case CompressHttpBody z alloc l e header (buffer_at l e r) of
             None \<Rightarrow> None
           | Some (nret, b) \<Rightarrow>
               let e = set_buffer r b e in
               Some (nret, if nret = 0 \<and> mark then e\<lparr>enable_response_compressing := 2\<rparr> else e))
        else Some (0, e))
       (\<lambda>e. case pfuncProcessBeforeSendProc e of
               None \<Rightarrow> Some (0, e)
             | Some f \<Rightarrow>
                 if send_proc_flag e \<noteq> 0 then Some (0, e)
                 else let (nret, e) = hook f e r in
                      Some (nret, if nret = 0 \<and> mark then e\<lparr>send_proc_flag := 1\<rparr> else e))"

type_synonym 'w sender = "'w os \<Rightarrow> bool \<Rightarrow> http_env \<Rightarrow> http_buffer \<Rightarrow> 'w \<Rightarrow> int \<times> http_env \<times> http_buffer \<times> 'w"

text \<open>One pass through the body of the sending loop: the message buffer first, then the appended
  buffer.  \<open>None\<close> means that the loop goes on.\<close>

definition send_append :: "'w sender \<Rightarrow> 'w os \<Rightarrow> bool \<Rightarrow> http_env \<Rightarrow> 'w \<Rightarrow> int option \<times> http_env \<times> 'w" where
  "send_append send os wait e w =
     (case p_append_buffer e of
        None \<Rightarrow> (Some 0, e, w)
      | Some b \<Rightarrow>
          let (nret, e, b, w) = send os wait e b w; e = e\<lparr>p_append_buffer := Some b\<rparr> in
          (if nret = FASTERHTTP_INFO_TCP_SEND_WOULDBLOCK then None else Some nret, e, w))"

definition send_pass ::
    "'w sender \<Rightarrow> 'w os \<Rightarrow> bool \<Rightarrow> http_lib \<Rightarrow> buffer_ref \<Rightarrow> http_env \<Rightarrow> 'w \<Rightarrow> int option \<times> http_env \<times> 'w" where
  "send_pass send os wait l r e w =
     (let b = buffer_at l e r in
      if process_ptr b < fill_ptr b then
        let (nret, e, b, w) = send os wait e b w; e = set_buffer r b e in
        if nret = 0 then send_append send os wait e w
        else (if nret = FASTERHTTP_INFO_TCP_SEND_WOULDBLOCK then None else Some nret, e, w)
      else
        (case p_append_buffer e of
           None \<Rightarrow> (Some 0, e, w)
         | Some a \<Rightarrow> if process_ptr a < fill_ptr a then send_append send os wait e w else (Some 0, e, w)))"

partial_function (option) send_loop ::
    "'w os \<Rightarrow> http_lib \<Rightarrow> buffer_ref \<Rightarrow> http_env \<Rightarrow> 'w \<Rightarrow> (int \<times> http_env \<times> 'w) option" where
  "send_loop os l r e w =
     (case send_pass SendHttpBuffer os True l r e w of
        (Some nret, e, w) \<Rightarrow> Some (nret, e, w)
      | (None, e, w) \<Rightarrow> send_loop os l r e w)"

definition mark_HEAD :: "http_env \<Rightarrow> http_env" where
  "mark_HEAD e = (if base (request_buffer e) \<noteq> None \<and> take 4 (area (request_buffer e)) = ''HEAD''
                  then e\<lparr>headers := (headers e)\<lparr>method_n := HTTP_METHOD_HEAD_N\<rparr>\<rparr> else e)"

definition SendHttpRequest ::
    "'w os \<Rightarrow> 'z zlib \<Rightarrow> allocator \<Rightarrow> http_lib \<Rightarrow> hook \<Rightarrow> http_env \<Rightarrow> 'w \<Rightarrow> (int \<times> http_env \<times> 'w) option" where
  "SendHttpRequest os z alloc l hook e w =
     (case prepare_send z alloc l hook ''Content-Encoding'' RequestBuffer False (mark_HEAD e) of
        None \<Rightarrow> None
      | Some (nret, e) \<Rightarrow> if nret \<noteq> 0 then Some (nret, e, w) else send_loop os l RequestBuffer e w)"

definition SendHttpResponse ::
    "'w os \<Rightarrow> 'z zlib \<Rightarrow> allocator \<Rightarrow> http_lib \<Rightarrow> hook \<Rightarrow> http_env \<Rightarrow> 'w \<Rightarrow> (int \<times> http_env \<times> 'w) option" where
  "SendHttpResponse os z alloc l hook e w =
     (case prepare_send z alloc l hook ''Accept-Encoding'' ResponseBuffer False e of
        None \<Rightarrow> None
      | Some (nret, e) \<Rightarrow> if nret \<noteq> 0 then Some (nret, e, w) else send_loop os l ResponseBuffer e w)"

text \<open>The end of the non-blocking drivers: compression is re-enabled once everything is sent.\<close>

definition send_once ::
    "'w sender \<Rightarrow> 'w os \<Rightarrow> http_lib \<Rightarrow> buffer_ref \<Rightarrow> http_env \<Rightarrow> 'w \<Rightarrow> int \<times> http_env \<times> 'w" where
  "send_once send os l r e w =
     (case send_pass send os False l r e w of
        (None, e, w) \<Rightarrow> (FASTERHTTP_INFO_TCP_SEND_WOULDBLOCK, e, w)
      | (Some nret, e, w) \<Rightarrow>
          (nret, if nret = 0 \<and> enable_response_compressing e = 2
                 then e\<lparr>enable_response_compressing := 1\<rparr> else e, w))"

definition SendHttpRequestNonblock ::
    "'w os \<Rightarrow> 'z zlib \<Rightarrow> allocator \<Rightarrow> http_lib \<Rightarrow> hook \<Rightarrow> http_env \<Rightarrow> 'w \<Rightarrow> (int \<times> http_env \<times> 'w) option" where
  "SendHttpRequestNonblock os z alloc l hook e w =
     (case prepare_send z alloc l hook ''Content-Encoding'' RequestBuffer True e of
        None \<Rightarrow> None
      | Some (nret, e) \<Rightarrow>
          if nret \<noteq> 0 then Some (nret, e, w)
          else Some (send_once SendHttpBuffer os l RequestBuffer (mark_HEAD e) w))"

definition SendHttpResponseNonblock ::
    "'w os \<Rightarrow> 'z zlib \<Rightarrow> allocator \<Rightarrow> http_lib \<Rightarrow> hook \<Rightarrow> http_env \<Rightarrow> 'w \<Rightarrow> (int \<times> http_env \<times> 'w) option" where
  "SendHttpResponseNonblock os z alloc l hook e w =
     (case prepare_send z alloc l hook ''Accept-Encoding'' ResponseBuffer True e of
        None \<Rightarrow> None
      | Some (nret, e) \<Rightarrow>
          if nret \<noteq> 0 then Some (nret, e, w) else Some (send_once SendHttpBuffer os l ResponseBuffer e w))"

definition SendHttpResponseNonblock1 ::
    "'w os \<Rightarrow> 'z zlib \<Rightarrow> allocator \<Rightarrow> http_lib \<Rightarrow> hook \<Rightarrow> http_env \<Rightarrow> 'w \<Rightarrow> (int \<times> http_env \<times> 'w) option" where
  "SendHttpResponseNonblock1 os z alloc l hook e w =
     (case prepare_send z alloc l hook ''Accept-Encoding'' ResponseBuffer True e of
        None \<Rightarrow> None
      | Some (nret, e) \<Rightarrow>
          if nret \<noteq> 0 then Some (nret, e, w) else Some (send_once SendHttpBuffer1 os l ResponseBuffer e w))"

section \<open>Receiving a message\<close>

text \<open>\<open>*(process_ptr) = '\0'\<close>, the call-back and decompression, once the message is complete.\<close>

definition end_receive ::
    "'z zlib \<Rightarrow> allocator \<Rightarrow> http_lib \<Rightarrow> hook \<Rightarrow> buffer_ref \<Rightarrow> http_env \<Rightarrow> (int \<times> http_env) option" where
  "end_receive z alloc l hook r e =
     (let b = buffer_at l e r;
          e = set_buffer r (b\<lparr>base := Some (write_at (process_ptr b) [NUL] (area b))\<rparr>) e in
      then_ok
        (case pfuncProcessAfterReceiveProc e of None \<Rightarrow> Some (0, e) | Some f \<Rightarrow> Some (hook f e r))
        (\<lambda>e. case UncompressHttpBody z alloc l e ''Content-Encoding'' (buffer_at l e r) of
                None \<Rightarrow> None
              | Some (nret, e, b) \<Rightarrow> Some (nret, set_buffer r b e)))"

type_synonym 'w receiver =
  "'w os \<Rightarrow> bool \<Rightarrow> allocator \<Rightarrow> http_env \<Rightarrow> http_buffer \<Rightarrow> 'w \<Rightarrow> (int \<times> http_env \<times> http_buffer \<times> 'w) option"

text \<open>The return code when reception itself fails: a close between two requests is no error.\<close>

definition receive_failed :: "buffer_ref \<Rightarrow> http_env \<Rightarrow> int \<Rightarrow> int" where
  "receive_failed r e nret =
     (if r = RequestBuffer \<and> nret = FASTERHTTP_ERROR_TCP_CLOSE \<and> parse_step e = PARSESTEP_BEGIN
      then FASTERHTTP_INFO_TCP_CLOSE else nret)"

partial_function (option) receive_loop ::
    "'w receiver \<Rightarrow> bool \<Rightarrow> 'w os \<Rightarrow> 'z zlib \<Rightarrow> allocator \<Rightarrow> http_lib \<Rightarrow> hook \<Rightarrow> buffer_ref \<Rightarrow> http_env \<Rightarrow> 'w
       \<Rightarrow> (int \<times> http_env \<times> 'w) option" where
  "receive_loop receive wait os z alloc l hook r e w =
     (case receive os wait alloc e (buffer_at l e r) w of
        None \<Rightarrow> None
      | Some (nret, e, b, w) \<Rightarrow>
          let e = set_buffer r b e in
          if nret \<noteq> 0 then Some (receive_failed r e nret, e, w)
          else
            let (nret, e) = ParseHttpBuffer alloc l e r in
            if nret = FASTERHTTP_INFO_NEED_MORE_HTTP_BUFFER then
              receive_loop receive wait os z alloc l hook r e w
            else if nret \<noteq> 0 then Some (nret, e, w)
            else (case end_receive z alloc l hook r e of
                    None \<Rightarrow> None | Some (nret, e) \<Rightarrow> Some (nret, e, w)))"

definition ReceiveHttpRequest ::
    "'w os \<Rightarrow> 'z zlib \<Rightarrow> allocator \<Rightarrow> http_lib \<Rightarrow> hook \<Rightarrow> http_env \<Rightarrow> 'w \<Rightarrow> (int \<times> http_env \<times> 'w) option" where
  "ReceiveHttpRequest os z alloc l hook e w =
     receive_loop ReceiveHttpBuffer True os z alloc l hook RequestBuffer e w"

definition ReceiveHttpResponse ::
    "'w os \<Rightarrow> 'z zlib \<Rightarrow> allocator \<Rightarrow> http_lib \<Rightarrow> hook \<Rightarrow> http_env \<Rightarrow> 'w \<Rightarrow> (int \<times> http_env \<times> 'w) option" where
  "ReceiveHttpResponse os z alloc l hook e w =
     receive_loop ReceiveHttpBuffer True os z alloc l hook ResponseBuffer e w"

definition ReceiveHttpRequestNonblock ::
    "'w os \<Rightarrow> 'z zlib \<Rightarrow> allocator \<Rightarrow> http_lib \<Rightarrow> hook \<Rightarrow> http_env \<Rightarrow> 'w \<Rightarrow> (int \<times> http_env \<times> 'w) option" where
  "ReceiveHttpRequestNonblock os z alloc l hook e w =
     receive_loop ReceiveHttpBuffer False os z alloc l hook RequestBuffer e w"

definition ReceiveHttpResponseNonblock ::
    "'w os \<Rightarrow> 'z zlib \<Rightarrow> allocator \<Rightarrow> http_lib \<Rightarrow> hook \<Rightarrow> http_env \<Rightarrow> 'w \<Rightarrow> (int \<times> http_env \<times> 'w) option" where
  "ReceiveHttpResponseNonblock os z alloc l hook e w =
     receive_loop ReceiveHttpBuffer False os z alloc l hook ResponseBuffer e w"

definition ReceiveHttpRequestNonblock1 ::
    "'w os \<Rightarrow> 'z zlib \<Rightarrow> allocator \<Rightarrow> http_lib \<Rightarrow> hook \<Rightarrow> http_env \<Rightarrow> 'w \<Rightarrow> (int \<times> http_env \<times> 'w) option" where
  "ReceiveHttpRequestNonblock1 os z alloc l hook e w =
     receive_loop ReceiveHttpBuffer1 False os z alloc l hook RequestBuffer e w"

definition ReceiveHttpResponseNonblock1 ::
    "'w os \<Rightarrow> 'z zlib \<Rightarrow> allocator \<Rightarrow> http_lib \<Rightarrow> hook \<Rightarrow> http_env \<Rightarrow> 'w \<Rightarrow> (int \<times> http_env \<times> 'w) option" where
  "ReceiveHttpResponseNonblock1 os z alloc l hook e w =
     receive_loop ReceiveHttpBuffer1 False os z alloc l hook ResponseBuffer e w"

section \<open>Whole exchanges\<close>

definition RequestHttp ::
    "'w os \<Rightarrow> 'z zlib \<Rightarrow> allocator \<Rightarrow> http_lib \<Rightarrow> hook \<Rightarrow> http_env \<Rightarrow> 'w \<Rightarrow> (int \<times> http_env \<times> 'w) option" where
  "RequestHttp os z alloc l hook e w =
     (case SendHttpRequest os z alloc l hook e w of
        None \<Rightarrow> None
      | Some (nret, e, w) \<Rightarrow>
          if nret \<noteq> 0 then Some (nret, e, w) else ReceiveHttpResponse os z alloc l hook e w)"

text \<open>The blocking server loop; \<open>app\<close> is the application's request handler.\<close>

partial_function (option) ResponseAllHttp ::
    "'w os \<Rightarrow> 'z zlib \<Rightarrow> allocator \<Rightarrow> hook \<Rightarrow> (http_env \<Rightarrow> int \<times> http_env) \<Rightarrow> http_lib \<Rightarrow> http_env \<Rightarrow> 'w
       \<Rightarrow> (int \<times> http_lib \<times> http_env \<times> 'w) option" where
  "ResponseAllHttp os z alloc hook app l e w =
     (case ReceiveHttpRequest os z alloc l hook e w of
        None \<Rightarrow> None
      | Some (nret, e, w) \<Rightarrow>
          if nret \<noteq> 0 then Some (if nret = FASTERHTTP_INFO_TCP_CLOSE then 0 else nret, l, e, w)
          else
            (case FormatHttpResponseStartLine alloc l HTTP_OK e False None of
               None \<Rightarrow> None
             | Some (nret, l, e) \<Rightarrow>
                 if nret \<noteq> 0 then Some (nret, l, e, w)
                 else
                   let (code, e) = app e in
                   (case (if code \<noteq> HTTP_OK
                          then FormatHttpResponseStartLine alloc l (\<bar>code\<bar> div 1000) e True None
                          else Some (0, l, e)) of
                      None \<Rightarrow> None
                    | Some (nret, l, e) \<Rightarrow>
                        if nret \<noteq> 0 then Some (nret, l, e, w)
                        else
                          (case SendHttpResponse os z alloc l hook e w of
                             None \<Rightarrow> None
                           | Some (nret, e, w) \<Rightarrow>
                               if nret \<noteq> 0 then Some (nret, l, e, w)
                               else if \<not> CheckHttpKeepAlive e then Some (0, l, e, w)
                               else ResponseAllHttp os z alloc hook app l (ResetHttpEnv alloc e) w))))"

section \<open>What arrives on the wire\<close>

text \<open>Documented behaviour of \<open>send\<close>: it accepts at most what is offered, and exactly the accepted bytes
  go out.  \<open>wire w\<close> is everything sent so far.\<close>

definition send_law :: "'w os \<Rightarrow> ('w \<Rightarrow> bytes) \<Rightarrow> bool" where
  "send_law os wire \<longleftrightarrow>
     (\<forall>w. wire (snd (os_time os w)) = wire w) \<and> (\<forall>t w. wire (snd (os_select os t w)) = wire w)
     \<and> (\<forall>bs w err w'. os_send os bs w = (Send_failed err, w') \<longrightarrow> wire w' = wire w)
     \<and> (\<forall>bs w n w'. os_send os bs w = (Sent n, w') \<longrightarrow> n \<le> length bs \<and> wire w' = wire w @ take n bs)"

lemma clock_wire: "send_law os wire \<Longrightarrow> clock os e w = (t, w') \<Longrightarrow> wire w' = wire w"
  by (auto simp: send_law_def clock_def split: if_splits) (metis snd_conv)

lemma wait_wire: "send_law os wire \<Longrightarrow> wait_ready os wait e w = (t, w') \<Longrightarrow> wire w' = wire w"
  by (auto simp: send_law_def wait_ready_def split: if_splits) (metis snd_conv)+

lemma unprocessed_slice: "buffer_ok b \<Longrightarrow> unprocessed b = slice (process_ptr b) (fill_ptr b - process_ptr b) (area b)"
  by (simp add: unprocessed_def content_def slice_def drop_take)

text \<open>One call of \<open>SendHttpBuffer\<close>: what went out and what is left make up what was to be sent.\<close>

lemma SendHttpBuffer_wire:
  assumes "send_law os wire" "buffer_ok b" "SendHttpBuffer os wait e b w = (nret, e', b', w')"
  shows "wire w' @ unprocessed b' = wire w @ unprocessed b" "buffer_ok b'"
    "nret = 0 \<Longrightarrow> unprocessed b' = []" "e' = e \<or> (\<exists>t. e' = e\<lparr>timeout := t\<rparr>)"
proof -
  let ?data = "slice (process_ptr b) (fill_ptr b - process_ptr b) (area b)"
  have ud: "unprocessed b = ?data" using unprocessed_slice [OF assms(2)] .
  have "wire w' @ unprocessed b' = wire w @ unprocessed b \<and> buffer_ok b' \<and> (nret = 0 \<longrightarrow> unprocessed b' = [])
      \<and> (e' = e \<or> (\<exists>t. e' = e\<lparr>timeout := t\<rparr>))"
  proof (cases "process_ptr b \<ge> fill_ptr b")
    case True
    then show ?thesis
      using assms(2,3) by (auto simp: SendHttpBuffer_def send_some_def unprocessed_def)
  next
    case False
    obtain t1 w1 where c1: "clock os e w = (t1, w1)" by fastforce
    obtain rdy w2 where wt: "wait_ready os wait e w1 = (rdy, w2)" by fastforce
    obtain res w3 where sd: "os_send os ?data w2 = (res, w3)" by fastforce
    have w2: "wire w2 = wire w" using clock_wire [OF assms(1) c1] wait_wire [OF assms(1) wt] by simp
    note r = assms(3) [unfolded SendHttpBuffer_def send_some_def]
    show ?thesis
    proof (cases "rdy = 1")
      case notready: False
      then show ?thesis using r False c1 wt w2 assms(2) by (auto simp: Let_def split: if_splits)
    next
      case ready: True
      show ?thesis
      proof (cases res)
        case (Send_failed err)
        then have "wire w3 = wire w2" using sd assms(1) unfolding send_law_def by blast
        then show ?thesis using r False c1 wt ready sd Send_failed w2 assms(2) by (auto simp: Let_def split: if_splits)
      next
        case (Sent n)
        obtain t2 w4 where c2: "clock os e w3 = (t2, w4)" by fastforce
        have n: "n \<le> length ?data" "wire w3 = wire w @ take n ?data"
          using sd Sent assms(1) w2 unfolding send_law_def by auto
        then have "wire w4 = wire w @ take n ?data" using clock_wire [OF assms(1) c2] by simp
        moreover have b': "b' = b\<lparr>process_ptr := process_ptr b + n\<rparr>" "w' = w4" "e' = spend_time e t1 t2"
          "nret = (if process_ptr b + n \<ge> fill_ptr b then 0 else FASTERHTTP_INFO_TCP_SEND_WOULDBLOCK)"
          using r False c1 wt ready sd Sent c2 by (auto simp: Let_def)
        moreover have "process_ptr b + n \<le> fill_ptr b"
          using n(1) False by (auto simp: slice_def)
        then have "buffer_ok b'" using b' assms(2) by (simp add: buffer_ok_def)
        moreover have "unprocessed b' = drop n ?data"
          using b'(1) unfolding ud [symmetric] by (simp add: unprocessed_def content_def add.commute)
        moreover have "nret = 0 \<Longrightarrow> unprocessed b' = []"
          using b' \<open>process_ptr b + n \<le> fill_ptr b\<close>
          by (auto simp: unprocessed_def content_def split: if_splits)
        ultimately show ?thesis using n(2) ud by (auto simp: spend_time_def)
      qed
    qed
  qed
  then show "wire w' @ unprocessed b' = wire w @ unprocessed b" "buffer_ok b'"
    "nret = 0 \<Longrightarrow> unprocessed b' = []" "e' = e \<or> (\<exists>t. e' = e\<lparr>timeout := t\<rparr>)" by blast+
qed

text \<open>What a driver still has to send: the rest of the message and of the appended buffer.\<close>

definition pending_bytes :: "http_lib \<Rightarrow> buffer_ref \<Rightarrow> http_env \<Rightarrow> bytes" where
  "pending_bytes l r e = unprocessed (buffer_at l e r)
     @ (case p_append_buffer e of None \<Rightarrow> [] | Some b \<Rightarrow> unprocessed b)"

definition sendable :: "http_lib \<Rightarrow> buffer_ref \<Rightarrow> http_env \<Rightarrow> bool" where
  "sendable l r e \<longleftrightarrow> r \<noteq> StatusCodeBuffer \<and> buffer_ok (buffer_at l e r)
     \<and> (\<forall>b. p_append_buffer e = Some b \<longrightarrow> buffer_ok b)"

lemma buffer_at_time [simp]: "buffer_at l (e\<lparr>timeout := t\<rparr>) r = buffer_at l e r"
  by (cases r) simp_all

lemma buffer_at_append [simp]: "buffer_at l (e\<lparr>p_append_buffer := a\<rparr>) r = buffer_at l e r"
  by (cases r) simp_all

lemma set_buffer_append [simp]: "p_append_buffer (set_buffer r b e) = p_append_buffer e"
  by (cases r) (simp_all add: set_buffer_def)

lemma unprocessed_done: "process_ptr b \<ge> fill_ptr b \<Longrightarrow> unprocessed b = []"
  by (simp add: unprocessed_def content_def)

lemma send_append_wire:
  assumes "send_law os wire" "sendable l r e" "unprocessed (buffer_at l e r) = []"
    and "send_append SendHttpBuffer os wait e w = (res, e', w')"
  shows "wire w' @ pending_bytes l r e' = wire w @ pending_bytes l r e" "sendable l r e'"
    "res = Some 0 \<Longrightarrow> pending_bytes l r e' = []"
proof -
  have "wire w' @ pending_bytes l r e' = wire w @ pending_bytes l r e \<and> sendable l r e'
      \<and> (res = Some 0 \<longrightarrow> pending_bytes l r e' = [])"
  proof (cases "p_append_buffer e")
    case None
    then show ?thesis using assms(2-4) by (auto simp: send_append_def pending_bytes_def)
  next
    case (Some b)
    obtain n1 e1 b1 w1 where s: "SendHttpBuffer os wait e b w = (n1, e1, b1, w1)" by (metis prod_cases4)
    have "buffer_ok b" using assms(2) Some by (simp add: sendable_def)
    note k = SendHttpBuffer_wire [OF assms(1) this s]
    have e': "e' = e1\<lparr>p_append_buffer := Some b1\<rparr>" "w' = w1"
      "res = (if n1 = FASTERHTTP_INFO_TCP_SEND_WOULDBLOCK then None else Some n1)"
      using assms(4) Some s by (auto simp: send_append_def Let_def split: if_splits)
    have "buffer_at l e1 r = buffer_at l e r" using k(4) by auto
    then show ?thesis
      using k e' assms(2,3) Some by (auto simp: pending_bytes_def sendable_def)
  qed
  then show "wire w' @ pending_bytes l r e' = wire w @ pending_bytes l r e" "sendable l r e'"
    "res = Some 0 \<Longrightarrow> pending_bytes l r e' = []" by blast+
qed

lemma send_pass_wire:
  assumes "send_law os wire" "sendable l r e" "send_pass SendHttpBuffer os wait l r e w = (res, e', w')"
  shows "wire w' @ pending_bytes l r e' = wire w @ pending_bytes l r e" "sendable l r e'"
    "res = Some 0 \<Longrightarrow> pending_bytes l r e' = []"
proof -
  let ?b = "buffer_at l e r"
  have "wire w' @ pending_bytes l r e' = wire w @ pending_bytes l r e \<and> sendable l r e'
      \<and> (res = Some 0 \<longrightarrow> pending_bytes l r e' = [])"
  proof (cases "process_ptr ?b < fill_ptr ?b")
    case True
    obtain n1 e1 b1 w1 where s: "SendHttpBuffer os wait e ?b w = (n1, e1, b1, w1)" by (metis prod_cases4)
    have "buffer_ok ?b" using assms(2) by (simp add: sendable_def)
    note k = SendHttpBuffer_wire [OF assms(1) this s]
    let ?e = "set_buffer r b1 e1"
    have r: "r \<noteq> StatusCodeBuffer" using assms(2) by (simp add: sendable_def)
    have pa: "p_append_buffer ?e = p_append_buffer e" using k(4) by auto
    have p1: "wire w1 @ pending_bytes l r ?e = wire w @ pending_bytes l r e" "sendable l r ?e"
      using k(1,2) pa r assms(2) by (simp_all add: pending_bytes_def sendable_def)
    show ?thesis
    proof (cases "n1 = 0")
      case zero: True
      then have a: "send_append SendHttpBuffer os wait ?e w1 = (res, e', w')"
        using assms(3) True s by (simp add: send_pass_def Let_def)
      have "unprocessed (buffer_at l ?e r) = []" using k(3) zero r by simp
      then show ?thesis using send_append_wire [OF assms(1) p1(2) _ a] p1(1) by simp
    next
      case False
      then have "e' = ?e" "w' = w1" "res \<noteq> Some 0"
        using assms(3) True s by (auto simp: send_pass_def Let_def split: if_splits)
      then show ?thesis using p1 by simp
    qed
  next
    case False
    then have u: "unprocessed ?b = []" by (simp add: unprocessed_done)
    show ?thesis
    proof (cases "p_append_buffer e")
      case None
      then show ?thesis using assms(2,3) False u by (auto simp: send_pass_def pending_bytes_def)
    next
      case (Some a)
      show ?thesis
      proof (cases "process_ptr a < fill_ptr a")
        case True
        then have "send_append SendHttpBuffer os wait e w = (res, e', w')"
          using assms(3) False Some by (simp add: send_pass_def)
        then show ?thesis using send_append_wire [OF assms(1,2) u] by blast
      next
        case sent: False
        then show ?thesis
          using assms(2,3) False Some u unprocessed_done [of a] by (auto simp: send_pass_def pending_bytes_def)
      qed
    qed
  qed
  then show "wire w' @ pending_bytes l r e' = wire w @ pending_bytes l r e" "sendable l r e'"
    "res = Some 0 \<Longrightarrow> pending_bytes l r e' = []" by blast+
qed

lemma send_once_wire:
  assumes "send_law os wire" "sendable l r e" "send_once SendHttpBuffer os l r e w = (nret, e', w')"
  shows "wire w' @ pending_bytes l r e' = wire w @ pending_bytes l r e \<and> sendable l r e'
    \<and> (nret = 0 \<longrightarrow> pending_bytes l r e' = [])"
proof -
  obtain res e1 w1 where p: "send_pass SendHttpBuffer os False l r e w = (res, e1, w1)" by (metis prod_cases3)
  have c: "pending_bytes l r (e1\<lparr>enable_response_compressing := k\<rparr>) = pending_bytes l r e1"
    "sendable l r (e1\<lparr>enable_response_compressing := k\<rparr>) = sendable l r e1" for k
    by (cases r; simp add: pending_bytes_def sendable_def)+
  show ?thesis
    using send_pass_wire [OF assms(1,2) p] assms(3) p c
    by (auto simp: send_once_def split: option.splits if_splits)
qed

text \<open>The blocking driver on a network that takes at least one byte per call sends everything.\<close>

definition taking :: "'w os \<Rightarrow> bool" where
  "taking os \<longleftrightarrow> (\<forall>t w. fst (os_select os t w) = 1)
     \<and> (\<forall>bs w. bs \<noteq> [] \<longrightarrow> (\<exists>n w'. os_send os bs w = (Sent n, w') \<and> 0 < n))"

lemma SendHttpBuffer_taking:
  assumes "taking os" "send_law os wire" "buffer_ok b" "process_ptr b < fill_ptr b"
    and "SendHttpBuffer os True e b w = (nret, e', b', w')"
  shows "nret \<in> {0, FASTERHTTP_INFO_TCP_SEND_WOULDBLOCK}" "length (unprocessed b') < length (unprocessed b)"
proof -
  let ?data = "slice (process_ptr b) (fill_ptr b - process_ptr b) (area b)"
  have len: "length ?data = fill_ptr b - process_ptr b" "?data \<noteq> []" "length (unprocessed b) = length ?data"
    using assms(3,4) unprocessed_slice [OF assms(3)] by (auto simp: slice_def buffer_ok_def)
  obtain t1 w1 where c1: "clock os e w = (t1, w1)" by fastforce
  obtain w2 where wt: "wait_ready os True e w1 = (1, w2)"
    using assms(1) unfolding taking_def wait_ready_def by (metis prod.collapse)
  obtain n w3 where sd: "os_send os ?data w2 = (Sent n, w3)" "0 < n"
    using assms(1) len(2) unfolding taking_def by blast
  then have "n \<le> length ?data" using assms(2) unfolding send_law_def by blast
  moreover obtain t2 w4 where c2: "clock os e w3 = (t2, w4)" by fastforce
  have "b' = b\<lparr>process_ptr := process_ptr b + n\<rparr>" "nret \<in> {0, FASTERHTTP_INFO_TCP_SEND_WOULDBLOCK}"
    using assms(4,5) c1 wt sd(1) c2 by (simp_all add: SendHttpBuffer_def send_some_def Let_def split: if_splits)
  ultimately show "nret \<in> {0, FASTERHTTP_INFO_TCP_SEND_WOULDBLOCK}" "length (unprocessed b') < length (unprocessed b)"
    using sd(2) len assms(3,4) by (auto simp: unprocessed_def content_def buffer_ok_def)
qed

lemma send_append_taking:
  assumes "taking os" "send_law os wire" "sendable l r e"
    and "send_append SendHttpBuffer os True e w = (res, e', w')"
  shows "res = Some 0 \<or> res = None \<and> length (pending_bytes l r e') < length (pending_bytes l r e)"
proof (cases "p_append_buffer e")
  case None
  then show ?thesis using assms(4) by (simp add: send_append_def)
next
  case (Some b)
  obtain n1 e1 b1 w1 where s: "SendHttpBuffer os True e b w = (n1, e1, b1, w1)" by (metis prod_cases4)
  have ok: "buffer_ok b" using assms(3) Some by (simp add: sendable_def)
  have r: "(if n1 = FASTERHTTP_INFO_TCP_SEND_WOULDBLOCK then None else Some n1) = res"
    "e' = e1\<lparr>p_append_buffer := Some b1\<rparr>"
    using assms(4) Some s by (auto simp: send_append_def Let_def split: if_splits)
  have "buffer_at l e1 r = buffer_at l e r" using SendHttpBuffer_wire(4) [OF assms(2) ok s] by auto
  then show ?thesis
    using r s Some SendHttpBuffer_taking [OF assms(1,2) ok _ s]
    by (cases "process_ptr b < fill_ptr b")
       (auto simp: pending_bytes_def SendHttpBuffer_def send_some_def split: if_splits)
qed

lemma send_pass_taking:
  assumes "taking os" "send_law os wire" "sendable l r e"
    and "send_pass SendHttpBuffer os True l r e w = (res, e', w')"
  shows "res = Some 0 \<or> res = None \<and> length (pending_bytes l r e') < length (pending_bytes l r e)"
proof -
  let ?b = "buffer_at l e r"
  have ok: "buffer_ok ?b" "r \<noteq> StatusCodeBuffer" using assms(3) by (simp_all add: sendable_def)
  show ?thesis
  proof (cases "process_ptr ?b < fill_ptr ?b")
    case True
    obtain n1 e1 b1 w1 where s: "SendHttpBuffer os True e ?b w = (n1, e1, b1, w1)" by (metis prod_cases4)
    note k = SendHttpBuffer_wire [OF assms(2) ok(1) s]
    note t = SendHttpBuffer_taking [OF assms(1,2) ok(1) True s]
    let ?e = "set_buffer r b1 e1"
    have less: "length (pending_bytes l r ?e) < length (pending_bytes l r e)"
      using t(2) k(4) ok(2) by (auto simp: pending_bytes_def)
    have sendable: "sendable l r ?e" using k(2,4) ok(2) assms(3) by (auto simp: sendable_def)
    show ?thesis
    proof (cases "n1 = 0")
      case zero: True
      then have "send_append SendHttpBuffer os True ?e w1 = (res, e', w')"
        using assms(4) True s by (simp add: send_pass_def Let_def)
      then show ?thesis using send_append_taking [OF assms(1,2) sendable] less by fastforce
    next
      case False
      then show ?thesis using t(1) assms(4) True s less by (auto simp: send_pass_def Let_def)
    qed
  next
    case False
    then show ?thesis
      using assms(4) send_append_taking [OF assms(1-3)]
      by (auto simp: send_pass_def split: option.splits if_splits)
  qed
qed

lemma send_loop_delivers:
  assumes "taking os" "send_law os wire" "sendable l r e"
  shows "\<exists>e' w'. send_loop os l r e w = Some (0, e', w') \<and> wire w' = wire w @ pending_bytes l r e
     \<and> pending_bytes l r e' = []"
  using assms(3)
proof (induction "length (pending_bytes l r e)" arbitrary: e w rule: less_induct)
  case less
  obtain res e1 w1 where p: "send_pass SendHttpBuffer os True l r e w = (res, e1, w1)" by (metis prod_cases3)
  note k = send_pass_wire [OF assms(2) less.prems p]
  from send_pass_taking [OF assms(1,2) less.prems p] show ?case
  proof
    assume res: "res = Some 0"
    then have "send_loop os l r e w = Some (0, e1, w1)" by (subst send_loop.simps) (simp add: p)
    then show ?thesis using k(1) k(3) [OF res] by simp
  next
    assume a: "res = None \<and> length (pending_bytes l r e1) < length (pending_bytes l r e)"
    then obtain e' w' where "send_loop os l r e1 w1 = Some (0, e', w')" "wire w' = wire w1 @ pending_bytes l r e1"
      "pending_bytes l r e' = []" using less.hyps k(2) by blast
    then show ?thesis using a p k(1) by (subst send_loop.simps) simp
  qed
qed

section \<open>What reception does to the buffer\<close>

definition recv_law :: "'w os \<Rightarrow> bool" where
  "recv_law os \<longleftrightarrow> (\<forall>n w bs w'. os_recv os n w = (Received bs, w') \<longrightarrow> length bs \<le> n)"

definition same_parse :: "http_env \<Rightarrow> http_env \<Rightarrow> bool" where
  "same_parse e e' \<longleftrightarrow> e' = e \<or> (\<exists>t. e' = e\<lparr>timeout := t\<rparr>)"

lemma stored_behind:
  assumes "writable b" "int (fill_ptr b) + int (length bs) \<le> buf_size b - 1"
  defines "b' \<equiv> b\<lparr>base := Some (write_at (fill_ptr b) bs (area b)), fill_ptr := fill_ptr b + length bs\<rparr>"
  shows "writable b'" "content b' = content b @ bs"
  using store_appended [of b b bs] assms(1,2) appended_writable [of b bs 0 b']
  by (auto simp: writable_def b'_def)

lemma receive_some_result:
  assumes "recv_law os" "writable b" "\<And>b. writable b \<Longrightarrow> int (fill_ptr b) + 1 \<le> buf_size b - 1 \<Longrightarrow>
             int (fill_ptr b) + int (room b) \<le> buf_size b - 1"
  shows "\<exists>nret e' b' w'. receive_some room os wait alloc e b w = Some (nret, e', b', w') \<and> writable b'
    \<and> process_ptr b' = process_ptr b \<and> (\<exists>bs. content b' = content b @ bs) \<and> same_parse e e'"
proof (cases "process_ptr b = 0 \<and> process_ptr b < fill_ptr b")
  case True
  then show ?thesis using assms(2) by (simp add: receive_some_def same_parse_def)
next
  case False
  have ok: "buffer_ok b" "\<not> ref_flag b" using assms(2) by (simp_all add: writable_def)
  obtain n1 b1 where g: "grow_to alloc (int (fill_ptr b) + 1) b = Some (n1, b1)" "grown b b1"
    "if n1 = 0 then int (fill_ptr b) + 1 \<le> buf_size b1 - 1 else n1 = FASTERHTTP_ERROR_ALLOC"
    using grow_to_returns [OF ok] by blast
  have b1: "writable b1" "content b1 = content b" "process_ptr b1 = process_ptr b" "fill_ptr b1 = fill_ptr b"
    using g(2) ok by (auto simp: grown_def writable_def)
  then have keep: "writable b1 \<and> process_ptr b1 = process_ptr b \<and> (\<exists>bs. content b1 = content b @ bs)" by simp
  obtain t1 w1 where c1: "clock os e w = (t1, w1)" by fastforce
  obtain rdy w2 where wt: "wait_ready os wait e w1 = (rdy, w2)" by fastforce
  obtain res w3 where rc: "os_recv os (room b1) w2 = (res, w3)" by fastforce
  show ?thesis
  proof (cases "n1 = 0 \<and> rdy = 1 \<and> (\<exists>bs. res = Received bs \<and> bs \<noteq> [])")
    case ok: True
    then obtain bs where bs: "res = Received bs" "bs \<noteq> []" by blast
    obtain t2 w4 where c2: "clock os e w3 = (t2, w4)" by fastforce
    have "length bs \<le> room b1" using rc bs assms(1) unfolding recv_law_def by blast
    then have fit: "int (fill_ptr b1) + int (length bs) \<le> buf_size b1 - 1"
      using assms(3) [OF b1(1)] g(3) ok b1(4) by simp
    let ?b = "b1\<lparr>base := Some (write_at (fill_ptr b1) bs (area b1)), fill_ptr := fill_ptr b1 + length bs\<rparr>"
    have "receive_some room os wait alloc e b w = Some (0, spend_time e t1 t2, ?b, w4)"
      unfolding receive_some_def if_not_P [OF False] using g(1) ok c1 wt rc bs c2 by (simp add: Let_def)
    moreover have "same_parse e (spend_time e t1 t2)" by (auto simp: same_parse_def spend_time_def)
    ultimately show ?thesis using stored_behind [OF b1(1) fit] b1 by auto
  next
    case no: False
    then have "\<exists>nret w'. receive_some room os wait alloc e b w = Some (nret, e, b1, w')"
      unfolding receive_some_def if_not_P [OF False] using g(1) c1 wt rc no by (cases res) (auto simp: Let_def)
    then show ?thesis using keep by (auto simp: same_parse_def)
  qed
qed

lemma ReceiveHttpBuffer_result:
  assumes "recv_law os" "writable b"
  shows "\<exists>nret e' b' w'. ReceiveHttpBuffer os wait alloc e b w = Some (nret, e', b', w') \<and> writable b'
    \<and> process_ptr b' = process_ptr b \<and> (\<exists>bs. content b' = content b @ bs) \<and> same_parse e e'"
    "\<exists>nret e' b' w'. ReceiveHttpBuffer1 os wait alloc e b w = Some (nret, e', b', w') \<and> writable b'
    \<and> process_ptr b' = process_ptr b \<and> (\<exists>bs. content b' = content b @ bs) \<and> same_parse e e'"
proof -
  show "\<exists>nret e' b' w'. ReceiveHttpBuffer os wait alloc e b w = Some (nret, e', b', w') \<and> writable b'
    \<and> process_ptr b' = process_ptr b \<and> (\<exists>bs. content b' = content b @ bs) \<and> same_parse e e'"
    unfolding ReceiveHttpBuffer_def
    using receive_some_result [OF assms, where room = "\<lambda>b. nat (buf_size b - 1 - int (fill_ptr b))"] by simp
  show "\<exists>nret e' b' w'. ReceiveHttpBuffer1 os wait alloc e b w = Some (nret, e', b', w') \<and> writable b'
    \<and> process_ptr b' = process_ptr b \<and> (\<exists>bs. content b' = content b @ bs) \<and> same_parse e e'"
    unfolding ReceiveHttpBuffer1_def
    using receive_some_result [OF assms, where room = "\<lambda>_. 1"] by simp
qed

end
