(* ===== verification/HttpReception.thy ===== *)
theory HttpReception
  imports HttpTransport
begin

text \<open>
  What the receiving drivers guarantee and what they do not: the parser's invariant survives every
  reception that ends with an error or a request for more bytes; the byte behind a complete message is
  overwritten, so a request sent ahead is rejected; a message cut behind the last \<open>\r\<close> of its head can
  keep the driver busy for ever; decompression turns the end of a body into the next message.
\<close>

section \<open>The invariant over a reception\<close>

lemma parse_switch_Return_0: "parse_switch alloc r e b p = Return 0 e' b' \<Longrightarrow> parse_step e' = PARSESTEP_DONE"
  by (cases "parse_step e")
     (auto simp: parse_switch_def parse_METHOD0_def parse_METHOD_def parse_URI0_def parse_URI_def
        parse_REQ_VERSION0_def parse_REQ_VERSION_def parse_RSP_VERSION0_def parse_RSP_VERSION_def
        parse_STATUSCODE0_def parse_STATUSCODE_def parse_REASONPHRASE0_def parse_REASONPHRASE_def
        parse_NAME0_def parse_NAME_def parse_VALUE0_def parse_VALUE_def parse_BODY_def parse_CHUNKED_SIZE_def
        parse_CHUNKED_DATA_def token_start_def token_body_def line_rest_def goto_step_def check_version_def
        go_parsing_body_def end_of_header_def mark_reforming_def Let_def
      split: if_splits option.splits prod.splits)

lemma parse_loop_0: "parse_loop alloc r e b p = (0, e', b') \<Longrightarrow> parse_step e' = PARSESTEP_DONE"
proof (induction alloc r e b p rule: parse_loop.induct)
  case (1 alloc r e b p)
  then show ?case
    using parse_switch_Return_0 [of alloc r e b p]
    by (cases "parse_switch alloc r e b p") (auto simp: parse_loop.simps [of alloc r e b p])
qed

lemma ParseHttpBuffer_0:
  assumes "ParseHttpBuffer alloc l e r = (0, e')" shows "parse_step e' = PARSESTEP_DONE"
  using assms parse_loop_0 by (fastforce simp: ParseHttpBuffer_def Let_def split: if_splits prod.splits)

lemma UncompressHttpBody_step:
  assumes "UncompressHttpBody z alloc l e header b = Some (nret, e', b')"
  shows "parse_step e' = parse_step e"
proof -
  have "parse_step e' = parse_step e" if "UncompressBuffer z alloc e b w = Some (nret, e', b')" for w
    using that by (auto simp: UncompressBuffer_def Let_def split: if_splits prod.splits option.splits)
  then show ?thesis using assms by (auto simp: UncompressHttpBody_def split: option.splits)
qed

lemma end_receive_step:
  assumes "end_receive z alloc l hook r e = Some (nret, e')" "pfuncProcessAfterReceiveProc e = None"
  shows "parse_step e' = parse_step e"
proof -
  have "pfuncProcessAfterReceiveProc (set_buffer r b e) = None" for b
    using assms(2) by (simp add: set_buffer_def split: buffer_ref.split)
  then show ?thesis
    using assms(1) UncompressHttpBody_step
    by (fastforce simp: end_receive_def then_ok_def Let_def split: option.splits)
qed

text \<open>The parser leaves the call-backs alone.\<close>

abbreviation after_hook :: "http_env \<Rightarrow> nat option" where
  "after_hook \<equiv> pfuncProcessAfterReceiveProc"

lemma chunk_size_scan_hook:
  assumes "chunk_size_scan m fill e p = (e', p')" shows "after_hook e' = after_hook e"
  using chunk_size_scan_result [OF assms] by auto

lemma parse_switch_hook:
  "case parse_switch alloc r e b p of
     Return n e' b' \<Rightarrow> after_hook e' = after_hook e \<and> ref_flag b' = ref_flag b
   | Goto e' b' p' \<Rightarrow> after_hook e' = after_hook e \<and> ref_flag b' = ref_flag b"
  by (cases "parse_step e")
     (auto simp: parse_switch_def parse_METHOD0_def parse_METHOD_def parse_URI0_def parse_URI_def
        parse_REQ_VERSION0_def parse_REQ_VERSION_def parse_RSP_VERSION0_def parse_RSP_VERSION_def
        parse_STATUSCODE0_def parse_STATUSCODE_def parse_REASONPHRASE0_def parse_REASONPHRASE_def
        parse_NAME0_def parse_NAME_def parse_VALUE0_def parse_VALUE_def parse_BODY_def parse_CHUNKED_SIZE_def
        parse_CHUNKED_DATA_def token_start_def token_body_def line_rest_def goto_step_def check_version_def
        go_parsing_body_def end_of_header_def mark_reforming_def upd_cur_header_def Let_def
      split: if_splits option.splits prod.splits dest: chunk_size_scan_hook)

lemma parse_loop_hook:
  "parse_loop alloc r e b p = (n, e', b') \<Longrightarrow> after_hook e' = after_hook e \<and> ref_flag b' = ref_flag b"
proof (induction alloc r e b p rule: parse_loop.induct)
  case (1 alloc r e b p)
  then show ?case
    using parse_switch_hook [where alloc = alloc and r = r and e = e and b = b and p = p]
    by (cases "parse_switch alloc r e b p") (auto simp: parse_loop.simps [of alloc r e b p])
qed

lemma set_buffer_hook [simp]: "after_hook (set_buffer r b e) = after_hook e"
  by (simp add: set_buffer_def split: buffer_ref.split)

lemma ParseHttpBuffer_keeps:
  assumes "ParseHttpBuffer alloc l e r = (n, e')" "r \<noteq> StatusCodeBuffer"
  shows "after_hook e' = after_hook e" "ref_flag (buffer_at l e' r) = ref_flag (buffer_at l e r)"
proof -
  have "after_hook e' = after_hook e \<and> ref_flag (buffer_at l e' r) = ref_flag (buffer_at l e r)"
    using assms by (auto simp: ParseHttpBuffer_def Let_def simp del: buffer_at.simps
        split: if_splits prod.splits dest!: parse_loop_hook)
  then show "after_hook e' = after_hook e" "ref_flag (buffer_at l e' r) = ref_flag (buffer_at l e r)" by auto
qed

text \<open>What one pass through the receiving loop relies on and restores.\<close>

definition receiving :: "http_lib \<Rightarrow> buffer_ref \<Rightarrow> http_env \<Rightarrow> bool" where
  "receiving l r e \<longleftrightarrow> parser_ready l e r \<and> writable (buffer_at l e r) \<and> after_hook e = None"

definition received_into ::
    "http_lib \<Rightarrow> buffer_ref \<Rightarrow> http_env \<Rightarrow> http_env \<Rightarrow> http_buffer \<Rightarrow> bool" where
  "received_into l r e e' b' \<longleftrightarrow> writable b' \<and> process_ptr b' = process_ptr (buffer_at l e r)
     \<and> (\<exists>bs. content b' = content (buffer_at l e r) @ bs) \<and> same_parse e e'"

lemma parse_inv_same: "same_parse e e' \<Longrightarrow> parse_inv e' b p = parse_inv e b p"
  by (auto simp: same_parse_def parse_inv_def core_ok_def chunk_ok_def position_def)

lemma receiving_more:
  assumes "receiving l r e" "received_into l r e e1 b1"
  shows "receiving l r (set_buffer r b1 e1)"
proof -
  let ?b = "buffer_at l e r"
  have r: "r \<noteq> StatusCodeBuffer" and i: "parse_inv e ?b (process_ptr ?b)" and w: "buffer_ok ?b"
    using assms(1) by (auto simp: receiving_def parser_ready_def writable_def Let_def)
  have b1: "buffer_ok b1" "writable b1" "process_ptr b1 = process_ptr ?b" "same_parse e e1"
    using assms(2) by (auto simp: received_into_def writable_def)
  obtain bs where "content b1 = content ?b @ bs" using assms(2) by (auto simp: received_into_def)
  then have "length (content b1) = length (content ?b) + length bs" by simp
  then have "fill_ptr ?b \<le> fill_ptr b1" using w b1(1) by simp
  then have "parse_inv e b1 (process_ptr ?b)" using parse_inv_more i b1(1) by blast
  then have "parse_inv e1 b1 (process_ptr b1)" using parse_inv_same b1(3,4) by simp
  moreover have "after_hook e1 = None" using b1(4) assms(1) by (auto simp: receiving_def same_parse_def)
  ultimately show ?thesis using r b1(2) by (simp add: receiving_def parser_ready_def)
qed

lemma receiving_parsed:
  assumes "receiving l r e" "ParseHttpBuffer alloc l e r = (nret, e')"
  shows "buffer_ok (buffer_at l e' r)" "headers_ok (fill_ptr (buffer_at l e' r)) (headers e')"
    "nret = FASTERHTTP_INFO_NEED_MORE_HTTP_BUFFER \<Longrightarrow> receiving l r e'" "after_hook e' = None"
proof -
  have r: "r \<noteq> StatusCodeBuffer" using assms(1) by (simp add: receiving_def parser_ready_def)
  note k = ParseHttpBuffer_keeps [OF assms(2) r]
  have "return_inv (fill_ptr (buffer_at l e r)) nret e' (buffer_at l e' r)"
    using ParseHttpBuffer_inv assms by (simp add: receiving_def)
  then show "buffer_ok (buffer_at l e' r)" "headers_ok (fill_ptr (buffer_at l e' r)) (headers e')"
    "nret = FASTERHTTP_INFO_NEED_MORE_HTTP_BUFFER \<Longrightarrow> receiving l r e'" "after_hook e' = None"
    using k assms(1) r by (auto simp: receiving_def return_inv_def parser_ready_def writable_def Let_def)
qed

text \<open>Every outcome but a complete message leaves a sound buffer and headers within it.\<close>

definition reception_sound :: "http_lib \<Rightarrow> buffer_ref \<Rightarrow> int \<Rightarrow> http_env \<Rightarrow> bool" where
  "reception_sound l r nret e \<longleftrightarrow>
     parse_step e = PARSESTEP_DONE
     \<or> buffer_ok (buffer_at l e r) \<and> headers_ok (fill_ptr (buffer_at l e r)) (headers e)
       \<and> (nret = FASTERHTTP_INFO_NEED_MORE_HTTP_BUFFER \<longrightarrow> receiving l r e)"

lemma receive_loop_sound:
  assumes "receive_loop receive wait os z alloc l hook r e w = Some res"
  shows "receiving l r e \<longrightarrow>
     (\<forall>e w. writable (buffer_at l e r) \<longrightarrow> (\<exists>nret e' b' w'.
        receive os wait alloc e (buffer_at l e r) w = Some (nret, e', b', w') \<and> received_into l r e e' b')) \<longrightarrow>
     reception_sound l r (fst res) (fst (snd res))"
proof (rule receive_loop.raw_induct [OF _ assms], intro impI)
  fix loop receive wait os z alloc l hook r e w res
  assume ih: "\<And>receive wait os z alloc l hook r e w res. loop receive wait os z alloc l hook r e w = Some res \<Longrightarrow>
      receiving l r e \<longrightarrow>
     (\<forall>e w. writable (buffer_at l e r) \<longrightarrow> (\<exists>nret e' b' w'.
        receive os wait alloc e (buffer_at l e r) w = Some (nret, e', b', w') \<and> received_into l r e e' b')) \<longrightarrow>
     reception_sound l r (fst res) (fst (snd res))"
    and step: "(case receive os wait alloc e (buffer_at l e r) w of
        None \<Rightarrow> None
      | Some (nret, e, b, w) \<Rightarrow>
          let e = set_buffer r b e in
          if nret \<noteq> 0 then Some (receive_failed r e nret, e, w)
          else
            let (nret, e) = ParseHttpBuffer alloc l e r in
            if nret = FASTERHTTP_INFO_NEED_MORE_HTTP_BUFFER then loop receive wait os z alloc l hook r e w
            else if nret \<noteq> 0 then Some (nret, e, w)
            else (case end_receive z alloc l hook r e of
                    None \<Rightarrow> None | Some (nret, e) \<Rightarrow> Some (nret, e, w))) = Some res"
    and start: "receiving l r e"
    and law: "\<forall>e w. writable (buffer_at l e r) \<longrightarrow> (\<exists>nret e' b' w'.
        receive os wait alloc e (buffer_at l e r) w = Some (nret, e', b', w') \<and> received_into l r e e' b')"
  obtain n1 e1 b1 w1 where rc: "receive os wait alloc e (buffer_at l e r) w = Some (n1, e1, b1, w1)"
    "received_into l r e e1 b1" using law start unfolding receiving_def by blast
  note s1 = receiving_more [OF start rc(2)]
  let ?e1 = "set_buffer r b1 e1"
  obtain n2 e2 where ps: "ParseHttpBuffer alloc l ?e1 r = (n2, e2)" by fastforce
  note s2 = receiving_parsed [OF s1 ps]
  have sound1: "reception_sound l r n ?e1" for n
  proof -
    have "parse_inv ?e1 (buffer_at l ?e1 r) (process_ptr (buffer_at l ?e1 r))"
      using s1 unfolding receiving_def parser_ready_def Let_def by blast
    then show ?thesis using s1 by (simp add: reception_sound_def parse_inv_def core_ok_def)
  qed
  show "reception_sound l r (fst res) (fst (snd res))"
  proof (cases "n1 = 0")
    case False
    then have "res = (receive_failed r ?e1 n1, ?e1, w1)" using step rc(1) by (simp add: Let_def)
    then show ?thesis using sound1 by simp
  next
    case ok: True
    consider (more) "n2 = FASTERHTTP_INFO_NEED_MORE_HTTP_BUFFER" | (complete) "n2 = 0"
      | (bad) "n2 \<noteq> FASTERHTTP_INFO_NEED_MORE_HTTP_BUFFER" "n2 \<noteq> 0" by blast
    then show ?thesis
    proof cases
      case more
      then have "loop receive wait os z alloc l hook r e2 w1 = Some res" using step rc(1) ok ps by simp
      then show ?thesis using ih law s2(3) more by blast
    next
      case complete
      then obtain n3 e3 where "end_receive z alloc l hook r e2 = Some (n3, e3)" "res = (n3, e3, w1)"
        using step rc(1) ok ps by (auto split: option.splits)
      then show ?thesis
        using end_receive_step [of z alloc l hook r e2 n3 e3] s2(4) ParseHttpBuffer_0 [of alloc l ?e1 r e2] ps complete
        by (simp add: reception_sound_def)
    next
      case bad
      then have "res = (n2, e2, w1)" using step rc(1) ok ps by simp
      then show ?thesis using bad s2 by (simp add: reception_sound_def)
    qed
  qed
qed

lemma receive_into_law:
  assumes "recv_law os" "writable (buffer_at l e r)"
  shows "\<exists>nret e' b' w'. ReceiveHttpBuffer os wait alloc e (buffer_at l e r) w = Some (nret, e', b', w')
           \<and> received_into l r e e' b'"
    "\<exists>nret e' b' w'. ReceiveHttpBuffer1 os wait alloc e (buffer_at l e r) w = Some (nret, e', b', w')
           \<and> received_into l r e e' b'"
  using ReceiveHttpBuffer_result [OF assms] unfolding received_into_def by metis+

lemma ReceiveHttpRequestNonblock_sound:
  assumes "recv_law os" "receiving l RequestBuffer e"
    and "ReceiveHttpRequestNonblock os z alloc l hook e w = Some (nret, e', w')"
  shows "reception_sound l RequestBuffer nret e'"
  using receive_loop_sound [OF assms(3) [unfolded ReceiveHttpRequestNonblock_def]] assms(2)
    receive_into_law(1) [OF assms(1), where l = l and r = RequestBuffer] by simp

section \<open>The byte behind a message\<close>

lemma write_at_NUL:
  assumes "p < length m" shows "write_at p [NUL] m = m[p := NUL]"
  using assms by (simp add: write_at_def upd_conv_take_nth_drop)

lemma end_receive_overwrites:
  assumes "r \<noteq> StatusCodeBuffer" "buffer_ok (buffer_at l e r)" "after_hook e = None"
    and "unprocessed (buffer_at l e r) = c # rest"
    and "QueryHttpHeaderPtr l (set_buffer r ((buffer_at l e r)\<lparr>base :=
           Some (write_at (process_ptr (buffer_at l e r)) [NUL] (area (buffer_at l e r)))\<rparr>) e) ''Content-Encoding'' = None"
  shows "\<exists>e'. end_receive z alloc l hook r e = Some (0, e') \<and> unprocessed (buffer_at l e' r) = NUL # rest
     \<and> headers e' = headers e \<and> buffer_ok (buffer_at l e' r)"
proof -
  let ?b = "buffer_at l e r"
  let ?p = "process_ptr ?b"
  let ?b' = "?b\<lparr>base := Some (write_at ?p [NUL] (area ?b))\<rparr>"
  let ?e' = "set_buffer r ?b' e"
  have lt: "?p < fill_ptr ?b" using unprocessed_nonempty [of ?b] assms(4) by simp
  then have p: "?p < length (area ?b)" using assms(2) by (auto simp: buffer_ok_def)
  have "unprocessed ?b' = drop ?p ((take (fill_ptr ?b) (area ?b))[?p := NUL])"
    by (simp add: unprocessed_def content_def write_at_NUL [OF p] take_update_swap)
  also have "\<dots> = NUL # drop (Suc ?p) (take (fill_ptr ?b) (area ?b))"
    using lt p by (simp add: drop_update_swap) (simp add: Cons_nth_drop_Suc [symmetric])
  also have "drop (Suc ?p) (take (fill_ptr ?b) (area ?b)) = tl (unprocessed ?b)"
    by (simp add: unprocessed_def content_def drop_Suc tl_drop)
  finally have "unprocessed ?b' = NUL # rest" using assms(4) by simp
  moreover have "end_receive z alloc l hook r e = Some (0, set_buffer r ?b' ?e')"
    using assms(1,3,5) by (simp add: end_receive_def then_ok_def UncompressHttpBody_def Let_def del: buffer_at.simps)
  moreover have "buffer_ok ?b'" using assms(2) p by (simp add: buffer_ok_def)
  ultimately show ?thesis using assms(1) by auto
qed

text \<open>A buffer that starts with a NUL and contains a blank before the next line end is refused: the
  method token is not one the parser knows.\<close>

lemma NUL_request_rejected:
  assumes "fresh_env e" "buffer_ok (request_buffer e)"
    and "unprocessed (request_buffer e) = NUL # u @ SP # rest" "SP \<notin> set u" "LF \<notin> set u"
  shows "fst (ParseHttpRequest alloc l e) = FASTERHTTP_ERROR_METHOD_INVALID"
proof -
  let ?b = "request_buffer e"
  let ?m = "area ?b" and ?p = "process_ptr (request_buffer e)"
  let ?e1 = "e\<lparr>parse_step := PARSESTEP_REQUESTSTARTLINE_METHOD0\<rparr>"
  let ?h = "(METHOD (headers e))\<lparr>p_buffer := Some RequestBuffer, value_offset := ?p\<rparr>"
  let ?e2 = "?e1\<lparr>headers := METHOD_update (\<lambda>h. h\<lparr>p_buffer := Some RequestBuffer, value_offset := ?p\<rparr>) (headers e),
     parse_step := PARSESTEP_REQUESTSTARTLINE_METHOD\<rparr>"
  have eq: "unprocessed ?b = (NUL # u @ [SP]) @ rest" using assms(3) by simp
  note t = unprocessed_text_at [OF assms(2) eq]
  have rd0: "rd ?m ?p = NUL" using text_at_ConsD(1) [of ?m ?p NUL "u @ [SP]"] t(1) by simp
  have "text_at ?m (Suc ?p) (u @ [SP])" using text_at_ConsD(2) [of ?m ?p NUL "u @ [SP]"] t(1) by simp
  then have tuc: "text_at ?m (Suc ?p) (u @ [SP])" and sp: "rd ?m (Suc ?p + length u) = SP"
    using text_at_append [of ?m "Suc ?p" u "[SP]"] text_at_char by auto
  have sc0: "scan (\<lambda>c. c \<noteq> SP) ?m (fill_ptr ?b) ?p = ?p" by (rule scan_here) (simp add: rd0)
  have fill: "Suc ?p + length u < fill_ptr ?b" using t(2) by simp
  have s1: "parse_switch alloc RequestBuffer ?e1 ?b ?p = Goto ?e2 ?b (?p + 1)"
    using rd0 sc0 fill by (simp add: parse_switch_def parse_METHOD0_def token_start_def Let_def)
  have sc1: "scan (\<lambda>c. c = SP \<or> c = LF) ?m (fill_ptr ?b) (Suc ?p) = Suc ?p + length u"
    by (rule scan_to [where c = SP]) (use tuc assms(4,5) fill in auto)
  have "text_at ?m ?p (NUL # u)" using t(1) text_at_append [of ?m ?p "NUL # u" "[SP]"] by simp
  then have sl: "slice ?p (Suc (length u)) ?m = NUL # u" by (simp add: text_at_def)
  have "\<exists>e3. parse_switch alloc RequestBuffer ?e2 ?b (?p + 1) = Return FASTERHTTP_ERROR_METHOD_INVALID e3 ?b"
    using sc1 fill sp sl
    by (simp add: parse_switch_def parse_METHOD_def token_body_def Let_def nat_add_distrib method_number_def)
  then have "fst (parse_loop alloc RequestBuffer ?e1 ?b ?p) = FASTERHTTP_ERROR_METHOD_INVALID"
    using parse_loop_goto [OF s1] parse_loop_return by fastforce
  moreover have "parse_step e = PARSESTEP_BEGIN" using assms(1) by (simp add: fresh_env_def)
  ultimately show ?thesis
    by (auto simp: ParseHttpRequest_def ParseHttpBuffer_def Let_def split: prod.splits)
qed

section \<open>A head cut behind its last \<open>\r\<close>\<close>

text \<open>When the received bytes end with the \<open>\r\<close> of the empty line, the parser asks for more without
  storing how far it came.  If the whole head came in one piece, \<open>process_ptr\<close> is still 0, and
  \<open>ReceiveHttpBuffer\<close> takes a buffer that starts with unprocessed bytes as already filled: it receives
  nothing.  The next pass reads the start line as a header line, which works out if it holds a colon.\<close>

definition cut_text :: bytes where
  "cut_text = ''GET a:b HTTP/1.1'' @ [CR, LF, CR]"

definition spinning :: "http_env \<Rightarrow> bool" where
  "spinning e \<longleftrightarrow> parse_step e = PARSESTEP_HEADER_NAME0 \<and> request_buffer e = received_buffer cut_text
     \<and> array_room (headers e) \<and> transfer_encoding__chunked (headers e) \<noteq> 1"

lemmas cut_simps = received_buffer_def cut_text_def area_def rd_def scan.simps Let_def

lemma cut_buffer: "fill_ptr (received_buffer cut_text) = 19" "process_ptr (received_buffer cut_text) = 0"
  by (simp_all add: received_buffer_def cut_text_def)

lemma cut_NAME0:
  assumes "array_room (headers e)" "parse_step e = PARSESTEP_HEADER_NAME0"
  shows "parse_switch alloc RequestBuffer e (received_buffer cut_text) 0 =
    Goto ((upd_cur_header (\<lambda>h. h\<lparr>p_buffer := Some RequestBuffer, name_offset := 0\<rparr>) e)
            \<lparr>parse_step := PARSESTEP_HEADER_NAME\<rparr>) (received_buffer cut_text) 1"
  using assms(2) by (simp add: parse_switch_def parse_NAME0_def cut_simps)

lemma cut_NAME:
  assumes "parse_step e = PARSESTEP_HEADER_NAME"
  shows "parse_switch alloc RequestBuffer e (received_buffer cut_text) 1 =
    Goto ((upd_cur_header (\<lambda>h. h\<lparr>name_len := 3 - int (name_offset h)\<rparr>) e)
            \<lparr>parse_step := PARSESTEP_HEADER_VALUE0\<rparr>) (received_buffer cut_text) 6"
  using assms by (simp add: parse_switch_def parse_NAME_def cut_simps)

lemma cut_VALUE0:
  assumes "parse_step e = PARSESTEP_HEADER_VALUE0"
  shows "parse_switch alloc RequestBuffer e (received_buffer cut_text) 6 =
    Goto ((upd_cur_header (\<lambda>h. h\<lparr>value_offset := 6\<rparr>) e)\<lparr>parse_step := PARSESTEP_HEADER_VALUE\<rparr>)
      (received_buffer cut_text) 7"
  using assms by (simp add: parse_switch_def parse_VALUE0_def cut_simps)

lemma cut_VALUE:
  assumes "parse_step e = PARSESTEP_HEADER_VALUE" "array_room (headers e)" "name_len (cur_header e) = 3"
    and "transfer_encoding__chunked (headers e) \<noteq> 1" "\<And>n. alloc n"
  shows "\<exists>e'. parse_switch alloc RequestBuffer e (received_buffer cut_text) 7 = Goto e' (received_buffer cut_text) 18
     \<and> parse_step e' = PARSESTEP_HEADER_NAME0 \<and> array_room (headers e')
     \<and> transfer_encoding__chunked (headers e') \<noteq> 1 \<and> request_buffer e' = request_buffer e"
proof -
  have sc: "scan (\<lambda>c. c = LF) (area (received_buffer cut_text)) 19 7 = 17" by (simp add: cut_simps)
  define e1 where "e1 = upd_cur_header (\<lambda>h. h\<lparr>value_len := int 17 - int (value_offset h)
      - int (trailing_blanks (area (received_buffer cut_text)) (17 - 1))\<rparr>) e"
  have lt: "header_array_count (headers e) < length (header_array (headers e))"
    using assms(2) by (simp add: array_room_def)
  have h1: "name_len (cur_header e1) = 3" "array_room (headers e1)" "transfer_encoding__chunked (headers e1) \<noteq> 1"
    "request_buffer e1 = request_buffer e"
    using assms lt by (simp_all add: e1_def upd_cur_header_def cur_header_def array_room_def)
  have step: "parse_switch alloc RequestBuffer e (received_buffer cut_text) 7
      = end_of_header alloc RequestBuffer e1 (received_buffer cut_text) 18"
    using assms(1) sc by (simp add: parse_switch_def parse_VALUE_def Let_def cut_buffer e1_def)
  have "known_header RequestBuffer m (cur_header e1) (headers e1) = headers e1" for m
    using h1(1) by (simp add: known_header_def header_name_is_def)
  then show ?thesis
    using h1 assms(5) unfolding step
    by (auto simp: end_of_header_def Let_def array_room_def)
qed

lemma cut_end:
  assumes "parse_step e = PARSESTEP_HEADER_NAME0"
  shows "parse_switch alloc RequestBuffer e (received_buffer cut_text) 18 =
    Return FASTERHTTP_INFO_NEED_MORE_HTTP_BUFFER e (received_buffer cut_text)"
  using assms by (simp add: parse_switch_def parse_NAME0_def cut_simps)

lemma spinning_parse:
  assumes "spinning e" "\<And>n. alloc n"
  shows "\<exists>e'. ParseHttpBuffer alloc l e RequestBuffer = (FASTERHTTP_INFO_NEED_MORE_HTTP_BUFFER, e') \<and> spinning e'"
proof -
  let ?b = "received_buffer cut_text"
  have s: "parse_step e = PARSESTEP_HEADER_NAME0" "request_buffer e = ?b" "array_room (headers e)"
    "transfer_encoding__chunked (headers e) \<noteq> 1" using assms(1) by (auto simp: spinning_def)
  have lt: "header_array_count (headers e) < length (header_array (headers e))"
    using s(3) by (simp add: array_room_def)
  define e1 where "e1 = (upd_cur_header (\<lambda>h. h\<lparr>p_buffer := Some RequestBuffer, name_offset := 0\<rparr>) e)
      \<lparr>parse_step := PARSESTEP_HEADER_NAME\<rparr>"
  define e2 where "e2 = (upd_cur_header (\<lambda>h. h\<lparr>name_len := 3 - int (name_offset h)\<rparr>) e1)
      \<lparr>parse_step := PARSESTEP_HEADER_VALUE0\<rparr>"
  define e3 where "e3 = (upd_cur_header (\<lambda>h. h\<lparr>value_offset := 6\<rparr>) e2)\<lparr>parse_step := PARSESTEP_HEADER_VALUE\<rparr>"
  have e3: "parse_step e3 = PARSESTEP_HEADER_VALUE" "array_room (headers e3)" "name_len (cur_header e3) = 3"
    "transfer_encoding__chunked (headers e3) \<noteq> 1"
    using s lt by (simp_all add: e3_def e2_def e1_def upd_cur_header_def cur_header_def array_room_def)
  obtain e4 where e4: "parse_switch alloc RequestBuffer e3 ?b 7 = Goto e4 ?b 18"
    "parse_step e4 = PARSESTEP_HEADER_NAME0" "array_room (headers e4)" "transfer_encoding__chunked (headers e4) \<noteq> 1"
    using cut_VALUE [where alloc = alloc, OF e3 assms(2)] by blast
  have "parse_loop alloc RequestBuffer e ?b 0 = parse_loop alloc RequestBuffer e1 ?b 1"
    unfolding e1_def by (rule parse_loop_goto [OF cut_NAME0 [OF s(3,1)]])
  also have "\<dots> = parse_loop alloc RequestBuffer e2 ?b 6"
    unfolding e2_def by (rule parse_loop_goto [OF cut_NAME]) (simp add: e1_def)
  also have "\<dots> = parse_loop alloc RequestBuffer e3 ?b 7"
    unfolding e3_def by (rule parse_loop_goto [OF cut_VALUE0]) (simp add: e2_def)
  also have "\<dots> = parse_loop alloc RequestBuffer e4 ?b 18" by (rule parse_loop_goto [OF e4(1)])
  also have "\<dots> = (FASTERHTTP_INFO_NEED_MORE_HTTP_BUFFER, e4, ?b)"
    by (rule parse_loop_return [OF cut_end [OF e4(2)]])
  finally have run: "parse_loop alloc RequestBuffer e ?b 0 = (FASTERHTTP_INFO_NEED_MORE_HTTP_BUFFER, e4, ?b)" .
  have "ParseHttpBuffer alloc l e RequestBuffer
      = (FASTERHTTP_INFO_NEED_MORE_HTTP_BUFFER, set_buffer RequestBuffer ?b e4)"
    using run s(1,2) cut_buffer(2) by (simp add: ParseHttpBuffer_def Let_def)
  moreover have "spinning (set_buffer RequestBuffer ?b e4)"
    using e4 by (simp add: spinning_def) (simp add: set_buffer_def)
  ultimately show ?thesis by blast
qed

text \<open>Whatever the network does, the driver does not return from such a state.\<close>

lemma spinning_reception:
  assumes "receive_loop receive wait os z alloc l hook r e w = Some res"
  shows "receive = ReceiveHttpBuffer \<longrightarrow> r = RequestBuffer \<longrightarrow> (\<forall>n. alloc n) \<longrightarrow> \<not> spinning e"
proof (rule receive_loop.raw_induct [OF _ assms], intro impI notI)
  fix loop receive wait os z alloc l hook r e w res
  assume ih: "\<And>receive wait os z alloc l hook r e w res. loop receive wait os z alloc l hook r e w = Some res \<Longrightarrow>
      receive = ReceiveHttpBuffer \<longrightarrow> r = RequestBuffer \<longrightarrow> (\<forall>n. alloc n) \<longrightarrow> \<not> spinning e"
    and step: "(case receive os wait alloc e (buffer_at l e r) w of
        None \<Rightarrow> None
      | Some (nret, e, b, w) \<Rightarrow>
          let e = set_buffer r b e in
          if nret \<noteq> 0 then Some (receive_failed r e nret, e, w)
          else
            let (nret, e) = ParseHttpBuffer alloc l e r in
            if nret = FASTERHTTP_INFO_NEED_MORE_HTTP_BUFFER then loop receive wait os z alloc l hook r e w
            else if nret \<noteq> 0 then Some (nret, e, w)
            else (case end_receive z alloc l hook r e of
                    None \<Rightarrow> None | Some (nret, e) \<Rightarrow> Some (nret, e, w))) = Some res"
    and cfg: "receive = ReceiveHttpBuffer" "r = RequestBuffer" "\<forall>n. alloc n" and spin: "spinning e"
  have b: "request_buffer e = received_buffer cut_text" using spin by (simp add: spinning_def)
  have "ReceiveHttpBuffer os wait alloc e (request_buffer e) w = Some (0, e, request_buffer e, w)"
    by (simp add: ReceiveHttpBuffer_def receive_some_def b cut_buffer)
  moreover have "set_buffer RequestBuffer (request_buffer e) e = e" by (simp add: set_buffer_def)
  moreover obtain e' where "ParseHttpBuffer alloc l e RequestBuffer = (FASTERHTTP_INFO_NEED_MORE_HTTP_BUFFER, e')"
    "spinning e'" using spinning_parse spin cfg(3) by blast
  ultimately have "loop receive wait os z alloc l hook r e' w = Some res" "spinning e'"
    using step cfg by (auto simp: Let_def)
  then show False using ih cfg by blast
qed

text \<open>The first pass over the cut head ends in such a state.\<close>

lemma cut_head_spins:
  "\<exists>e'. ParseHttpBuffer (\<lambda>_. True) l (received cut_text) RequestBuffer = (FASTERHTTP_INFO_NEED_MORE_HTTP_BUFFER, e')
     \<and> spinning e'"
proof -
  let ?b = "received_buffer cut_text" and ?e = "received cut_text"
  let ?e1 = "?e\<lparr>parse_step := PARSESTEP_REQUESTSTARTLINE_METHOD0\<rparr>"
  have fresh: "fresh_env ?e" by simp
  then have room: "array_room (headers ?e1)" "transfer_encoding__chunked (headers ?e1) = 0" "parse_step ?e = PARSESTEP_BEGIN"
    by (simp_all add: fresh_env_def)
  have t: "text_at (area ?b) 0 (start_text ''GET'' ''a:b'')"
    by (simp add: text_at_def start_text_def slice_def received_buffer_def cut_text_def area_def)
  have len: "length (start_text ''GET'' ''a:b'') = 18" by (simp add: start_text_def)
  let ?hs = "store_start RequestBuffer 0 ''GET'' ''a:b'' 1 (headers ?e1)"
  have "parse_loop (\<lambda>_. True) RequestBuffer ?e1 ?b 0
      = parse_loop (\<lambda>_. True) RequestBuffer (?e1\<lparr>headers := ?hs, parse_step := PARSESTEP_HEADER_NAME0\<rparr>) ?b 18"
    using parse_start_line [OF t, where k = 1 and e = ?e1 and r = RequestBuffer]
    by (simp add: method_number_def good_uri_def cut_buffer len)
  also have "\<dots> = (FASTERHTTP_INFO_NEED_MORE_HTTP_BUFFER, ?e1\<lparr>headers := ?hs, parse_step := PARSESTEP_HEADER_NAME0\<rparr>, ?b)"
    by (rule parse_loop_return [OF cut_end]) simp
  finally have run: "parse_loop (\<lambda>_. True) RequestBuffer ?e1 ?b 0
      = (FASTERHTTP_INFO_NEED_MORE_HTTP_BUFFER, ?e1\<lparr>headers := ?hs, parse_step := PARSESTEP_HEADER_NAME0\<rparr>, ?b)" .
  let ?e' = "set_buffer RequestBuffer ?b (?e1\<lparr>headers := ?hs, parse_step := PARSESTEP_HEADER_NAME0\<rparr>)"
  have "ParseHttpBuffer (\<lambda>_. True) l ?e RequestBuffer = (FASTERHTTP_INFO_NEED_MORE_HTTP_BUFFER, ?e')"
    using run room(3) cut_buffer(2) by (simp add: ParseHttpBuffer_def Let_def)
  moreover have "spinning ?e'"
    using room(1,2) by (simp add: spinning_def set_buffer_def store_start_def array_room_def)
  ultimately show ?thesis by blast
qed

lemma cut_head_reception:
  "ReceiveHttpRequestNonblock os z (\<lambda>_. True) l hook (received cut_text) w = None"
proof -
  obtain e' where p: "ParseHttpBuffer (\<lambda>_. True) l (received cut_text) RequestBuffer
      = (FASTERHTTP_INFO_NEED_MORE_HTTP_BUFFER, e')" "spinning e'" using cut_head_spins by blast
  have "receive_loop ReceiveHttpBuffer False os z (\<lambda>_. True) l hook RequestBuffer e' w = None"
    using spinning_reception [of ReceiveHttpBuffer False os z "\<lambda>_. True" l hook RequestBuffer e' w] p(2)
    by (cases "receive_loop ReceiveHttpBuffer False os z (\<lambda>_. True) l hook RequestBuffer e' w") auto
  moreover have "ReceiveHttpBuffer os False (\<lambda>_. True) (received cut_text) (received_buffer cut_text) w
      = Some (0, received cut_text, received_buffer cut_text, w)"
    by (simp add: ReceiveHttpBuffer_def receive_some_def cut_buffer)
  moreover have "set_buffer RequestBuffer (received_buffer cut_text) (received cut_text) = received cut_text"
    by (simp add: set_buffer_def received_eq)
  ultimately show ?thesis
    unfolding ReceiveHttpRequestNonblock_def by (subst receive_loop.simps) (simp add: p(1) Let_def)
qed

section \<open>The end of a decompressed body\<close>

text \<open>\<open>process_ptr\<close> still marks the end of the compressed body after decompression, so what follows it
  is now the end of the decompressed one.\<close>

lemma uncompressed_tail:
  assumes "writable b" "0 < content_length (headers e)" "\<And>n. alloc n" "inflate_init z w = (Z_OK, st)"
    and "inflate_loop z alloc st (slice (body_base_offset e) (nat (content_length (headers e))) (area b)) []
           (nat (content_length (headers e)) * 10) = Some (0, out, st')"
    and "inflate_end z st' = Z_OK"
    and "process_ptr b = body_base_offset e + nat (content_length (headers e))"
  shows "\<exists>e' b'. UncompressBuffer z alloc e b w = Some (0, e', b')
     \<and> unprocessed b' = drop (nat (content_length (headers e))) out"
proof -
  have p: "process_ptr b \<le> fill_ptr b" "buffer_ok b" using assms(1) by (simp_all add: writable_def buffer_ok_def)
  then have off: "body_base_offset e \<le> fill_ptr b" using assms(7) by simp
  obtain b' where u: "UncompressBuffer z alloc e b w
        = Some (0, e\<lparr>headers := (headers e)\<lparr>content_length := int (length out)\<rparr>\<rparr>, b')"
    "content b' = take (body_base_offset e) (content b) @ out" "process_ptr b' = process_ptr b"
    using UncompressBuffer_result [OF assms(1-6) off] by blast
  have "unprocessed b' = drop (nat (content_length (headers e))) out"
    using u(2,3) assms(7) off p(2) by (simp add: unprocessed_def)
  then show ?thesis using u(1) by blast
qed

text \<open>The size line of a chunk is read with base ten: any size of two or more digits with a first digit
  other than 0 comes out too small.\<close>

definition hex_value :: "char \<Rightarrow> int option" where
  "hex_value c = (let v = char_int c in
     if 48 \<le> v \<and> v \<le> 57 then Some (v - 48) else if 97 \<le> v \<and> v \<le> 102 then Some (v - 87)
     else if 65 \<le> v \<and> v \<le> 70 then Some (v - 55) else None)"

definition hex_fold :: "int \<Rightarrow> int \<Rightarrow> bytes \<Rightarrow> int" where
  "hex_fold radix n s = foldl (\<lambda>n c. n * radix + the (hex_value c)) n s"

lemma chunk_digit_hex: "hex_value c \<noteq> None \<Longrightarrow> chunk_digit n c = n * 10 + the (hex_value c)"
  by (auto simp: hex_value_def chunk_digit_def Let_def split: if_splits)

lemma hex_value_nonneg: "hex_value c = Some v \<Longrightarrow> 0 \<le> v"
  by (auto simp: hex_value_def Let_def split: if_splits)

lemma hex_fold_less:
  assumes "\<forall>c \<in> set s. hex_value c \<noteq> None" "0 < m" "m \<le> n" "m < n \<or> s \<noteq> []"
  shows "hex_fold 10 m s < hex_fold 16 n s"
  using assms
proof (induction s arbitrary: m n)
  case (Cons c s)
  obtain v where v: "hex_value c = Some v" "0 \<le> v" using Cons.prems(1) hex_value_nonneg by auto
  have "m * 10 + v < n * 16 + v" using Cons.prems(2,3) by simp
  then show ?case
    using Cons.IH [of "m * 10 + v" "n * 16 + v"] Cons.prems(1,2) v by (simp add: hex_fold_def)
qed (simp add: hex_fold_def)

lemma foldl_chunk_digit:
  "\<forall>c \<in> set s. hex_value c \<noteq> None \<Longrightarrow> foldl chunk_digit n s = hex_fold 10 n s"
  by (induction s arbitrary: n) (simp_all add: hex_fold_def chunk_digit_hex)

lemma hex_size_misread:
  assumes "\<forall>d \<in> set (c # ds). hex_value d \<noteq> None" "hex_value c \<noteq> Some 0" "ds \<noteq> []"
  shows "foldl chunk_digit 0 (c # ds) < hex_fold 16 0 (c # ds)"
proof -
  obtain v where v: "hex_value c = Some v" using assms(1) by auto
  then have "0 < v" using hex_value_nonneg [OF v] assms(2) by (cases "v = 0") auto
  then have "hex_fold 10 v ds < hex_fold 16 v ds" using hex_fold_less assms(1,3) by simp
  moreover have "foldl chunk_digit 0 (c # ds) = hex_fold 10 0 (c # ds)"
    using foldl_chunk_digit assms(1) by blast
  ultimately show ?thesis using v by (simp add: hex_fold_def)
qed

section \<open>Concrete environments\<close>

text \<open>An operating system whose \<open>send\<close> takes at most four bytes at a time, over the bytes sent so far,
  and from whose sockets nothing can be received; a zlib that stores its input.\<close>

definition pipe_os :: "bytes os" where
  "pipe_os = \<lparr>os_time = (\<lambda>w. (\<lparr>tv_sec = 0, tv_usec = 0\<rparr>, w)), os_select = (\<lambda>_ w. (1, w)),
     os_recv = (\<lambda>_ w. (Recv_failed EAGAIN, w)),
     os_send = (\<lambda>bs w. (Sent (min 4 (length bs)), w @ take 4 bs))\<rparr>"

definition stored_zlib :: "unit zlib" where
  "stored_zlib = \<lparr>deflate_init = (\<lambda>_. Z_OK), deflate_bound = (\<lambda>n. n),
     deflate_all = (\<lambda>_ s _. (Z_STREAM_END, s)), deflate_end = (\<lambda>_ _. Z_OK), inflate_init = (\<lambda>_. (Z_OK, ())),
     inflate_some = (\<lambda>_ s _. (Z_STREAM_END, length s, s @ s, ())), inflate_end = (\<lambda>_. Z_OK)\<rparr>"

lemma pipe_os_laws: "send_law pipe_os (\<lambda>w. w)" "taking pipe_os" "recv_law pipe_os"
  by (auto simp: pipe_os_def send_law_def taking_def recv_law_def min_def)

definition answering :: http_env where
  "answering = plain_env\<lparr>response_buffer := received_buffer ''HTTP/1.1 200 OK'',
     p_append_buffer := Some (received_buffer ''body'')\<rparr>"

lemma answering_sendable: "sendable l ResponseBuffer answering"
  "pending_bytes l ResponseBuffer answering = ''HTTP/1.1 200 OKbody''"
  by (simp_all add: sendable_def answering_def pending_bytes_def)

lemma created_receiving:
  assumes "CreateHttpEnv node alloc l = (Some e, l')" shows "receiving l' RequestBuffer e"
proof -
  have "after_hook e = None"
    using assms by (auto simp: CreateHttpEnv_def Let_def SetHttpTimeout_def ResetHttpTimeout_def zero_env_def
        split: if_splits prod.splits)
  then show ?thesis
    using created_parser_ready [OF assms, of RequestBuffer] CreateHttpEnv_made(2) [OF assms]
    by (simp add: receiving_def)
qed

text \<open>A complete message with one byte of the next one behind it.\<close>

definition followed :: http_env where
  "followed = plain_env\<lparr>request_buffer := (received_buffer ''xyG'')\<lparr>process_ptr := 2\<rparr>\<rparr>"

lemma no_header_found:
  assumes "\<forall>i < header_array_size (headers e). p_buffer (header_array (headers e) ! i) = None"
  shows "QueryHttpHeaderPtr l e name = None"
proof -
  have "QueryHttpHeader l e name = None"
    unfolding QueryHttpHeader_def find_None_iff using assms by (auto simp: header_named_def)
  then show ?thesis by (simp add: QueryHttpHeaderPtr_def)
qed

lemma followed_facts: "buffer_ok (request_buffer followed)" "after_hook followed = None"
  "unprocessed (request_buffer followed) = ''G''"
  "QueryHttpHeaderPtr l (set_buffer RequestBuffer b followed) name = None"
proof -
  show "QueryHttpHeaderPtr l (set_buffer RequestBuffer b followed) name = None"
    by (rule no_header_found) (simp add: followed_def plain_env_def zero_env_def zero_headers_def zero_header_def set_buffer_def)
qed (simp_all add: followed_def received_buffer_def buffer_ok_def area_def unprocessed_def content_def
      plain_env_def zero_env_def)

definition compressed_body :: http_env where
  "compressed_body = plain_env\<lparr>headers := zero_headers\<lparr>content_length := 3\<rparr>, body_base_offset := 1\<rparr>"

text \<open>A message to compress, in a buffer with room for the longer one.\<close>

definition plain_message :: http_buffer where
  "plain_message = \<lparr>buf_size = 200,
     base = Some ((''A'' @ [CR, LF] @ ''Content-Length: 1'' @ [CR, LF, CR, LF] @ ''x'') @ replicate 175 NUL),
     ref_flag = False, fill_ptr = 25, process_ptr = 0\<rparr>"

lemma plain_message_facts:
  "writable plain_message" "process_ptr plain_message = 0"
  "find_content_length plain_message = Some (3, 22, 22)" "22 + 2 \<le> fill_ptr plain_message"
  "content plain_message = ''A'' @ [CR, LF] @ ''Content-Length: 1'' @ [CR, LF, CR, LF] @ ''x''"
  "slice (22 + 2) (fill_ptr plain_message - (22 + 2)) (area plain_message) = ''x''"
  "buf_size plain_message = 200"
  by code_simp+

text \<open>A reception from a socket that has nothing to deliver.\<close>

lemma idle_reception:
  assumes "CreateHttpEnv True (\<lambda>_. True) http_lib_init = (Some e, l')"
  shows "\<exists>e' w'. ReceiveHttpRequestNonblock pipe_os z (\<lambda>_. True) l' hook e w
           = Some (FASTERHTTP_INFO_NEED_MORE_HTTP_BUFFER, e', w')"
proof -
  note m = CreateHttpEnv_made [OF assms]
  have "fill_ptr (request_buffer e) = 0" "int (fill_ptr (request_buffer e)) + 1 \<le> buf_size (request_buffer e) - 1"
    using assms by (auto simp: CreateHttpEnv_def Let_def SetHttpTimeout_def ResetHttpTimeout_def InitHttpBuffer_def
        zero_env_def split: if_splits prod.splits)
  then have g: "grow_to (\<lambda>_. True) (int (fill_ptr (request_buffer e)) + 1) (request_buffer e) = Some (0, request_buffer e)"
    by (subst grow_to.simps) simp
  have "ReceiveHttpBuffer pipe_os False (\<lambda>_. True) e (request_buffer e) w
      = Some (FASTERHTTP_INFO_NEED_MORE_HTTP_BUFFER, e, request_buffer e, w)"
    using m(5) \<open>fill_ptr (request_buffer e) = 0\<close> g
    by (simp add: ReceiveHttpBuffer_def receive_some_def clock_def wait_ready_def pipe_os_def split_beta)
  then show ?thesis
    unfolding ReceiveHttpRequestNonblock_def by (subst receive_loop.simps) (simp add: Let_def receive_failed_def)
qed

text \<open>What the parser computes from a size line of hexadecimal digits.\<close>

lemma hex_size_line:
  assumes "text_at m p (s @ [CR, LF])" "p + length s + 2 \<le> fill" "chunked_length e = 0"
    and "\<forall>d \<in> set s. hex_value d \<noteq> None"
  shows "chunked_length (fst (chunk_size_scan m fill e p)) = foldl chunk_digit 0 s"
proof -
  have t: "text_at m p ((s @ [CR]) @ [LF])" using assms(1) by simp
  have "hex_value LF = None" by (simp add: hex_value_def char_int_def Let_def)
  then have lf: "LF \<notin> set (s @ [CR])" using assms(4) by auto
  have "rd m (p + length (s @ [CR])) = LF"
    using text_at_char [OF text_at_appendD(2) [OF t]] by simp
  then have "chunk_size_scan m fill e' (p + length (s @ [CR])) = (e', p + length (s @ [CR]))" for e'
    by (subst chunk_size_scan.simps) simp
  then show ?thesis
    using chunk_size_scan_text [OF text_at_appendD(1) [OF t] lf, of fill e] assms(2,3) by simp
qed

end
