(* ===== verification/RbTreeCorrect.thy ===== *)
theory RbTreeCorrect
  imports RbTree
begin

text \<open>
  Correctness of the red-black trees: the traversal lists of insertion and erasure, the red-black
  invariant, under which neither follows a null pointer, and the successor function.
\<close>

section \<open>The traversal list\<close>

fun inorder :: "'a rb_tree \<Rightarrow> 'a list" where
  "inorder RB_NULL = []"
| "inorder (RB_NODE c l x r) = inorder l @ x # inorder r"

fun before :: "'a above list \<Rightarrow> 'a list" where
  "before [] = []"
| "before (Left c x r # path) = before path"
| "before (Right c l x # path) = before path @ inorder l @ [x]"

fun after :: "'a above list \<Rightarrow> 'a list" where
  "after [] = []"
| "after (Left c x r # path) = x # inorder r @ after path"
| "after (Right c l x # path) = after path"

lemma rb_root_simps [simp]: "rb_root t [] = t" "rb_root t (a # path) = rb_root (rb_up t a) path"
  by (simp_all add: rb_root_def)

lemma inorder_up: "before (a # path) @ inorder t @ after (a # path) = before path @ inorder (rb_up t a) @ after path"
  by (cases a) simp_all

lemma inorder_root: "inorder (rb_root t path) = before path @ inorder t @ after path"
proof (induction path arbitrary: t)
  case (Cons a path)
  then show ?case using inorder_up [of a path t] by simp
qed simp

lemma before_append: "before (p @ q) = before q @ before p"
  by (induction p rule: before.induct) simp_all

lemma after_append: "after (p @ q) = after p @ after q"
  by (induction p rule: after.induct) simp_all

lemma set_colour_inorder: "set_colour c t = Some t' \<Longrightarrow> inorder t' = inorder t"
  by (cases t) auto

lemma rotate_left_inorder: "rb_rotate_left t = Some t' \<Longrightarrow> inorder t' = inorder t"
  by (cases t rule: rb_rotate_left.cases) auto

lemma rotate_right_inorder: "rb_rotate_right t = Some t' \<Longrightarrow> inorder t' = inorder t"
  by (cases t rule: rb_rotate_right.cases) auto

lemmas inorder_kept = set_colour_inorder rotate_left_inorder rotate_right_inorder

lemma insert_color_pass_inorder:
  "insert_color_pass t p g path = Some (Inl t') \<Longrightarrow>
     before path @ inorder t' @ after path = before (p # g # path) @ inorder t @ after (p # g # path)"
  "insert_color_pass t p g path = Some (Inr t') \<Longrightarrow> inorder t' = before (p # g # path) @ inorder t @ after (p # g # path)"
  by (auto simp: insert_color_pass_def bind_eq_Some_conv inorder_root dest!: inorder_kept split: above.splits if_splits)

lemma insert_color_inorder:
  "rb_insert_color t path = Some t' \<Longrightarrow> inorder t' = before path @ inorder t @ after path"
proof (induction t path rule: rb_insert_color.induct)
  case (2 t p path)
  show ?case
  proof (cases "above_colour p = RB_BLACK")
    case True
    then show ?thesis using 2(2) inorder_up [of p path t] by (auto simp: inorder_root dest: set_colour_inorder)
  next
    case False
    then obtain g path' res where g: "path = g # path'" "insert_color_pass t p g path' = Some res"
      using 2(2) by (auto split: list.splits option.splits)
    show ?thesis
    proof (cases res)
      case (Inl t1)
      then have "rb_insert_color t1 path' = Some t'" using 2(2) g False by simp
      then show ?thesis using 2(1) [OF False g Inl] insert_color_pass_inorder(1) g Inl by auto
    next
      case (Inr t1)
      then show ?thesis using 2(2) g False insert_color_pass_inorder(2) by auto
    qed
  qed
qed (auto dest: set_colour_inorder)

lemma sibling_inorder:
  "black_sibling_right t pc p other path = Some (Inl (t', path')) \<Longrightarrow>
     before path' @ inorder t' @ after path' = before path @ inorder t @ p # inorder other @ after path"
  "black_sibling_right t pc p other path = Some (Inr t'') \<Longrightarrow>
     inorder t'' = before path @ inorder t @ p # inorder other @ after path"
  "black_sibling_left t pc p other path = Some (Inl (t', path')) \<Longrightarrow>
     before path' @ inorder t' @ after path' = before path @ inorder other @ p # inorder t @ after path"
  "black_sibling_left t pc p other path = Some (Inr t'') \<Longrightarrow>
     inorder t'' = before path @ inorder other @ p # inorder t @ after path"
  by (cases other; cases "rb_left other"; cases "rb_right other";
      auto simp: black_sibling_right_def black_sibling_left_def bind_eq_Some_conv inorder_root
      dest!: set_colour_inorder split: if_splits)+

lemma erase_color_pass_inorder:
  "erase_color_pass t a path = Some (Inl (t', path')) \<Longrightarrow>
     before path' @ inorder t' @ after path' = before (a # path) @ inorder t @ after (a # path)"
  "erase_color_pass t a path = Some (Inr t'') \<Longrightarrow> inorder t'' = before (a # path) @ inorder t @ after (a # path)"
  by (auto simp: erase_color_pass_def dest!: sibling_inorder split: above.splits rb_tree.splits colour.splits)

lemma rb_erase_color_step:
  "null_or_black t \<Longrightarrow> rb_erase_color t (a # path) =
     (case erase_color_pass t a path of
        None \<Rightarrow> None
      | Some (Inl (t, path)) \<Rightarrow> rb_erase_color t path
      | Some (Inr root) \<Rightarrow> Some root)"
  by (subst rb_erase_color.simps) simp

lemma rb_erase_color_red: "rb_erase_color (RB_NODE RB_RED l x r) path = Some (rb_root (RB_NODE RB_BLACK l x r) path)"
  by (subst rb_erase_color.simps) simp

lemma rb_erase_color_top: "null_or_black t \<Longrightarrow> rb_erase_color t [] = Some t"
  by (subst rb_erase_color.simps) (cases t; simp)

lemma erase_color_inorder:
  "rb_erase_color t path = Some t' \<Longrightarrow> inorder t' = before path @ inorder t @ after path"
proof (induction t path rule: rb_erase_color.induct)
  case (1 t path)
  consider (red) l x r where "t = RB_NODE RB_RED l x r" | (top) "null_or_black t" "path = []"
    | (pass) a q where "null_or_black t" "path = a # q"
    by (metis colour.exhaust list.exhaust null_or_black.elims(3))
  then show ?case
  proof cases
    case red
    then show ?thesis using 1(2) by (auto simp: rb_erase_color_red inorder_root)
  next
    case top
    then show ?thesis using 1(2) by (simp add: rb_erase_color_top)
  next
    case pass
    obtain res where res: "erase_color_pass t a q = Some res"
      using 1(2) pass by (auto simp: rb_erase_color_step split: option.splits)
    show ?thesis
    proof (cases res)
      case (Inl p)
      obtain t1 q1 where p: "p = (t1, q1)" by fastforce
      then have e: "rb_erase_color t1 q1 = Some t'" using 1(2) pass res Inl by (simp add: rb_erase_color_step)
      have "inorder t' = before q1 @ inorder t1 @ after q1"
        by (rule 1(1) [OF _ _ Inl _ e]) (use pass res p in simp_all)
      then show ?thesis
        using erase_color_pass_inorder(1) [of t a q t1 q1] res unfolding Inl p pass(2) by simp
    next
      case (Inr t1)
      then show ?thesis using 1(2) pass res erase_color_pass_inorder(2) by (auto simp: rb_erase_color_step)
    qed
  qed
qed

lemma leftmost_inorder:
  "leftmost c l x r path = (c', s, sr, path') \<Longrightarrow>
     inorder (RB_NODE c l x r) @ after path = s # inorder sr @ after path' \<and> before path' = before path"
  by (induction c l x r path rule: leftmost.induct) auto

lemma erase_at_inorder:
  assumes "rb_erase_at c l x r path = Some t'"
  shows "inorder t' = before path @ inorder l @ inorder r @ after path"
proof (cases "l = RB_NULL \<or> r = RB_NULL")
  case True
  then show ?thesis
    using assms by (cases l; cases r) (auto simp: rb_erase_at_def inorder_root dest: erase_color_inorder split: if_splits)
next
  case False
  then obtain rc rl rx rr where r: "r = RB_NODE rc rl rx rr" by (cases r) auto
  obtain sc s sr below where lm: "leftmost rc rl rx rr [] = (sc, s, sr, below)" by (metis prod_cases4)
  have "inorder t' = before (below @ Right c l s # path) @ inorder sr @ after (below @ Right c l s # path)"
    using assms False r lm
    by (cases l) (auto simp: rb_erase_at_def inorder_root dest: erase_color_inorder split: if_splits)
  then show ?thesis using leftmost_inorder [OF lm] by (simp add: r before_append after_append)
qed

lemma rb_find_root:
  "rb_find x t path = Some (c, l, r, path') \<Longrightarrow> rb_root (RB_NODE c l x r) path' = rb_root t path"
  by (induction t arbitrary: path) (auto split: if_splits option.splits)

lemma rb_find_None: "rb_find x t path = None \<longleftrightarrow> x \<notin> set (inorder t)"
proof (induction t arbitrary: path)
  case (RB_NODE c l y r)
  then show ?case by (cases "rb_find x l (Left c y r # path)") (auto, (metis option.distinct(1))+)
qed simp

lemma rb_erase_inorder:
  assumes "rb_erase x t = Some t'" "distinct (inorder t)" shows "inorder t' = remove1 x (inorder t)"
proof -
  obtain c l r path where f: "rb_find x t [] = Some (c, l, r, path)" "rb_erase_at c l x r path = Some t'"
    using assms(1) by (auto simp: rb_erase_def bind_eq_Some_conv)
  have "inorder t = before path @ inorder (RB_NODE c l x r) @ after path"
    using rb_find_root [OF f(1)] inorder_root by (metis rb_root_simps(1))
  then show ?thesis using erase_at_inorder [OF f(2)] assms(2) by (simp add: remove1_append)
qed

section \<open>The red-black invariant\<close>

fun black_height :: "'a rb_tree \<Rightarrow> nat" where
  "black_height RB_NULL = 0"
| "black_height (RB_NODE c l x r) = black_height l + (if c = RB_BLACK then 1 else 0)"

text \<open>A tree that may have a red root, and whose children then are black.\<close>

fun sub_ok :: "'a rb_tree \<Rightarrow> bool" where
  "sub_ok RB_NULL = True"
| "sub_ok (RB_NODE c l x r) \<longleftrightarrow> sub_ok l \<and> sub_ok r \<and> black_height l = black_height r
     \<and> (c = RB_RED \<longrightarrow> null_or_black l \<and> null_or_black r)"

definition rb_ok :: "'a rb_tree \<Rightarrow> bool" where
  "rb_ok t \<longleftrightarrow> sub_ok t \<and> null_or_black t"

text \<open>A path below which a subtree of black height \<open>n\<close> fits.\<close>

fun above_black :: "'a above list \<Rightarrow> bool" where
  "above_black [] = False"
| "above_black (a # path) \<longleftrightarrow> above_colour a = RB_BLACK"

fun path_ok :: "nat \<Rightarrow> 'a above list \<Rightarrow> bool" where
  "path_ok n [] = True"
| "path_ok n (Left c x r # path) \<longleftrightarrow> sub_ok r \<and> black_height r = n \<and> (c = RB_RED \<longrightarrow> null_or_black r \<and> above_black path)
     \<and> path_ok (n + (if c = RB_BLACK then 1 else 0)) path"
| "path_ok n (Right c l x # path) \<longleftrightarrow> sub_ok l \<and> black_height l = n \<and> (c = RB_RED \<longrightarrow> null_or_black l \<and> above_black path)
     \<and> path_ok (n + (if c = RB_BLACK then 1 else 0)) path"

lemma red_colour: "c \<noteq> RB_BLACK \<longleftrightarrow> c = RB_RED" "c \<noteq> RB_RED \<longleftrightarrow> c = RB_BLACK"
  by (cases c; simp)+

lemma above_cases [case_names Left Right]:
  assumes "\<And>c x r. a = Left c x r \<Longrightarrow> P" "\<And>c l x. a = Right c l x \<Longrightarrow> P" shows P
  using assms by (cases a)

lemma rb_ok_root:
  "rb_ok (rb_root t path) \<longleftrightarrow> sub_ok t \<and> path_ok (black_height t) path \<and> (null_or_black t \<or> above_black path)"
proof (induction path arbitrary: t)
  case (Cons a path)
  show ?case unfolding rb_root_simps Cons.IH by (cases a; cases "above_colour a") auto
qed (auto simp: rb_ok_def)

lemma red_node: "\<not> null_or_black t \<Longrightarrow> \<exists>l x r. t = RB_NODE RB_RED l x r"
  by (cases t) (auto simp: red_colour)

lemma root_not_null: "t \<noteq> RB_NULL \<Longrightarrow> rb_root t path \<noteq> RB_NULL"
proof (induction path arbitrary: t)
  case (Cons a path)
  show ?case using Cons.IH [of "rb_up t a"] by (cases a) auto
qed simp

lemma black_root: "rb_ok t \<Longrightarrow> t \<noteq> RB_NULL \<Longrightarrow> set_colour RB_BLACK t = Some t"
  by (cases t) (auto simp: rb_ok_def)

text \<open>The loops end with a black node put in place, after which the root is coloured black.\<close>

lemma loop_left:
  assumes "sub_ok (RB_NODE RB_BLACK l x r)" "path_ok (Suc (black_height l)) path"
  shows "rb_ok (rb_root (RB_NODE RB_BLACK l x r) path)"
    "set_colour RB_BLACK (rb_root (RB_NODE RB_BLACK l x r) path) = Some (rb_root (RB_NODE RB_BLACK l x r) path)"
proof -
  show "rb_ok (rb_root (RB_NODE RB_BLACK l x r) path)" unfolding rb_ok_root using assms by simp
  then show "set_colour RB_BLACK (rb_root (RB_NODE RB_BLACK l x r) path) = Some (rb_root (RB_NODE RB_BLACK l x r) path)"
    by (rule black_root) (rule root_not_null, simp)
qed

subsection \<open>Insertion\<close>

lemma insert_pass_ok:
  assumes "sub_ok (RB_NODE RB_RED ll xx rr)" "path_ok (black_height ll) (p # g # path)" "above_colour p = RB_RED"
  shows "\<exists>res. insert_color_pass (RB_NODE RB_RED ll xx rr) p g path = Some res
     \<and> (case res of Inl t' \<Rightarrow> sub_ok t' \<and> \<not> null_or_black t' \<and> path_ok (black_height t') path | Inr root \<Rightarrow> rb_ok root)"
proof (cases g)
  case (Left gc gx uncle)
  then show ?thesis
    using assms by (cases p; cases uncle) (auto simp: insert_color_pass_def loop_left)
next
  case (Right gc uncle gx)
  then show ?thesis
    using assms by (cases p; cases uncle) (auto simp: insert_color_pass_def loop_left)
qed

lemma insert_color_ok:
  assumes "sub_ok t" "\<not> null_or_black t" "path_ok (black_height t) path"
  shows "\<exists>t'. rb_insert_color t path = Some t' \<and> rb_ok t'"
  using assms
proof (induction t path rule: rb_insert_color.induct)
  case (1 t)
  then show ?case by (cases t) (auto simp: rb_ok_def)
next
  case (2 t p path)
  obtain ll xx rr where t: "t = RB_NODE RB_RED ll xx rr" using red_node [OF 2(3)] by blast
  show ?case
  proof (cases "above_colour p = RB_BLACK")
    case True
    have "rb_ok (rb_root t (p # path))" unfolding rb_ok_root using 2(2-4) True by simp
    moreover have "rb_root t (p # path) \<noteq> RB_NULL" by (rule root_not_null) (simp add: t)
    ultimately show ?thesis using black_root True by auto
  next
    case False
    then have red: "above_colour p = RB_RED" by (simp add: red_colour)
    then have "above_black path" using 2(4) by (cases p) auto
    then obtain g q where path: "path = g # q" "above_colour g = RB_BLACK" by (cases path) auto
    obtain res where res: "insert_color_pass t p g q = Some res"
      "case res of Inl t' \<Rightarrow> sub_ok t' \<and> \<not> null_or_black t' \<and> path_ok (black_height t') q | Inr root \<Rightarrow> rb_ok root"
      using insert_pass_ok [of ll xx rr p g q] 2(2,4) red t path by auto
    show ?thesis
    proof (cases res)
      case (Inl t1)
      then have "\<exists>t'. rb_insert_color t1 q = Some t' \<and> rb_ok t'" using 2(1) [OF False path(1) res(1)] res(2) by simp
      then show ?thesis using path(1) res(1) False Inl by simp
    qed (use path(1) res False in simp)
  qed
qed

subsection \<open>Erasure\<close>

text \<open>A tree in which only the colours of the root and its children may clash.\<close>

fun almost_ok :: "'a rb_tree \<Rightarrow> bool" where
  "almost_ok RB_NULL = True"
| "almost_ok (RB_NODE c l x r) \<longleftrightarrow> sub_ok l \<and> sub_ok r \<and> black_height l = black_height r"

lemma almost_black: "almost_ok t \<Longrightarrow> null_or_black t \<Longrightarrow> sub_ok t"
  by (cases t) auto

lemma loop_left_any:
  assumes "sub_ok (RB_NODE c l x r)" "path_ok (black_height (RB_NODE c l x r)) path" "c = RB_BLACK \<or> above_black path"
  shows "rb_ok (rb_root (RB_NODE c l x r) path)"
    "set_colour RB_BLACK (rb_root (RB_NODE c l x r) path) = Some (rb_root (RB_NODE c l x r) path)"
proof -
  show "rb_ok (rb_root (RB_NODE c l x r) path)" unfolding rb_ok_root using assms by simp
  then show "set_colour RB_BLACK (rb_root (RB_NODE c l x r) path) = Some (rb_root (RB_NODE c l x r) path)"
    by (rule black_root) (rule root_not_null, simp)
qed

definition pass_ok :: "('a rb_tree \<times> 'a above list + 'a rb_tree) option \<Rightarrow> bool" where
  "pass_ok res \<longleftrightarrow>
     (case res of
        None \<Rightarrow> False
      | Some (Inl (t, path)) \<Rightarrow> almost_ok t \<and> path_ok (Suc (black_height t)) path
      | Some (Inr root) \<Rightarrow> rb_ok root)"

lemma pass_ok_simps [simp]:
  "pass_ok (Some (Inl (t, path))) \<longleftrightarrow> almost_ok t \<and> path_ok (Suc (black_height t)) path"
  "pass_ok (Some (Inr root)) \<longleftrightarrow> rb_ok root"
  by (simp_all add: pass_ok_def)

lemma pass_left:
  assumes "path_ok n path" "sub_ok (RB_NODE c l x r)" "c = RB_BLACK \<or> above_black path"
    and "n = black_height (RB_NODE c l x r)"
  shows "pass_ok (do { root \<leftarrow> set_colour RB_BLACK (rb_root (RB_NODE c l x r) path); Some (Inr root) })"
  using loop_left_any [OF assms(2) _ assms(3)] assms(1,4) by simp

lemma black_sibling_ok:
  assumes "sub_ok t" "null_or_black t" "sub_ok other" "null_or_black other" "black_height other = Suc (black_height t)"
    and "path_ok (black_height other + (if pc = RB_BLACK then 1 else 0)) path" "pc = RB_BLACK \<or> above_black path"
  shows "pass_ok (black_sibling_right t pc p other path)" "pass_ok (black_sibling_left t pc p other path)"
proof -
  obtain ol ox orr where other: "other = RB_NODE RB_BLACK ol ox orr" using assms(4,5) by (cases other) auto
  note p = pass_left [OF assms(6)]
  consider "null_or_black ol" "null_or_black orr"
    | a x b where "null_or_black orr" "ol = RB_NODE RB_RED a x b"
    | a x b where "null_or_black ol" "orr = RB_NODE RB_RED a x b"
    | a x b a' x' b' where "ol = RB_NODE RB_RED a x b" "orr = RB_NODE RB_RED a' x' b'"
    using red_node by metis
  note cs = this
  show "pass_ok (black_sibling_right t pc p other path)"
    using assms unfolding other
    by (cases rule: cs; cases pc) (auto simp: black_sibling_right_def other intro!: p)
  show "pass_ok (black_sibling_left t pc p other path)"
    using assms unfolding other
    by (cases rule: cs; cases pc) (auto simp: black_sibling_left_def other intro!: p)
qed

lemma erase_color_pass_ok:
  assumes "sub_ok t" "null_or_black t" "path_ok (Suc (black_height t)) (a # path)"
  shows "pass_ok (erase_color_pass t a path)"
proof (cases a)
  case (Left pc p other)
  note s = black_sibling_ok(1) [OF assms(1,2)]
  show ?thesis
  proof (cases "null_or_black other")
    case True
    then show ?thesis
      using assms(3) s [of other pc path p] unfolding Left
      by (auto simp: erase_color_pass_def red_colour split: rb_tree.split colour.split)
  next
    case False
    then obtain ol ox orr where "other = RB_NODE RB_RED ol ox orr" using red_node by blast
    then show ?thesis
      using assms(3) s [of ol RB_RED "Left RB_BLACK ox orr # path" p] unfolding Left
      by (cases pc) (auto simp: erase_color_pass_def)
  qed
next
  case (Right pc other p)
  note s = black_sibling_ok(2) [OF assms(1,2)]
  show ?thesis
  proof (cases "null_or_black other")
    case True
    then show ?thesis
      using assms(3) s [of other pc path p] unfolding Right
      by (auto simp: erase_color_pass_def red_colour split: rb_tree.split colour.split)
  next
    case False
    then obtain ol ox orr where "other = RB_NODE RB_RED ol ox orr" using red_node by blast
    then show ?thesis
      using assms(3) s [of orr RB_RED "Right RB_BLACK ol ox # path" p] unfolding Right
      by (cases pc) (auto simp: erase_color_pass_def)
  qed
qed

lemma erase_color_ok:
  assumes "almost_ok t" "path_ok (Suc (black_height t)) path"
  shows "\<exists>t'. rb_erase_color t path = Some t' \<and> rb_ok t'"
  using assms
proof (induction t path rule: rb_erase_color.induct)
  case (1 t path)
  consider (red) l x r where "t = RB_NODE RB_RED l x r" | (top) "null_or_black t" "path = []"
    | (pass) a q where "null_or_black t" "path = a # q"
    by (metis colour.exhaust list.exhaust null_or_black.elims(3))
  then show ?case
  proof cases
    case red
    then show ?thesis using 1(2,3) loop_left(1) [of l x r path] by (auto simp: rb_erase_color_red)
  next
    case top
    then show ?thesis using 1(2) almost_black by (auto simp: rb_erase_color_top rb_ok_def)
  next
    case pass
    have "pass_ok (erase_color_pass t a q)"
      using 1(2,3) pass almost_black by (intro erase_color_pass_ok) auto
    then consider (up) t1 q1 where "erase_color_pass t a q = Some (Inl (t1, q1))" "almost_ok t1"
        "path_ok (Suc (black_height t1)) q1"
      | (finished) root where "erase_color_pass t a q = Some (Inr root)" "rb_ok root"
      by (auto simp: pass_ok_def split: option.splits sum.splits)
    then show ?thesis
    proof cases
      case up
      have "\<exists>t'. rb_erase_color t1 q1 = Some t' \<and> rb_ok t'"
        by (rule 1(1)) (use pass up in simp_all)
      then show ?thesis using pass up by (simp add: rb_erase_color_step)
    qed (use pass in \<open>simp add: rb_erase_color_step\<close>)
  qed
qed

lemma leftmost_ok:
  assumes "leftmost c l x r below = (c', s, sr, below')"
    and "sub_ok (RB_NODE c l x r)" "path_ok (black_height (RB_NODE c l x r)) (below @ path)"
    and "c = RB_BLACK \<or> above_black (below @ path)"
  shows "sub_ok (RB_NODE c' RB_NULL s sr) \<and> path_ok (black_height (RB_NODE c' RB_NULL s sr)) (below' @ path)
    \<and> (c' = RB_BLACK \<or> above_black (below' @ path))"
  using assms
  by (induction c l x r below rule: leftmost.induct) (auto simp: red_colour)

lemma erase_at_ok:
  assumes "rb_ok (rb_root (RB_NODE c l x r) path)"
  shows "\<exists>t'. rb_erase_at c l x r path = Some t' \<and> rb_ok t'"
proof -
  have n: "sub_ok (RB_NODE c l x r)" "path_ok (black_height (RB_NODE c l x r)) path" "c = RB_BLACK \<or> above_black path"
    using assms unfolding rb_ok_root by auto
  have splice: "\<exists>t'. (if c = RB_BLACK then rb_erase_color child path else Some (rb_root child path)) = Some t' \<and> rb_ok t'"
    if "sub_ok child" "path_ok (black_height child + (if c = RB_BLACK then 1 else 0)) path"
      "c = RB_RED \<Longrightarrow> null_or_black child" for c child path
  proof (cases "c = RB_BLACK")
    case True
    have "almost_ok child" using that(1) by (cases child) auto
    then show ?thesis using erase_color_ok [of child path] that(2) True by simp
  next
    case False
    then show ?thesis using that unfolding red_colour by (simp add: rb_ok_root)
  qed
  show ?thesis
  proof (cases "l = RB_NULL \<or> r = RB_NULL")
    case True
    then show ?thesis
      using splice [of r c path] splice [of l c path] n by (cases l; cases r) (auto simp: rb_erase_at_def)
  next
    case False
    then obtain rc rl rx rr where r: "r = RB_NODE rc rl rx rr" by (cases r) auto
    obtain sc s sr below where lm: "leftmost rc rl rx rr [] = (sc, s, sr, below)" by (metis prod_cases4)
    have "sub_ok (RB_NODE sc RB_NULL s sr) \<and> path_ok (black_height (RB_NODE sc RB_NULL s sr)) (below @ Right c l s # path)
        \<and> (sc = RB_BLACK \<or> above_black (below @ Right c l s # path))"
      using n r by (intro leftmost_ok [OF lm, of "Right c l s # path"]) (auto simp: red_colour)
    then show ?thesis
      using splice [of sr sc "below @ Right c l s # path"] False r lm by (cases l) (auto simp: rb_erase_at_def)
  qed
qed

lemma rb_erase_ok:
  assumes "rb_ok t" "x \<in> set (inorder t)" "distinct (inorder t)"
  shows "\<exists>t'. rb_erase x t = Some t' \<and> rb_ok t' \<and> inorder t' = remove1 x (inorder t)"
proof -
  obtain c l r path where f: "rb_find x t [] = Some (c, l, r, path)"
    using rb_find_None assms(2) by (metis option.exhaust prod_cases4)
  have ok: "rb_ok (rb_root (RB_NODE c l x r) path)" using rb_find_root [OF f] assms(1) by simp
  obtain t' where t': "rb_erase_at c l x r path = Some t'" "rb_ok t'" using erase_at_ok [OF ok] by auto
  then have e: "rb_erase x t = Some t'" using f by (simp add: rb_erase_def)
  show ?thesis using rb_erase_inorder [OF e assms(3)] e t'(2) by simp
qed

section \<open>Walking through the tree\<close>

lemma rb_first_inorder: "rb_first t = (if inorder t = [] then None else Some (hd (inorder t)))"
  by (induction t rule: rb_first.induct) (auto simp: hd_append)

lemma rb_last_inorder: "rb_last t = (if inorder t = [] then None else Some (last (inorder t)))"
  by (induction t rule: rb_last.induct) auto

lemma next_above_after: "next_above path = (if after path = [] then None else Some (hd (after path)))"
  by (induction path rule: next_above.induct) auto

lemma rb_next_inorder:
  assumes "rb_find x t [] = Some (c, l, r, path)"
  shows "inorder t = (before path @ inorder l) @ x # inorder r @ after path"
    "rb_next x t = Some (if inorder r @ after path = [] then None else Some (hd (inorder r @ after path)))"
proof -
  show "inorder t = (before path @ inorder l) @ x # inorder r @ after path"
    using rb_find_root [OF assms] inorder_root [of "RB_NODE c l x r" path] by simp
  show "rb_next x t = Some (if inorder r @ after path = [] then None else Some (hd (inorder r @ after path)))"
    using assms by (cases r) (auto simp: rb_next_def rb_first_inorder next_above_after hd_append)
qed

lemma rb_next_successor:
  assumes "inorder t = xs @ x # ys" "distinct (inorder t)"
  shows "rb_next x t = Some (if ys = [] then None else Some (hd ys))"
proof -
  obtain c l r path where f: "rb_find x t [] = Some (c, l, r, path)"
    using rb_find_None [of x t "[]"] assms(1) by (metis in_set_conv_decomp option.exhaust prod_cases4)
  have "xs @ x # ys = (before path @ inorder l) @ x # inorder r @ after path"
    using rb_next_inorder(1) [OF f] assms(1) by simp
  moreover have "x \<notin> set xs" "x \<notin> set ys" using assms by auto
  ultimately have "ys = inorder r @ after path" 
    using append_Cons_eq_iff [of x xs ys "before path @ inorder l" "inorder r @ after path"] by simp
  then show ?thesis using rb_next_inorder(2) [OF f] by simp
qed

section \<open>Descending to a leaf\<close>

text \<open>The search loop of the \<open>Add...TreeNode\<close> functions: \<open>left y\<close> tells whether the new node belongs to the
  left of \<open>y\<close>.\<close>

fun descend :: "('a \<Rightarrow> bool) \<Rightarrow> 'a rb_tree \<Rightarrow> 'a above list \<Rightarrow> 'a above list" where
  "descend left RB_NULL path = path"
| "descend left (RB_NODE c l y r) path =
     (if left y then descend left l (Left c y r # path) else descend left r (Right c l y # path))"

lemma descend_root: "rb_root RB_NULL (descend left t path) = rb_root t path"
  by (induction left t path rule: descend.induct) simp_all

lemma descend_splits:
  assumes "sorted_wrt (\<lambda>a b. left a \<longrightarrow> left b) (inorder t)"
  shows "before (descend left t path) = before path @ takeWhile (\<lambda>y. \<not> left y) (inorder t)
    \<and> after (descend left t path) = dropWhile (\<lambda>y. \<not> left y) (inorder t) @ after path"
  using assms
proof (induction left t path rule: descend.induct)
  case (2 left c l y r path)
  note s = 2(3) [unfolded inorder.simps sorted_wrt_append sorted_wrt.simps]
  show ?case
  proof (cases "left y")
    case True
    have "sorted_wrt (\<lambda>a b. left a \<longrightarrow> left b) (inorder l)" using s by blast
    from 2(1) [OF True this] True show ?thesis by (simp add: takeWhile_tail dropWhile_append3)
  next
    case False
    have "sorted_wrt (\<lambda>a b. left a \<longrightarrow> left b) (inorder r)" using s by blast
    moreover have "\<forall>a \<in> set (inorder l). \<not> left a" using s False by auto
    ultimately show ?thesis using 2(2) [OF False] False by (simp add: takeWhile_append2 dropWhile_append2)
  qed
qed simp

lemma insort_key_split:
  "sorted (map f xs) \<Longrightarrow> takeWhile (\<lambda>y. \<not> f x \<le> f y) xs @ x # dropWhile (\<lambda>y. \<not> f x \<le> f y) xs = insort_key f x xs"
  by (induction xs) auto

lemma insert_at_ok:
  assumes "rb_ok t"
  shows "\<exists>t'. rb_insert_color (rb_link_node x) (descend left t []) = Some t' \<and> rb_ok t'"
proof -
  have "rb_ok (rb_root RB_NULL (descend left t []))" using assms by (simp add: descend_root)
  then show ?thesis
    unfolding rb_ok_root by (intro insert_color_ok) (simp_all add: rb_link_node_def)
qed

end
