(* ===== verification/HetaoIndex.thy ===== *)
theory HetaoIndex
  imports RbTreeCorrect
begin

text \<open>
  The indexes of the server over its red-black trees: the search loops that the \<open>...Tree.c\<close> files share,
  and their contract, the locale \<open>ordered_index\<close>.  An index keeps the addresses of structures; the keys
  are read from the structures, through the function \<open>key\<close>.
\<close>

section \<open>The operations of the index files\<close>

text \<open>The comparison of the \<open>Add...\<close> functions with an integer key; equal keys go to the left.\<close>

definition goes_left :: "int \<Rightarrow> int \<Rightarrow> bool" where
  "goes_left a b = (if a < b then True else if a > b then False else True)"

lemma goes_left_le [simp]: "goes_left a b \<longleftrightarrow> a \<le> b"
  by (auto simp: goes_left_def)

definition add_node :: "('a \<Rightarrow> int) \<Rightarrow> 'a \<Rightarrow> 'a rb_tree \<Rightarrow> 'a rb_tree option" where
  "add_node key x t = rb_insert_color (rb_link_node x) (descend (\<lambda>y. goes_left (key x) (key y)) t [])"

text \<open>The search of the \<open>Query...\<close> functions; \<open>cmp y\<close> is the sign of the comparison with the node \<open>y\<close>.\<close>

fun query_tree :: "('a \<Rightarrow> int) \<Rightarrow> 'a rb_tree \<Rightarrow> 'a option" where
  "query_tree cmp RB_NULL = None"
| "query_tree cmp (RB_NODE c l y r) =
     (if cmp y < 0 then query_tree cmp l else if cmp y > 0 then query_tree cmp r else Some y)"

text \<open>The descent of an \<open>Add...\<close> function that refuses an equal key: \<open>None\<close>.\<close>

fun descend_unique :: "('a \<Rightarrow> int) \<Rightarrow> 'a rb_tree \<Rightarrow> 'a above list \<Rightarrow> 'a above list option" where
  "descend_unique cmp RB_NULL path = Some path"
| "descend_unique cmp (RB_NODE c l y r) path =
     (if cmp y < 0 then descend_unique cmp l (Left c y r # path)
      else if cmp y > 0 then descend_unique cmp r (Right c l y # path)
      else None)"

text \<open>The result code and the tree.\<close>

definition add_unique :: "('a \<Rightarrow> int) \<Rightarrow> 'a \<Rightarrow> 'a rb_tree \<Rightarrow> (int \<times> 'a rb_tree) option" where
  "add_unique cmp x t =
     (case descend_unique cmp t [] of
        None \<Rightarrow> Some (- 1, t)
      | Some path \<Rightarrow> map_option (\<lambda>t. (0, t)) (rb_insert_color (rb_link_node x) path))"

section \<open>The contract of an ordered index\<close>

locale ordered_index =
  fixes ok :: "'t \<Rightarrow> bool" and nodes :: "'t \<Rightarrow> 'a list"
    and add :: "('a \<Rightarrow> int) \<Rightarrow> 'a \<Rightarrow> 't \<Rightarrow> 't option" and remove :: "'a \<Rightarrow> 't \<Rightarrow> 't option"
    and first :: "'t \<Rightarrow> 'a option" and successor :: "'a \<Rightarrow> 't \<Rightarrow> 'a option option"
  assumes distinct_nodes: "ok t \<Longrightarrow> distinct (nodes t)"
    and add_any: "ok t \<Longrightarrow> x \<notin> set (nodes t) \<Longrightarrow>
       \<exists>t' xs ys. add key x t = Some t' \<and> ok t' \<and> nodes t = xs @ ys \<and> nodes t' = xs @ x # ys"
    and add_sorted: "ok t \<Longrightarrow> x \<notin> set (nodes t) \<Longrightarrow> sorted (map key (nodes t)) \<Longrightarrow> add key x t = Some t' \<Longrightarrow>
       nodes t' = insort_key key x (nodes t)"
    and remove_node: "ok t \<Longrightarrow> x \<in> set (nodes t) \<Longrightarrow>
       \<exists>t'. remove x t = Some t' \<and> ok t' \<and> nodes t' = remove1 x (nodes t)"
    and remove_foreign: "x \<notin> set (nodes t) \<Longrightarrow> remove x t = None"
    and first_node: "first t = (if nodes t = [] then None else Some (hd (nodes t)))"
    and successor_node: "ok t \<Longrightarrow> nodes t = xs @ x # ys \<Longrightarrow>
       successor x t = Some (if ys = [] then None else Some (hd ys))"
begin

lemma add_new:
  assumes "ok t" "x \<notin> set (nodes t)" "sorted (map key (nodes t))"
  shows "\<exists>t'. add key x t = Some t' \<and> ok t' \<and> set (nodes t') = insert x (set (nodes t)) \<and> sorted (map key (nodes t'))
     \<and> length (nodes t') = Suc (length (nodes t))"
proof -
  obtain t' where t': "add key x t = Some t'" "ok t'" using add_any [OF assms(1,2), of key] by blast
  then have "nodes t' = insort_key key x (nodes t)" using add_sorted [OF assms] by blast
  then show ?thesis using t' assms(3) by (auto simp: set_insort_key sorted_insort_key)
qed

lemma remove_old:
  assumes "ok t" "x \<in> set (nodes t)" "sorted (map key (nodes t))"
  shows "\<exists>t'. remove x t = Some t' \<and> ok t' \<and> set (nodes t') = set (nodes t) - {x} \<and> sorted (map key (nodes t'))
     \<and> Suc (length (nodes t')) = length (nodes t)"
proof -
  obtain t' where t': "remove x t = Some t'" "ok t'" "nodes t' = remove1 x (nodes t)"
    using remove_node [OF assms(1,2)] by blast
  then show ?thesis
    using assms distinct_nodes [OF assms(1)] length_pos_if_in_set [OF assms(2)]
    by (simp add: sorted_map_remove1 length_remove1 set_remove1_eq del: length_greater_0_conv)
qed

text \<open>Changing the key of a node: it is removed, given its key, and added again.\<close>

lemma change_key:
  assumes "ok t" "x \<in> set (nodes t)" "sorted (map key (nodes t))" "\<And>y. y \<noteq> x \<Longrightarrow> key' y = key y"
  shows "\<exists>t1 t2. remove x t = Some t1 \<and> add key' x t1 = Some t2 \<and> ok t2 \<and> set (nodes t2) = set (nodes t)
     \<and> sorted (map key' (nodes t2)) \<and> length (nodes t2) = length (nodes t)"
proof -
  obtain t1 where t1: "remove x t = Some t1" "ok t1" "set (nodes t1) = set (nodes t) - {x}"
    "sorted (map key (nodes t1))" "Suc (length (nodes t1)) = length (nodes t)"
    using remove_old [OF assms(1-3)] by blast
  have "map key' (nodes t1) = map key (nodes t1)" using t1(3) assms(4) by (auto cong: map_cong)
  then have "sorted (map key' (nodes t1))" using t1(4) by metis
  with t1 obtain t2 where "add key' x t1 = Some t2" "ok t2" "set (nodes t2) = insert x (set (nodes t1))"
    "sorted (map key' (nodes t2))" "length (nodes t2) = Suc (length (nodes t1))"
    using add_new [OF t1(2), of x key'] by auto
  then show ?thesis using t1 assms(2) by auto
qed

lemma first_least:
  assumes "first t = Some x" "sorted (map key (nodes t))"
  shows "x \<in> set (nodes t) \<and> (\<forall>y \<in> set (nodes t). key x \<le> key y)"
  using assms by (cases "nodes t") (auto simp: first_node)

lemma first_none: "first t = None \<longleftrightarrow> nodes t = []"
  by (simp add: first_node)

end

section \<open>The red-black trees keep the contract\<close>

definition index_ok :: "'a rb_tree \<Rightarrow> bool" where
  "index_ok t \<longleftrightarrow> rb_ok t \<and> distinct (inorder t)"

lemma index_ok_empty [simp]: "index_ok RB_NULL"
  by (simp add: index_ok_def rb_ok_def)

lemma insert_splits:
  assumes "rb_ok t" "distinct (inorder t)" "x \<notin> set (inorder t)"
  shows "\<exists>t'. rb_insert_color (rb_link_node x) (descend left t []) = Some t' \<and> index_ok t'
     \<and> inorder t = before (descend left t []) @ after (descend left t [])
     \<and> inorder t' = before (descend left t []) @ x # after (descend left t [])"
proof -
  let ?p = "descend left t []"
  obtain t' where t': "rb_insert_color (rb_link_node x) ?p = Some t'" "rb_ok t'"
    using insert_at_ok [OF assms(1)] by blast
  have "inorder (rb_root RB_NULL ?p) = inorder t" by (simp add: descend_root)
  then have i: "inorder t = before ?p @ after ?p" by (simp add: inorder_root)
  moreover have "inorder t' = before ?p @ x # after ?p"
    using insert_color_inorder [OF t'(1)] by (simp add: rb_link_node_def)
  ultimately show ?thesis using t' assms(2,3) by (auto simp: index_ok_def)
qed

interpretation index: ordered_index index_ok inorder add_node rb_erase rb_first rb_next
proof
  fix t t' :: "'a rb_tree" and x :: 'a and key :: "'a \<Rightarrow> int" and xs ys
  show "rb_first t = (if inorder t = [] then None else Some (hd (inorder t)))" by (rule rb_first_inorder)
  show "rb_erase x t = None" if "x \<notin> set (inorder t)"
    using that rb_find_None [of x t "[]"] by (simp add: rb_erase_def)
  assume ok: "index_ok t"
  then show "distinct (inorder t)" by (simp add: index_ok_def)
  show "rb_next x t = Some (if ys = [] then None else Some (hd ys))" if "inorder t = xs @ x # ys"
    by (rule rb_next_successor [OF that]) (use ok in \<open>simp add: index_ok_def\<close>)
  show "\<exists>t'. rb_erase x t = Some t' \<and> index_ok t' \<and> inorder t' = remove1 x (inorder t)" if "x \<in> set (inorder t)"
    using rb_erase_ok that ok by (fastforce simp: index_ok_def)
  assume x: "x \<notin> set (inorder t)"
  let ?left = "\<lambda>y. goes_left (key x) (key y)"
  obtain t1 where t1: "rb_insert_color (rb_link_node x) (descend ?left t []) = Some t1" "index_ok t1"
    "inorder t = before (descend ?left t []) @ after (descend ?left t [])"
    "inorder t1 = before (descend ?left t []) @ x # after (descend ?left t [])"
    using insert_splits [of t x ?left] ok x by (auto simp: index_ok_def)
  then show "\<exists>t' xs ys. add_node key x t = Some t' \<and> index_ok t' \<and> inorder t = xs @ ys \<and> inorder t' = xs @ x # ys"
    by (auto simp: add_node_def)
  assume s: "sorted (map key (inorder t))" and a: "add_node key x t = Some t'"
  have "sorted_wrt (\<lambda>a b. ?left a \<longrightarrow> ?left b) (inorder t)"
    by (rule sorted_wrt_mono_rel [OF _ s [unfolded sorted_map]]) auto
  from descend_splits [OF this, of "[]"] t1(1,4) a
  show "inorder t' = insort_key key x (inorder t)"
    using insort_key_split [OF s, of x] by (simp add: add_node_def)
qed

section \<open>Searching\<close>

text \<open>Along the traversal the comparison with what is searched must go from positive to negative.\<close>

definition falling :: "('a \<Rightarrow> int) \<Rightarrow> 'a list \<Rightarrow> bool" where
  "falling cmp xs \<longleftrightarrow> sorted_wrt (\<lambda>a b. (cmp a \<le> 0 \<longrightarrow> cmp b \<le> 0) \<and> (cmp a < 0 \<longrightarrow> cmp b < 0)) xs"

lemma falling_node:
  assumes "falling cmp (inorder (RB_NODE c l y r))"
  shows "falling cmp (inorder l)" "falling cmp (inorder r)"
    "a \<in> set (inorder l) \<Longrightarrow> (cmp a \<le> 0 \<longrightarrow> cmp y \<le> 0) \<and> (cmp a < 0 \<longrightarrow> cmp y < 0)"
    "a \<in> set (inorder r) \<Longrightarrow> (cmp y \<le> 0 \<longrightarrow> cmp a \<le> 0) \<and> (cmp y < 0 \<longrightarrow> cmp a < 0)"
  using assms unfolding falling_def inorder.simps sorted_wrt_append sorted_wrt.simps by auto

lemma query_tree_found: "query_tree cmp t = Some y \<Longrightarrow> y \<in> set (inorder t) \<and> cmp y = 0"
  by (induction t) (auto split: if_splits)

lemma query_tree_missing:
  assumes "falling cmp (inorder t)" "query_tree cmp t = None" "y \<in> set (inorder t)" shows "cmp y \<noteq> 0"
  using assms
proof (induction t)
  case (RB_NODE c l z r)
  note f = falling_node [OF RB_NODE.prems(1)]
  consider "cmp z < 0" | "cmp z > 0" using RB_NODE.prems(2) by (force split: if_splits)
  then show ?case
  proof cases
    case 1
    then show ?thesis using RB_NODE f(1) f(4) [of y] by (auto simp: less_le)
  next
    case 2
    then show ?thesis using RB_NODE f(2) f(3) [of y] by (auto simp: less_le)
  qed
qed simp

lemma descend_unique_None: "descend_unique cmp t path = None \<longleftrightarrow> query_tree cmp t \<noteq> None"
  by (induction cmp t path rule: descend_unique.induct) auto

lemma descend_unique_descend:
  "descend_unique cmp t path = Some p \<Longrightarrow> p = descend (\<lambda>y. cmp y < 0) t path"
  by (induction cmp t path rule: descend_unique.induct) (auto split: if_splits)

lemma descend_falling:
  assumes "falling cmp (inorder t)"
  shows "before (descend (\<lambda>y. cmp y < 0) t []) = takeWhile (\<lambda>y. \<not> cmp y < 0) (inorder t)"
    "after (descend (\<lambda>y. cmp y < 0) t []) = dropWhile (\<lambda>y. \<not> cmp y < 0) (inorder t)"
proof -
  have "sorted_wrt (\<lambda>a b. cmp a < 0 \<longrightarrow> cmp b < 0) (inorder t)"
    by (rule sorted_wrt_mono_rel [OF _ assms [unfolded falling_def]]) blast
  from descend_splits [OF this, of "[]"]
  show "before (descend (\<lambda>y. cmp y < 0) t []) = takeWhile (\<lambda>y. \<not> cmp y < 0) (inorder t)"
    "after (descend (\<lambda>y. cmp y < 0) t []) = dropWhile (\<lambda>y. \<not> cmp y < 0) (inorder t)" by simp_all
qed

lemma add_unique_refuses: "query_tree cmp t \<noteq> None \<Longrightarrow> add_unique cmp x t = Some (- 1, t)"
  using descend_unique_None [of cmp t "[]"] by (simp add: add_unique_def)

lemma add_unique_inserts:
  assumes "index_ok t" "falling cmp (inorder t)" "query_tree cmp t = None" "x \<notin> set (inorder t)"
  shows "\<exists>t'. add_unique cmp x t = Some (0, t') \<and> index_ok t'
     \<and> inorder t' = takeWhile (\<lambda>y. \<not> cmp y < 0) (inorder t) @ x # dropWhile (\<lambda>y. \<not> cmp y < 0) (inorder t)"
proof -
  have "descend_unique cmp t [] \<noteq> None" using descend_unique_None assms(3) by metis
  then obtain p where p1: "descend_unique cmp t [] = Some p" by blast
  note p = p1 descend_unique_descend [OF p1]
  obtain t' where "rb_insert_color (rb_link_node x) p = Some t'" "index_ok t'"
    "inorder t' = before p @ x # after p"
    using insert_splits [of t x "\<lambda>y. cmp y < 0", folded p(2)] assms(1,4) unfolding index_ok_def by blast
  then show ?thesis unfolding add_unique_def p(1) descend_falling [OF assms(2), folded p(2)] by simp
qed

text \<open>A node that is inserted and taken out again.\<close>

lemma insert_then_erase:
  assumes "rb_ok t" "distinct (inorder t)" "x \<notin> set (inorder t)" "sorted (map key (inorder t))"
  shows "\<exists>t' t''. add_node key x t = Some t' \<and> rb_ok t' \<and> inorder t' = insort_key key x (inorder t)
     \<and> rb_erase x t' = Some t'' \<and> rb_ok t'' \<and> inorder t'' = inorder t"
proof -
  have ok: "index_ok t" using assms(1,2) by (simp add: index_ok_def)
  obtain t' where t': "add_node key x t = Some t'" "index_ok t'" using index.add_any [OF ok assms(3), of key] by blast
  have i: "inorder t' = insort_key key x (inorder t)" by (rule index.add_sorted [OF ok assms(3,4) t'(1)])
  then have "x \<in> set (inorder t')" by (simp add: set_insort_key)
  then obtain t'' where "rb_erase x t' = Some t''" "rb_ok t''" "inorder t'' = remove1 x (inorder t')"
    using rb_erase_ok [of t' x] t'(2) unfolding index_ok_def by blast
  moreover have "remove1 x (insort_key key x (inorder t)) = inorder t" by (rule remove1_insort_key)
  ultimately show ?thesis using t' i by (auto simp: index_ok_def)
qed

end
