(* ===== verification/HetaoHash.thy ===== *)
theory HetaoHash
  imports Prelude
begin

text \<open>
  The hash tables of the server: \<open>CalcHash\<close> (\<open>Util.c\<close>), the chained tables of MIME types
  (\<open>MimeTypeHash.c\<close>) and redirected domains (\<open>RedirectDomain.c\<close>), and the connection counters per
  client address (\<open>IpLimitsHash.c\<close>).  The table of virtual hosts (\<open>VirtualHostHash.c\<close>) has the same
  push and query; it is defined with the virtual hosts.  An array of \<open>hlist_head\<close> is a list of chains,
  and \<open>hlist_add_head\<close> is \<open>#\<close>.  What the tables promise to their clients is the locale
  \<open>keyed_table\<close>, what the counters promise is \<open>connection_counter\<close>.
\<close>

named_theorems hash_simps

section \<open>The hash function\<close>

text \<open>\<open>unsigned long\<close> has 64 bits; the (signed) bytes are widened with their sign.\<close>

definition hash_step :: "64 word \<Rightarrow> char \<Rightarrow> 64 word" where
  "hash_step ul c = word_of_int (char_int c) + push_bit 6 ul + drop_bit 16 ul - ul"

definition CalcHash :: "bytes \<Rightarrow> 64 word" where
  "CalcHash str = foldl hash_step 0 str"

text \<open>\<open>CalcHash(...) % hashsize\<close>; the division by an empty table traps.\<close>

definition hash_index :: "bytes \<Rightarrow> nat \<Rightarrow> nat option" where
  "hash_index s hashsize = (if hashsize = 0 then None else Some (unat (CalcHash s) mod hashsize))"

section \<open>Chained tables\<close>

definition strncmp_eq :: "bytes \<Rightarrow> bytes \<Rightarrow> nat \<Rightarrow> bool" where
  "strncmp_eq a b n \<longleftrightarrow> cstr (take n a) = cstr (take n b)"

definition push_node :: "('e \<Rightarrow> bytes) \<Rightarrow> 'e list list \<Rightarrow> 'e \<Rightarrow> (int \<times> 'e list list) option" where
  "push_node key hash e =
     (case hash_index (key e) (length hash) of
        None \<Rightarrow> None
      | Some index \<Rightarrow>
          if \<exists>p \<in> set (hash ! index). key p = key e then Some (1, hash)
          else Some (0, hash[index := e # hash ! index]))"

text \<open>The query gives the first node of the chain with the key, \<open>None\<close> standing for \<open>NULL\<close>.\<close>

definition query_node :: "('e \<Rightarrow> bytes) \<Rightarrow> 'e list list \<Rightarrow> bytes \<Rightarrow> 'e option option" where
  "query_node key hash s =
     (case hash_index s (length hash) of
        None \<Rightarrow> None
      | Some index \<Rightarrow> Some (List.find (\<lambda>p. length (key p) = length s \<and> strncmp_eq (key p) s (length s))
                              (hash ! index)))"

text \<open>\<open>malloc\<close> of the array of chains.\<close>

definition init_hash :: "bool \<Rightarrow> int \<Rightarrow> (int \<times> 'e list list) option" where
  "init_hash alloc hashsize = (if alloc then Some (0, replicate (nat hashsize) []) else Some (- 1, []))"

section \<open>MIME types\<close>

record mime_type =
  mt_type :: bytes
  mt_mime :: bytes
  mt_compress_enable :: int

text \<open>An entry of the configuration has the types it stands for in one string.\<close>

record mime_type_conf =
  mtc_type :: bytes
  mtc_mime :: bytes
  mtc_compress_enable :: int

definition PushMimeTypeHashNode :: "mime_type list list \<Rightarrow> mime_type \<Rightarrow> (int \<times> mime_type list list) option" where
  "PushMimeTypeHashNode = push_node mt_type"

definition QueryMimeTypeHashNode :: "mime_type list list \<Rightarrow> bytes \<Rightarrow> mime_type option option" where
  "QueryMimeTypeHashNode = query_node mt_type"

text \<open>\<open>strtok\<close>: the next token of \<open>s\<close> and what is left for the next call.\<close>

definition strtok :: "bytes \<Rightarrow> bytes \<Rightarrow> (bytes \<times> bytes) option" where
  "strtok delims s =
     (let s = dropWhile (\<lambda>c. c \<in> set delims) s in
      if s = [] then None
      else Some (takeWhile (\<lambda>c. c \<notin> set delims) s, drop 1 (dropWhile (\<lambda>c. c \<notin> set delims) s)))"

lemma strtok_shorter: "strtok delims s = Some (tok, rest) \<Longrightarrow> length rest < length s"
proof -
  assume a: "strtok delims s = Some (tok, rest)"
  let ?s = "dropWhile (\<lambda>c. c \<in> set delims) s"
  have "?s \<noteq> []" "rest = drop 1 (dropWhile (\<lambda>c. c \<notin> set delims) ?s)"
    using a by (auto simp: strtok_def Let_def split: if_splits)
  moreover have "length (dropWhile (\<lambda>c. c \<notin> set delims) ?s) \<le> length ?s" "length ?s \<le> length s"
    by (rule length_dropWhile_le)+
  ultimately show ?thesis by (cases ?s) auto
qed

text \<open>The inner loop of \<open>InitMimeTypeHash\<close>; \<open>delims\<close> are the delimiters of the next call of \<open>strtok\<close>:
  blank and carriage return for the first, blank and tab for the others.  \<open>strncpy\<close> cuts the names to
  the sizes of the fields.\<close>

function init_mime_types ::
    "bool \<Rightarrow> mime_type_conf \<Rightarrow> bytes \<Rightarrow> bytes \<Rightarrow> mime_type list list \<Rightarrow> (int \<times> mime_type list list) option" where
  "init_mime_types alloc conf delims s hash =
     (case strtok delims s of
        None \<Rightarrow> Some (0, hash)
      | Some (tok, rest) \<Rightarrow>
          if \<not> alloc then Some (- 1, hash)
          else (case PushMimeTypeHashNode hash \<lparr>mt_type = take 50 tok, mt_mime = take 100 (mtc_mime conf),
                        mt_compress_enable = mtc_compress_enable conf\<rparr> of
                  None \<Rightarrow> None
                | Some (nret, hash) \<Rightarrow>
                    if nret \<noteq> 0 then Some (- 1, hash) else init_mime_types alloc conf [SP, TAB] rest hash))"
  by pat_completeness auto
termination
  by (relation "measure (\<lambda>(alloc, conf, delims, s, hash). length s)") (auto dest: strtok_shorter)

declare init_mime_types.simps [simp del]

fun init_mime_confs ::
    "bool \<Rightarrow> mime_type_conf list \<Rightarrow> mime_type list list \<Rightarrow> (int \<times> mime_type list list) option" where
  "init_mime_confs alloc [] hash = Some (0, hash)"
| "init_mime_confs alloc (conf # confs) hash =
     (case init_mime_types alloc conf [SP, CR] (mtc_type conf) hash of
        None \<Rightarrow> None
      | Some (nret, hash) \<Rightarrow> if nret \<noteq> 0 then Some (nret, hash) else init_mime_confs alloc confs hash)"

definition InitMimeTypeHash :: "bool \<Rightarrow> mime_type_conf list \<Rightarrow> (int \<times> mime_type list list) option" where
  "InitMimeTypeHash alloc confs =
     (case init_hash alloc (int (length confs) * 2) of
        None \<Rightarrow> None
      | Some (nret, hash) \<Rightarrow> if nret \<noteq> 0 then Some (nret, hash) else init_mime_confs alloc confs hash)"

text \<open>Cleaning a table unlinks and frees the nodes chain by chain; they are the first component.\<close>

definition CleanMimeTypeHash :: "mime_type list list \<Rightarrow> mime_type list \<times> mime_type list list" where
  "CleanMimeTypeHash hash = (concat hash, [])"

section \<open>Redirected domains\<close>

record redirect_domain =
  rd_domain :: bytes
  rd_new_domain :: bytes

text \<open>The part of a virtual host that \<open>RedirectDomain.c\<close> works on.\<close>

record redirect_table =
  redirect_domain_count :: int
  redirect_domain_hash :: "redirect_domain list list"

definition InitRedirectDomainHash :: "bool \<Rightarrow> redirect_table \<Rightarrow> int \<Rightarrow> (int \<times> redirect_table) option" where
  "InitRedirectDomainHash alloc t count =
     map_option (\<lambda>(nret, hash). (nret, t\<lparr>redirect_domain_hash := hash\<rparr>)) (init_hash alloc (count * 2))"

definition CleanRedirectDomainHash :: "redirect_table \<Rightarrow> redirect_domain list \<times> redirect_table" where
  "CleanRedirectDomainHash t = (concat (redirect_domain_hash t), t\<lparr>redirect_domain_hash := []\<rparr>)"

definition PushRedirectDomainHashNode :: "redirect_table \<Rightarrow> redirect_domain \<Rightarrow> (int \<times> redirect_table) option" where
  "PushRedirectDomainHashNode t e =
     (case push_node rd_domain (redirect_domain_hash t) e of
        None \<Rightarrow> None
      | Some (nret, hash) \<Rightarrow>
          if nret \<noteq> 0 then Some (nret, t)
          else Some (0, t\<lparr>redirect_domain_hash := hash, redirect_domain_count := redirect_domain_count t + 1\<rparr>))"

definition QueryRedirectDomainHashNode :: "redirect_table \<Rightarrow> bytes \<Rightarrow> redirect_domain option option" where
  "QueryRedirectDomainHashNode t s = query_node rd_domain (redirect_domain_hash t) s"

section \<open>Connections per client address\<close>

abbreviation IP_LIMITS_HASHSIZE :: nat where "IP_LIMITS_HASHSIZE \<equiv> 65536"

type_synonym ip = "32 word"

record ip_limits =
  il_ip :: ip
  il_count :: int

text \<open>The array of chains has a fixed size: it is a function on the indices.\<close>

type_synonym ip_table = "nat \<Rightarrow> ip_limits list"

definition InitIpLimitsHash :: "bool \<Rightarrow> ip_table \<Rightarrow> int \<times> ip_table" where
  "InitIpLimitsHash alloc t = (if alloc then (0, \<lambda>_. []) else (- 1, t))"

definition CleanIpLimitsHash :: "ip_table \<Rightarrow> ip_limits list \<times> ip_table" where
  "CleanIpLimitsHash t = (concat (map t [0..<IP_LIMITS_HASHSIZE]), \<lambda>_. [])"

text \<open>The loops over a chain; \<open>None\<close>: the address is not in the chain.\<close>

fun increase_chain :: "int \<Rightarrow> ip \<Rightarrow> ip_limits list \<Rightarrow> (int \<times> ip_limits list) option" where
  "increase_chain limit a [] = None"
| "increase_chain limit a (p # ps) =
     (if il_ip p = a
      then Some (if il_count p + 1 > limit then (1, p # ps) else (0, p\<lparr>il_count := il_count p + 1\<rparr> # ps))
      else map_option (\<lambda>(nret, ps). (nret, p # ps)) (increase_chain limit a ps))"

fun decrease_chain :: "ip \<Rightarrow> ip_limits list \<Rightarrow> ip_limits list option" where
  "decrease_chain a [] = None"
| "decrease_chain a (p # ps) =
     (if il_ip p = a
      then Some (if il_count p - 1 \<le> 0 then ps else p\<lparr>il_count := il_count p - 1\<rparr> # ps)
      else map_option (\<lambda>ps. p # ps) (decrease_chain a ps))"

definition ip_index :: "ip \<Rightarrow> nat" where
  "ip_index a = unat a mod IP_LIMITS_HASHSIZE"

definition IncreaseIpLimitsHashNode :: "int \<Rightarrow> bool \<Rightarrow> ip_table \<Rightarrow> ip \<Rightarrow> int \<times> ip_table" where
  "IncreaseIpLimitsHashNode limit alloc t a =
     (let index = ip_index a in
      case increase_chain limit a (t index) of
        Some (nret, ps) \<Rightarrow> (nret, t(index := ps))
      | None \<Rightarrow> if \<not> alloc then (- 1, t) else (0, t(index := \<lparr>il_ip = a, il_count = 1\<rparr> # t index)))"

definition DecreaseIpLimitsHashNode :: "ip_table \<Rightarrow> ip \<Rightarrow> int \<times> ip_table" where
  "DecreaseIpLimitsHashNode t a =
     (let index = ip_index a in
      case decrease_chain a (t index) of
        Some ps \<Rightarrow> (0, t(index := ps))
      | None \<Rightarrow> (1, t))"

section \<open>The contract of the keyed tables\<close>

text \<open>A table in which the first value pushed for a key is found under it, and in which a second one is
  refused.\<close>

locale keyed_table =
  fixes key :: "'e \<Rightarrow> bytes" and ok :: "'t \<Rightarrow> bool"
    and push :: "'t \<Rightarrow> 'e \<Rightarrow> (int \<times> 't) option" and query :: "'t \<Rightarrow> bytes \<Rightarrow> 'e option option"
  assumes query_defined: "ok t \<Longrightarrow> query t s \<noteq> None"
    and query_key: "ok t \<Longrightarrow> query t s = Some (Some e) \<Longrightarrow> key e = s"
    and push_new: "ok t \<Longrightarrow> is_cstr (key e) \<Longrightarrow> query t (key e) = Some None \<Longrightarrow>
       \<exists>t'. push t e = Some (0, t') \<and> ok t' \<and> query t' = (query t)(key e := Some (Some e))"
    and push_again: "ok t \<Longrightarrow> is_cstr (key e) \<Longrightarrow> query t (key e) = Some (Some e') \<Longrightarrow> push t e = Some (1, t)"
begin

text \<open>Pushing the entries of a configuration one after the other, up to the first failure.\<close>

fun push_all :: "'t \<Rightarrow> 'e list \<Rightarrow> (int \<times> 't) option" where
  "push_all t [] = Some (0, t)"
| "push_all t (e # es) =
     (case push t e of
        None \<Rightarrow> None
      | Some (nret, t) \<Rightarrow> if nret \<noteq> 0 then Some (nret, t) else push_all t es)"

lemma query_cases:
  assumes "ok t"
  obtains (missing) "query t s = Some None" | (found) e where "query t s = Some (Some e)" "key e = s"
  using query_defined [OF assms, of s] query_key [OF assms] by (metis option.exhaust)

lemma push_all_distinct:
  assumes "ok t" "\<forall>e \<in> set es. is_cstr (key e) \<and> query t (key e) = Some None" "distinct (map key es)"
  shows "\<exists>t'. push_all t es = Some (0, t') \<and> ok t'
     \<and> (\<forall>s. query t' s = (case map_of (map (\<lambda>e. (key e, e)) es) s of None \<Rightarrow> query t s | Some e \<Rightarrow> Some (Some e)))"
  using assms
proof (induction es arbitrary: t)
  case (Cons e es)
  obtain t1 where t1: "push t e = Some (0, t1)" "ok t1" "query t1 = (query t)(key e := Some (Some e))"
    using push_new Cons.prems by (metis list.set_intros(1))
  have "\<forall>e' \<in> set es. is_cstr (key e') \<and> query t1 (key e') = Some None"
    using Cons.prems(2,3) t1(3) by (auto simp: rev_image_eqI)
  from Cons.IH [OF t1(2) this] Cons.prems(3) obtain t' where "push_all t1 es = Some (0, t')" "ok t'"
    "\<forall>s. query t' s = (case map_of (map (\<lambda>e. (key e, e)) es) s of None \<Rightarrow> query t1 s | Some e \<Rightarrow> Some (Some e))"
    by auto
  moreover have "map_of (map (\<lambda>e. (key e, e)) es) (key e) = None"
    using Cons.prems(3) by (auto simp: map_of_eq_None_iff)
  ultimately show ?case using t1 by (auto split: option.splits)
qed auto

lemma push_all_duplicate:
  assumes "ok t" "\<forall>e \<in> set es. is_cstr (key e)" "\<not> distinct (map key es)"
  shows "\<exists>t'. push_all t es = Some (1, t') \<and> ok t'"
proof -
  have "\<not> distinct (map key es) \<or> (\<exists>e \<in> set es. query t (key e) \<noteq> Some None)
    \<Longrightarrow> ok t \<Longrightarrow> \<forall>e \<in> set es. is_cstr (key e) \<Longrightarrow> \<exists>t'. push_all t es = Some (1, t') \<and> ok t'"
  proof (induction es arbitrary: t)
    case (Cons e es)
    show ?case
    proof (cases "query t (key e) = Some None")
      case missing: True
      obtain t1 where t1: "push t e = Some (0, t1)" "ok t1" "query t1 = (query t)(key e := Some (Some e))"
        using push_new Cons.prems missing by (metis list.set_intros(1))
      have "\<not> distinct (map key es) \<or> (\<exists>e' \<in> set es. query t1 (key e') \<noteq> Some None)"
        using Cons.prems(1) missing t1(3) by (auto split: if_splits)
      then show ?thesis using Cons.IH [OF _ t1(2)] Cons.prems(3) t1(1) by auto
    next
      case False
      then obtain e' where "query t (key e) = Some (Some e')"
        using query_defined [OF Cons.prems(2), of "key e"] by auto
      then have "push t e = Some (1, t)" using push_again [OF Cons.prems(2)] Cons.prems(3) by simp
      then show ?thesis using Cons.prems(2) by simp
    qed
  qed simp
  then show ?thesis using assms by blast
qed

end

section \<open>The chained tables keep the contract\<close>

definition chains_ok :: "('e \<Rightarrow> bytes) \<Rightarrow> 'e list list \<Rightarrow> bool" where
  "chains_ok key hash \<longleftrightarrow> hash \<noteq> []
     \<and> (\<forall>i < length hash. distinct (map key (hash ! i))
          \<and> (\<forall>e \<in> set (hash ! i). is_cstr (key e) \<and> hash_index (key e) (length hash) = Some i))"

lemma hash_index_less: "hash_index s n = Some i \<Longrightarrow> i < n"
  by (auto simp: hash_index_def split: if_splits)

lemma same_key:
  assumes "is_cstr k" shows "length k = length s \<and> strncmp_eq k s (length s) \<longleftrightarrow> k = s"
proof
  assume a: "length k = length s \<and> strncmp_eq k s (length s)"
  then have "k = cstr s" using cstr_id [OF assms] unfolding strncmp_eq_def by (metis order_refl take_all)
  moreover have "length (cstr s) \<le> length s" "take (length (cstr s)) s = cstr s"
    by (simp_all add: cstr_def length_takeWhile_le takeWhile_eq_take [symmetric])
  ultimately show "k = s" using a by simp
qed (simp add: strncmp_eq_def)

lemma query_node_found:
  assumes "chains_ok key hash"
  shows "query_node key hash s = Some (List.find (\<lambda>p. key p = s) (hash ! (unat (CalcHash s) mod length hash)))"
proof -
  let ?i = "unat (CalcHash s) mod length hash"
  have i: "hash_index s (length hash) = Some ?i" "?i < length hash"
    using assms by (simp_all add: chains_ok_def hash_index_def)
  have "\<forall>p \<in> set (hash ! ?i). is_cstr (key p)"
    using assms i(2) unfolding chains_ok_def by blast
  then have "\<forall>p \<in> set (hash ! ?i). (length (key p) = length s \<and> strncmp_eq (key p) s (length s)) = (key p = s)"
    using same_key by blast
  then have "List.find (\<lambda>p. length (key p) = length s \<and> strncmp_eq (key p) s (length s)) (hash ! ?i)
      = List.find (\<lambda>p. key p = s) (hash ! ?i)"
    by (intro find_cong) auto
  then show ?thesis using i by (simp add: query_node_def)
qed

lemma init_hash_ok: "0 < n \<Longrightarrow> init_hash True n = Some (0, h) \<Longrightarrow> chains_ok key h \<and> query_node key h s = Some None"
  by (auto simp: init_hash_def chains_ok_def query_node_def hash_index_def)

interpretation chained: keyed_table key "chains_ok key" "push_node key" "query_node key" for key :: "'e \<Rightarrow> bytes"
proof
  fix t :: "'e list list" and s e e'
  assume ok: "chains_ok key t"
  let ?i = "\<lambda>s. unat (CalcHash s) mod length t"
  have i: "hash_index s (length t) = Some (?i s)" "?i s < length t" for s
    using ok by (simp_all add: chains_ok_def hash_index_def)
  note q = query_node_found [OF ok]
  show "query_node key t s \<noteq> None" by (simp add: q)
  show "key e = s" if "query_node key t s = Some (Some e)"
    using that by (auto simp: q find_Some_iff)
  show "push_node key t e = Some (1, t)" if "query_node key t (key e) = Some (Some e')"
    using that i by (auto simp: q find_Some_iff push_node_def)
  assume c: "is_cstr (key e)" and n: "query_node key t (key e) = Some None"
  let ?t = "t[?i (key e) := e # t ! ?i (key e)]"
  have new: "\<forall>p \<in> set (t ! ?i (key e)). key p \<noteq> key e" using n by (auto simp: q find_None_iff)
  then have p: "push_node key t e = Some (0, ?t)" using i by (auto simp: push_node_def)
  have ok': "chains_ok key ?t"
    using ok c i new by (auto simp: chains_ok_def nth_list_update)
  moreover have "query_node key ?t = (query_node key t)(key e := Some (Some e))"
    unfolding fun_eq_iff query_node_found [OF ok'] using i by (auto simp: q nth_list_update)
  ultimately show "\<exists>t'. push_node key t e = Some (0, t') \<and> chains_ok key t'
      \<and> query_node key t' = (query_node key t)(key e := Some (Some e))"
    using p by blast
qed

interpretation redirects: keyed_table rd_domain "\<lambda>t. chains_ok rd_domain (redirect_domain_hash t)"
    PushRedirectDomainHashNode QueryRedirectDomainHashNode
proof
  fix t :: redirect_table and s e e'
  assume ok: "chains_ok rd_domain (redirect_domain_hash t)"
  show "QueryRedirectDomainHashNode t s \<noteq> None"
    using chained.query_defined [OF ok] by (simp add: QueryRedirectDomainHashNode_def)
  show "rd_domain e = s" if "QueryRedirectDomainHashNode t s = Some (Some e)"
    using that chained.query_key [OF ok] by (simp add: QueryRedirectDomainHashNode_def)
  assume c: "is_cstr (rd_domain e)"
  show "PushRedirectDomainHashNode t e = Some (1, t)" if "QueryRedirectDomainHashNode t (rd_domain e) = Some (Some e')"
    using that chained.push_again [OF ok c]
    by (simp add: QueryRedirectDomainHashNode_def PushRedirectDomainHashNode_def)
  assume n: "QueryRedirectDomainHashNode t (rd_domain e) = Some None"
  obtain h where "push_node rd_domain (redirect_domain_hash t) e = Some (0, h)" "chains_ok rd_domain h"
    "query_node rd_domain h = (query_node rd_domain (redirect_domain_hash t))(rd_domain e := Some (Some e))"
    using chained.push_new [OF ok c] n by (auto simp: QueryRedirectDomainHashNode_def)
  then show "\<exists>t'. PushRedirectDomainHashNode t e = Some (0, t') \<and> chains_ok rd_domain (redirect_domain_hash t')
      \<and> QueryRedirectDomainHashNode t' = (QueryRedirectDomainHashNode t)(rd_domain e := Some (Some e))"
    by (simp add: fun_eq_iff QueryRedirectDomainHashNode_def PushRedirectDomainHashNode_def)
qed

section \<open>The table of MIME types\<close>

text \<open>What the configuration stands for: its names, cut to the size of the field, each with the MIME type
  of its entry.\<close>

function split_names :: "bytes \<Rightarrow> bytes \<Rightarrow> bytes list" where
  "split_names delims s =
     (case strtok delims s of None \<Rightarrow> [] | Some (tok, rest) \<Rightarrow> take 50 tok # split_names [SP, TAB] rest)"
  by pat_completeness auto
termination by (relation "measure (\<lambda>(delims, s). length s)") (auto dest: strtok_shorter)

declare split_names.simps [simp del]

definition conf_types :: "mime_type_conf \<Rightarrow> mime_type list" where
  "conf_types conf = map (\<lambda>n. \<lparr>mt_type = n, mt_mime = take 100 (mtc_mime conf),
      mt_compress_enable = mtc_compress_enable conf\<rparr>) (split_names [SP, CR] (mtc_type conf))"

lemma chained_push_all_append:
  "chained.push_all key t (xs @ ys) =
     (case chained.push_all key t xs of
        None \<Rightarrow> None
      | Some (nret, t) \<Rightarrow> if nret \<noteq> 0 then Some (nret, t) else chained.push_all key t ys)"
  by (induction xs arbitrary: t) (auto split: option.splits)

lemma init_mime_types_pushes:
  assumes "chained.push_all mt_type hash (map (\<lambda>n. \<lparr>mt_type = n, mt_mime = take 100 (mtc_mime conf),
      mt_compress_enable = mtc_compress_enable conf\<rparr>) (split_names delims s)) = Some (0, hash')"
  shows "init_mime_types True conf delims s hash = Some (0, hash')"
  using assms
proof (induction True conf delims s hash rule: init_mime_types.induct)
  case (1 conf delims s hash)
  show ?case
  proof (cases "strtok delims s")
    case None
    then show ?thesis
      using 1(2) by (subst init_mime_types.simps) (subst (asm) split_names.simps, simp)
  next
    case (Some p)
    obtain tok rest where p: "p = (tok, rest)" by fastforce
    have s: "split_names delims s = take 50 tok # split_names [SP, TAB] rest"
      using Some p by (subst split_names.simps) simp
    obtain h where h: "PushMimeTypeHashNode hash \<lparr>mt_type = take 50 tok, mt_mime = take 100 (mtc_mime conf),
        mt_compress_enable = mtc_compress_enable conf\<rparr> = Some (0, h)"
      using 1(2) unfolding s PushMimeTypeHashNode_def by (auto split: option.splits if_splits)
    then have "init_mime_types True conf [SP, TAB] rest h = Some (0, hash')"
      using 1(1) [OF Some p [symmetric] _ h refl] h 1(2) unfolding s by (auto simp: PushMimeTypeHashNode_def)
    then show ?thesis using Some p h by (subst init_mime_types.simps) simp
  qed
qed

lemma init_mime_confs_pushes:
  assumes "chained.push_all mt_type hash (concat (map conf_types confs)) = Some (0, hash')"
  shows "init_mime_confs True confs hash = Some (0, hash')"
  using assms
proof (induction confs arbitrary: hash)
  case (Cons conf confs)
  obtain h where h: "chained.push_all mt_type hash (conf_types conf) = Some (0, h)"
    "chained.push_all mt_type h (concat (map conf_types confs)) = Some (0, hash')"
    using Cons.prems by (auto simp: chained_push_all_append split: option.splits if_splits)
  then show ?case using init_mime_types_pushes Cons.IH [OF h(2)] by (auto simp: conf_types_def)
qed simp

lemma InitMimeTypeHash_map:
  assumes "confs \<noteq> []" "distinct (map mt_type (concat (map conf_types confs)))"
    and "\<forall>t \<in> set (concat (map conf_types confs)). is_cstr (mt_type t)"
  shows "\<exists>hash. InitMimeTypeHash True confs = Some (0, hash) \<and> (\<forall>s. QueryMimeTypeHashNode hash s =
     Some (map_of (map (\<lambda>t. (mt_type t, t)) (concat (map conf_types confs))) s))"
proof -
  let ?h = "replicate (nat (int (length confs) * 2)) ([] :: mime_type list)"
  have i: "init_hash True (int (length confs) * 2) = Some (0, ?h)" by (simp add: init_hash_def)
  have pos: "0 < int (length confs) * 2" using assms(1) by simp
  let ?m = "map_of (map (\<lambda>t. (mt_type t, t)) (concat (map conf_types confs)))"
  obtain hash where hash: "chained.push_all mt_type ?h (concat (map conf_types confs)) = Some (0, hash)"
    "\<forall>s. query_node mt_type hash s = (case ?m s of None \<Rightarrow> query_node mt_type ?h s | Some e \<Rightarrow> Some (Some e))"
    using chained.push_all_distinct [of mt_type ?h "concat (map conf_types confs)"]
      init_hash_ok [OF pos i, of mt_type] assms(2,3) by auto
  have "query_node mt_type hash s = Some (?m s)" for s
    using hash(2) init_hash_ok [OF pos i, of mt_type s] by (cases "?m s") auto
  then show ?thesis
    using init_mime_confs_pushes [OF hash(1)] i
    by (auto simp: InitMimeTypeHash_def QueryMimeTypeHashNode_def)
qed

section \<open>The contract of the connection counters\<close>

text \<open>A limited counter per address: the first connection of an address is always admitted, further ones
  up to the limit.\<close>

locale connection_counter =
  fixes ok :: "'t \<Rightarrow> bool" and number :: "'t \<Rightarrow> 'a \<Rightarrow> int"
    and increase :: "int \<Rightarrow> bool \<Rightarrow> 't \<Rightarrow> 'a \<Rightarrow> int \<times> 't" and decrease :: "'t \<Rightarrow> 'a \<Rightarrow> int \<times> 't"
  assumes number_nonneg: "ok t \<Longrightarrow> 0 \<le> number t a"
    and increase_admits: "ok t \<Longrightarrow> number t a = 0 \<or> number t a < limit \<Longrightarrow>
       \<exists>t'. increase limit True t a = (0, t') \<and> ok t' \<and> number t' = (number t)(a := number t a + 1)"
    and increase_refuses: "ok t \<Longrightarrow> number t a \<noteq> 0 \<Longrightarrow> limit \<le> number t a \<Longrightarrow> increase limit alloc t a = (1, t)"
    and increase_fails: "ok t \<Longrightarrow> increase limit False t a = (nret, t') \<Longrightarrow> nret = - 1 \<Longrightarrow> t' = t"
    and decrease_known: "ok t \<Longrightarrow> number t a \<noteq> 0 \<Longrightarrow>
       \<exists>t'. decrease t a = (0, t') \<and> ok t' \<and> number t' = (number t)(a := number t a - 1)"
    and decrease_unknown: "ok t \<Longrightarrow> number t a = 0 \<Longrightarrow> decrease t a = (1, t)"
begin

lemma increase_cases:
  assumes "ok t"
  obtains (admitted) t' where "increase limit True t a = (0, t')" "ok t'" "number t' = (number t)(a := number t a + 1)"
      "number t' a \<le> max 1 limit"
    | (refused) "increase limit True t a = (1, t)" "limit \<le> number t a"
proof (cases "number t a = 0 \<or> number t a < limit")
  case True
  then show thesis using increase_admits [OF assms True] that(1) by fastforce
next
  case False
  then show thesis using increase_refuses [OF assms] that(2) by simp
qed

lemma increase_decrease:
  assumes "ok t" "increase limit True t a = (0, t')"
  shows "\<exists>t''. decrease t' a = (0, t'') \<and> ok t'' \<and> number t'' = number t"
proof (cases rule: increase_cases [OF assms(1), of limit a, case_names admitted refused])
  case (admitted t1)
  then have "ok t'" "number t' = (number t)(a := number t a + 1)" using assms(2) by auto
  moreover have "number t' a \<noteq> 0" using calculation number_nonneg [OF assms(1), of a] by simp
  ultimately show ?thesis using decrease_known by fastforce
qed (use assms in simp)

text \<open>A limit is kept, whatever sequence of connections and disconnections.\<close>

fun count_events :: "int \<Rightarrow> (bool \<times> 'a) list \<Rightarrow> 't \<Rightarrow> 't" where
  "count_events limit [] t = t"
| "count_events limit ((up, a) # evs) t =
     count_events limit evs (snd (if up then increase limit True t a else decrease t a))"

lemma limit_kept:
  assumes "ok t" "\<forall>a. number t a \<le> max 1 limit"
  shows "ok (count_events limit evs t) \<and> (\<forall>a. number (count_events limit evs t) a \<le> max 1 limit)"
  using assms
proof (induction limit evs t rule: count_events.induct)
  case (2 limit up a evs t)
  have "ok (snd (increase limit True t a)) \<and> (\<forall>b. number (snd (increase limit True t a)) b \<le> max 1 limit)"
    using 2(2,3) by (cases rule: increase_cases [OF 2(2), of limit a]) auto
  moreover have "ok (snd (decrease t a)) \<and> (\<forall>b. number (snd (decrease t a)) b \<le> max 1 limit)"
  proof (cases "number t a = 0")
    case False
    obtain t' where t': "decrease t a = (0, t')" "ok t'" "number t' = (number t)(a := number t a - 1)"
      using decrease_known [OF 2(2) False] by blast
    have "number t b \<le> max 1 limit" for b using 2(3) by blast
    moreover have "number t a - 1 \<le> max 1 limit" using calculation [of a] by linarith
    ultimately have "number t' b \<le> max 1 limit" for b unfolding t'(3) by simp
    then show ?thesis using t'(1,2) by simp
  qed (use 2(2,3) decrease_unknown in simp)
  ultimately show ?case using 2(1) by (cases up) auto
qed simp

end

section \<open>The counters of \<open>IpLimitsHash.c\<close> keep the contract\<close>

fun chain_count :: "ip \<Rightarrow> ip_limits list \<Rightarrow> int" where
  "chain_count a [] = 0"
| "chain_count a (p # ps) = (if il_ip p = a then il_count p else chain_count a ps)"

definition ip_count :: "ip_table \<Rightarrow> ip \<Rightarrow> int" where
  "ip_count t a = chain_count a (t (ip_index a))"

definition ip_chain_ok :: "nat \<Rightarrow> ip_limits list \<Rightarrow> bool" where
  "ip_chain_ok i ps \<longleftrightarrow> distinct (map il_ip ps) \<and> (\<forall>p \<in> set ps. ip_index (il_ip p) = i \<and> 0 < il_count p)"

definition ip_table_ok :: "ip_table \<Rightarrow> bool" where
  "ip_table_ok t \<longleftrightarrow> (\<forall>i. ip_chain_ok i (t i))"

lemma chain_count_pos: "\<forall>p \<in> set ps. 0 < il_count p \<Longrightarrow>
    0 \<le> chain_count a ps \<and> (chain_count a ps = 0 \<longleftrightarrow> a \<notin> il_ip ` set ps)"
  by (induction ps) auto

lemma absent_map: "a \<notin> il_ip ` set ps \<Longrightarrow> map (\<lambda>p. if il_ip p = a then f p else p) ps = ps"
  by (induction ps) auto

lemma absent_filter: "a \<notin> il_ip ` set ps \<Longrightarrow> filter (\<lambda>p. il_ip p \<noteq> a) ps = ps"
  by (induction ps) auto

lemma chain_count_member: "distinct (map il_ip ps) \<Longrightarrow> p \<in> set ps \<Longrightarrow> chain_count (il_ip p) ps = il_count p"
  by (induction ps) (auto dest: imageI [of _ _ il_ip])

lemma increase_chain_spec:
  assumes "ip_chain_ok i ps"
  shows "increase_chain limit a ps =
     (if chain_count a ps = 0 then None
      else if limit \<le> chain_count a ps then Some (1, ps)
      else Some (0, map (\<lambda>p. if il_ip p = a then p\<lparr>il_count := il_count p + 1\<rparr> else p) ps))"
  using assms
proof (induction ps)
  case (Cons p ps)
  have "il_ip p = a \<Longrightarrow> map (\<lambda>p. if il_ip p = a then p\<lparr>il_count := il_count p + 1\<rparr> else p) ps = ps"
    using Cons.prems by (intro absent_map) (auto simp: ip_chain_ok_def)
  moreover have "0 < il_count p" "ip_chain_ok i ps" using Cons.prems by (auto simp: ip_chain_ok_def)
  ultimately show ?case using Cons.IH by auto
qed simp

lemma decrease_chain_spec:
  assumes "ip_chain_ok i ps"
  shows "decrease_chain a ps =
     (if chain_count a ps = 0 then None
      else if chain_count a ps = 1 then Some (filter (\<lambda>p. il_ip p \<noteq> a) ps)
      else Some (map (\<lambda>p. if il_ip p = a then p\<lparr>il_count := il_count p - 1\<rparr> else p) ps))"
  using assms
proof (induction ps)
  case (Cons p ps)
  have "il_ip p = a \<Longrightarrow> map (\<lambda>p. if il_ip p = a then p\<lparr>il_count := il_count p - 1\<rparr> else p) ps = ps"
    using Cons.prems by (intro absent_map) (auto simp: ip_chain_ok_def)
  moreover have "il_ip p = a \<Longrightarrow> filter (\<lambda>p. il_ip p \<noteq> a) ps = ps"
    using Cons.prems by (intro absent_filter) (auto simp: ip_chain_ok_def)
  moreover have "0 < il_count p" "ip_chain_ok i ps" using Cons.prems by (auto simp: ip_chain_ok_def)
  ultimately show ?case using Cons.IH by auto
qed simp

lemma chain_count_map: "chain_count b (map (\<lambda>p. if il_ip p = a then p\<lparr>il_count := f (il_count p)\<rparr> else p) ps)
    = (if b = a \<and> a \<in> il_ip ` set ps then f (chain_count a ps) else chain_count b ps)"
  by (induction ps) auto

lemma chain_count_filter: "chain_count b (filter (\<lambda>p. il_ip p \<noteq> a) ps) = (if b = a then 0 else chain_count b ps)"
  by (induction ps) auto

lemma changed_chain_ok:
  assumes "ip_chain_ok i ps" "0 < f (chain_count a ps)"
  shows "ip_chain_ok i (map (\<lambda>p. if il_ip p = a then p\<lparr>il_count := f (il_count p)\<rparr> else p) ps)"
proof -
  let ?g = "\<lambda>p. if il_ip p = a then p\<lparr>il_count := f (il_count p)\<rparr> else p"
  have "il_ip \<circ> ?g = il_ip" by auto
  then have m: "map il_ip (map ?g ps) = map il_ip ps" by simp
  have "p \<in> set ps \<Longrightarrow> il_ip p = a \<Longrightarrow> il_count p = chain_count a ps" for p
    using assms(1) chain_count_member by (auto simp: ip_chain_ok_def)
  then have "\<forall>p \<in> set (map ?g ps). ip_index (il_ip p) = i \<and> 0 < il_count p"
    using assms by (auto simp: ip_chain_ok_def)
  then show ?thesis using assms(1) unfolding ip_chain_ok_def m by blast
qed

lemma ip_table_upd:
  assumes "ip_table_ok t" "ip_chain_ok (ip_index a) ps" "chain_count a ps = n"
    and "\<And>b. b \<noteq> a \<Longrightarrow> chain_count b ps = chain_count b (t (ip_index a))"
  shows "ip_table_ok (t(ip_index a := ps)) \<and> ip_count (t(ip_index a := ps)) = (ip_count t)(a := n)"
proof
  show "ip_table_ok (t(ip_index a := ps))" using assms(1,2) by (simp add: ip_table_ok_def)
  show "ip_count (t(ip_index a := ps)) = (ip_count t)(a := n)"
    using assms(3,4) by (fastforce simp: fun_eq_iff ip_count_def)
qed

interpretation ip_counter: connection_counter ip_table_ok ip_count IncreaseIpLimitsHashNode DecreaseIpLimitsHashNode
proof
  fix t a limit alloc
  assume ok: "ip_table_ok t"
  let ?ps = "t (ip_index a)"
  have c: "ip_chain_ok (ip_index a) ?ps" using ok by (simp add: ip_table_ok_def)
  note pos = chain_count_pos [of ?ps a] and inc = increase_chain_spec [OF c, of _ a] and dec = decrease_chain_spec [OF c, of a]
  have pos': "0 \<le> chain_count a ?ps" "chain_count a ?ps = 0 \<longleftrightarrow> a \<notin> il_ip ` set ?ps"
    using pos c by (auto simp: ip_chain_ok_def)
  show "0 \<le> ip_count t a" using pos' by (simp add: ip_count_def)
  show "IncreaseIpLimitsHashNode limit alloc t a = (1, t)" if "ip_count t a \<noteq> 0" "limit \<le> ip_count t a"
    using that by (simp add: IncreaseIpLimitsHashNode_def inc ip_count_def)
  show "DecreaseIpLimitsHashNode t a = (1, t)" if "ip_count t a = 0"
    using that by (simp add: DecreaseIpLimitsHashNode_def dec ip_count_def)
  show "t' = t" if "IncreaseIpLimitsHashNode limit False t a = (nret, t')" "nret = - 1" for nret t'
    using that by (auto simp: IncreaseIpLimitsHashNode_def inc Let_def split: if_splits)
  show "\<exists>t'. IncreaseIpLimitsHashNode limit True t a = (0, t') \<and> ip_table_ok t'
      \<and> ip_count t' = (ip_count t)(a := ip_count t a + 1)" if adm: "ip_count t a = 0 \<or> ip_count t a < limit"
  proof (cases "ip_count t a = 0")
    case True
    let ?new = "\<lparr>il_ip = a, il_count = 1\<rparr> # ?ps"
    have "ip_chain_ok (ip_index a) ?new" using c pos' True by (auto simp: ip_chain_ok_def ip_count_def)
    from ip_table_upd [OF ok this, of 1] True show ?thesis
      by (auto simp: IncreaseIpLimitsHashNode_def inc ip_count_def Let_def)
  next
    case False
    let ?new = "map (\<lambda>p. if il_ip p = a then p\<lparr>il_count := il_count p + 1\<rparr> else p) ?ps"
    have "ip_chain_ok (ip_index a) ?new"
      by (rule changed_chain_ok [OF c]) (use pos'(1) in linarith)
    from ip_table_upd [OF ok this] False adm pos' show ?thesis
      by (auto simp: IncreaseIpLimitsHashNode_def inc ip_count_def chain_count_map [where f = "\<lambda>n. n + 1"] Let_def)
  qed
  show "\<exists>t'. DecreaseIpLimitsHashNode t a = (0, t') \<and> ip_table_ok t'
      \<and> ip_count t' = (ip_count t)(a := ip_count t a - 1)" if known: "ip_count t a \<noteq> 0"
  proof (cases "ip_count t a = 1")
    case True
    let ?new = "filter (\<lambda>p. il_ip p \<noteq> a) ?ps"
    have "ip_chain_ok (ip_index a) ?new" using c by (auto simp: ip_chain_ok_def distinct_map_filter)
    from ip_table_upd [OF ok this, of 0] True show ?thesis
      by (auto simp: DecreaseIpLimitsHashNode_def dec ip_count_def chain_count_filter Let_def)
  next
    case False
    let ?new = "map (\<lambda>p. if il_ip p = a then p\<lparr>il_count := il_count p - 1\<rparr> else p) ?ps"
    have "ip_chain_ok (ip_index a) ?new"
      by (rule changed_chain_ok [OF c]) (use known False pos'(1) in \<open>simp add: ip_count_def\<close>)
    from ip_table_upd [OF ok this] False known pos' show ?thesis
      by (auto simp: DecreaseIpLimitsHashNode_def dec ip_count_def chain_count_map [where f = "\<lambda>n. n - 1"] Let_def)
  qed
qed

end
