(* ===== verification/HttpUri.thy ===== *)
theory HttpUri
  imports Prelude
begin

text \<open>
  \<open>SplitHttpUri\<close> (\<open>fasterhttp.c\<close>): the division of a request URI into directory, file name, extension and
  parameters.  A pointer into the URI is its offset.  The file system is the parameter \<open>stat\<close>: the
  answer of \<open>stat(2)\<close> for a path, \<open>None\<close> for failure, \<open>Some True\<close> for a directory.
\<close>

record http_uri =
  dirname_base :: nat
  dirname_len :: int
  filename_base :: nat
  filename_len :: int
  main_filename_base :: nat
  main_filename_len :: int
  ext_filename_base :: nat
  ext_filename_len :: int
  param_base :: nat
  param_len :: int

definition zero_uri :: http_uri where
  "zero_uri = \<lparr>dirname_base = 0, dirname_len = 0, filename_base = 0, filename_len = 0, main_filename_base = 0,
     main_filename_len = 0, ext_filename_base = 0, ext_filename_len = 0, param_base = 0, param_len = 0\<rparr>"

type_synonym stat_call = "bytes \<Rightarrow> bool option"

abbreviation SLASH :: char where "SLASH \<equiv> CHR 0x2F"
abbreviation DOT :: char where "DOT \<equiv> CHR 0x2E"
abbreviation QUESTION :: char where "QUESTION \<equiv> CHR 0x3F"

text \<open>The search from the end for the last slash.\<close>

definition last_slash :: "bytes \<Rightarrow> nat option" where
  "last_slash uri =
     (let k = length (takeWhile (\<lambda>c. c \<noteq> SLASH) (rev uri)) in
      if k = length uri then None else Some (length uri - 1 - k))"

text \<open>The loop behind it: the last dot in front of the first question mark, and the last question mark;
  \<open>p\<close> is the offset of the remaining bytes.\<close>

fun dot_question :: "nat \<Rightarrow> bytes \<Rightarrow> nat option \<Rightarrow> nat option \<Rightarrow> nat option \<times> nat option" where
  "dot_question p [] dot question = (dot, question)"
| "dot_question p (c # cs) dot question =
     (if c = DOT \<and> question = None then dot_question (Suc p) cs (Some p) question
      else if c = QUESTION then dot_question (Suc p) cs dot (Some p)
      else dot_question (Suc p) cs dot question)"

text \<open>\<open>snprintf(pathfilename, 257, "%s%s%.*s", wwwroot, sep, len, uri)\<close>\<close>

definition stat_path :: "bytes \<Rightarrow> bytes \<Rightarrow> nat \<Rightarrow> bytes \<Rightarrow> bytes" where
  "stat_path wwwroot sep len uri = take 256 (wwwroot @ sep @ cstr (take len uri))"

definition uri_parts :: "nat \<Rightarrow> int \<Rightarrow> nat \<Rightarrow> int \<Rightarrow> nat \<Rightarrow> int \<Rightarrow> nat \<Rightarrow> int \<Rightarrow> nat \<Rightarrow> int \<Rightarrow> http_uri" where
  "uri_parts db dl fb fl mb ml eb el pb pl =
     \<lparr>dirname_base = db, dirname_len = dl, filename_base = fb, filename_len = fl, main_filename_base = mb,
      main_filename_len = ml, ext_filename_base = eb, ext_filename_len = el, param_base = pb, param_len = pl\<rparr>"

text \<open>A URI without a slash.\<close>

definition split_plain :: "stat_call \<Rightarrow> bytes option \<Rightarrow> bytes \<Rightarrow> nat option \<Rightarrow> nat option \<Rightarrow> (int \<times> http_uri option) option" where
  "split_plain stat wwwroot uri dot question =
     (let e = length uri in
      case (dot, question) of
        (None, None) \<Rightarrow>
          (case wwwroot of
             None \<Rightarrow> Some (1, None)
           | Some root \<Rightarrow>
               (case stat (stat_path root [SLASH] e uri) of
                  None \<Rightarrow> Some (- 1, None)
                | Some True \<Rightarrow> Some (0, Some (uri_parts 0 (int e) 0 0 0 0 e 0 e 0))
                | Some False \<Rightarrow> Some (0, Some (uri_parts 0 0 0 (int e) 0 (int e) e 0 e 0))))
      | (None, Some q) \<Rightarrow>
          (case wwwroot of
             None \<Rightarrow> None
           | Some root \<Rightarrow>
               (case stat (stat_path root [SLASH] q uri) of
                  None \<Rightarrow> Some (- 9, None)
                | Some True \<Rightarrow> Some (0, Some (uri_parts 0 (int q) 0 0 0 0 q 0 (q + 1) (int e - int (q + 1))))
                | Some False \<Rightarrow> Some (0, Some (uri_parts 0 0 0 (int q) 0 (int q) q 0 (q + 1) (int e - int (q + 1))))))
      | (Some d, None) \<Rightarrow>
          Some (0, Some (uri_parts 0 0 0 (int e) 0 (int d) (d + 1) (int e - int (d + 1)) e 0))
      | (Some d, Some q) \<Rightarrow>
          Some (0, Some (uri_parts 0 0 0 (int q) 0 (int d) (d + 1) (int q - int (d + 1)) (q + 1) (int e - int (q + 1)))))"

text \<open>A URI with the last slash at \<open>s\<close>.\<close>

definition split_slash :: "stat_call \<Rightarrow> bytes option \<Rightarrow> bytes \<Rightarrow> nat \<Rightarrow> nat option \<Rightarrow> nat option \<Rightarrow> (int \<times> http_uri option) option" where
  "split_slash stat wwwroot uri s dot question =
     (let e = length uri in
      case (dot, question) of
        (None, None) \<Rightarrow>
          (case wwwroot of
             None \<Rightarrow> Some (1001, None)
           | Some root \<Rightarrow>
               (case stat (stat_path root [] e uri) of
                  None \<Rightarrow> Some (- 1001, None)
                | Some True \<Rightarrow> Some (0, Some (uri_parts 0 (int e) 0 0 0 0 e 0 e 0))
                | Some False \<Rightarrow> Some (0, Some (uri_parts 0 (int s) (s + 1) (int e - int (s + 1)) (s + 1) (int e - int (s + 1))
                                                 (s + 1) 0 (s + 1) 0))))
      | (None, Some q) \<Rightarrow>
          (case wwwroot of
             None \<Rightarrow> None
           | Some root \<Rightarrow>
               (case stat (stat_path root [] q uri) of
                  None \<Rightarrow> Some (- 1011, None)
                | Some True \<Rightarrow> Some (0, Some (uri_parts 0 (int q) 0 0 q 0 q 0 (q + 1) (int e - int (q + 1))))
                | Some False \<Rightarrow> Some (0, Some (uri_parts 0 (int s) (s + 1) (int q - int (s + 1)) (s + 1) (int q - int (s + 1))
                                                 (s + 1) 0 (q + 1) (int e - int (q + 1))))))
      | (Some d, None) \<Rightarrow>
          Some (0, Some (uri_parts 0 (int s) (s + 1) (int e - int s) (s + 1) (int d - int (s + 1)) (d + 1)
                           (int e - int (d + 1)) 0 0))
      | (Some d, Some q) \<Rightarrow>
          Some (0, Some (uri_parts 0 (int s) (s + 1) (int q - int (s + 1)) (s + 1) (int d - int (s + 1)) (d + 1)
                           (int q - int (d + 1)) (q + 1) (int e - int (q + 1)))))"

text \<open>The result code, and the parts (\<open>None\<close>: the structure is left as it is).\<close>

definition SplitHttpUri :: "stat_call \<Rightarrow> bytes option \<Rightarrow> bytes \<Rightarrow> (int \<times> http_uri option) option" where
  "SplitHttpUri stat wwwroot uri =
     (case last_slash uri of
        None \<Rightarrow> let (dot, question) = dot_question 0 uri None None in split_plain stat wwwroot uri dot question
      | Some s \<Rightarrow> let (dot, question) = dot_question (s + 1) (drop (s + 1) uri) None None in
                  split_slash stat wwwroot uri s dot question)"

text \<open>The text of a part.\<close>

definition part :: "bytes \<Rightarrow> nat \<Rightarrow> int \<Rightarrow> bytes" where
  "part uri base len = slice base (nat len) uri"

section \<open>Theorems\<close>

lemma last_slash_found: "SLASH \<notin> set t \<Longrightarrow> last_slash (dir @ SLASH # t) = Some (length dir)"
proof -
  assume "SLASH \<notin> set t"
  then have "takeWhile (\<lambda>c. c \<noteq> SLASH) (rev t @ SLASH # rev dir) = rev t"
    by (subst takeWhile_append2) (auto simp: in_set_conv_decomp)
  then show ?thesis by (simp add: last_slash_def Let_def)
qed

lemma dot_question_name:
  "QUESTION \<notin> set s \<Longrightarrow> DOT \<notin> set s \<Longrightarrow> dot_question p (s @ r) dot q = dot_question (p + length s) r dot q"
  by (induction s arbitrary: p) auto

lemma dot_question_params:
  "QUESTION \<notin> set s \<Longrightarrow> dot_question p s dot (Some q) = (dot, Some q)"
  by (induction s arbitrary: p) auto

lemma dot_question_last_dot:
  assumes "QUESTION \<notin> set main" "QUESTION \<notin> set ext" "DOT \<notin> set ext"
  shows "dot_question p (main @ DOT # ext @ r) dot None =
    dot_question (p + length main + 1 + length ext) r (Some (p + length main)) None"
  using assms
proof (induction main arbitrary: p dot)
  case Nil
  then show ?case using dot_question_name [of ext "Suc p" r "Some p" None] by simp
qed auto

lemma part_middle: "base = length a \<Longrightarrow> len = int (length b) \<Longrightarrow> part (a @ b @ c) base len = b"
  by (simp add: part_def slice_def)

text \<open>A URI of a file with an extension, below a directory, with or without parameters, is divided at
  the last slash, the last dot and the question mark.\<close>

lemma split_file_with_params:
  fixes dir main ext params :: bytes
  assumes "SLASH \<notin> set (main @ ext @ params)" "QUESTION \<notin> set (main @ ext @ params)" "DOT \<notin> set ext"
  defines "uri \<equiv> dir @ SLASH # main @ DOT # ext @ QUESTION # params"
  shows "\<exists>p. SplitHttpUri stat wwwroot uri = Some (0, Some p)
     \<and> part uri (dirname_base p) (dirname_len p) = dir
     \<and> part uri (filename_base p) (filename_len p) = main @ DOT # ext
     \<and> part uri (main_filename_base p) (main_filename_len p) = main
     \<and> part uri (ext_filename_base p) (ext_filename_len p) = ext
     \<and> part uri (param_base p) (param_len p) = params"
proof -
  let ?d = "length dir"
  have s: "last_slash uri = Some ?d"
    unfolding uri_def by (rule last_slash_found) (use assms(1) in auto)
  have dq: "dot_question (?d + 1) (drop (?d + 1) uri) None None
      = (Some (?d + 1 + length main), Some (?d + 1 + length main + 1 + length ext))"
    using assms(2,3) by (simp add: uri_def dot_question_last_dot dot_question_params)
  have "part uri 0 (int ?d) = dir" "part uri (?d + 1) (int (1 + length main + length ext)) = main @ DOT # ext"
    "part uri (?d + 1) (int (length main)) = main" "part uri (?d + length main + 2) (int (length ext)) = ext"
    "part uri (?d + length main + length ext + 3) (int (length params)) = params"
    using part_middle [of _ "[]" _ dir] part_middle [of _ "dir @ [SLASH]" _ "main @ DOT # ext" "QUESTION # params"]
      part_middle [of _ "dir @ [SLASH]" _ main] part_middle [of _ "dir @ SLASH # main @ [DOT]" _ ext]
      part_middle [of _ "dir @ SLASH # main @ DOT # ext @ [QUESTION]" _ params "[]"]
    by (simp_all add: uri_def eval_nat_numeral add.assoc)
  then show ?thesis
    unfolding SplitHttpUri_def s using dq
    by (simp add: split_slash_def uri_parts_def uri_def algebra_simps eval_nat_numeral)
qed

lemma split_file:
  fixes dir main ext :: bytes
  assumes "SLASH \<notin> set (main @ ext)" "QUESTION \<notin> set (main @ ext)" "DOT \<notin> set ext"
  defines "uri \<equiv> dir @ SLASH # main @ DOT # ext"
  shows "\<exists>p. SplitHttpUri stat wwwroot uri = Some (0, Some p)
     \<and> part uri (dirname_base p) (dirname_len p) = dir
     \<and> part uri (main_filename_base p) (main_filename_len p) = main
     \<and> part uri (ext_filename_base p) (ext_filename_len p) = ext
     \<and> param_len p = 0
     \<and> filename_len p = int (length (main @ DOT # ext)) + 1"
proof -
  let ?d = "length dir"
  have s: "last_slash uri = Some ?d"
    unfolding uri_def by (rule last_slash_found) (use assms(1) in auto)
  have dq: "dot_question (?d + 1) (drop (?d + 1) uri) None None = (Some (?d + 1 + length main), None)"
    using assms(2,3) dot_question_last_dot [of main ext "?d + 1" "[]" None] by (simp add: uri_def)
  show ?thesis
    unfolding SplitHttpUri_def s using dq
    by (simp add: split_slash_def uri_parts_def part_def slice_def uri_def)
qed

text \<open>A slash among the parameters is taken for the last slash of the path: without a dot or a question
  mark behind it, the file system is asked for the whole URI, parameters included.\<close>

lemma split_slash_in_params:
  assumes "SLASH \<notin> set t" "DOT \<notin> set t" "QUESTION \<notin> set t" "is_cstr (head @ SLASH # t)"
    and "stat (take 256 (root @ head @ SLASH # t)) = None"
  shows "SplitHttpUri stat (Some root) (head @ SLASH # t) = Some (- 1001, None)"
proof -
  have "dot_question (length head + 1) t None None = (None, None)"
    using dot_question_name [of t "length head + 1" "[]" None None] assms(2,3) by simp
  then show ?thesis
    using assms(4,5) by (simp add: SplitHttpUri_def last_slash_found [OF assms(1)] split_slash_def stat_path_def)
qed

end
