(* ===== verification/HetaoState.thy ===== *)
theory HetaoState
  imports HetaoIndex HetaoHash HttpUri HttpTransport
begin

text \<open>
  The state of a worker of the server (\<open>hetao_in.h\<close>).  Structures that are referred to by pointers
  (sessions, forward servers, virtual hosts, listeners, cached pages) live in functions from addresses,
  natural numbers, to records; a pointer is an address, a null pointer \<open>None\<close>.  The services of the
  operating system and of OpenSSL that the server uses are the record \<open>'w sys\<close>, over a world of type \<open>'w\<close>.
\<close>

section \<open>Structures\<close>

record net_address =
  na_ip :: bytes
  na_port :: int
  na_sock :: int
  na_addr :: ip  \<comment> \<open>\<open>addr.sin_addr.s_addr\<close>\<close>

record rewrite_uri =
  rw_pattern :: bytes
  rw_new_uri :: bytes

record forward_server =
  timestamp_to_valid :: int
  fs_netaddr :: net_address
  connection_count :: int

record virtual_host =
  domain :: bytes
  wwwroot :: bytes
  index_files :: bytes
  access_log :: bytes
  access_log_fd :: int
  rewrite_uri_list :: "rewrite_uri list"
  forward_type :: bytes
  forward_rule :: bytes
  roundrobin_list :: "nat list"
  leastconnection_rbtree :: "nat rb_tree"
  forward_ssl_ctx :: bool
  p_redirect_domain_default :: "redirect_domain option"
  redirects :: redirect_table

record listen_session =
  ls_netaddr :: net_address
  ls_ssl_ctx :: bool
  p_virtual_host_default :: "nat option"
  virtual_host_hash :: "nat list list"

text \<open>The memory area that \<open>http_buf\<close> of a session refers to: one of the three contents of a cached page.\<close>

datatype content_ref = Html nat | Html_gzip nat | Html_deflate nat

abbreviation (input) HTTPSESSION_FLAGS_CONNECTING :: int where "HTTPSESSION_FLAGS_CONNECTING \<equiv> 1"
abbreviation (input) HTTPSESSION_FLAGS_CONNECTED :: int where "HTTPSESSION_FLAGS_CONNECTED \<equiv> 2"

record http_session =
  p_listen_session :: "nat option"
  session_flag :: int
  netaddr :: net_address
  p_virtual_host :: "nat option"
  session_uri :: http_uri
  http :: http_env
  http_buf :: http_buffer
  http_buf_base :: "content_ref option"
  ssl :: bool
  ssl_accepted :: bool
  forward_flags :: int
  p_forward_server :: "nat option"
  forward_netaddr :: net_address
  forward_http :: http_env
  forward_ssl :: bool
  forward_ssl_connected :: bool
  timeout_timestamp :: int
  elapse_timestamp :: int

text \<open>\<open>st\<close> is reduced to what the code reads of it: whether it is a directory, and the size.\<close>

record htmlcache_session =
  pathfilename :: bytes
  st_directory :: bool
  st_size :: int
  html_content :: "bytes option"
  html_gzip_content :: "bytes option"
  html_deflate_content :: "bytes option"
  wd :: int

record hetao_env =
  limits__max_http_session_count :: int
  limits__max_file_cache :: int
  limits__max_connections_per_ip :: int
  http_options__timeout :: int
  http_options__elapse :: int
  http_options__compress_on :: bool
  http_options__forward_disable :: int
  new_uri_re :: bool  \<comment> \<open>whether the pattern for templates has been compiled\<close>
  mime_type_hash :: "mime_type list list"
  listens :: "nat \<Rightarrow> listen_session"
  hosts :: "nat \<Rightarrow> virtual_host"
  servers :: "nat \<Rightarrow> forward_server"
  caches :: "nat \<Rightarrow> htmlcache_session"
  htmlcache_session_list :: "nat list"
  htmlcache_session_count :: int
  htmlcache_wd_rbtree :: "nat rb_tree"
  htmlcache_pathfilename_rbtree :: "nat rb_tree"
  next_cache :: nat  \<comment> \<open>the next address that \<open>malloc\<close> hands out for a cached page\<close>
  sessions :: "nat \<Rightarrow> http_session"
  next_session :: nat
  http_session_used_count :: int
  http_session_unused_list :: "nat list"
  http_session_unused_count :: int
  http_session_timeout_rbtree_used :: "nat rb_tree"
  http_session_elapse_rbtree_used :: "nat rb_tree"
  iplimits_hash :: ip_table
  http_lib_state :: http_lib  \<comment> \<open>the globals of \<open>fasterhttp.c\<close>\<close>

section \<open>The operating system and OpenSSL\<close>

datatype epoll_op = EPOLL_CTL_ADD | EPOLL_CTL_MOD | EPOLL_CTL_DEL

text \<open>The event sets that the code registers.\<close>

datatype epoll_events = EPOLLIN_ERR | EPOLLOUT_ERR | EPOLLRDHUP_ERR | NO_EVENTS

datatype accept_result = Accepted int ip nat | Accept_failed int  \<comment> \<open>socket, address and port; or \<open>errno\<close>\<close>
datatype handshake = Handshake_done | Want_write | Want_read | Handshake_failed

record 'w sys =
  sys_now :: "'w \<Rightarrow> int \<times> 'w"  \<comment> \<open>\<open>GETSECONDSTAMP\<close>, which the timer thread advances\<close>
  sys_epoll_ctl :: "epoll_op \<Rightarrow> int \<Rightarrow> epoll_events \<Rightarrow> 'w \<Rightarrow> int \<times> 'w"
  sys_close :: "int \<Rightarrow> 'w \<Rightarrow> 'w"
  sys_accept :: "int \<Rightarrow> 'w \<Rightarrow> accept_result \<times> 'w"
  sys_socket :: "'w \<Rightarrow> int \<times> 'w"
  sys_connect :: "int \<Rightarrow> net_address \<Rightarrow> 'w \<Rightarrow> int option \<times> 'w"  \<comment> \<open>\<open>None\<close>: connected; otherwise \<open>errno\<close>\<close>
  sys_so_error :: "int \<Rightarrow> 'w \<Rightarrow> bool \<times> 'w"  \<comment> \<open>whether \<open>getsockopt(SO_ERROR)\<close> reports a failed connection\<close>
  sys_ssl_new :: "'w \<Rightarrow> bool \<times> 'w"
  sys_ssl_handshake :: "int \<Rightarrow> 'w \<Rightarrow> handshake \<times> 'w"
  sys_ssl_free :: "int \<Rightarrow> 'w \<Rightarrow> 'w"
  sys_os :: "int \<Rightarrow> bool \<Rightarrow> 'w os"  \<comment> \<open>transfer on a socket, through OpenSSL or directly\<close>
  sys_stat :: "'w \<Rightarrow> bytes \<Rightarrow> (bool \<times> int) option"  \<comment> \<open>directory?, size; \<open>None\<close>: failure\<close>
  sys_file :: "'w \<Rightarrow> bytes \<Rightarrow> bytes option"  \<comment> \<open>what can be read of a file; \<open>None\<close>: it cannot be opened\<close>
  sys_add_watch :: "bytes \<Rightarrow> 'w \<Rightarrow> int \<times> 'w"  \<comment> \<open>\<open>inotify_add_watch\<close>\<close>
  sys_rm_watch :: "int \<Rightarrow> 'w \<Rightarrow> 'w"
  sys_notified :: "'w \<Rightarrow> int list option \<times> 'w"  \<comment> \<open>the descriptors of the events read; \<open>None\<close>: nothing read\<close>
  sys_pcre :: "bytes \<Rightarrow> bytes \<Rightarrow> nat \<Rightarrow> int \<times> int list"  \<comment> \<open>\<open>pcre_exec\<close>: pattern, subject, size of the vector\<close>
  sys_datetime :: "'w \<Rightarrow> bytes"
  sys_write :: "int \<Rightarrow> bytes \<Rightarrow> 'w \<Rightarrow> 'w"

section \<open>Updates\<close>

definition upd_session :: "nat \<Rightarrow> (http_session \<Rightarrow> http_session) \<Rightarrow> hetao_env \<Rightarrow> hetao_env" where
  "upd_session a f env = env\<lparr>sessions := (sessions env)(a := f (sessions env a))\<rparr>"

definition upd_server :: "nat \<Rightarrow> (forward_server \<Rightarrow> forward_server) \<Rightarrow> hetao_env \<Rightarrow> hetao_env" where
  "upd_server a f env = env\<lparr>servers := (servers env)(a := f (servers env a))\<rparr>"

definition upd_host :: "nat \<Rightarrow> (virtual_host \<Rightarrow> virtual_host) \<Rightarrow> hetao_env \<Rightarrow> hetao_env" where
  "upd_host a f env = env\<lparr>hosts := (hosts env)(a := f (hosts env a))\<rparr>"

lemma upd_session_simps [simp]:
  "sessions (upd_session a f env) = (sessions env)(a := f (sessions env a))"
  "servers (upd_session a f env) = servers env" "hosts (upd_session a f env) = hosts env"
  "next_session (upd_session a f env) = next_session env"
  "http_session_unused_list (upd_session a f env) = http_session_unused_list env"
  "http_session_unused_count (upd_session a f env) = http_session_unused_count env"
  "http_session_used_count (upd_session a f env) = http_session_used_count env"
  "http_session_timeout_rbtree_used (upd_session a f env) = http_session_timeout_rbtree_used env"
  "http_session_elapse_rbtree_used (upd_session a f env) = http_session_elapse_rbtree_used env"
  "iplimits_hash (upd_session a f env) = iplimits_hash env"
  "limits__max_connections_per_ip (upd_session a f env) = limits__max_connections_per_ip env"
  "limits__max_http_session_count (upd_session a f env) = limits__max_http_session_count env"
  "http_options__timeout (upd_session a f env) = http_options__timeout env"
  "http_options__elapse (upd_session a f env) = http_options__elapse env"
  "http_lib_state (upd_session a f env) = http_lib_state env"
  by (simp_all add: upd_session_def)

lemma upd_server_simps [simp]:
  "servers (upd_server a f env) = (servers env)(a := f (servers env a))"
  "sessions (upd_server a f env) = sessions env" "hosts (upd_server a f env) = hosts env"
  "next_session (upd_server a f env) = next_session env"
  "http_session_unused_list (upd_server a f env) = http_session_unused_list env"
  "http_session_unused_count (upd_server a f env) = http_session_unused_count env"
  "http_session_used_count (upd_server a f env) = http_session_used_count env"
  "http_session_timeout_rbtree_used (upd_server a f env) = http_session_timeout_rbtree_used env"
  "http_session_elapse_rbtree_used (upd_server a f env) = http_session_elapse_rbtree_used env"
  "iplimits_hash (upd_server a f env) = iplimits_hash env"
  "limits__max_connections_per_ip (upd_server a f env) = limits__max_connections_per_ip env"
  "limits__max_http_session_count (upd_server a f env) = limits__max_http_session_count env"
  "http_options__timeout (upd_server a f env) = http_options__timeout env"
  "http_options__elapse (upd_server a f env) = http_options__elapse env"
  by (simp_all add: upd_server_def)

section \<open>Integers\<close>

text \<open>The conversion of a \<open>time_t\<close> to a 32 bit \<open>int\<close>, and the addition of such integers.\<close>

definition c_int :: "int \<Rightarrow> int" where
  "c_int n = signed_take_bit 31 n"

lemma c_int_id [simp]: "- (2 ^ 31) \<le> n \<Longrightarrow> n < 2 ^ 31 \<Longrightarrow> c_int n = n"
  unfolding c_int_def by (rule signed_take_bit_int_eq_self) simp_all

section \<open>Constant structures\<close>

definition zero_netaddr :: net_address where
  "zero_netaddr = \<lparr>na_ip = [], na_port = 0, na_sock = 0, na_addr = 0\<rparr>"

end
