(* ===== verification/HetaoSession.thy ===== *)
theory HetaoSession
  imports HetaoState
begin

text \<open>
  The pool of HTTP sessions (\<open>HttpSession.c\<close>, \<open>HttpSessionTimeoutTree.c\<close>, \<open>HttpSessionElapseTree.c\<close>):
  growing the pool, fetching a session for a new connection, releasing it, the two trees of deadlines,
  and the sweep of the worker over expired sessions.  The theorems: the pool invariant, what a sweep
  releases, the bound on the sessions per address, and the fate of a session that is released twice.
\<close>

section \<open>The trees of deadlines\<close>

abbreviation timeout_key :: "hetao_env \<Rightarrow> nat \<Rightarrow> int" where
  "timeout_key env a \<equiv> timeout_timestamp (sessions env a)"
abbreviation elapse_key :: "hetao_env \<Rightarrow> nat \<Rightarrow> int" where
  "elapse_key env a \<equiv> elapse_timestamp (sessions env a)"

definition AddHttpSessionTimeoutTreeNode :: "hetao_env \<Rightarrow> nat \<Rightarrow> (int \<times> hetao_env) option" where
  "AddHttpSessionTimeoutTreeNode env a =
     map_option (\<lambda>t. (0, env\<lparr>http_session_timeout_rbtree_used := t\<rparr>))
       (add_node (timeout_key env) a (http_session_timeout_rbtree_used env))"

definition RemoveHttpSessionTimeoutTreeNode :: "hetao_env \<Rightarrow> nat \<Rightarrow> hetao_env option" where
  "RemoveHttpSessionTimeoutTreeNode env a =
     map_option (\<lambda>t. env\<lparr>http_session_timeout_rbtree_used := t\<rparr>) (rb_erase a (http_session_timeout_rbtree_used env))"

definition UpdateHttpSessionTimeoutTreeNode :: "hetao_env \<Rightarrow> nat \<Rightarrow> int \<Rightarrow> (int \<times> hetao_env) option" where
  "UpdateHttpSessionTimeoutTreeNode env a t =
     do { env \<leftarrow> RemoveHttpSessionTimeoutTreeNode env a;
          AddHttpSessionTimeoutTreeNode (upd_session a (\<lambda>s. s\<lparr>timeout_timestamp := t\<rparr>) env) a }"

definition GetExpireHttpSessionTimeoutTreeNode :: "'w sys \<Rightarrow> hetao_env \<Rightarrow> 'w \<Rightarrow> nat option \<times> 'w" where
  "GetExpireHttpSessionTimeoutTreeNode sys env w =
     (case rb_first (http_session_timeout_rbtree_used env) of
        None \<Rightarrow> (None, w)
      | Some a \<Rightarrow> let (now, w) = sys_now sys w in
                  (if timeout_timestamp (sessions env a) - now \<le> 0 then Some a else None, w))"

definition AddHttpSessionElapseTreeNode :: "hetao_env \<Rightarrow> nat \<Rightarrow> (int \<times> hetao_env) option" where
  "AddHttpSessionElapseTreeNode env a =
     map_option (\<lambda>t. (0, env\<lparr>http_session_elapse_rbtree_used := t\<rparr>))
       (add_node (elapse_key env) a (http_session_elapse_rbtree_used env))"

definition RemoveHttpSessionElapseTreeNode :: "hetao_env \<Rightarrow> nat \<Rightarrow> hetao_env option" where
  "RemoveHttpSessionElapseTreeNode env a =
     map_option (\<lambda>t. env\<lparr>http_session_elapse_rbtree_used := t\<rparr>) (rb_erase a (http_session_elapse_rbtree_used env))"

definition UpdateHttpSessionElapseTreeNode :: "hetao_env \<Rightarrow> nat \<Rightarrow> int \<Rightarrow> (int \<times> hetao_env) option" where
  "UpdateHttpSessionElapseTreeNode env a t =
     do { env \<leftarrow> RemoveHttpSessionElapseTreeNode env a;
          AddHttpSessionElapseTreeNode (upd_session a (\<lambda>s. s\<lparr>elapse_timestamp := t\<rparr>) env) a }"

definition GetExpireHttpSessionElapseTreeNode :: "'w sys \<Rightarrow> hetao_env \<Rightarrow> 'w \<Rightarrow> nat option \<times> 'w" where
  "GetExpireHttpSessionElapseTreeNode sys env w =
     (case rb_first (http_session_elapse_rbtree_used env) of
        None \<Rightarrow> (None, w)
      | Some a \<Rightarrow> let (now, w) = sys_now sys w in
                  (if elapse_timestamp (sessions env a) - now \<le> 0 then Some a else None, w))"

section \<open>Growing the pool\<close>

abbreviation INCRE_HTTP_SESSION_COUNT :: int where "INCRE_HTTP_SESSION_COUNT \<equiv> 100"

text \<open>\<open>memset\<close> of a session whose three allocated parts are \<open>h\<close>, \<open>b\<close> and \<open>f\<close>.\<close>

definition zero_session :: "http_env \<Rightarrow> http_buffer \<Rightarrow> http_env \<Rightarrow> http_session" where
  "zero_session h b f =
     \<lparr>p_listen_session = None, session_flag = 0, netaddr = zero_netaddr, p_virtual_host = None, session_uri = zero_uri,
      http = h, http_buf = b, http_buf_base = None, ssl = False, ssl_accepted = False, forward_flags = 0,
      p_forward_server = None, forward_netaddr = zero_netaddr, forward_http = f, forward_ssl = False,
      forward_ssl_connected = False, timeout_timestamp = 0, elapse_timestamp = 0\<rparr>"

text \<open>The loop of \<open>IncreaseHttpSessions\<close>, for \<open>n\<close> more sessions.  \<open>mem i\<close> says whether the \<open>i\<close>-th allocation
  of a structure succeeds.  \<open>AllocHttpBuffer2( 0 , NULL )\<close> makes a buffer without an area.\<close>

fun create_sessions :: "(nat \<Rightarrow> bool) \<Rightarrow> allocator \<Rightarrow> nat \<Rightarrow> nat \<Rightarrow> hetao_env \<Rightarrow> int \<times> hetao_env" where
  "create_sessions mem alloc i 0 env = (0, env)"
| "create_sessions mem alloc i (Suc n) env =
     (case CreateHttpEnv (mem i) alloc (http_lib_state env) of
        (None, l) \<Rightarrow> (- 1, env\<lparr>http_lib_state := l\<rparr>)
      | (Some h, l) \<Rightarrow>
          (case AllocHttpBuffer2 (mem (i + 1)) 0 [] of
             None \<Rightarrow> (- 1, env\<lparr>http_lib_state := l\<rparr>)
           | Some b \<Rightarrow>
               (case CreateHttpEnv (mem (i + 2)) alloc l of
                  (None, l) \<Rightarrow> (- 1, env\<lparr>http_lib_state := l\<rparr>)
                | (Some f, l) \<Rightarrow>
                    let a = next_session env;
                        s = zero_session (SetHttpTimeout h (- 1)) (b\<lparr>base := None\<rparr>) (SetHttpTimeout f (- 1)) in
                    create_sessions mem alloc (i + 3) n
                      (env\<lparr>http_lib_state := l, sessions := (sessions env)(a := s), next_session := a + 1,
                           http_session_unused_list := http_session_unused_list env @ [a]\<rparr>))))"

definition IncreaseHttpSessions :: "(nat \<Rightarrow> bool) \<Rightarrow> allocator \<Rightarrow> hetao_env \<Rightarrow> int \<Rightarrow> int \<times> hetao_env" where
  "IncreaseHttpSessions mem alloc env incre_count =
     (if http_session_used_count env \<ge> limits__max_http_session_count env then (1, env)
      else
        let incre_count = (if http_session_used_count env + incre_count > limits__max_http_session_count env
                           then limits__max_http_session_count env - http_session_used_count env else incre_count) in
        if \<not> mem 0 then (- 1, env)
        else if \<not> mem 1 then (- 1, env)
        else
          let (nret, env) = create_sessions mem alloc 2 (nat incre_count) env in
          if nret \<noteq> 0 then (nret, env)
          else (0, env\<lparr>http_session_unused_count := http_session_unused_count env + incre_count\<rparr>))"

section \<open>Fetching a session\<close>

definition fetch_first :: "'w sys \<Rightarrow> hetao_env \<Rightarrow> 'w \<Rightarrow> (nat option \<times> hetao_env \<times> 'w) option" where
  "fetch_first sys env w =
     (case http_session_unused_list env of
        [] \<Rightarrow> None
      | a # rest \<Rightarrow> do {
          let (now, w) = sys_now sys w;
          let env = upd_session a (\<lambda>s. s\<lparr>timeout_timestamp := c_int (c_int now + http_options__timeout env)\<rparr>)
                      (env\<lparr>http_session_unused_list := rest\<rparr>);
          (nret, env) \<leftarrow> AddHttpSessionTimeoutTreeNode env a;
          let (now, w) = sys_now sys w;
          let env = upd_session a (\<lambda>s. s\<lparr>elapse_timestamp := c_int (c_int now + http_options__elapse env)\<rparr>) env;
          (nret, env) \<leftarrow> AddHttpSessionElapseTreeNode env a;
          Some (Some a, env\<lparr>http_session_used_count := http_session_used_count env + 1,
                            http_session_unused_count := http_session_unused_count env - 1\<rparr>, w) })"

text \<open>The additions to the trees return 0 whenever they return, so their error branches are left out of
  \<open>fetch_first\<close>.  \<open>node\<close> is the allocation of a new counter.\<close>

definition FetchHttpSessionUnused ::
    "'w sys \<Rightarrow> bool \<Rightarrow> (nat \<Rightarrow> bool) \<Rightarrow> allocator \<Rightarrow> hetao_env \<Rightarrow> ip \<Rightarrow> 'w \<Rightarrow> (nat option \<times> hetao_env \<times> 'w) option" where
  "FetchHttpSessionUnused sys node mem alloc env a w =
     (let (nret, t) = (if limits__max_connections_per_ip env \<noteq> - 1
                       then IncreaseIpLimitsHashNode (limits__max_connections_per_ip env) node (iplimits_hash env) a
                       else (0, iplimits_hash env));
          env = env\<lparr>iplimits_hash := t\<rparr> in
      if nret \<noteq> 0 then Some (None, env, w)
      else
        let (nret, env) = (if http_session_unused_count env = 0
                           then IncreaseHttpSessions mem alloc env INCRE_HTTP_SESSION_COUNT else (0, env)) in
        if nret \<noteq> 0 then Some (None, env, w) else fetch_first sys env w)"

section \<open>Releasing a session\<close>

text \<open>\<open>p_forward_server\<close> is followed without a test.\<close>

definition SetHttpSessionUnused_02 :: "'w sys \<Rightarrow> allocator \<Rightarrow> hetao_env \<Rightarrow> nat \<Rightarrow> 'w \<Rightarrow> (hetao_env \<times> 'w) option" where
  "SetHttpSessionUnused_02 sys alloc env a w =
     (let sock = na_sock (forward_netaddr (sessions env a));
          (_, w) = sys_epoll_ctl sys EPOLL_CTL_DEL sock NO_EVENTS w in
      case p_forward_server (sessions env a) of
        None \<Rightarrow> None
      | Some f \<Rightarrow>
          let env = upd_server f (\<lambda>s. s\<lparr>connection_count := connection_count s - 1\<rparr>) env;
              w = sys_close sys sock w in
          Some (upd_session a (\<lambda>s. s\<lparr>forward_http := ResetHttpEnv alloc (forward_http s), forward_flags := 0\<rparr>) env, w))"

definition SetHttpSessionUnused_05 :: "'w sys \<Rightarrow> allocator \<Rightarrow> hetao_env \<Rightarrow> nat \<Rightarrow> 'w \<Rightarrow> (hetao_env \<times> 'w) option" where
  "SetHttpSessionUnused_05 sys alloc env a w =
     (let (env, w) = (if forward_ssl (sessions env a)
                      then (upd_session a (\<lambda>s. s\<lparr>forward_ssl := False, forward_ssl_connected := False\<rparr>) env,
                            sys_ssl_free sys (na_sock (forward_netaddr (sessions env a))) w)
                      else (env, w)) in
      do { (env, w) \<leftarrow> (if forward_flags (sessions env a) \<noteq> 0 then SetHttpSessionUnused_02 sys alloc env a w
                        else Some (env, w));
           Some (upd_session a (\<lambda>s. s\<lparr>p_forward_server := None\<rparr>) env, w) })"

text \<open>The first part of \<open>SetHttpSessionUnused\<close>: what is done to the session and its sockets.\<close>

definition close_session :: "'w sys \<Rightarrow> allocator \<Rightarrow> hetao_env \<Rightarrow> nat \<Rightarrow> 'w \<Rightarrow> (hetao_env \<times> 'w) option" where
  "close_session sys alloc env a w =
     (let sock = na_sock (netaddr (sessions env a));
          env = upd_session a (\<lambda>s. s\<lparr>session_flag := 0\<rparr>) env;
          (_, w) = sys_epoll_ctl sys EPOLL_CTL_DEL sock NO_EVENTS w;
          (env, w) = (if ssl (sessions env a)
                      then (upd_session a (\<lambda>s. s\<lparr>ssl := False, ssl_accepted := False\<rparr>) env, sys_ssl_free sys sock w)
                      else (env, w));
          w = sys_close sys sock w;
          env = upd_session a (\<lambda>s. s\<lparr>http := ResetHttpEnv alloc (http s), p_virtual_host := None\<rparr>) env in
      if p_forward_server (sessions env a) \<noteq> None then SetHttpSessionUnused_05 sys alloc env a w else Some (env, w))"

definition SetHttpSessionUnused :: "'w sys \<Rightarrow> allocator \<Rightarrow> hetao_env \<Rightarrow> nat \<Rightarrow> 'w \<Rightarrow> (hetao_env \<times> 'w) option" where
  "SetHttpSessionUnused sys alloc env a w =
     do { (env, w) \<leftarrow> close_session sys alloc env a w;
          let env = (if limits__max_connections_per_ip env \<noteq> - 1
                     then env\<lparr>iplimits_hash := snd (DecreaseIpLimitsHashNode (iplimits_hash env)
                                                      (na_addr (netaddr (sessions env a))))\<rparr>
                     else env);
          env \<leftarrow> RemoveHttpSessionTimeoutTreeNode env a;
          env \<leftarrow> RemoveHttpSessionElapseTreeNode env a;
          Some (env\<lparr>http_session_unused_list := http_session_unused_list env @ [a],
                    http_session_used_count := http_session_used_count env - 1,
                    http_session_unused_count := http_session_unused_count env + 1\<rparr>, w) }"

section \<open>The sweep over expired sessions\<close>

partial_function (option) expire_timeouts :: "'w sys \<Rightarrow> allocator \<Rightarrow> hetao_env \<Rightarrow> 'w \<Rightarrow> (hetao_env \<times> 'w) option" where
  "expire_timeouts sys alloc env w =
     (case GetExpireHttpSessionTimeoutTreeNode sys env w of
        (None, w) \<Rightarrow> Some (env, w)
      | (Some a, w) \<Rightarrow>
          (case SetHttpSessionUnused sys alloc env a w of
             None \<Rightarrow> None
           | Some (env, w) \<Rightarrow> expire_timeouts sys alloc env w))"

partial_function (option) expire_elapses :: "'w sys \<Rightarrow> allocator \<Rightarrow> hetao_env \<Rightarrow> 'w \<Rightarrow> (hetao_env \<times> 'w) option" where
  "expire_elapses sys alloc env w =
     (case GetExpireHttpSessionElapseTreeNode sys env w of
        (None, w) \<Rightarrow> Some (env, w)
      | (Some a, w) \<Rightarrow>
          (case SetHttpSessionUnused sys alloc env a w of
             None \<Rightarrow> None
           | Some (env, w) \<Rightarrow> expire_elapses sys alloc env w))"

definition second_sweep :: "'w sys \<Rightarrow> allocator \<Rightarrow> hetao_env \<Rightarrow> 'w \<Rightarrow> (hetao_env \<times> 'w) option" where
  "second_sweep sys alloc env w =
     do { (env, w) \<leftarrow> expire_timeouts sys alloc env w; expire_elapses sys alloc env w }"

section \<open>Changed pages\<close>

text \<open>\<open>ReallocHttpSessionChanged\<close>: the sessions that are sending the content of the cached page \<open>c\<close> get a
  copy of it, in the order of the timeout tree.  The append buffer of a session, if there is one, is its
  \<open>http_buf\<close>.\<close>

definition realloc_session :: "allocator \<Rightarrow> hetao_env \<Rightarrow> nat \<Rightarrow> nat \<Rightarrow> int \<times> hetao_env" where
  "realloc_session alloc env c a =
     (let s = sessions env a in
      case p_append_buffer (http s) of
        None \<Rightarrow> (0, env)
      | Some b \<Rightarrow>
          (case http_buf_base s of
             None \<Rightarrow> (0, env)
           | Some r \<Rightarrow>
               if r = Html_gzip c \<or> r = Html_deflate c \<or> r = Html c
               then let (nret, b) = DuplicateHttpBufferPtr alloc b in
                    if nret < 0 then (if r = Html_gzip c then - 1 else if r = Html_deflate c then - 2 else - 3, env)
                    else (0, upd_session a (\<lambda>s. s\<lparr>http := (http s)\<lparr>p_append_buffer := Some b\<rparr>, http_buf := b,
                                                      http_buf_base := None\<rparr>) env)
               else (0, env)))"

fun realloc_sessions :: "allocator \<Rightarrow> hetao_env \<Rightarrow> nat \<Rightarrow> nat list \<Rightarrow> int \<times> hetao_env" where
  "realloc_sessions alloc env c [] = (0, env)"
| "realloc_sessions alloc env c (a # as) =
     (let (nret, env) = realloc_session alloc env c a in
      if nret \<noteq> 0 then (nret, env) else realloc_sessions alloc env c as)"

definition ReallocHttpSessionChanged :: "allocator \<Rightarrow> hetao_env \<Rightarrow> nat \<Rightarrow> int \<times> hetao_env" where
  "ReallocHttpSessionChanged alloc env c =
     realloc_sessions alloc env c (inorder (http_session_timeout_rbtree_used env))"

section \<open>The pool\<close>

text \<open>What the pool consists of.  The other fields of a session do not matter to it.\<close>

definition pool where
  "pool env = (http_session_timeout_rbtree_used env, http_session_elapse_rbtree_used env, http_session_unused_list env,
     http_session_used_count env, http_session_unused_count env, next_session env, iplimits_hash env,
     limits__max_http_session_count env, limits__max_connections_per_ip env,
     timeout_key env, elapse_key env, \<lambda>a. na_addr (netaddr (sessions env a)))"

definition used :: "hetao_env \<Rightarrow> nat set" where
  "used env = set (inorder (http_session_timeout_rbtree_used env))"

definition pool_ok :: "hetao_env \<Rightarrow> bool" where
  "pool_ok env \<longleftrightarrow>
     index_ok (http_session_timeout_rbtree_used env) \<and> index_ok (http_session_elapse_rbtree_used env)
   \<and> set (inorder (http_session_elapse_rbtree_used env)) = used env
   \<and> sorted (map (timeout_key env) (inorder (http_session_timeout_rbtree_used env)))
   \<and> sorted (map (elapse_key env) (inorder (http_session_elapse_rbtree_used env)))
   \<and> distinct (http_session_unused_list env) \<and> set (http_session_unused_list env) \<inter> used env = {}
   \<and> (\<forall>a \<in> set (http_session_unused_list env) \<union> used env. a < next_session env)
   \<and> http_session_used_count env = int (card (used env))
   \<and> 0 \<le> http_session_unused_count env \<and> http_session_unused_count env \<le> int (length (http_session_unused_list env))
   \<and> http_session_used_count env + http_session_unused_count env \<le> limits__max_http_session_count env"

text \<open>The sessions of a client address, and: every session in use is counted for its address, and no count
  is above the limit (the first connection of an address is not checked against it).\<close>

definition from_ip :: "hetao_env \<Rightarrow> ip \<Rightarrow> nat set" where
  "from_ip env i = {a \<in> used env. na_addr (netaddr (sessions env a)) = i}"

definition counted :: "hetao_env \<Rightarrow> bool" where
  "counted env \<longleftrightarrow> limits__max_connections_per_ip env \<noteq> - 1 \<longrightarrow>
     ip_table_ok (iplimits_hash env)
   \<and> (\<forall>i. int (card (from_ip env i)) \<le> ip_count (iplimits_hash env) i
          \<and> ip_count (iplimits_hash env) i \<le> max 1 (limits__max_connections_per_ip env))"

lemma finite_used [simp]: "finite (used env)" "finite (from_ip env i)"
  by (simp_all add: used_def from_ip_def)

lemma pool_cong:
  assumes "pool env' = pool env"
  shows "pool_ok env' = pool_ok env" "counted env' = counted env" "used env' = used env"
    "from_ip env' = from_ip env"
proof -
  have fields: "http_session_timeout_rbtree_used env' = http_session_timeout_rbtree_used env"
    "http_session_elapse_rbtree_used env' = http_session_elapse_rbtree_used env"
    "http_session_unused_list env' = http_session_unused_list env"
    "http_session_used_count env' = http_session_used_count env"
    "http_session_unused_count env' = http_session_unused_count env"
    "next_session env' = next_session env" "iplimits_hash env' = iplimits_hash env"
    "limits__max_http_session_count env' = limits__max_http_session_count env"
    "limits__max_connections_per_ip env' = limits__max_connections_per_ip env"
    "timeout_key env' = timeout_key env" "elapse_key env' = elapse_key env"
    and addr: "na_addr (netaddr (sessions env' a)) = na_addr (netaddr (sessions env a))" for a
    using assms unfolding pool_def by (blast dest: fun_cong)+
  show "used env' = used env" by (simp add: used_def fields)
  then show "from_ip env' = from_ip env" by (simp add: from_ip_def addr fun_eq_iff)
  then show "counted env' = counted env" by (simp add: counted_def fields)
  show "pool_ok env' = pool_ok env" unfolding pool_ok_def used_def fields ..
qed

text \<open>Changes of a session that leave its deadlines and its address alone leave the pool alone.\<close>

lemma pool_upd [simp]:
  assumes "\<And>s. timeout_timestamp (f s) = timeout_timestamp s" "\<And>s. elapse_timestamp (f s) = elapse_timestamp s"
    "\<And>s. netaddr (f s) = netaddr s"
  shows "pool (upd_session a f env) = pool env"
  using assms by (auto simp: pool_def fun_eq_iff)

lemma pool_upd_server [simp]: "pool (upd_server a f env) = pool env"
  by (simp add: pool_def)

section \<open>The theorems on single operations\<close>

lemma close_session_pool:
  "\<exists>env' w'. close_session sys alloc env a w = Some (env', w') \<and> pool env' = pool env"
  by (auto simp: close_session_def SetHttpSessionUnused_05_def SetHttpSessionUnused_02_def Let_def
      split: prod.splits option.splits if_splits)

lemma erase_timeout_ok:
  assumes "pool_ok env" "a \<in> used env"
  shows "\<exists>t. rb_erase a (http_session_timeout_rbtree_used env) = Some t
     \<and> index_ok t \<and> set (inorder t) = used env - {a} \<and> sorted (map (timeout_key env) (inorder t))"
  using index.remove_old [of "http_session_timeout_rbtree_used env" a "timeout_key env"] assms
  by (auto simp: pool_ok_def used_def)

lemma erase_elapse_ok:
  assumes "pool_ok env" "a \<in> used env"
  shows "\<exists>t. rb_erase a (http_session_elapse_rbtree_used env) = Some t
     \<and> index_ok t \<and> set (inorder t) = used env - {a} \<and> sorted (map (elapse_key env) (inorder t))"
  using index.remove_old [of "http_session_elapse_rbtree_used env" a "elapse_key env"] assms
  by (auto simp: pool_ok_def used_def)

lemma pool_ok_iplimits [simp]:
  "pool_ok (env\<lparr>iplimits_hash := t\<rparr>) = pool_ok env" "used (env\<lparr>iplimits_hash := t\<rparr>) = used env"
  by (simp_all add: pool_ok_def used_def)

text \<open>The address of a released session is counted once less.\<close>

lemma release_counted:
  assumes "counted env" "a \<in> used env" "limits__max_connections_per_ip env \<noteq> - 1"
    and "d = DecreaseIpLimitsHashNode (iplimits_hash env) (na_addr (netaddr (sessions env a)))"
  shows "fst d = 0 \<and> ip_table_ok (snd d) \<and> (\<forall>i. int (card (from_ip env i - {a})) \<le> ip_count (snd d) i
     \<and> ip_count (snd d) i \<le> max 1 (limits__max_connections_per_ip env))"
proof -
  let ?i = "na_addr (netaddr (sessions env a))"
  have ok: "ip_table_ok (iplimits_hash env)" and le: "int (card (from_ip env i)) \<le> ip_count (iplimits_hash env) i" for i
    using assms(1,3) by (auto simp: counted_def)
  have a: "a \<in> from_ip env ?i" using assms(2) by (simp add: from_ip_def)
  then have pos: "0 < card (from_ip env ?i)" using card_gt_0_iff by (metis empty_iff finite_used(2))
  then have "ip_count (iplimits_hash env) ?i \<noteq> 0" using le [of ?i] by linarith
  from ip_counter.decrease_known [OF ok this] obtain t where t: "d = (0, t)" "ip_table_ok t"
    "ip_count t = (ip_count (iplimits_hash env))(?i := ip_count (iplimits_hash env) ?i - 1)"
    using assms(4) by auto
  have "ip_count t i \<le> max 1 (limits__max_connections_per_ip env)" for i
  proof -
    have "ip_count (iplimits_hash env) i \<le> max 1 (limits__max_connections_per_ip env)" for i
      using assms(1,3) by (simp add: counted_def)
    from this [of i] this [of ?i] show ?thesis unfolding t(3) by (cases "i = ?i") simp_all
  qed
  moreover have "int (card (from_ip env i - {a})) \<le> ip_count t i" for i
  proof (cases "i = ?i")
    case True
    have "card (from_ip env ?i - {a}) = card (from_ip env ?i) - 1" using a by simp
    then show ?thesis using True le [of ?i] pos by (simp add: t(3) of_nat_diff)
  next
    case False
    then have "a \<notin> from_ip env i" by (simp add: from_ip_def)
    then show ?thesis using False le [of i] by (simp add: t(3))
  qed
  ultimately show ?thesis using t by simp
qed

lemma SetHttpSessionUnused_ok:
  assumes ok: "pool_ok env" and a: "a \<in> used env"
  shows "\<exists>env' w'. SetHttpSessionUnused sys alloc env a w = Some (env', w') \<and> pool_ok env' \<and> used env' = used env - {a}
     \<and> http_session_unused_list env' = http_session_unused_list env @ [a] \<and> (counted env \<longrightarrow> counted env')
     \<and> timeout_key env' = timeout_key env \<and> elapse_key env' = elapse_key env"
proof -
  obtain env1 w1 where 1: "close_session sys alloc env a w = Some (env1, w1)" "pool env1 = pool env"
    using close_session_pool [of sys alloc env a w] by blast
  note cong = pool_cong [OF 1(2)]
  define d where "d = DecreaseIpLimitsHashNode (iplimits_hash env1) (na_addr (netaddr (sessions env1 a)))"
  define env2 where "env2 = (if limits__max_connections_per_ip env1 \<noteq> - 1 then env1\<lparr>iplimits_hash := snd d\<rparr> else env1)"
  have ok2: "pool_ok env2" and a2: "a \<in> used env2" and u2: "used env2 = used env"
    using ok a cong by (simp_all add: env2_def)
  obtain t1 where t1: "rb_erase a (http_session_timeout_rbtree_used env2) = Some t1"
    "index_ok t1" "set (inorder t1) = used env2 - {a}" "sorted (map (timeout_key env2) (inorder t1))"
    using erase_timeout_ok [OF ok2 a2] by blast
  obtain t2 where t2: "rb_erase a (http_session_elapse_rbtree_used env2) = Some t2"
    "index_ok t2" "set (inorder t2) = used env2 - {a}" "sorted (map (elapse_key env2) (inorder t2))"
    using erase_elapse_ok [OF ok2 a2] by blast
  define env' where "env' = env2\<lparr>http_session_timeout_rbtree_used := t1, http_session_elapse_rbtree_used := t2,
     http_session_unused_list := http_session_unused_list env2 @ [a],
     http_session_used_count := http_session_used_count env2 - 1,
     http_session_unused_count := http_session_unused_count env2 + 1\<rparr>"
  have r: "SetHttpSessionUnused sys alloc env a w = Some (env', w1)"
    using t1(1) t2(1) unfolding SetHttpSessionUnused_def 1(1) Let_def
    by (simp add: env2_def [unfolded d_def, symmetric] RemoveHttpSessionTimeoutTreeNode_def
        RemoveHttpSessionElapseTreeNode_def env'_def)
  have u': "used env' = used env - {a}" using t1(3) u2 by (simp add: used_def env'_def)
  have c: "int (card (used env2 - {a})) = int (card (used env2)) - 1"
    using card_Suc_Diff1 [OF finite_used(1) a2] by linarith
  have "pool_ok env'"
    using ok2 t1(2-4) t2(2-4) a2 unfolding pool_ok_def u' u2 [symmetric] by (simp add: env'_def c del: card_Diff_insert) blast
  moreover have "counted env'" if cnt: "counted env"
  proof -
    have cnt1: "counted env1" and au: "a \<in> used env1" using cnt a cong by auto
    have f': "from_ip env' i = from_ip env1 i - {a}" for i
      using u' cong(3) by (auto simp: from_ip_def env'_def env2_def)
    show ?thesis
    proof (cases "limits__max_connections_per_ip env1 = - 1")
      case True
      then show ?thesis by (simp add: counted_def env'_def env2_def)
    next
      case False
      then have "iplimits_hash env' = snd d"
        "limits__max_connections_per_ip env' = limits__max_connections_per_ip env1" by (simp_all add: env'_def env2_def)
      then show ?thesis
        using release_counted [OF cnt1 au False d_def] by (simp add: counted_def f')
    qed
  qed
  moreover have "http_session_unused_list env' = http_session_unused_list env @ [a]"
    "timeout_key env' = timeout_key env" "elapse_key env' = elapse_key env"
    using 1(2) by (simp_all add: pool_def env'_def env2_def)
  ultimately show ?thesis using r u' by blast
qed

text \<open>Releasing a session that is not in use follows the stale links of its tree node.\<close>

lemma release_foreign:
  assumes "a \<notin> used env" shows "SetHttpSessionUnused sys alloc env a w = None"
proof -
  obtain env1 w1 where 1: "close_session sys alloc env a w = Some (env1, w1)" "pool env1 = pool env"
    using close_session_pool [of sys alloc env a w] by blast
  have "rb_erase a (http_session_timeout_rbtree_used env1) = None"
    using assms 1(2) by (intro index.remove_foreign) (simp add: used_def pool_def)
  then show ?thesis
    using 1(1) by (simp add: SetHttpSessionUnused_def RemoveHttpSessionTimeoutTreeNode_def Let_def)
qed

text \<open>A structure of the pool that is new.\<close>

lemma new_session_ok:
  fixes l s
  assumes "pool_ok env"
  defines "env' \<equiv> env\<lparr>http_lib_state := l, sessions := (sessions env)(next_session env := s),
     next_session := next_session env + 1, http_session_unused_list := http_session_unused_list env @ [next_session env]\<rparr>"
  shows "pool_ok env'" "used env' = used env" "\<forall>a \<in> used env. sessions env' a = sessions env a"
proof -
  show u: "used env' = used env" by (simp add: used_def env'_def)
  have old: "a < next_session env" if "a \<in> set (http_session_unused_list env) \<union> used env" for a
    using assms(1) that unfolding pool_ok_def by blast
  have k: "a \<in> used env \<Longrightarrow> sessions env' a = sessions env a" for a using old [of a] by (auto simp: env'_def)
  then show "\<forall>a \<in> used env. sessions env' a = sessions env a" by blast
  have t: "map (timeout_key env') (inorder (http_session_timeout_rbtree_used env))
      = map (timeout_key env) (inorder (http_session_timeout_rbtree_used env))"
    using k by (auto simp: used_def)
  have e: "map (elapse_key env') (inorder (http_session_elapse_rbtree_used env))
      = map (elapse_key env) (inorder (http_session_elapse_rbtree_used env))"
    using k assms(1) by (auto simp: pool_ok_def)
  have trees: "http_session_timeout_rbtree_used env' = http_session_timeout_rbtree_used env"
    "http_session_elapse_rbtree_used env' = http_session_elapse_rbtree_used env" by (simp_all add: env'_def)
  show "pool_ok env'"
    using assms(1) old [THEN less_SucI] old unfolding pool_ok_def u trees t e by (auto simp: env'_def)
qed

lemma create_sessions_ok:
  assumes "pool_ok env" "create_sessions mem alloc i n env = (nret, env')"
  shows "pool_ok env' \<and> used env' = used env
     \<and> (nret = 0 \<longrightarrow> length (http_session_unused_list env') = length (http_session_unused_list env) + n)
     \<and> http_session_unused_count env' = http_session_unused_count env
     \<and> http_session_used_count env' = http_session_used_count env
     \<and> limits__max_http_session_count env' = limits__max_http_session_count env
     \<and> (\<forall>a \<in> used env. sessions env' a = sessions env a) \<and> iplimits_hash env' = iplimits_hash env
     \<and> limits__max_connections_per_ip env' = limits__max_connections_per_ip env"
  using assms
proof (induction n arbitrary: i env)
  case (Suc n)
  show ?case
  proof (cases "\<exists>l. create_sessions mem alloc i (Suc n) env = (- 1, env\<lparr>http_lib_state := l\<rparr>)")
    case True
    then show ?thesis using Suc.prems by (auto simp: pool_ok_def used_def)
  next
    case False
    then obtain l s where "create_sessions mem alloc i (Suc n) env = create_sessions mem alloc (i + 3) n
       (env\<lparr>http_lib_state := l, sessions := (sessions env)(next_session env := s),
            next_session := next_session env + 1,
            http_session_unused_list := http_session_unused_list env @ [next_session env]\<rparr>)"
      by (auto simp: Let_def split: prod.splits option.splits)
    with Suc.IH [OF new_session_ok(1) [OF Suc.prems(1)], of "i + 3" s l] Suc.prems(2)
      new_session_ok(2,3) [OF Suc.prems(1), of s l]
    show ?thesis by (simp del: create_sessions.simps fun_upd_apply)
  qed
qed simp

lemma IncreaseHttpSessions_ok:
  assumes "pool_ok env" "IncreaseHttpSessions mem alloc env n = (nret, env')" "0 \<le> n" "http_session_unused_count env = 0"
  shows "pool_ok env' \<and> used env' = used env \<and> (nret = 0 \<and> 0 < n \<longrightarrow> 0 < http_session_unused_count env')
     \<and> (\<forall>a \<in> used env. sessions env' a = sessions env a) \<and> iplimits_hash env' = iplimits_hash env
     \<and> limits__max_connections_per_ip env' = limits__max_connections_per_ip env"
proof -
  define k where "k = (if http_session_used_count env + n > limits__max_http_session_count env
                       then limits__max_http_session_count env - http_session_used_count env else n)"
  show ?thesis
  proof (cases "http_session_used_count env \<ge> limits__max_http_session_count env \<or> \<not> mem 0 \<or> \<not> mem 1")
    case True
    then show ?thesis using assms(1,2) by (auto simp: IncreaseHttpSessions_def Let_def split: if_splits)
  next
    case False
    obtain r env1 where c: "create_sessions mem alloc 2 (nat k) env = (r, env1)" by fastforce
    note c' = create_sessions_ok [OF assms(1) c]
    have e: "IncreaseHttpSessions mem alloc env n =
       (if r \<noteq> 0 then (r, env1) else (0, env1\<lparr>http_session_unused_count := http_session_unused_count env1 + k\<rparr>))"
      using False c by (simp add: IncreaseHttpSessions_def k_def Let_def)
    have k: "0 \<le> k" "http_session_used_count env + k \<le> limits__max_http_session_count env" "0 < n \<longrightarrow> 0 < k"
      using False assms(3) by (auto simp: k_def)
    show ?thesis
    proof (cases "r = 0")
      case True
      then have "length (http_session_unused_list env1) \<ge> nat k" using c' by simp
      then have "pool_ok (env1\<lparr>http_session_unused_count := http_session_unused_count env1 + k\<rparr>)"
        using c' k(1,2) assms(4) unfolding pool_ok_def used_def by (simp add: nat_le_iff) (metis)
      moreover have "nret = 0" "env' = env1\<lparr>http_session_unused_count := http_session_unused_count env1 + k\<rparr>"
        using assms(2) unfolding e using True by simp_all
      ultimately show ?thesis using c' k(3) assms(4) by (simp add: used_def)
    next
      case False
      then have "nret = r" "env' = env1" using assms(2) unfolding e by simp_all
      then show ?thesis using c' False by simp
    qed
  qed
qed

text \<open>The first unused session enters both trees.\<close>

lemma add_timeout_ok:
  assumes "index_ok t" "a \<notin> set (inorder t)" "sorted (map key (inorder t))" "\<And>b. b \<noteq> a \<Longrightarrow> key' b = key b"
  shows "\<exists>t'. add_node key' a t = Some t' \<and> index_ok t' \<and> set (inorder t') = insert a (set (inorder t))
     \<and> sorted (map key' (inorder t'))"
proof -
  have "map key' (inorder t) = map key (inorder t)" using assms(2) by (intro map_cong refl assms(4)) auto
  then have "sorted (map key' (inorder t))" using assms(3) by metis
  then show ?thesis using index.add_new [OF assms(1,2)] by blast
qed

lemma fetch_first_ok:
  assumes ok: "pool_ok env" and pos: "0 < http_session_unused_count env"
  shows "\<exists>a env' w'. fetch_first sys env w = Some (Some a, env', w') \<and> a \<notin> used env \<and> used env' = insert a (used env)
     \<and> pool_ok env' \<and> iplimits_hash env' = iplimits_hash env
     \<and> (\<forall>b. netaddr (sessions env' b) = netaddr (sessions env b))
     \<and> (\<forall>b. b \<noteq> a \<longrightarrow> sessions env' b = sessions env b)
     \<and> limits__max_connections_per_ip env' = limits__max_connections_per_ip env"
proof -
  obtain a rest where u: "http_session_unused_list env = a # rest"
    using ok pos by (cases "http_session_unused_list env") (auto simp: pool_ok_def)
  obtain now1 w1 where n1: "sys_now sys w = (now1, w1)" by fastforce
  obtain now2 w2 where n2: "sys_now sys w1 = (now2, w2)" by fastforce
  define T where "T = http_session_timeout_rbtree_used env"
  define E where "E = http_session_elapse_rbtree_used env"
  have a: "a \<notin> used env" using ok u by (auto simp: pool_ok_def)
  define s1 where "s1 = (sessions env a)\<lparr>timeout_timestamp := c_int (c_int now1 + http_options__timeout env)\<rparr>"
  define s2 where "s2 = s1\<lparr>elapse_timestamp := c_int (c_int now2 + http_options__elapse env)\<rparr>"
  let ?kt = "\<lambda>b. timeout_timestamp (((sessions env)(a := s1)) b)"
  let ?ke = "\<lambda>b. elapse_timestamp (((sessions env)(a := s2)) b)"
  obtain t where t: "add_node ?kt a T = Some t" "index_ok t" "set (inorder t) = insert a (used env)"
    "sorted (map ?kt (inorder t))"
    using add_timeout_ok [of T a "timeout_key env" ?kt] ok a by (auto simp: pool_ok_def used_def T_def)
  obtain e where e: "add_node ?ke a E = Some e" "index_ok e" "set (inorder e) = insert a (used env)"
    "sorted (map ?ke (inorder e))"
    using add_timeout_ok [of E a "elapse_key env" ?ke] ok a by (auto simp: pool_ok_def E_def)
  have kt: "?kt = (\<lambda>b. timeout_timestamp (((sessions env)(a := s2)) b))" by (auto simp: s2_def)
  define env' where "env' = env\<lparr>http_session_unused_list := rest, sessions := (sessions env)(a := s2),
     http_session_timeout_rbtree_used := t, http_session_elapse_rbtree_used := e,
     http_session_used_count := http_session_used_count env + 1,
     http_session_unused_count := http_session_unused_count env - 1\<rparr>"
  have "fetch_first sys env w = Some (Some a, env', w2)"
    using t(1) e(1) unfolding fetch_first_def u env'_def
    by (simp add: n1 n2 AddHttpSessionTimeoutTreeNode_def AddHttpSessionElapseTreeNode_def upd_session_def
        s1_def s2_def T_def E_def cong: if_cong)
  moreover have u': "used env' = insert a (used env)" using t(3) by (simp add: used_def env'_def)
  moreover have "pool_ok env'"
    using ok a u pos t(2-4) e(2-4) unfolding pool_ok_def u' kt by (auto simp: env'_def)
  ultimately show ?thesis using a by (auto simp: env'_def s1_def s2_def)
qed

lemma increase_room:
  assumes "ip_table_ok t0" "\<And>i. n i \<le> ip_count t0 i" "\<And>i. ip_count t0 i \<le> max 1 lim"
    and "(nret, t) = IncreaseIpLimitsHashNode lim True t0 ip"
  shows "ip_table_ok t \<and> (\<forall>i. n i + (if nret = 0 \<and> i = ip then 1 else 0) \<le> ip_count t i \<and> ip_count t i \<le> max 1 lim)"
proof (cases rule: ip_counter.increase_cases [OF assms(1), of lim ip, case_names admitted refused])
  case (admitted t')
  then have t: "t = t'" "nret = 0" using assms(4) by simp_all
  have "n i + (if i = ip then 1 else 0) \<le> ip_count t' i \<and> ip_count t' i \<le> max 1 lim" for i
    using assms(2,3) [of i] admitted(4) unfolding admitted(3) by auto
  then show ?thesis using t admitted(2) by simp
next
  case refused
  then show ?thesis using assms by simp
qed

text \<open>Fetching a session for a connection from the address \<open>ip\<close>: whatever the outcome, the pool stays
  well-formed; the new session is counted once it has been given its address.\<close>

lemma FetchHttpSessionUnused_ok:
  assumes ok: "pool_ok env" and cnt: "counted env"
  shows "\<exists>r env' w'. FetchHttpSessionUnused sys True mem alloc env ip w = Some (r, env', w') \<and> pool_ok env'
     \<and> (case r of None \<Rightarrow> used env' = used env \<and> counted env'
        | Some a \<Rightarrow> a \<notin> used env \<and> used env' = insert a (used env)
            \<and> (\<forall>n. na_addr n = ip \<longrightarrow> counted (upd_session a (\<lambda>s. s\<lparr>netaddr := n\<rparr>) env')))"
proof -
  let ?lim = "limits__max_connections_per_ip env"
  obtain nret t where nt: "(nret, t) = (if ?lim \<noteq> - 1 then IncreaseIpLimitsHashNode ?lim True (iplimits_hash env) ip
      else (0, iplimits_hash env))" by (metis surj_pair)
  define env1 where "env1 = env\<lparr>iplimits_hash := t\<rparr>"
  have 1: "pool_ok env1" "used env1 = used env" "from_ip env1 = from_ip env" "sessions env1 = sessions env"
    "iplimits_hash env1 = t" "limits__max_connections_per_ip env1 = ?lim"
    using ok by (simp_all add: env1_def from_ip_def fun_eq_iff)
  have room: "ip_table_ok t \<and> (\<forall>i. int (card (from_ip env i)) + (if nret = 0 \<and> i = ip then 1 else 0) \<le> ip_count t i
     \<and> ip_count t i \<le> max 1 ?lim)" if "?lim \<noteq> - 1"
    by (rule increase_room) (use cnt nt that in \<open>auto simp: counted_def\<close>)
  define r2 where "r2 = (if http_session_unused_count env1 = 0
     then IncreaseHttpSessions mem alloc env1 INCRE_HTTP_SESSION_COUNT else (0, env1))"
  obtain nret2 env2 where r2: "r2 = (nret2, env2)" by fastforce
  have 2: "pool_ok env2" "used env2 = used env" "nret2 = 0 \<longrightarrow> 0 < http_session_unused_count env2"
    "\<forall>a \<in> used env. sessions env2 a = sessions env a" "iplimits_hash env2 = t"
    "limits__max_connections_per_ip env2 = ?lim"
    using r2 1 IncreaseHttpSessions_ok [OF 1(1), of mem alloc INCRE_HTTP_SESSION_COUNT nret2 env2]
    by (auto simp: r2_def pool_ok_def split: if_splits)
  then have f2: "from_ip env2 = from_ip env" by (auto simp: from_ip_def fun_eq_iff)
  have F: "FetchHttpSessionUnused sys True mem alloc env ip w =
     (if nret \<noteq> 0 then Some (None, env1, w) else if nret2 \<noteq> 0 then Some (None, env2, w) else fetch_first sys env2 w)"
    using r2 unfolding FetchHttpSessionUnused_def r2_def nt [symmetric] Let_def env1_def by auto
  have le: "int (card (from_ip env i)) \<le> ip_count t i" if "?lim \<noteq> - 1" for i
  proof -
    have "int (card (from_ip env i)) + (if nret = 0 \<and> i = ip then 1 else 0) \<le> ip_count t i"
      using room [OF that] by blast
    then show ?thesis by (simp split: if_splits)
  qed
  have "counted env1" "counted env2" using room le by (simp_all add: counted_def 1 2 f2)
  moreover have "\<exists>a env' w'. fetch_first sys env2 w = Some (Some a, env', w') \<and> pool_ok env' \<and> a \<notin> used env
      \<and> used env' = insert a (used env) \<and> (\<forall>n. na_addr n = ip \<longrightarrow> counted (upd_session a (\<lambda>s. s\<lparr>netaddr := n\<rparr>) env'))"
    if "nret = 0" "nret2 = 0"
  proof -
    obtain a env' w' where 3: "fetch_first sys env2 w = Some (Some a, env', w')" "a \<notin> used env"
      "used env' = insert a (used env)" "pool_ok env'" "iplimits_hash env' = t"
      "\<forall>b. b \<noteq> a \<longrightarrow> sessions env' b = sessions env2 b" "limits__max_connections_per_ip env' = ?lim"
      using fetch_first_ok [OF 2(1), of sys w] 2 \<open>nret2 = 0\<close> by auto
    have f3: "from_ip (upd_session a (\<lambda>s. s\<lparr>netaddr := n\<rparr>) env') i
        = (if i = na_addr n then insert a (from_ip env i) else from_ip env i)" for n i
      using 3(2,3,6) 2(4) by (auto simp: from_ip_def used_def)
    have "counted (upd_session a (\<lambda>s. s\<lparr>netaddr := n\<rparr>) env')" if n: "na_addr n = ip" for n
    proof (cases "?lim = - 1")
      case False
      have "int (card (insert a (from_ip env ip))) \<le> int (card (from_ip env ip)) + 1" by (simp add: card_insert_if)
      also have "\<dots> \<le> ip_count t ip" using room [OF False] \<open>nret = 0\<close> by (auto dest: spec [of _ ip])
      finally show ?thesis using room [OF False] le [OF False] n by (simp add: counted_def 3 f3)
    qed (simp add: counted_def 3)
    then show ?thesis using 3 by blast
  qed
  ultimately show ?thesis using 1 2 unfolding F by auto
qed

text \<open>A failed fetch does not give the count of the address back.\<close>

lemma full_pool_keeps_count:
  assumes "counted env" "limits__max_connections_per_ip env \<noteq> - 1"
    and "ip_count (iplimits_hash env) ip = 0 \<or> ip_count (iplimits_hash env) ip < limits__max_connections_per_ip env"
    and "http_session_unused_count env = 0" "http_session_used_count env \<ge> limits__max_http_session_count env"
  shows "\<exists>env'. FetchHttpSessionUnused sys True mem alloc env ip w = Some (None, env', w) \<and> used env' = used env
     \<and> ip_count (iplimits_hash env') ip = ip_count (iplimits_hash env) ip + 1"
proof -
  have "ip_table_ok (iplimits_hash env)" using assms(1,2) by (simp add: counted_def)
  from ip_counter.increase_admits [OF this assms(3)] obtain t where
    "IncreaseIpLimitsHashNode (limits__max_connections_per_ip env) True (iplimits_hash env) ip = (0, t)"
    "ip_count t = (ip_count (iplimits_hash env))(ip := ip_count (iplimits_hash env) ip + 1)" by blast
  then show ?thesis
    using assms(2,4,5) by (simp add: FetchHttpSessionUnused_def IncreaseHttpSessions_def used_def)
qed

section \<open>Deadlines\<close>

text \<open>\<open>first_expired\<close>: the head of a tree of deadlines, if it has passed.\<close>

lemma UpdateHttpSessionTimeoutTreeNode_ok:
  assumes ok: "pool_ok env" and a: "a \<in> used env"
  shows "\<exists>env'. UpdateHttpSessionTimeoutTreeNode env a t = Some (0, env') \<and> pool_ok env' \<and> used env' = used env
     \<and> (counted env \<longrightarrow> counted env') \<and> sessions env' = (sessions env)(a := (sessions env a)\<lparr>timeout_timestamp := t\<rparr>)"
proof -
  let ?key = "\<lambda>b. timeout_timestamp (((sessions env)(a := (sessions env a)\<lparr>timeout_timestamp := t\<rparr>)) b)"
  obtain t1 t2 where t: "rb_erase a (http_session_timeout_rbtree_used env) = Some t1" "add_node ?key a t1 = Some t2"
    "index_ok t2" "set (inorder t2) = used env" "sorted (map ?key (inorder t2))"
    using index.change_key [of "http_session_timeout_rbtree_used env" a "timeout_key env" ?key] ok a
    by (auto simp: pool_ok_def used_def)
  define env' where "env' = env\<lparr>http_session_timeout_rbtree_used := t2,
     sessions := (sessions env)(a := (sessions env a)\<lparr>timeout_timestamp := t\<rparr>)\<rparr>"
  have u: "used env' = used env" using t(4) by (simp add: used_def env'_def)
  have "UpdateHttpSessionTimeoutTreeNode env a t = Some (0, env')"
    using t(1,2) by (simp add: UpdateHttpSessionTimeoutTreeNode_def RemoveHttpSessionTimeoutTreeNode_def
        AddHttpSessionTimeoutTreeNode_def upd_session_def env'_def cong: if_cong)
  moreover have k: "elapse_key env' = elapse_key env" by (auto simp: env'_def)
  have "pool_ok env'" using ok t(3-5) unfolding pool_ok_def u k by (simp add: env'_def)
  moreover have "from_ip env' = from_ip env" using u by (auto simp: from_ip_def env'_def fun_eq_iff)
  then have "counted env' = counted env" by (simp add: counted_def env'_def)
  ultimately show ?thesis using u by (simp add: env'_def)
qed

lemma UpdateHttpSessionElapseTreeNode_ok:
  assumes ok: "pool_ok env" and a: "a \<in> used env"
  shows "\<exists>env'. UpdateHttpSessionElapseTreeNode env a t = Some (0, env') \<and> pool_ok env' \<and> used env' = used env
     \<and> (counted env \<longrightarrow> counted env') \<and> sessions env' = (sessions env)(a := (sessions env a)\<lparr>elapse_timestamp := t\<rparr>)"
proof -
  let ?key = "\<lambda>b. elapse_timestamp (((sessions env)(a := (sessions env a)\<lparr>elapse_timestamp := t\<rparr>)) b)"
  obtain t1 t2 where t: "rb_erase a (http_session_elapse_rbtree_used env) = Some t1" "add_node ?key a t1 = Some t2"
    "index_ok t2" "set (inorder t2) = used env" "sorted (map ?key (inorder t2))"
    using index.change_key [of "http_session_elapse_rbtree_used env" a "elapse_key env" ?key] ok a
    by (auto simp: pool_ok_def)
  define env' where "env' = env\<lparr>http_session_elapse_rbtree_used := t2,
     sessions := (sessions env)(a := (sessions env a)\<lparr>elapse_timestamp := t\<rparr>)\<rparr>"
  have u: "used env' = used env" by (simp add: used_def env'_def)
  have "UpdateHttpSessionElapseTreeNode env a t = Some (0, env')"
    using t(1,2) by (simp add: UpdateHttpSessionElapseTreeNode_def RemoveHttpSessionElapseTreeNode_def
        AddHttpSessionElapseTreeNode_def upd_session_def env'_def cong: if_cong)
  moreover have k: "timeout_key env' = timeout_key env" by (auto simp: env'_def)
  have "pool_ok env'" using ok t(3-5) unfolding pool_ok_def u k by (simp add: env'_def)
  moreover have "from_ip env' = from_ip env" using u by (auto simp: from_ip_def env'_def fun_eq_iff)
  then have "counted env' = counted env" by (simp add: counted_def env'_def)
  ultimately show ?thesis using u by (simp add: env'_def)
qed

section \<open>The sweep\<close>

text \<open>A clock that does not advance during a sweep.\<close>

definition clock_stands :: "'w sys \<Rightarrow> int \<Rightarrow> bool" where
  "clock_stands sys now \<longleftrightarrow> (\<forall>w. fst (sys_now sys w) = now)"

lemma first_expired:
  assumes "sorted (map key (inorder t))"
  shows "rb_first t = None \<Longrightarrow> set (inorder t) = {}"
    "rb_first t = Some a \<Longrightarrow> a \<in> set (inorder t) \<and> (now < key a \<longrightarrow> (\<forall>b \<in> set (inorder t). now < key b))"
proof -
  show "rb_first t = None \<Longrightarrow> set (inorder t) = {}" by (simp add: index.first_none)
  show "rb_first t = Some a \<Longrightarrow> a \<in> set (inorder t) \<and> (now < key a \<longrightarrow> (\<forall>b \<in> set (inorder t). now < key b))"
    using index.first_least [OF _ assms] by fastforce
qed

lemma expire_timeouts_ok:
  assumes "pool_ok env" "clock_stands sys now"
  shows "\<exists>env' w'. expire_timeouts sys alloc env w = Some (env', w') \<and> pool_ok env' \<and> (counted env \<longrightarrow> counted env')
     \<and> used env' = {a \<in> used env. now < timeout_key env a} \<and> elapse_key env' = elapse_key env"
  using assms(1)
proof (induction "card (used env)" arbitrary: env w rule: less_induct)
  case less
  let ?t = "http_session_timeout_rbtree_used env"
  have s: "sorted (map (timeout_key env) (inorder ?t))" and u: "set (inorder ?t) = used env"
    using less.prems by (simp_all add: pool_ok_def used_def)
  have now: "fst (sys_now sys w) = now" using assms(2) by (simp add: clock_stands_def)
  show ?case
  proof (cases "rb_first ?t")
    case None
    then show ?thesis
      using first_expired(1) [OF s None] less.prems
      by (subst expire_timeouts.simps) (simp add: GetExpireHttpSessionTimeoutTreeNode_def u)
  next
    case (Some a)
    note first = first_expired(2) [OF s Some, of now]
    show ?thesis
    proof (cases "now < timeout_key env a")
      case True
      then have "GetExpireHttpSessionTimeoutTreeNode sys env w = (None, snd (sys_now sys w))"
        using Some now by (auto simp: GetExpireHttpSessionTimeoutTreeNode_def split: prod.splits)
      then show ?thesis
        using first True less.prems u by (subst expire_timeouts.simps) auto
    next
      case False
      then have g: "GetExpireHttpSessionTimeoutTreeNode sys env w = (Some a, snd (sys_now sys w))"
        using Some now by (auto simp: GetExpireHttpSessionTimeoutTreeNode_def split: prod.splits)
      have a: "a \<in> used env" using first u by blast
      obtain env1 w1 where 1: "SetHttpSessionUnused sys alloc env a (snd (sys_now sys w)) = Some (env1, w1)" "pool_ok env1"
        "used env1 = used env - {a}" "counted env \<longrightarrow> counted env1" "timeout_key env1 = timeout_key env"
        "elapse_key env1 = elapse_key env"
        using SetHttpSessionUnused_ok [OF less.prems a, of sys alloc "snd (sys_now sys w)"] by blast
      have "card (used env1) < card (used env)" unfolding 1(3) by (rule card_Diff1_less [OF finite_used(1) a])
      from less.hyps [OF this 1(2), of w1] obtain env' w' where 2: "expire_timeouts sys alloc env1 w1 = Some (env', w')" "pool_ok env'"
        "counted env1 \<longrightarrow> counted env'" "used env' = {b \<in> used env1. now < timeout_key env1 b}"
        "elapse_key env' = elapse_key env1" by blast
      have "timeout_key env1 b = timeout_key env b" for b using 1(5) by (rule fun_cong)
      then have "used env' = {b \<in> used env. now < timeout_key env b}" using 2(4) 1(3) False by auto
      moreover have "expire_timeouts sys alloc env w = Some (env', w')"
        using g 1(1) 2(1) by (subst expire_timeouts.simps) simp
      moreover have "elapse_key env' = elapse_key env" using 2(5) 1(6) by (rule trans)
      ultimately show ?thesis using 1(4) 2(2,3) by blast
    qed
  qed
qed

lemma expire_elapses_ok:
  assumes "pool_ok env" "clock_stands sys now"
  shows "\<exists>env' w'. expire_elapses sys alloc env w = Some (env', w') \<and> pool_ok env' \<and> (counted env \<longrightarrow> counted env')
     \<and> used env' = {a \<in> used env. now < elapse_key env a} \<and> timeout_key env' = timeout_key env"
  using assms(1)
proof (induction "card (used env)" arbitrary: env w rule: less_induct)
  case less
  let ?t = "http_session_elapse_rbtree_used env"
  have s: "sorted (map (elapse_key env) (inorder ?t))" and u: "set (inorder ?t) = used env"
    using less.prems by (simp_all add: pool_ok_def used_def)
  have now: "fst (sys_now sys w) = now" using assms(2) by (simp add: clock_stands_def)
  show ?case
  proof (cases "rb_first ?t")
    case None
    then show ?thesis
      using first_expired(1) [OF s None] less.prems
      by (subst expire_elapses.simps) (simp add: GetExpireHttpSessionElapseTreeNode_def u)
  next
    case (Some a)
    note first = first_expired(2) [OF s Some, of now]
    show ?thesis
    proof (cases "now < elapse_key env a")
      case True
      then have "GetExpireHttpSessionElapseTreeNode sys env w = (None, snd (sys_now sys w))"
        using Some now by (auto simp: GetExpireHttpSessionElapseTreeNode_def split: prod.splits)
      then show ?thesis
        using first True less.prems u by (subst expire_elapses.simps) auto
    next
      case False
      then have g: "GetExpireHttpSessionElapseTreeNode sys env w = (Some a, snd (sys_now sys w))"
        using Some now by (auto simp: GetExpireHttpSessionElapseTreeNode_def split: prod.splits)
      have a: "a \<in> used env" using first u by blast
      obtain env1 w1 where 1: "SetHttpSessionUnused sys alloc env a (snd (sys_now sys w)) = Some (env1, w1)" "pool_ok env1"
        "used env1 = used env - {a}" "counted env \<longrightarrow> counted env1" "elapse_key env1 = elapse_key env"
        "timeout_key env1 = timeout_key env"
        using SetHttpSessionUnused_ok [OF less.prems a, of sys alloc "snd (sys_now sys w)"] by blast
      have "card (used env1) < card (used env)" unfolding 1(3) by (rule card_Diff1_less [OF finite_used(1) a])
      from less.hyps [OF this 1(2), of w1] obtain env' w' where 2: "expire_elapses sys alloc env1 w1 = Some (env', w')" "pool_ok env'"
        "counted env1 \<longrightarrow> counted env'" "used env' = {b \<in> used env1. now < elapse_key env1 b}"
        "timeout_key env' = timeout_key env1" by blast
      have "elapse_key env1 b = elapse_key env b" for b using 1(5) by (rule fun_cong)
      then have "used env' = {b \<in> used env. now < elapse_key env b}" using 2(4) 1(3) False by auto
      moreover have "expire_elapses sys alloc env w = Some (env', w')"
        using g 1(1) 2(1) by (subst expire_elapses.simps) simp
      moreover have "timeout_key env' = timeout_key env" using 2(5) 1(6) by (rule trans)
      ultimately show ?thesis using 1(4) 2(2,3) by blast
    qed
  qed
qed

text \<open>The whole sweep: exactly the sessions with a deadline that has passed are released.\<close>

lemma second_sweep_ok:
  assumes "pool_ok env" "clock_stands sys now"
  shows "\<exists>env' w'. second_sweep sys alloc env w = Some (env', w') \<and> pool_ok env' \<and> (counted env \<longrightarrow> counted env')
     \<and> used env' = {a \<in> used env. now < timeout_key env a \<and> now < elapse_key env a}"
proof -
  obtain env1 w1 where 1: "expire_timeouts sys alloc env w = Some (env1, w1)" "pool_ok env1" "counted env \<longrightarrow> counted env1"
    "used env1 = {a \<in> used env. now < timeout_key env a}" "elapse_key env1 = elapse_key env"
    using expire_timeouts_ok [OF assms] by blast
  obtain env2 w2 where 2: "expire_elapses sys alloc env1 w1 = Some (env2, w2)" "pool_ok env2" "counted env1 \<longrightarrow> counted env2"
    "used env2 = {a \<in> used env1. now < elapse_key env1 a}"
    using expire_elapses_ok [OF 1(2) assms(2)] by blast
  have "elapse_key env1 a = elapse_key env a" for a using 1(5) by (rule fun_cong)
  then have "used env2 = {a \<in> used env. now < timeout_key env a \<and> now < elapse_key env a}" using 1(4) 2(4) by auto
  then show ?thesis using 1(1,3) 2(1-3) by (simp add: second_sweep_def)
qed

end
