(* ===== verification/HetaoHost.thy ===== *)
theory HetaoHost
  imports HetaoState
begin

text \<open>
  The virtual hosts of a listener (\<open>VirtualHostHash.c\<close>) and the rewriting of URIs (\<open>RewriteUri.c\<close>).
  The regular expressions are parameters: functions that stand for \<open>pcre_exec\<close>, from the subject to the
  result code and the vector of offsets.
\<close>

section \<open>Virtual hosts\<close>

text \<open>A chain holds the addresses of hosts; the key is the domain.\<close>

definition InitVirtualHostHash :: "bool \<Rightarrow> listen_session \<Rightarrow> int \<Rightarrow> (int \<times> listen_session) option" where
  "InitVirtualHostHash alloc ls count =
     map_option (\<lambda>(nret, hash). (nret, ls\<lparr>virtual_host_hash := hash\<rparr>)) (init_hash alloc (count * 2))"

text \<open>The hosts that are freed, each with its redirected domains.\<close>

definition CleanVirtualHostHash ::
    "(nat \<Rightarrow> virtual_host) \<Rightarrow> listen_session \<Rightarrow> (nat \<times> redirect_domain list) list \<times> listen_session" where
  "CleanVirtualHostHash hs ls =
     (map (\<lambda>a. (a, fst (CleanRedirectDomainHash (redirects (hs a))))) (concat (virtual_host_hash ls)),
      ls\<lparr>virtual_host_hash := []\<rparr>)"

definition PushVirtualHostHashNode ::
    "(nat \<Rightarrow> virtual_host) \<Rightarrow> listen_session \<Rightarrow> nat \<Rightarrow> (int \<times> listen_session) option" where
  "PushVirtualHostHashNode hs ls a =
     map_option (\<lambda>(nret, hash). (nret, ls\<lparr>virtual_host_hash := hash\<rparr>))
       (push_node (\<lambda>b. domain (hs b)) (virtual_host_hash ls) a)"

definition QueryVirtualHostHashNode :: "(nat \<Rightarrow> virtual_host) \<Rightarrow> listen_session \<Rightarrow> bytes \<Rightarrow> nat option option" where
  "QueryVirtualHostHashNode hs ls s = query_node (\<lambda>b. domain (hs b)) (virtual_host_hash ls) s"

section \<open>Rewriting\<close>

type_synonym regex = "bytes \<Rightarrow> int \<times> int list"

abbreviation (input) PCRE_ERROR_NOMATCH :: int where "PCRE_ERROR_NOMATCH \<equiv> - 1"

text \<open>\<open>memmove\<close> and \<open>memcpy\<close> into the area \<open>m\<close>, \<open>None\<close> if they leave it; a negative size is a huge one.\<close>

definition memmove_in :: "nat \<Rightarrow> nat \<Rightarrow> int \<Rightarrow> bytes \<Rightarrow> bytes option" where
  "memmove_in dst src n m =
     (if n < 0 \<or> int src + n > int (length m) \<or> int dst + n > int (length m) then None
      else Some (write_at dst (slice src (nat n) m) m))"

definition memcpy_in :: "nat \<Rightarrow> bytes \<Rightarrow> bytes \<Rightarrow> bytes option" where
  "memcpy_in dst s m = (if dst + length s > length m then None else Some (write_at dst s m))"

lemma memmove_in_length: "memmove_in dst src n m = Some m' \<Longrightarrow> length m' = length m"
  by (auto simp: memmove_in_def slice_def split: if_splits intro!: length_write_at)

lemma memcpy_in_length: "memcpy_in dst s m = Some m' \<Longrightarrow> length m' = length m"
  by (auto simp: memcpy_in_def split: if_splits)

text \<open>The number in a placeholder.\<close>

definition placeholder_index :: "bytes \<Rightarrow> int" where
  "placeholder_index digits = foldl (\<lambda>v c. v * 10 + char_int c - 48) 0 digits"

text \<open>One replacement, for the placeholder at the offsets \<open>a\<close> to \<open>b\<close> from \<open>p\<close> and the group of the URI that
  \<open>pov\<close> holds: \<open>Inl\<close> the result code, \<open>Inr\<close> the area, the position, the rest and the length.\<close>

definition replace_one ::
    "bytes \<Rightarrow> int \<Rightarrow> int list \<Rightarrow> bytes \<Rightarrow> nat \<Rightarrow> int \<Rightarrow> int \<Rightarrow> int \<Rightarrow> (int + bytes \<times> nat \<times> int \<times> int) option" where
  "replace_one uri pcount pov m p a b new_uri_len =
     (let digits = slice (nat (int p + a + 1)) (nat (b - 1 - (a + 1))) m;
          index = placeholder_index digits in
      if index > pcount - 1 then Some (Inl (- 11))
      else
        let from = pov ! nat (index * 2); until = pov ! nat (index * 2 + 1);
            dd_template_ovector_len = b - a;
            dd_pattern_ovector_len = until - from;
            dd_len = dd_pattern_ovector_len - dd_template_ovector_len;
            new_uri_len = new_uri_len + dd_len in
        if new_uri_len > int (length m) - 1 then Some (Inl (- 12))
        else do {
          m \<leftarrow> (if dd_len \<noteq> 0 then memmove_in (nat (int p + b + dd_len)) (nat (int p + b)) (new_uri_len - b) m
                else Some m);
          m \<leftarrow> memcpy_in (nat (int p + a)) (slice (nat from) (nat dd_pattern_ovector_len) uri) m;
          Some (Inr (m, p + nat a + nat dd_pattern_ovector_len + 1, new_uri_len - dd_pattern_ovector_len, new_uri_len)) })"

lemma replace_one_moves:
  "replace_one uri pcount pov m p a b len = Some (Inr (m', p', r', len')) \<Longrightarrow> length m' = length m \<and> p < p'"
  by (auto simp: replace_one_def Let_def bind_eq_Some_conv split: if_splits
      dest!: memmove_in_length memcpy_in_length)

text \<open>The loop over the placeholders.  The subject of \<open>pcre_exec\<close> must lie in the area.\<close>

function replace_loop ::
    "regex \<Rightarrow> bytes \<Rightarrow> int \<Rightarrow> int list \<Rightarrow> bytes \<Rightarrow> nat \<Rightarrow> int \<Rightarrow> int \<Rightarrow> (int \<times> bytes \<times> int) option" where
  "replace_loop template_re uri pcount pov m p remain_len new_uri_len =
     (if remain_len < 0 \<or> int p + remain_len > int (length m) then None
      else
        let (tcount, tov) = template_re (slice p (nat remain_len) m) in
        if tcount > 0 then
          (case replace_one uri pcount pov m p (tov ! 2) (tov ! 3) new_uri_len of
             None \<Rightarrow> None
           | Some (Inl nret) \<Rightarrow> Some (nret, m, new_uri_len)
           | Some (Inr (m, p, remain_len, new_uri_len)) \<Rightarrow>
               replace_loop template_re uri pcount pov m p remain_len new_uri_len)
        else if tcount = 0 \<or> tcount = PCRE_ERROR_NOMATCH then Some (0, m, new_uri_len)
        else Some (1, m, new_uri_len))"
  by pat_completeness auto
termination
  by (relation "measure (\<lambda>(re, uri, c, pov, m, p, r, l). Suc (length m) - p)") (auto dest!: replace_one_moves)

declare replace_loop.simps [simp del]

text \<open>The result code, the array and the length of the new URI.\<close>

definition RegexReplaceString :: "regex \<Rightarrow> bytes \<Rightarrow> regex \<Rightarrow> bytes \<Rightarrow> int \<Rightarrow> (int \<times> bytes \<times> int) option" where
  "RegexReplaceString pattern_re uri template_re new_uri new_uri_len =
     (let (pcount, pov) = pattern_re uri in
      if pcount > 0 then
        (case replace_loop template_re uri pcount pov new_uri 0 new_uri_len new_uri_len of
           None \<Rightarrow> None
         | Some (nret, m, len) \<Rightarrow> Some (nret, m, if nret = 0 then len else new_uri_len))
      else if pcount = 0 \<or> pcount = PCRE_ERROR_NOMATCH then Some (1, new_uri, new_uri_len)
      else Some (- 1, new_uri, new_uri_len))"

section \<open>Theorems on the table of hosts\<close>

interpretation host_table: keyed_table "\<lambda>a. domain (hs a)" "\<lambda>ls. chains_ok (\<lambda>a. domain (hs a)) (virtual_host_hash ls)"
    "PushVirtualHostHashNode hs" "QueryVirtualHostHashNode hs" for hs
proof
  fix ls :: listen_session and s a b
  let ?key = "\<lambda>a. domain (hs a)"
  assume ok: "chains_ok ?key (virtual_host_hash ls)"
  show "QueryVirtualHostHashNode hs ls s \<noteq> None"
    using chained.query_defined [OF ok] by (simp add: QueryVirtualHostHashNode_def)
  show "?key a = s" if "QueryVirtualHostHashNode hs ls s = Some (Some a)"
    using that chained.query_key [OF ok] by (simp add: QueryVirtualHostHashNode_def)
  assume c: "is_cstr (?key a)"
  show "PushVirtualHostHashNode hs ls a = Some (1, ls)" if "QueryVirtualHostHashNode hs ls (?key a) = Some (Some b)"
    using that chained.push_again [of ?key, OF ok c]
    by (simp add: QueryVirtualHostHashNode_def PushVirtualHostHashNode_def)
  assume n: "QueryVirtualHostHashNode hs ls (?key a) = Some None"
  obtain h where "push_node ?key (virtual_host_hash ls) a = Some (0, h)" "chains_ok ?key h"
    "query_node ?key h = (query_node ?key (virtual_host_hash ls))(?key a := Some (Some a))"
    using chained.push_new [of ?key, OF ok c] n by (auto simp: QueryVirtualHostHashNode_def)
  then show "\<exists>ls'. PushVirtualHostHashNode hs ls a = Some (0, ls') \<and> chains_ok ?key (virtual_host_hash ls')
      \<and> QueryVirtualHostHashNode hs ls' = (QueryVirtualHostHashNode hs ls)(?key a := Some (Some a))"
    by (simp add: fun_eq_iff QueryVirtualHostHashNode_def PushVirtualHostHashNode_def)
qed

text \<open>The hosts of a listener, put into a fresh table, are found by their domains and by nothing else.\<close>

lemma hosts_found:
  assumes "0 < count" "distinct (map (\<lambda>a. domain (hs a)) as)" "\<forall>a \<in> set as. is_cstr (domain (hs a))"
  shows "\<exists>ls1 ls2. InitVirtualHostHash True ls count = Some (0, ls1)
     \<and> host_table.push_all hs ls1 as = Some (0, ls2)
     \<and> (\<forall>s. QueryVirtualHostHashNode hs ls2 s = Some (map_of (map (\<lambda>a. (domain (hs a), a)) as) s))"
proof -
  let ?key = "\<lambda>a. domain (hs a)" and ?ls = "ls\<lparr>virtual_host_hash := replicate (nat (count * 2)) []\<rparr>"
  have h: "init_hash True (count * 2) = Some (0, replicate (nat (count * 2)) ([] :: nat list))" by (simp add: init_hash_def)
  have ok: "chains_ok ?key (virtual_host_hash ?ls)" and e: "QueryVirtualHostHashNode hs ?ls s = Some None" for s
    using init_hash_ok [OF _ h, of ?key] assms(1) by (simp_all add: QueryVirtualHostHashNode_def)
  obtain ls2 where ls2: "host_table.push_all hs ?ls as = Some (0, ls2)"
    "\<forall>s. QueryVirtualHostHashNode hs ls2 s = (case map_of (map (\<lambda>a. (?key a, a)) as) s of
       None \<Rightarrow> QueryVirtualHostHashNode hs ?ls s | Some a \<Rightarrow> Some (Some a))"
    using host_table.push_all_distinct [OF ok, of as] assms(2,3) e by auto
  have "QueryVirtualHostHashNode hs ls2 s = Some (map_of (map (\<lambda>a. (?key a, a)) as) s)" for s
    using ls2(2) e by (auto split: option.splits)
  then show ?thesis using ls2(1) h by (auto simp: InitVirtualHostHash_def)
qed

section \<open>Theorems on rewriting\<close>

text \<open>The situation of the theorems: the template \<open>pre @ ph @ post\<close> with one placeholder lies at the start
  of the array, the URI matches the pattern, and \<open>g\<close> is the group that the placeholder names.\<close>

definition group_of :: "bytes \<Rightarrow> int list \<Rightarrow> int \<Rightarrow> bytes" where
  "group_of uri pov k = slice (nat (pov ! nat (k * 2))) (nat (pov ! nat (k * 2 + 1) - pov ! nat (k * 2))) uri"

definition one_placeholder :: "regex \<Rightarrow> bytes \<Rightarrow> regex \<Rightarrow> bytes \<Rightarrow> bytes \<Rightarrow> bytes \<Rightarrow> bytes \<Rightarrow> bool" where
  "one_placeholder pattern_re uri template_re pre ph post g \<longleftrightarrow>
     (let (pcount, pov) = pattern_re uri; (tcount, tov) = template_re (pre @ ph @ post);
          k = placeholder_index (butlast (tl ph)) in
      2 \<le> length ph \<and> k < pcount \<and> 0 \<le> k \<and> 0 \<le> pov ! nat (k * 2) \<and> pov ! nat (k * 2) \<le> pov ! nat (k * 2 + 1)
    \<and> pov ! nat (k * 2 + 1) \<le> int (length uri) \<and> g = group_of uri pov k
    \<and> 0 < tcount \<and> tov ! 2 = int (length pre) \<and> tov ! 3 = int (length pre + length ph))"

lemma placeholder_digits:
  "2 \<le> length ph \<Longrightarrow> slice (Suc (length pre)) (length ph - 2) (pre @ ph @ r) = butlast (tl ph)"
  by (cases ph) (simp_all add: slice_def butlast_conv_take)

lemma length_group:
  assumes "0 \<le> pov ! nat (k * 2)" "pov ! nat (k * 2) \<le> pov ! nat (k * 2 + 1)" "pov ! nat (k * 2 + 1) \<le> int (length uri)"
  shows "int (length (group_of uri pov k)) = pov ! nat (k * 2 + 1) - pov ! nat (k * 2)"
proof -
  have "nat (pov ! nat (k * 2)) + nat (pov ! nat (k * 2 + 1) - pov ! nat (k * 2)) \<le> length uri" using assms by linarith
  then show ?thesis unfolding group_of_def length_slice using assms(2) by simp
qed

text \<open>The first pass of the loop.\<close>

lemma first_replacement:
  fixes rest
  assumes "one_placeholder pattern_re uri template_re pre ph post g"
  defines "len' \<equiv> int (length pre + length g + length post)" and "m \<equiv> pre @ ph @ post @ rest"
  shows "RegexReplaceString pattern_re uri template_re m (int (length (pre @ ph @ post))) =
     (if len' > int (length m) - 1 then Some (- 12, m, int (length (pre @ ph @ post)))
      else case do {
          m \<leftarrow> (if length g \<noteq> length ph
                then memmove_in (length pre + length g) (length pre + length ph) (len' - int (length pre + length ph)) m
                else Some m);
          m \<leftarrow> memcpy_in (length pre) g m;
          replace_loop template_re uri (fst (pattern_re uri)) (snd (pattern_re uri)) m (length pre + length g + 1)
            (int (length pre + length post)) len' } of
        None \<Rightarrow> None | Some (nret, m, len) \<Rightarrow> Some (nret, m, if nret = 0 then len else int (length (pre @ ph @ post))))"
proof -
  obtain pcount pov where p: "pattern_re uri = (pcount, pov)" by fastforce
  obtain tcount tov where t: "template_re (pre @ ph @ post) = (tcount, tov)" by fastforce
  define k where "k = placeholder_index (butlast (tl ph))"
  have a: "2 \<le> length ph" "k < pcount" "0 \<le> k" "0 \<le> pov ! nat (k * 2)" "pov ! nat (k * 2) \<le> pov ! nat (k * 2 + 1)"
    "pov ! nat (k * 2 + 1) \<le> int (length uri)" "g = group_of uri pov k" "0 < tcount" "tov ! 2 = int (length pre)"
    "tov ! 3 = int (length pre + length ph)"
    using assms(1) by (simp_all add: one_placeholder_def p t k_def Let_def)
  have lg: "pov ! nat (k * 2 + 1) - pov ! nat (k * 2) = int (length g)" using length_group [OF a(4-6)] a(7) by simp
  have d: "slice (nat (int 0 + tov ! 2 + 1)) (nat (tov ! 3 - 1 - (tov ! 2 + 1))) m = butlast (tl ph)"
    using placeholder_digits [OF a(1), of pre "post @ rest"] a(1) by (simp add: a(9,10) m_def nat_diff_distrib nat_add_distrib)
  have gs: "slice (nat (pov ! nat (k * 2))) (nat (int (length g))) uri = g"
    using a(7) lg by (simp add: group_of_def)
  have r: "replace_one uri pcount pov m 0 (tov ! 2) (tov ! 3) (int (length (pre @ ph @ post))) =
     (if len' > int (length m) - 1 then Some (Inl (- 12))
      else do {
          m \<leftarrow> (if length g \<noteq> length ph
                then memmove_in (length pre + length g) (length pre + length ph) (len' - int (length pre + length ph)) m
                else Some m);
          m \<leftarrow> memcpy_in (length pre) g m;
          Some (Inr (m, length pre + length g + 1, int (length pre + length post), len')) })"
  proof -
    have s: "int (length (pre @ ph @ post)) + (int (length g) - (tov ! 3 - tov ! 2)) = len'"
      "nat (int 0 + tov ! 3 + (int (length g) - (tov ! 3 - tov ! 2))) = length pre + length g"
      "nat (int 0 + tov ! 3) = length pre + length ph" "nat (int 0 + tov ! 2) = length pre"
      "int (length g) - (tov ! 3 - tov ! 2) \<noteq> 0 \<longleftrightarrow> length g \<noteq> length ph"
      "0 + nat (tov ! 2) + nat (int (length g)) + 1 = length pre + length g + 1"
      "len' - int (length g) = int (length pre + length post)"
      using a(9,10) by (simp_all add: len'_def)
    have k: "\<not> k > pcount - 1" using a(2) by simp
    show ?thesis
      unfolding replace_one_def Let_def d k_def [symmetric] lg s gs if_not_P [OF k]
      unfolding a(10) by (rule refl)
  qed
  let ?len = "int (length (pre @ ph @ post))"
  have sub: "slice 0 (nat ?len) m = pre @ ph @ post" "?len \<le> int (length m)" by (simp_all add: slice_def m_def)
  have l: "replace_loop template_re uri pcount pov m 0 ?len ?len =
     (case replace_one uri pcount pov m 0 (tov ! 2) (tov ! 3) ?len of
        None \<Rightarrow> None
      | Some (Inl nret) \<Rightarrow> Some (nret, m, ?len)
      | Some (Inr (m, p, remain_len, new_uri_len)) \<Rightarrow>
          replace_loop template_re uri pcount pov m p remain_len new_uri_len)"
  proof -
    have c: "\<not> (?len < 0 \<or> int 0 + ?len > int (length m))" using sub(2) by simp
    show ?thesis by (subst replace_loop.simps) (unfold if_not_P [OF c] sub t Let_def, simp add: a(8))
  qed
  have "0 < pcount" using a(2,3) by simp
  then have f0: "RegexReplaceString pattern_re uri template_re m ?len =
     (case replace_loop template_re uri pcount pov m 0 ?len ?len of
         None \<Rightarrow> None | Some (nret, m, len) \<Rightarrow> Some (nret, m, if nret = 0 then len else ?len))"
    unfolding RegexReplaceString_def p Let_def by simp
  note f = f0 [unfolded l r]
  show ?thesis
  proof (cases "len' > int (length m) - 1")
    case False
    let ?move = "if length g \<noteq> length ph
      then memmove_in (length pre + length g) (length pre + length ph) (len' - int (length pre + length ph)) m else Some m"
    show ?thesis
    proof (cases ?move)
      case (Some m1)
      show ?thesis
        unfolding f p fst_conv snd_conv if_not_P [OF False] Some by (cases "memcpy_in (length pre) g m1") simp_all
    qed (unfold f if_not_P [OF False], simp)
  qed (unfold f, simp)
qed

text \<open>A group at least as long as the placeholder is put in its place, when the array has the room.\<close>

lemma rewrite_replaces:
  assumes one: "one_placeholder pattern_re uri template_re pre ph post g"
    and quiet: "\<And>s. CHR ''('' \<notin> set s \<Longrightarrow> fst (template_re s) = PCRE_ERROR_NOMATCH"
    and free: "CHR ''('' \<notin> set post" "CHR ''('' \<notin> set rest"
    and long: "length ph \<le> length g"
    and room: "2 * (length g - length ph) \<le> length rest" "length g - length ph + length pre < length rest"
  shows "\<exists>rest'. RegexReplaceString pattern_re uri template_re (pre @ ph @ post @ rest) (int (length (pre @ ph @ post)))
     = Some (0, pre @ g @ post @ rest', int (length (pre @ g @ post)))"
proof -
  define d where "d = length g - length ph"
  let ?m = "pre @ ph @ post @ rest"
  define rest' where "rest' = take d rest @ drop (d + d) rest"
  define len' where "len' = int (length pre + length g + length post)"
  have d: "length g = length ph + d" using long by (simp add: d_def)
  note room = room [folded d_def]
  have mv: "(if length g \<noteq> length ph
      then memmove_in (length pre + length g) (length pre + length ph) (len' - int (length pre + length ph)) ?m
      else Some ?m) = Some (pre @ ph @ take d (post @ rest) @ post @ rest')"
  proof (cases "length g = length ph")
    case False
    have n: "len' - int (length pre + length ph) = int (d + length post)" using d by (simp add: len'_def)
    have "slice (length pre + length ph) (d + length post) ?m = post @ take d rest"
      by (simp add: slice_def)
    then show ?thesis
      using False room(1) d unfolding n by (simp add: memmove_in_def write_at_def rest'_def nat_int_add)
  qed (simp add: rest'_def d_def)
  have cp: "memcpy_in (length pre) g (pre @ ph @ take d (post @ rest) @ post @ rest') = Some (pre @ g @ post @ rest')"
    using d room(1) by (simp add: memcpy_in_def write_at_def)
  have fits: "\<not> len' > int (length ?m) - 1" using room(2) d by (simp add: len'_def)
  let ?m' = "pre @ g @ post @ rest'" and ?p = "length pre + length g + 1"
  have inside: "int ?p + int (length pre + length post) \<le> int (length ?m')" using room d by (simp add: rest'_def)
  have "set (slice ?p (length pre + length post) ?m') \<subseteq> set post \<union> set rest"
    by (auto simp: slice_def rest'_def dest!: in_set_takeD in_set_dropD)
  then have "fst (template_re (slice ?p (length pre + length post) ?m')) = PCRE_ERROR_NOMATCH"
    using quiet free by blast
  then have "replace_loop template_re uri (fst (pattern_re uri)) (snd (pattern_re uri)) ?m' ?p
      (int (length pre + length post)) len' = Some (0, ?m', len')"
    using inside by (subst replace_loop.simps) (auto simp: Let_def nat_int_add split: prod.splits)
  then show ?thesis
    unfolding first_replacement [OF one, of rest, folded len'_def] if_not_P [OF fits] mv Option.bind_lunit cp
    by (auto simp: len'_def)
qed

text \<open>With a group that is shorter than the placeholder the tail of the template is not moved as a whole; if
  there is no tail to speak of, the number of bytes to move is negative.\<close>

lemma rewrite_crashes:
  assumes "one_placeholder pattern_re uri template_re pre ph post g" "length g + length post < length ph" "rest \<noteq> []"
  shows "RegexReplaceString pattern_re uri template_re (pre @ ph @ post @ rest) (int (length (pre @ ph @ post))) = None"
proof -
  have "int (length pre + length g + length post) - int (length pre + length ph) < 0" using assms(2) by simp
  moreover have "length g \<noteq> length ph" using assms(2) by simp
  moreover have "\<not> int (length pre + length g + length post) > int (length (pre @ ph @ post @ rest)) - 1"
    using assms(2,3) by (cases rest) simp_all
  ultimately show ?thesis
    unfolding first_replacement [OF assms(1), of rest] by (simp add: memmove_in_def)
qed

text \<open>A group that is much longer than the placeholder: the move reaches behind the array although the
  new URI fits into it.\<close>

lemma rewrite_overruns:
  assumes "one_placeholder pattern_re uri template_re pre ph post g" "length ph < length g"
    and "length g - length ph < length rest" "length rest < 2 * (length g - length ph)"
  shows "RegexReplaceString pattern_re uri template_re (pre @ ph @ post @ rest) (int (length (pre @ ph @ post))) = None"
proof -
  obtain d where d: "length g = length ph + d" using assms(2) by (metis less_imp_add_positive)
  have "\<not> int (length pre + length g + length post) > int (length (pre @ ph @ post @ rest)) - 1"
    using assms(3) d by simp
  moreover have "memmove_in (length pre + length g) (length pre + length ph)
      (int (length pre + length g + length post) - int (length pre + length ph)) (pre @ ph @ post @ rest) = None"
    using assms(4) d by (simp add: memmove_in_def)
  ultimately show ?thesis
    using assms(2) unfolding first_replacement [OF assms(1), of rest] by simp
qed

end
