(* ===== verification/HetaoForward.thy ===== *)
theory HetaoForward
  imports HetaoSession HetaoHost
begin

text \<open>
  Forwarding of requests to other servers: the tree of connection counts
  (\<open>LeastConnectionCountTree.c\<close>), the choice of a server and the connection to it
  (\<open>OnConnectingForward.c\<close>, \<open>OnConnectingSslForward.c\<close>), and the exchange with it (\<open>OnSendingForward.c\<close>,
  \<open>OnReceivingForward.c\<close>).  Setting options on a socket is left out; a null pointer followed is \<open>None\<close>.
\<close>

abbreviation (input) HTTP_INTERNAL_SERVER_ERROR :: int where "HTTP_INTERNAL_SERVER_ERROR \<equiv> 500"
abbreviation (input) HTTP_SERVICE_UNAVAILABLE :: int where "HTTP_SERVICE_UNAVAILABLE \<equiv> 503"
abbreviation (input) HTTPSESSION_FLAGS_SENDING :: int where "HTTPSESSION_FLAGS_SENDING \<equiv> 2"
abbreviation (input) EINPROGRESS :: int where "EINPROGRESS \<equiv> 115"

section \<open>The tree of connection counts\<close>

abbreviation conns :: "hetao_env \<Rightarrow> nat \<Rightarrow> int" where
  "conns env f \<equiv> connection_count (servers env f)"

definition AddLeastConnectionCountTreeNode :: "hetao_env \<Rightarrow> nat \<Rightarrow> nat \<Rightarrow> (int \<times> hetao_env) option" where
  "AddLeastConnectionCountTreeNode env h f =
     map_option (\<lambda>t. (0, upd_host h (\<lambda>v. v\<lparr>leastconnection_rbtree := t\<rparr>) env))
       (add_node (conns env) f (leastconnection_rbtree (hosts env h)))"

definition RemoveLeastConnectionCountTreeNode :: "hetao_env \<Rightarrow> nat \<Rightarrow> nat \<Rightarrow> hetao_env option" where
  "RemoveLeastConnectionCountTreeNode env h f =
     map_option (\<lambda>t. upd_host h (\<lambda>v. v\<lparr>leastconnection_rbtree := t\<rparr>) env)
       (rb_erase f (leastconnection_rbtree (hosts env h)))"

definition UpdateLeastConnectionCountTreeNode :: "hetao_env \<Rightarrow> nat \<Rightarrow> nat \<Rightarrow> (int \<times> hetao_env) option" where
  "UpdateLeastConnectionCountTreeNode env h f =
     do { env \<leftarrow> RemoveLeastConnectionCountTreeNode env h f; AddLeastConnectionCountTreeNode env h f }"

definition TravelMinLeastConnectionCountTreeNode :: "hetao_env \<Rightarrow> nat \<Rightarrow> nat option \<Rightarrow> nat option option" where
  "TravelMinLeastConnectionCountTreeNode env h fo =
     (case fo of
        None \<Rightarrow> Some (rb_first (leastconnection_rbtree (hosts env h)))
      | Some f \<Rightarrow> rb_next f (leastconnection_rbtree (hosts env h)))"

section \<open>Choosing a server\<close>

text \<open>\<open>timestamp_to_valid == 0 || GETSECONDSTAMP > timestamp_to_valid\<close>; the clock is read only when needed.\<close>

definition server_valid :: "'w sys \<Rightarrow> hetao_env \<Rightarrow> nat \<Rightarrow> 'w \<Rightarrow> bool \<times> 'w" where
  "server_valid sys env f w =
     (if timestamp_to_valid (servers env f) = 0 then (True, w)
      else let (now, w) = sys_now sys w in (now > timestamp_to_valid (servers env f), w))"

fun first_valid :: "'w sys \<Rightarrow> hetao_env \<Rightarrow> nat list \<Rightarrow> 'w \<Rightarrow> nat option \<times> 'w" where
  "first_valid sys env [] w = (None, w)"
| "first_valid sys env (f # fs) w =
     (let (valid, w) = server_valid sys env f w in if valid then (Some f, w) else first_valid sys env fs w)"

partial_function (option) least_valid :: "'w sys \<Rightarrow> hetao_env \<Rightarrow> nat \<Rightarrow> nat option \<Rightarrow> 'w \<Rightarrow> (nat option \<times> 'w) option" where
  "least_valid sys env h cur w =
     (case cur of
        None \<Rightarrow> Some (None, w)
      | Some f \<Rightarrow>
          let (valid, w) = server_valid sys env f w in
          if valid then Some (Some f, w)
          else (case TravelMinLeastConnectionCountTreeNode env h (Some f) of
                  None \<Rightarrow> None
                | Some next \<Rightarrow> least_valid sys env h next w))"

definition take_server :: "nat \<Rightarrow> nat \<Rightarrow> hetao_env \<Rightarrow> hetao_env" where
  "take_server a f env =
     upd_session a (\<lambda>s. s\<lparr>p_forward_server := Some f\<rparr>) (upd_server f (\<lambda>s. s\<lparr>timestamp_to_valid := 0\<rparr>) env)"

definition SelectForwardAddress :: "'w sys \<Rightarrow> hetao_env \<Rightarrow> nat \<Rightarrow> 'w \<Rightarrow> (int \<times> hetao_env \<times> 'w) option" where
  "SelectForwardAddress sys env a w =
     (case p_virtual_host (sessions env a) of
        None \<Rightarrow> None
      | Some h \<Rightarrow>
          let rule = rd (forward_rule (hosts env h) @ [NUL]) 0 in
          if rule = CHR ''R'' then
            (case first_valid sys env (roundrobin_list (hosts env h)) w of
               (None, w) \<Rightarrow> Some (HTTP_SERVICE_UNAVAILABLE, env, w)
             | (Some f, w) \<Rightarrow>
                 Some (HTTP_OK, take_server a f
                   (upd_host h (\<lambda>v. v\<lparr>roundrobin_list := remove1 f (roundrobin_list v) @ [f]\<rparr>) env), w))
          else if rule = CHR ''L'' then
            (case TravelMinLeastConnectionCountTreeNode env h None of
               None \<Rightarrow> None
             | Some cur \<Rightarrow>
                 (case least_valid sys env h cur w of
                    None \<Rightarrow> None
                  | Some (None, w) \<Rightarrow> Some (HTTP_SERVICE_UNAVAILABLE, env, w)
                  | Some (Some f, w) \<Rightarrow> Some (HTTP_OK, take_server a f env, w)))
          else Some (HTTP_INTERNAL_SERVER_ERROR, env, w))"

section \<open>Connecting\<close>

text \<open>The request is copied into the buffer of the forwarded request.\<close>

definition copy_request :: "allocator \<Rightarrow> hetao_env \<Rightarrow> nat \<Rightarrow> (int \<times> hetao_env) option" where
  "copy_request alloc env a =
     (let s = sessions env a in
      map_option (\<lambda>(nret, b). (nret, upd_session a (\<lambda>s. s\<lparr>forward_http := (forward_http s)\<lparr>request_buffer := b\<rparr>\<rparr>) env))
        (MemcatHttpBuffer alloc (GetHttpRequestBuffer (forward_http s)) (content (GetHttpRequestBuffer (http s)))))"

definition OnConnectingSslForward ::
    "'w sys \<Rightarrow> allocator \<Rightarrow> hetao_env \<Rightarrow> nat \<Rightarrow> 'w \<Rightarrow> (int \<times> hetao_env \<times> 'w) option" where
  "OnConnectingSslForward sys alloc env a w =
     (let sock = na_sock (forward_netaddr (sessions env a)) in
      case sys_ssl_handshake sys sock w of
        (Handshake_done, w) \<Rightarrow>
          (case copy_request alloc env a of
             None \<Rightarrow> None
           | Some (nret, env) \<Rightarrow>
               if nret \<noteq> 0 then Some (1, env, w)
               else
                 let (nret, w) = sys_epoll_ctl sys EPOLL_CTL_MOD sock EPOLLOUT_ERR w in
                 if nret = - 1 then Some (1, env, w)
                 else Some (0, upd_session a (\<lambda>s. s\<lparr>forward_ssl_connected := True\<rparr>) env, w))
      | (Want_write, w) \<Rightarrow>
          let (nret, w) = sys_epoll_ctl sys EPOLL_CTL_MOD sock EPOLLOUT_ERR w in
          Some (if nret = - 1 then 1 else 0, env, w)
      | (Want_read, w) \<Rightarrow>
          let (nret, w) = sys_epoll_ctl sys EPOLL_CTL_MOD sock EPOLLIN_ERR w in
          Some (if nret = - 1 then 1 else 0, env, w)
      | (Handshake_failed, w) \<Rightarrow> Some (1, env, w))"

text \<open>\<open>SetHttpSessionUnused_05\<close>, then return of \<open>code\<close>.\<close>

definition give_up :: "'w sys \<Rightarrow> allocator \<Rightarrow> int \<Rightarrow> hetao_env \<Rightarrow> nat \<Rightarrow> 'w \<Rightarrow> (int \<times> hetao_env \<times> 'w) option" where
  "give_up sys alloc code env a w =
     map_option (\<lambda>(env, w). (code, env, w)) (SetHttpSessionUnused_05 sys alloc env a w)"

text \<open>The steps after the connection is established, which \<open>ConnectForwardServer\<close> (\<open>op\<close> is
  \<open>EPOLL_CTL_ADD\<close>) and \<open>OnConnectingForward\<close> (\<open>EPOLL_CTL_MOD\<close>) share; \<open>failed\<close> is the code for a failure,
  \<open>failed_epoll\<close> for a failure of the registration, \<open>ok\<close> for success.\<close>

definition forward_connected ::
    "'w sys \<Rightarrow> allocator \<Rightarrow> epoll_op \<Rightarrow> int \<Rightarrow> int \<Rightarrow> int \<Rightarrow> hetao_env \<Rightarrow> nat \<Rightarrow> 'w \<Rightarrow> (int \<times> hetao_env \<times> 'w) option" where
  "forward_connected sys alloc op failed failed_epoll ok env a w =
     (let env = upd_session a (\<lambda>s. s\<lparr>forward_flags := HTTPSESSION_FLAGS_CONNECTED\<rparr>) env in
      case p_virtual_host (sessions env a) of
        None \<Rightarrow> None
      | Some h \<Rightarrow>
          if forward_ssl_ctx (hosts env h) then
            let (created, w) = sys_ssl_new sys w;
                env = upd_session a (\<lambda>s. s\<lparr>forward_ssl := created\<rparr>) env in
            if \<not> created then give_up sys alloc failed env a w
            else
              (case OnConnectingSslForward sys alloc
                      (upd_session a (\<lambda>s. s\<lparr>forward_ssl_connected := False\<rparr>) env) a w of
                 None \<Rightarrow> None
               | Some (nret, env, w) \<Rightarrow>
                   if nret = - 1 then give_up sys alloc failed env a w else Some (0, env, w))
          else
            (case copy_request alloc env a of
               None \<Rightarrow> None
             | Some (nret, env) \<Rightarrow>
                 if nret \<noteq> 0 then give_up sys alloc failed env a w
                 else
                   let (nret, w) = sys_epoll_ctl sys op (na_sock (forward_netaddr (sessions env a))) EPOLLOUT_ERR w in
                   if nret = - 1 then give_up sys alloc failed_epoll env a w else Some (ok, env, w)))"

definition ConnectForwardServer ::
    "'w sys \<Rightarrow> allocator \<Rightarrow> hetao_env \<Rightarrow> nat \<Rightarrow> 'w \<Rightarrow> (int \<times> hetao_env \<times> 'w) option" where
  "ConnectForwardServer sys alloc env a w =
     (let (sock, w) = sys_socket sys w;
          env = upd_session a (\<lambda>s. s\<lparr>forward_flags := 0, forward_netaddr := zero_netaddr\<lparr>na_sock := sock\<rparr>\<rparr>) env in
      if sock = - 1 then Some (HTTP_INTERNAL_SERVER_ERROR, env, w)
      else
        (case (p_forward_server (sessions env a), p_virtual_host (sessions env a)) of
           (Some f, Some h) \<Rightarrow>
             let env = upd_server f (\<lambda>s. s\<lparr>connection_count := connection_count s + 1\<rparr>)
                         (upd_session a (\<lambda>s. s\<lparr>forward_flags := HTTPSESSION_FLAGS_CONNECTING\<rparr>) env) in
             (case UpdateLeastConnectionCountTreeNode env h f of
                None \<Rightarrow> None
              | Some (_, env) \<Rightarrow>
                  (case sys_connect sys sock (fs_netaddr (servers env f)) w of
                     (Some err, w) \<Rightarrow>
                       if err = EINPROGRESS then
                         let (nret, w) = sys_epoll_ctl sys EPOLL_CTL_ADD sock EPOLLOUT_ERR w in
                         if nret = - 1 then give_up sys alloc HTTP_INTERNAL_SERVER_ERROR env a w
                         else Some (HTTP_OK, env, w)
                       else Some (HTTP_SERVICE_UNAVAILABLE, env, w)
                   | (None, w) \<Rightarrow>
                       forward_connected sys alloc EPOLL_CTL_ADD HTTP_INTERNAL_SERVER_ERROR HTTP_INTERNAL_SERVER_ERROR
                         HTTP_OK env a w))
         | _ \<Rightarrow> None))"

text \<open>The server installs no call-backs in its environments.\<close>

definition no_hook :: hook where "no_hook f e r = (0, e)"

text \<open>\<open>FormatHttpResponseStartLine\<close> on the environment of a session.\<close>

definition format_response ::
    "allocator \<Rightarrow> int \<Rightarrow> bool \<Rightarrow> bytes option \<Rightarrow> hetao_env \<Rightarrow> nat \<Rightarrow> (int \<times> hetao_env) option" where
  "format_response alloc code fill format env a =
     map_option (\<lambda>(nret, l, e). (nret, upd_session a (\<lambda>s. s\<lparr>http := e\<rparr>) (env\<lparr>http_lib_state := l\<rparr>)))
       (FormatHttpResponseStartLine alloc (http_lib_state env) code (http (sessions env a)) fill format)"

text \<open>After a failed connection the server is put aside and another one is tried; if that fails too, the
  session gets an error response and is switched back to sending.  The loop of the code is left in its first
  pass.\<close>

definition connect_failed ::
    "'w sys \<Rightarrow> allocator \<Rightarrow> hetao_env \<Rightarrow> nat \<Rightarrow> 'w \<Rightarrow> (int \<times> hetao_env \<times> 'w) option" where
  "connect_failed sys alloc env a w =
     (let (_, w) = sys_epoll_ctl sys EPOLL_CTL_DEL (na_sock (forward_netaddr (sessions env a))) NO_EVENTS w in
      do { (env, w) \<leftarrow> SetHttpSessionUnused_02 sys alloc env a w;
           f \<leftarrow> p_forward_server (sessions env a);
           let (now, w) = sys_now sys w;
           let env = upd_server f (\<lambda>s. s\<lparr>timestamp_to_valid := now + http_options__forward_disable env\<rparr>) env;
           (nret, env, w) \<leftarrow> SelectForwardAddress sys env a w;
           (nret, env, w) \<leftarrow> (if nret = HTTP_OK then ConnectForwardServer sys alloc env a w else Some (nret, env, w));
           if nret = HTTP_OK then Some (0, env, w)
           else do {
             (_, env) \<leftarrow> format_response alloc nret True None env a;
             let (nret, w) = sys_epoll_ctl sys EPOLL_CTL_MOD (na_sock (netaddr (sessions env a))) EPOLLOUT_ERR w;
             Some (if nret = - 1 then - 1 else 0, env, w) } })"

definition OnConnectingForward ::
    "'w sys \<Rightarrow> allocator \<Rightarrow> hetao_env \<Rightarrow> nat \<Rightarrow> 'w \<Rightarrow> (int \<times> hetao_env \<times> 'w) option" where
  "OnConnectingForward sys alloc env a w =
     (let (failed, w) = sys_so_error sys (na_sock (forward_netaddr (sessions env a))) w in
      if failed then connect_failed sys alloc env a w
      else forward_connected sys alloc EPOLL_CTL_MOD 1 (- 1) 0 env a w)"

section \<open>Exchanging messages with the server\<close>

definition OnSendingForward ::
    "'w sys \<Rightarrow> 'z zlib \<Rightarrow> allocator \<Rightarrow> hetao_env \<Rightarrow> nat \<Rightarrow> 'w \<Rightarrow> (int \<times> hetao_env \<times> 'w) option" where
  "OnSendingForward sys z alloc env a w =
     (let s = sessions env a; sock = na_sock (forward_netaddr s) in
      case SendHttpRequestNonblock (sys_os sys sock (forward_ssl s)) z alloc (http_lib_state env) no_hook (forward_http s) w of
        None \<Rightarrow> None
      | Some (nret, e, w) \<Rightarrow>
          let env = upd_session a (\<lambda>s. s\<lparr>forward_http := e\<rparr>) env in
          if nret = FASTERHTTP_INFO_TCP_SEND_WOULDBLOCK then Some (0, env, w)
          else if nret \<noteq> 0 then Some (1, env, w)
          else
            let (nret, w) = sys_epoll_ctl sys EPOLL_CTL_MOD sock EPOLLIN_ERR w in
            Some (if nret = 1 then - 1 else 0, env, w))"

definition OnReceivingForward ::
    "'w sys \<Rightarrow> 'z zlib \<Rightarrow> allocator \<Rightarrow> hetao_env \<Rightarrow> nat \<Rightarrow> 'w \<Rightarrow> (int \<times> hetao_env \<times> 'w) option" where
  "OnReceivingForward sys z alloc env a w =
     (let s = sessions env a in
      case ReceiveHttpResponseNonblock (sys_os sys (na_sock (forward_netaddr s)) (forward_ssl s)) z alloc
             (http_lib_state env) no_hook (forward_http s) w of
        None \<Rightarrow> None
      | Some (nret, e, w) \<Rightarrow>
          let env = upd_session a (\<lambda>s. s\<lparr>forward_http := e\<rparr>) env in
          if nret = FASTERHTTP_INFO_NEED_MORE_HTTP_BUFFER then Some (0, env, w)
          else if nret = FASTERHTTP_ERROR_TCP_CLOSE \<or> nret = FASTERHTTP_INFO_TCP_CLOSE then Some (1, env, w)
          else if nret \<noteq> 0 then do {
            (nret, env) \<leftarrow> format_response alloc (\<bar>nret\<bar> div 100) True None env a;
            Some (if nret \<noteq> 0 then 1 else 0, env, w) }
          else do {
            let env = upd_session a (\<lambda>s. s\<lparr>session_flag := HTTPSESSION_FLAGS_SENDING\<rparr>) env;
            (nret, b) \<leftarrow> MemcatHttpBuffer alloc (GetHttpResponseBuffer (http (sessions env a)))
                           (content (GetHttpResponseBuffer e));
            let env = upd_session a (\<lambda>s. s\<lparr>http := (http s)\<lparr>response_buffer := b\<rparr>\<rparr>) env;
            if nret \<noteq> 0 then Some (1, env, w)
            else do {
              let env = upd_session a (\<lambda>s. s\<lparr>http := CopyHttpHeader_STATUSCODE (http s) (forward_http s)\<rparr>) env;
              (env, w) \<leftarrow> SetHttpSessionUnused_02 sys alloc env a w;
              let (nret, w) = sys_epoll_ctl sys EPOLL_CTL_MOD (na_sock (netaddr (sessions env a))) EPOLLOUT_ERR w;
              Some (if nret = - 1 then - 1 else 0, env, w) } })"

section \<open>The rotation among the servers\<close>

fun select_many :: "'w sys \<Rightarrow> nat \<Rightarrow> nat \<Rightarrow> hetao_env \<Rightarrow> 'w \<Rightarrow> (nat list \<times> hetao_env \<times> 'w) option" where
  "select_many sys a 0 env w = Some ([], env, w)"
| "select_many sys a (Suc n) env w =
     do { (nret, env, w) \<leftarrow> SelectForwardAddress sys env a w;
          f \<leftarrow> (if nret = HTTP_OK then p_forward_server (sessions env a) else None);
          (fs, env, w) \<leftarrow> select_many sys a n env w;
          Some (f # fs, env, w) }"

lemma first_valid_found:
  assumes "f \<in> set fs" "timestamp_to_valid (servers env f) = 0"
  shows "\<exists>g xs ys w'. first_valid sys env fs w = (Some g, w') \<and> fs = xs @ g # ys \<and> f \<notin> set xs"
  using assms(1)
proof (induction fs arbitrary: w)
  case (Cons h hs)
  obtain v w1 where v: "server_valid sys env h w = (v, w1)" by fastforce
  show ?case
  proof (cases v)
    case True
    then show ?thesis using v by (intro exI [of _ h] exI [of _ "[]"] exI [of _ hs] exI [of _ w1]) simp
  next
    case False
    then have "h \<noteq> f" using v assms(2) by (auto simp: server_valid_def)
    then have "f \<in> set hs" using Cons.prems by simp
    from Cons.IH [OF this, of w1] obtain g xs ys w' where
      "first_valid sys env hs w1 = (Some g, w')" "hs = xs @ g # ys" "f \<notin> set xs" by blast
    then show ?thesis using v False \<open>h \<noteq> f\<close>
      by (intro exI [of _ g] exI [of _ "h # xs"] exI [of _ ys] exI [of _ w']) simp
  qed
qed simp

definition round_robin :: "hetao_env \<Rightarrow> nat \<Rightarrow> nat \<Rightarrow> nat list \<Rightarrow> bool" where
  "round_robin env a h fs \<longleftrightarrow> p_virtual_host (sessions env a) = Some h \<and> rd (forward_rule (hosts env h) @ [NUL]) 0 = CHR ''R''
     \<and> roundrobin_list (hosts env h) = fs"

lemma rotate_once:
  assumes "round_robin env a h fs" "distinct fs" "f \<in> set fs" "timestamp_to_valid (servers env f) = 0"
  shows "\<exists>g xs ys env' w'. SelectForwardAddress sys env a w = Some (HTTP_OK, env', w') \<and> p_forward_server (sessions env' a) = Some g
     \<and> fs = xs @ g # ys \<and> f \<notin> set xs \<and> round_robin env' a h (xs @ ys @ [g])
     \<and> timestamp_to_valid (servers env' f) = 0"
proof -
  obtain g xs ys w' where g: "first_valid sys env fs w = (Some g, w')" "fs = xs @ g # ys" "f \<notin> set xs"
    using first_valid_found [OF assms(3,4), of sys w] by blast
  define env' where "env' = take_server a g (upd_host h (\<lambda>v. v\<lparr>roundrobin_list := remove1 g (roundrobin_list v) @ [g]\<rparr>) env)"
  have "remove1 g fs @ [g] = xs @ ys @ [g]" using g(2) assms(2) by (simp add: remove1_append)
  then have "round_robin env' a h (xs @ ys @ [g])" "p_forward_server (sessions env' a) = Some g"
    "timestamp_to_valid (servers env' f) = 0"
    using assms(1,4) by (auto simp: env'_def round_robin_def take_server_def upd_host_def)
  moreover have "SelectForwardAddress sys env a w = Some (HTTP_OK, env', w')"
    using assms(1) g(1) by (simp add: SelectForwardAddress_def round_robin_def env'_def Let_def)
  ultimately show ?thesis using g(2,3) by blast
qed

lemma selected_soon:
  assumes "round_robin env a h fs" "distinct fs" "f \<in> set fs" "timestamp_to_valid (servers env f) = 0"
  shows "\<exists>gs env' w'. select_many sys a n env w = Some (gs, env', w')
     \<and> (length (takeWhile (\<lambda>g. g \<noteq> f) fs) < n \<longrightarrow> f \<in> set gs)"
  using assms
proof (induction n arbitrary: env w fs)
  case (Suc n)
  obtain g xs ys env1 w1 where 1: "SelectForwardAddress sys env a w = Some (HTTP_OK, env1, w1)"
    "p_forward_server (sessions env1 a) = Some g" "fs = xs @ g # ys" "f \<notin> set xs" "round_robin env1 a h (xs @ ys @ [g])"
    "timestamp_to_valid (servers env1 f) = 0"
    using rotate_once [OF Suc.prems, of sys w] by blast
  obtain gs env' w' where 2: "select_many sys a n env1 w1 = Some (gs, env', w')"
    "length (takeWhile (\<lambda>g. g \<noteq> f) (xs @ ys @ [g])) < n \<longrightarrow> f \<in> set gs"
    using Suc.IH [OF 1(5) _ _ 1(6), of w1] Suc.prems(2,3) 1(3) by auto
  have "f \<in> set (g # gs)" if l: "length (takeWhile (\<lambda>g. g \<noteq> f) fs) < Suc n"
  proof (cases "g = f")
    case False
    then have "f \<in> set ys" using Suc.prems(3) 1(3,4) by auto
    have t: "takeWhile (\<lambda>g. g \<noteq> f) (xs @ zs) = xs @ takeWhile (\<lambda>g. g \<noteq> f) zs" for zs
      using 1(4) by (subst takeWhile_append2) auto
    have "takeWhile (\<lambda>g. g \<noteq> f) (ys @ [g]) = takeWhile (\<lambda>g. g \<noteq> f) ys"
      using \<open>f \<in> set ys\<close> by (rule takeWhile_append1) simp
    then show ?thesis using 2(2) l False unfolding 1(3) t by simp
  qed simp
  then show ?case using 1(1,2) 2(1) by simp
qed simp

section \<open>The least busy server\<close>

definition least_ok :: "hetao_env \<Rightarrow> nat \<Rightarrow> bool" where
  "least_ok env h \<longleftrightarrow> index_ok (leastconnection_rbtree (hosts env h))
     \<and> sorted (map (conns env) (inorder (leastconnection_rbtree (hosts env h))))"

lemma least_valid_first:
  assumes "index_ok (leastconnection_rbtree (hosts env h))" "inorder (leastconnection_rbtree (hosts env h)) = xs @ ys"
  shows "least_valid sys env h (if ys = [] then None else Some (hd ys)) w = Some (first_valid sys env ys w)"
  using assms(2)
proof (induction ys arbitrary: xs w)
  case (Cons y ys)
  obtain v w1 where v: "server_valid sys env y w = (v, w1)" by fastforce
  have "TravelMinLeastConnectionCountTreeNode env h (Some y) = Some (if ys = [] then None else Some (hd ys))"
    using index.successor_node [OF assms(1) Cons.prems] by (simp add: TravelMinLeastConnectionCountTreeNode_def)
  then show ?case using Cons.IH [of "xs @ [y]" w1] Cons.prems v by (subst least_valid.simps) simp
qed (simp add: least_valid.simps)

lemma first_valid_sorted:
  assumes "first_valid sys env fs w = (Some f, w')" "sorted (map key fs)" "clock_stands sys now"
  shows "f \<in> set fs \<and> (timestamp_to_valid (servers env f) = 0 \<or> now > timestamp_to_valid (servers env f))
     \<and> (\<forall>g \<in> set fs. key g < (key f :: int) \<longrightarrow> timestamp_to_valid (servers env g) \<noteq> 0 \<and> now \<le> timestamp_to_valid (servers env g))"
  using assms(1,2)
proof (induction fs arbitrary: w)
  case (Cons g gs)
  have now: "fst (sys_now sys w) = now" using assms(3) by (simp add: clock_stands_def)
  obtain v w1 where v: "server_valid sys env g w = (v, w1)" by fastforce
  then have v': "v \<longleftrightarrow> timestamp_to_valid (servers env g) = 0 \<or> now > timestamp_to_valid (servers env g)"
    using now by (auto simp: server_valid_def split: prod.splits if_splits)
  show ?case
  proof (cases v)
    case True
    then show ?thesis using Cons.prems v v' by auto
  next
    case False
    then show ?thesis using Cons v v' by auto
  qed
qed simp

lemma least_chosen:
  assumes "p_virtual_host (sessions env a) = Some h" "rd (forward_rule (hosts env h) @ [NUL]) 0 = CHR ''L''"
    and "least_ok env h" "clock_stands sys now"
  defines "fs \<equiv> set (inorder (leastconnection_rbtree (hosts env h)))"
    and "ready \<equiv> \<lambda>f. timestamp_to_valid (servers env f) = 0 \<or> now > timestamp_to_valid (servers env f)"
  shows "\<exists>nret env' w'. SelectForwardAddress sys env a w = Some (nret, env', w')
     \<and> (nret = HTTP_OK \<longrightarrow> (\<exists>f \<in> fs. p_forward_server (sessions env' a) = Some f \<and> ready f
                           \<and> (\<forall>g \<in> fs. ready g \<longrightarrow> conns env f \<le> conns env g)))"
proof -
  let ?t = "leastconnection_rbtree (hosts env h)"
  obtain r w' where r: "first_valid sys env (inorder ?t) w = (r, w')" by fastforce
  have "TravelMinLeastConnectionCountTreeNode env h None = Some (if inorder ?t = [] then None else Some (hd (inorder ?t)))"
    by (simp add: TravelMinLeastConnectionCountTreeNode_def index.first_node)
  moreover have "least_valid sys env h (if inorder ?t = [] then None else Some (hd (inorder ?t))) w = Some (r, w')"
    using least_valid_first [of env h "[]" "inorder ?t" sys w] assms(3) r by (simp add: least_ok_def)
  ultimately have s: "SelectForwardAddress sys env a w =
     Some (case r of None \<Rightarrow> (HTTP_SERVICE_UNAVAILABLE, env, w') | Some f \<Rightarrow> (HTTP_OK, take_server a f env, w'))"
    using assms(1,2) by (auto simp: SelectForwardAddress_def Let_def split: option.splits)
  show ?thesis
  proof (cases r)
    case (Some f)
    have "f \<in> fs \<and> ready f \<and> (\<forall>g \<in> fs. conns env g < conns env f \<longrightarrow> \<not> ready g)"
      using first_valid_sorted [OF r [unfolded Some] _ assms(4), of "conns env"] assms(3)
      unfolding fs_def ready_def least_ok_def by auto
    then show ?thesis using s Some by (auto simp: take_server_def intro!: leI)
  qed (use s in simp)
qed

section \<open>The books of the connections\<close>

text \<open>The sessions that hold a connection to the server \<open>f\<close>.  The count of every server is their number.\<close>

definition link :: "hetao_env \<Rightarrow> nat \<Rightarrow> nat option" where
  "link env a = (if a < next_session env \<and> forward_flags (sessions env a) \<noteq> 0 then p_forward_server (sessions env a) else None)"

definition balanced :: "hetao_env \<Rightarrow> bool" where
  "balanced env \<longleftrightarrow> (\<forall>f. conns env f = int (card {a. link env a = Some f}))"

lemma finite_link: "finite {a. link env a = Some f}"
  by (rule finite_subset [of _ "{..<next_session env}"]) (auto simp: link_def split: if_splits)

lemma balanced_same:
  assumes "balanced env" "link env' = link env" "\<forall>f. conns env' f = conns env f" shows "balanced env'"
  using assms by (simp add: balanced_def)

lemma balanced_more:
  assumes "balanced env" "link env a = None" "link env' = (link env)(a := Some f)"
    and "\<forall>g. conns env' g = (if g = f then conns env g + 1 else conns env g)"
  shows "balanced env'"
  unfolding balanced_def
proof
  fix g
  have "{b. link env' b = Some g} = (if g = f then insert a {b. link env b = Some g} else {b. link env b = Some g})"
    using assms(2) by (auto simp: assms(3))
  moreover have "a \<notin> {b. link env b = Some g}" using assms(2) by simp
  ultimately show "conns env' g = int (card {b. link env' b = Some g})"
    using assms(1,4) finite_link [of env f] by (cases "g = f") (simp_all add: balanced_def)
qed

lemma balanced_less:
  assumes "balanced env" "link env a = Some f" "link env' = (link env)(a := None)"
    and "\<forall>g. conns env' g = (if g = f then conns env g - 1 else conns env g)"
  shows "balanced env'"
  unfolding balanced_def
proof
  fix g
  have "{b. link env' b = Some g} = (if g = f then {b. link env b = Some g} - {a} else {b. link env b = Some g})"
    using assms(2) by (auto simp: assms(3))
  moreover have "Suc (card ({b. link env b = Some f} - {a})) = card {b. link env b = Some f}"
    using assms(2) finite_link by (intro card_Suc_Diff1) auto
  ultimately show "conns env' g = int (card {b. link env' b = Some g})"
    using assms(1,4) by (auto simp: balanced_def)
qed

text \<open>What every operation here does to the rest of the state: nothing to the pool, and the books stay balanced.\<close>

definition keeps :: "hetao_env \<Rightarrow> hetao_env \<Rightarrow> bool" where
  "keeps env env' \<longleftrightarrow> pool env' = pool env \<and> (balanced env \<longrightarrow> balanced env')"

lemma keeps_refl [simp, intro]: "keeps env env" by (simp add: keeps_def)
lemma keeps_trans [trans]: "keeps env1 env2 \<Longrightarrow> keeps env2 env3 \<Longrightarrow> keeps env1 env3" by (simp add: keeps_def)

lemma next_session_pool: "pool env' = pool env \<Longrightarrow> next_session env' = next_session env"
  by (simp add: pool_def)

lemma keepsI:
  assumes "pool env' = pool env" "\<And>a. link env' a = link env a" "\<And>f. conns env' f = conns env f"
  shows "keeps env env'"
  using balanced_same [of env env'] assms by (simp add: keeps_def fun_eq_iff)

lemma keeps_upd:
  assumes "\<And>s. timeout_timestamp (f s) = timeout_timestamp s" "\<And>s. elapse_timestamp (f s) = elapse_timestamp s"
    "\<And>s. netaddr (f s) = netaddr s" "\<And>s. forward_flags (f s) = forward_flags s"
    "\<And>s. p_forward_server (f s) = p_forward_server s"
  shows "keeps env (upd_session a f env)"
  using pool_upd [of f, OF assms(1-3), of a env] assms(4,5) by (intro keepsI) (auto simp: link_def)

lemmas keeps_then = keeps_trans [OF _ keeps_upd]

lemma keeps_host [simp]: "keeps env (upd_host h f env)"
  by (rule keepsI) (simp_all add: pool_def upd_host_def link_def)

lemma keeps_lib [simp]: "keeps env (env\<lparr>http_lib_state := l\<rparr>)"
  by (rule keepsI) (simp_all add: pool_def link_def)

lemma keeps_valid [simp]: "keeps env (upd_server f (\<lambda>s. s\<lparr>timestamp_to_valid := t s\<rparr>) env)"
  by (rule keepsI) (simp_all add: pool_def link_def)

lemma keeps_server [simp]: "forward_flags (sessions env a) = 0 \<Longrightarrow> keeps env (take_server a f env)"
  by (rule keepsI) (auto simp: pool_def take_server_def link_def)

lemma keeps_connected [simp]:
  "forward_flags (sessions env a) \<noteq> 0 \<Longrightarrow> keeps env (upd_session a (\<lambda>s. s\<lparr>forward_flags := 2\<rparr>) env)"
  by (rule keepsI) (auto simp: link_def)

text \<open>Leaving a server, and going to one.\<close>

lemma keeps_leave:
  assumes "a < next_session env" "forward_flags (sessions env a) \<noteq> 0" "p_forward_server (sessions env a) = Some f"
    and "\<And>s. timeout_timestamp (g s) = timeout_timestamp s" "\<And>s. elapse_timestamp (g s) = elapse_timestamp s"
    "\<And>s. netaddr (g s) = netaddr s" "\<And>s. forward_flags (g s) = 0"
  shows "keeps env (upd_session a g (upd_server f (\<lambda>s. s\<lparr>connection_count := connection_count s - 1\<rparr>) env))"
proof -
  let ?env' = "upd_session a g (upd_server f (\<lambda>s. s\<lparr>connection_count := connection_count s - 1\<rparr>) env)"
  have "link env a = Some f" using assms(1-3) by (simp add: link_def)
  moreover have "link ?env' = (link env)(a := None)" using assms(7) by (auto simp: link_def fun_eq_iff)
  ultimately have "balanced env \<longrightarrow> balanced ?env'"
    using balanced_less [of env a f ?env'] by auto
  then show ?thesis using assms(4-6) by (simp add: keeps_def)
qed

lemma keeps_enter:
  assumes "a < next_session env" "forward_flags (sessions env a) = 0" "p_forward_server (sessions env a) = Some f"
    and "\<And>s. timeout_timestamp (g s) = timeout_timestamp s" "\<And>s. elapse_timestamp (g s) = elapse_timestamp s"
    "\<And>s. netaddr (g s) = netaddr s" "\<And>s. forward_flags (g s) = 1" "\<And>s. p_forward_server (g s) = p_forward_server s"
  shows "keeps env (upd_server f (\<lambda>s. s\<lparr>connection_count := connection_count s + 1\<rparr>) (upd_session a g env))"
proof -
  let ?env' = "upd_server f (\<lambda>s. s\<lparr>connection_count := connection_count s + 1\<rparr>) (upd_session a g env)"
  have "link env a = None" using assms(2) by (simp add: link_def)
  moreover have "link ?env' = (link env)(a := Some f)" using assms(1,3,7,8) by (auto simp: link_def fun_eq_iff)
  ultimately have "balanced env \<longrightarrow> balanced ?env'"
    using balanced_more [of env a ?env' f] by auto
  then show ?thesis using assms(4-6) by (simp add: keeps_def)
qed

lemma SetHttpSessionUnused_02_keeps:
  assumes "SetHttpSessionUnused_02 sys alloc env a w = Some (env', w')" "a < next_session env" "forward_flags (sessions env a) \<noteq> 0"
  shows "keeps env env' \<and> forward_flags (sessions env' a) = 0"
proof -
  obtain f where f: "p_forward_server (sessions env a) = Some f"
    using assms(1) by (auto simp: SetHttpSessionUnused_02_def Let_def split: prod.splits option.splits)
  show ?thesis
    using assms(1) f keeps_leave [OF assms(2,3) f, of "\<lambda>s. s\<lparr>forward_http := ResetHttpEnv alloc (forward_http s), forward_flags := 0\<rparr>"]
    by (auto simp: SetHttpSessionUnused_02_def Let_def split: prod.splits)
qed

lemma keeps_forget:
  "forward_flags (sessions env a) = 0 \<Longrightarrow> keeps env (upd_session a (\<lambda>s. s\<lparr>p_forward_server := None\<rparr>) env)"
  by (rule keepsI) (auto simp: link_def)

lemma SetHttpSessionUnused_05_keeps:
  assumes "SetHttpSessionUnused_05 sys alloc env a w = Some (env', w')" "a < next_session env"
  shows "keeps env env'"
proof -
  define env1 where "env1 = (if forward_ssl (sessions env a)
     then upd_session a (\<lambda>s. s\<lparr>forward_ssl := False, forward_ssl_connected := False\<rparr>) env else env)"
  define w1 where "w1 = (if forward_ssl (sessions env a)
     then sys_ssl_free sys (na_sock (forward_netaddr (sessions env a))) w else w)"
  have k1: "keeps env env1" unfolding env1_def by (auto intro: keeps_upd)
  have n: "a < next_session env1" using assms(2) by (simp add: env1_def)
  obtain env2 w2 where 2: "(if forward_flags (sessions env1 a) \<noteq> 0 then SetHttpSessionUnused_02 sys alloc env1 a w1
      else Some (env1, w1)) = Some (env2, w2)" "env' = upd_session a (\<lambda>s. s\<lparr>p_forward_server := None\<rparr>) env2"
    using assms(1) by (auto simp: SetHttpSessionUnused_05_def env1_def w1_def bind_eq_Some_conv split: if_splits)
  have "keeps env1 env2 \<and> forward_flags (sessions env2 a) = 0"
    using 2(1) SetHttpSessionUnused_02_keeps [of sys alloc env1 a w1 env2 w2, OF _ n] by (auto split: if_splits)
  then show ?thesis using k1 keeps_forget [of env2 a] 2(2) keeps_trans by blast
qed

lemma give_up_keeps:
  "give_up sys alloc code env a w = Some (nret, env', w') \<Longrightarrow> a < next_session env \<Longrightarrow> keeps env env'"
  by (auto simp: give_up_def dest: SetHttpSessionUnused_05_keeps)

lemma copy_request_keeps: "copy_request alloc env a = Some (nret, env') \<Longrightarrow> keeps env env'"
  by (auto simp: copy_request_def Let_def intro!: keeps_upd)

lemma OnConnectingSslForward_keeps:
  "OnConnectingSslForward sys alloc env a w = Some (nret, env', w') \<Longrightarrow> keeps env env'"
  by (auto simp: OnConnectingSslForward_def Let_def split: prod.splits handshake.splits option.splits if_splits
      dest!: copy_request_keeps intro: keeps_then)

lemma keeps_next: "keeps env env' \<Longrightarrow> next_session env' = next_session env"
  unfolding keeps_def by (blast dest: next_session_pool)

lemma forward_connected_keeps:
  assumes "forward_connected sys alloc op failed failed_epoll ok env a w = Some (nret, env', w')"
    "a < next_session env" "forward_flags (sessions env a) \<noteq> 0"
  shows "keeps env env'"
proof -
  let ?env1 = "upd_session a (\<lambda>s. s\<lparr>forward_flags := 2\<rparr>) env"
  obtain h where h: "p_virtual_host (sessions ?env1 a) = Some h"
    using assms(1) by (auto simp: forward_connected_def Let_def split: option.splits)
  have k1: "keeps env ?env1" using assms(3) by simp
  have n: "a < next_session ?env1" using assms(2) by simp
  have "keeps ?env1 env'"
  proof (cases "forward_ssl_ctx (hosts ?env1 h)")
    case True
    obtain created w1 where c: "sys_ssl_new sys w = (created, w1)" by fastforce
    let ?env2 = "upd_session a (\<lambda>s. s\<lparr>forward_ssl := created\<rparr>) ?env1"
    let ?env3 = "upd_session a (\<lambda>s. s\<lparr>forward_ssl_connected := False\<rparr>) ?env2"
    have k2: "keeps ?env1 ?env2" "keeps ?env1 ?env3" by (auto intro!: keeps_then keeps_upd)
    show ?thesis
    proof (cases created)
      case False
      then have "give_up sys alloc failed ?env2 a w1 = Some (nret, env', w')"
        using assms(1) True h c by (simp add: forward_connected_def Let_def)
      then show ?thesis using k2(1) give_up_keeps keeps_trans n by fastforce
    next
      case created: True
      obtain r env4 w4 where s: "OnConnectingSslForward sys alloc ?env3 a w1 = Some (r, env4, w4)"
        "(if r = - 1 then give_up sys alloc failed env4 a w4 else Some (0, env4, w4)) = Some (nret, env', w')"
        using assms(1) True h c created by (auto simp: forward_connected_def Let_def split: option.splits prod.splits)
      have "keeps ?env1 env4" using k2(2) OnConnectingSslForward_keeps [OF s(1)] by (rule keeps_trans)
      moreover have "keeps env4 env'"
        using s(2) keeps_next [OF calculation] n give_up_keeps [of sys alloc failed env4 a w4] by (auto split: if_splits)
      ultimately show ?thesis by (rule keeps_trans)
    qed
  next
    case False
    obtain r env2 where c: "copy_request alloc ?env1 a = Some (r, env2)"
      using assms(1) h False by (auto simp: forward_connected_def Let_def split: option.splits)
    have k2: "keeps ?env1 env2" using copy_request_keeps [OF c] .
    have "keeps env2 env'"
      using assms(1) h False c keeps_next [OF k2] n give_up_keeps [of sys alloc _ env2 a]
      by (auto simp: forward_connected_def Let_def split: if_splits prod.splits)
    with k2 show ?thesis by (rule keeps_trans)
  qed
  with k1 show ?thesis by (rule keeps_trans)
qed

lemma SelectForwardAddress_keeps:
  assumes "SelectForwardAddress sys env a w = Some (nret, env', w')" "forward_flags (sessions env a) = 0"
  shows "keeps env env' \<and> forward_flags (sessions env' a) = 0"
proof -
  have t: "keeps x (take_server a f x) \<and> forward_flags (sessions (take_server a f x) a) = 0"
    if "forward_flags (sessions x a) = 0" for x f
    using that by (simp add: take_server_def [symmetric]) (simp add: take_server_def)
  have h: "forward_flags (sessions (upd_host h g env) a) = 0" for h g using assms(2) by (simp add: upd_host_def)
  have th: "keeps env (take_server a f (upd_host h g env)) \<and> forward_flags (sessions (take_server a f (upd_host h g env)) a) = 0"
    for f h g
    using t [OF h] keeps_trans [OF keeps_host] by blast
  show ?thesis
    using assms th t [OF assms(2)]
    by (auto simp: SelectForwardAddress_def Let_def split: option.splits prod.splits if_splits)
qed

lemma UpdateLeastConnectionCountTreeNode_keeps:
  assumes "UpdateLeastConnectionCountTreeNode env h f = Some (nret, env')"
  shows "keeps env env' \<and> sessions env' = sessions env"
proof -
  obtain t' where "env' = upd_host h (\<lambda>v. v\<lparr>leastconnection_rbtree := t'\<rparr>) env"
    using assms by (auto simp: UpdateLeastConnectionCountTreeNode_def RemoveLeastConnectionCountTreeNode_def
        AddLeastConnectionCountTreeNode_def bind_eq_Some_conv upd_host_def)
  then show ?thesis by simp (simp add: upd_host_def)
qed

lemma ConnectForwardServer_keeps:
  assumes "ConnectForwardServer sys alloc env a w = Some (nret, env', w')"
    "a < next_session env" "forward_flags (sessions env a) = 0"
  shows "keeps env env'"
proof -
  obtain sock w1 where s: "sys_socket sys w = (sock, w1)" by fastforce
  let ?env1 = "upd_session a (\<lambda>s. s\<lparr>forward_flags := 0, forward_netaddr := zero_netaddr\<lparr>na_sock := sock\<rparr>\<rparr>) env"
  have k1: "keeps env ?env1" using assms(3) by (intro keepsI) (auto simp: link_def)
  show ?thesis
  proof (cases "sock = - 1")
    case True
    then show ?thesis using assms(1) s k1 by (simp add: ConnectForwardServer_def)
  next
    case False
    then obtain f h where fh: "p_forward_server (sessions env a) = Some f" "p_virtual_host (sessions env a) = Some h"
      using assms(1) s by (auto simp: ConnectForwardServer_def Let_def split: option.splits)
    let ?env2 = "upd_server f (\<lambda>s. s\<lparr>connection_count := connection_count s + 1\<rparr>)
      (upd_session a (\<lambda>s. s\<lparr>forward_flags := HTTPSESSION_FLAGS_CONNECTING\<rparr>) ?env1)"
    obtain x env3 where u: "UpdateLeastConnectionCountTreeNode ?env2 h f = Some (x, env3)"
      using assms(1) s False fh by (auto simp: ConnectForwardServer_def Let_def split: option.splits)
    have k2: "keeps ?env1 ?env2" using assms(2) fh by (intro keeps_enter) simp_all
    note u' = UpdateLeastConnectionCountTreeNode_keeps [OF u]
    have k3: "keeps env env3" using keeps_trans [OF keeps_trans [OF k1 k2]] u' by blast
    have n: "a < next_session env3" using assms(2) keeps_next [OF k3] by simp
    have fl: "forward_flags (sessions env3 a) \<noteq> 0" using u' by simp
    obtain err w2 where c: "sys_connect sys sock (fs_netaddr (servers env3 f)) w1 = (err, w2)" by fastforce
    have "keeps env3 env'"
      using assms(1) s False fh u c give_up_keeps [OF _ n] forward_connected_keeps [OF _ n fl]
      by (auto simp: ConnectForwardServer_def Let_def split: option.splits if_splits prod.splits)
    with k3 show ?thesis by (rule keeps_trans)
  qed
qed

lemma format_response_keeps: "format_response alloc code fill format env a = Some (nret, env') \<Longrightarrow> keeps env env'"
  by (auto simp: format_response_def intro!: keeps_then)

lemma connect_failed_keeps:
  assumes "connect_failed sys alloc env a w = Some (nret, env', w')" "a < next_session env" "forward_flags (sessions env a) \<noteq> 0"
  shows "keeps env env'"
proof -
  obtain x w0 where 0: "sys_epoll_ctl sys EPOLL_CTL_DEL (na_sock (forward_netaddr (sessions env a))) NO_EVENTS w = (x, w0)"
    by fastforce
  obtain env1 w1 where 1: "SetHttpSessionUnused_02 sys alloc env a w0 = Some (env1, w1)"
    using assms(1) 0 by (auto simp: connect_failed_def Let_def bind_eq_Some_conv)
  note k1 = SetHttpSessionUnused_02_keeps [OF 1 assms(2,3)]
  obtain f where f: "p_forward_server (sessions env1 a) = Some f"
    using assms(1) 0 1 by (auto simp: connect_failed_def Let_def bind_eq_Some_conv)
  obtain now w2 where 2: "sys_now sys w1 = (now, w2)" by fastforce
  let ?env2 = "upd_server f (\<lambda>s. s\<lparr>timestamp_to_valid := now + http_options__forward_disable env1\<rparr>) env1"
  obtain r3 env3 w3 where 3: "SelectForwardAddress sys ?env2 a w2 = Some (r3, env3, w3)"
    using assms(1) 0 1 2 f by (auto simp: connect_failed_def Let_def bind_eq_Some_conv)
  have k3: "keeps env env3 \<and> forward_flags (sessions env3 a) = 0"
  proof -
    have "keeps env ?env2" using conjunct1 [OF k1] keeps_valid by (rule keeps_trans)
    moreover have "forward_flags (sessions ?env2 a) = 0" using k1 by simp
    ultimately show ?thesis using SelectForwardAddress_keeps [OF 3] keeps_trans by blast
  qed
  then have n: "a < next_session env3" using assms(2) keeps_next by metis
  obtain r4 env4 w4 where 4: "(if r3 = HTTP_OK then ConnectForwardServer sys alloc env3 a w3 else Some (r3, env3, w3))
      = Some (r4, env4, w4)"
    using assms(1) 0 1 2 3 f by (auto simp: connect_failed_def Let_def bind_eq_Some_conv)
  have "keeps env3 env4"
    using 4 ConnectForwardServer_keeps [OF _ n, of sys alloc w3] k3 by (auto split: if_splits)
  moreover have "keeps env4 env'"
    using assms(1) 0 1 2 3 4 f
    by (auto simp: connect_failed_def Let_def bind_eq_Some_conv split: if_splits prod.splits dest!: format_response_keeps)
  ultimately show ?thesis using k3 keeps_trans by blast
qed

lemma OnConnectingForward_keeps:
  assumes "OnConnectingForward sys alloc env a w = Some (nret, env', w')" "a < next_session env" "forward_flags (sessions env a) \<noteq> 0"
  shows "keeps env env'"
  using assms connect_failed_keeps forward_connected_keeps
  by (auto simp: OnConnectingForward_def Let_def split: prod.splits if_splits)

lemma OnSendingForward_keeps: "OnSendingForward sys z alloc env a w = Some (nret, env', w') \<Longrightarrow> keeps env env'"
  by (auto simp: OnSendingForward_def Let_def split: option.splits prod.splits if_splits intro!: keeps_upd)

lemma OnReceivingForward_keeps:
  assumes "OnReceivingForward sys z alloc env a w = Some (nret, env', w')" "a < next_session env" "forward_flags (sessions env a) \<noteq> 0"
  shows "keeps env env'"
proof -
  obtain r e w1 where 1: "ReceiveHttpResponseNonblock (sys_os sys (na_sock (forward_netaddr (sessions env a)))
      (forward_ssl (sessions env a))) z alloc (http_lib_state env) no_hook (forward_http (sessions env a)) w = Some (r, e, w1)"
    using assms(1) by (auto simp: OnReceivingForward_def Let_def split: option.splits)
  let ?env1 = "upd_session a (\<lambda>s. s\<lparr>forward_http := e\<rparr>) env"
  have k1: "keeps env ?env1" by (rule keeps_upd) simp_all
  show ?thesis
  proof (cases "r = 0")
    case False
    then show ?thesis
      using assms(1) 1 k1 keeps_trans [OF k1 format_response_keeps]
      by (auto simp: OnReceivingForward_def Let_def bind_eq_Some_conv split: if_splits)
  next
    case True
    let ?env2 = "upd_session a (\<lambda>s. s\<lparr>session_flag := HTTPSESSION_FLAGS_SENDING\<rparr>) ?env1"
    obtain r2 b where 2: "MemcatHttpBuffer alloc (GetHttpResponseBuffer (http (sessions ?env2 a)))
        (content (GetHttpResponseBuffer e)) = Some (r2, b)"
      using assms(1) 1 True by (auto simp: OnReceivingForward_def Let_def bind_eq_Some_conv)
    let ?env3 = "upd_session a (\<lambda>s. s\<lparr>http := (http s)\<lparr>response_buffer := b\<rparr>\<rparr>) ?env2"
    let ?env4 = "upd_session a (\<lambda>s. s\<lparr>http := CopyHttpHeader_STATUSCODE (http s) (forward_http s)\<rparr>) ?env3"
    have k3: "keeps env ?env3" and k4: "keeps env ?env4" by (auto intro!: keeps_then keeps_upd)
    show ?thesis
    proof (cases "r2 = 0")
      case False
      then show ?thesis
        using assms(1) 1 2 True k3 by (simp add: OnReceivingForward_def Let_def)
    next
      case r2: True
      obtain env5 w5 where 5: "SetHttpSessionUnused_02 sys alloc ?env4 a w1 = Some (env5, w5)"
        using assms(1) 1 2 True r2 by (auto simp: OnReceivingForward_def Let_def bind_eq_Some_conv)
      have "keeps ?env4 env5" using SetHttpSessionUnused_02_keeps [OF 5] assms(2,3) by simp
      moreover have "env' = env5"
        using assms(1) 1 2 True r2 5 by (auto simp: OnReceivingForward_def Let_def split: prod.splits)
      ultimately show ?thesis using k4 keeps_trans by blast
    qed
  qed
qed

section \<open>The order of the tree\<close>

lemma update_keeps_order:
  assumes "least_ok env h" "f \<in> set (inorder (leastconnection_rbtree (hosts env h)))"
  defines "env1 \<equiv> upd_server f (\<lambda>s. s\<lparr>connection_count := connection_count s + 1\<rparr>) env"
  shows "\<exists>env'. UpdateLeastConnectionCountTreeNode env1 h f = Some (0, env') \<and> least_ok env' h
     \<and> set (inorder (leastconnection_rbtree (hosts env' h))) = set (inorder (leastconnection_rbtree (hosts env h)))"
proof -
  let ?t = "leastconnection_rbtree (hosts env h)"
  obtain t1 t2 where t: "rb_erase f ?t = Some t1" "add_node (conns env1) f t1 = Some t2" "index_ok t2"
    "set (inorder t2) = set (inorder ?t)" "sorted (map (conns env1) (inorder t2))"
    using index.change_key [of ?t f "conns env" "conns env1"] assms(1,2) by (auto simp: least_ok_def env1_def)
  define env' where "env' = upd_host h (\<lambda>v. v\<lparr>leastconnection_rbtree := t2\<rparr>) env1"
  have tr: "leastconnection_rbtree (hosts env' h) = t2" "conns env' = conns env1"
    by (simp_all add: env'_def upd_host_def)
  have h1: "hosts env1 h = hosts env h" by (simp add: env1_def)
  have "RemoveLeastConnectionCountTreeNode env1 h f = Some (upd_host h (\<lambda>v. v\<lparr>leastconnection_rbtree := t1\<rparr>) env1)"
    using t(1) by (simp add: RemoveLeastConnectionCountTreeNode_def h1)
  moreover have "AddLeastConnectionCountTreeNode (upd_host h (\<lambda>v. v\<lparr>leastconnection_rbtree := t1\<rparr>) env1) h f = Some (0, env')"
    using t(2) by (simp add: AddLeastConnectionCountTreeNode_def upd_host_def env'_def)
  ultimately have "UpdateLeastConnectionCountTreeNode env1 h f = Some (0, env')"
    by (simp add: UpdateLeastConnectionCountTreeNode_def)
  moreover have "least_ok env' h" using t(3,5) by (simp add: least_ok_def tr)
  ultimately show ?thesis using t(4) tr(1) by auto
qed

text \<open>Leaving a server changes its count in place: the order of the tree is lost, and with it the choice.\<close>

lemma leave_spoils_order:
  assumes "inorder (leastconnection_rbtree (hosts env h)) = [f, g]" "conns env f = conns env g"
    and "p_forward_server (sessions env a) = Some g" "p_virtual_host (sessions env b) = Some h"
    and "rd (forward_rule (hosts env h) @ [NUL]) 0 = CHR ''L''" "timestamp_to_valid (servers env f) = 0" "f \<noteq> g"
    and "index_ok (leastconnection_rbtree (hosts env h))"
  shows "\<exists>env1 w1 env2 w2. SetHttpSessionUnused_02 sys alloc env a w = Some (env1, w1)
     \<and> SelectForwardAddress sys env1 b w1 = Some (HTTP_OK, env2, w2)
     \<and> p_forward_server (sessions env2 b) = Some f \<and> conns env1 g < conns env1 f"
proof -
  obtain env1 w1 where 1: "SetHttpSessionUnused_02 sys alloc env a w = Some (env1, w1)"
    "hosts env1 = hosts env" "servers env1 = (servers env)(g := (servers env g)\<lparr>connection_count := conns env g - 1\<rparr>)"
    "p_virtual_host (sessions env1 b) = p_virtual_host (sessions env b)"
    using assms(3) by (cases "sys_epoll_ctl sys EPOLL_CTL_DEL (na_sock (forward_netaddr (sessions env a))) NO_EVENTS w")
      (auto simp: SetHttpSessionUnused_02_def Let_def)
  have i: "inorder (leastconnection_rbtree (hosts env1 h)) = [f, g]" "index_ok (leastconnection_rbtree (hosts env1 h))"
    using assms(1,8) 1(2) by simp_all
  have fv: "first_valid sys env1 [f, g] w1 = (Some f, w1)" using assms(6,7) 1(3) by (simp add: server_valid_def)
  have "least_valid sys env1 h (Some f) w1 = Some (Some f, w1)"
    using least_valid_first [OF i(2), of "[]" "[f, g]" sys w1] i(1) fv by simp
  then have "SelectForwardAddress sys env1 b w1 = Some (HTTP_OK, take_server b f env1, w1)"
    using assms(4,5) 1(2,4) i(1)
    by (simp add: SelectForwardAddress_def TravelMinLeastConnectionCountTreeNode_def index.first_node Let_def)
  then show ?thesis using 1(1,3) assms(2,7) by (simp add: take_server_def)
qed

section \<open>The cleared environment\<close>

definition zero_server :: forward_server where
  "zero_server = \<lparr>timestamp_to_valid = 0, fs_netaddr = zero_netaddr, connection_count = 0\<rparr>"

definition zero_host :: virtual_host where
  "zero_host = \<lparr>domain = [], wwwroot = [], index_files = [], access_log = [], access_log_fd = 0, rewrite_uri_list = [],
     forward_type = [], forward_rule = [], roundrobin_list = [], leastconnection_rbtree = RB_NULL, forward_ssl_ctx = False,
     p_redirect_domain_default = None, redirects = \<lparr>redirect_domain_count = 0, redirect_domain_hash = []\<rparr>\<rparr>"

definition zero_listen :: listen_session where
  "zero_listen = \<lparr>ls_netaddr = zero_netaddr, ls_ssl_ctx = False, p_virtual_host_default = None, virtual_host_hash = []\<rparr>"

definition zero_cache :: htmlcache_session where
  "zero_cache = \<lparr>pathfilename = [], st_directory = False, st_size = 0, html_content = None, html_gzip_content = None,
     html_deflate_content = None, wd = 0\<rparr>"

text \<open>\<open>memset\<close> of the environment in \<open>main\<close>; the structures behind its pointers do not exist yet.\<close>

definition zero_hetao_env :: hetao_env where
  "zero_hetao_env = \<lparr>limits__max_http_session_count = 0, limits__max_file_cache = 0, limits__max_connections_per_ip = 0,
     http_options__timeout = 0, http_options__elapse = 0, http_options__compress_on = False, http_options__forward_disable = 0,
     new_uri_re = False, mime_type_hash = [], listens = (\<lambda>_. zero_listen), hosts = (\<lambda>_. zero_host), servers = (\<lambda>_. zero_server),
     caches = (\<lambda>_. zero_cache), htmlcache_session_list = [], htmlcache_session_count = 0, htmlcache_wd_rbtree = RB_NULL,
     htmlcache_pathfilename_rbtree = RB_NULL, next_cache = 0,
     sessions = (\<lambda>_. zero_session zero_env zero_buffer zero_env), next_session = 0, http_session_used_count = 0,
     http_session_unused_list = [], http_session_unused_count = 0, http_session_timeout_rbtree_used = RB_NULL,
     http_session_elapse_rbtree_used = RB_NULL, iplimits_hash = (\<lambda>_. []), http_lib_state = http_lib_init\<rparr>"

text \<open>A system on which everything succeeds and nothing happens, with the time 1000.\<close>

definition idle_sys :: "'w sys" where
  "idle_sys = \<lparr>sys_now = (\<lambda>w. (1000, w)), sys_epoll_ctl = (\<lambda>_ _ _ w. (0, w)), sys_close = (\<lambda>_ w. w),
     sys_accept = (\<lambda>_ w. (Accept_failed 11, w)), sys_socket = (\<lambda>w. (7, w)), sys_connect = (\<lambda>_ _ w. (None, w)),
     sys_so_error = (\<lambda>_ w. (False, w)), sys_ssl_new = (\<lambda>w. (True, w)), sys_ssl_handshake = (\<lambda>_ w. (Handshake_done, w)),
     sys_ssl_free = (\<lambda>_ w. w),
     sys_os = (\<lambda>_ _. \<lparr>os_time = (\<lambda>w. (\<lparr>tv_sec = 0, tv_usec = 0\<rparr>, w)), os_select = (\<lambda>_ w. (1, w)),
                      os_recv = (\<lambda>_ w. (Recv_failed EAGAIN, w)), os_send = (\<lambda>s w. (Sent (length s), w))\<rparr>),
     sys_stat = (\<lambda>_ _. None), sys_file = (\<lambda>_ _. None), sys_add_watch = (\<lambda>_ w. (1, w)), sys_rm_watch = (\<lambda>_ w. w),
     sys_notified = (\<lambda>w. (None, w)), sys_pcre = (\<lambda>_ _ _. (- 1, [])), sys_datetime = (\<lambda>_. []), sys_write = (\<lambda>_ _ w. w)\<rparr>"

lemma idle_clock: "clock_stands idle_sys 1000"
  by (simp add: clock_stands_def idle_sys_def)

lemma zero_pool: "pool_ok zero_hetao_env" "counted zero_hetao_env" "used zero_hetao_env = {}"
  by (simp_all add: pool_ok_def counted_def used_def from_ip_def zero_hetao_env_def ip_table_ok_def ip_chain_ok_def ip_count_def)

lemma zero_balanced: "balanced zero_hetao_env"
  by (simp add: balanced_def link_def zero_hetao_env_def zero_server_def)

end
