(* ===== verification/HetaoCache.thy ===== *)
theory HetaoCache
  imports HetaoForward
begin

text \<open>
  The cache of pages: its two trees (\<open>HtmlCacheWdTree.c\<close>, by inotify descriptor, and
  \<open>HtmlCachePathfilenameTree.c\<close>, by path), freeing a page (\<open>HtmlCacheSession.c\<close>) and the handler of change
  notifications (\<open>HtmlCacheEventHander.c\<close>).  Sessions send the content of a page from the page itself; the
  theorems show that the handler leaves no session with a freed page.
\<close>

section \<open>The trees\<close>

definition cmp_int :: "int \<Rightarrow> int \<Rightarrow> int" where
  "cmp_int a b = (if a < b then - 1 else if a > b then 1 else 0)"

fun strcmp :: "bytes \<Rightarrow> bytes \<Rightarrow> int" where
  "strcmp [] [] = 0"
| "strcmp [] (c # t) = - 1"
| "strcmp (c # s) [] = 1"
| "strcmp (c # s) (d # t) =
     (if c = d then strcmp s t else if (of_char c :: nat) < of_char d then - 1 else 1)"

abbreviation wd_key :: "hetao_env \<Rightarrow> nat \<Rightarrow> int" where
  "wd_key env c \<equiv> wd (caches env c)"
abbreviation path_key :: "hetao_env \<Rightarrow> nat \<Rightarrow> bytes" where
  "path_key env c \<equiv> pathfilename (caches env c)"

definition AddHtmlCacheWdTreeNode :: "hetao_env \<Rightarrow> nat \<Rightarrow> (int \<times> hetao_env) option" where
  "AddHtmlCacheWdTreeNode env c =
     map_option (\<lambda>t. (0, env\<lparr>htmlcache_wd_rbtree := t\<rparr>)) (add_node (wd_key env) c (htmlcache_wd_rbtree env))"

definition QueryHtmlCacheWdTreeNode :: "hetao_env \<Rightarrow> int \<Rightarrow> nat option" where
  "QueryHtmlCacheWdTreeNode env d = query_tree (\<lambda>b. cmp_int d (wd_key env b)) (htmlcache_wd_rbtree env)"

definition RemoveHtmlCacheWdTreeNode :: "hetao_env \<Rightarrow> nat \<Rightarrow> hetao_env option" where
  "RemoveHtmlCacheWdTreeNode env c =
     map_option (\<lambda>t. env\<lparr>htmlcache_wd_rbtree := t\<rparr>) (rb_erase c (htmlcache_wd_rbtree env))"

definition AddHtmlCachePathfilenameTreeNode :: "hetao_env \<Rightarrow> nat \<Rightarrow> (int \<times> hetao_env) option" where
  "AddHtmlCachePathfilenameTreeNode env c =
     map_option (\<lambda>(nret, t). (nret, env\<lparr>htmlcache_pathfilename_rbtree := t\<rparr>))
       (add_unique (\<lambda>b. strcmp (path_key env c) (path_key env b)) c (htmlcache_pathfilename_rbtree env))"

definition QueryHtmlCachePathfilenameTreeNode :: "hetao_env \<Rightarrow> bytes \<Rightarrow> nat option" where
  "QueryHtmlCachePathfilenameTreeNode env s =
     query_tree (\<lambda>b. strcmp s (path_key env b)) (htmlcache_pathfilename_rbtree env)"

definition RemoveHtmlCachePathfilenameTreeNode :: "hetao_env \<Rightarrow> nat \<Rightarrow> hetao_env option" where
  "RemoveHtmlCachePathfilenameTreeNode env c =
     map_option (\<lambda>t. env\<lparr>htmlcache_pathfilename_rbtree := t\<rparr>) (rb_erase c (htmlcache_pathfilename_rbtree env))"

section \<open>Freeing a page\<close>

text \<open>The page has no contents any more.\<close>

definition FreeHtmlCacheSession :: "nat \<Rightarrow> hetao_env \<Rightarrow> hetao_env" where
  "FreeHtmlCacheSession c env =
     env\<lparr>caches := (caches env)(c := (caches env c)\<lparr>pathfilename := [], html_content := None,
                                       html_gzip_content := None, html_deflate_content := None\<rparr>)\<rparr>"

section \<open>Change notifications\<close>

text \<open>The loop over the events read.  A descriptor of no page is passed over.\<close>

fun cache_events :: "'w sys \<Rightarrow> allocator \<Rightarrow> int list \<Rightarrow> hetao_env \<Rightarrow> 'w \<Rightarrow> (int \<times> hetao_env \<times> 'w) option" where
  "cache_events sys alloc [] env w = Some (0, env, w)"
| "cache_events sys alloc (d # ds) env w =
     (case QueryHtmlCacheWdTreeNode env d of
        None \<Rightarrow> cache_events sys alloc ds env w
      | Some c \<Rightarrow>
          let (nret, env) = ReallocHttpSessionChanged alloc env c in
          if nret \<noteq> 0 then Some (nret, env, w)
          else do {
            env \<leftarrow> RemoveHtmlCachePathfilenameTreeNode env c;
            env \<leftarrow> RemoveHtmlCacheWdTreeNode env c;
            let w = sys_rm_watch sys (wd_key env c) w;
            cache_events sys alloc ds
              (FreeHtmlCacheSession c (env\<lparr>htmlcache_session_list := remove1 c (htmlcache_session_list env),
                                           htmlcache_session_count := htmlcache_session_count env - 1\<rparr>)) w })"

definition HtmlCacheEventHander :: "'w sys \<Rightarrow> allocator \<Rightarrow> hetao_env \<Rightarrow> 'w \<Rightarrow> (int \<times> hetao_env \<times> 'w) option" where
  "HtmlCacheEventHander sys alloc env w =
     (case sys_notified sys w of
        (None, w) \<Rightarrow> Some (- 1, env, w)
      | (Some ds, w) \<Rightarrow> cache_events sys alloc ds env w)"

section \<open>Comparison\<close>

lemma strcmp_refl: "strcmp s s = 0" by (induction s) simp_all

lemma strcmp_eq: "strcmp s t = 0 \<longleftrightarrow> s = t"
  by (induction s t rule: strcmp.induct) auto

lemma strcmp_range: "strcmp s t = - 1 \<or> strcmp s t = 0 \<or> strcmp s t = 1"
  by (induction s t rule: strcmp.induct) auto

lemma strcmp_swap: "strcmp t s = - strcmp s t"
  by (induction s t rule: strcmp.induct) auto

lemma strcmp_trans: "strcmp s t < 0 \<Longrightarrow> strcmp t u < 0 \<Longrightarrow> strcmp s u < 0"
proof (induction s t arbitrary: u rule: strcmp.induct)
  case (2 c t)
  then show ?case by (cases u) auto
next
  case (4 c s d t)
  then show ?case by (cases u) (auto split: if_splits)
qed simp_all

section \<open>The invariant of the cache\<close>

definition path_less :: "hetao_env \<Rightarrow> nat \<Rightarrow> nat \<Rightarrow> bool" where
  "path_less env a b \<longleftrightarrow> strcmp (path_key env a) (path_key env b) < 0"

definition cached :: "hetao_env \<Rightarrow> nat set" where
  "cached env = set (htmlcache_session_list env)"

definition cache_ok :: "hetao_env \<Rightarrow> bool" where
  "cache_ok env \<longleftrightarrow>
     index_ok (htmlcache_wd_rbtree env) \<and> index_ok (htmlcache_pathfilename_rbtree env)
   \<and> set (inorder (htmlcache_wd_rbtree env)) = cached env
   \<and> set (inorder (htmlcache_pathfilename_rbtree env)) = cached env
   \<and> sorted (map (wd_key env) (inorder (htmlcache_wd_rbtree env)))
   \<and> sorted_wrt (path_less env) (inorder (htmlcache_pathfilename_rbtree env))
   \<and> distinct (htmlcache_session_list env)
   \<and> htmlcache_session_count env = int (length (htmlcache_session_list env))
   \<and> (\<forall>c \<in> cached env. c < next_cache env)"

lemma falling_paths:
  assumes "sorted_wrt (path_less env) cs" shows "falling (\<lambda>b. strcmp s (path_key env b)) cs"
proof -
  have "(strcmp s (path_key env a) \<le> 0 \<longrightarrow> strcmp s (path_key env b) \<le> 0)
      \<and> (strcmp s (path_key env a) < 0 \<longrightarrow> strcmp s (path_key env b) < 0)" if "path_less env a b" for a b
    using that strcmp_trans [of s "path_key env a" "path_key env b"] strcmp_eq [of s "path_key env a"]
    by (auto simp: path_less_def le_less)
  then show ?thesis unfolding falling_def using assms by (auto elim: sorted_wrt_mono_rel [rotated])
qed

lemma QueryHtmlCachePathfilenameTreeNode_spec:
  assumes "cache_ok env"
  shows "(case QueryHtmlCachePathfilenameTreeNode env s of
            None \<Rightarrow> \<forall>c \<in> cached env. path_key env c \<noteq> s
          | Some c \<Rightarrow> c \<in> cached env \<and> path_key env c = s)"
  using query_tree_found [of "\<lambda>b. strcmp s (path_key env b)" "htmlcache_pathfilename_rbtree env"]
    query_tree_missing [OF falling_paths, of env "htmlcache_pathfilename_rbtree env" s] assms
  by (auto simp: QueryHtmlCachePathfilenameTreeNode_def cache_ok_def strcmp_eq split: option.splits)

lemma QueryHtmlCacheWdTreeNode_found:
  assumes "cache_ok env" "QueryHtmlCacheWdTreeNode env d = Some c"
  shows "c \<in> cached env" "wd_key env c = d"
  using query_tree_found [OF assms(2) [unfolded QueryHtmlCacheWdTreeNode_def]] assms(1)
  by (auto simp: cache_ok_def cmp_int_def split: if_splits)

section \<open>Sessions that send from the cache\<close>

fun page_of :: "content_ref \<Rightarrow> nat" where
  "page_of (Html c) = c"
| "page_of (Html_gzip c) = c"
| "page_of (Html_deflate c) = c"

fun content_at :: "hetao_env \<Rightarrow> content_ref \<Rightarrow> bytes option" where
  "content_at env (Html c) = html_content (caches env c)"
| "content_at env (Html_gzip c) = html_gzip_content (caches env c)"
| "content_at env (Html_deflate c) = html_deflate_content (caches env c)"

text \<open>The session \<open>a\<close> has still to send the content \<open>r\<close>.\<close>

definition borrows :: "hetao_env \<Rightarrow> nat \<Rightarrow> content_ref \<Rightarrow> bool" where
  "borrows env a r \<longleftrightarrow> p_append_buffer (http (sessions env a)) \<noteq> None \<and> http_buf_base (sessions env a) = Some r"

definition borrow_ok :: "hetao_env \<Rightarrow> bool" where
  "borrow_ok env \<longleftrightarrow> (\<forall>a \<in> used env. \<forall>r. borrows env a r \<longrightarrow>
     page_of r \<in> cached env \<and> content_at env r \<noteq> None
   \<and> (\<forall>b. p_append_buffer (http (sessions env a)) = Some b \<longrightarrow> base b \<noteq> None))"

text \<open>A step after which fewer sessions borrow, and the cache is as before.\<close>

definition same_cache :: "hetao_env \<Rightarrow> hetao_env \<Rightarrow> bool" where
  "same_cache env env' \<longleftrightarrow> caches env' = caches env \<and> htmlcache_session_list env' = htmlcache_session_list env
     \<and> htmlcache_session_count env' = htmlcache_session_count env \<and> htmlcache_wd_rbtree env' = htmlcache_wd_rbtree env
     \<and> htmlcache_pathfilename_rbtree env' = htmlcache_pathfilename_rbtree env \<and> next_cache env' = next_cache env"

definition returns_pages :: "hetao_env \<Rightarrow> hetao_env \<Rightarrow> bool" where
  "returns_pages env env' \<longleftrightarrow> keeps env env' \<and> same_cache env env'
     \<and> (\<forall>a r. borrows env' a r \<longrightarrow> borrows env a r \<and> http (sessions env' a) = http (sessions env a))"

lemma returns_used: "returns_pages env env' \<Longrightarrow> used env' = used env"
  unfolding returns_pages_def keeps_def by (blast dest: pool_cong(3))

lemma returns_pages_refl [simp]: "returns_pages env env"
  by (simp add: returns_pages_def same_cache_def)

lemma returns_pages_trans: "returns_pages env1 env2 \<Longrightarrow> returns_pages env2 env3 \<Longrightarrow> returns_pages env1 env3"
  unfolding returns_pages_def same_cache_def by (metis keeps_trans)

lemma same_cache_ok: "same_cache env env' \<Longrightarrow> cache_ok env' = cache_ok env \<and> cached env' = cached env"
proof -
  assume s: "same_cache env env'"
  have "path_less env' = path_less env" using s by (simp add: same_cache_def path_less_def fun_eq_iff)
  then show ?thesis using s by (simp add: same_cache_def cache_ok_def cached_def)
qed

lemma same_content: "same_cache env env' \<Longrightarrow> content_at env' r = content_at env r"
  by (cases r) (simp_all add: same_cache_def)

lemma returns_pages_ok:
  assumes "returns_pages env env'" "borrow_ok env" shows "borrow_ok env'"
proof -
  have u: "used env' = used env" by (rule returns_used [OF assms(1)])
  have sc: "same_cache env env'" using assms(1) by (simp add: returns_pages_def)
  show ?thesis unfolding borrow_ok_def
  proof (intro ballI allI impI)
    fix a r assume a: "a \<in> used env'" and b: "borrows env' a r"
    have o: "borrows env a r" "http (sessions env' a) = http (sessions env a)"
      using assms(1) b by (simp_all add: returns_pages_def)
    have "page_of r \<in> cached env \<and> content_at env r \<noteq> None
      \<and> (\<forall>b. p_append_buffer (http (sessions env a)) = Some b \<longrightarrow> base b \<noteq> None)"
      using assms(2) a o(1) unfolding borrow_ok_def u by blast
    then show "page_of r \<in> cached env' \<and> content_at env' r \<noteq> None
      \<and> (\<forall>b. p_append_buffer (http (sessions env' a)) = Some b \<longrightarrow> base b \<noteq> None)"
      using same_cache_ok [OF sc] same_content [OF sc] o(2) by simp
  qed
qed

lemma realloc_session_returns:
  assumes "borrow_ok env" "a \<in> used env" "realloc_session alloc env c a = (nret, env')"
  shows "returns_pages env env' \<and> (nret = 0 \<longrightarrow> (\<forall>r. borrows env' a r \<longrightarrow> page_of r \<noteq> c))"
proof -
  let ?s = "sessions env a"
  consider (none) "p_append_buffer (http ?s) = None" | (own) "http_buf_base ?s = None"
    | (other) b r where "p_append_buffer (http ?s) = Some b" "http_buf_base ?s = Some r" "page_of r \<noteq> c"
    | (same) b r where "p_append_buffer (http ?s) = Some b" "http_buf_base ?s = Some r" "page_of r = c" by blast
  then show ?thesis
  proof cases
    case (other b r)
    then have "\<not> (r = Html_gzip c \<or> r = Html_deflate c \<or> r = Html c)" by auto
    then show ?thesis using other assms(3) by (simp add: realloc_session_def Let_def borrows_def)
  next
    case (same b r)
    have r: "r = Html_gzip c \<or> r = Html_deflate c \<or> r = Html c" using same(3) by (cases r) auto
    have bb: "base b \<noteq> None" using assms(1,2) same unfolding borrow_ok_def borrows_def by blast
    show ?thesis
    proof (cases "alloc (buf_size b)")
      case False
      then show ?thesis using same r bb assms(3) by (auto simp: realloc_session_def Let_def DuplicateHttpBufferPtr_def split: if_splits)
    next
      case True
      obtain b' where d: "DuplicateHttpBufferPtr alloc b = (0, b')" using bb True by (auto simp: DuplicateHttpBufferPtr_def)
      have n: "nret = 0" and e: "env' = upd_session a (\<lambda>s. s\<lparr>http := (http s)\<lparr>p_append_buffer := Some b'\<rparr>, http_buf := b', http_buf_base := None\<rparr>) env"
        using same r d assms(3) by (auto simp: realloc_session_def Let_def)
      have "keeps env env'" unfolding e by (rule keeps_upd) simp_all
      moreover have "same_cache env env'" unfolding e by (simp add: same_cache_def upd_session_def)
      ultimately show ?thesis using n by (simp add: returns_pages_def) (simp add: e borrows_def)
    qed
  qed (use assms(3) in \<open>auto simp: realloc_session_def Let_def borrows_def split: option.splits\<close>)
qed

lemma realloc_sessions_returns:
  assumes "borrow_ok env" "set as \<subseteq> used env" "realloc_sessions alloc env c as = (nret, env')"
  shows "returns_pages env env' \<and> (nret = 0 \<longrightarrow> (\<forall>a \<in> set as. \<forall>r. borrows env' a r \<longrightarrow> page_of r \<noteq> c))"
  using assms
proof (induction as arbitrary: env)
  case (Cons a as)
  obtain n1 env1 where 1: "realloc_session alloc env c a = (n1, env1)" by fastforce
  have r1: "returns_pages env env1" "n1 = 0 \<longrightarrow> (\<forall>r. borrows env1 a r \<longrightarrow> page_of r \<noteq> c)"
    using realloc_session_returns [OF Cons.prems(1) _ 1] Cons.prems(2) by auto
  have u: "used env1 = used env" by (rule returns_used [OF r1(1)])
  show ?case
  proof (cases "n1 = 0")
    case True
    then have "realloc_sessions alloc env1 c as = (nret, env')" using Cons.prems(3) 1 by simp
    from Cons.IH [OF returns_pages_ok [OF r1(1) Cons.prems(1)] _ this] Cons.prems(2) u
    have r2: "returns_pages env1 env'" "nret = 0 \<longrightarrow> (\<forall>a \<in> set as. \<forall>r. borrows env' a r \<longrightarrow> page_of r \<noteq> c)" by auto
    have "borrows env' a r \<longrightarrow> borrows env1 a r" for r using r2(1) by (simp add: returns_pages_def)
    then show ?thesis using r1(2) r2(2) True returns_pages_trans [OF r1(1) r2(1)] by auto
  next
    case False
    then show ?thesis using Cons.prems(3) 1 r1(1) by simp
  qed
qed simp

text \<open>What neither giving copies to the sessions nor dropping a page touches.\<close>

definition untouched :: "hetao_env \<Rightarrow> hetao_env \<Rightarrow> bool" where
  "untouched env env' \<longleftrightarrow> (\<forall>a. a \<notin> used env \<longrightarrow> sessions env' a = sessions env a)
     \<and> (\<forall>c \<in> cached env'. caches env' c = caches env c) \<and> limits__max_file_cache env' = limits__max_file_cache env
     \<and> hosts env' = hosts env"

lemma untouched_trans:
  "untouched env1 env2 \<Longrightarrow> untouched env2 env3 \<Longrightarrow> used env2 = used env1 \<Longrightarrow> cached env3 \<subseteq> cached env2 \<Longrightarrow> untouched env1 env3"
  unfolding untouched_def by (simp add: subset_iff)

lemma realloc_session_untouched:
  assumes "a \<in> used env" "realloc_session alloc env c a = (nret, env')"
  shows "untouched env env'"
proof -
  have "env' = env \<or> (\<exists>f. env' = upd_session a f env)"
    using assms(2) unfolding realloc_session_def
    by (auto simp: Let_def split: option.splits if_splits prod.splits)
  then show ?thesis using assms(1) by (auto simp: untouched_def) (auto simp: upd_session_def)
qed

lemma realloc_sessions_untouched:
  assumes "borrow_ok env" "set as \<subseteq> used env" "realloc_sessions alloc env c as = (nret, env')"
  shows "untouched env env'"
  using assms
proof (induction as arbitrary: env)
  case (Cons a as)
  obtain n1 env1 where 1: "realloc_session alloc env c a = (n1, env1)" by fastforce
  have a: "a \<in> used env" using Cons.prems(2) by simp
  have r1: "returns_pages env env1" using realloc_session_returns [OF Cons.prems(1) a 1] by simp
  have u: "used env1 = used env" by (rule returns_used [OF r1])
  note t1 = realloc_session_untouched [OF a 1]
  show ?case
  proof (cases "n1 = 0")
    case True
    then have 2: "realloc_sessions alloc env1 c as = (nret, env')" using Cons.prems(3) 1 by simp
    note b1 = returns_pages_ok [OF r1 Cons.prems(1)]
    have s: "set as \<subseteq> used env1" using Cons.prems(2) u by simp
    have "same_cache env1 env'" using realloc_sessions_returns [OF b1 s 2] by (simp add: returns_pages_def)
    then have "cached env' = cached env1" by (simp add: same_cache_ok)
    then show ?thesis using untouched_trans [OF t1 Cons.IH [OF b1 s 2] u] by simp
  next
    case False
    then show ?thesis using Cons.prems(3) 1 t1 by simp
  qed
qed (simp add: untouched_def)

section \<open>Dropping a page\<close>

text \<open>\<open>drop_page\<close> is what the handler does with a page that nobody borrows any more.\<close>

definition drop_page :: "hetao_env \<Rightarrow> nat \<Rightarrow> hetao_env option" where
  "drop_page env c = do {
     env \<leftarrow> RemoveHtmlCachePathfilenameTreeNode env c;
     env \<leftarrow> RemoveHtmlCacheWdTreeNode env c;
     Some (FreeHtmlCacheSession c (env\<lparr>htmlcache_session_list := remove1 c (htmlcache_session_list env),
                                      htmlcache_session_count := htmlcache_session_count env - 1\<rparr>)) }"

lemma sorted_wrt_remove1: "sorted_wrt P xs \<Longrightarrow> distinct xs \<Longrightarrow> sorted_wrt P (remove1 x xs)"
  by (simp add: distinct_remove1_removeAll removeAll_filter_not_eq sorted_wrt_filter)

lemma drop_page_ok:
  assumes ok: "cache_ok env" and c: "c \<in> cached env"
  shows "\<exists>env'. drop_page env c = Some env' \<and> cache_ok env' \<and> cached env' = cached env - {c} \<and> keeps env env'
     \<and> (\<forall>c'. wd_key env' c' = wd_key env c') \<and> sessions env' = sessions env
     \<and> (\<forall>r. page_of r \<noteq> c \<longrightarrow> content_at env' r = content_at env r) \<and> untouched env env'"
proof -
  let ?l = "htmlcache_session_list env"
  have o: "index_ok (htmlcache_wd_rbtree env)" "index_ok (htmlcache_pathfilename_rbtree env)"
    "set (inorder (htmlcache_wd_rbtree env)) = cached env" "set (inorder (htmlcache_pathfilename_rbtree env)) = cached env"
    "sorted (map (wd_key env) (inorder (htmlcache_wd_rbtree env)))"
    "sorted_wrt (path_less env) (inorder (htmlcache_pathfilename_rbtree env))"
    "distinct ?l" "htmlcache_session_count env = int (length ?l)" "\<forall>c \<in> cached env. c < next_cache env"
    using ok by (simp_all add: cache_ok_def)
  have l: "length (remove1 c ?l) + 1 = length ?l" "set (remove1 c ?l) = cached env - {c}"
    using c o(7) length_pos_if_in_set [of c ?l] by (auto simp: cached_def length_remove1)
  obtain t1 where t1: "rb_erase c (htmlcache_wd_rbtree env) = Some t1" "index_ok t1"
    "inorder t1 = remove1 c (inorder (htmlcache_wd_rbtree env))"
    using index.remove_node [OF o(1), of c] c o(3) by blast
  obtain t2 where t2: "rb_erase c (htmlcache_pathfilename_rbtree env) = Some t2" "index_ok t2"
    "inorder t2 = remove1 c (inorder (htmlcache_pathfilename_rbtree env))"
    using index.remove_node [OF o(2), of c] c o(4) by blast
  have s: "set (inorder t1) = cached env - {c}" "set (inorder t2) = cached env - {c}"
    using t1(3) t2(3) o(1-4) by (simp_all add: index_ok_def set_remove1_eq)
  define env' where "env' = FreeHtmlCacheSession c (env\<lparr>htmlcache_pathfilename_rbtree := t2, htmlcache_wd_rbtree := t1,
     htmlcache_session_list := remove1 c ?l, htmlcache_session_count := htmlcache_session_count env - 1\<rparr>)"
  have e: "drop_page env c = Some env'"
    using t1(1) t2(1) by (simp add: drop_page_def RemoveHtmlCachePathfilenameTreeNode_def RemoveHtmlCacheWdTreeNode_def env'_def)
  have k: "wd_key env' c' = wd_key env c'" for c' by (simp add: env'_def FreeHtmlCacheSession_def)
  have pk: "path_key env' c' = path_key env c'" if "c' \<noteq> c" for c' using that by (simp add: env'_def FreeHtmlCacheSession_def)
  have "sorted (map (wd_key env) (inorder t1))" using o(5) by (simp add: t1(3) sorted_map_remove1)
  moreover have "map (wd_key env') (inorder t1) = map (wd_key env) (inorder t1)" by (rule map_cong [OF refl k])
  ultimately have sw: "sorted (map (wd_key env') (inorder t1))" by metis
  have "sorted_wrt (path_less env) (inorder t2)" unfolding t2(3)
    by (rule sorted_wrt_remove1 [OF o(6)]) (use o(2) in \<open>simp add: index_ok_def\<close>)
  then have sp: "sorted_wrt (path_less env') (inorder t2)"
    by (rule sorted_wrt_mono_rel [rotated]) (auto simp: path_less_def pk s(2))
  have cd: "cached env' = cached env - {c}" using l(2) by (simp add: cached_def env'_def FreeHtmlCacheSession_def)
  have "cache_ok env'" unfolding cache_ok_def cd
    using t1(2) t2(2) s sw sp o(7,8,9) l by (auto simp: env'_def FreeHtmlCacheSession_def)
  moreover have "keeps env env'"
    by (rule keepsI) (simp_all add: env'_def FreeHtmlCacheSession_def pool_def link_def)
  moreover have "content_at env' r = content_at env r" if "page_of r \<noteq> c" for r
    using that by (cases r) (simp_all add: env'_def FreeHtmlCacheSession_def)
  moreover have "untouched env env'" unfolding untouched_def cd by (simp add: env'_def FreeHtmlCacheSession_def)
  ultimately show ?thesis using e cd k by (auto simp: env'_def FreeHtmlCacheSession_def)
qed

section \<open>The handler\<close>

lemma cache_events_step:
  "cache_events sys alloc (d # ds) env w =
     (case QueryHtmlCacheWdTreeNode env d of
        None \<Rightarrow> cache_events sys alloc ds env w
      | Some c \<Rightarrow>
          let (nret, env) = ReallocHttpSessionChanged alloc env c in
          if nret \<noteq> 0 then Some (nret, env, w)
          else Option.bind (drop_page env c) (\<lambda>env'. cache_events sys alloc ds env' (sys_rm_watch sys (wd_key env c) w)))"
proof -
  have wd: "wd_key env2 c = wd_key env c"
    if "RemoveHtmlCachePathfilenameTreeNode env c = Some env1" "RemoveHtmlCacheWdTreeNode env1 c = Some env2" for env env1 env2 c
    using that by (auto simp: RemoveHtmlCachePathfilenameTreeNode_def RemoveHtmlCacheWdTreeNode_def)
  show ?thesis
    by (auto simp: drop_page_def Let_def wd split: option.split prod.split bind_split)
qed

lemma falling_wds:
  assumes "sorted (map (wd_key env) cs)" shows "falling (\<lambda>b. cmp_int d (wd_key env b)) cs"
  using assms unfolding falling_def sorted_map
  by (rule sorted_wrt_mono_rel [rotated]) (auto simp: cmp_int_def split: if_splits)

lemma QueryHtmlCacheWdTreeNode_missing:
  assumes "cache_ok env" "QueryHtmlCacheWdTreeNode env d = None" "c \<in> cached env" shows "wd_key env c \<noteq> d"
  using query_tree_missing [OF falling_wds assms(2) [unfolded QueryHtmlCacheWdTreeNode_def], of c] assms(1,3)
  by (auto simp: cache_ok_def cmp_int_def)

lemma drop_after_realloc:
  assumes "cache_ok env" "borrow_ok env" "c \<in> cached env" "ReallocHttpSessionChanged alloc env c = (0, env1)"
  shows "\<exists>env'. drop_page env1 c = Some env' \<and> cache_ok env' \<and> borrow_ok env' \<and> keeps env env'
     \<and> cached env' = cached env - {c} \<and> (\<forall>c. wd_key env' c = wd_key env c) \<and> untouched env env'"
proof -
  have r: "returns_pages env env1" "\<forall>a \<in> used env. \<forall>r. borrows env1 a r \<longrightarrow> page_of r \<noteq> c"
    using realloc_sessions_returns [OF assms(2) _ assms(4) [unfolded ReallocHttpSessionChanged_def]] by (simp_all add: used_def)
  have sc: "same_cache env env1" and k1: "keeps env env1" using r(1) by (simp_all add: returns_pages_def)
  have ok1: "cache_ok env1" and cd1: "cached env1 = cached env" using same_cache_ok [OF sc] assms(1) by simp_all
  have b1: "borrow_ok env1" by (rule returns_pages_ok [OF r(1) assms(2)])
  have u1: "used env1 = used env" by (rule returns_used [OF r(1)])
  obtain env' where d: "drop_page env1 c = Some env'" "cache_ok env'" "cached env' = cached env1 - {c}" "keeps env1 env'"
    "\<forall>c. wd_key env' c = wd_key env1 c" "sessions env' = sessions env1"
    "\<forall>r. page_of r \<noteq> c \<longrightarrow> content_at env' r = content_at env1 r" "untouched env1 env'"
    using drop_page_ok [OF ok1, of c] cd1 assms(3) by blast
  have u': "used env' = used env1" using d(4) unfolding keeps_def by (blast dest: pool_cong(3))
  have bo: "borrows env' = borrows env1" by (simp add: borrows_def d(6) fun_eq_iff)
  have "borrow_ok env'" unfolding borrow_ok_def u' bo d(6)
  proof (intro ballI allI impI)
    fix a r assume a: "a \<in> used env1" and b: "borrows env1 a r"
    have "page_of r \<noteq> c" using r(2) a b u1 by blast
    then show "page_of r \<in> cached env' \<and> content_at env' r \<noteq> None
      \<and> (\<forall>b. p_append_buffer (http (sessions env1 a)) = Some b \<longrightarrow> base b \<noteq> None)"
      using b1 a b d(3,7) unfolding borrow_ok_def by auto
  qed
  moreover have "wd_key env' c' = wd_key env c'" for c' using d(5) sc by (simp add: same_cache_def)
  moreover have "untouched env env'"
    using untouched_trans [OF realloc_sessions_untouched [OF assms(2) _ assms(4) [unfolded ReallocHttpSessionChanged_def]] d(8) u1]
      d(3) by (auto simp: used_def)
  ultimately show ?thesis using d(1-3) cd1 keeps_trans [OF k1 d(4)] by auto
qed

lemma realloc_keeps:
  assumes "cache_ok env" "borrow_ok env" "ReallocHttpSessionChanged alloc env c = (nret, env')"
  shows "cache_ok env' \<and> borrow_ok env' \<and> keeps env env' \<and> cached env' = cached env \<and> untouched env env'"
proof -
  have r: "returns_pages env env'"
    using realloc_sessions_returns [OF assms(2) _ assms(3) [unfolded ReallocHttpSessionChanged_def]] by (simp add: used_def)
  then have sc: "same_cache env env'" and k: "keeps env env'" by (simp_all add: returns_pages_def)
  show ?thesis
    using same_cache_ok [OF sc] returns_pages_ok [OF r assms(2)] k assms(1)
      realloc_sessions_untouched [OF assms(2) _ assms(3) [unfolded ReallocHttpSessionChanged_def]] by (simp add: used_def)
qed

lemma cache_events_ok:
  assumes "cache_ok env" "borrow_ok env"
  shows "\<exists>nret env' w'. cache_events sys alloc ds env w = Some (nret, env', w') \<and> cache_ok env' \<and> borrow_ok env'
     \<and> keeps env env' \<and> cached env' \<subseteq> cached env \<and> untouched env env'
     \<and> (nret = 0 \<longrightarrow> inj_on (wd_key env) (cached env) \<longrightarrow>
          cached env' = {c \<in> cached env. wd_key env c \<notin> set ds} \<and> wd_key env' = wd_key env)"
  using assms
proof (induction ds arbitrary: env w)
  case (Cons d ds)
  show ?case
  proof (cases "QueryHtmlCacheWdTreeNode env d")
    case None
    have e: "cache_events sys alloc (d # ds) env w = cache_events sys alloc ds env w" by (simp add: None)
    have "{c \<in> cached env. wd_key env c \<notin> set (d # ds)} = {c \<in> cached env. wd_key env c \<notin> set ds}"
      using QueryHtmlCacheWdTreeNode_missing [OF Cons.prems(1) None] by auto
    then show ?thesis using Cons.IH [OF Cons.prems, of w] unfolding e by simp
  next
    case (Some c)
    note c = QueryHtmlCacheWdTreeNode_found [OF Cons.prems(1) Some]
    obtain nret env1 where r: "ReallocHttpSessionChanged alloc env c = (nret, env1)" by fastforce
    show ?thesis
    proof (cases "nret = 0")
      case False
      then have "cache_events sys alloc (d # ds) env w = Some (nret, env1, w)"
        unfolding cache_events_step by (simp add: Some r)
      then show ?thesis using realloc_keeps [OF Cons.prems r] False by simp
    next
      case True
      obtain env2 where d2: "drop_page env1 c = Some env2" "cache_ok env2" "borrow_ok env2" "keeps env env2"
        "cached env2 = cached env - {c}" "\<forall>c. wd_key env2 c = wd_key env c" "untouched env env2"
        using drop_after_realloc [OF Cons.prems c(1) r [unfolded True]] by blast
      have e: "cache_events sys alloc (d # ds) env w = cache_events sys alloc ds env2 (sys_rm_watch sys (wd_key env1 c) w)"
        unfolding cache_events_step by (simp add: Some r True d2(1))
      obtain n env' w' where i: "cache_events sys alloc ds env2 (sys_rm_watch sys (wd_key env1 c) w) = Some (n, env', w')"
        "cache_ok env'" "borrow_ok env'" "keeps env2 env'" "cached env' \<subseteq> cached env2"
        "n = 0 \<longrightarrow> inj_on (wd_key env2) (cached env2) \<longrightarrow>
           cached env' = {c \<in> cached env2. wd_key env2 c \<notin> set ds} \<and> wd_key env' = wd_key env2" "untouched env2 env'"
        using Cons.IH [OF d2(2,3)] by blast
      have "used env2 = used env" using d2(4) unfolding keeps_def by (blast dest: pool_cong(3))
      note un = untouched_trans [OF d2(7) i(7) this i(5)]
      have k: "wd_key env2 = wd_key env" using d2(6) by (simp add: fun_eq_iff)
      have "cached env' = {c \<in> cached env. wd_key env c \<notin> set (d # ds)} \<and> wd_key env' = wd_key env"
        if "n = 0" and inj: "inj_on (wd_key env) (cached env)"
      proof -
        have "inj_on (wd_key env2) (cached env2)" unfolding k d2(5) by (rule inj_on_subset [OF inj]) simp
        then have "cached env' = {c \<in> cached env2. wd_key env c \<notin> set ds}" "wd_key env' = wd_key env"
          using i(6) that(1) d2(6) unfolding k by simp_all
        moreover have "c' = c" if "c' \<in> cached env" "wd_key env c' = d" for c'
          using inj_onD [OF inj, of c' c] that c by simp
        ultimately show ?thesis using d2(5) c(2) by auto
      qed
      then show ?thesis using e i(1-5) d2(5) un keeps_trans [OF d2(4) i(4)] by auto
    qed
  qed
qed (simp add: untouched_def)

lemma HtmlCacheEventHander_ok:
  assumes "cache_ok env" "borrow_ok env" "HtmlCacheEventHander sys alloc env w = r"
  shows "\<exists>nret env' w'. r = Some (nret, env', w') \<and> cache_ok env' \<and> borrow_ok env' \<and> keeps env env'
     \<and> cached env' \<subseteq> cached env \<and> untouched env env'
     \<and> (nret = 0 \<longrightarrow> inj_on (wd_key env) (cached env) \<longrightarrow> (\<exists>ds. fst (sys_notified sys w) = Some ds
          \<and> cached env' = {c \<in> cached env. wd_key env c \<notin> set ds}))"
proof (cases "sys_notified sys w")
  case (Pair o1 w1)
  show ?thesis
  proof (cases o1)
    case None
    then show ?thesis using assms Pair by (auto simp: HtmlCacheEventHander_def untouched_def)
  next
    case (Some ds)
    have "r = cache_events sys alloc ds env w1" using assms(3) Pair Some by (simp add: HtmlCacheEventHander_def)
    then show ?thesis using cache_events_ok [OF assms(1,2), of sys alloc ds w1] Pair Some by auto
  qed
qed

end
