(* ===== verification/HetaoRequest.thy ===== *)
theory HetaoRequest
  imports HetaoCache
begin

text \<open>
  \<open>ProcessHttpRequest\<close> (\<open>ProcessHttpRequest.c\<close>): the answer to a request, from the cache of pages, from a
  file, through a list of index files or from a forward server.  A page that has been read has the next
  address of a page from the start, also while the code keeps it on the stack; its contents are at that address.
  The recursion over the index files is a partial function: \<open>None\<close> when it does not end.
\<close>

section \<open>Contents of a page\<close>

datatype encoding = Gzip | Deflate

fun window_bits :: "encoding \<Rightarrow> int" where
  "window_bits Gzip = HTTP_COMPRESSALGORITHM_GZIP"
| "window_bits Deflate = HTTP_COMPRESSALGORITHM_DEFLATE"

fun encoding_name :: "encoding \<Rightarrow> bytes" where
  "encoding_name Gzip = ''gzip''"
| "encoding_name Deflate = ''deflate''"

fun encoded :: "encoding \<Rightarrow> htmlcache_session \<Rightarrow> bytes option" where
  "encoded Gzip p = html_gzip_content p"
| "encoded Deflate p = html_deflate_content p"

fun set_encoded :: "encoding \<Rightarrow> bytes \<Rightarrow> htmlcache_session \<Rightarrow> htmlcache_session" where
  "set_encoded Gzip out p = p\<lparr>html_gzip_content := Some out\<rparr>"
| "set_encoded Deflate out p = p\<lparr>html_deflate_content := Some out\<rparr>"

fun encoded_ref :: "encoding \<Rightarrow> nat \<Rightarrow> content_ref" where
  "encoded_ref Gzip c = Html_gzip c"
| "encoded_ref Deflate c = Html_deflate c"

definition upd_cache :: "nat \<Rightarrow> (htmlcache_session \<Rightarrow> htmlcache_session) \<Rightarrow> hetao_env \<Rightarrow> hetao_env" where
  "upd_cache c f env = env\<lparr>caches := (caches env)(c := f (caches env c))\<rparr>"

abbreviation (input) HTTP_FORBIDDEN :: int where "HTTP_FORBIDDEN \<equiv> 403"
abbreviation (input) HTTP_NOT_FOUND :: int where "HTTP_NOT_FOUND \<equiv> 404"

text \<open>The stream is not ended after success, which the result does not show.\<close>

definition CompressData :: "'z zlib \<Rightarrow> allocator \<Rightarrow> bytes \<Rightarrow> int \<Rightarrow> int \<times> bytes" where
  "CompressData z alloc s algorithm =
     (if deflate_init z algorithm \<noteq> Z_OK then (HTTP_INTERNAL_SERVER_ERROR, [])
      else let out_len = deflate_bound z (length s) in
        if \<not> alloc (int out_len + 1) then (HTTP_INTERNAL_SERVER_ERROR, [])
        else let (nret, out) = deflate_all z algorithm s out_len in
          if nret \<noteq> Z_OK \<and> nret \<noteq> Z_STREAM_END then (HTTP_INTERNAL_SERVER_ERROR, []) else (0, out))"

section \<open>The response\<close>

text \<open>The rest of the header and, for \<open>GET\<close>, the content, which stays where it is: the last byte of its area
  is not part of it.\<close>

definition page_header :: "mime_type \<Rightarrow> encoding option \<Rightarrow> nat \<Rightarrow> bool \<Rightarrow> bytes" where
  "page_header mime enc len keepalive =
     ''Server: hetao/0.14.0'' @ [CR, LF] @ ''Content-Type: '' @ mt_mime mime @ [CR, LF]
     @ (case enc of None \<Rightarrow> [] | Some a \<Rightarrow> ''Content-Encoding: '' @ encoding_name a @ [CR, LF])
     @ ''Content-Length: '' @ decimal len @ [CR, LF]
     @ (if keepalive then ''Connection: Keep-Alive'' @ [CR, LF] else []) @ [CR, LF]"

definition answer ::
    "allocator \<Rightarrow> hetao_env \<Rightarrow> nat \<Rightarrow> mime_type \<Rightarrow> encoding option \<Rightarrow> content_ref \<Rightarrow> bytes \<Rightarrow> (int \<times> hetao_env) option" where
  "answer alloc env a mime enc ref text = do {
     let e = http (sessions env a);
     (nret, b) \<leftarrow> StrcatfHttpBuffer alloc (GetHttpResponseBuffer e)
                    (page_header mime enc (length text) (CheckHttpKeepAlive e));
     let env = upd_session a (\<lambda>s. s\<lparr>http := (http s)\<lparr>response_buffer := b\<rparr>\<rparr>) env;
     if nret \<noteq> 0 then Some (HTTP_INTERNAL_SERVER_ERROR, env)
     else if GetHttpHeader_METHOD e = HTTP_METHOD_GET_N then
       let b = SetHttpBufferPtr (http_buf (sessions env a)) (int (length text) + 1) (text @ [NUL]) in
       Some (0, upd_session a (\<lambda>s. s\<lparr>http_buf := b, http_buf_base := Some ref, http := AppendHttpBuffer (http s) (Some b)\<rparr>) env)
     else Some (0, env) }"

definition answer_plain :: "allocator \<Rightarrow> hetao_env \<Rightarrow> nat \<Rightarrow> mime_type \<Rightarrow> nat \<Rightarrow> (int \<times> hetao_env) option" where
  "answer_plain alloc env a mime c =
     Option.bind (html_content (caches env c)) (\<lambda>text. answer alloc env a mime None (Html c) text)"

definition answer_encoded ::
    "'z zlib \<Rightarrow> allocator \<Rightarrow> hetao_env \<Rightarrow> nat \<Rightarrow> mime_type \<Rightarrow> nat \<Rightarrow> encoding \<Rightarrow> (int \<times> hetao_env) option" where
  "answer_encoded z alloc env a mime c enc =
     (case encoded enc (caches env c) of
        Some out \<Rightarrow> answer alloc env a mime (Some enc) (encoded_ref enc c) out
      | None \<Rightarrow> do {
          text \<leftarrow> html_content (caches env c);
          let (nret, out) = CompressData z alloc text (window_bits enc);
          if nret \<noteq> 0 then Some (nret, env)
          else answer alloc (upd_cache c (set_encoded enc out) env) a mime (Some enc) (encoded_ref enc c) out })"

text \<open>The loop over what the client accepts.\<close>

fun accepted :: "int \<Rightarrow> bytes list \<Rightarrow> encoding option" where
  "accepted compress_enable [] = None"
| "accepted compress_enable (t # ts) =
     (if compress_enable = 1 \<and> length t = 4 \<and> strnicmp_eq 4 t ''gzip'' then Some Gzip
      else if compress_enable = 1 \<and> length t = 7 \<and> strnicmp_eq 7 t ''deflate'' then Some Deflate
      else accepted compress_enable ts)"

text \<open>If the client says what it accepts and compression is switched off, neither answer is given.\<close>

definition format_page ::
    "'z zlib \<Rightarrow> allocator \<Rightarrow> hetao_env \<Rightarrow> nat \<Rightarrow> mime_type \<Rightarrow> nat \<Rightarrow> (int \<times> hetao_env) option" where
  "format_page z alloc env a mime c =
     (let e = http (sessions env a); l = http_lib_state env in
      case QueryHttpHeaderPtr l e ''Accept-Encoding'' of
        None \<Rightarrow> answer_plain alloc env a mime c
      | Some ((r, p), _) \<Rightarrow>
          if \<not> http_options__compress_on env then Some (0, env)
          else (case accepted (mt_compress_enable mime) (header_tokens (drop p (area (buffer_at l e r)))) of
                  None \<Rightarrow> answer_plain alloc env a mime c
                | Some enc \<Rightarrow> answer_encoded z alloc env a mime c enc))"

section \<open>Pages and files\<close>

text \<open>Reading a page: \<open>Inl\<close> the page, \<open>Inr\<close> the code of the error.  If \<open>stat\<close> fails the status is all zero.  A size
  that does not fit in an \<open>int\<close> makes \<open>fread\<close> leave the area.\<close>

definition load_page :: "'w sys \<Rightarrow> allocator \<Rightarrow> bytes \<Rightarrow> 'w \<Rightarrow> (htmlcache_session + int) option" where
  "load_page sys alloc path w =
     (if \<not> alloc (int (length path) + 1) then Some (Inr HTTP_INTERNAL_SERVER_ERROR)
      else
        let (directory, n) = (case sys_stat sys w path of None \<Rightarrow> (False, 0) | Some st \<Rightarrow> st);
            page = zero_cache\<lparr>pathfilename := path, st_directory := directory, st_size := n\<rparr> in
        if directory then Some (Inl page)
        else
          (case sys_file sys w path of
             None \<Rightarrow> Some (Inr HTTP_NOT_FOUND)
           | Some text \<Rightarrow>
               let len = c_int n in
               if \<not> alloc (len + 1) then Some (Inr HTTP_INTERNAL_SERVER_ERROR)
               else if len < 0 then None
               else if int (length text) < len then Some (Inr HTTP_INTERNAL_SERVER_ERROR)
               else Some (Inl (page\<lparr>html_content := Some (take (nat len) text)\<rparr>))))"

text \<open>A page that is new enters the cache, or is freed if its file is too large.\<close>

definition cache_page :: "'w sys \<Rightarrow> bool \<Rightarrow> hetao_env \<Rightarrow> nat \<Rightarrow> 'w \<Rightarrow> (int \<times> hetao_env \<times> 'w) option" where
  "cache_page sys page env c w =
     (if st_size (caches env c) \<le> limits__max_file_cache env then
        if \<not> page then Some (- 1, env, w)
        else
          let (d, w) = sys_add_watch sys (path_key env c) w; env = upd_cache c (\<lambda>p. p\<lparr>wd := d\<rparr>) env in
          if d = - 1 then Some (HTTP_INTERNAL_SERVER_ERROR, FreeHtmlCacheSession c env, w)
          else do {
            (nret, env) \<leftarrow> AddHtmlCacheWdTreeNode env c;
            if nret \<noteq> 0 then
              Some (HTTP_INTERNAL_SERVER_ERROR, FreeHtmlCacheSession c env, sys_rm_watch sys d w)
            else do {
              (nret, env) \<leftarrow> AddHtmlCachePathfilenameTreeNode env c;
              if nret \<noteq> 0 then do {
                env \<leftarrow> RemoveHtmlCacheWdTreeNode env c;
                Some (HTTP_INTERNAL_SERVER_ERROR, FreeHtmlCacheSession c env, sys_rm_watch sys d w) }
              else Some (HTTP_OK, env\<lparr>htmlcache_session_list := c # htmlcache_session_list env,
                                     htmlcache_session_count := htmlcache_session_count env + 1\<rparr>, w) } }
      else Some (HTTP_OK, FreeHtmlCacheSession c env, w))"

definition serve_page ::
    "'w sys \<Rightarrow> 'z zlib \<Rightarrow> allocator \<Rightarrow> bool \<Rightarrow> hetao_env \<Rightarrow> nat \<Rightarrow> bytes \<Rightarrow> nat \<Rightarrow> bool \<Rightarrow> 'w \<Rightarrow> (int \<times> hetao_env \<times> 'w) option" where
  "serve_page sys z alloc page env a ext c new w = do {
     (nret, env) \<leftarrow> format_response alloc HTTP_OK False None env a;
     if nret \<noteq> 0 then Some (HTTP_INTERNAL_SERVER_ERROR, env, w)
     else do {
       found \<leftarrow> QueryMimeTypeHashNode (mime_type_hash env) ext;
       (case found of
          None \<Rightarrow> Some (HTTP_FORBIDDEN, env, w)
        | Some mime \<Rightarrow> do {
            (nret, env) \<leftarrow> format_page z alloc env a mime c;
            if nret \<noteq> 0 then Some (nret, env, w)
            else if new then cache_page sys page env c w
            else Some (HTTP_OK, env, w) }) } }"

section \<open>The request\<close>

definition forward_request :: "'w sys \<Rightarrow> allocator \<Rightarrow> hetao_env \<Rightarrow> nat \<Rightarrow> 'w \<Rightarrow> (int \<times> hetao_env \<times> 'w) option" where
  "forward_request sys alloc env a w = do {
     (nret, env, w) \<leftarrow> SelectForwardAddress sys env a w;
     if nret = HTTP_OK then do {
       (nret, env, w) \<leftarrow> ConnectForwardServer sys alloc env a w;
       if nret = HTTP_OK then
         let (nret, w) = sys_epoll_ctl sys EPOLL_CTL_MOD (na_sock (netaddr (sessions env a))) EPOLLRDHUP_ERR w in
         Some (if nret = - 1 then - 1 else 0, env, w)
       else Some (HTTP_SERVICE_UNAVAILABLE, env, w) }
     else Some (HTTP_SERVICE_UNAVAILABLE, env, w) }"

text \<open>\<open>snprintf(pathfilename, 1024, "%s%.*s", pathname, filename_len, filename)\<close>\<close>

definition page_path :: "bytes \<Rightarrow> bytes \<Rightarrow> bytes" where
  "page_path pathname filename = take 1023 (pathname @ cstr filename)"

text \<open>\<open>strstr(s, "..")\<close>\<close>

fun dots :: "bytes \<Rightarrow> bool" where
  "dots (c # d # s) \<longleftrightarrow> c = DOT \<and> d = DOT \<or> dots (d # s)"
| "dots s \<longleftrightarrow> False"

datatype reply = Reply int | Is_directory

text \<open>A call up to the loop over the index files.\<close>

definition serve_file ::
    "'w sys \<Rightarrow> 'z zlib \<Rightarrow> allocator \<Rightarrow> bool \<Rightarrow> hetao_env \<Rightarrow> nat \<Rightarrow> bytes \<Rightarrow> bytes \<Rightarrow> 'w \<Rightarrow> (reply \<times> hetao_env \<times> 'w) option" where
  "serve_file sys z alloc page env a pathname filename w = do {
     h \<leftarrow> p_virtual_host (sessions env a);
     let u = session_uri (sessions env a);
     let ext = part filename (ext_filename_base u) (ext_filename_len u);
     if rd (forward_rule (hosts env h) @ [NUL]) 0 \<noteq> NUL \<and> ext = forward_type (hosts env h) then
       map_option (\<lambda>(nret, env, w). (Reply nret, env, w)) (forward_request sys alloc env a w)
     else
       let path = page_path pathname filename in
       if dots path then Some (Reply HTTP_BAD_REQUEST, env, w)
       else
         (case QueryHtmlCachePathfilenameTreeNode env path of
            Some c \<Rightarrow>
              if st_directory (caches env c) then Some (Is_directory, env, w)
              else map_option (\<lambda>(nret, env, w). (Reply nret, env, w)) (serve_page sys z alloc page env a ext c False w)
          | None \<Rightarrow> do {
              loaded \<leftarrow> load_page sys alloc path w;
              (case loaded of
                 Inr code \<Rightarrow> Some (Reply code, env, w)
               | Inl p \<Rightarrow>
                   if st_directory p then Some (Is_directory, env, w)
                   else let c = next_cache env; env = upd_cache c (\<lambda>_. p) (env\<lparr>next_cache := c + 1\<rparr>) in
                     map_option (\<lambda>(nret, env, w). (Reply nret, env, w)) (serve_page sys z alloc page env a ext c True w)) }) }"

definition process_file ::
    "'w sys \<Rightarrow> 'z zlib \<Rightarrow> allocator \<Rightarrow> bool \<Rightarrow> hetao_env \<Rightarrow> nat \<Rightarrow> bytes \<Rightarrow> bytes \<Rightarrow> 'w \<Rightarrow> (reply \<times> hetao_env \<times> 'w) option" where
  "process_file sys z alloc page env a pathname filename w = do {
     let env = upd_session a (\<lambda>s. s\<lparr>session_uri := zero_uri\<rparr>) env;
     (nret, u) \<leftarrow> SplitHttpUri (\<lambda>p. map_option fst (sys_stat sys w p)) (Some pathname) filename;
     let env = (case u of None \<Rightarrow> env | Some u \<Rightarrow> upd_session a (\<lambda>s. s\<lparr>session_uri := u\<rparr>) env);
     if nret \<noteq> 0 then Some (Reply HTTP_NOT_FOUND, env, w)
     else serve_file sys z alloc page env a pathname filename w }"

text \<open>The loop over the index files that \<open>strtok\<close> has still to divide.  An index file that is a directory
  starts a loop of its own, over all index files; when it fails it leaves nothing for the outer loops.\<close>

partial_function (option) process_names ::
    "'w sys \<Rightarrow> 'z zlib \<Rightarrow> allocator \<Rightarrow> bool \<Rightarrow> hetao_env \<Rightarrow> nat \<Rightarrow> bytes \<Rightarrow> bytes \<Rightarrow> bytes \<Rightarrow> 'w \<Rightarrow> (int \<times> hetao_env \<times> 'w) option" where
  "process_names sys z alloc page env a pathname index names w =
     (case strtok '','' names of
        None \<Rightarrow> Some (HTTP_NOT_FOUND, env, w)
      | Some (name, names) \<Rightarrow>
          (case process_file sys z alloc page env a pathname name w of
             None \<Rightarrow> None
           | Some (Is_directory, env, w) \<Rightarrow> process_names sys z alloc page env a pathname index index w
           | Some (Reply nret, env, w) \<Rightarrow>
               if nret = HTTP_OK \<or> nret = 0 then Some (nret, env, w)
               else process_names sys z alloc page env a pathname index names w))"

definition ProcessHttpRequest ::
    "'w sys \<Rightarrow> 'z zlib \<Rightarrow> allocator \<Rightarrow> bool \<Rightarrow> hetao_env \<Rightarrow> nat \<Rightarrow> bytes \<Rightarrow> bytes \<Rightarrow> 'w \<Rightarrow> (int \<times> hetao_env \<times> 'w) option" where
  "ProcessHttpRequest sys z alloc page env a pathname filename w = do {
     (reply, env, w) \<leftarrow> process_file sys z alloc page env a pathname filename w;
     (case reply of
        Reply nret \<Rightarrow> Some (nret, env, w)
      | Is_directory \<Rightarrow> do {
          h \<leftarrow> p_virtual_host (sessions env a);
          let index = index_files (hosts env h);
          if index = [] then Some (HTTP_NOT_FOUND, env, w)
          else process_names sys z alloc page env a pathname index index w }) }"

end
