(* ===== verification/HetaoSocket.thy ===== *)
theory HetaoSocket
  imports HetaoRequest HetaoHost
begin

text \<open>
  The sockets of the clients: accepting a connection (\<open>OnAcceptingSocket.c\<close>), its SSL handshake
  (\<open>OnAcceptingSslSocket.c\<close>), receiving a request and answering it (\<open>OnReceivingSocket.c\<close>) and sending the
  response (\<open>OnSendingSocket.c\<close>).
\<close>

abbreviation (input) HTTP_MOVED_PERMANNETLY :: int where "HTTP_MOVED_PERMANNETLY \<equiv> 301"
abbreviation (input) EAGAIN :: int where "EAGAIN \<equiv> 11"
abbreviation (input) MAX_LISTEN_EPOLL_EVENTS :: nat where "MAX_LISTEN_EPOLL_EVENTS \<equiv> 50"

section \<open>Deadlines\<close>

definition touch_timeout :: "'w sys \<Rightarrow> hetao_env \<Rightarrow> nat \<Rightarrow> 'w \<Rightarrow> (hetao_env \<times> 'w) option" where
  "touch_timeout sys env a w =
     (let (now, w) = sys_now sys w in
      map_option (\<lambda>(_, env). (env, w))
        (UpdateHttpSessionTimeoutTreeNode env a (c_int (c_int now + http_options__timeout env))))"

definition touch_elapse :: "'w sys \<Rightarrow> hetao_env \<Rightarrow> nat \<Rightarrow> 'w \<Rightarrow> (hetao_env \<times> 'w) option" where
  "touch_elapse sys env a w =
     (let (now, w) = sys_now sys w in
      map_option (\<lambda>(_, env). (env, w))
        (UpdateHttpSessionElapseTreeNode env a (c_int (c_int now + http_options__elapse env))))"

section \<open>Accepting\<close>

definition OnAcceptingSslSocket :: "'w sys \<Rightarrow> hetao_env \<Rightarrow> nat \<Rightarrow> 'w \<Rightarrow> int \<times> hetao_env \<times> 'w" where
  "OnAcceptingSslSocket sys env a w =
     (let sock = na_sock (netaddr (sessions env a)) in
      case sys_ssl_handshake sys sock w of
        (Handshake_done, w) \<Rightarrow>
          let (nret, w) = sys_epoll_ctl sys EPOLL_CTL_MOD sock EPOLLIN_ERR w in
          if nret = - 1 then (1, env, w)
          else (0, upd_session a (\<lambda>s. s\<lparr>ssl_accepted := True\<rparr>) env, w)
      | (Want_write, w) \<Rightarrow>
          let (nret, w) = sys_epoll_ctl sys EPOLL_CTL_MOD sock EPOLLOUT_ERR w in
          (if nret = - 1 then 1 else 0, env, w)
      | (Want_read, w) \<Rightarrow>
          let (nret, w) = sys_epoll_ctl sys EPOLL_CTL_MOD sock EPOLLIN_ERR w in
          (if nret = - 1 then 1 else 0, env, w)
      | (Handshake_failed, w) \<Rightarrow> (1, env, w))"

text \<open>\<open>inet_ntop\<close> is given the address of the whole structure: it prints the family and the port that stand in
  front of the address (on a machine that stores the low byte first).\<close>

definition printed_address :: "nat \<Rightarrow> bytes" where
  "printed_address port = ''2.0.'' @ decimal (port div 256 mod 256) @ ''.'' @ decimal (port mod 256)"

text \<open>\<open>SetHttpSessionUnused\<close>, then return of \<open>code\<close>.\<close>

definition drop_session :: "'w sys \<Rightarrow> allocator \<Rightarrow> int \<Rightarrow> hetao_env \<Rightarrow> nat \<Rightarrow> 'w \<Rightarrow> (int \<times> hetao_env \<times> 'w) option" where
  "drop_session sys alloc code env a w =
     map_option (\<lambda>(env, w). (code, env, w)) (SetHttpSessionUnused sys alloc env a w)"

text \<open>The session of an accepted connection; \<open>None\<close> as first result: the loop goes on.\<close>

definition open_session ::
    "'w sys \<Rightarrow> bool \<Rightarrow> (nat \<Rightarrow> bool) \<Rightarrow> allocator \<Rightarrow> hetao_env \<Rightarrow> nat \<Rightarrow> int \<Rightarrow> ip \<Rightarrow> nat \<Rightarrow> 'w
       \<Rightarrow> (int option \<times> hetao_env \<times> 'w) option" where
  "open_session sys node mem alloc env l sock i port w = do {
     (fetched, env, w) \<leftarrow> FetchHttpSessionUnused sys node mem alloc env i w;
     (case fetched of
        None \<Rightarrow> Some (Some 1, env, sys_close sys sock w)
      | Some a \<Rightarrow>
          let env = upd_session a (\<lambda>s. s\<lparr>p_listen_session := Some l,
                      netaddr := (netaddr s)\<lparr>na_sock := sock, na_addr := i, na_ip := printed_address port\<rparr>\<rparr>) env;
              (nret, w) = sys_epoll_ctl sys EPOLL_CTL_ADD sock EPOLLIN_ERR w in
          if nret = - 1 then map_option (\<lambda>(c, r). (Some c, r)) (drop_session sys alloc (- 1) env a w)
          else if ls_ssl_ctx (listens env l) then
            let (created, w) = sys_ssl_new sys w; env = upd_session a (\<lambda>s. s\<lparr>ssl := created\<rparr>) env in
            if \<not> created then map_option (\<lambda>(c, r). (Some c, r)) (drop_session sys alloc 1 env a w)
            else
              let (nret, env, w) = OnAcceptingSslSocket sys (upd_session a (\<lambda>s. s\<lparr>ssl_accepted := False\<rparr>) env) a w in
              if nret \<noteq> 0 then map_option (\<lambda>(c, r). (Some c, r)) (drop_session sys alloc 0 env a w)
              else Some (Some 0, env, w)
          else Some (None, env, w)) }"

fun accept_loop ::
    "'w sys \<Rightarrow> bool \<Rightarrow> (nat \<Rightarrow> bool) \<Rightarrow> allocator \<Rightarrow> nat \<Rightarrow> hetao_env \<Rightarrow> nat \<Rightarrow> 'w \<Rightarrow> (int \<times> hetao_env \<times> 'w) option" where
  "accept_loop sys node mem alloc 0 env l w = Some (0, env, w)"
| "accept_loop sys node mem alloc (Suc n) env l w =
     (case sys_accept sys (na_sock (ls_netaddr (listens env l))) w of
        (Accept_failed err, w) \<Rightarrow> Some (if err = EAGAIN then 0 else - 1, env, w)
      | (Accepted sock i port, w) \<Rightarrow>
          (case open_session sys node mem alloc env l sock i port w of
             None \<Rightarrow> None
           | Some (Some nret, env, w) \<Rightarrow> Some (nret, env, w)
           | Some (None, env, w) \<Rightarrow> accept_loop sys node mem alloc n env l w))"

definition OnAcceptingSocket ::
    "'w sys \<Rightarrow> bool \<Rightarrow> (nat \<Rightarrow> bool) \<Rightarrow> allocator \<Rightarrow> hetao_env \<Rightarrow> nat \<Rightarrow> 'w \<Rightarrow> (int \<times> hetao_env \<times> 'w) option" where
  "OnAcceptingSocket sys node mem alloc env l w = accept_loop sys node mem alloc MAX_LISTEN_EPOLL_EVENTS env l w"

section \<open>Receiving\<close>

definition header_value :: "hetao_env \<Rightarrow> nat \<Rightarrow> bytes \<Rightarrow> bytes" where
  "header_value env a name =
     (case QueryHttpHeaderPtr (http_lib_state env) (http (sessions env a)) name of
        None \<Rightarrow> []
      | Some (p, len) \<Rightarrow> deref (http_lib_state env) (http (sessions env a)) p len)"

definition request_uri :: "hetao_env \<Rightarrow> nat \<Rightarrow> bytes option" where
  "request_uri env a =
     (let e = http (sessions env a) in
      map_option (\<lambda>p. deref (http_lib_state env) e p (GetHttpHeaderLen_URI e)) (fst (GetHttpHeaderPtr_URI e)))"

text \<open>The loop over the rules for rewriting; \<open>m\<close> is the array for the result.  \<open>Inl\<close>: the code the function returns;
  \<open>Inr\<close>: the new URI, if a rule matches.\<close>

abbreviation (input) PATTERN_OVECCOUNT :: nat where "PATTERN_OVECCOUNT \<equiv> 30"
abbreviation (input) TEMPLATE_OVECCOUNT :: nat where "TEMPLATE_OVECCOUNT \<equiv> 6"

definition TEMPLATE_PATTERN :: bytes where
  "TEMPLATE_PATTERN = ''('' @ [CHR 0x5C] @ ''([0-9]+'' @ [CHR 0x5C] @ ''))''"

fun rewrite_loop ::
    "'w sys \<Rightarrow> rewrite_uri list \<Rightarrow> bytes \<Rightarrow> bytes \<Rightarrow> (int + bytes option) option" where
  "rewrite_loop sys [] uri m = Some (Inr None)"
| "rewrite_loop sys (r # rs) uri m = do {
     m \<leftarrow> memcpy_in 0 (rw_new_uri r @ [NUL]) m;
     (nret, m, len) \<leftarrow> RegexReplaceString (\<lambda>s. sys_pcre sys (rw_pattern r) s PATTERN_OVECCOUNT) uri
                          (\<lambda>s. sys_pcre sys TEMPLATE_PATTERN s TEMPLATE_OVECCOUNT) m (int (length (rw_new_uri r)));
     if nret = 0 then Some (Inr (Some (take (nat len) m)))
     else if nret = - 1 then Some (Inl HTTP_BAD_REQUEST)
     else rewrite_loop sys rs uri m }"

text \<open>The URI that is served.\<close>

definition served_uri :: "'w sys \<Rightarrow> hetao_env \<Rightarrow> nat \<Rightarrow> nat \<Rightarrow> (int + bytes) option" where
  "served_uri sys env a h = do {
     uri \<leftarrow> request_uri env a;
     if \<not> new_uri_re env then Some (Inr uri)
     else do {
       found \<leftarrow> rewrite_loop sys (rewrite_uri_list (hosts env h)) uri (replicate 4097 NUL);
       Some (case found of Inl code \<Rightarrow> Inl code | Inr None \<Rightarrow> Inr uri | Inr (Some u) \<Rightarrow> Inr u) } }"

definition redirection :: "hetao_env \<Rightarrow> nat \<Rightarrow> bytes \<Rightarrow> redirect_domain option option" where
  "redirection env h host =
     (let v = hosts env h in
      case (if redirect_domain_count (redirects v) > 0 then QueryRedirectDomainHashNode (redirects v) host
            else Some None) of
        None \<Rightarrow> None
      | Some None \<Rightarrow> Some (p_redirect_domain_default v)
      | Some (Some d) \<Rightarrow> Some (Some d))"

text \<open>The answer of a host.  \<open>Inl\<close>: the code the function returns at once; \<open>Inr\<close>: a response is ready.\<close>

definition answer_request ::
    "'w sys \<Rightarrow> 'z zlib \<Rightarrow> allocator \<Rightarrow> bool \<Rightarrow> hetao_env \<Rightarrow> nat \<Rightarrow> nat \<Rightarrow> bytes \<Rightarrow> 'w \<Rightarrow> (int option \<times> hetao_env \<times> 'w) option" where
  "answer_request sys z alloc page env a h host w = do {
     uri \<leftarrow> served_uri sys env a h;
     (case uri of
        Inl code \<Rightarrow> Some (Some code, env, w)
      | Inr uri \<Rightarrow> do {
          redirected \<leftarrow> redirection env h host;
          (case redirected of
             Some d \<Rightarrow> do {
               (nret, env) \<leftarrow> format_response alloc HTTP_MOVED_PERMANNETLY False
                 (Some (''Location: '' @ rd_new_domain d @ [CR, LF, CR, LF])) env a;
               if nret \<noteq> 0 then Some (Some 1, env, w)
               else Some (None, upd_session a (\<lambda>s. s\<lparr>http := SetHttpKeepAlive (http s) False\<rparr>) env, w) }
           | None \<Rightarrow> do {
               (nret, env, w) \<leftarrow> ProcessHttpRequest sys z alloc page env a (wwwroot (hosts env h)) uri w;
               if nret = HTTP_OK then Some (None, env, w)
               else if nret > 0 then do {
                 (nret, env) \<leftarrow> format_response alloc nret True None env a;
                 Some (if nret \<noteq> 0 then Some 1 else None, env, w) }
               else Some (Some nret, env, w) }) }) }"

text \<open>The host of a request: the one that the request names, or the default of the listener.\<close>

definition select_host :: "hetao_env \<Rightarrow> nat \<Rightarrow> bytes \<Rightarrow> nat option option" where
  "select_host env a host = do {
     l \<leftarrow> p_listen_session (sessions env a);
     found \<leftarrow> QueryVirtualHostHashNode (hosts env) (listens env l) host;
     Some (case found of None \<Rightarrow> p_virtual_host_default (listens env l) | Some h \<Rightarrow> Some h) }"

definition request_received ::
    "'w sys \<Rightarrow> 'z zlib \<Rightarrow> allocator \<Rightarrow> bool \<Rightarrow> hetao_env \<Rightarrow> nat \<Rightarrow> 'w \<Rightarrow> (int \<times> hetao_env \<times> 'w) option" where
  "request_received sys z alloc page env a w = do {
     let host = header_value env a ''Host'';
     vh \<leftarrow> select_host env a host;
     let env = upd_session a (\<lambda>s. s\<lparr>p_virtual_host := vh\<rparr>) env;
     (early, env, w) \<leftarrow> (case vh of
        Some h \<Rightarrow> answer_request sys z alloc page env a h host w
      | None \<Rightarrow> map_option (\<lambda>(nret, env). (if nret \<noteq> 0 then Some 1 else None, env, w))
                  (format_response alloc HTTP_FORBIDDEN True None env a));
     (case early of
        Some nret \<Rightarrow> Some (nret, env, w)
      | None \<Rightarrow>
          let (nret, w) = sys_epoll_ctl sys EPOLL_CTL_MOD (na_sock (netaddr (sessions env a))) EPOLLOUT_ERR w in
          if nret = - 1 then Some (- 1, env, w)
          else do { (env, w) \<leftarrow> touch_timeout sys env a w;
                    (env, w) \<leftarrow> touch_elapse sys env a w;
                    Some (0, env, w) }) }"

definition OnReceivingSocket ::
    "'w sys \<Rightarrow> 'z zlib \<Rightarrow> allocator \<Rightarrow> bool \<Rightarrow> hetao_env \<Rightarrow> nat \<Rightarrow> 'w \<Rightarrow> (int \<times> hetao_env \<times> 'w) option" where
  "OnReceivingSocket sys z alloc page env a w = do {
     let s = sessions env a;
     (nret, e, w) \<leftarrow> ReceiveHttpRequestNonblock (sys_os sys (na_sock (netaddr s)) (ssl s)) z alloc (http_lib_state env)
                       no_hook (http s) w;
     let env = upd_session a (\<lambda>s. s\<lparr>http := e\<rparr>) env;
     if nret = FASTERHTTP_INFO_NEED_MORE_HTTP_BUFFER then
       map_option (\<lambda>(env, w). (0, env, w)) (touch_timeout sys env a w)
     else if nret \<noteq> 0 then Some (1, env, w)
     else request_received sys z alloc page env a w }"

section \<open>Sending\<close>

text \<open>The line of the access log.  The name of the program ends at the first blank or end of line.  After an
  answer that was forwarded the status code is read from the copy of the response.\<close>

definition user_agent :: "hetao_env \<Rightarrow> nat \<Rightarrow> bytes" where
  "user_agent env a =
     (let e = http (sessions env a); l = http_lib_state env in
      case QueryHttpHeaderPtr l e ''User-Agent'' of
        None \<Rightarrow> []
      | Some ((r, p), len) \<Rightarrow>
          let s = cstr (drop p (area (buffer_at l e r))); n = length (takeWhile (\<lambda>c. c \<notin> {SP, CR, LF}) s) in
          if n < length s then take n s else cstr (deref l e (r, p) len))"

definition header_text :: "hetao_env \<Rightarrow> nat \<Rightarrow> msg_ptr option \<times> int \<Rightarrow> bytes" where
  "header_text env a pl =
     (case pl of
        (None, _) \<Rightarrow> []
      | (Some p, len) \<Rightarrow> cstr (deref (http_lib_state env) (http (sessions env a)) p len))"

definition access_line :: "'w sys \<Rightarrow> hetao_env \<Rightarrow> nat \<Rightarrow> 'w \<Rightarrow> bytes" where
  "access_line sys env a w =
     (let e = http (sessions env a) in
      sys_datetime sys w @ '' - '' @ na_ip (netaddr (sessions env a)) @ ''('' @ user_agent env a @ '') - ''
      @ cstr (header_value env a ''Host'') @ '' - '' @ [CHR 0x22]
      @ header_text env a (GetHttpHeaderPtr_METHOD e) @ '' '' @ header_text env a (GetHttpHeaderPtr_URI e) @ '' ''
      @ header_text env a (GetHttpHeaderPtr_VERSION e) @ [CHR 0x22] @ '' ''
      @ header_text env a (GetHttpHeaderPtr_STATUSCODE e) @ [LF])"

text \<open>\<open>snprintf\<close> into an array of 1025 bytes, and \<open>write\<close> of as many bytes as the line has: \<open>None\<close> if that is more than
  the array.  The code leaves out the line only if its length is exactly 1024.\<close>

definition write_line :: "'w sys \<Rightarrow> int \<Rightarrow> bytes \<Rightarrow> 'w \<Rightarrow> 'w option" where
  "write_line sys fd line w =
     (let log_buffer = take 1023 line @ replicate (1025 - length (take 1023 line)) NUL in
      if length line = 1024 then Some w
      else if length line > length log_buffer then None
      else Some (sys_write sys fd (take (length line) log_buffer) w))"

definition write_access_log :: "'w sys \<Rightarrow> hetao_env \<Rightarrow> nat \<Rightarrow> 'w \<Rightarrow> 'w option" where
  "write_access_log sys env a w =
     (case p_virtual_host (sessions env a) of
        None \<Rightarrow> Some w
      | Some h \<Rightarrow> if access_log_fd (hosts env h) = - 1 then Some w
                  else write_line sys (access_log_fd (hosts env h)) (access_line sys env a w) w)"

definition OnSendingSocket ::
    "'w sys \<Rightarrow> 'z zlib \<Rightarrow> allocator \<Rightarrow> hetao_env \<Rightarrow> nat \<Rightarrow> 'w \<Rightarrow> (int \<times> hetao_env \<times> 'w) option" where
  "OnSendingSocket sys z alloc env a w = do {
     let s = sessions env a;
     (nret, e, w) \<leftarrow> SendHttpResponseNonblock (sys_os sys (na_sock (netaddr s)) (ssl s)) z alloc (http_lib_state env)
                       no_hook (http s) w;
     let env = upd_session a (\<lambda>s. s\<lparr>http := e\<rparr>) env;
     if nret = FASTERHTTP_INFO_TCP_SEND_WOULDBLOCK then
       map_option (\<lambda>(env, w). (0, env, w)) (touch_timeout sys env a w)
     else if nret \<noteq> 0 then Some (1, env, w)
     else do {
       w \<leftarrow> write_access_log sys env a w;
       if CheckHttpKeepAlive (http (sessions env a)) then do {
         let env = upd_session a (\<lambda>s. s\<lparr>http := ResetHttpEnv alloc (http s)\<rparr>) env;
         (env, w) \<leftarrow> touch_timeout sys env a w;
         let (nret, w) = sys_epoll_ctl sys EPOLL_CTL_MOD (na_sock (netaddr (sessions env a))) EPOLLIN_ERR w;
         if nret = 1 then Some (- 1, env, w)
         else do { (env, w) \<leftarrow> touch_timeout sys env a w;
                   (env, w) \<leftarrow> touch_elapse sys env a w;
                   Some (0, env, w) } }
       else Some (1, env, w) } }"

end
