(* ===== verification/HetaoPages.thy ===== *)
theory HetaoPages
  imports HetaoSocket
begin

text \<open>
  Theorems on the cache of pages and the sessions that send from it: what the handlers of forwarded requests and
  of the sockets leave alone (\<open>quiet\<close>), what serving a page does (\<open>page_step\<close>), and the invariant \<open>pages_ok\<close>.
\<close>

section \<open>Operations that leave the pages alone\<close>

text \<open>What may happen to the append buffer of a session: it is given up, or sent further.\<close>

definition still_lent :: "http_env \<Rightarrow> http_env \<Rightarrow> bool" where
  "still_lent e e' \<longleftrightarrow> p_append_buffer e' = None \<or> map_option base (p_append_buffer e') = map_option base (p_append_buffer e)"

text \<open>What requests are answered by: the settings of the hosts that do not change while the server runs.\<close>

definition host_settings :: "virtual_host \<Rightarrow> bytes \<times> bytes \<times> bytes \<times> bytes" where
  "host_settings v = (wwwroot v, index_files v, forward_rule v, forward_type v)"

definition same_settings :: "hetao_env \<Rightarrow> hetao_env \<Rightarrow> bool" where
  "same_settings env env' \<longleftrightarrow> (\<forall>h. host_settings (hosts env' h) = host_settings (hosts env h))"

lemma same_settings_hosts [simp]: "hosts env' = hosts env \<Longrightarrow> same_settings env env'"
  by (simp add: same_settings_def)

lemma same_settings_trans: "same_settings env1 env2 \<Longrightarrow> same_settings env2 env3 \<Longrightarrow> same_settings env1 env3"
  by (simp add: same_settings_def)

definition quiet :: "hetao_env \<Rightarrow> hetao_env \<Rightarrow> bool" where
  "quiet env env' \<longleftrightarrow> same_cache env env' \<and> limits__max_file_cache env' = limits__max_file_cache env
     \<and> same_settings env env'
     \<and> (\<forall>b. p_append_buffer (http (sessions env' b)) = None
           \<or> http_buf_base (sessions env' b) = http_buf_base (sessions env b)
             \<and> still_lent (http (sessions env b)) (http (sessions env' b)))"

lemma still_lent_refl [simp]: "still_lent e e" by (simp add: still_lent_def)
lemma still_lent_trans: "still_lent e1 e2 \<Longrightarrow> still_lent e2 e3 \<Longrightarrow> still_lent e1 e3" by (auto simp: still_lent_def)
lemma still_lent_same [simp]: "p_append_buffer e' = p_append_buffer e \<Longrightarrow> still_lent e e'" by (simp add: still_lent_def)
lemma still_lent_none [simp]: "p_append_buffer e' = None \<Longrightarrow> still_lent e e'" by (simp add: still_lent_def)

lemma quiet_refl [simp]: "quiet env env" by (simp add: quiet_def same_cache_def)

lemma quiet_trans [trans]: "quiet env1 env2 \<Longrightarrow> quiet env2 env3 \<Longrightarrow> quiet env1 env3"
  unfolding quiet_def same_cache_def still_lent_def
  by (simp, intro conjI, blast intro: same_settings_trans, metis option.map_disc_iff)

lemma quietI:
  assumes "sessions env' = sessions env" "same_cache env env'" "limits__max_file_cache env' = limits__max_file_cache env"
    and "hosts env' = hosts env"
  shows "quiet env env'"
  using assms by (simp add: quiet_def)

lemma quiet_upd:
  assumes "\<And>s. http_buf_base (f s) = http_buf_base s" "\<And>s. http (f s) = http s"
  shows "quiet env (upd_session a f env)"
  using assms by (auto simp: quiet_def same_cache_def) (simp_all add: upd_session_def)

lemma quiet_http:
  "still_lent (http (sessions env a)) e \<Longrightarrow> quiet env (upd_session a (\<lambda>s. s\<lparr>http := e\<rparr>) env)"
  by (auto simp: quiet_def same_cache_def) (simp_all add: upd_session_def)

lemma quiet_http_upd:
  "(\<And>s. http_buf_base (f s) = http_buf_base s) \<Longrightarrow> (\<And>s. still_lent (http s) (http (f s))) \<Longrightarrow> quiet env (upd_session a f env)"
  by (auto simp: quiet_def same_cache_def) (simp_all add: upd_session_def)

lemma quiet_server [simp]: "quiet env (upd_server f g env)"
  by (auto simp: quiet_def same_cache_def) (simp_all add: upd_server_def)

lemma quiet_host: "(\<And>v. host_settings (f v) = host_settings v) \<Longrightarrow> quiet env (upd_host h f env)"
  by (auto simp: quiet_def same_cache_def same_settings_def upd_host_def)

lemma host_settings_simps [simp]:
  "host_settings (v\<lparr>leastconnection_rbtree := t\<rparr>) = host_settings v"
  "host_settings (v\<lparr>roundrobin_list := fs\<rparr>) = host_settings v"
  "host_settings (v\<lparr>access_log_fd := fd\<rparr>) = host_settings v"
  by (simp_all add: host_settings_def)

lemma quiet_lib [simp]: "quiet env (env\<lparr>http_lib_state := l\<rparr>)"
  by (auto simp: quiet_def same_cache_def)

lemma quiet_take [simp]: "quiet env (take_server a f env)"
  unfolding take_server_def by (rule quiet_trans [OF quiet_server quiet_upd]) simp_all

lemmas quiet_then = quiet_trans [OF _ quiet_upd]

lemma ResetHttpEnv_lends [simp]: "p_append_buffer (ResetHttpEnv alloc e) = None"
  by (simp add: ResetHttpEnv_def Let_def split: prod.splits)

lemma FormatHttpResponseStartLine_lends:
  "FormatHttpResponseStartLine alloc l code e fill format = Some (nret, l', e') \<Longrightarrow> p_append_buffer e' = p_append_buffer e"
  by (auto simp: FormatHttpResponseStartLine_def Let_def simp del: decimal.simps split: option.splits prod.splits if_splits)

lemma format_response_quiet:
  "format_response alloc code fill format env a = Some (nret, env') \<Longrightarrow> quiet env env'"
  by (auto simp: format_response_def dest!: FormatHttpResponseStartLine_lends
      intro!: quiet_trans [OF quiet_lib quiet_http])

lemma SetHttpSessionUnused_02_quiet: "SetHttpSessionUnused_02 sys alloc env a w = Some (env', w') \<Longrightarrow> quiet env env'"
  by (auto simp: SetHttpSessionUnused_02_def Let_def split: prod.splits option.splits intro!: quiet_then)

lemma SetHttpSessionUnused_05_quiet:
  assumes "SetHttpSessionUnused_05 sys alloc env a w = Some (env', w')" shows "quiet env env'"
proof -
  have u: "quiet env (upd_session a (\<lambda>s. s\<lparr>forward_ssl := False, forward_ssl_connected := False\<rparr>) env)"
    by (rule quiet_upd) simp_all
  show ?thesis
    using assms by (auto simp: SetHttpSessionUnused_05_def Let_def bind_eq_Some_conv split: if_splits
        dest!: SetHttpSessionUnused_02_quiet intro!: quiet_then intro: quiet_trans [OF u])
qed

lemma give_up_quiet: "give_up sys alloc code env a w = Some (nret, env', w') \<Longrightarrow> quiet env env'"
  by (auto simp: give_up_def dest: SetHttpSessionUnused_05_quiet)

lemma copy_request_quiet: "copy_request alloc env a = Some (nret, env') \<Longrightarrow> quiet env env'"
  by (auto simp: copy_request_def Let_def intro!: quiet_upd)

lemma OnConnectingSslForward_quiet:
  "OnConnectingSslForward sys alloc env a w = Some (nret, env', w') \<Longrightarrow> quiet env env'"
  by (auto simp: OnConnectingSslForward_def Let_def split: prod.splits handshake.splits option.splits if_splits
      dest!: copy_request_quiet intro: quiet_then)

section \<open>The parser and the transport\<close>

definition flow_lends :: "http_env \<Rightarrow> flow \<Rightarrow> bool" where
  "flow_lends e f = (case f of Return n e' b \<Rightarrow> p_append_buffer e' = p_append_buffer e
                     | Goto e' b p \<Rightarrow> p_append_buffer e' = p_append_buffer e)"

lemma flow_lends_simps [simp]:
  "flow_lends e (Return n e' b) \<longleftrightarrow> p_append_buffer e' = p_append_buffer e"
  "flow_lends e (Goto e' b p) \<longleftrightarrow> p_append_buffer e' = p_append_buffer e"
  by (simp_all add: flow_lends_def)

lemma flow_lends_from: "flow_lends e' f \<Longrightarrow> p_append_buffer e' = p_append_buffer e \<Longrightarrow> flow_lends e f"
  by (simp add: flow_lends_def split: flow.splits)

lemma token_start_lends [simp]: "flow_lends e (token_start upd s r e b p)"
  by (simp add: token_start_def Let_def)

lemma token_body_lends:
  assumes "\<And>e b p. flow_lends e (k e b p)" shows "flow_lends e (token_body get upd k e b p)"
  by (auto simp: token_body_def Let_def intro: flow_lends_from [OF assms])

lemma line_rest_lends:
  assumes "\<And>e b p. flow_lends e (k e b p)" shows "flow_lends e (line_rest get upd k e b p)"
  by (auto simp: line_rest_def Let_def intro: flow_lends_from [OF assms])

lemma goto_step_lends [simp]: "flow_lends e (goto_step s e b p)"
  by (simp add: goto_step_def)

lemma check_version_lends [simp]: "flow_lends e (check_version s e b p)"
  by (simp add: check_version_def goto_step_def Let_def)

lemma upd_cur_header_lends [simp]: "p_append_buffer (upd_cur_header f e) = p_append_buffer e"
  by (simp add: upd_cur_header_def Let_def)

lemma mark_reforming_lends [simp]: "p_append_buffer (mark_reforming e b) = p_append_buffer e"
  by (simp add: mark_reforming_def)

lemma chunk_size_scan_lends: "p_append_buffer (fst (chunk_size_scan m fill e p)) = p_append_buffer e"
  by (induction m fill e p rule: chunk_size_scan.induct) (subst chunk_size_scan.simps, simp)

lemma parse_METHOD_lends [simp]: "flow_lends e (parse_METHOD e b p)"
  unfolding parse_METHOD_def
  by (rule token_body_lends) (auto simp: Let_def goto_step_def split: option.splits)

lemma go_parsing_body_lends [simp]: "flow_lends e (go_parsing_body r e b p)"
  by (simp add: go_parsing_body_def Let_def)

lemma end_of_header_lends [simp]: "flow_lends e (end_of_header alloc r e b p)"
  by (simp add: end_of_header_def Let_def)

lemma parse_header_lends [simp]:
  "flow_lends e (parse_NAME0 r e b p)" "flow_lends e (parse_NAME e b p)" "flow_lends e (parse_VALUE0 e b p)"
  "flow_lends e (parse_VALUE alloc r e b p)" "flow_lends e (parse_BODY e b)"
  by (auto simp: parse_NAME0_def parse_NAME_def parse_VALUE0_def parse_VALUE_def parse_BODY_def Let_def
      intro: flow_lends_from [OF end_of_header_lends])

lemma parse_chunk_lends [simp]:
  "flow_lends e (parse_CHUNKED_SIZE e b p)" "flow_lends e (parse_CHUNKED_DATA e b)"
  using chunk_size_scan_lends [of "area b" "fill_ptr b" e p]
  by (auto simp: parse_CHUNKED_SIZE_def parse_CHUNKED_DATA_def Let_def split: prod.splits)

lemma parse_switch_lends: "flow_lends e (parse_switch alloc r e b p)"
  unfolding parse_switch_def
  by (cases "parse_step e")
    (simp_all add: parse_METHOD0_def parse_URI0_def parse_REQ_VERSION0_def parse_RSP_VERSION0_def parse_STATUSCODE0_def
      parse_REASONPHRASE0_def parse_URI_def parse_REQ_VERSION_def parse_RSP_VERSION_def parse_STATUSCODE_def
      parse_REASONPHRASE_def token_body_lends line_rest_lends)

lemma parse_loop_lends: "parse_loop alloc r e b p = (nret, e', b') \<Longrightarrow> p_append_buffer e' = p_append_buffer e"
proof (induction alloc r e b p rule: parse_loop.induct)
  case (1 alloc r e b p)
  then show ?case
    using parse_switch_lends [of e alloc r b p]
    by (cases "parse_switch alloc r e b p") (simp_all add: parse_loop_return parse_loop_goto)
qed

lemma ParseHttpBuffer_lends: "ParseHttpBuffer alloc l e r = (nret, e') \<Longrightarrow> p_append_buffer e' = p_append_buffer e"
  by (auto simp: ParseHttpBuffer_def Let_def split: if_splits prod.splits dest!: parse_loop_lends)

lemma set_buffer_lends [simp]: "still_lent e (set_buffer r b e)" by simp

lemma UncompressHttpBody_lends:
  "UncompressHttpBody z alloc l e header b = Some (nret, e', b') \<Longrightarrow> p_append_buffer e' = p_append_buffer e"
  by (auto simp: UncompressHttpBody_def UncompressBuffer_def Let_def split: option.splits prod.splits if_splits)

lemma end_receive_lends:
  "end_receive z alloc l no_hook r e = Some (nret, e') \<Longrightarrow> p_append_buffer e' = p_append_buffer e"
  by (auto simp: end_receive_def Let_def then_ok_def no_hook_def split: option.splits if_splits
      dest!: UncompressHttpBody_lends)

lemma receive_some_lends:
  "receive_some room os wait alloc e b w = Some (nret, e', b', w') \<Longrightarrow> p_append_buffer e' = p_append_buffer e"
  by (auto simp: receive_some_def Let_def spend_time_def split: option.splits prod.splits if_splits recv_result.splits)

lemma receive_loop_lends:
  assumes "receive_loop receive wait os z alloc l hook r e w = Some res"
  shows "receive = ReceiveHttpBuffer \<longrightarrow> hook = no_hook \<longrightarrow> p_append_buffer (fst (snd res)) = p_append_buffer e"
proof (rule receive_loop.raw_induct [OF _ assms], intro impI)
  fix rec receive wait os z alloc l hook r e w res
  assume IH: "\<And>receive wait os z alloc l hook r e w res. rec receive wait os z alloc l hook r e w = Some res \<Longrightarrow>
      receive = ReceiveHttpBuffer \<longrightarrow> hook = no_hook \<longrightarrow> p_append_buffer (fst (snd res)) = p_append_buffer e"
    and step: "(case receive os wait alloc e (buffer_at l e r) w of None \<Rightarrow> None
       | Some (nret, e, b, w) \<Rightarrow>
           let e = set_buffer r b e
           in if nret \<noteq> 0 then Some (receive_failed r e nret, e, w)
              else let (nret, e) = ParseHttpBuffer alloc l e r
                   in if nret = FASTERHTTP_INFO_NEED_MORE_HTTP_BUFFER then rec receive wait os z alloc l hook r e w
                      else if nret \<noteq> 0 then Some (nret, e, w)
                           else case end_receive z alloc l hook r e of None \<Rightarrow> None | Some (nret, e) \<Rightarrow> Some (nret, e, w)) =
      Some res"
    and hyps: "receive = ReceiveHttpBuffer" "hook = no_hook"
  obtain n e1 b1 w1 where 1: "ReceiveHttpBuffer os wait alloc e (buffer_at l e r) w = Some (n, e1, b1, w1)"
    using step hyps by (auto split: option.splits)
  have p1: "p_append_buffer e1 = p_append_buffer e" by (rule receive_some_lends [OF 1 [unfolded ReceiveHttpBuffer_def]])
  obtain n2 e2 where 2: "ParseHttpBuffer alloc l (set_buffer r b1 e1) r = (n2, e2)" by fastforce
  have p2: "p_append_buffer e2 = p_append_buffer e" using ParseHttpBuffer_lends [OF 2] p1 by simp
  show "p_append_buffer (fst (snd res)) = p_append_buffer e"
    using step hyps 1 2 p1 p2 IH [of receive wait os z alloc l hook r e2 w1 res]
    by (auto simp: Let_def split: if_splits option.splits dest!: end_receive_lends)
qed

text \<open>Sending moves on in the append buffer.\<close>

lemma SendHttpBuffer_base:
  "SendHttpBuffer os wait e b w = (nret, e', b', w') \<Longrightarrow> base b' = base b \<and> p_append_buffer e' = p_append_buffer e"
  by (auto simp: SendHttpBuffer_def send_some_def Let_def spend_time_def split: prod.splits if_splits send_result.splits)

lemma send_append_lends: "send_append SendHttpBuffer os wait e w = (n, e', w') \<Longrightarrow> still_lent e e'"
  by (auto simp: send_append_def still_lent_def Let_def split: option.splits prod.splits dest!: SendHttpBuffer_base)

lemma send_pass_lends:
  assumes "send_pass SendHttpBuffer os wait l r e w = (n, e', w')" shows "still_lent e e'"
proof -
  obtain m e1 b w1 where 1: "SendHttpBuffer os wait e (buffer_at l e r) w = (m, e1, b, w1)" by (metis prod.exhaust)
  have s: "still_lent e (set_buffer r b e1)" using SendHttpBuffer_base [OF 1] by simp
  show ?thesis
    using assms 1 s still_lent_trans [OF s send_append_lends]
    by (auto simp: send_pass_def Let_def split: if_splits option.splits dest: send_append_lends)
qed

lemma SendHttpResponseNonblock_lends:
  assumes "SendHttpResponseNonblock os z alloc l no_hook e w = Some (nret, e', w')" shows "still_lent e e'"
proof -
  obtain n e1 where 1: "prepare_send z alloc l no_hook ''Accept-Encoding'' ResponseBuffer True e = Some (n, e1)"
    using assms by (auto simp: SendHttpResponseNonblock_def split: option.splits)
  have s: "still_lent e e1"
    using 1 by (auto simp: prepare_send_def then_ok_def no_hook_def Let_def split: option.splits if_splits prod.splits)
  show ?thesis
    using assms 1 s still_lent_trans [OF s send_pass_lends]
    by (fastforce simp: SendHttpResponseNonblock_def send_once_def still_lent_def split: if_splits prod.splits option.splits)
qed

section \<open>The handlers of forwarded requests\<close>

lemma SelectForwardAddress_quiet: "SelectForwardAddress sys env a w = Some (nret, env', w') \<Longrightarrow> quiet env env'"
  by (auto simp: SelectForwardAddress_def Let_def split: option.splits prod.splits if_splits
      intro: quiet_trans [OF quiet_host quiet_take])

lemma UpdateLeastConnectionCountTreeNode_quiet:
  "UpdateLeastConnectionCountTreeNode env h f = Some (nret, env') \<Longrightarrow> quiet env env'"
  by (auto simp: UpdateLeastConnectionCountTreeNode_def RemoveLeastConnectionCountTreeNode_def
      AddLeastConnectionCountTreeNode_def bind_eq_Some_conv intro: quiet_trans [OF quiet_host quiet_host])

lemma forward_connected_quiet:
  assumes "forward_connected sys alloc op failed failed_epoll ok env a w = Some (nret, env', w')"
  shows "quiet env env'"
proof -
  let ?env1 = "upd_session a (\<lambda>s. s\<lparr>forward_flags := 2\<rparr>) env"
  obtain h where h: "p_virtual_host (sessions ?env1 a) = Some h"
    using assms by (auto simp: forward_connected_def Let_def split: option.splits)
  have q1: "quiet env ?env1" by (rule quiet_upd) simp_all
  have "quiet ?env1 env'"
  proof (cases "forward_ssl_ctx (hosts ?env1 h)")
    case True
    obtain created w1 where c: "sys_ssl_new sys w = (created, w1)" by fastforce
    let ?env2 = "upd_session a (\<lambda>s. s\<lparr>forward_ssl := created\<rparr>) ?env1"
    let ?env3 = "upd_session a (\<lambda>s. s\<lparr>forward_ssl_connected := False\<rparr>) ?env2"
    have q2: "quiet ?env1 ?env2" "quiet ?env1 ?env3" by (auto intro!: quiet_then quiet_upd)
    show ?thesis
    proof (cases created)
      case False
      then have "give_up sys alloc failed ?env2 a w1 = Some (nret, env', w')"
        using assms True h c by (simp add: forward_connected_def Let_def)
      then show ?thesis by (rule quiet_trans [OF q2(1) give_up_quiet])
    next
      case created: True
      obtain r env4 w4 where s: "OnConnectingSslForward sys alloc ?env3 a w1 = Some (r, env4, w4)"
        "(if r = - 1 then give_up sys alloc failed env4 a w4 else Some (0, env4, w4)) = Some (nret, env', w')"
        using assms True h c created by (auto simp: forward_connected_def Let_def split: option.splits prod.splits)
      have "quiet ?env1 env4" by (rule quiet_trans [OF q2(2) OnConnectingSslForward_quiet [OF s(1)]])
      moreover have "quiet env4 env'"
        using s(2) give_up_quiet [of sys alloc failed env4 a w4] by (auto split: if_splits)
      ultimately show ?thesis by (rule quiet_trans)
    qed
  next
    case False
    obtain r env2 where c: "copy_request alloc ?env1 a = Some (r, env2)"
      using assms h False by (auto simp: forward_connected_def Let_def split: option.splits)
    have "quiet env2 env'"
      using assms h False c give_up_quiet [of sys alloc _ env2 a]
      by (auto simp: forward_connected_def Let_def split: if_splits prod.splits)
    with copy_request_quiet [OF c] show ?thesis by (rule quiet_trans)
  qed
  with q1 show ?thesis by (rule quiet_trans)
qed

lemma ConnectForwardServer_quiet:
  assumes "ConnectForwardServer sys alloc env a w = Some (nret, env', w')" shows "quiet env env'"
proof -
  obtain sock w1 where s: "sys_socket sys w = (sock, w1)" by fastforce
  let ?env1 = "upd_session a (\<lambda>s. s\<lparr>forward_flags := 0, forward_netaddr := zero_netaddr\<lparr>na_sock := sock\<rparr>\<rparr>) env"
  have q1: "quiet env ?env1" by (rule quiet_upd) simp_all
  show ?thesis
  proof (cases "sock = - 1")
    case True
    then show ?thesis using assms s q1 by (simp add: ConnectForwardServer_def)
  next
    case False
    then obtain f h where fh: "p_forward_server (sessions env a) = Some f" "p_virtual_host (sessions env a) = Some h"
      using assms s by (auto simp: ConnectForwardServer_def Let_def split: option.splits)
    let ?env2 = "upd_server f (\<lambda>s. s\<lparr>connection_count := connection_count s + 1\<rparr>)
      (upd_session a (\<lambda>s. s\<lparr>forward_flags := HTTPSESSION_FLAGS_CONNECTING\<rparr>) ?env1)"
    obtain x env3 where u: "UpdateLeastConnectionCountTreeNode ?env2 h f = Some (x, env3)"
      using assms s False fh by (auto simp: ConnectForwardServer_def Let_def split: option.splits)
    have "quiet ?env1 ?env2" by (rule quiet_trans [OF quiet_upd quiet_server]) simp_all
    then have q3: "quiet env env3"
      using q1 UpdateLeastConnectionCountTreeNode_quiet [OF u] quiet_trans by blast
    obtain err w2 where c: "sys_connect sys sock (fs_netaddr (servers env3 f)) w1 = (err, w2)" by fastforce
    have "quiet env3 env'"
      using assms s False fh u c give_up_quiet forward_connected_quiet
      by (auto simp: ConnectForwardServer_def Let_def split: option.splits if_splits prod.splits)
    with q3 show ?thesis by (rule quiet_trans)
  qed
qed

lemma connect_failed_quiet:
  assumes "connect_failed sys alloc env a w = Some (nret, env', w')" shows "quiet env env'"
proof -
  obtain x w0 where 0: "sys_epoll_ctl sys EPOLL_CTL_DEL (na_sock (forward_netaddr (sessions env a))) NO_EVENTS w = (x, w0)"
    by fastforce
  obtain env1 w1 where 1: "SetHttpSessionUnused_02 sys alloc env a w0 = Some (env1, w1)"
    using assms 0 by (auto simp: connect_failed_def Let_def bind_eq_Some_conv)
  obtain f where f: "p_forward_server (sessions env1 a) = Some f"
    using assms 0 1 by (auto simp: connect_failed_def Let_def bind_eq_Some_conv)
  obtain now w2 where 2: "sys_now sys w1 = (now, w2)" by fastforce
  let ?env2 = "upd_server f (\<lambda>s. s\<lparr>timestamp_to_valid := now + http_options__forward_disable env1\<rparr>) env1"
  obtain r3 env3 w3 where 3: "SelectForwardAddress sys ?env2 a w2 = Some (r3, env3, w3)"
    using assms 0 1 2 f by (auto simp: connect_failed_def Let_def bind_eq_Some_conv)
  have q3: "quiet env env3"
    using quiet_trans [OF quiet_trans [OF SetHttpSessionUnused_02_quiet [OF 1] quiet_server]
        SelectForwardAddress_quiet [OF 3]] .
  obtain r4 env4 w4 where 4: "(if r3 = HTTP_OK then ConnectForwardServer sys alloc env3 a w3 else Some (r3, env3, w3))
      = Some (r4, env4, w4)"
    using assms 0 1 2 3 f by (auto simp: connect_failed_def Let_def bind_eq_Some_conv)
  have "quiet env3 env4" using 4 ConnectForwardServer_quiet by (auto split: if_splits)
  moreover have "quiet env4 env'"
    using assms 0 1 2 3 4 f
    by (auto simp: connect_failed_def Let_def bind_eq_Some_conv split: if_splits prod.splits dest!: format_response_quiet)
  ultimately show ?thesis using q3 quiet_trans by blast
qed

lemma OnConnectingForward_quiet: "OnConnectingForward sys alloc env a w = Some (nret, env', w') \<Longrightarrow> quiet env env'"
  using connect_failed_quiet forward_connected_quiet
  by (auto simp: OnConnectingForward_def Let_def split: prod.splits if_splits)

lemma OnSendingForward_quiet: "OnSendingForward sys z alloc env a w = Some (nret, env', w') \<Longrightarrow> quiet env env'"
  by (auto simp: OnSendingForward_def Let_def split: option.splits prod.splits if_splits intro!: quiet_upd)

lemma OnReceivingForward_quiet:
  assumes "OnReceivingForward sys z alloc env a w = Some (nret, env', w')" shows "quiet env env'"
proof -
  obtain r e w1 where 1: "ReceiveHttpResponseNonblock (sys_os sys (na_sock (forward_netaddr (sessions env a)))
      (forward_ssl (sessions env a))) z alloc (http_lib_state env) no_hook (forward_http (sessions env a)) w = Some (r, e, w1)"
    using assms by (auto simp: OnReceivingForward_def Let_def split: option.splits)
  let ?env1 = "upd_session a (\<lambda>s. s\<lparr>forward_http := e\<rparr>) env"
  have q1: "quiet env ?env1" by (rule quiet_upd) simp_all
  show ?thesis
  proof (cases "r = 0")
    case False
    then show ?thesis
      using assms 1 q1 quiet_trans [OF q1 format_response_quiet]
      by (auto simp: OnReceivingForward_def Let_def bind_eq_Some_conv split: if_splits)
  next
    case True
    let ?env2 = "upd_session a (\<lambda>s. s\<lparr>session_flag := HTTPSESSION_FLAGS_SENDING\<rparr>) ?env1"
    obtain r2 b where 2: "MemcatHttpBuffer alloc (GetHttpResponseBuffer (http (sessions ?env2 a)))
        (content (GetHttpResponseBuffer e)) = Some (r2, b)"
      using assms 1 True by (auto simp: OnReceivingForward_def Let_def bind_eq_Some_conv)
    let ?env3 = "upd_session a (\<lambda>s. s\<lparr>http := (http s)\<lparr>response_buffer := b\<rparr>\<rparr>) ?env2"
    let ?env4 = "upd_session a (\<lambda>s. s\<lparr>http := CopyHttpHeader_STATUSCODE (http s) (forward_http s)\<rparr>) ?env3"
    have q2: "quiet env ?env2" by (rule quiet_then [OF q1]) simp_all
    have q3: "quiet env ?env3" by (rule quiet_trans [OF q2 quiet_http_upd]) simp_all
    have q4: "quiet env ?env4" by (rule quiet_trans [OF q3 quiet_http_upd]) (simp_all add: CopyHttpHeader_STATUSCODE_def)
    show ?thesis
    proof (cases "r2 = 0")
      case False
      then show ?thesis using assms 1 2 True q3 by (simp add: OnReceivingForward_def Let_def)
    next
      case r2: True
      obtain env5 w5 where 5: "SetHttpSessionUnused_02 sys alloc ?env4 a w1 = Some (env5, w5)"
        using assms 1 2 True r2 by (auto simp: OnReceivingForward_def Let_def bind_eq_Some_conv)
      have "env' = env5"
        using assms 1 2 True r2 5 by (auto simp: OnReceivingForward_def Let_def split: prod.splits)
      then show ?thesis using quiet_trans [OF q4 SetHttpSessionUnused_02_quiet [OF 5]] by simp
    qed
  qed
qed

section \<open>The pool\<close>

lemma close_session_quiet:
  assumes "close_session sys alloc env a w = Some (env', w')"
  shows "quiet env env' \<and> p_append_buffer (http (sessions env' a)) = None"
proof -
  obtain x w1 where 1: "sys_epoll_ctl sys EPOLL_CTL_DEL (na_sock (netaddr (sessions env a))) NO_EVENTS w = (x, w1)" by fastforce
  let ?env1 = "upd_session a (\<lambda>s. s\<lparr>session_flag := 0\<rparr>) env"
  let ?env2 = "if ssl (sessions env a) then upd_session a (\<lambda>s. s\<lparr>ssl := False, ssl_accepted := False\<rparr>) ?env1 else ?env1"
  let ?w2 = "if ssl (sessions env a) then sys_ssl_free sys (na_sock (netaddr (sessions env a))) w1 else w1"
  let ?env3 = "upd_session a (\<lambda>s. s\<lparr>http := ResetHttpEnv alloc (http s), p_virtual_host := None\<rparr>) ?env2"
  have q1: "quiet env ?env1" by (rule quiet_upd) simp_all
  have q2: "quiet env ?env2" using q1 by (auto intro: quiet_then)
  have q3: "quiet env ?env3" by (rule quiet_trans [OF q2 quiet_http_upd]) simp_all
  have n: "p_append_buffer (http (sessions ?env3 a)) = None" by simp
  have "(if p_forward_server (sessions ?env3 a) \<noteq> None
         then SetHttpSessionUnused_05 sys alloc ?env3 a (sys_close sys (na_sock (netaddr (sessions env a))) ?w2)
         else Some (?env3, sys_close sys (na_sock (netaddr (sessions env a))) ?w2)) = Some (env', w')"
    using assms 1 by (simp add: close_session_def Let_def split: if_splits)
  then have "quiet ?env3 env'" by (auto split: if_splits dest: SetHttpSessionUnused_05_quiet)
  then show ?thesis using quiet_trans [OF q3] n by (auto simp: quiet_def still_lent_def)
qed

lemma SetHttpSessionUnused_quiet:
  assumes "SetHttpSessionUnused sys alloc env a w = Some (env', w')"
  shows "quiet env env' \<and> p_append_buffer (http (sessions env' a)) = None"
proof -
  obtain env1 w1 where 1: "close_session sys alloc env a w = Some (env1, w1)"
    using assms by (auto simp: SetHttpSessionUnused_def bind_eq_Some_conv)
  have s: "sessions env' = sessions env1 \<and> same_cache env1 env' \<and> limits__max_file_cache env' = limits__max_file_cache env1
      \<and> hosts env' = hosts env1"
    using assms 1 by (auto simp: SetHttpSessionUnused_def Let_def bind_eq_Some_conv RemoveHttpSessionTimeoutTreeNode_def
        RemoveHttpSessionElapseTreeNode_def same_cache_def split: if_splits)
  then have "quiet env1 env'" by (blast intro: quietI)
  then show ?thesis using close_session_quiet [OF 1] s quiet_trans by auto
qed

lemma SetHttpTimeout_lends [simp]: "p_append_buffer (SetHttpTimeout e n) = p_append_buffer e"
  by (simp add: SetHttpTimeout_def ResetHttpTimeout_def)

lemma CreateHttpEnv_lends: "CreateHttpEnv node alloc l = (Some e, l') \<Longrightarrow> p_append_buffer e = None"
  by (auto simp: CreateHttpEnv_def Let_def zero_env_def split: if_splits prod.splits)

lemma create_sessions_quiet: "create_sessions mem alloc i n env = (nret, env') \<Longrightarrow> quiet env env'"
proof (induction n arbitrary: i env)
  case (Suc n)
  obtain h l where 1: "CreateHttpEnv (mem i) alloc (http_lib_state env) = (h, l)" by fastforce
  show ?case
  proof (cases "h = None \<or> AllocHttpBuffer2 (mem (i + 1)) 0 [] = None")
    case True
    then show ?thesis using Suc.prems 1 by (auto split: option.splits)
  next
    case False
    then obtain h' b where hb: "h = Some h'" "AllocHttpBuffer2 (mem (i + 1)) 0 [] = Some b" by auto
    obtain f l2 where 2: "CreateHttpEnv (mem (i + 2)) alloc l = (f, l2)" by fastforce
    show ?thesis
    proof (cases f)
      case None
      then show ?thesis using Suc.prems 1 2 hb by (auto split: option.splits)
    next
      case (Some f')
      let ?s = "zero_session (SetHttpTimeout h' (- 1)) (b\<lparr>base := None\<rparr>) (SetHttpTimeout f' (- 1))"
      let ?env1 = "env\<lparr>http_lib_state := l2, sessions := (sessions env)(next_session env := ?s),
        next_session := next_session env + 1, http_session_unused_list := http_session_unused_list env @ [next_session env]\<rparr>"
      have "p_append_buffer h' = None" using CreateHttpEnv_lends 1 hb(1) by blast
      then have "quiet env ?env1"
        by (simp add: quiet_def same_cache_def zero_session_def)
      moreover have "create_sessions mem alloc (i + 3) n ?env1 = (nret, env')"
        using Suc.prems 1 2 hb Some by (simp add: Let_def)
      ultimately show ?thesis using Suc.IH quiet_trans by blast
    qed
  qed
qed simp

lemma fetch_first_quiet:
  assumes "fetch_first sys env w = Some (r, env', w')" shows "quiet env env'"
proof -
  have r: "quiet env (env\<lparr>http_session_unused_list := l\<rparr>)" for l by (rule quietI) (simp_all add: same_cache_def)
  have t: "quiet x y" if "AddHttpSessionTimeoutTreeNode x a = Some (n, y)" for x y a n
    using that by (auto simp: AddHttpSessionTimeoutTreeNode_def same_cache_def intro!: quietI)
  have e: "quiet x y" if "AddHttpSessionElapseTreeNode x a = Some (n, y)" for x y a n
    using that by (auto simp: AddHttpSessionElapseTreeNode_def same_cache_def intro!: quietI)
  have c: "quiet x (x\<lparr>http_session_used_count := u, http_session_unused_count := v\<rparr>)" for x u v
    by (rule quietI) (simp_all add: same_cache_def)
  obtain a rest where l: "http_session_unused_list env = a # rest"
    using assms by (auto simp: fetch_first_def split: list.splits)
  obtain now w1 where n1: "sys_now sys w = (now, w1)" by fastforce
  let ?env1 = "upd_session a (\<lambda>s. s\<lparr>timeout_timestamp := c_int (c_int now + http_options__timeout env)\<rparr>)
    (env\<lparr>http_session_unused_list := rest\<rparr>)"
  have q1: "quiet env ?env1" by (rule quiet_then [OF r]) simp_all
  obtain x env2 where 2: "AddHttpSessionTimeoutTreeNode ?env1 a = Some (x, env2)"
    using assms l n1 by (auto simp: fetch_first_def Let_def bind_eq_Some_conv)
  obtain now2 w2 where n2: "sys_now sys w1 = (now2, w2)" by fastforce
  let ?env3 = "upd_session a (\<lambda>s. s\<lparr>elapse_timestamp := c_int (c_int now2 + http_options__elapse env2)\<rparr>) env2"
  have q3: "quiet env ?env3" by (rule quiet_then [OF quiet_trans [OF q1 t [OF 2]]]) simp_all
  obtain y env4 where 4: "AddHttpSessionElapseTreeNode ?env3 a = Some (y, env4)"
    using assms l n1 2 n2 by (auto simp: fetch_first_def Let_def bind_eq_Some_conv)
  have "env' = env4\<lparr>http_session_used_count := http_session_used_count env4 + 1,
    http_session_unused_count := http_session_unused_count env4 - 1\<rparr>"
    using assms l n1 2 n2 4 by (auto simp: fetch_first_def Let_def bind_eq_Some_conv)
  then show ?thesis using quiet_trans [OF quiet_trans [OF q3 e [OF 4]] c] by simp
qed

lemma IncreaseHttpSessions_quiet:
  assumes "IncreaseHttpSessions mem alloc env c = (n, env')" shows "quiet env env'"
proof -
  obtain n1 env1 where s: "create_sessions mem alloc 2 (nat (if http_session_used_count env + c > limits__max_http_session_count env
    then limits__max_http_session_count env - http_session_used_count env else c)) env = (n1, env1)" by fastforce
  have "quiet env1 (env1\<lparr>http_session_unused_count := v\<rparr>)" for v by (rule quietI) (simp_all add: same_cache_def)
  then show ?thesis
    using assms s create_sessions_quiet [OF s] by (auto simp: IncreaseHttpSessions_def Let_def split: if_splits intro: quiet_trans)
qed

lemma FetchHttpSessionUnused_quiet:
  assumes "FetchHttpSessionUnused sys node mem alloc env i w = Some (r, env', w')" shows "quiet env env'"
proof -
  have ip: "quiet env (env\<lparr>iplimits_hash := t\<rparr>)" for t by (rule quietI) (simp_all add: same_cache_def)
  obtain n t where 1: "(if limits__max_connections_per_ip env \<noteq> - 1
    then IncreaseIpLimitsHashNode (limits__max_connections_per_ip env) node (iplimits_hash env) i
    else (0, iplimits_hash env)) = (n, t)" by fastforce
  let ?env1 = "env\<lparr>iplimits_hash := t\<rparr>"
  obtain n2 env2 where 2: "(if http_session_unused_count ?env1 = 0
    then IncreaseHttpSessions mem alloc ?env1 INCRE_HTTP_SESSION_COUNT else (0, ?env1)) = (n2, env2)" by fastforce
  have q2: "quiet env env2" using 2 IncreaseHttpSessions_quiet [of mem alloc ?env1] ip [of t] quiet_trans [OF ip [of t]] by (cases "http_session_unused_count ?env1 = 0") auto
  show ?thesis
    using assms 1 2 q2 ip quiet_trans [OF q2 fetch_first_quiet]
    by (auto simp: FetchHttpSessionUnused_def Let_def split: if_splits)
qed

lemma touch_timeout_quiet:
  assumes "touch_timeout sys env a w = Some (env', w')" shows "quiet env env'"
proof -
  obtain t1 t2 v where "env' = (upd_session a (\<lambda>s. s\<lparr>timeout_timestamp := v\<rparr>)
     (env\<lparr>http_session_timeout_rbtree_used := t1\<rparr>))\<lparr>http_session_timeout_rbtree_used := t2\<rparr>"
    using assms by (fastforce simp: touch_timeout_def UpdateHttpSessionTimeoutTreeNode_def
        RemoveHttpSessionTimeoutTreeNode_def AddHttpSessionTimeoutTreeNode_def bind_eq_Some_conv split: prod.splits)
  moreover have t: "quiet x (x\<lparr>http_session_timeout_rbtree_used := t\<rparr>)" for x t
    by (rule quietI) (simp_all add: same_cache_def)
  ultimately show ?thesis using quiet_trans [OF quiet_then [OF t] t] by auto
qed

lemma touch_elapse_quiet:
  assumes "touch_elapse sys env a w = Some (env', w')" shows "quiet env env'"
proof -
  obtain t1 t2 v where "env' = (upd_session a (\<lambda>s. s\<lparr>elapse_timestamp := v\<rparr>)
     (env\<lparr>http_session_elapse_rbtree_used := t1\<rparr>))\<lparr>http_session_elapse_rbtree_used := t2\<rparr>"
    using assms by (fastforce simp: touch_elapse_def UpdateHttpSessionElapseTreeNode_def
        RemoveHttpSessionElapseTreeNode_def AddHttpSessionElapseTreeNode_def bind_eq_Some_conv split: prod.splits)
  moreover have t: "quiet x (x\<lparr>http_session_elapse_rbtree_used := t\<rparr>)" for x t
    by (rule quietI) (simp_all add: same_cache_def)
  ultimately show ?thesis using quiet_trans [OF quiet_then [OF t] t] by auto
qed

section \<open>The sockets of the clients\<close>

lemma OnAcceptingSslSocket_quiet: "OnAcceptingSslSocket sys env a w = (nret, env', w') \<Longrightarrow> quiet env env'"
  by (auto simp: OnAcceptingSslSocket_def Let_def split: prod.splits handshake.splits if_splits intro!: quiet_upd)

lemma OnSendingSocket_quiet:
  assumes "OnSendingSocket sys z alloc env a w = Some (nret, env', w')" shows "quiet env env'"
proof -
  obtain n e w1 where 1: "SendHttpResponseNonblock (sys_os sys (na_sock (netaddr (sessions env a))) (ssl (sessions env a)))
      z alloc (http_lib_state env) no_hook (http (sessions env a)) w = Some (n, e, w1)"
    using assms by (auto simp: OnSendingSocket_def Let_def bind_eq_Some_conv)
  let ?env1 = "upd_session a (\<lambda>s. s\<lparr>http := e\<rparr>) env"
  have q1: "quiet env ?env1" by (rule quiet_http [OF SendHttpResponseNonblock_lends [OF 1]])
  show ?thesis
  proof (cases "n = 0")
    case False
    then show ?thesis
      using assms 1 q1 quiet_trans [OF q1 touch_timeout_quiet]
      by (auto simp: OnSendingSocket_def Let_def bind_eq_Some_conv split: if_splits)
  next
    case True
    obtain w2 where 2: "write_access_log sys ?env1 a w1 = Some w2"
      using assms 1 True by (auto simp: OnSendingSocket_def Let_def bind_eq_Some_conv)
    show ?thesis
    proof (cases "CheckHttpKeepAlive (http (sessions ?env1 a))")
      case False
      then show ?thesis using assms 1 2 True q1 by (simp add: OnSendingSocket_def Let_def)
    next
      case keep: True
      let ?env2 = "upd_session a (\<lambda>s. s\<lparr>http := ResetHttpEnv alloc (http s)\<rparr>) ?env1"
      have q2: "quiet env ?env2" by (rule quiet_trans [OF q1 quiet_http_upd]) simp_all
      obtain env3 w3 where 3: "touch_timeout sys ?env2 a w2 = Some (env3, w3)"
        using assms 1 2 True keep by (auto simp: OnSendingSocket_def Let_def bind_eq_Some_conv)
      have q3: "quiet env env3" by (rule quiet_trans [OF q2 touch_timeout_quiet [OF 3]])
      show ?thesis
        using assms 1 2 True keep 3 q3
        by (auto simp: OnSendingSocket_def Let_def bind_eq_Some_conv split: prod.splits if_splits
            dest!: touch_timeout_quiet touch_elapse_quiet elim!: quiet_trans)
    qed
  qed
qed

lemma open_session_quiet:
  assumes "open_session sys node mem alloc env l sock i port w = Some (r, env', w')" shows "quiet env env'"
proof -
  obtain f env1 w1 where 1: "FetchHttpSessionUnused sys node mem alloc env i w = Some (f, env1, w1)"
    using assms by (auto simp: open_session_def bind_eq_Some_conv)
  note q1 = FetchHttpSessionUnused_quiet [OF 1]
  have dr: "quiet x env'" if "map_option (\<lambda>(c, r). (Some c, r)) (drop_session sys alloc c x a v) = Some (r, env', w')" for x a v c
    using that by (auto simp: drop_session_def dest!: SetHttpSessionUnused_quiet)
  show ?thesis
  proof (cases f)
    case None
    then show ?thesis using assms 1 q1 by (simp add: open_session_def)
  next
    case (Some a)
    let ?env2 = "upd_session a (\<lambda>s. s\<lparr>p_listen_session := Some l,
       netaddr := (netaddr s)\<lparr>na_sock := sock, na_addr := i, na_ip := printed_address port\<rparr>\<rparr>) env1"
    have q2: "quiet env ?env2" by (rule quiet_then [OF q1]) simp_all
    obtain n w2 where 2: "sys_epoll_ctl sys EPOLL_CTL_ADD sock EPOLLIN_ERR w1 = (n, w2)" by fastforce
    obtain created w3 where 3: "sys_ssl_new sys w2 = (created, w3)" by fastforce
    let ?env3 = "upd_session a (\<lambda>s. s\<lparr>ssl := created\<rparr>) ?env2"
    let ?env4 = "upd_session a (\<lambda>s. s\<lparr>ssl_accepted := False\<rparr>) ?env3"
    have q3: "quiet env ?env3" by (rule quiet_then [OF q2]) simp_all
    have q4: "quiet env ?env4" by (rule quiet_then [OF q3]) simp_all
    obtain n5 env5 w5 where 5: "OnAcceptingSslSocket sys ?env4 a w3 = (n5, env5, w5)" by (rule prod_cases3)
    have q5: "quiet env env5" by (rule quiet_trans [OF q4 OnAcceptingSslSocket_quiet [OF 5]])
    consider "n = - 1" | "n \<noteq> - 1" "\<not> ls_ssl_ctx (listens env1 l)" | "n \<noteq> - 1" "ls_ssl_ctx (listens env1 l)" "\<not> created"
      | "n \<noteq> - 1" "ls_ssl_ctx (listens env1 l)" "created" by blast
    then show ?thesis
    proof cases
      case 1
      then have "map_option (\<lambda>(c, r). (Some c, r)) (drop_session sys alloc (- 1) ?env2 a w2) = Some (r, env', w')"
        using assms Some \<open>FetchHttpSessionUnused sys node mem alloc env i w = Some (f, env1, w1)\<close> 2
        by (simp add: open_session_def)
      then show ?thesis by (rule quiet_trans [OF q2 dr])
    next
      case c2: 2
      have "listens ?env2 l = listens env1 l" by (simp add: upd_session_def)
      then have "env' = ?env2" using assms Some 1 2 c2 by (simp add: open_session_def)
      then show ?thesis using q2 by simp
    next
      case c3: 3
      have "listens ?env2 l = listens env1 l" by (simp add: upd_session_def)
      then have "map_option (\<lambda>(c, r). (Some c, r)) (drop_session sys alloc 1 ?env3 a w3) = Some (r, env', w')"
        using assms Some 1 2 3 c3 by (simp add: open_session_def)
      then show ?thesis by (rule quiet_trans [OF q3 dr])
    next
      case c4: 4
      have "listens ?env2 l = listens env1 l" by (simp add: upd_session_def)
      then have "(if n5 \<noteq> 0 then map_option (\<lambda>(c, r). (Some c, r)) (drop_session sys alloc 0 env5 a w5)
          else Some (Some 0, env5, w5)) = Some (r, env', w')"
        using assms Some 1 2 3 5 c4 by (simp add: open_session_def)
      then show ?thesis using q5 quiet_trans [OF q5 dr] by (auto split: if_splits)
    qed
  qed
qed

lemma accept_loop_quiet: "accept_loop sys node mem alloc n env l w = Some (nret, env', w') \<Longrightarrow> quiet env env'"
proof (induction n arbitrary: env w)
  case (Suc n)
  obtain r w1 where 1: "sys_accept sys (na_sock (ls_netaddr (listens env l))) w = (r, w1)" by fastforce
  show ?case
  proof (cases r)
    case (Accepted sock i port)
    obtain c env2 w2 where 2: "open_session sys node mem alloc env l sock i port w1 = Some (c, env2, w2)"
      using Suc.prems 1 Accepted by (auto split: option.splits)
    note q = open_session_quiet [OF 2]
    show ?thesis using Suc.prems 1 Accepted 2 q quiet_trans [OF q Suc.IH] by (auto split: option.splits)
  next
    case (Accept_failed e)
    then show ?thesis using Suc.prems 1 by simp
  qed
qed simp

end
