(* ===== verification/HetaoWorker.thy ===== *)
theory HetaoWorker
  imports HetaoSocket
begin

text \<open>
  The loop of a worker (\<open>WorkerThread.c\<close>): waiting for events, the sweep over expired sessions, and the
  handlers of listeners, sessions, the cache of pages and the pipe of the monitor.  The loop itself may run for
  ever, so it is a partial function.
\<close>

section \<open>Events\<close>

datatype data_session = Listener nat | Client nat | Page_cache | Monitor_pipe

record event =
  event_data :: data_session
  epollin :: bool
  epollout :: bool
  epollrdhup :: bool
  epollerr :: bool

datatype pipe_read = Pipe_closed | Pipe_byte char | Pipe_failed

text \<open>What the loop uses of the operating system besides \<open>'w sys\<close>.\<close>

record 'w worker_os =
  os_sys :: "'w sys"
  os_inotify_init :: "'w \<Rightarrow> int \<times> 'w"
  os_epoll_wait :: "'w \<Rightarrow> event list option \<times> 'w"  \<comment> \<open>\<open>None\<close>: it fails\<close>
  os_second_elapse :: "'w \<Rightarrow> bool \<times> 'w"  \<comment> \<open>\<open>g_second_elapse\<close>, which the timer thread sets\<close>
  os_second_clear :: "'w \<Rightarrow> 'w"
  os_epoll_add_other :: "nat \<Rightarrow> int \<Rightarrow> 'w \<Rightarrow> int \<times> 'w"  \<comment> \<open>at the epoll of another process\<close>
  os_read_pipe :: "'w \<Rightarrow> pipe_read \<times> 'w"
  os_open_log :: "bytes \<Rightarrow> 'w \<Rightarrow> int \<times> 'w"

record worker =
  wk_env :: hetao_env
  listen_session_list :: "nat list"
  accept_mutex :: int
  worker_processes :: nat
  this_process :: nat
  used_counts :: "nat \<Rightarrow> int"  \<comment> \<open>\<open>http_session_used_count\<close> of all processes, in shared memory\<close>
  pipe_fd :: int
  htmlcache_inotify_fd :: int
  muted :: "nat list"  \<comment> \<open>listeners whose type has been cleared\<close>
  g_worker_exit_flag :: bool

abbreviation (input) SIGNAL_REOPEN_LOG :: char where "SIGNAL_REOPEN_LOG \<equiv> CHR ''L''"

section \<open>Events of a session\<close>

text \<open>What the loop does with the result of a handler: a positive one closes the session, a negative one ends
  the worker (first result).\<close>

definition after_handler ::
    "'w sys \<Rightarrow> allocator \<Rightarrow> nat \<Rightarrow> (int \<times> hetao_env \<times> 'w) option \<Rightarrow> (bool \<times> hetao_env \<times> 'w) option" where
  "after_handler sys alloc a result = do {
     (nret, env, w) \<leftarrow> result;
     if nret > 0 then map_option (\<lambda>(env, w). (False, env, w)) (SetHttpSessionUnused sys alloc env a w)
     else Some (nret < 0, env, w) }"

text \<open>The handler of a session that can be read from, and written to.\<close>

definition readable_session ::
    "'w sys \<Rightarrow> 'z zlib \<Rightarrow> allocator \<Rightarrow> bool \<Rightarrow> hetao_env \<Rightarrow> nat \<Rightarrow> 'w \<Rightarrow> (int \<times> hetao_env \<times> 'w) option" where
  "readable_session sys z alloc page env a w =
     (let s = sessions env a in
      if ssl s \<and> \<not> ssl_accepted s then Some (OnAcceptingSslSocket sys env a w)
      else if forward_ssl s \<and> \<not> forward_ssl_connected s then OnConnectingSslForward sys alloc env a w
      else if forward_flags s = 0 then OnReceivingSocket sys z alloc page env a w
      else OnReceivingForward sys z alloc env a w)"

definition writable_session ::
    "'w sys \<Rightarrow> 'z zlib \<Rightarrow> allocator \<Rightarrow> hetao_env \<Rightarrow> nat \<Rightarrow> 'w \<Rightarrow> (int \<times> hetao_env \<times> 'w) option" where
  "writable_session sys z alloc env a w =
     (let s = sessions env a in
      if ssl s \<and> \<not> ssl_accepted s then Some (OnAcceptingSslSocket sys env a w)
      else if forward_ssl s \<and> \<not> forward_ssl_connected s then OnConnectingSslForward sys alloc env a w
      else if forward_flags s = 0 then OnSendingSocket sys z alloc env a w
      else if forward_flags s = HTTPSESSION_FLAGS_CONNECTED then OnSendingForward sys z alloc env a w
      else if forward_flags s = HTTPSESSION_FLAGS_CONNECTING then OnConnectingForward sys alloc env a w
      else Some (0, env, w))"

definition session_event ::
    "'w sys \<Rightarrow> 'z zlib \<Rightarrow> allocator \<Rightarrow> bool \<Rightarrow> event \<Rightarrow> hetao_env \<Rightarrow> nat \<Rightarrow> 'w \<Rightarrow> (bool \<times> hetao_env \<times> 'w) option" where
  "session_event sys z alloc page ev env a w =
     (if epollin ev then after_handler sys alloc a (readable_session sys z alloc page env a w)
      else if epollout ev then after_handler sys alloc a (writable_session sys z alloc env a w)
      else if epollrdhup ev then
        (if forward_flags (sessions env a) \<noteq> 0 then after_handler sys alloc a (Some (1, env, w))
         else Some (False, env, w))
      else if epollerr ev then
        (if forward_flags (sessions env a) = 0 then after_handler sys alloc a (Some (1, env, w))
         else if forward_flags (sessions env a) = HTTPSESSION_FLAGS_CONNECTING
         then after_handler sys alloc a (OnConnectingForward sys alloc env a w)
         else Some (False, env, w))
      else after_handler sys alloc a (Some (1, env, w)))"

section \<open>Events of a listener\<close>

text \<open>The process with the least sessions, looked for from the one behind this process.\<close>

fun least_busy :: "(nat \<Rightarrow> int) \<Rightarrow> nat list \<Rightarrow> nat \<Rightarrow> nat" where
  "least_busy count [] best = best"
| "least_busy count (p # ps) best = least_busy count ps (if count p < count best then p else best)"

definition next_accepter :: "worker \<Rightarrow> nat" where
  "next_accepter wk =
     least_busy (used_counts wk) [0..<worker_processes wk]
       (if this_process wk + 1 > worker_processes wk - 1 then 0 else this_process wk + 1)"

fun hand_over :: "'w worker_os \<Rightarrow> hetao_env \<Rightarrow> nat \<Rightarrow> nat list \<Rightarrow> 'w \<Rightarrow> bool \<times> 'w" where
  "hand_over os env p [] w = (False, w)"
| "hand_over os env p (l # ls) w =
     (let sock = na_sock (ls_netaddr (listens env l));
          (nret, w) = sys_epoll_ctl (os_sys os) EPOLL_CTL_DEL sock NO_EVENTS w in
      if nret = - 1 then (True, w)
      else
        let (nret, w) = os_epoll_add_other os p sock w in
        if nret = - 1 then (True, w) else hand_over os env p ls w)"

definition listen_event ::
    "'w worker_os \<Rightarrow> bool \<Rightarrow> (nat \<Rightarrow> bool) \<Rightarrow> allocator \<Rightarrow> event \<Rightarrow> worker \<Rightarrow> nat \<Rightarrow> 'w \<Rightarrow> (bool \<times> worker \<times> 'w) option" where
  "listen_event os node mem alloc ev wk l w =
     (if \<not> epollin ev then Some (True, wk, w)
      else do {
        (nret, env, w) \<leftarrow> OnAcceptingSocket (os_sys os) node mem alloc (wk_env wk) l w;
        let wk = wk\<lparr>wk_env := env\<rparr>;
        if nret < 0 then Some (True, wk, w)
        else if accept_mutex wk = 1 \<and> worker_processes wk > 1 \<and> next_accepter wk \<noteq> this_process wk then
          let (stop, w) = hand_over os env (next_accepter wk) (listen_session_list wk) w in Some (stop, wk, w)
        else Some (False, wk, w) })"

section \<open>Events of the pipe\<close>

fun close_listeners :: "'w sys \<Rightarrow> nat list \<Rightarrow> hetao_env \<Rightarrow> 'w \<Rightarrow> hetao_env \<times> 'w" where
  "close_listeners sys [] env w = (env, w)"
| "close_listeners sys (l # ls) env w =
     (let sock = na_sock (ls_netaddr (listens env l));
          (_, w) = sys_epoll_ctl sys EPOLL_CTL_DEL sock NO_EVENTS w in
      close_listeners sys ls (env\<lparr>listens := (listens env)(l := (listens env l)\<lparr>ls_ssl_ctx := False\<rparr>)\<rparr>)
        (sys_close sys sock w))"

text \<open>The logs of the hosts of a listener are opened again; first result: this failed.\<close>

fun reopen_hosts :: "'w worker_os \<Rightarrow> nat list \<Rightarrow> hetao_env \<Rightarrow> 'w \<Rightarrow> bool \<times> hetao_env \<times> 'w" where
  "reopen_hosts os [] env w = (False, env, w)"
| "reopen_hosts os (h # hs) env w =
     (if access_log_fd (hosts env h) = - 1 then reopen_hosts os hs env w
      else
        let w = sys_close (os_sys os) (access_log_fd (hosts env h)) w;
            (fd, w) = os_open_log os (access_log (hosts env h)) w;
            env = upd_host h (\<lambda>v. v\<lparr>access_log_fd := fd\<rparr>) env in
        if fd = - 1 then (True, env, w) else reopen_hosts os hs env w)"

text \<open>The loop over the listeners uses the counter \<open>i\<close> of the loop over the events for the chains of hosts.\<close>

fun reopen_logs :: "'w worker_os \<Rightarrow> nat list \<Rightarrow> int \<Rightarrow> hetao_env \<Rightarrow> 'w \<Rightarrow> bool \<times> int \<times> hetao_env \<times> 'w" where
  "reopen_logs os [] i env w = (False, i, env, w)"
| "reopen_logs os (l # ls) i env w =
     (let chains = virtual_host_hash (listens env l); (failed, env, w) = reopen_hosts os (concat chains) env w in
      if failed then (True, i, env, w) else reopen_logs os ls (int (length chains)) env w)"

text \<open>The events behind the present one are \<open>rest\<close>.\<close>

definition pipe_event ::
    "'w worker_os \<Rightarrow> event list \<Rightarrow> int \<Rightarrow> worker \<Rightarrow> 'w \<Rightarrow> bool \<times> int \<times> worker \<times> 'w" where
  "pipe_event os rest i wk w =
     (case os_read_pipe os w of
        (Pipe_closed, w) \<Rightarrow>
          let (env, w) = close_listeners (os_sys os) (listen_session_list wk) (wk_env wk) w;
              (_, w) = sys_epoll_ctl (os_sys os) EPOLL_CTL_DEL (pipe_fd wk) NO_EVENTS w in
          (False, i, wk\<lparr>wk_env := env, muted := muted wk @ [l. Listener l \<leftarrow> map event_data rest],
                       g_worker_exit_flag := True\<rparr>, sys_close (os_sys os) (pipe_fd wk) w)
      | (Pipe_byte c, w) \<Rightarrow>
          if c = SIGNAL_REOPEN_LOG then
            let (failed, i, env, w) = reopen_logs os (listen_session_list wk) i (wk_env wk) w in
            (failed, i, wk\<lparr>wk_env := env\<rparr>, w)
          else (False, i, wk, w)
      | (Pipe_failed, w) \<Rightarrow> (True, i, wk, w))"

section \<open>The loops\<close>

text \<open>One event: whether the worker ends, and the counter of the loop.\<close>

definition handle_event ::
    "'w worker_os \<Rightarrow> 'z zlib \<Rightarrow> bool \<Rightarrow> (nat \<Rightarrow> bool) \<Rightarrow> allocator \<Rightarrow> event \<Rightarrow> event list \<Rightarrow> int \<Rightarrow> worker \<Rightarrow> 'w
       \<Rightarrow> (bool \<times> int \<times> worker \<times> 'w) option" where
  "handle_event os z node mem alloc ev rest i wk w =
     (case event_data ev of
        Listener l \<Rightarrow>
          if l \<in> set (muted wk) then Some (False, i, wk, w)
          else map_option (\<lambda>(stop, wk, w). (stop, i, wk, w)) (listen_event os node mem alloc ev wk l w)
      | Client a \<Rightarrow>
          map_option (\<lambda>(stop, env, w). (stop, i, wk\<lparr>wk_env := env\<rparr>, w))
            (session_event (os_sys os) z alloc node ev (wk_env wk) a w)
      | Page_cache \<Rightarrow>
          map_option (\<lambda>(nret, env, w). (nret \<noteq> 0, i, wk\<lparr>wk_env := env\<rparr>, w))
            (HtmlCacheEventHander (os_sys os) alloc (wk_env wk) w)
      | Monitor_pipe \<Rightarrow> Some (pipe_event os rest i wk w))"

text \<open>The loop over the events: \<open>i\<close> is its counter, \<open>nfds\<close> the number of events, and the list what the pointer has
  not passed.  Behind the events the array is cleared, and its null pointers are followed.\<close>

fun event_loop ::
    "'w worker_os \<Rightarrow> 'z zlib \<Rightarrow> bool \<Rightarrow> (nat \<Rightarrow> bool) \<Rightarrow> allocator \<Rightarrow> int \<Rightarrow> int \<Rightarrow> event list \<Rightarrow> worker \<Rightarrow> 'w
       \<Rightarrow> (bool \<times> worker \<times> 'w) option" where
  "event_loop os z node mem alloc nfds i [] wk w = (if i < nfds then None else Some (False, wk, w))"
| "event_loop os z node mem alloc nfds i (ev # rest) wk w =
     (if \<not> i < nfds then Some (False, wk, w)
      else
        (case handle_event os z node mem alloc ev rest i wk w of
           None \<Rightarrow> None
         | Some (stop, i, wk, w) \<Rightarrow>
             if stop then Some (True, wk, w) else event_loop os z node mem alloc nfds (i + 1) rest wk w))"

text \<open>One round of the main loop.\<close>

definition worker_round ::
    "'w worker_os \<Rightarrow> 'z zlib \<Rightarrow> bool \<Rightarrow> (nat \<Rightarrow> bool) \<Rightarrow> allocator \<Rightarrow> worker \<Rightarrow> 'w \<Rightarrow> (bool \<times> worker \<times> 'w) option" where
  "worker_round os z node mem alloc wk w =
     (case os_epoll_wait os w of
        (None, w) \<Rightarrow> Some (True, wk, w)
      | (Some events, w) \<Rightarrow> do {
          let (elapsed, w) = os_second_elapse os w;
          (env, w) \<leftarrow> (if elapsed
             then map_option (\<lambda>(env, w). (env, os_second_clear os w)) (second_sweep (os_sys os) alloc (wk_env wk) w)
             else Some (wk_env wk, w));
          (stop, wk, w) \<leftarrow> event_loop os z node mem alloc (int (length events)) 0 events (wk\<lparr>wk_env := env\<rparr>) w;
          Some (stop, if stop then wk
                      else wk\<lparr>used_counts := (used_counts wk)(this_process wk := http_session_used_count (wk_env wk))\<rparr>, w) })"

partial_function (option) worker_loop ::
    "'w worker_os \<Rightarrow> 'z zlib \<Rightarrow> bool \<Rightarrow> (nat \<Rightarrow> bool) \<Rightarrow> allocator \<Rightarrow> worker \<Rightarrow> 'w \<Rightarrow> (worker \<times> 'w) option" where
  "worker_loop os z node mem alloc wk w =
     (if g_worker_exit_flag wk \<and> http_session_used_count (wk_env wk) \<le> 0 then Some (wk, w)
      else
        (case worker_round os z node mem alloc wk w of
           None \<Rightarrow> None
         | Some (stop, wk, w) \<Rightarrow> if stop then Some (wk, w) else worker_loop os z node mem alloc wk w))"

fun watch_listeners :: "'w sys \<Rightarrow> hetao_env \<Rightarrow> nat list \<Rightarrow> 'w \<Rightarrow> bool \<times> 'w" where
  "watch_listeners sys env [] w = (True, w)"
| "watch_listeners sys env (l # ls) w =
     (let (nret, w) = sys_epoll_ctl sys EPOLL_CTL_ADD (na_sock (ls_netaddr (listens env l))) EPOLLIN_ERR w in
      if nret = - 1 then (False, w) else watch_listeners sys env ls w)"

text \<open>The preparation of the worker: with an accept mutex only the first process watches the listeners.\<close>

definition WorkerThread ::
    "'w worker_os \<Rightarrow> 'z zlib \<Rightarrow> bool \<Rightarrow> (nat \<Rightarrow> bool) \<Rightarrow> allocator \<Rightarrow> worker \<Rightarrow> 'w \<Rightarrow> (worker \<times> 'w) option" where
  "WorkerThread os z node mem alloc wk w =
     (let sys = os_sys os; (nret, w) = sys_epoll_ctl sys EPOLL_CTL_ADD (pipe_fd wk) EPOLLIN_ERR w in
      if nret = - 1 then Some (wk, w)
      else
        let (fd, w) = os_inotify_init os w; wk = wk\<lparr>htmlcache_inotify_fd := fd\<rparr> in
        if fd = - 1 then Some (wk, w)
        else
          let (nret, w) = sys_epoll_ctl sys EPOLL_CTL_ADD fd EPOLLIN_ERR w in
          if nret = - 1 then Some (wk, w)
          else
            let (ok, w) = (if accept_mutex wk = 0 \<or> this_process wk = 0
                           then watch_listeners sys (wk_env wk) (listen_session_list wk) w else (True, w)) in
            if \<not> ok then Some (wk, w) else worker_loop os z node mem alloc wk w)"

end
