(* ===== verification/HetaoServing.thy ===== *)
theory HetaoServing
  imports HetaoPages HetaoWorker
begin

text \<open>
  Serving pages: the invariant \<open>pages_ok\<close> of the cache and of the sessions that send from it, what every step of
  \<open>ProcessHttpRequest\<close> does to it, and what the response to a request consists of.
\<close>

section \<open>The invariant\<close>

text \<open>Every session that has still to send from a page refers to one of the pages \<open>P\<close>, whose content exists.\<close>

definition lends :: "nat set \<Rightarrow> hetao_env \<Rightarrow> bool" where
  "lends P env \<longleftrightarrow> (\<forall>a r. borrows env a r \<longrightarrow> page_of r \<in> P \<and> content_at env r \<noteq> None
     \<and> (\<forall>b. p_append_buffer (http (sessions env a)) = Some b \<longrightarrow> base b \<noteq> None))"

text \<open>The cache is in order, its pages are files with a content and a path that does not leave the directory, and
  sessions send only from its pages; a session that is not in use sends nothing.\<close>

definition pages_ok :: "hetao_env \<Rightarrow> bool" where
  "pages_ok env \<longleftrightarrow> cache_ok env \<and> lends (cached env) env
     \<and> (\<forall>a. a \<notin> used env \<longrightarrow> p_append_buffer (http (sessions env a)) = None)
     \<and> (\<forall>c \<in> cached env. html_content (caches env c) \<noteq> None \<and> \<not> st_directory (caches env c) \<and> \<not> dots (path_key env c))"

lemma pages_borrow_ok: "pages_ok env \<Longrightarrow> borrow_ok env"
  unfolding pages_ok_def lends_def borrow_ok_def by blast

lemma quiet_lends:
  assumes "quiet env env'" "lends P env" shows "lends P env'"
  unfolding lends_def
proof (intro allI impI)
  fix a r assume b: "borrows env' a r"
  have s: "http_buf_base (sessions env' a) = http_buf_base (sessions env a)"
    "still_lent (http (sessions env a)) (http (sessions env' a))"
    using assms(1) [unfolded quiet_def] b by (auto simp: borrows_def dest!: spec [of _ a])
  then have o: "borrows env a r" using b by (cases "p_append_buffer (http (sessions env a))") (auto simp: borrows_def still_lent_def)
  have c: "content_at env' r = content_at env r" using assms(1) by (simp add: quiet_def same_content)
  have "page_of r \<in> P \<and> content_at env r \<noteq> None
     \<and> (\<forall>b. p_append_buffer (http (sessions env a)) = Some b \<longrightarrow> base b \<noteq> None)"
    using assms(2) o unfolding lends_def by blast
  then show "page_of r \<in> P \<and> content_at env' r \<noteq> None
     \<and> (\<forall>b. p_append_buffer (http (sessions env' a)) = Some b \<longrightarrow> base b \<noteq> None)"
    using s(2) c by (cases "p_append_buffer (http (sessions env a))") (auto simp: still_lent_def)
qed

lemma quiet_idle:
  "quiet env env' \<Longrightarrow> p_append_buffer (http (sessions env a)) = None \<Longrightarrow> p_append_buffer (http (sessions env' a)) = None"
  by (auto simp: quiet_def still_lent_def)

lemma quiet_pages:
  assumes "quiet env env'" "pages_ok env"
    and "\<And>a. a \<in> used env \<Longrightarrow> a \<notin> used env' \<Longrightarrow> p_append_buffer (http (sessions env' a)) = None"
  shows "pages_ok env'"
proof -
  have sc: "same_cache env env'" using assms(1) by (simp add: quiet_def)
  have i: "p_append_buffer (http (sessions env' a)) = None" if "a \<notin> used env'" for a
    using assms(2) assms(3) [OF _ that] quiet_idle [OF assms(1), of a]
    by (cases "a \<in> used env") (simp_all add: pages_ok_def)
  have "caches env' = caches env" using sc by (simp add: same_cache_def)
  then show ?thesis
    using assms(2) quiet_lends [OF assms(1)] same_cache_ok [OF sc] i unfolding pages_ok_def by simp
qed

lemma keeps_used: "keeps env env' \<Longrightarrow> used env' = used env"
  unfolding keeps_def by (blast dest: pool_cong(3))

lemma quiet_keeps_pages: "quiet env env' \<Longrightarrow> keeps env env' \<Longrightarrow> pages_ok env \<Longrightarrow> pages_ok env'"
  by (rule quiet_pages) (auto dest: keeps_used)

section \<open>Preparing a response\<close>

text \<open>What serving a page changes: the session \<open>a\<close>, and contents are added to the page.\<close>

definition page_step :: "nat \<Rightarrow> hetao_env \<Rightarrow> hetao_env \<Rightarrow> bool" where
  "page_step a env env' \<longleftrightarrow> keeps env env' \<and> hosts env' = hosts env
     \<and> limits__max_file_cache env' = limits__max_file_cache env
     \<and> (\<forall>b. forward_flags (sessions env' b) = forward_flags (sessions env b)
           \<and> p_virtual_host (sessions env' b) = p_virtual_host (sessions env b))
     \<and> (\<forall>b. b \<noteq> a \<longrightarrow> sessions env' b = sessions env b)
     \<and> htmlcache_session_list env' = htmlcache_session_list env
     \<and> htmlcache_session_count env' = htmlcache_session_count env
     \<and> htmlcache_wd_rbtree env' = htmlcache_wd_rbtree env
     \<and> htmlcache_pathfilename_rbtree env' = htmlcache_pathfilename_rbtree env \<and> next_cache env' = next_cache env
     \<and> (\<forall>c. pathfilename (caches env' c) = pathfilename (caches env c) \<and> wd (caches env' c) = wd (caches env c)
           \<and> st_directory (caches env' c) = st_directory (caches env c) \<and> st_size (caches env' c) = st_size (caches env c)
           \<and> html_content (caches env' c) = html_content (caches env c))
     \<and> (\<forall>r. content_at env r \<noteq> None \<longrightarrow> content_at env' r = content_at env r)"

lemma page_step_refl [simp]: "page_step a env env" by (simp add: page_step_def)

lemma page_step_trans [trans]: "page_step a env1 env2 \<Longrightarrow> page_step a env2 env3 \<Longrightarrow> page_step a env1 env3"
  unfolding page_step_def by (simp, metis keeps_trans)

lemma page_step_upd:
  assumes "\<And>s. timeout_timestamp (f s) = timeout_timestamp s" "\<And>s. elapse_timestamp (f s) = elapse_timestamp s"
    "\<And>s. netaddr (f s) = netaddr s" "\<And>s. forward_flags (f s) = forward_flags s"
    "\<And>s. p_forward_server (f s) = p_forward_server s" "\<And>s. p_virtual_host (f s) = p_virtual_host s"
  shows "page_step a env (upd_session a f env)"
proof -
  have "content_at (upd_session a f env) r = content_at env r" for r by (cases r) (simp_all add: upd_session_def)
  then show ?thesis
    using keeps_upd [of f env a, OF assms(1-5)] assms(4,6) by (simp add: page_step_def) (simp add: upd_session_def)
qed

lemma page_step_lib [simp]: "page_step a env (env\<lparr>http_lib_state := l\<rparr>)"
proof -
  have "content_at (env\<lparr>http_lib_state := l\<rparr>) r = content_at env r" for r by (cases r) simp_all
  then show ?thesis by (simp add: page_step_def)
qed

lemma page_step_encoded:
  assumes "encoded enc (caches env c) = None" shows "page_step a env (upd_cache c (set_encoded enc out) env)"
proof -
  have "keeps env (upd_cache c (set_encoded enc out) env)"
    by (rule keepsI) (simp_all add: upd_cache_def pool_def link_def)
  moreover have "content_at (upd_cache c (set_encoded enc out) env) r = content_at env r" if "content_at env r \<noteq> None" for r
    using that assms by (cases r; cases enc) (auto simp: upd_cache_def)
  ultimately show ?thesis by (cases enc) (auto simp: page_step_def upd_cache_def)
qed

lemma page_step_cached: "page_step a env env' \<Longrightarrow> cached env' = cached env"
  by (simp add: page_step_def cached_def)

lemma page_step_cache_ok: "page_step a env env' \<Longrightarrow> cache_ok env' = cache_ok env"
proof -
  assume s: "page_step a env env'"
  have "path_less env' = path_less env" using s by (simp add: page_step_def path_less_def fun_eq_iff)
  then show ?thesis using s by (simp add: page_step_def cache_ok_def cached_def)
qed

lemma lends_upd:
  assumes "lends P env" "\<And>s. p_append_buffer (http (f s)) = p_append_buffer (http s)" "\<And>s. http_buf_base (f s) = http_buf_base s"
  shows "lends P (upd_session a f env)"
  by (rule quiet_lends [OF quiet_http_upd assms(1)]) (simp_all add: assms(2,3))

lemma format_response_step:
  assumes "format_response alloc code fill fmt env a = Some (nret, env')"
  shows "page_step a env env' \<and> (\<forall>P. lends P env \<longrightarrow> lends P env')"
proof -
  obtain l e where "env' = upd_session a (\<lambda>s. s\<lparr>http := e\<rparr>) (env\<lparr>http_lib_state := l\<rparr>)"
    using assms by (auto simp: format_response_def)
  then have "page_step a env env'" by (auto intro: page_step_trans [OF page_step_lib page_step_upd])
  then show ?thesis using quiet_lends [OF format_response_quiet [OF assms]] by blast
qed

lemma answer_step:
  assumes "answer alloc env a mime enc ref text = Some (nret, env')"
  shows "page_step a env env'"
    and "lends P env \<Longrightarrow> nret = 0 \<longrightarrow> page_of ref \<in> P \<and> content_at env ref \<noteq> None \<Longrightarrow> lends P env'"
proof -
  obtain n b where 1: "StrcatfHttpBuffer alloc (GetHttpResponseBuffer (http (sessions env a)))
      (page_header mime enc (length text) (CheckHttpKeepAlive (http (sessions env a)))) = Some (n, b)"
    using assms by (auto simp: answer_def Let_def bind_eq_Some_conv)
  let ?env1 = "upd_session a (\<lambda>s. s\<lparr>http := (http s)\<lparr>response_buffer := b\<rparr>\<rparr>) env"
  let ?b = "SetHttpBufferPtr (http_buf (sessions ?env1 a)) (int (length text) + 1) (text @ [NUL])"
  let ?env2 = "upd_session a (\<lambda>s. s\<lparr>http_buf := ?b, http_buf_base := Some ref, http := AppendHttpBuffer (http s) (Some ?b)\<rparr>) ?env1"
  have s1: "page_step a env ?env1" by (rule page_step_upd) simp_all
  have s2: "page_step a env ?env2" by (rule page_step_trans [OF s1 page_step_upd]) simp_all
  have l1: "lends P env \<Longrightarrow> lends P ?env1" for P by (rule lends_upd) simp_all
  have e: "env' = ?env1 \<or> nret = 0 \<and> env' = ?env2"
    using assms 1 by (auto simp: answer_def Let_def split: if_splits)
  then show "page_step a env env'" using s1 s2 by auto
  assume l: "lends P env" and r: "nret = 0 \<longrightarrow> page_of ref \<in> P \<and> content_at env ref \<noteq> None"
  have "lends P ?env2" if r: "page_of ref \<in> P" "content_at env ref \<noteq> None"
    unfolding lends_def
  proof (intro allI impI)
    fix x r' assume b: "borrows ?env2 x r'"
    have c: "content_at ?env2 r = content_at env r" for r by (cases r) (simp_all add: upd_session_def)
    show "page_of r' \<in> P \<and> content_at ?env2 r' \<noteq> None
      \<and> (\<forall>b. p_append_buffer (http (sessions ?env2 x)) = Some b \<longrightarrow> base b \<noteq> None)"
    proof (cases "x = a")
      case True
      then have "r' = ref" using b by (simp add: borrows_def)
      then show ?thesis using True r c by (simp add: AppendHttpBuffer_def SetHttpBufferPtr_def)
    next
      case False
      then have "borrows env x r'" using b by (simp add: borrows_def)
      then show ?thesis using False l c unfolding lends_def by simp
    qed
  qed
  then show "lends P env'" using e l1 [OF l] r by auto
qed

lemma encoded_content: "content_at env (encoded_ref enc c) = encoded enc (caches env c)" "page_of (encoded_ref enc c) = c"
  by (cases enc; simp)+

lemma answer_encoded_step:
  assumes "answer_encoded z alloc env a mime c enc = Some (nret, env')"
  shows "page_step a env env'" and "lends P env \<Longrightarrow> nret = 0 \<longrightarrow> c \<in> P \<Longrightarrow> lends P env'"
proof -
  have "page_step a env env' \<and> (lends P env \<longrightarrow> (nret = 0 \<longrightarrow> c \<in> P) \<longrightarrow> lends P env')"
  proof (cases "encoded enc (caches env c)")
    case (Some out)
    then have a: "answer alloc env a mime (Some enc) (encoded_ref enc c) out = Some (nret, env')"
      using assms by (simp add: answer_encoded_def)
    show ?thesis using answer_step [OF a] Some by (auto simp: encoded_content)
  next
    case None
    obtain s0 where t: "html_content (caches env c) = Some s0"
      using assms None by (auto simp: answer_encoded_def bind_eq_Some_conv)
    obtain n out where 1: "CompressData z alloc s0 (window_bits enc) = (n, out)" by fastforce
    let ?env1 = "upd_cache c (set_encoded enc out) env"
    have s1: "page_step a env ?env1" using None by (rule page_step_encoded)
    have l1: "lends P ?env1" if l: "lends P env" for P
    proof -
      have b: "borrows ?env1 = borrows env" "sessions ?env1 = sessions env" by (simp_all add: borrows_def upd_cache_def fun_eq_iff)
      have "content_at ?env1 r \<noteq> None" if "content_at env r \<noteq> None" for r
        using that s1 by (simp add: page_step_def)
      then show ?thesis using l unfolding lends_def b by blast
    qed
    show ?thesis
    proof (cases "n = 0")
      case True
      then have a: "answer alloc ?env1 a mime (Some enc) (encoded_ref enc c) out = Some (nret, env')"
        using assms None t 1 by (simp add: answer_encoded_def)
      have "content_at ?env1 (encoded_ref enc c) \<noteq> None" by (cases enc) (simp_all add: upd_cache_def)
      then show ?thesis
        using answer_step [OF a] page_step_trans [OF s1] l1 by (auto simp: encoded_content)
    next
      case False
      then show ?thesis using assms None t 1 by (auto simp: answer_encoded_def)
    qed
  qed
  then show "page_step a env env'" "lends P env \<Longrightarrow> nret = 0 \<longrightarrow> c \<in> P \<Longrightarrow> lends P env'" by blast+
qed

lemma format_page_step:
  assumes "format_page z alloc env a mime c = Some (nret, env')"
  shows "page_step a env env'" and "lends P env \<Longrightarrow> nret = 0 \<longrightarrow> c \<in> P \<Longrightarrow> lends P env'"
proof -
  have plain: "page_step a env env' \<and> (lends P env \<longrightarrow> (nret = 0 \<longrightarrow> c \<in> P) \<longrightarrow> lends P env')"
    if pl: "answer_plain alloc env a mime c = Some (nret, env')"
  proof -
    obtain s0 where t: "html_content (caches env c) = Some s0" "answer alloc env a mime None (Html c) s0 = Some (nret, env')"
      using pl by (auto simp: answer_plain_def bind_eq_Some_conv)
    then show ?thesis using answer_step [OF t(2)] by auto
  qed
  have "page_step a env env' \<and> (lends P env \<longrightarrow> (nret = 0 \<longrightarrow> c \<in> P) \<longrightarrow> lends P env')"
    using assms plain answer_encoded_step [of z alloc env a mime c _ nret env']
    by (auto simp: format_page_def Let_def split: option.splits if_splits)
  then show "page_step a env env'" "lends P env \<Longrightarrow> nret = 0 \<longrightarrow> c \<in> P \<Longrightarrow> lends P env'" by blast+
qed

section \<open>Caching a page\<close>

text \<open>What is assumed of the system: no file is larger than what may be cached, and watches can be added.\<close>

definition small_files :: "'w sys \<Rightarrow> int \<Rightarrow> bool" where
  "small_files sys m \<longleftrightarrow> 0 \<le> m \<and> (\<forall>w p d n. sys_stat sys w p = Some (d, n) \<longrightarrow> n \<le> m)"

definition watches :: "'w sys \<Rightarrow> bool" where
  "watches sys \<longleftrightarrow> (\<forall>p w. fst (sys_add_watch sys p w) \<noteq> - 1)"

lemma sorted_wrt_between:
  assumes "sorted_wrt R xs" "\<And>y. y \<in> set (takeWhile Q xs) \<Longrightarrow> R y x" "\<And>y. y \<in> set (dropWhile Q xs) \<Longrightarrow> R x y"
  shows "sorted_wrt R (takeWhile Q xs @ x # dropWhile Q xs)"
proof -
  have "sorted_wrt R (takeWhile Q xs @ dropWhile Q xs)" using assms(1) by simp
  then show ?thesis using assms(2,3) unfolding sorted_wrt_append sorted_wrt.simps by auto
qed

text \<open>Where a path belongs in the order of the tree.\<close>

lemma path_between:
  fixes env c
  defines "Q \<equiv> \<lambda>y. \<not> strcmp (path_key env c) (path_key env y) < 0"
  assumes s: "sorted_wrt (path_less env) xs" and n: "\<forall>y \<in> set xs. path_key env y \<noteq> path_key env c"
  shows "sorted_wrt (path_less env) (takeWhile Q xs @ c # dropWhile Q xs)"
proof (rule sorted_wrt_between [OF s])
  fix y assume y: "y \<in> set (takeWhile Q xs)"
  then have "y \<in> set xs" "Q y" using set_takeWhileD by fastforce+
  then show "path_less env y c"
    using n strcmp_eq [of "path_key env c" "path_key env y"] strcmp_swap [of "path_key env y" "path_key env c"]
    by (auto simp: path_less_def Q_def)
next
  fix y assume y: "y \<in> set (dropWhile Q xs)"
  have f: "falling (\<lambda>b. strcmp (path_key env c) (path_key env b)) xs" by (rule falling_paths [OF s])
  obtain z zs where z: "dropWhile Q xs = z # zs" using y by (cases "dropWhile Q xs") auto
  have zq: "\<not> Q z" using z by (metis hd_dropWhile list.distinct(1) list.sel(1))
  have "y = z \<or> path_less env z y"
  proof -
    have "sorted_wrt (path_less env) (takeWhile Q xs @ z # zs)" using s z takeWhile_dropWhile_id [of Q xs] by simp
    then show ?thesis using y z unfolding sorted_wrt_append sorted_wrt.simps by auto
  qed
  then show "path_less env c y"
    using zq strcmp_trans [of "path_key env c" "path_key env z" "path_key env y"] by (auto simp: path_less_def Q_def)
qed

lemma cache_page_ok:
  assumes ok: "cache_ok env" and c: "c \<notin> cached env" "c < next_cache env"
    and new: "\<forall>b \<in> cached env. path_key env b \<noteq> path_key env c"
    and sz: "st_size (caches env c) \<le> limits__max_file_cache env" and w: "watches sys"
  shows "\<exists>env' w'. cache_page sys True env c w = Some (HTTP_OK, env', w') \<and> cache_ok env'
     \<and> cached env' = insert c (cached env) \<and> keeps env env' \<and> sessions env' = sessions env
     \<and> limits__max_file_cache env' = limits__max_file_cache env
     \<and> (\<forall>r. content_at env' r = content_at env r)
     \<and> (\<forall>b. html_content (caches env' b) = html_content (caches env b) \<and> path_key env' b = path_key env b
           \<and> st_directory (caches env' b) = st_directory (caches env b))"
proof -
  obtain d w1 where d: "sys_add_watch sys (path_key env c) w = (d, w1)" by fastforce
  have d1: "d \<noteq> - 1" using w [unfolded watches_def] d by (metis fst_conv)
  have o: "index_ok (htmlcache_wd_rbtree env)" "index_ok (htmlcache_pathfilename_rbtree env)"
    "set (inorder (htmlcache_wd_rbtree env)) = cached env" "set (inorder (htmlcache_pathfilename_rbtree env)) = cached env"
    "sorted (map (wd_key env) (inorder (htmlcache_wd_rbtree env)))"
    "sorted_wrt (path_less env) (inorder (htmlcache_pathfilename_rbtree env))"
    "distinct (htmlcache_session_list env)" "htmlcache_session_count env = int (length (htmlcache_session_list env))"
    "\<forall>c \<in> cached env. c < next_cache env"
    using ok by (simp_all add: cache_ok_def)
  let ?env1 = "upd_cache c (\<lambda>p. p\<lparr>wd := d\<rparr>) env"
  have "map (wd_key ?env1) (inorder (htmlcache_wd_rbtree env)) = map (wd_key env) (inorder (htmlcache_wd_rbtree env))"
    using o(3) c(1) by (auto simp: upd_cache_def)
  then have sw: "sorted (map (wd_key ?env1) (inorder (htmlcache_wd_rbtree env)))" using o(5) by metis
  obtain t1 where t1: "add_node (wd_key ?env1) c (htmlcache_wd_rbtree env) = Some t1" "index_ok t1"
    "set (inorder t1) = insert c (cached env)" "sorted (map (wd_key ?env1) (inorder t1))"
    using index.add_new [OF o(1) _ sw, of c] c(1) o(3) by auto
  have pk: "path_key ?env1 b = path_key env b" for b by (simp add: upd_cache_def)
  let ?cmp = "\<lambda>b. strcmp (path_key env c) (path_key env b)" and ?xs = "inorder (htmlcache_pathfilename_rbtree env)"
  have q: "query_tree ?cmp (htmlcache_pathfilename_rbtree env) = None"
    using query_tree_found [of ?cmp "htmlcache_pathfilename_rbtree env"] new o(4)
    by (cases "query_tree ?cmp (htmlcache_pathfilename_rbtree env)") (fastforce simp: strcmp_eq)+
  obtain t2 where t2: "add_unique ?cmp c (htmlcache_pathfilename_rbtree env) = Some (0, t2)" "index_ok t2"
    "inorder t2 = takeWhile (\<lambda>y. \<not> ?cmp y < 0) ?xs @ c # dropWhile (\<lambda>y. \<not> ?cmp y < 0) ?xs"
    using add_unique_inserts [OF o(2) falling_paths [OF o(6)] q, of c] c(1) o(4) by blast
  have "set (takeWhile (\<lambda>y. \<not> ?cmp y < 0) ?xs) \<union> set (dropWhile (\<lambda>y. \<not> ?cmp y < 0) ?xs) = set ?xs"
    by (metis set_append takeWhile_dropWhile_id)
  then have st2: "set (inorder t2) = insert c (cached env)" using o(4) by (auto simp: t2(3))
  have sp: "sorted_wrt (path_less env) (inorder t2)"
    unfolding t2(3) by (rule path_between [OF o(6)]) (use new o(4) in simp)
  define env' where "env' = ?env1\<lparr>htmlcache_wd_rbtree := t1, htmlcache_pathfilename_rbtree := t2,
     htmlcache_session_list := c # htmlcache_session_list env, htmlcache_session_count := htmlcache_session_count env + 1\<rparr>"
  have "(\<lambda>b. strcmp (path_key ?env1 c) (path_key ?env1 b)) = ?cmp" by (simp add: pk)
  then have t2': "add_unique (\<lambda>b. strcmp (path_key ?env1 c) (path_key ?env1 b)) c (htmlcache_pathfilename_rbtree env) = Some (0, t2)"
    using t2(1) by simp
  have e: "cache_page sys True env c w = Some (HTTP_OK, env', w1)"
    using sz d d1 t1(1) t2'
    by (simp add: cache_page_def AddHtmlCacheWdTreeNode_def AddHtmlCachePathfilenameTreeNode_def Let_def env'_def upd_cache_def)
  have cd: "cached env' = insert c (cached env)" by (simp add: cached_def env'_def)
  have pl: "path_less env' = path_less env" by (simp add: path_less_def env'_def upd_cache_def fun_eq_iff)
  have wk: "map (wd_key env') (inorder t1) = map (wd_key ?env1) (inorder t1)" by (simp add: env'_def)
  have "cache_ok env'"
    unfolding cache_ok_def cd pl using t1(2-4) t2(2) st2 sp o(7-9) c wk
    by (simp add: env'_def upd_cache_def cached_def)
  moreover have "keeps env env'" by (rule keepsI) (simp_all add: env'_def upd_cache_def pool_def link_def)
  moreover have "content_at env' r = content_at env r" for r by (cases r) (simp_all add: env'_def upd_cache_def)
  ultimately show ?thesis using e cd by (auto simp: env'_def upd_cache_def)
qed

section \<open>Serving a page\<close>

lemma page_step_pages:
  assumes "page_step a env env'" "a \<in> used env" "pages_ok env" "lends (cached env) env'" shows "pages_ok env'"
proof -
  have u: "used env' = used env" using assms(1) by (simp add: page_step_def keeps_used)
  have "p_append_buffer (http (sessions env' b)) = None" if "b \<notin> used env" for b
    using that assms(1-3) by (cases "b = a") (simp_all add: page_step_def pages_ok_def)
  then show ?thesis
    using assms page_step_cached [OF assms(1)] page_step_cache_ok [OF assms(1)] u
    by (simp add: pages_ok_def page_step_def)
qed

text \<open>The part of \<open>serve_page\<close> before the caching.\<close>

lemma serve_page_steps:
  assumes "serve_page sys z alloc page env a ext c new w = Some (nret, env', w')"
  obtains (failed) env1 where "page_step a env env1" "\<forall>P. lends P env \<longrightarrow> lends P env1" "env' = env1" "w' = w"
  | (formatted) env1 where "page_step a env env1" "\<forall>P. lends P env \<longrightarrow> c \<in> P \<longrightarrow> lends P env1"
      "(if new then cache_page sys page env1 c w else Some (HTTP_OK, env1, w)) = Some (nret, env', w')"
proof -
  obtain n1 env1 where 1: "format_response alloc HTTP_OK False None env a = Some (n1, env1)"
    using assms by (auto simp: serve_page_def bind_eq_Some_conv)
  note f1 = format_response_step [OF 1]
  show ?thesis
  proof (cases "n1 = 0")
    case False
    then show ?thesis using assms 1 f1 failed by (auto simp: serve_page_def)
  next
    case True
    obtain found where 2: "QueryMimeTypeHashNode (mime_type_hash env1) ext = Some found"
      using assms 1 True by (auto simp: serve_page_def bind_eq_Some_conv)
    show ?thesis
    proof (cases found)
      case None
      then show ?thesis using assms 1 2 True f1 failed by (auto simp: serve_page_def)
    next
      case (Some mime)
      obtain n3 env3 where 3: "format_page z alloc env1 a mime c = Some (n3, env3)"
        using assms 1 2 True Some by (auto simp: serve_page_def bind_eq_Some_conv)
      have s: "page_step a env env3" using f1 format_page_step(1) [OF 3] page_step_trans by blast
      have l: "lends P env \<Longrightarrow> n3 = 0 \<longrightarrow> c \<in> P \<Longrightarrow> lends P env3" for P using f1 format_page_step(2) [OF 3] by blast
      show ?thesis
      proof (cases "n3 = 0")
        case False
        then have "env' = env3" "w' = w" using assms 1 2 True Some 3 by (simp_all add: serve_page_def)
        then show ?thesis using failed [OF s] l False by blast
      next
        case n3: True
        then have "(if new then cache_page sys page env3 c w else Some (HTTP_OK, env3, w)) = Some (nret, env', w')"
          using assms 1 2 True Some 3 by (simp add: serve_page_def)
        then show ?thesis using formatted [OF s] l by blast
      qed
    qed
  qed
qed

lemma serve_cached:
  assumes "serve_page sys z alloc page env a ext c False w = Some (nret, env', w')" "pages_ok env" "c \<in> cached env" "a \<in> used env"
  shows "page_step a env env' \<and> pages_ok env'"
  using assms(1)
proof (cases rule: serve_page_steps)
  case (failed env1)
  then show ?thesis using page_step_pages [OF failed(1) assms(4,2)] assms(2) by (simp add: pages_ok_def)
next
  case (formatted env1)
  have "lends (cached env) env1" using formatted(2) assms(2,3) by (simp add: pages_ok_def)
  then show ?thesis using page_step_pages [OF formatted(1) assms(4,2)] formatted(1,3) by simp
qed

text \<open>What the request does to the rest of the state if it is not forwarded.\<close>

definition served :: "hetao_env \<Rightarrow> hetao_env \<Rightarrow> bool" where
  "served env env' \<longleftrightarrow> keeps env env' \<and> pages_ok env' \<and> hosts env' = hosts env
     \<and> limits__max_file_cache env' = limits__max_file_cache env
     \<and> (\<forall>b. forward_flags (sessions env' b) = forward_flags (sessions env b)
           \<and> p_virtual_host (sessions env' b) = p_virtual_host (sessions env b))"

lemma served_trans: "served env1 env2 \<Longrightarrow> served env2 env3 \<Longrightarrow> served env1 env3"
  unfolding served_def by (auto intro: keeps_trans)

lemma served_refl [simp]: "pages_ok env \<Longrightarrow> served env env" by (simp add: served_def)

lemma page_step_served: "page_step a env env' \<Longrightarrow> pages_ok env' \<Longrightarrow> served env env'"
  by (simp add: served_def page_step_def)

definition new_page :: "hetao_env \<Rightarrow> htmlcache_session \<Rightarrow> hetao_env" where
  "new_page env p = upd_cache (next_cache env) (\<lambda>_. p) (env\<lparr>next_cache := next_cache env + 1\<rparr>)"

lemma new_page_ok:
  assumes "pages_ok env" shows "pages_ok (new_page env p)" "cached (new_page env p) = cached env"
    "served env (new_page env p)" "next_cache env \<notin> cached env"
proof -
  let ?c = "next_cache env" and ?env1 = "new_page env p"
  have cd: "cached ?env1 = cached env" by (simp add: cached_def new_page_def upd_cache_def)
  have n: "?c \<notin> cached env" using assms by (auto simp: pages_ok_def cache_ok_def)
  have same: "caches ?env1 b = caches env b" if "b \<in> cached env" for b
    using that n by (auto simp: new_page_def upd_cache_def)
  have o: "set (inorder (htmlcache_wd_rbtree env)) = cached env" "set (inorder (htmlcache_pathfilename_rbtree env)) = cached env"
    "sorted (map (wd_key env) (inorder (htmlcache_wd_rbtree env)))"
    "sorted_wrt (path_less env) (inorder (htmlcache_pathfilename_rbtree env))"
    using assms by (simp_all add: pages_ok_def cache_ok_def)
  have "map (wd_key ?env1) (inorder (htmlcache_wd_rbtree env)) = map (wd_key env) (inorder (htmlcache_wd_rbtree env))"
    using o(1) same by auto
  then have s1: "sorted (map (wd_key ?env1) (inorder (htmlcache_wd_rbtree env)))" using o(3) by metis
  have s2: "sorted_wrt (path_less ?env1) (inorder (htmlcache_pathfilename_rbtree env))"
    by (rule sorted_wrt_mono_rel [OF _ o(4)]) (use o(2) same in \<open>auto simp: path_less_def\<close>)
  have ck: "cache_ok ?env1"
    using assms s1 s2 unfolding cache_ok_def cd pages_ok_def
    by (auto simp: new_page_def upd_cache_def cached_def less_Suc_eq)
  have ss: "sessions ?env1 = sessions env" by (simp add: new_page_def upd_cache_def)
  then have b: "borrows ?env1 = borrows env" by (simp add: borrows_def fun_eq_iff)
  have ct: "content_at ?env1 r = content_at env r" if "page_of r \<in> cached env" for r using that same by (cases r) simp_all
  have k: "keeps env ?env1" by (rule keepsI) (simp_all add: new_page_def upd_cache_def pool_def link_def)
  have l: "lends (cached env) ?env1"
    using assms ct unfolding pages_ok_def lends_def b ss by metis
  show "pages_ok ?env1"
    using assms ck l keeps_used [OF k] same unfolding pages_ok_def cd ss by simp
  then show "served env ?env1"
    using k by (simp add: served_def) (simp add: new_page_def upd_cache_def)
  show "cached ?env1 = cached env" "?c \<notin> cached env" by (fact cd n)+
qed

lemma serve_new:
  assumes "serve_page sys z alloc True (new_page env p) a ext (next_cache env) True w = Some (nret, env', w')"
    and ok: "pages_ok env" "a \<in> used env" and w: "watches sys"
    and p: "html_content p \<noteq> None" "\<not> st_directory p" "\<not> dots (pathfilename p)" "st_size p \<le> limits__max_file_cache env"
    and new: "\<forall>b \<in> cached env. path_key env b \<noteq> pathfilename p"
  shows "served env env'"
proof -
  let ?c = "next_cache env" and ?env1 = "new_page env p"
  note n = new_page_ok(1-3) [OF ok(1), of p] new_page_ok(4) [OF ok(1)]
  have u: "a \<in> used ?env1" using ok(2) n(3) keeps_used by (auto simp: served_def)
  have c1: "caches ?env1 ?c = p" by (simp add: new_page_def upd_cache_def)
  show ?thesis
    using assms(1)
  proof (cases rule: serve_page_steps)
    case (failed env1)
    have "pages_ok env1" using page_step_pages [OF failed(1) u n(1)] failed(2) n(1) by (simp add: pages_ok_def)
    then show ?thesis using served_trans [OF n(3) page_step_served [OF failed(1)]] failed(3) by simp
  next
    case (formatted env3)
    have st: "pathfilename (caches env3 b) = pathfilename (caches ?env1 b)"
      "st_directory (caches env3 b) = st_directory (caches ?env1 b)" "st_size (caches env3 b) = st_size (caches ?env1 b)"
      "html_content (caches env3 b) = html_content (caches ?env1 b)" for b
      using formatted(1) by (simp_all add: page_step_def)
    have cd: "cached env3 = cached env" using page_step_cached [OF formatted(1)] n(2) by simp
    have old: "caches ?env1 b = caches env b" if "b \<in> cached env" for b
      using that n(4) by (auto simp: new_page_def upd_cache_def)
    have lim: "limits__max_file_cache env3 = limits__max_file_cache env"
      using formatted(1) n(3) by (simp add: page_step_def served_def)
    have ok3: "cache_ok env3" using page_step_cache_ok [OF formatted(1)] n(1) by (simp add: pages_ok_def)
    obtain env4 w4 where 4: "cache_page sys True env3 ?c w = Some (HTTP_OK, env4, w4)" "cache_ok env4"
      "cached env4 = insert ?c (cached env3)" "keeps env3 env4" "sessions env4 = sessions env3"
      "limits__max_file_cache env4 = limits__max_file_cache env3" "\<forall>r. content_at env4 r = content_at env3 r"
      "\<forall>b. html_content (caches env4 b) = html_content (caches env3 b) \<and> path_key env4 b = path_key env3 b
         \<and> st_directory (caches env4 b) = st_directory (caches env3 b)"
    proof -
      have "?c \<notin> cached env3" using n(4) cd by simp
      moreover have "?c < next_cache env3" using formatted(1) by (simp add: page_step_def new_page_def upd_cache_def)
      moreover have "\<forall>b \<in> cached env3. path_key env3 b \<noteq> path_key env3 ?c" using new old c1 st(1) cd by simp
      moreover have "st_size (caches env3 ?c) \<le> limits__max_file_cache env3" using p(4) st(3) c1 lim by simp
      ultimately show ?thesis using cache_page_ok [OF ok3 _ _ _ _ w, of ?c] that by blast
    qed
    have e: "env' = env4" using formatted(3) 4(1) by simp
    have "lends (insert ?c (cached env)) ?env1" using n(1,2) unfolding pages_ok_def lends_def by blast
    then have l3: "lends (insert ?c (cached env)) env3" using formatted(2) by blast
    have b4: "borrows env4 = borrows env3" using 4(5) by (simp add: borrows_def fun_eq_iff)
    have l4: "lends (cached env4) env4"
    proof -
      have "cached env4 = insert ?c (cached env)" using 4(3) cd by simp
      then show ?thesis using l3 unfolding lends_def b4 4(5) by (simp only: 4(7) simp_thms)
    qed
    have k1: "keeps env ?env1" and k3: "keeps ?env1 env3" using n(3) formatted(1) by (simp_all add: served_def page_step_def)
    note k2 = keeps_trans [OF k3 4(4)]
    note k = keeps_trans [OF k1 k2] k2
    have idle: "p_append_buffer (http (sessions env4 b)) = None" if "b \<notin> used env4" for b
    proof -
      have "b \<notin> used ?env1" using that keeps_used [OF k(2)] by simp
      moreover from this have "b \<noteq> a" using u by blast
      ultimately show ?thesis using n(1) formatted(1) 4(5) by (simp add: pages_ok_def page_step_def)
    qed
    have pages: "html_content (caches env4 b) \<noteq> None \<and> \<not> st_directory (caches env4 b) \<and> \<not> dots (path_key env4 b)"
      if "b \<in> cached env4" for b
    proof (cases "b = ?c")
      case True
      then show ?thesis using 4(8) st c1 p by simp
    next
      case False
      then have "b \<in> cached env" using that 4(3) cd by simp
      then show ?thesis using 4(8) st old ok(1) by (simp add: pages_ok_def)
    qed
    have "pages_ok env4" unfolding pages_ok_def using 4(2) l4 idle pages by blast
    moreover have "hosts env4 = hosts env3"
      using 4(1) by (auto simp: cache_page_def upd_cache_def AddHtmlCacheWdTreeNode_def AddHtmlCachePathfilenameTreeNode_def
          FreeHtmlCacheSession_def RemoveHtmlCacheWdTreeNode_def Let_def bind_eq_Some_conv split: if_splits prod.splits)
    ultimately show ?thesis
      using k(1) lim 4(5,6) formatted(1) n(3) unfolding e by (simp add: served_def page_step_def)
  qed
qed

section \<open>A request\<close>

lemma load_page_result:
  assumes "load_page sys alloc path w = Some (Inl p)" "small_files sys m"
  shows "pathfilename p = path \<and> st_size p \<le> m \<and> (\<not> st_directory p \<longrightarrow> html_content p \<noteq> None)"
proof -
  obtain d n where dn: "(case sys_stat sys w path of None \<Rightarrow> (False, 0) | Some st \<Rightarrow> st) = (d, n)" by fastforce
  have "n \<le> m" using dn assms(2) by (auto simp: small_files_def split: option.splits)
  then show ?thesis
    using assms(1) dn by (auto simp: load_page_def Let_def zero_cache_def split: if_splits option.splits)
qed

lemma forward_request_keeps:
  assumes "forward_request sys alloc env a w = Some (nret, env', w')" "a < next_session env" "forward_flags (sessions env a) = 0"
  shows "keeps env env' \<and> quiet env env'"
proof -
  obtain n env1 w1 where 1: "SelectForwardAddress sys env a w = Some (n, env1, w1)"
    using assms(1) by (auto simp: forward_request_def bind_eq_Some_conv)
  note k1 = SelectForwardAddress_keeps [OF 1 assms(3)] and q1 = SelectForwardAddress_quiet [OF 1]
  show ?thesis
  proof (cases "n = HTTP_OK")
    case False
    then show ?thesis using assms(1) 1 k1 q1 by (simp add: forward_request_def)
  next
    case True
    obtain n2 env2 w2 where 2: "ConnectForwardServer sys alloc env1 a w1 = Some (n2, env2, w2)"
      using assms(1) 1 True by (auto simp: forward_request_def bind_eq_Some_conv)
    have "a < next_session env1" using assms(2) k1 keeps_next by metis
    then have "keeps env1 env2" using ConnectForwardServer_keeps [OF 2] k1 by blast
    moreover have "env' = env2" using assms(1) 1 2 True by (auto simp: forward_request_def split: if_splits prod.splits)
    ultimately show ?thesis using k1 q1 ConnectForwardServer_quiet [OF 2] keeps_trans quiet_trans by blast
  qed
qed

text \<open>A file name that the host \<open>h\<close> does not forward, whatever the file system answers.\<close>

definition unforwarded :: "virtual_host \<Rightarrow> bytes \<Rightarrow> bytes \<Rightarrow> bool" where
  "unforwarded v root name \<longleftrightarrow> (\<forall>stat uo. SplitHttpUri stat (Some root) name = Some (0, uo) \<longrightarrow>
     rd (forward_rule v @ [NUL]) 0 = NUL
     \<or> (let u = (case uo of None \<Rightarrow> zero_uri | Some u \<Rightarrow> u) in
        part name (ext_filename_base u) (ext_filename_len u) \<noteq> forward_type v))"

lemma served_uri_upd:
  assumes "pages_ok env" shows "served env (upd_session a (\<lambda>s. s\<lparr>session_uri := u\<rparr>) env)"
proof -
  let ?env' = "upd_session a (\<lambda>s. s\<lparr>session_uri := u\<rparr>) env"
  have k: "keeps env ?env'" by (rule keeps_upd) simp_all
  have "pages_ok ?env'" by (rule quiet_keeps_pages [OF _ k assms], rule quiet_upd) simp_all
  then show ?thesis using k by (simp add: served_def) (simp add: upd_session_def)
qed

lemma process_file_ok:
  assumes pf: "process_file sys z alloc True env a root name w = Some (reply, env', w')"
    and ok: "pages_ok env" "a \<in> used env" "a < next_session env" "forward_flags (sessions env a) = 0"
    and sys: "small_files sys (limits__max_file_cache env)" "watches sys"
  shows "keeps env env' \<and> pages_ok env' \<and> limits__max_file_cache env' = limits__max_file_cache env \<and> same_settings env env'
     \<and> (reply = Is_directory \<or> (\<forall>h. p_virtual_host (sessions env a) = Some h \<longrightarrow> unforwarded (hosts env h) root name) \<longrightarrow> served env env')"
proof -
  let ?env0 = "upd_session a (\<lambda>s. s\<lparr>session_uri := zero_uri\<rparr>) env"
  have s0: "served env ?env0" by (rule served_uri_upd [OF ok(1)])
  obtain n uo where 1: "SplitHttpUri (\<lambda>p. map_option fst (sys_stat sys w p)) (Some root) name = Some (n, uo)"
    using pf by (auto simp: process_file_def Let_def bind_eq_Some_conv)
  define env1 where "env1 = (case uo of None \<Rightarrow> ?env0 | Some u \<Rightarrow> upd_session a (\<lambda>s. s\<lparr>session_uri := u\<rparr>) ?env0)"
  have s1: "served env env1"
    using s0 served_trans [OF s0 served_uri_upd] by (auto simp: env1_def served_def [of env ?env0] split: option.splits)
  have uri: "session_uri (sessions env1 a) = (case uo of None \<Rightarrow> zero_uri | Some u \<Rightarrow> u)"
    by (simp add: env1_def split: option.splits)
  have p1: "pages_ok env1" and k1: "keeps env env1" using s1 by (simp_all add: served_def)
  have a1: "a \<in> used env1" "a < next_session env1" "forward_flags (sessions env1 a) = 0"
    using ok(2-4) keeps_used [OF k1] keeps_next [OF k1] s1 by (simp_all add: served_def)
  show ?thesis
  proof (cases "n = 0")
    case False
    then have "env' = env1" using pf 1 by (simp add: process_file_def env1_def Let_def)
    then show ?thesis using s1 by (simp add: served_def)
  next
    case True
    have sf: "serve_file sys z alloc True env1 a root name w = Some (reply, env', w')"
      using pf 1 True by (simp add: process_file_def env1_def Let_def)
    obtain h where h: "p_virtual_host (sessions env1 a) = Some h"
      using sf by (auto simp: serve_file_def bind_eq_Some_conv)
    define ext where "ext = part name (ext_filename_base (session_uri (sessions env1 a))) (ext_filename_len (session_uri (sessions env1 a)))"
    define rest where "rest = (if rd (forward_rule (hosts env1 h) @ [NUL]) 0 \<noteq> NUL \<and> ext = forward_type (hosts env1 h) then
         map_option (\<lambda>(nret, env, w). (Reply nret, env, w)) (forward_request sys alloc env1 a w)
       else
         let path = page_path root name in
         if dots path then Some (Reply HTTP_BAD_REQUEST, env1, w)
         else
           (case QueryHtmlCachePathfilenameTreeNode env1 path of
              Some c \<Rightarrow>
                if st_directory (caches env1 c) then Some (Is_directory, env1, w)
                else map_option (\<lambda>(nret, env, w). (Reply nret, env, w)) (serve_page sys z alloc True env1 a ext c False w)
            | None \<Rightarrow> do {
                loaded \<leftarrow> load_page sys alloc path w;
                (case loaded of
                   Inr code \<Rightarrow> Some (Reply code, env1, w)
                 | Inl p \<Rightarrow>
                     if st_directory p then Some (Is_directory, env1, w)
                     else map_option (\<lambda>(nret, env, w). (Reply nret, env, w))
                            (serve_page sys z alloc True (new_page env1 p) a ext (next_cache env1) True w)) }))"
    have r: "rest = Some (reply, env', w')"
      unfolding rest_def sf [symmetric] serve_file_def h ext_def new_page_def Let_def by simp
    show ?thesis
    proof (cases "rd (forward_rule (hosts env1 h) @ [NUL]) 0 \<noteq> NUL \<and> ext = forward_type (hosts env1 h)")
      case fwd: True
      then obtain nret where f: "forward_request sys alloc env1 a w = Some (nret, env', w')" "reply = Reply nret"
        using r by (auto simp: rest_def)
      note kq = forward_request_keeps [OF f(1) a1(2,3)]
      have "pages_ok env'" using quiet_keeps_pages kq p1 by blast
      moreover have "keeps env env'" using keeps_trans [OF k1] kq by blast
      moreover have "limits__max_file_cache env' = limits__max_file_cache env" using kq s1 by (simp add: quiet_def served_def)
      moreover have "same_settings env env'" using kq s1 by (simp add: quiet_def served_def same_settings_def)
      moreover have "\<not> unforwarded (hosts env h) root name"
        using fwd s1 1 True uri by (auto simp: unforwarded_def served_def ext_def Let_def)
      moreover have "p_virtual_host (sessions env a) = Some h" using h s1 by (simp add: served_def)
      ultimately show ?thesis using f(2) by auto
    next
      case stat: False
      have "served env1 env'"
      proof (cases "dots (page_path root name)")
        case True
        have "env1 = env'" using r unfolding rest_def if_not_P [OF stat] Let_def if_P [OF True] by simp
        then show ?thesis using p1 by simp
      next
        case False
        let ?path = "page_path root name"
        note r' = r [unfolded rest_def if_not_P [OF stat] Let_def if_not_P [OF False]]
        have q: "(case QueryHtmlCachePathfilenameTreeNode env1 ?path of
            None \<Rightarrow> \<forall>c \<in> cached env1. path_key env1 c \<noteq> ?path
          | Some c \<Rightarrow> c \<in> cached env1 \<and> path_key env1 c = ?path)"
          by (rule QueryHtmlCachePathfilenameTreeNode_spec) (use p1 in \<open>simp add: pages_ok_def\<close>)
        show ?thesis
        proof (cases "QueryHtmlCachePathfilenameTreeNode env1 ?path")
          case (Some c)
          then have c: "c \<in> cached env1" using q by simp
          then have "\<not> st_directory (caches env1 c)" using p1 by (simp add: pages_ok_def)
          then obtain nret where sp: "serve_page sys z alloc True env1 a ext c False w = Some (nret, env', w')"
            using r' Some by auto
          show ?thesis using serve_cached [OF sp p1 c a1(1)] page_step_served by blast
        next
          case None
          then have new: "\<forall>c \<in> cached env1. path_key env1 c \<noteq> ?path" using q by simp
          obtain loaded where l: "load_page sys alloc ?path w = Some loaded" using r' None by (auto simp: bind_eq_Some_conv)
          show ?thesis
          proof (cases loaded)
            case (Inr code)
            then show ?thesis using r' None l p1 by auto
          next
            case (Inl p)
            note lp = load_page_result [OF l [unfolded Inl] sys(1)]
            show ?thesis
            proof (cases "st_directory p")
              case True
              then show ?thesis using r' None l Inl p1 by auto
            next
              case False
              then obtain nret where sp: "serve_page sys z alloc True (new_page env1 p) a ext (next_cache env1) True w
                  = Some (nret, env', w')"
                using r' None l Inl by auto
              show ?thesis
                by (rule serve_new [OF sp p1 a1(1) sys(2)])
                  (use lp False \<open>\<not> dots ?path\<close> new s1 in \<open>auto simp: served_def\<close>)
            qed
          qed
        qed
      qed
      from served_trans [OF s1 this] show ?thesis by (simp add: served_def)
    qed
  qed
qed

text \<open>The names in a list of index files.\<close>

function index_names :: "bytes \<Rightarrow> bytes list" where
  "index_names s = (case strtok '','' s of None \<Rightarrow> [] | Some (name, rest) \<Rightarrow> name # index_names rest)"
  by pat_completeness auto
termination by (relation "measure length") (auto dest: strtok_shorter)

declare index_names.simps [simp del]

text \<open>The index files of all hosts are served by the worker itself.\<close>

definition own_indexes :: "hetao_env \<Rightarrow> bool" where
  "own_indexes env \<longleftrightarrow> (\<forall>h. \<forall>name \<in> set (index_names (index_files (hosts env h))).
     unforwarded (hosts env h) (wwwroot (hosts env h)) name)"

lemma process_names_ok:
  assumes "process_names sys z alloc page env a root index names w = Some res"
  shows "page \<longrightarrow> pages_ok env \<longrightarrow> a \<in> used env \<longrightarrow> a < next_session env \<longrightarrow> forward_flags (sessions env a) = 0 \<longrightarrow>
     small_files sys (limits__max_file_cache env) \<longrightarrow> watches sys \<longrightarrow>
     (\<forall>h. p_virtual_host (sessions env a) = Some h \<longrightarrow>
        (\<forall>name \<in> set (index_names index) \<union> set (index_names names). unforwarded (hosts env h) root name)) \<longrightarrow>
     served env (fst (snd res))"
proof (rule process_names.raw_induct [OF _ assms], intro impI)
  fix rec sys z alloc page env a root index names w res
  assume IH: "\<And>sys z alloc page env a root index names w res.
      rec sys z alloc page env a root index names w = Some res \<Longrightarrow>
      page \<longrightarrow> pages_ok env \<longrightarrow> a \<in> used env \<longrightarrow> a < next_session env \<longrightarrow> forward_flags (sessions env a) = 0 \<longrightarrow>
      small_files sys (limits__max_file_cache env) \<longrightarrow> watches sys \<longrightarrow>
      (\<forall>h. p_virtual_host (sessions env a) = Some h \<longrightarrow>
        (\<forall>name \<in> set (index_names index) \<union> set (index_names names). unforwarded (hosts env h) root name)) \<longrightarrow>
      served env (fst (snd res))"
    and step: "(case strtok '','' names of None \<Rightarrow> Some (HTTP_NOT_FOUND, env, w)
       | Some (name, names) \<Rightarrow>
          (case process_file sys z alloc page env a root name w of None \<Rightarrow> None
           | Some (Is_directory, env, w) \<Rightarrow> rec sys z alloc page env a root index index w
           | Some (Reply nret, env, w) \<Rightarrow>
               if nret = HTTP_OK \<or> nret = 0 then Some (nret, env, w)
               else rec sys z alloc page env a root index names w)) = Some res"
    and page: page and ok: "pages_ok env" "a \<in> used env" "a < next_session env" "forward_flags (sessions env a) = 0"
    and sys: "small_files sys (limits__max_file_cache env)" "watches sys"
    and st: "\<forall>h. p_virtual_host (sessions env a) = Some h \<longrightarrow>
        (\<forall>name \<in> set (index_names index) \<union> set (index_names names). unforwarded (hosts env h) root name)"
  show "served env (fst (snd res))"
  proof (cases "strtok '','' names")
    case None
    then show ?thesis using step ok(1) by auto
  next
    case (Some p)
    obtain name rest where p: "p = (name, rest)" by fastforce
    have n: "index_names names = name # index_names rest" using Some p by (subst index_names.simps) simp
    obtain reply env1 w1 where 1: "process_file sys z alloc True env a root name w = Some (reply, env1, w1)"
      using step Some p page by (auto split: option.splits)
    have s1: "served env env1" using process_file_ok [OF 1 ok sys] st n by auto
    have a1: "pages_ok env1" "a \<in> used env1" "a < next_session env1" "forward_flags (sessions env1 a) = 0"
      "small_files sys (limits__max_file_cache env1)"
      using s1 ok sys keeps_used [of env env1] keeps_next [of env env1] by (simp_all add: served_def)
    have st1: "unforwarded (hosts env1 h) root x" if "p_virtual_host (sessions env1 a) = Some h"
      "x \<in> set (index_names index) \<union> set (index_names rest)" for h x
      using that s1 st n by (auto simp: served_def)
    have more: "served env (fst (snd res))" if "rec sys z alloc page env1 a root index ns w1 = Some res" "ns = index \<or> ns = rest" for ns
      using IH [OF that(1)] page a1 sys(2) st1 that(2) served_trans [OF s1] by blast
    show ?thesis
      using step Some p page 1 s1 more by (auto split: reply.splits if_splits)
  qed
qed

lemma ProcessHttpRequest_ok:
  assumes "ProcessHttpRequest sys z alloc True env a (wwwroot (hosts env h)) name w = Some (nret, env', w')"
    and ok: "pages_ok env" "a \<in> used env" "a < next_session env" "forward_flags (sessions env a) = 0"
    and sys: "small_files sys (limits__max_file_cache env)" "watches sys"
    and h: "p_virtual_host (sessions env a) = Some h" "own_indexes env"
  shows "keeps env env' \<and> pages_ok env' \<and> limits__max_file_cache env' = limits__max_file_cache env \<and> same_settings env env'"
proof -
  obtain reply env1 w1 where 1: "process_file sys z alloc True env a (wwwroot (hosts env h)) name w = Some (reply, env1, w1)"
    using assms(1) by (auto simp: ProcessHttpRequest_def bind_eq_Some_conv)
  note p1 = process_file_ok [OF 1 ok sys]
  show ?thesis
  proof (cases reply)
    case (Reply n)
    then show ?thesis using assms(1) 1 p1 by (simp add: ProcessHttpRequest_def)
  next
    case Is_directory
    then have s1: "served env env1" using p1 by simp
    have h1: "p_virtual_host (sessions env1 a) = Some h" "hosts env1 = hosts env" using s1 h(1) by (simp_all add: served_def)
    have a1: "pages_ok env1" "a \<in> used env1" "a < next_session env1" "forward_flags (sessions env1 a) = 0"
      "small_files sys (limits__max_file_cache env1)"
      using s1 ok sys keeps_used [of env env1] keeps_next [of env env1] by (simp_all add: served_def)
    let ?index = "index_files (hosts env h)"
    have r: "(if ?index = [] then Some (HTTP_NOT_FOUND, env1, w1)
        else process_names sys z alloc True env1 a (wwwroot (hosts env h)) ?index ?index w1) = Some (nret, env', w')"
      using assms(1) unfolding ProcessHttpRequest_def 1 Is_directory by (simp add: h1 Let_def cong: if_cong)
    have "served env1 env'"
    proof (cases "?index = []")
      case True
      then show ?thesis using r a1(1) by simp
    next
      case False
      then have "process_names sys z alloc True env1 a (wwwroot (hosts env h)) ?index ?index w1 = Some (nret, env', w')"
        using r by simp
      from process_names_ok [OF this] show ?thesis
        using a1 sys(2) h(2) h1 by (auto simp: own_indexes_def)
    qed
    from served_trans [OF s1 this] show ?thesis by (simp add: served_def)
  qed
qed

end
