(* ===== verification/HetaoLoop.thy ===== *)
theory HetaoLoop
  imports HetaoServing
begin

text \<open>
  Theorems on the worker as a whole: the invariant \<open>server_ok\<close> (session pool, connections per address, connections
  to the forward servers, cached pages) is kept by every event of a session, of a listener, of the cache and of the
  pipe, by the sweep and by the rounds of the main loop, as long as no event of a batch belongs to a session that
  has been released before its turn.
\<close>

section \<open>The invariant\<close>

definition server_ok :: "hetao_env \<Rightarrow> bool" where
  "server_ok env \<longleftrightarrow> pool_ok env \<and> counted env \<and> balanced env \<and> pages_ok env"

text \<open>What the operations leave alone, beside the invariant: the limit of the cache and the settings of the hosts.\<close>

definition same_limits :: "hetao_env \<Rightarrow> hetao_env \<Rightarrow> bool" where
  "same_limits env env' \<longleftrightarrow> limits__max_file_cache env' = limits__max_file_cache env \<and> same_settings env env'"

lemma same_limits_refl [simp]: "same_limits env env" by (simp add: same_limits_def)
lemma same_limits_trans: "same_limits env1 env2 \<Longrightarrow> same_limits env2 env3 \<Longrightarrow> same_limits env1 env3"
  by (auto simp: same_limits_def intro: same_settings_trans)
lemma quiet_limits: "quiet env env' \<Longrightarrow> same_limits env env'" by (simp add: quiet_def same_limits_def)

lemma unforwarded_settings: "host_settings v' = host_settings v \<Longrightarrow> unforwarded v' = unforwarded v"
  by (simp add: host_settings_def unforwarded_def fun_eq_iff)

lemma own_indexes_limits:
  assumes "same_limits env env'" "own_indexes env" shows "own_indexes env'"
proof -
  have "host_settings (hosts env' h) = host_settings (hosts env h)" for h
    using assms(1) by (simp add: same_limits_def same_settings_def)
  then show ?thesis
    using assms(2) unforwarded_settings [of "hosts env' h" "hosts env h" for h]
    by (simp add: own_indexes_def) (simp add: host_settings_def)
qed

lemma keeps_server_ok:
  assumes "keeps env env'" "pages_ok env'" "server_ok env" shows "server_ok env'"
  using assms pool_cong(1,2) [of env' env] by (simp add: server_ok_def keeps_def)

lemma quiet_server_ok: "keeps env env' \<Longrightarrow> quiet env env' \<Longrightarrow> server_ok env \<Longrightarrow> server_ok env'"
  by (rule keeps_server_ok) (auto simp: server_ok_def intro: quiet_keeps_pages)

lemma used_next: "server_ok env \<Longrightarrow> a \<in> used env \<Longrightarrow> a < next_session env"
  by (auto simp: server_ok_def pool_ok_def)

section \<open>Releasing and fetching a session\<close>

lemma balanced_links:
  assumes "balanced env" "\<And>a. link env' a = link env a" "\<And>f. conns env' f = conns env f" shows "balanced env'"
  using balanced_same [of env env'] assms by (simp add: fun_eq_iff)

lemma close_session_keeps:
  assumes "close_session sys alloc env a w = Some (env', w')" "a < next_session env"
  shows "keeps env env'"
proof -
  obtain x w1 where 1: "sys_epoll_ctl sys EPOLL_CTL_DEL (na_sock (netaddr (sessions env a))) NO_EVENTS w = (x, w1)" by fastforce
  let ?env1 = "upd_session a (\<lambda>s. s\<lparr>session_flag := 0\<rparr>) env"
  let ?env2 = "if ssl (sessions env a) then upd_session a (\<lambda>s. s\<lparr>ssl := False, ssl_accepted := False\<rparr>) ?env1 else ?env1"
  let ?w2 = "if ssl (sessions env a) then sys_ssl_free sys (na_sock (netaddr (sessions env a))) w1 else w1"
  let ?env3 = "upd_session a (\<lambda>s. s\<lparr>http := ResetHttpEnv alloc (http s), p_virtual_host := None\<rparr>) ?env2"
  have k1: "keeps env ?env1" by (rule keeps_upd) simp_all
  have k2: "keeps env ?env2" by (auto intro: keeps_trans [OF k1 keeps_upd] k1)
  have k3: "keeps env ?env3" by (rule keeps_trans [OF k2 keeps_upd]) simp_all
  have "(if p_forward_server (sessions ?env3 a) \<noteq> None
      then SetHttpSessionUnused_05 sys alloc ?env3 a (sys_close sys (na_sock (netaddr (sessions env a))) ?w2)
      else Some (?env3, sys_close sys (na_sock (netaddr (sessions env a))) ?w2)) = Some (env', w')"
    using assms(1) 1 by (simp add: close_session_def Let_def split: if_splits)
  moreover have "a < next_session ?env3" using keeps_next [OF k3] assms(2) by simp
  ultimately show ?thesis
    using k3 keeps_trans [OF k3 SetHttpSessionUnused_05_keeps]
    by (cases "p_forward_server (sessions ?env3 a) = None") (simp_all only: simp_thms if_True if_False option.inject prod.inject)
qed

lemma release_ok:
  assumes ok: "server_ok env" and a: "a \<in> used env" and r: "SetHttpSessionUnused sys alloc env a w = Some (env', w')"
  shows "server_ok env' \<and> used env' = used env - {a} \<and> same_limits env env'"
proof -
  have p: "pool_ok env'" "used env' = used env - {a}" "counted env'"
    using SetHttpSessionUnused_ok [of env a sys alloc w] ok a r by (auto simp: server_ok_def)
  note q = SetHttpSessionUnused_quiet [OF r]
  have "pages_ok env'"
  proof (rule quiet_pages)
    show "quiet env env'" "pages_ok env" using q ok by (simp_all add: server_ok_def)
    show "p_append_buffer (http (sessions env' b)) = None" if "b \<in> used env" "b \<notin> used env'" for b
      using that p(2) q by auto
  qed
  moreover have "balanced env'"
  proof -
    obtain env1 w1 where 1: "close_session sys alloc env a w = Some (env1, w1)"
      using r by (auto simp: SetHttpSessionUnused_def bind_eq_Some_conv)
    have "balanced env1" using close_session_keeps [OF 1 used_next [OF ok a]] ok by (simp add: keeps_def server_ok_def)
    moreover have "sessions env' = sessions env1 \<and> servers env' = servers env1 \<and> next_session env' = next_session env1"
      using r 1 by (auto simp: SetHttpSessionUnused_def Let_def bind_eq_Some_conv RemoveHttpSessionTimeoutTreeNode_def
        RemoveHttpSessionElapseTreeNode_def split: if_splits)
    ultimately show ?thesis by (auto intro: balanced_links simp: link_def)
  qed
  ultimately show ?thesis using p quiet_limits q by (simp add: server_ok_def)
qed

lemma create_sessions_links:
  assumes "create_sessions mem alloc i n env = (nret, env')"
  shows "link env' a = link env a \<and> servers env' = servers env"
  using assms
proof (induction n arbitrary: i env)
  case (Suc n)
  obtain h l where 1: "CreateHttpEnv (mem i) alloc (http_lib_state env) = (h, l)" by fastforce
  show ?case
  proof (cases "h = None \<or> AllocHttpBuffer2 (mem (i + 1)) 0 [] = None")
    case True
    then show ?thesis using Suc.prems 1 by (auto simp: link_def split: option.splits)
  next
    case False
    then obtain hh b where 2: "h = Some hh" "AllocHttpBuffer2 (mem (i + 1)) 0 [] = Some b" by auto
    obtain f l' where 3: "CreateHttpEnv (mem (i + 2)) alloc l = (f, l')" by fastforce
    show ?thesis
    proof (cases f)
      case None
      then show ?thesis using Suc.prems 1 2 3 by (auto simp: link_def)
    next
      case (Some ff)
      let ?s = "zero_session (SetHttpTimeout hh (- 1)) (b\<lparr>base := None\<rparr>) (SetHttpTimeout ff (- 1))"
      let ?env1 = "env\<lparr>http_lib_state := l', sessions := (sessions env)(next_session env := ?s), next_session := next_session env + 1,
         http_session_unused_list := http_session_unused_list env @ [next_session env]\<rparr>"
      have "create_sessions mem alloc (i + 3) n ?env1 = (nret, env')" using Suc.prems 1 2 3 Some by (simp add: Let_def)
      from Suc.IH [OF this] show ?thesis by (auto simp: link_def zero_session_def)
    qed
  qed
qed simp

lemma fetch_first_links:
  assumes "fetch_first sys env w = Some (r, env', w')"
  shows "link env' a = link env a \<and> conns env' f = conns env f"
proof -
  obtain b rest where l: "http_session_unused_list env = b # rest"
    using assms by (auto simp: fetch_first_def split: list.splits)
  obtain n1 w1 where n1: "sys_now sys w = (n1, w1)" by fastforce
  let ?env1 = "upd_session b (\<lambda>s. s\<lparr>timeout_timestamp := c_int (c_int n1 + http_options__timeout env)\<rparr>)
     (env\<lparr>http_session_unused_list := rest\<rparr>)"
  obtain m env2 where 2: "AddHttpSessionTimeoutTreeNode ?env1 b = Some (m, env2)"
    using assms l n1 by (auto simp: fetch_first_def Let_def bind_eq_Some_conv)
  obtain n2 w2 where n2: "sys_now sys w1 = (n2, w2)" by fastforce
  let ?env3 = "upd_session b (\<lambda>s. s\<lparr>elapse_timestamp := c_int (c_int n2 + http_options__elapse env2)\<rparr>) env2"
  obtain k env4 where 4: "AddHttpSessionElapseTreeNode ?env3 b = Some (k, env4)"
    using assms l n1 2 n2 by (auto simp: fetch_first_def Let_def bind_eq_Some_conv)
  have "env' = env4\<lparr>http_session_used_count := http_session_used_count env4 + 1,
    http_session_unused_count := http_session_unused_count env4 - 1\<rparr>"
    using assms l n1 2 n2 4 by (auto simp: fetch_first_def Let_def bind_eq_Some_conv)
  moreover have "sessions env4 = sessions ?env3 \<and> servers env4 = servers ?env3 \<and> next_session env4 = next_session ?env3"
    using 4 unfolding AddHttpSessionElapseTreeNode_def by clarsimp
  moreover have "sessions env2 = sessions ?env1 \<and> servers env2 = servers ?env1 \<and> next_session env2 = next_session ?env1"
    using 2 unfolding AddHttpSessionTimeoutTreeNode_def by clarsimp
  ultimately show ?thesis by (auto simp: link_def)
qed

lemma IncreaseHttpSessions_links:
  assumes "IncreaseHttpSessions mem alloc env c = (nret, env')"
  shows "link env' a = link env a \<and> servers env' = servers env"
proof -
  obtain n env1 where 1: "create_sessions mem alloc 2 (nat (if http_session_used_count env + c > limits__max_http_session_count env
      then limits__max_http_session_count env - http_session_used_count env else c)) env = (n, env1)" by fastforce
  have "env' = env \<or> env' = env1 \<or> (\<exists>v. env' = env1\<lparr>http_session_unused_count := v\<rparr>)"
    using assms 1 by (auto simp: IncreaseHttpSessions_def Let_def split: if_splits)
  moreover have "link (env1\<lparr>http_session_unused_count := v\<rparr>) a = link env1 a" for v by (simp add: link_def)
  ultimately show ?thesis using create_sessions_links [OF 1, of a] by auto
qed

lemma FetchHttpSessionUnused_links:
  assumes "FetchHttpSessionUnused sys node mem alloc env i w = Some (r, env', w')"
  shows "link env' a = link env a \<and> conns env' f = conns env f"
proof -
  obtain n t where 1: "(if limits__max_connections_per_ip env \<noteq> - 1
    then IncreaseIpLimitsHashNode (limits__max_connections_per_ip env) node (iplimits_hash env) i
    else (0, iplimits_hash env)) = (n, t)" by fastforce
  let ?env1 = "env\<lparr>iplimits_hash := t\<rparr>"
  obtain n2 env2 where 2: "(if http_session_unused_count ?env1 = 0
    then IncreaseHttpSessions mem alloc ?env1 INCRE_HTTP_SESSION_COUNT else (0, ?env1)) = (n2, env2)" by fastforce
  have "link env2 a = link ?env1 a \<and> servers env2 = servers ?env1"
  proof (cases "http_session_unused_count ?env1 = 0")
    case True
    then have "IncreaseHttpSessions mem alloc ?env1 INCRE_HTTP_SESSION_COUNT = (n2, env2)" using 2 by simp
    then show ?thesis by (rule IncreaseHttpSessions_links)
  next
    case False
    then show ?thesis using 2 by auto
  qed
  moreover have "link ?env1 a = link env a" by (simp add: link_def)
  moreover have "env' = ?env1 \<or> env' = env2 \<or> fetch_first sys env2 w = Some (r, env', w')"
    using assms 1 2 by (auto simp: FetchHttpSessionUnused_def Let_def split: if_splits)
  ultimately show ?thesis using fetch_first_links [of sys env2 w r env' w' a f] by auto
qed

lemma OnAcceptingSslSocket_keeps: "OnAcceptingSslSocket sys env a w = (nret, env', w') \<Longrightarrow> keeps env env'"
  by (auto simp: OnAcceptingSslSocket_def Let_def split: prod.splits handshake.splits if_splits intro!: keeps_upd)

lemma drop_ok:
  assumes "server_ok env" "a \<in> used env"
    and "map_option (\<lambda>(c, r). (Some c, r)) (drop_session sys alloc code env a w) = Some (r, env', w')"
  shows "server_ok env' \<and> used env' = used env - {a} \<and> same_limits env env'"
proof -
  have "SetHttpSessionUnused sys alloc env a w = Some (env', w')" using assms(3) by (auto simp: drop_session_def)
  from release_ok [OF assms(1,2) this] show ?thesis .
qed

lemma pool_ok_netaddr: "pool_ok (upd_session a (\<lambda>s. s\<lparr>netaddr := n\<rparr>) env) = pool_ok env"
proof -
  let ?env' = "upd_session a (\<lambda>s. s\<lparr>netaddr := n\<rparr>) env"
  have "timeout_key ?env' = timeout_key env" "elapse_key ?env' = elapse_key env" by (auto simp: fun_eq_iff)
  then show ?thesis unfolding pool_ok_def used_def by (simp only:) simp
qed

text \<open>A session in use stays in use while connections are accepted.\<close>

lemma open_session_ok:
  assumes ok: "server_ok env" and run: "open_session sys True mem alloc env l sock i port w = Some (r, env', w')"
  shows "server_ok env' \<and> used env \<subseteq> used env' \<and> same_limits env env'"
proof -
  obtain f env1 w1 where 1: "FetchHttpSessionUnused sys True mem alloc env i w = Some (f, env1, w1)"
    using run by (auto simp: open_session_def bind_eq_Some_conv)
  have p: "pool_ok env1" "case f of None \<Rightarrow> used env1 = used env \<and> counted env1
        | Some a \<Rightarrow> a \<notin> used env \<and> used env1 = insert a (used env)
            \<and> (\<forall>n. na_addr n = i \<longrightarrow> counted (upd_session a (\<lambda>s. s\<lparr>netaddr := n\<rparr>) env1))"
    using FetchHttpSessionUnused_ok [of env sys mem alloc i w] ok 1 by (auto simp: server_ok_def)
  have q1: "quiet env env1" by (rule FetchHttpSessionUnused_quiet [OF 1])
  have b1: "balanced env1"
    by (rule balanced_links [of env]) (use ok FetchHttpSessionUnused_links [OF 1] in \<open>simp_all add: server_ok_def\<close>)
  have sub: "used env \<subseteq> used env1" using p(2) by (auto split: option.splits)
  have g1: "pages_ok env1" by (rule quiet_pages [OF q1]) (use ok sub in \<open>auto simp: server_ok_def\<close>)
  show ?thesis
  proof (cases f)
    case None
    then show ?thesis using run 1 p b1 g1 quiet_limits [OF q1] by (simp add: open_session_def server_ok_def)
  next
    case (Some a)
    define env2 where "env2 = upd_session a (\<lambda>s. s\<lparr>p_listen_session := Some l,
       netaddr := (netaddr s)\<lparr>na_sock := sock, na_addr := i, na_ip := printed_address port\<rparr>\<rparr>) env1"
    have a: "a \<in> used env1" "a \<notin> used env" "used env1 = insert a (used env)" using p(2) Some by simp_all
    define n where "n = (netaddr (sessions env1 a))\<lparr>na_sock := sock, na_addr := i, na_ip := printed_address port\<rparr>"
    let ?env1 = "upd_session a (\<lambda>s. s\<lparr>netaddr := n\<rparr>) env1"
    have pool2: "pool env2 = pool ?env1" by (auto simp: env2_def n_def pool_def fun_eq_iff)
    have a2: "a \<in> used env2" "used env2 = used env1" using a pool_cong(3) [OF pool2] by (simp_all add: used_def)
    have q2: "quiet env1 env2" unfolding env2_def by (rule quiet_upd) simp_all
    have ok2: "server_ok env2"
    proof -
      have "pool_ok env2" using p(1) by (simp add: pool_cong(1) [OF pool2] pool_ok_netaddr)
      moreover have "counted env2" using p(2) Some by (simp add: pool_cong(2) [OF pool2] n_def)
      moreover have "balanced env2" by (rule balanced_links [OF b1]) (auto simp: env2_def link_def)
      moreover have "pages_ok env2" by (rule quiet_pages [OF q2 g1]) (simp add: a2(2))
      ultimately show ?thesis by (simp add: server_ok_def)
    qed
    have l2: "same_limits env env2"
      by (rule same_limits_trans [OF quiet_limits [OF q1] quiet_limits [OF q2]])
    obtain n w2 where 2: "sys_epoll_ctl sys EPOLL_CTL_ADD sock EPOLLIN_ERR w1 = (n, w2)" by fastforce
    obtain created w3 where 3: "sys_ssl_new sys w2 = (created, w3)" by fastforce
    define env3 where "env3 = upd_session a (\<lambda>s. s\<lparr>ssl := created\<rparr>) env2"
    define env4 where "env4 = upd_session a (\<lambda>s. s\<lparr>ssl_accepted := False\<rparr>) env3"
    obtain n5 env5 w5 where 5: "OnAcceptingSslSocket sys env4 a w3 = (n5, env5, w5)" by (rule prod_cases3)
    have k3: "keeps env2 env3" "quiet env2 env3" unfolding env3_def by (rule keeps_upd quiet_upd; simp)+
    have k4: "keeps env3 env4" "quiet env3 env4" unfolding env4_def by (rule keeps_upd quiet_upd; simp)+
    have k5: "keeps env2 env5" "quiet env2 env5"
      using keeps_trans [OF keeps_trans [OF k3(1) k4(1)] OnAcceptingSslSocket_keeps [OF 5]]
        quiet_trans [OF quiet_trans [OF k3(2) k4(2)] OnAcceptingSslSocket_quiet [OF 5]] by simp_all
    have on: "server_ok x \<and> a \<in> used x \<and> used x = used env1 \<and> same_limits env x" if "keeps env2 x" "quiet env2 x" for x
      using that quiet_server_ok [OF that ok2] keeps_used [OF that(1)] a2 same_limits_trans [OF l2 quiet_limits] by simp
    have drop: ?thesis if "keeps env2 x" "quiet env2 x"
      "map_option (\<lambda>(c, r). (Some c, r)) (drop_session sys alloc code x a v) = Some (r, env', w')" for x code v
      using drop_ok [OF _ _ that(3)] on [OF that(1,2)] a(2,3) same_limits_trans by auto
    have stay: ?thesis if "keeps env2 env'" "quiet env2 env'"
      using on [OF that] a(3) by auto
    have "(if n = - 1 then map_option (\<lambda>(c, r). (Some c, r)) (drop_session sys alloc (- 1) env2 a w2)
      else if ls_ssl_ctx (listens env2 l) then
        if \<not> created then map_option (\<lambda>(c, r). (Some c, r)) (drop_session sys alloc 1 env3 a w3)
        else if n5 \<noteq> 0 then map_option (\<lambda>(c, r). (Some c, r)) (drop_session sys alloc 0 env5 a w5)
        else Some (Some 0, env5, w5)
      else Some (None, env2, w2)) = Some (r, env', w')"
      using run 5 unfolding open_session_def 1 env4_def env3_def env2_def by (simp add: Some 2 3 Let_def cong: if_cong split del: if_split)
    then show ?thesis
      using drop [of env2] drop [of env3] drop [of env5] stay k3 k5 keeps_refl quiet_refl by (auto split: if_splits)
  qed
qed

lemma accept_loop_ok:
  assumes "server_ok env" "accept_loop sys True mem alloc n env l w = Some (nret, env', w')"
  shows "server_ok env' \<and> used env \<subseteq> used env' \<and> same_limits env env'"
  using assms
proof (induction n arbitrary: env w)
  case (Suc n)
  obtain r w1 where 1: "sys_accept sys (na_sock (ls_netaddr (listens env l))) w = (r, w1)" by fastforce
  show ?case
  proof (cases r)
    case (Accepted sock i port)
    obtain c env2 w2 where 2: "open_session sys True mem alloc env l sock i port w1 = Some (c, env2, w2)"
      using Suc.prems(2) 1 Accepted by (auto split: option.splits)
    note o = open_session_ok [OF Suc.prems(1) 2]
    show ?thesis
    proof (cases c)
      case None
      then have "accept_loop sys True mem alloc n env2 l w2 = Some (nret, env', w')" using Suc.prems(2) 1 Accepted 2 by simp
      from Suc.IH [OF _ this] show ?thesis using o same_limits_trans by blast
    next
      case (Some x)
      then show ?thesis using Suc.prems(2) 1 Accepted 2 o by simp
    qed
  next
    case (Accept_failed e)
    then show ?thesis using Suc.prems 1 by simp
  qed
qed simp

section \<open>The sweep\<close>

text \<open>Every pass releases a session, so the sweep returns, whatever the clock says.\<close>

lemma expired_used:
  assumes "pool_ok env" "fst (GetExpireHttpSessionTimeoutTreeNode sys env w) = Some a \<or> fst (GetExpireHttpSessionElapseTreeNode sys env w) = Some a"
  shows "a \<in> used env"
  using assms rb_first_inorder [of "http_session_timeout_rbtree_used env"] rb_first_inorder [of "http_session_elapse_rbtree_used env"]
  by (auto simp: GetExpireHttpSessionTimeoutTreeNode_def GetExpireHttpSessionElapseTreeNode_def pool_ok_def used_def
      split: option.splits prod.splits if_splits dest!: sym [of "Some _"])

lemma released:
  assumes "server_ok env" "a \<in> used env"
  obtains env' w' where "SetHttpSessionUnused sys alloc env a w = Some (env', w')" "server_ok env'"
    "used env' = used env - {a}" "same_limits env env'" "card (used env') < card (used env)"
proof -
  obtain env' w' where 1: "SetHttpSessionUnused sys alloc env a w = Some (env', w')"
    using SetHttpSessionUnused_ok [of env a sys alloc w] assms by (auto simp: server_ok_def)
  note r = release_ok [OF assms 1]
  then have "card (used env') < card (used env)" using card_Diff1_less [OF finite_used(1) assms(2)] by simp
  then show ?thesis using that [OF 1] r by blast
qed

lemma expire_timeouts_server:
  assumes "server_ok env"
  shows "\<exists>env' w'. expire_timeouts sys alloc env w = Some (env', w') \<and> server_ok env' \<and> used env' \<subseteq> used env \<and> same_limits env env'"
  using assms
proof (induction "card (used env)" arbitrary: env w rule: less_induct)
  case less
  obtain x w0 where g: "GetExpireHttpSessionTimeoutTreeNode sys env w = (x, w0)" by fastforce
  show ?case
  proof (cases x)
    case None
    then show ?thesis using less.prems g by (subst expire_timeouts.simps) auto
  next
    case (Some a)
    have a: "a \<in> used env" using expired_used [of env sys w a] less.prems g Some by (simp add: server_ok_def)
    obtain env1 w1 where 1: "SetHttpSessionUnused sys alloc env a w0 = Some (env1, w1)" "server_ok env1"
      "used env1 = used env - {a}" "same_limits env env1" "card (used env1) < card (used env)"
      using released [OF less.prems a] .
    from less.hyps [OF 1(5,2), of w1] obtain env' w' where
      2: "expire_timeouts sys alloc env1 w1 = Some (env', w')" "server_ok env'" "used env' \<subseteq> used env1" "same_limits env1 env'"
      by blast
    have "expire_timeouts sys alloc env w = Some (env', w')"
      using g Some 1(1) 2(1) by (subst expire_timeouts.simps) simp
    then show ?thesis using 1 2 same_limits_trans by blast
  qed
qed

lemma expire_elapses_server:
  assumes "server_ok env"
  shows "\<exists>env' w'. expire_elapses sys alloc env w = Some (env', w') \<and> server_ok env' \<and> used env' \<subseteq> used env \<and> same_limits env env'"
  using assms
proof (induction "card (used env)" arbitrary: env w rule: less_induct)
  case less
  obtain x w0 where g: "GetExpireHttpSessionElapseTreeNode sys env w = (x, w0)" by fastforce
  show ?case
  proof (cases x)
    case None
    then show ?thesis using less.prems g by (subst expire_elapses.simps) auto
  next
    case (Some a)
    have a: "a \<in> used env" using expired_used [of env sys w a] less.prems g Some by (simp add: server_ok_def)
    obtain env1 w1 where 1: "SetHttpSessionUnused sys alloc env a w0 = Some (env1, w1)" "server_ok env1"
      "used env1 = used env - {a}" "same_limits env env1" "card (used env1) < card (used env)"
      using released [OF less.prems a] .
    from less.hyps [OF 1(5,2), of w1] obtain env' w' where
      2: "expire_elapses sys alloc env1 w1 = Some (env', w')" "server_ok env'" "used env' \<subseteq> used env1" "same_limits env1 env'"
      by blast
    have "expire_elapses sys alloc env w = Some (env', w')"
      using g Some 1(1) 2(1) by (subst expire_elapses.simps) simp
    then show ?thesis using 1 2 same_limits_trans by blast
  qed
qed

lemma second_sweep_server:
  assumes "server_ok env"
  shows "\<exists>env' w'. second_sweep sys alloc env w = Some (env', w') \<and> server_ok env' \<and> used env' \<subseteq> used env \<and> same_limits env env'"
proof -
  obtain env1 w1 where 1: "expire_timeouts sys alloc env w = Some (env1, w1)" "server_ok env1" "used env1 \<subseteq> used env" "same_limits env env1"
    using expire_timeouts_server [OF assms, of sys alloc w] by blast
  obtain env2 w2 where 2: "expire_elapses sys alloc env1 w1 = Some (env2, w2)" "server_ok env2" "used env2 \<subseteq> used env1" "same_limits env1 env2"
    using expire_elapses_server [OF 1(2), of sys alloc w1] by blast
  show ?thesis using 1 2 same_limits_trans by (auto simp: second_sweep_def)
qed

section \<open>The handlers of a session\<close>

definition server_step :: "hetao_env \<Rightarrow> hetao_env \<Rightarrow> bool" where
  "server_step env env' \<longleftrightarrow> server_ok env' \<and> used env' = used env \<and> same_limits env env'"

lemma server_step_refl [simp]: "server_step env env = server_ok env" by (simp add: server_step_def)
lemma server_step_trans: "server_step env1 env2 \<Longrightarrow> server_step env2 env3 \<Longrightarrow> server_step env1 env3"
  by (auto simp: server_step_def intro: same_limits_trans)
lemma quiet_step: "keeps env env' \<Longrightarrow> quiet env env' \<Longrightarrow> server_ok env \<Longrightarrow> server_step env env'"
  by (simp add: server_step_def quiet_server_ok keeps_used quiet_limits)

lemma touch_timeout_step:
  assumes "server_ok env" "a \<in> used env" "touch_timeout sys env a w = Some (env', w')" shows "server_step env env'"
proof -
  obtain t n where 1: "UpdateHttpSessionTimeoutTreeNode env a t = Some (n, env')"
    using assms(3) by (auto simp: touch_timeout_def split: prod.splits)
  have p: "pool_ok env'" "used env' = used env" "counted env'"
    "sessions env' = (sessions env)(a := (sessions env a)\<lparr>timeout_timestamp := t\<rparr>)"
    using UpdateHttpSessionTimeoutTreeNode_ok [of env a t] assms(1,2) 1 by (auto simp: server_ok_def)
  have "servers env' = servers env \<and> next_session env' = next_session env"
    using 1 by (auto simp: UpdateHttpSessionTimeoutTreeNode_def RemoveHttpSessionTimeoutTreeNode_def
        AddHttpSessionTimeoutTreeNode_def bind_eq_Some_conv)
  then have "balanced env'" using assms(1) p(4) by (auto simp: server_ok_def link_def intro: balanced_links)
  moreover have q: "quiet env env'" by (rule touch_timeout_quiet [OF assms(3)])
  moreover have "pages_ok env'" by (rule quiet_pages [OF q]) (use assms(1) p(2) in \<open>simp_all add: server_ok_def\<close>)
  ultimately show ?thesis using p by (simp add: server_step_def server_ok_def quiet_limits)
qed

lemma touch_elapse_step:
  assumes "server_ok env" "a \<in> used env" "touch_elapse sys env a w = Some (env', w')" shows "server_step env env'"
proof -
  obtain t n where 1: "UpdateHttpSessionElapseTreeNode env a t = Some (n, env')"
    using assms(3) by (auto simp: touch_elapse_def split: prod.splits)
  have p: "pool_ok env'" "used env' = used env" "counted env'"
    "sessions env' = (sessions env)(a := (sessions env a)\<lparr>elapse_timestamp := t\<rparr>)"
    using UpdateHttpSessionElapseTreeNode_ok [of env a t] assms(1,2) 1 by (auto simp: server_ok_def)
  have "servers env' = servers env \<and> next_session env' = next_session env"
    using 1 by (auto simp: UpdateHttpSessionElapseTreeNode_def RemoveHttpSessionElapseTreeNode_def
        AddHttpSessionElapseTreeNode_def bind_eq_Some_conv)
  then have "balanced env'" using assms(1) p(4) by (auto simp: server_ok_def link_def intro: balanced_links)
  moreover have q: "quiet env env'" by (rule touch_elapse_quiet [OF assms(3)])
  moreover have "pages_ok env'" by (rule quiet_pages [OF q]) (use assms(1) p(2) in \<open>simp_all add: server_ok_def\<close>)
  ultimately show ?thesis using p by (simp add: server_step_def server_ok_def quiet_limits)
qed

lemma touch_both_step:
  assumes "server_ok env" "a \<in> used env"
    and "do { (env, w) \<leftarrow> touch_timeout sys env a w; (env, w) \<leftarrow> touch_elapse sys env a w; Some (c, env, w) } = Some (c', env', w')"
  shows "server_step env env'"
proof -
  obtain env1 w1 where 1: "touch_timeout sys env a w = Some (env1, w1)" "touch_elapse sys env1 a w1 = Some (env', w')"
    using assms(3) by (auto simp: bind_eq_Some_conv)
  note s1 = touch_timeout_step [OF assms(1,2) 1(1)]
  then have "server_ok env1" "a \<in> used env1" using assms(2) by (simp_all add: server_step_def)
  from touch_elapse_step [OF this 1(2)] show ?thesis by (rule server_step_trans [OF s1])
qed

lemma OnSendingSocket_step:
  assumes ok: "server_ok env" "a \<in> used env" and run: "OnSendingSocket sys z alloc env a w = Some (nret, env', w')"
  shows "server_step env env'"
proof -
  obtain n e w1 where 1: "SendHttpResponseNonblock (sys_os sys (na_sock (netaddr (sessions env a))) (ssl (sessions env a)))
      z alloc (http_lib_state env) no_hook (http (sessions env a)) w = Some (n, e, w1)"
    using run by (auto simp: OnSendingSocket_def Let_def bind_eq_Some_conv)
  let ?env1 = "upd_session a (\<lambda>s. s\<lparr>http := e\<rparr>) env"
  have k1: "keeps env ?env1" by (rule keeps_upd) simp_all
  have s1: "server_step env ?env1"
    by (rule quiet_step [OF k1 quiet_http [OF SendHttpResponseNonblock_lends [OF 1]] ok(1)])
  then have o1: "server_ok ?env1" "a \<in> used ?env1" using ok(2) by (simp_all add: server_step_def)
  show ?thesis
  proof (cases "n = 0")
    case False
    then have "env' = ?env1 \<or> touch_timeout sys ?env1 a w1 = Some (env', w')"
      using run 1 by (auto simp: OnSendingSocket_def Let_def bind_eq_Some_conv split: if_splits)
    then show ?thesis using s1 server_step_trans [OF s1 touch_timeout_step [OF o1, of sys w1 env' w']] by auto
  next
    case True
    obtain w2 where 2: "write_access_log sys ?env1 a w1 = Some w2"
      using run 1 True by (auto simp: OnSendingSocket_def Let_def bind_eq_Some_conv)
    show ?thesis
    proof (cases "CheckHttpKeepAlive (http (sessions ?env1 a))")
      case False
      then show ?thesis using run 1 2 True s1 by (simp add: OnSendingSocket_def Let_def)
    next
      case keep: True
      let ?env2 = "upd_session a (\<lambda>s. s\<lparr>http := ResetHttpEnv alloc (http s)\<rparr>) ?env1"
      have k2: "keeps ?env1 ?env2" by (rule keeps_upd) simp_all
      have q2: "quiet ?env1 ?env2" by (rule quiet_http_upd) simp_all
      have s2: "server_step env ?env2" by (rule server_step_trans [OF s1 quiet_step [OF k2 q2 o1(1)]])
      then have o2: "server_ok ?env2" "a \<in> used ?env2" using ok(2) by (simp_all add: server_step_def)
      obtain env3 w3 where 3: "touch_timeout sys ?env2 a w2 = Some (env3, w3)"
        using run 1 2 True keep by (auto simp: OnSendingSocket_def Let_def bind_eq_Some_conv)
      have s3: "server_step env env3" by (rule server_step_trans [OF s2 touch_timeout_step [OF o2 3]])
      then have o3: "server_ok env3" "a \<in> used env3" using ok(2) by (simp_all add: server_step_def)
      obtain n4 w4 where 4: "sys_epoll_ctl sys EPOLL_CTL_MOD (na_sock (netaddr (sessions env3 a))) EPOLLIN_ERR w3 = (n4, w4)"
        by fastforce
      have "(if n4 = 1 then Some (- 1, env3, w4) else do { (env, w) \<leftarrow> touch_timeout sys env3 a w4;
          (env, w) \<leftarrow> touch_elapse sys env a w; Some (0, env, w) }) = Some (nret, env', w')"
        using run 1 2 True keep 3 4 by (simp add: OnSendingSocket_def Let_def)
      then show ?thesis
        using s3 server_step_trans [OF s3 touch_both_step [OF o3]] by (cases "n4 = 1") (simp, simp only: if_False)
    qed
  qed
qed

lemma ProcessHttpRequest_step:
  assumes "ProcessHttpRequest sys z alloc True env a (wwwroot (hosts env h)) name w = Some (nret, env', w')"
    and "server_ok env" "a \<in> used env" "forward_flags (sessions env a) = 0" "p_virtual_host (sessions env a) = Some h"
    and "small_files sys (limits__max_file_cache env)" "watches sys" "own_indexes env"
  shows "server_step env env'"
proof -
  have "pages_ok env" using assms(2) by (simp add: server_ok_def)
  note p = ProcessHttpRequest_ok [OF assms(1) this assms(3) used_next [OF assms(2,3)] assms(4,6,7,5,8)]
  then show ?thesis using keeps_server_ok [OF _ _ assms(2)] keeps_used by (simp add: server_step_def same_limits_def)
qed

lemma answer_request_step:
  assumes run: "answer_request sys z alloc True env a h host w = Some (early, env', w')"
    and ok: "server_ok env" "a \<in> used env" "forward_flags (sessions env a) = 0" "p_virtual_host (sessions env a) = Some h"
    and env: "small_files sys (limits__max_file_cache env)" "watches sys" "own_indexes env"
  shows "server_step env env'"
proof -
  obtain uri where 1: "served_uri sys env a h = Some uri" using run by (auto simp: answer_request_def bind_eq_Some_conv)
  have fmt: "server_step x y" if "format_response alloc c fill fm x a = Some (n, y)" "server_ok x" for x y c fill fm n
    using that format_response_keeps format_response_quiet quiet_step by blast
  show ?thesis
  proof (cases uri)
    case (Inl code)
    then show ?thesis using run 1 ok(1) by (simp add: answer_request_def)
  next
    case (Inr u)
    obtain r where 2: "redirection env h host = Some r" using run 1 Inr by (auto simp: answer_request_def bind_eq_Some_conv)
    show ?thesis
    proof (cases r)
      case (Some d)
      obtain n env1 where 3: "format_response alloc HTTP_MOVED_PERMANNETLY False
          (Some (''Location: '' @ rd_new_domain d @ [CR, LF, CR, LF])) env a = Some (n, env1)"
        using run 1 Inr 2 Some by (auto simp: answer_request_def bind_eq_Some_conv)
      note s1 = fmt [OF 3 ok(1)]
      let ?env2 = "upd_session a (\<lambda>s. s\<lparr>http := SetHttpKeepAlive (http s) False\<rparr>) env1"
      have "keeps env1 ?env2" by (rule keeps_upd) simp_all
      moreover have "quiet env1 ?env2" by (rule quiet_http_upd) (simp_all add: SetHttpKeepAlive_def)
      ultimately have "server_step env ?env2"
        using s1 server_step_trans [OF s1 quiet_step] by (simp add: server_step_def)
      then show ?thesis using run 1 Inr 2 Some 3 s1 by (auto simp: answer_request_def split: if_splits)
    next
      case None
      obtain n env1 w1 where 3: "ProcessHttpRequest sys z alloc True env a (wwwroot (hosts env h)) u w = Some (n, env1, w1)"
        using run 1 Inr 2 None by (auto simp: answer_request_def bind_eq_Some_conv)
      note s1 = ProcessHttpRequest_step [OF 3 ok env]
      have "server_step env1 env'"
        using run 1 Inr 2 None 3 s1 fmt [of _ _ _ env1]
        by (auto simp: answer_request_def bind_eq_Some_conv server_step_def split: if_splits)
      then show ?thesis by (rule server_step_trans [OF s1])
    qed
  qed
qed

lemma request_received_step:
  assumes run: "request_received sys z alloc True env a w = Some (nret, env', w')"
    and ok: "server_ok env" "a \<in> used env" "forward_flags (sessions env a) = 0"
    and env: "small_files sys (limits__max_file_cache env)" "watches sys" "own_indexes env"
  shows "server_step env env'"
proof -
  let ?host = "header_value env a ''Host''"
  obtain vh where 1: "select_host env a ?host = Some vh"
    using run by (auto simp: request_received_def Let_def bind_eq_Some_conv)
  let ?env1 = "upd_session a (\<lambda>s. s\<lparr>p_virtual_host := vh\<rparr>) env"
  have s1: "server_step env ?env1" by (rule quiet_step [OF keeps_upd quiet_upd ok(1)]) simp_all
  then have o1: "server_ok ?env1" "a \<in> used ?env1" "forward_flags (sessions ?env1 a) = 0" "own_indexes ?env1"
    using ok own_indexes_limits [OF _ env(3), of ?env1] by (simp_all add: server_step_def)
  obtain early env2 w2 where 2: "(case vh of Some h \<Rightarrow> answer_request sys z alloc True ?env1 a h ?host w
      | None \<Rightarrow> map_option (\<lambda>(nret, env). (if nret \<noteq> 0 then Some 1 else None, env, w))
                  (format_response alloc HTTP_FORBIDDEN True None ?env1 a)) = Some (early, env2, w2)"
    using run 1 by (auto simp: request_received_def Let_def bind_eq_Some_conv)
  have s2: "server_step env env2"
  proof (cases vh)
    case None
    then show ?thesis
      using 2 server_step_trans [OF s1 quiet_step [OF _ _ o1(1)]] format_response_keeps format_response_quiet by auto
  next
    case (Some h)
    then have "answer_request sys z alloc True ?env1 a h ?host w = Some (early, env2, w2)" using 2 by simp
    from server_step_trans [OF s1 answer_request_step [OF this o1(1-3) _ _ env(2) o1(4)]]
    show ?thesis using Some env(1) s1 by (simp add: server_step_def same_limits_def)
  qed
  then have o2: "server_ok env2" "a \<in> used env2" using ok(2) by (simp_all add: server_step_def)
  show ?thesis
  proof (cases early)
    case (Some c)
    then show ?thesis using run 1 2 s2 by (simp add: request_received_def Let_def)
  next
    case None
    obtain n3 w3 where 3: "sys_epoll_ctl sys EPOLL_CTL_MOD (na_sock (netaddr (sessions env2 a))) EPOLLOUT_ERR w2 = (n3, w3)"
      by fastforce
    have "(if n3 = - 1 then Some (- 1, env2, w3) else do { (env, w) \<leftarrow> touch_timeout sys env2 a w3;
        (env, w) \<leftarrow> touch_elapse sys env a w; Some (0, env, w) }) = Some (nret, env', w')"
      using run 1 2 3 None by (simp add: request_received_def Let_def)
    then show ?thesis
      using s2 server_step_trans [OF s2 touch_both_step [OF o2]] by (cases "n3 = - 1") (simp, simp only: if_False)
  qed
qed

lemma OnReceivingSocket_step:
  assumes run: "OnReceivingSocket sys z alloc True env a w = Some (nret, env', w')"
    and ok: "server_ok env" "a \<in> used env" "forward_flags (sessions env a) = 0"
    and env: "small_files sys (limits__max_file_cache env)" "watches sys" "own_indexes env"
  shows "server_step env env'"
proof -
  obtain n e w1 where 1: "ReceiveHttpRequestNonblock (sys_os sys (na_sock (netaddr (sessions env a))) (ssl (sessions env a)))
      z alloc (http_lib_state env) no_hook (http (sessions env a)) w = Some (n, e, w1)"
    using run by (auto simp: OnReceivingSocket_def Let_def bind_eq_Some_conv)
  have "p_append_buffer e = p_append_buffer (http (sessions env a))"
    using 1 receive_loop_lends by (fastforce simp: ReceiveHttpRequestNonblock_def)
  then have q1: "quiet env (upd_session a (\<lambda>s. s\<lparr>http := e\<rparr>) env)" by (intro quiet_http) simp
  let ?env1 = "upd_session a (\<lambda>s. s\<lparr>http := e\<rparr>) env"
  have s1: "server_step env ?env1" by (rule quiet_step [OF keeps_upd q1 ok(1)]) simp_all
  then have o1: "server_ok ?env1" "a \<in> used ?env1" "forward_flags (sessions ?env1 a) = 0" "own_indexes ?env1"
    "small_files sys (limits__max_file_cache ?env1)"
    using ok own_indexes_limits [OF _ env(3), of ?env1] env(1) by (simp_all add: server_step_def) (simp add: same_limits_def)
  have "(if n = FASTERHTTP_INFO_NEED_MORE_HTTP_BUFFER then map_option (\<lambda>(env, w). (0, env, w)) (touch_timeout sys ?env1 a w1)
     else if n \<noteq> 0 then Some (1, ?env1, w1) else request_received sys z alloc True ?env1 a w1) = Some (nret, env', w')"
    using run 1 by (simp add: OnReceivingSocket_def Let_def)
  then consider "touch_timeout sys ?env1 a w1 = Some (env', w')" | "env' = ?env1"
    | "request_received sys z alloc True ?env1 a w1 = Some (nret, env', w')" by (auto split: if_splits)
  then show ?thesis
  proof cases
    case 1
    from touch_timeout_step [OF o1(1,2) this] show ?thesis by (rule server_step_trans [OF s1])
  next
    case 2
    then show ?thesis using s1 by simp
  next
    case 3
    from request_received_step [OF this o1(1-3,5) env(2) o1(4)] show ?thesis by (rule server_step_trans [OF s1])
  qed
qed

section \<open>Events\<close>

lemma after_handler_ok:
  assumes "after_handler sys alloc a result = Some (stop, env', w')" "a \<in> used env"
    and "\<And>nret env1 w1. result = Some (nret, env1, w1) \<Longrightarrow> server_step env env1"
  shows "server_ok env' \<and> used env - {a} \<subseteq> used env' \<and> used env' \<subseteq> used env \<and> same_limits env env'"
proof -
  obtain nret env1 w1 where r: "result = Some (nret, env1, w1)"
    using assms(1) by (auto simp: after_handler_def bind_eq_Some_conv)
  note s1 = assms(3) [OF r]
  show ?thesis
  proof (cases "nret > 0")
    case True
    then have "SetHttpSessionUnused sys alloc env1 a w1 = Some (env', w')" using assms(1) r by (auto simp: after_handler_def)
    then show ?thesis
      using release_ok [of env1 a sys alloc w1 env' w'] s1 assms(2) same_limits_trans by (auto simp: server_step_def)
  next
    case False
    then show ?thesis using assms(1) r s1 by (auto simp: after_handler_def server_step_def)
  qed
qed

lemma readable_step:
  assumes "readable_session sys z alloc True env a w = Some (nret, env', w')" "server_ok env" "a \<in> used env"
    and "small_files sys (limits__max_file_cache env)" "watches sys" "own_indexes env"
  shows "server_step env env'"
proof -
  have n: "a < next_session env" by (rule used_next [OF assms(2,3)])
  consider "OnAcceptingSslSocket sys env a w = (nret, env', w')" | "OnConnectingSslForward sys alloc env a w = Some (nret, env', w')"
    | "OnReceivingSocket sys z alloc True env a w = Some (nret, env', w')" "forward_flags (sessions env a) = 0"
    | "OnReceivingForward sys z alloc env a w = Some (nret, env', w')" "forward_flags (sessions env a) \<noteq> 0"
    using assms(1) by (auto simp: readable_session_def Let_def split: if_splits)
  then show ?thesis
  proof cases
    case 1
    show ?thesis by (rule quiet_step [OF OnAcceptingSslSocket_keeps [OF 1] OnAcceptingSslSocket_quiet [OF 1] assms(2)])
  next
    case 2
    show ?thesis by (rule quiet_step [OF OnConnectingSslForward_keeps [OF 2] OnConnectingSslForward_quiet [OF 2] assms(2)])
  next
    case 3
    show ?thesis by (rule OnReceivingSocket_step [OF 3(1) assms(2,3) 3(2) assms(4-6)])
  next
    case 4
    show ?thesis by (rule quiet_step [OF OnReceivingForward_keeps [OF 4(1) n 4(2)] OnReceivingForward_quiet [OF 4(1)] assms(2)])
  qed
qed

lemma writable_step:
  assumes "writable_session sys z alloc env a w = Some (nret, env', w')" "server_ok env" "a \<in> used env"
  shows "server_step env env'"
proof -
  have n: "a < next_session env" by (rule used_next [OF assms(2,3)])
  consider "OnAcceptingSslSocket sys env a w = (nret, env', w')" | "OnConnectingSslForward sys alloc env a w = Some (nret, env', w')"
    | "OnSendingSocket sys z alloc env a w = Some (nret, env', w')"
    | "OnSendingForward sys z alloc env a w = Some (nret, env', w')"
    | "OnConnectingForward sys alloc env a w = Some (nret, env', w')" "forward_flags (sessions env a) \<noteq> 0" | "env' = env"
    using assms(1) by (auto simp: writable_session_def Let_def split: if_splits)
  then show ?thesis
  proof cases
    case 1
    show ?thesis by (rule quiet_step [OF OnAcceptingSslSocket_keeps [OF 1] OnAcceptingSslSocket_quiet [OF 1] assms(2)])
  next
    case 2
    show ?thesis by (rule quiet_step [OF OnConnectingSslForward_keeps [OF 2] OnConnectingSslForward_quiet [OF 2] assms(2)])
  next
    case 3
    show ?thesis by (rule OnSendingSocket_step [OF assms(2,3) 3])
  next
    case 4
    show ?thesis by (rule quiet_step [OF OnSendingForward_keeps [OF 4] OnSendingForward_quiet [OF 4] assms(2)])
  next
    case 5
    show ?thesis by (rule quiet_step [OF OnConnectingForward_keeps [OF 5(1) n 5(2)] OnConnectingForward_quiet [OF 5(1)] assms(2)])
  next
    case 6
    then show ?thesis using assms(2) by simp
  qed
qed

lemma session_event_ok:
  assumes run: "session_event sys z alloc True ev env a w = Some (stop, env', w')" and ok: "server_ok env" "a \<in> used env"
    and env: "small_files sys (limits__max_file_cache env)" "watches sys" "own_indexes env"
  shows "server_ok env' \<and> used env - {a} \<subseteq> used env' \<and> used env' \<subseteq> used env \<and> same_limits env env'"
proof -
  have n: "a < next_session env" by (rule used_next [OF ok])
  consider "after_handler sys alloc a (readable_session sys z alloc True env a w) = Some (stop, env', w')"
    | "after_handler sys alloc a (writable_session sys z alloc env a w) = Some (stop, env', w')"
    | "after_handler sys alloc a (Some (1, env, w)) = Some (stop, env', w')"
    | "after_handler sys alloc a (OnConnectingForward sys alloc env a w) = Some (stop, env', w')" "forward_flags (sessions env a) \<noteq> 0"
    | "env' = env"
    using run by (auto simp: session_event_def split: if_splits)
  then show ?thesis
  proof cases
    case 1
    then show ?thesis by (rule after_handler_ok [OF _ ok(2)]) (rule readable_step [OF _ ok env])
  next
    case 2
    then show ?thesis by (rule after_handler_ok [OF _ ok(2)]) (rule writable_step [OF _ ok])
  next
    case 3
    then show ?thesis by (rule after_handler_ok [OF _ ok(2)]) (use ok in auto)
  next
    case 4
    then show ?thesis
      by (intro after_handler_ok [OF 4(1) ok(2)])
        (rule quiet_step [OF OnConnectingForward_keeps [OF _ n 4(2)] OnConnectingForward_quiet ok(1)])
  next
    case 5
    then show ?thesis using ok by auto
  qed
qed

lemma HtmlCacheEventHander_step:
  assumes "HtmlCacheEventHander sys alloc env w = Some (nret, env', w')" "server_ok env"
  shows "server_step env env'"
proof -
  have p: "pages_ok env" using assms(2) by (simp add: server_ok_def)
  have c: "cache_ok env'" "borrow_ok env'" "keeps env env'" "cached env' \<subseteq> cached env" "untouched env env'"
    using HtmlCacheEventHander_ok [OF _ pages_borrow_ok [OF p], of sys alloc w] assms(1) p by (auto simp: pages_ok_def)
  have u: "used env' = used env" using c(3) by (rule keeps_used)
  have "pages_ok env'"
    unfolding pages_ok_def
  proof (intro conjI)
    show "cache_ok env'" by (rule c(1))
    show idle: "\<forall>a. a \<notin> used env' \<longrightarrow> p_append_buffer (http (sessions env' a)) = None"
      using p c(5) u by (simp add: pages_ok_def untouched_def)
    have "a \<in> used env'" if "borrows env' a r" for a r using that idle by (auto simp: borrows_def)
    then show "lends (cached env') env'" using c(2) unfolding lends_def borrow_ok_def by blast
    show "\<forall>c\<in>cached env'. html_content (caches env' c) \<noteq> None \<and> \<not> st_directory (caches env' c) \<and> \<not> dots (path_key env' c)"
      using p c(4,5) by (auto simp: pages_ok_def untouched_def)
  qed
  then show ?thesis
    using keeps_server_ok [OF c(3) _ assms(2)] u c(5) by (simp add: server_step_def same_limits_def untouched_def)
qed

section \<open>The pipe\<close>

definition calm :: "hetao_env \<Rightarrow> hetao_env \<Rightarrow> bool" where
  "calm env env' \<longleftrightarrow> keeps env env' \<and> quiet env env'"

lemma calm_refl [simp]: "calm env env" by (simp add: calm_def)
lemma calm_trans: "calm env1 env2 \<Longrightarrow> calm env2 env3 \<Longrightarrow> calm env1 env3"
  unfolding calm_def using keeps_trans quiet_trans by blast

lemma close_listeners_calm:
  "close_listeners sys ls env w = (env', w') \<Longrightarrow> calm env env'"
proof (induction ls arbitrary: env w)
  case (Cons l ls)
  let ?env1 = "env\<lparr>listens := (listens env)(l := (listens env l)\<lparr>ls_ssl_ctx := False\<rparr>)\<rparr>"
  have "keeps env ?env1" by (rule keepsI) (simp_all add: pool_def link_def)
  moreover have "quiet env ?env1" by (rule quietI) (simp_all add: same_cache_def)
  ultimately have c: "calm env ?env1" by (simp add: calm_def)
  obtain x w1 where 1: "sys_epoll_ctl sys EPOLL_CTL_DEL (na_sock (ls_netaddr (listens env l))) NO_EVENTS w = (x, w1)" by fastforce
  then have "close_listeners sys ls ?env1 (sys_close sys (na_sock (ls_netaddr (listens env l))) w1) = (env', w')"
    using Cons.prems by (simp add: Let_def)
  from Cons.IH [OF this] show ?case by (rule calm_trans [OF c])
qed simp

lemma reopen_hosts_calm: "reopen_hosts os hs env w = (failed, env', w') \<Longrightarrow> calm env env'"
proof (induction hs arbitrary: env w)
  case (Cons h hs)
  show ?case
  proof (cases "access_log_fd (hosts env h) = - 1")
    case True
    then have "reopen_hosts os hs env w = (failed, env', w')" using Cons.prems by simp
    then show ?thesis by (rule Cons.IH)
  next
    case False
    obtain fd w1 where 1: "os_open_log os (access_log (hosts env h)) (sys_close (os_sys os) (access_log_fd (hosts env h)) w) = (fd, w1)"
      by fastforce
    let ?env1 = "upd_host h (\<lambda>v. v\<lparr>access_log_fd := fd\<rparr>) env"
    have c: "calm env ?env1" unfolding calm_def by (auto intro: quiet_host)
    have "env' = ?env1 \<or> reopen_hosts os hs ?env1 w1 = (failed, env', w')"
      using Cons.prems False 1 by (auto simp: Let_def split: if_splits)
    then show ?thesis
    proof
      assume "reopen_hosts os hs ?env1 w1 = (failed, env', w')"
      from Cons.IH [OF this] show ?thesis by (rule calm_trans [OF c])
    qed (use c in simp)
  qed
qed simp

lemma reopen_logs_calm: "reopen_logs os ls i env w = (failed, i', env', w') \<Longrightarrow> calm env env'"
proof (induction ls arbitrary: i env w)
  case (Cons l ls)
  obtain f env1 w1 where 1: "reopen_hosts os (concat (virtual_host_hash (listens env l))) env w = (f, env1, w1)"
    by (rule prod_cases3)
  note c = reopen_hosts_calm [OF 1]
  show ?case
  proof (cases f)
    case True
    then show ?thesis using Cons.prems 1 c by (simp add: Let_def)
  next
    case False
    then have "reopen_logs os ls (int (length (virtual_host_hash (listens env l)))) env1 w1 = (failed, i', env', w')"
      using Cons.prems 1 by (simp add: Let_def)
    from Cons.IH [OF this] show ?thesis by (rule calm_trans [OF c])
  qed
qed simp

lemma pipe_event_step:
  assumes "pipe_event os rest i wk w = (stop, i', wk', w')" "server_ok (wk_env wk)"
  shows "server_step (wk_env wk) (wk_env wk')"
proof -
  have "calm (wk_env wk) (wk_env wk')"
    using assms(1) by (auto simp: pipe_event_def Let_def split: prod.splits pipe_read.splits if_splits
        dest: close_listeners_calm reopen_logs_calm)
  then show ?thesis using quiet_step assms(2) by (simp add: calm_def)
qed

section \<open>The rounds of the worker\<close>

text \<open>The sessions that the events of a batch belong to.\<close>

definition clients :: "event list \<Rightarrow> nat list" where
  "clients evs = [a. Client a \<leftarrow> map event_data evs]"

lemma clients_simps [simp]:
  "clients [] = []"
  "clients (ev # evs) = (case event_data ev of Client a \<Rightarrow> a # clients evs | _ \<Rightarrow> clients evs)"
  by (simp_all add: clients_def split: data_session.splits)

definition still_served :: "'w worker_os \<Rightarrow> hetao_env \<Rightarrow> bool" where
  "still_served os env \<longleftrightarrow> small_files (os_sys os) (limits__max_file_cache env) \<and> watches (os_sys os) \<and> own_indexes env"

lemma still_served_limits: "same_limits env env' \<Longrightarrow> still_served os env \<Longrightarrow> still_served os env'"
  using own_indexes_limits by (auto simp: still_served_def same_limits_def)

lemma handle_event_ok:
  assumes run: "handle_event os z True mem alloc ev rest i wk w = Some (stop, i', wk', w')"
    and ok: "server_ok (wk_env wk)" "still_served os (wk_env wk)"
    and cl: "set (clients [ev]) \<subseteq> used (wk_env wk)"
  shows "server_ok (wk_env wk') \<and> used (wk_env wk) - set (clients [ev]) \<subseteq> used (wk_env wk')
     \<and> same_limits (wk_env wk) (wk_env wk')"
proof (cases "event_data ev")
  case (Listener l)
  show ?thesis
  proof (cases "l \<in> set (muted wk) \<or> \<not> epollin ev")
    case True
    then show ?thesis using run Listener ok(1) by (auto simp: handle_event_def listen_event_def split: if_splits)
  next
    case False
    then obtain n env1 w1 where 1: "OnAcceptingSocket (os_sys os) True mem alloc (wk_env wk) l w = Some (n, env1, w1)"
      using run Listener by (auto simp: handle_event_def listen_event_def bind_eq_Some_conv split: if_splits)
    then have "wk_env wk' = env1"
      using run Listener False by (auto simp: handle_event_def listen_event_def Let_def split: if_splits prod.splits)
    then show ?thesis using accept_loop_ok [OF ok(1) 1 [unfolded OnAcceptingSocket_def]] by auto
  qed
next
  case (Client a)
  then have "session_event (os_sys os) z alloc True ev (wk_env wk) a w = Some (stop, wk_env wk', w')"
    using run by (auto simp: handle_event_def)
  from session_event_ok [OF this ok(1)] show ?thesis using Client cl ok(2) by (auto simp: still_served_def)
next
  case Page_cache
  then obtain n where "HtmlCacheEventHander (os_sys os) alloc (wk_env wk) w = Some (n, wk_env wk', w')"
    using run by (auto simp: handle_event_def)
  from HtmlCacheEventHander_step [OF this ok(1)] show ?thesis using Page_cache by (simp add: server_step_def)
next
  case Monitor_pipe
  then have "pipe_event os rest i wk w = (stop, i', wk', w')" using run by (simp add: handle_event_def)
  from pipe_event_step [OF this ok(1)] show ?thesis using Monitor_pipe by (simp add: server_step_def)
qed

lemma event_loop_ok:
  assumes "event_loop os z True mem alloc nfds i evs wk w = Some (stop, wk', w')"
    and "server_ok (wk_env wk)" "still_served os (wk_env wk)" "distinct (clients evs)" "set (clients evs) \<subseteq> used (wk_env wk)"
  shows "server_ok (wk_env wk') \<and> same_limits (wk_env wk) (wk_env wk')"
  using assms
proof (induction evs arbitrary: i wk w)
  case (Cons ev evs)
  show ?case
  proof (cases "i < nfds")
    case False
    then show ?thesis using Cons.prems by simp
  next
    case True
    obtain stop1 i1 wk1 w1 where 1: "handle_event os z True mem alloc ev evs i wk w = Some (stop1, i1, wk1, w1)"
      using Cons.prems(1) True by (auto split: option.splits)
    have cl: "set (clients [ev]) \<subseteq> used (wk_env wk)" "set (clients evs) \<subseteq> used (wk_env wk) - set (clients [ev])"
      "distinct (clients evs)"
      using Cons.prems(4,5) by (auto split: data_session.splits)
    note h = handle_event_ok [OF 1 Cons.prems(2,3) cl(1)]
    show ?thesis
    proof (cases stop1)
      case stop1: True
      then show ?thesis using Cons.prems(1) True 1 h by simp
    next
      case False
      then have "event_loop os z True mem alloc nfds (i1 + 1) evs wk1 w1 = Some (stop, wk', w')"
        using Cons.prems(1) True 1 by simp
      from Cons.IH [OF this] show ?thesis
        using h cl still_served_limits [OF _ Cons.prems(3)] same_limits_trans by blast
    qed
  qed
qed (simp split: if_splits)

text \<open>What a round relies on: no session has two events in the batch, and none of them has been released by the
  sweep before.\<close>

definition orderly :: "'w worker_os \<Rightarrow> allocator \<Rightarrow> worker \<Rightarrow> 'w \<Rightarrow> bool" where
  "orderly os alloc wk w \<longleftrightarrow> (\<forall>evs w1 elapsed w2 env w3.
     os_epoll_wait os w = (Some evs, w1) \<and> os_second_elapse os w1 = (elapsed, w2)
     \<and> (if elapsed then second_sweep (os_sys os) alloc (wk_env wk) w2 = Some (env, w3) else env = wk_env wk) \<longrightarrow>
       distinct (clients evs) \<and> set (clients evs) \<subseteq> used env)"

lemma worker_round_ok:
  assumes run: "worker_round os z True mem alloc wk w = Some (stop, wk', w')"
    and ok: "server_ok (wk_env wk)" "still_served os (wk_env wk)" and ord: "orderly os alloc wk w"
  shows "server_ok (wk_env wk') \<and> same_limits (wk_env wk) (wk_env wk')"
proof -
  obtain evs w1 where 1: "os_epoll_wait os w = (evs, w1)" by fastforce
  show ?thesis
  proof (cases evs)
    case None
    then show ?thesis using run 1 ok(1) by (simp add: worker_round_def)
  next
    case (Some es)
    obtain elapsed w2 where 2: "os_second_elapse os w1 = (elapsed, w2)" by fastforce
    obtain env3 w3 where 3: "(if elapsed
             then map_option (\<lambda>(env, w). (env, os_second_clear os w)) (second_sweep (os_sys os) alloc (wk_env wk) w2)
             else Some (wk_env wk, w2)) = Some (env3, w3)"
      using run 1 Some 2 by (auto simp: worker_round_def bind_eq_Some_conv)
    obtain stop4 wk4 w4 where 4: "event_loop os z True mem alloc (int (length es)) 0 es (wk\<lparr>wk_env := env3\<rparr>) w3 = Some (stop4, wk4, w4)"
      using run 1 Some 2 3 by (auto simp: worker_round_def bind_eq_Some_conv)
    have s: "server_ok env3" "same_limits (wk_env wk) env3"
      using 3 second_sweep_server [OF ok(1), of "os_sys os" alloc w2] ok(1) by (auto split: if_splits)
    have "distinct (clients es) \<and> set (clients es) \<subseteq> used env3"
      using ord [unfolded orderly_def, rule_format, of es w1 elapsed w2 env3] 1 2 3 Some by (auto split: if_splits)
    then have "server_ok (wk_env wk4) \<and> same_limits env3 (wk_env wk4)"
      using event_loop_ok [OF 4] s still_served_limits [OF s(2) ok(2)] by simp
    moreover have "wk_env wk' = wk_env wk4"
      using run 1 Some 2 3 4 by (auto simp: worker_round_def)
    ultimately show ?thesis using same_limits_trans [OF s(2)] by simp
  qed
qed

text \<open>The states that a worker reaches by orderly rounds.\<close>

inductive worker_reaches ::
    "'w worker_os \<Rightarrow> 'z zlib \<Rightarrow> (nat \<Rightarrow> bool) \<Rightarrow> allocator \<Rightarrow> worker \<times> 'w \<Rightarrow> worker \<times> 'w \<Rightarrow> bool"
  for os z mem alloc start
where
  started: "worker_reaches os z mem alloc start start"
| next_round: "worker_reaches os z mem alloc start (wk, w) \<Longrightarrow> orderly os alloc wk w \<Longrightarrow>
     worker_round os z True mem alloc wk w = Some (stop, wk', w') \<Longrightarrow> worker_reaches os z mem alloc start (wk', w')"

lemma worker_reaches_ok:
  assumes "worker_reaches os z mem alloc start s" "server_ok (wk_env (fst start))" "still_served os (wk_env (fst start))"
  shows "server_ok (wk_env (fst s)) \<and> same_limits (wk_env (fst start)) (wk_env (fst s))"
  using assms(1)
proof induction
  case started
  then show ?case using assms(2) by simp
next
  case (next_round wk w stop wk' w')
  have "server_ok (wk_env wk)" "same_limits (wk_env (fst start)) (wk_env wk)" using next_round.IH by simp_all
  then show ?case
    using worker_round_ok [OF next_round.hyps(3) _ _ next_round.hyps(2)] still_served_limits [OF _ assms(3)] same_limits_trans
    by fastforce
qed

end
