(* ===== verification/HetaoAnswers.thy ===== *)
theory HetaoAnswers
  imports HetaoLoop
begin

text \<open>
  Theorems on the answer to a request (\<open>ProcessHttpRequest.c\<close>): what the response to the request for a page
  consists of, for every choice of the compression; the paths that are refused; what happens to the content of a
  file that is too large for the cache, and to an index file that is a directory.
\<close>

section \<open>Header fields of the request\<close>

text \<open>The start line of the response leaves the header fields of the request as they are.\<close>

definition headers_received :: "http_env \<Rightarrow> bool" where
  "headers_received e \<longleftrightarrow> (\<forall>i < header_array_size (headers e).
     p_buffer (header_array (headers e) ! i) \<in> {None, Some RequestBuffer})"

lemma find_cong: "(\<And>x. x \<in> set xs \<Longrightarrow> P x = Q x) \<Longrightarrow> List.find P xs = List.find Q xs"
  by (induction xs) auto

lemma QueryHttpHeaderPtr_same:
  assumes "headers_received e" "request_buffer e' = request_buffer e"
    and "header_array (headers e') = header_array (headers e)" "header_array_size (headers e') = header_array_size (headers e)"
  shows "QueryHttpHeaderPtr l' e' name = QueryHttpHeaderPtr l e name"
proof -
  have "header_named l' e' name (header_array (headers e) ! i) = header_named l e name (header_array (headers e) ! i)"
    if "i < header_array_size (headers e)" for i
    using assms(1) that assms(2) unfolding headers_received_def
    by (cases "p_buffer (header_array (headers e) ! i)") (auto simp: header_named_def deref_def dest!: spec [of _ i])
  then have "QueryHttpHeader l' e' name = QueryHttpHeader l e name"
    unfolding QueryHttpHeader_def assms(3,4) by (intro find_cong) simp
  then show ?thesis unfolding QueryHttpHeaderPtr_def assms(3) by simp
qed

lemma QueryHttpHeaderPtr_request:
  assumes "headers_received e" "QueryHttpHeaderPtr l e name = Some ((r, p), n)"
  shows "r = RequestBuffer"
proof -
  obtain i where "QueryHttpHeader l e name = Some i" "p_buffer (header_array (headers e) ! i) = Some r"
    using assms(2) by (auto simp: QueryHttpHeaderPtr_def value_ptr_def Let_def split: option.splits)
  moreover from this(1) have "i < header_array_size (headers e)" by (auto simp: QueryHttpHeader_def find_Some_iff)
  ultimately show ?thesis using assms(1) by (auto simp: headers_received_def)
qed

section \<open>The response\<close>

text \<open>A session whose request has been received: its response buffer is empty and has room for the version.\<close>

definition request_version :: "hetao_env \<Rightarrow> nat \<Rightarrow> bytes" where
  "request_version env a = (let e = http (sessions env a) in
     case GetHttpHeaderPtr_VERSION e of (None, _) \<Rightarrow> [] | (Some v, n) \<Rightarrow> cstr (deref (http_lib_state env) e v n))"

definition answerable :: "hetao_env \<Rightarrow> nat \<Rightarrow> bool" where
  "answerable env a \<longleftrightarrow> (let e = http (sessions env a) in
     writable (response_buffer e) \<and> process_ptr (response_buffer e) = 0 \<and> headers_received e
   \<and> fst (GetHttpHeaderPtr_VERSION e) \<noteq> None \<and> int (length (request_version env a)) < buf_size (response_buffer e) - 1)"

text \<open>What the code sends of a page: nothing (the client names encodings, but compression is switched off), the
  content itself, or the compressed content.\<close>

definition chosen :: "hetao_env \<Rightarrow> nat \<Rightarrow> mime_type \<Rightarrow> encoding option option" where
  "chosen env a mime = (let e = http (sessions env a); l = http_lib_state env in
     case QueryHttpHeaderPtr l e ''Accept-Encoding'' of
       None \<Rightarrow> Some None
     | Some ((r, p), _) \<Rightarrow>
         if \<not> http_options__compress_on env then None
         else Some (accepted (mt_compress_enable mime) (header_tokens (drop p (area (buffer_at l e r))))))"

text \<open>The start line of the response has been written.\<close>

definition started :: "hetao_env \<Rightarrow> hetao_env \<Rightarrow> nat \<Rightarrow> bool" where
  "started env env1 a \<longleftrightarrow> (\<exists>l b st. env1 = upd_session a (\<lambda>s. s\<lparr>http := (http s)\<lparr>response_buffer := b,
        headers := (headers (http s))\<lparr>STATUSCODE := st\<rparr>\<rparr>\<rparr>) (env\<lparr>http_lib_state := l\<rparr>) \<and> writable b
      \<and> content b = startline_text (http (sessions env a)) HTTP_OK (request_version env a))"

lemma format_response_text:
  assumes "answerable env a"
  shows "\<exists>nret env1. format_response alloc HTTP_OK False None env a = Some (nret, env1)
     \<and> (nret = 0 \<longrightarrow> started env env1 a)"
proof -
  let ?e = "http (sessions env a)" and ?l = "http_lib_state env"
  obtain v vlen where v: "GetHttpHeaderPtr_VERSION ?e = (Some v, vlen)"
    using assms by (cases "GetHttpHeaderPtr_VERSION ?e") (auto simp: answerable_def Let_def)
  then have vt: "cstr (deref ?l ?e v vlen) = request_version env a" by (simp add: request_version_def)
  have w: "wrote (startline_text ?e HTTP_OK (request_version env a))
      (startline_pieces alloc ?l ?e HTTP_OK (request_version env a) None)"
    using startline_pieces_wrote [of ?e] assms by (auto simp: answerable_def Let_def)
  obtain n b where p: "startline_pieces alloc ?l ?e HTTP_OK (request_version env a) None = Some (n, b)"
    using w by (auto simp: wrote_def split: option.splits)
  define l1 where "l1 = ?l\<lparr>status_code_httpbuf := zero_buffer\<lparr>base := fst (GetHttpStatus ?l HTTP_OK)\<rparr>\<rparr>"
  define st where "st = (STATUSCODE (headers ?e))\<lparr>p_buffer := Some StatusCodeBuffer, value_offset := 0, value_len := 3\<rparr>"
  have f: "FormatHttpResponseStartLine alloc ?l HTTP_OK ?e False None = Some
    (if n \<noteq> 0 then (n, ?l, ?e\<lparr>response_buffer := b\<rparr>)
     else (0, l1, ?e\<lparr>response_buffer := b, headers := (headers ?e)\<lparr>STATUSCODE := st\<rparr>\<rparr>))"
    using v vt p by (simp add: FormatHttpResponseStartLine_def Let_def l1_def st_def split: prod.splits)
  show ?thesis
  proof (cases "n = 0")
    case False
    then show ?thesis using f by (simp add: format_response_def)
  next
    case True
    have "format_response alloc HTTP_OK False None env a = Some (0, upd_session a (\<lambda>s. s\<lparr>http := (http s)\<lparr>response_buffer := b,
            headers := (headers (http s))\<lparr>STATUSCODE := st\<rparr>\<rparr>\<rparr>) (env\<lparr>http_lib_state := l1\<rparr>))"
      using f True by (simp add: format_response_def) (simp add: upd_session_def)
    moreover have "writable b \<and> content b = startline_text ?e HTTP_OK (request_version env a)"
      using w p True by (simp add: wrote_def)
    ultimately show ?thesis unfolding started_def by blast
  qed
qed

text \<open>The response buffer and the append buffer after an answer.\<close>

definition responded :: "hetao_env \<Rightarrow> hetao_env \<Rightarrow> nat \<Rightarrow> mime_type \<Rightarrow> encoding option \<Rightarrow> bytes \<Rightarrow> bool" where
  "responded env env' a mime enc text \<longleftrightarrow> (let e = http (sessions env a); e' = http (sessions env' a) in
     content (response_buffer e') = startline_text e HTTP_OK (request_version env a)
       @ page_header mime enc (length text) (CheckHttpKeepAlive e)
   \<and> map_option content (p_append_buffer e') =
       (if GetHttpHeader_METHOD e = HTTP_METHOD_GET_N then Some text else map_option content (p_append_buffer e)))"

lemma started_simps:
  assumes "started env env1 a"
  shows "caches env1 = caches env" "mime_type_hash env1 = mime_type_hash env" "http_options__compress_on env1 = http_options__compress_on env"
    "headers_received (http (sessions env a)) \<Longrightarrow> chosen env1 a mime = chosen env a mime"
    "writable (response_buffer (http (sessions env1 a)))"
    "content (response_buffer (http (sessions env1 a))) = startline_text (http (sessions env a)) HTTP_OK (request_version env a)"
    "CheckHttpKeepAlive (http (sessions env1 a)) = CheckHttpKeepAlive (http (sessions env a))"
    "GetHttpHeader_METHOD (http (sessions env1 a)) = GetHttpHeader_METHOD (http (sessions env a))"
    "p_append_buffer (http (sessions env1 a)) = p_append_buffer (http (sessions env a))"
proof -
  obtain l b st where e: "env1 = upd_session a (\<lambda>s. s\<lparr>http := (http s)\<lparr>response_buffer := b,
        headers := (headers (http s))\<lparr>STATUSCODE := st\<rparr>\<rparr>\<rparr>) (env\<lparr>http_lib_state := l\<rparr>)" "writable b"
      "content b = startline_text (http (sessions env a)) HTTP_OK (request_version env a)"
    using assms by (auto simp: started_def)
  show "caches env1 = caches env" "mime_type_hash env1 = mime_type_hash env" "http_options__compress_on env1 = http_options__compress_on env"
    "writable (response_buffer (http (sessions env1 a)))"
    "content (response_buffer (http (sessions env1 a))) = startline_text (http (sessions env a)) HTTP_OK (request_version env a)"
    "CheckHttpKeepAlive (http (sessions env1 a)) = CheckHttpKeepAlive (http (sessions env a))"
    "GetHttpHeader_METHOD (http (sessions env1 a)) = GetHttpHeader_METHOD (http (sessions env a))"
    "p_append_buffer (http (sessions env1 a)) = p_append_buffer (http (sessions env a))"
    using e by (simp_all add: upd_session_def CheckHttpKeepAlive_def GetHttpHeader_METHOD_def)
  assume h: "headers_received (http (sessions env a))"
  let ?e = "http (sessions env a)" and ?e1 = "http (sessions env1 a)"
  have e1: "request_buffer ?e1 = request_buffer ?e" "header_array (headers ?e1) = header_array (headers ?e)"
      "header_array_size (headers ?e1) = header_array_size (headers ?e)"
    using e(1) by (simp_all add: upd_session_def)
  have q: "QueryHttpHeaderPtr (http_lib_state env1) ?e1 n = QueryHttpHeaderPtr (http_lib_state env) ?e n" for n
    by (rule QueryHttpHeaderPtr_same [OF h e1])
  have c: "http_options__compress_on env1 = http_options__compress_on env" using e(1) by (simp add: upd_session_def)
  show "chosen env1 a mime = chosen env a mime"
  proof (cases "QueryHttpHeaderPtr (http_lib_state env) ?e ''Accept-Encoding''")
    case None
    then show ?thesis by (simp add: chosen_def Let_def q)
  next
    case (Some x)
    obtain r p n where x: "x = ((r, p), n)" by (metis prod.exhaust)
    then have "r = RequestBuffer" using QueryHttpHeaderPtr_request [OF h] Some by simp
    then show ?thesis using Some x by (simp add: chosen_def Let_def q c e1(1))
  qed
qed

lemma caches_upd [simp]: "caches (upd_session a f env) = caches env" by (simp add: upd_session_def)

lemma answer_text:
  assumes "started env env0 a" "sessions env1 = sessions env0"
  shows "\<exists>nret env'. answer alloc env1 a mime enc ref text = Some (nret, env') \<and> caches env' = caches env1
     \<and> (nret = 0 \<and> responded env env' a mime enc text \<or> nret = HTTP_INTERNAL_SERVER_ERROR)"
proof -
  note s = started_simps [OF assms(1), folded assms(2)]
  obtain n b where b: "StrcatfHttpBuffer alloc (response_buffer (http (sessions env1 a)))
      (page_header mime enc (length text) (CheckHttpKeepAlive (http (sessions env1 a)))) = Some (n, b)"
    "n = 0 \<longrightarrow> content b = content (response_buffer (http (sessions env1 a)))
       @ page_header mime enc (length text) (CheckHttpKeepAlive (http (sessions env1 a)))"
    using Strcatf_put_law [OF s(5)] by metis
  show ?thesis
    using b s(6-9)
    by (cases "n = 0") (auto simp: answer_def GetHttpResponseBuffer_def responded_def Let_def SetHttpBufferPtr_def AppendHttpBuffer_def
        content_def [of "_\<lparr>buf_size := _, base := _, ref_flag := _, fill_ptr := _, process_ptr := _\<rparr>"] area_def)
qed

text \<open>The content that goes out: of the page itself or of one of its compressed forms.\<close>

fun sent_text :: "hetao_env \<Rightarrow> nat \<Rightarrow> encoding option \<Rightarrow> bytes option" where
  "sent_text env c None = html_content (caches env c)"
| "sent_text env c (Some enc) = encoded enc (caches env c)"

lemma serve_page_text:
  assumes ans: "answerable env a" and mime: "QueryMimeTypeHashNode (mime_type_hash env) ext = Some (Some mime)"
    and loaded: "html_content (caches env c) \<noteq> None"
  shows "\<exists>nret env'. serve_page sys z alloc page env a ext c False w = Some (nret, env', w)
     \<and> (nret = HTTP_OK \<and> (case chosen env a mime of
            None \<Rightarrow> content (response_buffer (http (sessions env' a))) = startline_text (http (sessions env a)) HTTP_OK (request_version env a)
              \<and> p_append_buffer (http (sessions env' a)) = p_append_buffer (http (sessions env a))
          | Some enc \<Rightarrow> \<exists>body. sent_text env' c enc = Some body \<and> responded env env' a mime enc body)
        \<or> nret = HTTP_INTERNAL_SERVER_ERROR)"
proof -
  obtain n env1 where 1: "format_response alloc HTTP_OK False None env a = Some (n, env1)" "n = 0 \<longrightarrow> started env env1 a"
    using format_response_text [OF ans, of alloc] by blast
  show ?thesis
  proof (cases "n = 0")
    case False
    then show ?thesis using 1 by (simp add: serve_page_def)
  next
    case True
    then have st: "started env env1 a" using 1(2) by simp
    note s = started_simps [OF st]
    have ch: "chosen env1 a mime = chosen env a mime" using s(4) ans by (simp add: answerable_def Let_def)
    obtain body where tx: "html_content (caches env1 c) = Some body" using loaded s(1) by auto
    have plain: "\<exists>n2 env2. answer_plain alloc env1 a mime c = Some (n2, env2)
       \<and> (n2 = 0 \<and> sent_text env2 c None = Some body \<and> responded env env2 a mime None body \<or> n2 = HTTP_INTERNAL_SERVER_ERROR)"
      using answer_text [OF st refl, of alloc mime None "Html c" body] tx by (auto simp: answer_plain_def)
    have enc: "\<exists>n2 env2. answer_encoded z alloc env1 a mime c x = Some (n2, env2)
       \<and> (n2 = 0 \<and> (\<exists>body. sent_text env2 c (Some x) = Some body \<and> responded env env2 a mime (Some x) body)
          \<or> n2 = HTTP_INTERNAL_SERVER_ERROR)" for x
    proof (cases "encoded x (caches env1 c)")
      case (Some out)
      then show ?thesis using answer_text [OF st refl, of alloc mime "Some x" "encoded_ref x c" out] by (auto simp: answer_encoded_def)
    next
      case None
      obtain m out where m: "CompressData z alloc body (window_bits x) = (m, out)" by fastforce
      then have code: "m = 0 \<or> m = HTTP_INTERNAL_SERVER_ERROR" by (auto simp: CompressData_def Let_def split: if_splits prod.splits)
      let ?env1 = "upd_cache c (set_encoded x out) env1"
      have "sessions ?env1 = sessions env1" by (simp add: upd_cache_def)
      from answer_text [OF st this, of alloc mime "Some x" "encoded_ref x c" out]
      obtain n2 env2 where "answer alloc ?env1 a mime (Some x) (encoded_ref x c) out = Some (n2, env2)" "caches env2 = caches ?env1"
        "n2 = 0 \<and> responded env env2 a mime (Some x) out \<or> n2 = HTTP_INTERNAL_SERVER_ERROR" by blast
      moreover have "encoded x (caches ?env1 c) = Some out" by (cases x) (simp_all add: upd_cache_def)
      ultimately show ?thesis using None tx m code by (auto simp: answer_encoded_def)
    qed
    have "\<exists>n2 env2. format_page z alloc env1 a mime c = Some (n2, env2) \<and>
      (n2 = 0 \<and> (case chosen env1 a mime of
            None \<Rightarrow> env2 = env1
          | Some enc \<Rightarrow> \<exists>body. sent_text env2 c enc = Some body \<and> responded env env2 a mime enc body)
       \<or> n2 = HTTP_INTERNAL_SERVER_ERROR)"
      using plain enc
      by (auto simp: format_page_def chosen_def Let_def split: option.splits)
    then show ?thesis
      using 1(1) True mime s(2,6,9) ch by (fastforce simp: serve_page_def split: option.splits)
  qed
qed

text \<open>A client that names encodings, while compression is switched off, gets the start line and nothing else.\<close>

lemma unfinished_answer:
  assumes "answerable env a" "QueryMimeTypeHashNode (mime_type_hash env) ext = Some (Some mime)" "html_content (caches env c) \<noteq> None"
    and "QueryHttpHeaderPtr (http_lib_state env) (http (sessions env a)) ''Accept-Encoding'' \<noteq> None" "\<not> http_options__compress_on env"
  shows "\<exists>nret env'. serve_page sys z alloc page env a ext c False w = Some (nret, env', w)
     \<and> (nret = HTTP_OK \<and> content (response_buffer (http (sessions env' a))) = startline_text (http (sessions env a)) HTTP_OK (request_version env a)
          \<and> p_append_buffer (http (sessions env' a)) = p_append_buffer (http (sessions env a))
        \<or> nret = HTTP_INTERNAL_SERVER_ERROR)"
proof -
  have "chosen env a mime = None" using assms(4,5) by (auto simp: chosen_def Let_def)
  then show ?thesis using serve_page_text [OF assms(1-3), of sys z alloc page w] by simp
qed

section \<open>Paths that are refused\<close>

text \<open>A path with two dots in a row is refused whatever the file system holds, and nothing is read or changed but
  the division of the URI.\<close>

lemma dots_refused:
  assumes "p_virtual_host (sessions env a) = Some h" "dots (page_path root name)" "unforwarded (hosts env h) root name"
    and "SplitHttpUri (\<lambda>p. map_option fst (sys_stat sys w p)) (Some root) name = Some (nret, uo)"
  shows "\<exists>u. ProcessHttpRequest sys z alloc page env a root name w =
     Some (if nret = 0 then HTTP_BAD_REQUEST else HTTP_NOT_FOUND, upd_session a (\<lambda>s. s\<lparr>session_uri := u\<rparr>) env, w)"
proof -
  let ?env0 = "upd_session a (\<lambda>s. s\<lparr>session_uri := zero_uri\<rparr>) env"
  define u where "u = (case uo of None \<Rightarrow> zero_uri | Some u \<Rightarrow> u)"
  define env1 where "env1 = upd_session a (\<lambda>s. s\<lparr>session_uri := u\<rparr>) env"
  have e: "(case uo of None \<Rightarrow> ?env0 | Some u \<Rightarrow> upd_session a (\<lambda>s. s\<lparr>session_uri := u\<rparr>) ?env0) = env1"
    by (auto simp: env1_def u_def upd_session_def split: option.splits)
  have s: "p_virtual_host (sessions env1 a) = Some h" "hosts env1 = hosts env" "session_uri (sessions env1 a) = u"
    using assms(1) by (simp_all add: env1_def upd_session_def)
  have "serve_file sys z alloc page env1 a root name w = Some (Reply HTTP_BAD_REQUEST, env1, w)" if "nret = 0"
  proof -
    have "rd (forward_rule (hosts env h) @ [NUL]) 0 = NUL \<or> part name (ext_filename_base u) (ext_filename_len u) \<noteq> forward_type (hosts env h)"
      using assms(3,4) that by (auto simp: unforwarded_def u_def Let_def)
    then show ?thesis using s assms(2) by (auto simp: serve_file_def Let_def)
  qed
  then have "process_file sys z alloc page env a root name w =
      Some (Reply (if nret = 0 then HTTP_BAD_REQUEST else HTTP_NOT_FOUND), env1, w)"
    using e by (simp add: process_file_def assms(4) Let_def)
  then show ?thesis unfolding env1_def by (auto simp: ProcessHttpRequest_def)
qed

section \<open>A file that is too large for the cache\<close>

text \<open>The content of such a file is freed as soon as the response has been prepared, while the session has still to
  send it.\<close>

lemma large_file_dangles:
  assumes ans: "answerable env a" and mime: "QueryMimeTypeHashNode (mime_type_hash env) ext = Some (Some mime)"
    and loaded: "html_content (caches env c) = Some body" and large: "limits__max_file_cache env < st_size (caches env c)"
    and get: "GetHttpHeader_METHOD (http (sessions env a)) = HTTP_METHOD_GET_N"
    and plain: "QueryHttpHeaderPtr (http_lib_state env) (http (sessions env a)) ''Accept-Encoding'' = None"
  shows "\<exists>nret env'. serve_page sys z alloc page env a ext c True w = Some (nret, env', w)
     \<and> (nret = HTTP_OK \<and> borrows env' a (Html c) \<and> content_at env' (Html c) = None \<or> nret = HTTP_INTERNAL_SERVER_ERROR)"
proof -
  obtain n env1 where 1: "format_response alloc HTTP_OK False None env a = Some (n, env1)" "n = 0 \<longrightarrow> started env env1 a"
    using format_response_text [OF ans, of alloc] by blast
  show ?thesis
  proof (cases "n = 0")
    case False
    then show ?thesis using 1 by (simp add: serve_page_def)
  next
    case True
    then have st: "started env env1 a" using 1(2) by simp
    note s = started_simps [OF st]
    have "chosen env1 a mime = Some None"
      using s(4) [of mime] ans plain by (simp add: answerable_def chosen_def Let_def)
    then have fp: "format_page z alloc env1 a mime c = answer_plain alloc env1 a mime c"
      by (auto simp: format_page_def chosen_def Let_def split: option.splits if_splits)
    have lim: "limits__max_file_cache env1 = limits__max_file_cache env" using st by (auto simp: started_def upd_session_def)
    obtain m b where b: "StrcatfHttpBuffer alloc (response_buffer (http (sessions env1 a)))
      (page_header mime None (length body) (CheckHttpKeepAlive (http (sessions env1 a)))) = Some (m, b)"
      using Strcatf_put_law [OF s(5)] by metis
    let ?b = "SetHttpBufferPtr (http_buf (sessions env1 a)) (int (length body) + 1) (body @ [NUL])"
    let ?env2 = "upd_session a (\<lambda>s. s\<lparr>http_buf := ?b, http_buf_base := Some (Html c), http := AppendHttpBuffer (http s) (Some ?b)\<rparr>)
      (upd_session a (\<lambda>s. s\<lparr>http := (http s)\<lparr>response_buffer := b\<rparr>\<rparr>) env1)"
    have "format_page z alloc env1 a mime c =
        Some (if m \<noteq> 0 then (HTTP_INTERNAL_SERVER_ERROR, upd_session a (\<lambda>s. s\<lparr>http := (http s)\<lparr>response_buffer := b\<rparr>\<rparr>) env1)
              else (0, ?env2))"
      using b get s(8) loaded s(1) unfolding fp answer_plain_def answer_def GetHttpResponseBuffer_def by (simp add: Let_def)
    moreover have "caches ?env2 = caches env" "limits__max_file_cache ?env2 = limits__max_file_cache env"
      using s(1) lim by (simp_all add: upd_session_def)
    ultimately show ?thesis
      using 1(1) True mime s(2) large
      by (cases "m = 0") (simp_all add: serve_page_def cache_page_def FreeHtmlCacheSession_def borrows_def AppendHttpBuffer_def)
  qed
qed

section \<open>An index file that is a directory\<close>

text \<open>The request for a directory never returns when its only index file is itself a directory: each call starts
  the next one.\<close>

definition directory_index :: "'w sys \<Rightarrow> allocator \<Rightarrow> hetao_env \<Rightarrow> nat \<Rightarrow> bytes \<Rightarrow> bytes \<Rightarrow> 'w \<Rightarrow> bool" where
  "directory_index sys alloc env a root name w \<longleftrightarrow>
     (\<exists>h uo n. p_virtual_host (sessions env a) = Some h \<and> unforwarded (hosts env h) root name
        \<and> SplitHttpUri (\<lambda>p. map_option fst (sys_stat sys w p)) (Some root) name = Some (0, uo)
        \<and> sys_stat sys w (page_path root name) = Some (True, n))
   \<and> \<not> dots (page_path root name) \<and> alloc (int (length (page_path root name)) + 1)
   \<and> QueryHtmlCachePathfilenameTreeNode env (page_path root name) = None"

lemma directory_again:
  assumes d: "directory_index sys alloc env a root name w"
  shows "\<exists>env'. process_file sys z alloc page env a root name w = Some (Is_directory, env', w)
     \<and> directory_index sys alloc env' a root name w"
proof -
  obtain h uo n where h: "p_virtual_host (sessions env a) = Some h" "unforwarded (hosts env h) root name"
    and sp: "SplitHttpUri (\<lambda>p. map_option fst (sys_stat sys w p)) (Some root) name = Some (0, uo)"
    and dir: "sys_stat sys w (page_path root name) = Some (True, n)"
    using d by (auto simp: directory_index_def)
  have q: "\<not> dots (page_path root name)" "alloc (int (length (page_path root name)) + 1)"
    "QueryHtmlCachePathfilenameTreeNode env (page_path root name) = None"
    using d by (simp_all add: directory_index_def)
  let ?env0 = "upd_session a (\<lambda>s. s\<lparr>session_uri := zero_uri\<rparr>) env"
  define u where "u = (case uo of None \<Rightarrow> zero_uri | Some u \<Rightarrow> u)"
  define env1 where "env1 = upd_session a (\<lambda>s. s\<lparr>session_uri := u\<rparr>) env"
  have e: "(case uo of None \<Rightarrow> ?env0 | Some u \<Rightarrow> upd_session a (\<lambda>s. s\<lparr>session_uri := u\<rparr>) ?env0) = env1"
    by (auto simp: env1_def u_def upd_session_def split: option.splits)
  have s: "p_virtual_host (sessions env1 a) = Some h" "hosts env1 = hosts env" "session_uri (sessions env1 a) = u"
    "QueryHtmlCachePathfilenameTreeNode env1 (page_path root name) = None"
    using h(1) q(3) by (simp_all add: env1_def upd_session_def QueryHtmlCachePathfilenameTreeNode_def)
  have nf: "rd (forward_rule (hosts env h) @ [NUL]) 0 = NUL \<or> part name (ext_filename_base u) (ext_filename_len u) \<noteq> forward_type (hosts env h)"
    using h(2) sp by (auto simp: unforwarded_def u_def Let_def)
  have "load_page sys alloc (page_path root name) w =
      Some (Inl (zero_cache\<lparr>pathfilename := page_path root name, st_directory := True, st_size := n\<rparr>))"
    using q(2) dir by (simp add: load_page_def)
  then have "serve_file sys z alloc page env1 a root name w = Some (Is_directory, env1, w)"
    using s q(1) nf by (auto simp: serve_file_def Let_def)
  then have "process_file sys z alloc page env a root name w = Some (Is_directory, env1, w)"
    using e by (simp add: process_file_def sp Let_def)
  moreover have "directory_index sys alloc env1 a root name w"
    using h sp dir q s by (auto simp: directory_index_def)
  ultimately show ?thesis by blast
qed

lemma directory_index_never_returns:
  assumes "directory_index sys alloc env a root name w" "strtok '','' index = Some (name, [])"
  shows "process_names sys z alloc page env a root index index w = None"
proof (rule ccontr)
  assume "process_names sys z alloc page env a root index index w \<noteq> None"
  then obtain res where r: "process_names sys z alloc page env a root index index w = Some res" by blast
  have "\<forall>name. directory_index sys alloc env a root name w \<longrightarrow> strtok '','' index = Some (name, []) \<longrightarrow> index = index \<longrightarrow> False"
  proof (rule process_names.raw_induct [of "\<lambda>sys z alloc page env a root index names w res.
      \<forall>name. directory_index sys alloc env a root name w \<longrightarrow> strtok '','' index = Some (name, []) \<longrightarrow> names = index \<longrightarrow> False", OF _ r],
      intro allI impI)
    fix rec :: "'a sys \<Rightarrow> 'b zlib \<Rightarrow> allocator \<Rightarrow> bool \<Rightarrow> hetao_env \<Rightarrow> nat \<Rightarrow> bytes \<Rightarrow> bytes \<Rightarrow> bytes \<Rightarrow> 'a \<Rightarrow> (int \<times> hetao_env \<times> 'a) option"
      and sys z alloc page env a root index names w res name
    assume IH: "\<And>sys z alloc page env a root index names w res. rec sys z alloc page env a root index names w = Some res \<Longrightarrow>
        \<forall>name. directory_index sys alloc env a root name w \<longrightarrow> strtok '','' index = Some (name, []) \<longrightarrow> names = index \<longrightarrow> False"
      and step: "(case strtok '','' names of None \<Rightarrow> Some (HTTP_NOT_FOUND, env, w)
       | Some (name, names) \<Rightarrow>
          (case process_file sys z alloc page env a root name w of None \<Rightarrow> None
           | Some (Is_directory, env, w) \<Rightarrow> rec sys z alloc page env a root index index w
           | Some (Reply nret, env, w) \<Rightarrow>
               if nret = HTTP_OK \<or> nret = 0 then Some (nret, env, w)
               else rec sys z alloc page env a root index names w)) = Some res"
      and d: "directory_index sys alloc env a root name w" "strtok '','' index = Some (name, [])" "names = index"
    obtain env' where "process_file sys z alloc page env a root name w = Some (Is_directory, env', w)"
      "directory_index sys alloc env' a root name w"
      using directory_again [OF d(1)] by blast
    then show False using IH [of sys z alloc page env' a root index index w res] step d(2,3) by auto
  qed
  then show False using assms by blast
qed

section \<open>Events of a session that has been released\<close>

text \<open>A hang-up: none of the flags that the loop asks for.\<close>

definition hang_up :: "nat \<Rightarrow> event" where
  "hang_up a = \<lparr>event_data = Client a, epollin = False, epollout = False, epollrdhup = False, epollerr = False\<rparr>"

lemma hang_up_event:
  "session_event sys z alloc page (hang_up a) env a w = map_option (\<lambda>(env, w). (False, env, w)) (SetHttpSessionUnused sys alloc env a w)"
  by (simp add: session_event_def hang_up_def after_handler_def)

lemma released_hang_up: "a \<notin> used env \<Longrightarrow> session_event sys z alloc page (hang_up a) env a w = None"
  by (simp add: hang_up_event release_foreign)

lemma two_hang_ups:
  assumes "server_ok (wk_env wk)" "a \<in> used (wk_env wk)"
  shows "event_loop os z node mem alloc 2 0 [hang_up a, hang_up a] wk w = None"
proof -
  obtain env1 w1 where 1: "SetHttpSessionUnused (os_sys os) alloc (wk_env wk) a w = Some (env1, w1)" "used env1 = used (wk_env wk) - {a}"
    by (rule released [OF assms])
  have "handle_event os z node mem alloc (hang_up a) rest i wk w = Some (False, i, wk\<lparr>wk_env := env1\<rparr>, w1)" for rest i
    using 1(1) hang_up_event [of "os_sys os" z alloc node a] by (simp add: handle_event_def) (simp add: hang_up_def)
  moreover have "handle_event os z node mem alloc (hang_up a) rest i (wk\<lparr>wk_env := env1\<rparr>) w1 = None" for rest i
    using 1(2) released_hang_up [of a env1] by (simp add: handle_event_def) (simp add: hang_up_def)
  ultimately show ?thesis by simp
qed

lemma expired_hang_up:
  assumes "pool_ok (wk_env wk)" "clock_stands (os_sys os) now" "timeout_key (wk_env wk) a \<le> now"
    and "os_epoll_wait os w = (Some [hang_up a], w1)" "fst (os_second_elapse os w1)"
  shows "worker_round os z node mem alloc wk w = None"
proof -
  obtain w2 where 2: "os_second_elapse os w1 = (True, w2)" using assms(5) by (cases "os_second_elapse os w1") simp
  obtain env3 w3 where 3: "second_sweep (os_sys os) alloc (wk_env wk) w2 = Some (env3, w3)"
    "used env3 = {a \<in> used (wk_env wk). now < timeout_key (wk_env wk) a \<and> now < elapse_key (wk_env wk) a}"
    using second_sweep_ok [OF assms(1,2)] by blast
  then have "a \<notin> used env3" using assms(3) by auto
  then have "handle_event os z node mem alloc (hang_up a) rest i (wk\<lparr>wk_env := env3\<rparr>) v = None" for rest i v
    using released_hang_up [of a env3] by (simp add: handle_event_def) (simp add: hang_up_def)
  then show ?thesis using assms(4) 2 3(1) by (simp add: worker_round_def)
qed

end
