(* ===== verification/HetaoExamples.thy ===== *)
theory HetaoExamples
  imports HetaoAnswers HetaoHost HttpPipeline
begin

text \<open>
  Small states of the server on which the hypotheses of the theorems hold: one session in use, whose request has
  been received, a page, a listener without connections, and systems with a given clock or files.
\<close>

definition asking :: http_env where
  "asking = versioned\<lparr>headers := (headers versioned)\<lparr>method_n := HTTP_METHOD_GET_N\<rparr>\<rparr>"

definition html_type :: mime_type where
  "html_type = \<lparr>mt_type = ''html'', mt_mime = ''text/html'', mt_compress_enable = 1\<rparr>"

definition busy_env :: hetao_env where
  "busy_env = zero_hetao_env\<lparr>limits__max_http_session_count := 1, limits__max_connections_per_ip := - 1,
     sessions := (\<lambda>_. (zero_session asking zero_buffer zero_env)\<lparr>p_virtual_host := Some 0\<rparr>), next_session := 1,
     http_session_used_count := 1, http_session_timeout_rbtree_used := RB_NODE RB_BLACK RB_NULL 0 RB_NULL,
     http_session_elapse_rbtree_used := RB_NODE RB_BLACK RB_NULL 0 RB_NULL, mime_type_hash := [[html_type]],
     caches := (\<lambda>_. zero_cache\<lparr>html_content := Some ''hello'', st_size := 5\<rparr>)\<rparr>"

lemma busy_used [simp]: "used busy_env = {0}"
  by (simp add: used_def busy_env_def)

lemma busy_pool: "pool_ok busy_env" "counted busy_env"
  by (simp_all add: pool_ok_def counted_def) (simp add: busy_env_def zero_hetao_env_def index_ok_def rb_ok_def, simp add: busy_env_def)

lemma busy_balanced: "balanced busy_env"
  by (simp add: balanced_def link_def busy_env_def zero_hetao_env_def zero_server_def zero_session_def)

lemma busy_pages: "pages_ok busy_env"
  by (simp add: pages_ok_def lends_def borrows_def cache_ok_def cached_def busy_env_def zero_hetao_env_def zero_session_def
      asking_def versioned_def plain_env_def zero_env_def)

lemma busy_ok: "server_ok busy_env"
  by (simp add: server_ok_def busy_pool busy_balanced busy_pages)

lemma busy_own: "own_indexes busy_env"
  by (subst own_indexes_def) (simp add: busy_env_def zero_hetao_env_def zero_host_def index_names.simps strtok_def)

lemma idle_serves: "small_files idle_sys m = (0 \<le> m)" "watches idle_sys"
  by (simp_all add: small_files_def watches_def idle_sys_def)

lemma busy_answerable: "answerable busy_env 0"
  by (simp add: answerable_def request_version_def busy_env_def zero_session_def asking_def headers_received_def
      GetHttpHeaderPtr_VERSION_def value_ptr_def Let_def)
    (simp add: versioned_def plain_env_def writable_def buffer_ok_def area_def zero_headers_def zero_header_def deref_def
      received_buffer_def slice_def cstr_def)

lemma busy_mime: "QueryMimeTypeHashNode (mime_type_hash busy_env) ''html'' = Some (Some html_type)"
  by (simp add: QueryMimeTypeHashNode_def query_node_def hash_index_def busy_env_def html_type_def strncmp_eq_def)

text \<open>The same request with the header \<open>Accept-Encoding\<close>.\<close>

definition choosy :: http_env where
  "choosy = asking\<lparr>request_buffer := received_buffer ''HTTP/1.1Accept-Encoding:gzip'',
     headers := (headers asking)\<lparr>header_array_size := 1, header_array_count := 1,
       header_array := [\<lparr>p_buffer = Some RequestBuffer, name_offset = 8, name_len = 15, value_offset = 24, value_len = 4\<rparr>]\<rparr>\<rparr>"

definition choosy_env :: hetao_env where
  "choosy_env = upd_session 0 (\<lambda>s. s\<lparr>http := choosy\<rparr>) busy_env"

lemma choosy_answerable: "answerable choosy_env 0"
  by (simp add: answerable_def request_version_def choosy_env_def choosy_def asking_def headers_received_def
      GetHttpHeaderPtr_VERSION_def value_ptr_def Let_def)
    (simp add: versioned_def plain_env_def writable_def buffer_ok_def area_def zero_headers_def zero_header_def deref_def
      received_buffer_def slice_def cstr_def)

lemma choosy_header: "QueryHttpHeaderPtr (http_lib_state choosy_env) (http (sessions choosy_env 0)) ''Accept-Encoding'' \<noteq> None"
  by (simp add: QueryHttpHeaderPtr_def QueryHttpHeader_def header_named_def choosy_env_def choosy_def asking_def
      received_buffer_def area_def deref_def slice_def value_ptr_def Let_def)

lemma asking_no_header: "QueryHttpHeaderPtr (http_lib_state busy_env) (http (sessions busy_env 0)) ''Accept-Encoding'' = None"
  by (simp add: QueryHttpHeaderPtr_def QueryHttpHeader_def busy_env_def zero_session_def asking_def versioned_def zero_headers_def)

lemma choosy_env_same: "mime_type_hash choosy_env = mime_type_hash busy_env" "caches choosy_env = caches busy_env"
  "http_options__compress_on choosy_env = False"
  by (simp_all add: choosy_env_def upd_session_def busy_env_def zero_hetao_env_def)

text \<open>A file system that consists of directories.\<close>

definition directories :: "unit sys" where
  "directories = idle_sys\<lparr>sys_stat := \<lambda>_ _. Some (True, 0)\<rparr>"

lemma busy_directory: "directory_index directories (\<lambda>_. True) busy_env 0 ''/www/'' ''doc'' ()"
proof -
  have s: "SplitHttpUri (\<lambda>p. map_option fst (sys_stat directories () p)) (Some ''/www/'') ''doc'' =
      Some (0, Some (uri_parts 0 3 0 0 0 0 3 0 3 0))"
    by (simp add: SplitHttpUri_def split_plain_def last_slash_def dot_question.simps directories_def Let_def eval_nat_numeral)
  have "hosts busy_env 0 = zero_host" "p_virtual_host (sessions busy_env 0) = Some 0"
    by (simp_all add: busy_env_def zero_hetao_env_def)
  then show ?thesis
    using s unfolding directory_index_def
    by (auto simp: unforwarded_def zero_host_def rd_def page_path_def cstr_def QueryHtmlCachePathfilenameTreeNode_def)
      (auto simp: directories_def busy_env_def zero_hetao_env_def)
qed

text \<open>A worker with one listener on which nobody calls; a second has passed.\<close>

definition waiting_os :: "unit worker_os" where
  "waiting_os = \<lparr>os_sys = idle_sys, os_inotify_init = (\<lambda>w. (5, w)),
     os_epoll_wait = (\<lambda>w. (Some [\<lparr>event_data = Listener 0, epollin = True, epollout = False, epollrdhup = False, epollerr = False\<rparr>], w)),
     os_second_elapse = (\<lambda>w. (True, w)), os_second_clear = (\<lambda>w. w), os_epoll_add_other = (\<lambda>_ _ w. (0, w)),
     os_read_pipe = (\<lambda>w. (Pipe_failed, w)), os_open_log = (\<lambda>_ w. (9, w))\<rparr>"

definition busy_worker :: worker where
  "busy_worker = \<lparr>wk_env = busy_env, listen_session_list = [0], accept_mutex = 0, worker_processes = 1, this_process = 0,
     used_counts = (\<lambda>_. 0), pipe_fd = 3, htmlcache_inotify_fd = 5, muted = [], g_worker_exit_flag = False\<rparr>"

lemma waiting_round:
  "\<exists>wk'. worker_round waiting_os z True mem alloc busy_worker () = Some (False, wk', ()) \<and> used (wk_env wk') = {}"
proof -
  have p: "pool_ok (wk_env busy_worker)" "timeout_key (wk_env busy_worker) 0 = 0" "used (wk_env busy_worker) = {0}"
    by (simp_all add: busy_worker_def busy_pool) (simp add: busy_env_def zero_session_def)
  have "clock_stands (os_sys waiting_os) 1000" by (simp add: waiting_os_def idle_clock)
  from second_sweep_ok [OF p(1) this, of alloc "()"] obtain env' and w' :: unit where
    s: "second_sweep (os_sys waiting_os) alloc (wk_env busy_worker) () = Some (env', w')"
       "used env' = {a \<in> used (wk_env busy_worker). 1000 < timeout_key (wk_env busy_worker) a \<and> 1000 < elapse_key (wk_env busy_worker) a}"
    by (elim exE conjE) (rule that)
  have u: "used env' = {}" unfolding s(2) p(3) using p(2) by auto
  have a: "accept_loop idle_sys True mem alloc 50 env' 0 () = Some (0, env', ())"
    by (simp add: numeral_eq_Suc idle_sys_def)
  have "worker_round waiting_os z True mem alloc busy_worker () = Some (False, busy_worker\<lparr>wk_env := env',
     used_counts := (\<lambda>_. 0)(0 := http_session_used_count env')\<rparr>, ())"
    using s(1) a
    by (simp add: worker_round_def waiting_os_def handle_event_def listen_event_def OnAcceptingSocket_def busy_worker_def Let_def)
  then show ?thesis using u by auto
qed

lemma waiting_orderly: "orderly waiting_os alloc busy_worker ()"
  by (simp add: orderly_def waiting_os_def)

text \<open>A cache with one page, whose watch descriptor is 7.\<close>

definition paged_env :: hetao_env where
  "paged_env = busy_env\<lparr>caches := (\<lambda>_. zero_cache\<lparr>pathfilename := ''/www/a.html'', html_content := Some ''hello'', wd := 7\<rparr>),
     htmlcache_session_list := [0], htmlcache_session_count := 1, next_cache := 1,
     htmlcache_wd_rbtree := RB_NODE RB_BLACK RB_NULL 0 RB_NULL, htmlcache_pathfilename_rbtree := RB_NODE RB_BLACK RB_NULL 0 RB_NULL\<rparr>"

lemma paged_ok: "cache_ok paged_env" "borrow_ok paged_env"
  by (simp_all add: paged_env_def cache_ok_def cached_def index_ok_def rb_ok_def)
    (simp add: borrow_ok_def borrows_def busy_env_def zero_session_def asking_def versioned_def plain_env_def zero_env_def)

end
