(* ===== verification/HetaoConfig.thy ===== *)
theory HetaoConfig
  imports HetaoState
begin

text \<open>
  The configuration (\<open>Config.c\<close>): the defaults, environment variables in file names, files included into the
  configuration file, and the conversion of what has been read into the environment of the server.  The parser
  of the configuration file is generated code and a parameter.  An array with its count is a list; a field of
  characters is the string in it.
\<close>

section \<open>The configuration (\<open>IDL_hetao_conf.dsc.h\<close>)\<close>

record rewrite_conf =
  rc_pattern :: bytes
  rc_new_uri :: bytes

record redirect_conf =
  dc_domain :: bytes
  dc_new_domain :: bytes

record forward_server_conf =
  sc_ip :: bytes
  sc_port :: int

record forward_conf =
  fc_type :: bytes
  fc_rule :: bytes
  fc_certificate_file :: bytes
  fc_certificate_key_file :: bytes
  fc_servers :: "forward_server_conf list"

record website_conf =
  wc_domain :: bytes
  wc_wwwroot :: bytes
  wc_index :: bytes
  wc_access_log :: bytes
  wc_rewrites :: "rewrite_conf list"
  wc_redirects :: "redirect_conf list"
  wc_forward :: forward_conf

record listen_conf =
  lc_ip :: bytes
  lc_port :: int
  lc_certificate_file :: bytes
  lc_certificate_key_file :: bytes
  lc_websites :: "website_conf list"

record error_pages =
  error_page_400 :: bytes
  error_page_401 :: bytes
  error_page_403 :: bytes
  error_page_404 :: bytes
  error_page_408 :: bytes
  error_page_500 :: bytes
  error_page_503 :: bytes
  error_page_505 :: bytes

record hetao_conf =
  cf_worker_processes :: int
  cf_cpu_affinity :: int
  cf_accept_mutex :: int
  cf_error_log :: bytes
  cf_log_level :: bytes
  cf_user :: bytes
  cf_max_http_session_count :: int
  cf_max_file_cache :: int
  cf_max_connections_per_ip :: int
  cf_listens :: "listen_conf list"
  cf_nodelay :: int
  cf_nolinger :: int
  cf_compress_on :: int
  cf_timeout :: int
  cf_elapse :: int
  cf_forward_disable :: int
  cf_error_pages :: error_pages
  cf_mime_types :: "mime_type_conf list"

definition SetDefaultConfig :: "hetao_conf \<Rightarrow> hetao_conf" where
  "SetDefaultConfig conf = conf\<lparr>cf_worker_processes := 1, cf_cpu_affinity := 1, cf_accept_mutex := 0,
     cf_error_log := ''/var/hetao/log/error.log'', cf_log_level := ''ERROR'', cf_user := ''nobody'',
     cf_max_http_session_count := 100000, cf_max_file_cache := 1024000, cf_max_connections_per_ip := - 1,
     cf_nodelay := 1, cf_nolinger := - 1,
     cf_compress_on := 1, cf_timeout := 30, cf_elapse := 60, cf_forward_disable := 60\<rparr>"

definition default_mime_types :: "(bytes \<times> bytes \<times> int) list" where
  "default_mime_types =
    [(''html htm shtml'', ''text/html'', 1), (''css'', ''text/css'', 1), (''xml'', ''text/xml'', 1),
     (''txt'', ''text/plain'', 1), (''gif'', ''image/gif'', 0), (''jpeg jpg'', ''image/jpeg'', 0),
     (''png'', ''image/png'', 0), (''tif tiff'', ''image/tiff'', 0), (''ico'', ''image/x-ico'', 0),
     (''jng'', ''image/x-jng'', 0), (''bmp'', ''image/x-ms-bmp'', 0), (''svg svgz'', ''image/svg+xml'', 1),
     (''jar war ear'', ''application/java-archive'', 0), (''json'', ''application/json'', 1),
     (''doc'', ''application/msword'', 0), (''pdf'', ''application/pdf'', 0), (''rtf'', ''application/rtf'', 0),
     (''xls'', ''application/vnd.ms-excel'', 0), (''ppt'', ''application/vnd.ms-powerpoint'', 0),
     (''7z'', ''application/x-7z-compressed'', 0), (''rar'', ''application/x-rar-compressed'', 0),
     (''swf'', ''application/x-shockwave-flas'', 0), (''xhtml'', ''application/xhtml+xml'', 1),
     (''bin exe dll iso img msi msp msm'', ''application/octet-stream'', 0), (''zip'', ''application/zip'', 0),
     (''docx'', ''application/vnd.openxmlformats-officedocument.wordprocessingml.document'', 0),
     (''xlsx'', ''application/vnd.openxmlformats-officedocument.spreadsheetml.sheet'', 0),
     (''pptx'', ''application/vnd.openxmlformats-officedocument.presentationml.presentation'', 0),
     (''mid midi kar'', ''audio/midi'', 0), (''mp3'', ''audio/mpeg'', 0), (''ogg'', ''audio/ogg'', 0),
     (''m4a'', ''audio/x-m4a'', 0), (''ra'', ''audio/x-realaudio'', 0), (''3gpp 3gp'', ''video/3gpp'', 0),
     (''ts'', ''video/mp2t'', 0), (''mp4'', ''video/mp4'', 0), (''mpeg mpg'', ''video/mpeg'', 0),
     (''mov'', ''video/quicktime'', 0), (''webm'', ''video/webm'', 0), (''flv'', ''video/x-flv'', 0),
     (''m4v'', ''video/x-m4v'', 0), (''mng'', ''video/x-mng'', 0), (''asx asf'', ''video/x-ms-asf'', 0),
     (''wmv'', ''video/x-ms-wmv'', 0), (''avi'', ''video/x-msvideo'', 0)]"

definition AppendDefaultConfig :: "hetao_conf \<Rightarrow> hetao_conf" where
  "AppendDefaultConfig conf =
     (if cf_mime_types conf = []
      then conf\<lparr>cf_mime_types := map (\<lambda>(t, m, c). \<lparr>mtc_type = t, mtc_mime = m, mtc_compress_enable = c\<rparr>) default_mime_types\<rparr>
      else conf)"

section \<open>The operating system\<close>

text \<open>What is asked of it while the configuration is read.  \<open>co_alloc\<close>: allocations succeed.\<close>

record config_os =
  co_alloc :: bool
  co_getenv :: "bytes \<Rightarrow> bytes option"
  co_read :: "bytes \<Rightarrow> bytes option"  \<comment> \<open>\<open>stat\<close>, \<open>fopen\<close> and the content; \<open>None\<close>: one of them fails\<close>
  co_exists :: "bytes \<Rightarrow> bool"  \<comment> \<open>\<open>access\<close>\<close>
  co_stat :: "bytes \<Rightarrow> bool option"  \<comment> \<open>directory?; \<open>None\<close>: failure\<close>
  co_user :: "bytes \<Rightarrow> bool"  \<comment> \<open>whether \<open>getpwnam\<close> knows the user\<close>
  co_processors :: int

definition IsDirectory :: "config_os \<Rightarrow> bytes \<Rightarrow> int" where
  "IsDirectory os path = (case co_stat os path of None \<Rightarrow> - 1 | Some directory \<Rightarrow> if directory then 1 else 0)"

definition IsFile :: "config_os \<Rightarrow> bytes \<Rightarrow> int" where
  "IsFile os path = (case co_stat os path of None \<Rightarrow> - 1 | Some directory \<Rightarrow> if directory then 0 else 1)"

definition AccessFileExist :: "config_os \<Rightarrow> bytes \<Rightarrow> int" where
  "AccessFileExist os path = (if co_exists os path then 1 else - 1)"

section \<open>Environment variables\<close>

text \<open>\<open>strchr\<close> from the offset \<open>p\<close> of a string.\<close>

definition strchr_from :: "bytes \<Rightarrow> nat \<Rightarrow> char \<Rightarrow> nat option" where
  "strchr_from s p c = (if c \<in> set (drop p s) then Some (p + length (takeWhile (\<lambda>d. d \<noteq> c) (drop p s))) else None)"

text \<open>The buffer holds \<open>cap\<close> characters, the last of them the NUL.  \<open>Overrun\<close>: a write beyond it.\<close>

datatype expansion = Overrun | Expanded int bytes

partial_function (option) expand_loop :: "config_os \<Rightarrow> int \<Rightarrow> int \<Rightarrow> bytes \<Rightarrow> nat \<Rightarrow> expansion option" where
  "expand_loop os cap total_len buf p1 =
     (case strchr_from buf p1 (CHR ''$'') of
        None \<Rightarrow> Some (Expanded 0 buf)
      | Some p1 \<Rightarrow>
          (case strchr_from buf (p1 + 1) (CHR ''$'') of
             None \<Rightarrow> Some (Expanded 0 buf)
           | Some p2 \<Rightarrow>
               if \<not> co_alloc os then Some (Expanded (- 1) buf)
               else (case co_getenv os (slice (p1 + 1) (p2 - p1 - 1) buf) of
                       None \<Rightarrow> Some (Expanded (- 1) buf)
                     | Some v \<Rightarrow>
                         if total_len + (int (length v) - (int p2 - int p1 + 1)) > cap - 1
                         then Some (Expanded (- 1) buf)
                         else if int (p1 + length v + length (drop (p2 + 1) buf) + 1) > cap then Some Overrun
                         else expand_loop os cap total_len (take p1 buf @ v @ drop (p2 + 1) buf) p1)))"

definition StringExpandEnvval :: "config_os \<Rightarrow> bytes \<Rightarrow> int \<Rightarrow> expansion option" where
  "StringExpandEnvval os buf cap = expand_loop os cap (int (length buf)) buf 0"

text \<open>The result for the callers, which have no behaviour if it overruns or does not end.\<close>

definition expanded :: "config_os \<Rightarrow> bytes \<Rightarrow> int \<Rightarrow> (int \<times> bytes) option" where
  "expanded os buf cap =
     (case StringExpandEnvval os buf cap of Some (Expanded nret s) \<Rightarrow> Some (nret, s) | _ \<Rightarrow> None)"

section \<open>Included files\<close>

text \<open>\<open>strrchr\<close>: the string up to and with the last occurrence.\<close>

definition up_to_last :: "char \<Rightarrow> bytes \<Rightarrow> bytes" where
  "up_to_last c s = rev (dropWhile (\<lambda>d. d \<noteq> c) (rev s))"

definition include_base :: "bytes \<Rightarrow> bytes" where
  "include_base path =
     (if CHR ''/'' \<in> set path then up_to_last (CHR ''/'') path else up_to_last (CHR 0x5C) path)"

text \<open>The next directive of the text: its offset, its length and the name in it.\<close>

datatype directive = No_directive | Bad_directive | Directive nat nat bytes

definition next_directive :: "bytes \<Rightarrow> directive" where
  "next_directive buf =
     (case strstr_from buf 0 ''!include'' of
        None \<Rightarrow> No_directive
      | Some p1 \<Rightarrow>
          let p2 = p1 + 8 + length (takeWhile (\<lambda>c. c = SP) (drop (p1 + 8) buf)) in
          if p2 = length buf then Bad_directive
          else if buf ! p2 = CHR 0x22 then
            (case strchr_from buf (p2 + 1) (CHR 0x22) of
               None \<Rightarrow> Bad_directive
             | Some p4 \<Rightarrow> Directive p1 (p4 + 1 - p1) (slice (p2 + 1) (p4 - (p2 + 1)) buf))
          else
            (let p4 = (case strchr_from buf p2 LF of None \<Rightarrow> length buf | Some p \<Rightarrow> p);
                 name = rev (dropWhile (\<lambda>c. c = SP \<or> c = CR) (rev (slice p2 (p4 - p2) buf))) in
             if name = [] then Bad_directive else Directive p1 (p4 - p1) name))"

definition one_line :: "bytes \<Rightarrow> bytes" where
  "one_line s = map (\<lambda>c. if c = CR \<or> c = LF then SP else c) s"

text \<open>\<open>StringExpandIncludeFile\<close> and the \<open>StrdupEntireFile\<close> that it calls for each directive.  The buffer is
  described by the string in it and its size; the string of a file ends at the first NUL of its content.  The
  outer \<open>None\<close>: the function does not return, or a name does not fit into its field of 256 characters; the
  inner one is the \<open>NULL\<close> that is returned.\<close>

partial_function (option) include_loop ::
    "config_os \<Rightarrow> bytes \<Rightarrow> bytes \<Rightarrow> int \<Rightarrow> (bytes \<times> int) option option" where
  "include_loop os dir buf n =
     (case next_directive buf of
        No_directive \<Rightarrow> Some (Some (buf, n))
      | Bad_directive \<Rightarrow> Some None
      | Directive offset len name \<Rightarrow>
          if length (dir @ name) > 256 then None
          else if \<not> co_alloc os then Some None
          else (case co_read os (dir @ name) of
                  None \<Rightarrow> Some None
                | Some cs \<Rightarrow>
                    if cs = [] then Some None
                    else do {
                      r \<leftarrow> include_loop os (include_base (dir @ name)) (cstr cs) (int (length cs));
                      (case r of
                         None \<Rightarrow> Some None
                       | Some (s, isize) \<Rightarrow>
                           include_loop os dir
                             (take offset buf @ one_line s @ (if int (length s) < isize then [] else drop (offset + len) buf))
                             (n + (isize - int len))) }))"

definition StringExpandIncludeFile :: "config_os \<Rightarrow> bytes \<Rightarrow> bytes \<Rightarrow> int \<Rightarrow> (bytes \<times> int) option option" where
  "StringExpandIncludeFile os path buf n =
     (if length path > 256 then None else include_loop os (include_base path) buf n)"

definition StrdupEntireFile :: "config_os \<Rightarrow> bytes \<Rightarrow> (bytes \<times> int) option option" where
  "StrdupEntireFile os path =
     (case co_read os path of
        None \<Rightarrow> Some None
      | Some cs \<Rightarrow>
          if \<not> co_alloc os \<or> cs = [] then Some None
          else StringExpandIncludeFile os path (cstr cs) (int (length cs)))"

text \<open>The generated parser is \<open>parse\<close>: from the text, its size and the configuration with its defaults to a
  result code and the configuration.\<close>

definition LoadConfig ::
    "config_os \<Rightarrow> (bytes \<Rightarrow> int \<Rightarrow> hetao_conf \<Rightarrow> int \<times> hetao_conf) \<Rightarrow> bytes \<Rightarrow> hetao_conf \<Rightarrow> (int \<times> hetao_conf) option" where
  "LoadConfig os parse path conf =
     (case StrdupEntireFile os path of
        None \<Rightarrow> None
      | Some None \<Rightarrow> Some (- 1, conf)
      | Some (Some (buf, n)) \<Rightarrow>
          let (nret, conf) = parse buf n conf in Some (if nret \<noteq> 0 then (- 1, conf) else (0, conf)))"

section \<open>Conversion\<close>

text \<open>The part of \<open>struct HetaoEnv\<close> that belongs to the main process; the workers get \<open>me_worker\<close> of it.\<close>

record main_env =
  me_worker_processes :: int
  me_cpu_affinity :: int
  me_accept_mutex :: int
  me_error_log :: bytes
  me_log_level :: int
  me_nodelay :: int
  me_nolinger :: int
  me_pwd :: "bytes option"  \<comment> \<open>the user found\<close>
  me_init_ssl_env_flag :: bool
  me_listen_session_list :: "nat list"
  me_listen_session_count :: int
  me_epoll_fds :: "int list"  \<comment> \<open>\<open>epoll_fd\<close> in \<open>process_info_array\<close>\<close>
  me_inotify_fd :: int  \<comment> \<open>\<open>htmlcache_inotify_fd\<close>\<close>
  me_worker :: hetao_env
  me_next_listen :: nat  \<comment> \<open>the next addresses that \<open>malloc\<close> hands out for listeners, hosts and servers\<close>
  me_next_host :: nat
  me_next_server :: nat

definition ConvertLogLevel_atoi :: "bytes \<Rightarrow> int \<Rightarrow> int \<times> int" where
  "ConvertLogLevel_atoi desc level =
     (if desc = ''DEBUG'' then (0, 0) else if desc = ''INFO'' then (0, 1) else if desc = ''WARN'' then (0, 2)
      else if desc = ''ERROR'' then (0, 3) else if desc = ''FATAL'' then (0, 4) else (- 11, level))"

text \<open>A loop over an array, up to the first failure.\<close>

fun convert_all :: "('a \<Rightarrow> (int \<times> 'a) option) \<Rightarrow> 'a list \<Rightarrow> (int \<times> 'a list) option" where
  "convert_all f [] = Some (0, [])"
| "convert_all f (x # xs) =
     (case f x of
        None \<Rightarrow> None
      | Some (nret, x) \<Rightarrow>
          if nret \<noteq> 0 then Some (nret, x # xs) else map_option (\<lambda>(nret, xs). (nret, x # xs)) (convert_all f xs))"

text \<open>A certificate or a key: if one is configured, the file has to exist.\<close>

definition convert_file :: "config_os \<Rightarrow> bytes \<Rightarrow> (int \<times> bytes) option" where
  "convert_file os s =
     map_option (\<lambda>(nret, s). if nret \<noteq> 0 then (nret, s) else if s \<noteq> [] \<and> AccessFileExist os s \<noteq> 1 then (- 1, s) else (0, s))
       (expanded os s 257)"

definition convert_forward :: "config_os \<Rightarrow> forward_conf \<Rightarrow> (int \<times> forward_conf) option" where
  "convert_forward os fw =
     (if fc_rule fw = [] then Some (0, fw)
      else map_option (\<lambda>(nret, s).
             let fw = fw\<lparr>fc_certificate_file := s\<rparr> in
             if nret \<noteq> 0 then (nret, fw)
             else if fc_rule fw \<noteq> ''R'' \<and> fc_rule fw \<noteq> ''L'' then (- 1, fw) else (0, fw)) (convert_file os (fc_certificate_file fw)))"

definition convert_website :: "config_os \<Rightarrow> website_conf \<Rightarrow> (int \<times> website_conf) option" where
  "convert_website os ws =
     (case expanded os (wc_wwwroot ws) 1025 of
        None \<Rightarrow> None
      | Some (nret, s) \<Rightarrow>
          let ws = ws\<lparr>wc_wwwroot := s\<rparr> in
          if nret \<noteq> 0 then Some (nret, ws)
          else if IsDirectory os s \<noteq> 1 then Some (- 1, ws)
          else (case expanded os (wc_access_log ws) 257 of
                  None \<Rightarrow> None
                | Some (nret, s) \<Rightarrow>
                    let ws = ws\<lparr>wc_access_log := s\<rparr> in
                    if nret \<noteq> 0 then Some (nret, ws)
                    else map_option (\<lambda>(nret, fw). (nret, ws\<lparr>wc_forward := fw\<rparr>)) (convert_forward os (wc_forward ws))))"

definition convert_listen :: "config_os \<Rightarrow> listen_conf \<Rightarrow> (int \<times> listen_conf) option" where
  "convert_listen os l =
     (if lc_websites l = [] then Some (- 1, l)
      else case convert_file os (lc_certificate_file l) of
             None \<Rightarrow> None
           | Some (nret, s) \<Rightarrow>
               let l = l\<lparr>lc_certificate_file := s\<rparr> in
               if nret \<noteq> 0 then Some (nret, l)
               else (case convert_file os (lc_certificate_key_file l) of
                       None \<Rightarrow> None
                     | Some (nret, s) \<Rightarrow>
                         let l = l\<lparr>lc_certificate_key_file := s\<rparr> in
                         if nret \<noteq> 0 then Some (nret, l)
                         else map_option (\<lambda>(nret, ws). (nret, l\<lparr>lc_websites := ws\<rparr>))
                                (convert_all (convert_website os) (lc_websites l))))"

text \<open>The eight pages, each with its status.\<close>

definition error_page_fields ::
    "(int \<times> bytes \<times> (error_pages \<Rightarrow> bytes) \<times> ((bytes \<Rightarrow> bytes) \<Rightarrow> error_pages \<Rightarrow> error_pages)) list" where
  "error_page_fields =
     [(400, ''400'', error_page_400, error_page_400_update), (401, ''401'', error_page_401, error_page_401_update),
      (403, ''403'', error_page_403, error_page_403_update), (404, ''404'', error_page_404, error_page_404_update),
      (408, ''408'', error_page_408, error_page_408_update), (500, ''500'', error_page_500, error_page_500_update),
      (503, ''503'', error_page_503, error_page_503_update), (505, ''505'', error_page_505, error_page_505_update)]"

fun set_error_pages ::
    "config_os \<Rightarrow> (int \<times> bytes \<times> (error_pages \<Rightarrow> bytes) \<times> ((bytes \<Rightarrow> bytes) \<Rightarrow> error_pages \<Rightarrow> error_pages)) list
       \<Rightarrow> error_pages \<Rightarrow> http_lib \<Rightarrow> (int \<times> error_pages \<times> http_lib) option" where
  "set_error_pages os [] pages lib = Some (0, pages, lib)"
| "set_error_pages os ((status, status_s, get, upd) # fs) pages lib =
     (if get pages = [] then set_error_pages os fs pages lib
      else case expanded os (get pages) 1025 of
             None \<Rightarrow> None
           | Some (nret, path) \<Rightarrow>
               let pages = upd (\<lambda>_. path) pages in
               if nret \<noteq> 0 then Some (nret, pages, lib)
               else (case StrdupEntireFile os path of
                       None \<Rightarrow> None
                     | Some None \<Rightarrow> Some (- 1, pages, lib)
                     | Some (Some (html, n)) \<Rightarrow> set_error_pages os fs pages (SetHttpStatus lib status status_s html)))"

definition fill_environment :: "hetao_conf \<Rightarrow> main_env \<Rightarrow> main_env" where
  "fill_environment conf me = me\<lparr>me_worker_processes := cf_worker_processes conf, me_cpu_affinity := cf_cpu_affinity conf,
     me_accept_mutex := cf_accept_mutex conf, me_error_log := cf_error_log conf,
     me_nodelay := cf_nodelay conf, me_nolinger := cf_nolinger conf,
     me_worker := (me_worker me)\<lparr>limits__max_http_session_count := cf_max_http_session_count conf,
        limits__max_file_cache := cf_max_file_cache conf, limits__max_connections_per_ip := cf_max_connections_per_ip conf,
        http_options__timeout := cf_timeout conf, http_options__elapse := cf_elapse conf,
        http_options__compress_on := (cf_compress_on conf \<noteq> 0), http_options__forward_disable := cf_forward_disable conf\<rparr>\<rparr>"

text \<open>The checks of the listeners, and the pages; \<open>me\<close> has the level of the log and the user.\<close>

definition convert_sites :: "config_os \<Rightarrow> hetao_conf \<Rightarrow> main_env \<Rightarrow> (int \<times> hetao_conf \<times> main_env) option" where
  "convert_sites os conf me =
     (if cf_listens conf = [] then Some (- 1, conf, me)
      else case convert_all (convert_listen os) (cf_listens conf) of
             None \<Rightarrow> None
           | Some (nret, ls) \<Rightarrow>
               let conf = conf\<lparr>cf_listens := ls\<rparr> in
               if nret \<noteq> 0 then Some (nret, conf, me)
               else (case set_error_pages os error_page_fields (cf_error_pages conf) (http_lib_state (me_worker me)) of
                       None \<Rightarrow> None
                     | Some (nret, pages, lib) \<Rightarrow>
                         let conf = conf\<lparr>cf_error_pages := pages\<rparr>; me = me\<lparr>me_worker := (me_worker me)\<lparr>http_lib_state := lib\<rparr>\<rparr> in
                         Some (if nret \<noteq> 0 then (nret, conf, me) else (0, conf, fill_environment conf me))))"

text \<open>For a user that the system does not know the function returns the \<open>nret\<close> of the last successful step.\<close>

definition ConvertConfig :: "config_os \<Rightarrow> hetao_conf \<Rightarrow> main_env \<Rightarrow> (int \<times> hetao_conf \<times> main_env) option" where
  "ConvertConfig os conf me =
     (let conf = (if cf_worker_processes conf \<le> 0 then conf\<lparr>cf_worker_processes := co_processors os\<rparr> else conf) in
      case expanded os (cf_error_log conf) 257 of
        None \<Rightarrow> None
      | Some (nret, s) \<Rightarrow>
          let conf = conf\<lparr>cf_error_log := s\<rparr> in
          if nret \<noteq> 0 then Some (nret, conf, me)
          else
            let (nret, level) = ConvertLogLevel_atoi (cf_log_level conf) (me_log_level me);
                me = me\<lparr>me_log_level := level\<rparr> in
            if nret \<noteq> 0 then Some (nret, conf, me)
            else if cf_user conf \<noteq> [] \<and> \<not> co_user os (cf_user conf) then Some (nret, conf, me\<lparr>me_pwd := None\<rparr>)
            else convert_sites os conf (if cf_user conf \<noteq> [] then me\<lparr>me_pwd := Some (cf_user conf)\<rparr> else me))"

end
