(* ===== verification/HetaoListen.thy ===== *)
theory HetaoListen
  imports HetaoSocket HetaoConfig
begin

text \<open>
  The start of the server: the sockets that a process hands over to its successor and the environment of the
  processes (\<open>Envirment.c\<close>), and the listeners with their hosts, rewriting rules, redirections and forward servers
  (\<open>ListenSession.c\<close>).  A step works on \<open>'w start\<close>: the environment, the listeners of the old process and the world.
  \<open>None\<close> stands for a division by the size of an empty table.
\<close>

section \<open>Services of the operating system\<close>

record 'w start_os =
  so_sys :: "'w sys"
  so_malloc :: "'w \<Rightarrow> bool \<times> 'w"
  so_getenv :: "'w \<Rightarrow> bytes \<Rightarrow> bytes option"
  so_putenv :: "bytes \<Rightarrow> 'w \<Rightarrow> 'w"
  so_getsockname :: "int \<Rightarrow> 'w \<Rightarrow> (ip \<times> nat) option"  \<comment> \<open>address and port a socket is bound to\<close>
  so_inet_addr :: "bytes \<Rightarrow> ip"
  so_bind :: "int \<Rightarrow> net_address \<Rightarrow> 'w \<Rightarrow> bool \<times> 'w"
  so_listen :: "int \<Rightarrow> 'w \<Rightarrow> bool \<times> 'w"
  so_ssl_ctx_new :: "'w \<Rightarrow> bool \<times> 'w"
  so_use_certificate :: "bytes \<Rightarrow> 'w \<Rightarrow> bool"
  so_use_key :: "bytes \<Rightarrow> 'w \<Rightarrow> bool"
  so_open_log :: "bytes \<Rightarrow> 'w \<Rightarrow> int \<times> 'w"
  so_pcre_compile :: "bytes \<Rightarrow> bool"  \<comment> \<open>whether a pattern can be compiled\<close>
  so_shmget :: "int \<Rightarrow> 'w \<Rightarrow> bool \<times> 'w"
  so_shmat :: "'w \<Rightarrow> bool \<times> 'w"
  so_shm_remove :: "'w \<Rightarrow> 'w"  \<comment> \<open>\<open>shmdt\<close> and \<open>shmctl( IPC_RMID )\<close>\<close>
  so_epoll_create :: "'w \<Rightarrow> int \<times> 'w"

section \<open>Handing the sockets over\<close>

definition HETAO_LISTEN_SOCKFDS :: bytes where "HETAO_LISTEN_SOCKFDS = ''HETAO_LISTEN_SOCKFDS''"

text \<open>\<open>%d\<close>.\<close>

definition print_int :: "int \<Rightarrow> bytes" where
  "print_int n = (if n < 0 then CHR ''-'' # decimal (nat (- n)) else decimal (nat n))"

text \<open>\<open>snprintf\<close> at the end of the string in an array of \<open>n\<close> characters, with the size that the code passes.\<close>

definition append_printf :: "nat \<Rightarrow> bytes \<Rightarrow> bytes \<Rightarrow> bytes" where
  "append_printf n buf s = buf @ take (n - 1 - length buf - 1) s"

definition sockets_text :: "int \<Rightarrow> int list \<Rightarrow> bytes" where
  "sockets_text count socks =
     (let n = length HETAO_LISTEN_SOCKFDS + 1 + 1 + nat (1 + count) * (10 + 1) + 1 in
      foldl (\<lambda>buf sock. append_printf n buf (print_int sock @ ''|''))
        (append_printf n [] (HETAO_LISTEN_SOCKFDS @ ''='' @ print_int count @ ''|'')) socks)"

definition SaveListenSockets :: "'w start_os \<Rightarrow> main_env \<Rightarrow> 'w \<Rightarrow> int \<times> 'w" where
  "SaveListenSockets os me w =
     (let (ok, w) = so_malloc os w in
      if \<not> ok then (- 1, w)
      else (0, so_putenv os (sockets_text (me_listen_session_count me)
                 (map (\<lambda>l. na_sock (ls_netaddr (listens (me_worker me) l))) (me_listen_session_list me))) w))"

text \<open>\<open>atoi\<close>, as a conversion of the value of \<open>strtol\<close>.\<close>

definition atoi :: "bytes \<Rightarrow> int" where
  "atoi s = c_int (max (- (2 ^ 63)) (min (2 ^ 63 - 1) (signed_digits s)))"

definition load_socket :: "'w start_os \<Rightarrow> bytes \<Rightarrow> 'w \<Rightarrow> net_address option" where
  "load_socket os tok w =
     (let sock = atoi tok in
      map_option (\<lambda>(addr, port). \<lparr>na_ip = printed_address port, na_port = int port, na_sock = sock, na_addr = addr\<rparr>)
        (so_getsockname os sock w))"

fun load_sockets :: "'w start_os \<Rightarrow> nat \<Rightarrow> bytes \<Rightarrow> 'w \<Rightarrow> net_address list option" where
  "load_sockets os 0 s w = Some []"
| "load_sockets os (Suc n) s w =
     (case strtok ''|'' s of
        None \<Rightarrow> None
      | Some (tok, s) \<Rightarrow>
          (case load_socket os tok w of
             None \<Rightarrow> None
           | Some na \<Rightarrow> map_option (\<lambda>nas. na # nas) (load_sockets os n s w)))"

text \<open>The array and its count; \<open>None\<close> for a null pointer.\<close>

definition LoadOldListenSockets :: "'w start_os \<Rightarrow> 'w \<Rightarrow> int \<times> net_address list option \<times> 'w" where
  "LoadOldListenSockets os w =
     (case so_getenv os w HETAO_LISTEN_SOCKFDS of
        None \<Rightarrow> (0, None, w)
      | Some value \<Rightarrow>
          let (ok, w) = so_malloc os w in
          if \<not> ok then (- 1, None, w)
          else case strtok ''|'' value of
                 None \<Rightarrow> (0, None, w)
               | Some (tok, s) \<Rightarrow>
                   if atoi tok \<le> 0 then (0, None, w)
                   else
                     let (ok, w) = so_malloc os w in
                     if \<not> ok then (- 1, None, w)
                     else (case load_sockets os (nat (atoi tok)) s w of
                             None \<Rightarrow> (- 1, None, w)
                           | Some nas \<Rightarrow> (0, Some nas, w)))"

text \<open>The comparison is with the literal \<open>"ip"\<close>.  An entry that is taken is marked by an empty \<open>ip\<close>.\<close>

fun take_listener :: "net_address list \<Rightarrow> bytes \<Rightarrow> int \<Rightarrow> (net_address \<times> net_address list) option" where
  "take_listener [] ip port = None"
| "take_listener (p # ps) ip port =
     (if (ip = [] \<or> na_ip p = ''ip'') \<and> na_port p = port
      then Some (p\<lparr>na_ip := []\<rparr>, p\<lparr>na_ip := []\<rparr> # ps)
      else map_option (\<lambda>(q, ps). (q, p # ps)) (take_listener ps ip port))"

definition GetListener :: "net_address list option \<Rightarrow> bytes \<Rightarrow> int \<Rightarrow> (net_address \<times> net_address list) option" where
  "GetListener old ip port = (case old of None \<Rightarrow> None | Some nas \<Rightarrow> take_listener nas ip port)"

definition CloseUnusedOldListeners :: "'w sys \<Rightarrow> net_address list option \<Rightarrow> 'w \<Rightarrow> 'w" where
  "CloseUnusedOldListeners sys old w =
     (case old of
        None \<Rightarrow> w
      | Some nas \<Rightarrow> foldl (\<lambda>w na. if na_ip na \<noteq> [] then sys_close sys (na_sock na) w else w) w nas)"

section \<open>Steps\<close>

record 'w start =
  s_env :: main_env
  s_old :: "net_address list option"
  s_world :: 'w

definition upd_env :: "(main_env \<Rightarrow> main_env) \<Rightarrow> 'w start \<Rightarrow> 'w start" where
  "upd_env f s = s\<lparr>s_env := f (s_env s)\<rparr>"

definition upd_worker :: "(hetao_env \<Rightarrow> hetao_env) \<Rightarrow> 'w start \<Rightarrow> 'w start" where
  "upd_worker f = upd_env (\<lambda>me. me\<lparr>me_worker := f (me_worker me)\<rparr>)"

abbreviation worker_of :: "'w start \<Rightarrow> hetao_env" where "worker_of s \<equiv> me_worker (s_env s)"

definition upd_listen :: "nat \<Rightarrow> (listen_session \<Rightarrow> listen_session) \<Rightarrow> hetao_env \<Rightarrow> hetao_env" where
  "upd_listen l f env = env\<lparr>listens := (listens env)(l := f (listens env l))\<rparr>"

text \<open>A call of the system that reports failure; then \<open>return -1\<close>.\<close>

definition call_ok :: "('w \<Rightarrow> bool \<times> 'w) \<Rightarrow> 'w start \<Rightarrow> (int \<times> 'w start) option" where
  "call_ok f s = (let (ok, w) = f (s_world s) in Some (if ok then 0 else - 1, s\<lparr>s_world := w\<rparr>))"

text \<open>A loop that stops at the first failure.\<close>

fun start_all :: "('a \<Rightarrow> 'w start \<Rightarrow> (int \<times> 'w start) option) \<Rightarrow> 'a list \<Rightarrow> 'w start \<Rightarrow> (int \<times> 'w start) option" where
  "start_all f [] s = Some (0, s)"
| "start_all f (x # xs) s = then_ok (f x s) (start_all f xs)"

section \<open>Listeners (\<open>ListenSession.c\<close>)\<close>

text \<open>\<open>SETNETADDRESS\<close>.\<close>

definition address_of :: "'w start_os \<Rightarrow> bytes \<Rightarrow> ip" where
  "address_of os i = (if i = [] then 0 else so_inet_addr os i)"

definition new_socket :: "'w start_os \<Rightarrow> nat \<Rightarrow> listen_conf \<Rightarrow> 'w start \<Rightarrow> (int \<times> 'w start) option" where
  "new_socket os l conf s =
     (let (sock, w) = sys_socket (so_sys os) (s_world s);
          i = take 257 (lc_ip conf);
          na = (if sock = - 1 then zero_netaddr\<lparr>na_sock := sock\<rparr>
                else \<lparr>na_ip = i, na_port = lc_port conf, na_sock = sock, na_addr = address_of os i\<rparr>);
          s = upd_worker (upd_listen l (\<lambda>ls. ls\<lparr>ls_netaddr := na\<rparr>)) (s\<lparr>s_world := w\<rparr>) in
      if sock = - 1 then Some (- 1, s)
      else then_ok (call_ok (so_bind os sock na) s) (call_ok (so_listen os sock)))"

definition open_listener :: "'w start_os \<Rightarrow> nat \<Rightarrow> listen_conf \<Rightarrow> 'w start \<Rightarrow> (int \<times> 'w start) option" where
  "open_listener os l conf s =
     then_ok (case GetListener (s_old s) (lc_ip conf) (lc_port conf) of
                Some (na, old) \<Rightarrow> Some (0, upd_worker (upd_listen l (\<lambda>ls. ls\<lparr>ls_netaddr := na\<rparr>)) (s\<lparr>s_old := Some old\<rparr>))
              | None \<Rightarrow> new_socket os l conf s)
       (\<lambda>s. Some (0, upd_env (\<lambda>me. me\<lparr>me_listen_session_count := me_listen_session_count me + 1\<rparr>) s))"

text \<open>The context of OpenSSL with a certificate and, for a listener, its key.  The library is initialised once.\<close>

definition ssl_context :: "'w start_os \<Rightarrow> bytes \<Rightarrow> bytes option \<Rightarrow> (hetao_env \<Rightarrow> hetao_env) \<Rightarrow> 'w start \<Rightarrow> (int \<times> 'w start) option" where
  "ssl_context os cert key set_ctx s =
     (if cert = [] then Some (0, s)
      else
        let s = upd_env (\<lambda>me. me\<lparr>me_init_ssl_env_flag := True\<rparr>) s in
        then_ok (call_ok (so_ssl_ctx_new os) s) (\<lambda>s.
          let s = upd_worker set_ctx s in
          if \<not> so_use_certificate os cert (s_world s) then Some (- 1, s)
          else case key of
                 Some k \<Rightarrow> if \<not> so_use_key os k (s_world s) then Some (- 1, s) else Some (0, s)
               | None \<Rightarrow> Some (0, s)))"

section \<open>Hosts\<close>

definition add_rewrite :: "'w start_os \<Rightarrow> nat \<Rightarrow> rewrite_conf \<Rightarrow> 'w start \<Rightarrow> (int \<times> 'w start) option" where
  "add_rewrite os h conf s =
     (if rc_pattern conf = [] \<or> rc_new_uri conf = [] then Some (- 1, s)
      else then_ok (call_ok (so_malloc os) s) (\<lambda>s.
             if \<not> so_pcre_compile os (rc_pattern conf) then Some (- 1, s)
             else Some (0, upd_worker (upd_host h (\<lambda>v. v\<lparr>rewrite_uri_list := rewrite_uri_list v
                     @ [\<lparr>rw_pattern = rc_pattern conf, rw_new_uri = rc_new_uri conf\<rparr>]\<rparr>)) s)))"

definition compile_template :: "'w start_os \<Rightarrow> rewrite_conf list \<Rightarrow> 'w start \<Rightarrow> (int \<times> 'w start) option" where
  "compile_template os rewrites s =
     (if rewrites \<noteq> [] \<and> \<not> new_uri_re (worker_of s) then
        if \<not> so_pcre_compile os TEMPLATE_PATTERN then Some (- 1, s)
        else Some (0, upd_worker (\<lambda>env. env\<lparr>new_uri_re := True\<rparr>) s)
      else Some (0, s))"

definition push_redirect :: "nat \<Rightarrow> redirect_domain \<Rightarrow> 'w start \<Rightarrow> (int \<times> 'w start) option" where
  "push_redirect h r s =
     (case PushRedirectDomainHashNode (redirects (hosts (worker_of s) h)) r of
        None \<Rightarrow> None
      | Some (nret, t) \<Rightarrow>
          let s = upd_worker (upd_host h (\<lambda>v. v\<lparr>redirects := t\<rparr>)) s in
          if nret \<noteq> 0 then Some (- 1, s)
          else Some (0, upd_worker (upd_host h (\<lambda>v.
                 if rd_domain r = [] \<and> p_redirect_domain_default v = None
                 then v\<lparr>p_redirect_domain_default := Some r\<rparr> else v)) s))"

definition add_redirect :: "'w start_os \<Rightarrow> nat \<Rightarrow> redirect_conf \<Rightarrow> 'w start \<Rightarrow> (int \<times> 'w start) option" where
  "add_redirect os h conf s =
     (if dc_new_domain conf = [] then Some (- 1, s)
      else then_ok (call_ok (so_malloc os) s)
             (push_redirect h \<lparr>rd_domain = dc_domain conf, rd_new_domain = dc_new_domain conf\<rparr>))"

definition init_redirects :: "'w start_os \<Rightarrow> nat \<Rightarrow> redirect_conf list \<Rightarrow> 'w start \<Rightarrow> (int \<times> 'w start) option" where
  "init_redirects os h confs s =
     (let (ok, w) = so_malloc os (s_world s); s = s\<lparr>s_world := w\<rparr> in
      case InitRedirectDomainHash ok (redirects (hosts (worker_of s) h)) (int (length confs)) of
        None \<Rightarrow> None
      | Some (nret, t) \<Rightarrow>
          let s = upd_worker (upd_host h (\<lambda>v. v\<lparr>redirects := t\<rparr>)) s in
          if nret \<noteq> 0 then Some (- 1, s) else start_all (add_redirect os h) confs s)"

definition new_server :: "'w start_os \<Rightarrow> forward_server_conf \<Rightarrow> forward_server" where
  "new_server os conf = \<lparr>timestamp_to_valid = 0,
     fs_netaddr = \<lparr>na_ip = take 257 (sc_ip conf), na_port = sc_port conf, na_sock = 0, na_addr = address_of os (take 257 (sc_ip conf))\<rparr>,
     connection_count = 0\<rparr>"

definition link_server :: "nat \<Rightarrow> forward_server \<Rightarrow> 'w start \<Rightarrow> (int \<times> 'w start) option" where
  "link_server h fs s =
     (let f = me_next_server (s_env s);
          s = upd_env (\<lambda>me. me\<lparr>me_next_server := f + 1\<rparr>) s;
          s = upd_worker (\<lambda>env. env\<lparr>servers := (servers env)(f := fs)\<rparr>) s;
          s = upd_worker (upd_host h (\<lambda>v. v\<lparr>roundrobin_list := roundrobin_list v @ [f]\<rparr>)) s in
      map_option (\<lambda>(nret, env). (0, upd_worker (\<lambda>_. env) s)) (AddLeastConnectionCountTreeNode (worker_of s) h f))"

definition add_server :: "'w start_os \<Rightarrow> nat \<Rightarrow> forward_server_conf \<Rightarrow> 'w start \<Rightarrow> (int \<times> 'w start) option" where
  "add_server os h conf s = then_ok (call_ok (so_malloc os) s) (link_server h (new_server os conf))"

text \<open>The forward servers of a host; the settings are copied whether there are any or not.\<close>

definition init_forward :: "'w start_os \<Rightarrow> nat \<Rightarrow> forward_conf \<Rightarrow> 'w start \<Rightarrow> (int \<times> 'w start) option" where
  "init_forward os h conf s =
     (let s = upd_worker (upd_host h (\<lambda>v. v\<lparr>forward_type := take 16 (fc_type conf), forward_rule := take 1 (fc_rule conf)\<rparr>)) s in
      then_ok (ssl_context os (fc_certificate_file conf) None (upd_host h (\<lambda>v. v\<lparr>forward_ssl_ctx := True\<rparr>)) s) (\<lambda>s.
        let s = upd_worker (upd_host h (\<lambda>v. v\<lparr>roundrobin_list := []\<rparr>)) s in
        if take 1 (fc_rule conf) \<noteq> [] \<and> fc_servers conf \<noteq> [] then start_all (add_server os h) (fc_servers conf) s
        else Some (0, s)))"

definition open_access_log :: "'w start_os \<Rightarrow> nat \<Rightarrow> website_conf \<Rightarrow> 'w start \<Rightarrow> (int \<times> 'w start) option" where
  "open_access_log os h conf s =
     (let log = take 256 (wc_access_log conf) in
      if log = [] then Some (0, upd_worker (upd_host h (\<lambda>v. v\<lparr>access_log_fd := - 1\<rparr>)) s)
      else
        let (fd, w) = so_open_log os log (s_world s);
            s = upd_worker (upd_host h (\<lambda>v. v\<lparr>access_log_fd := fd\<rparr>)) (s\<lparr>s_world := w\<rparr>) in
        Some (if fd = - 1 then - 1 else 0, s))"

text \<open>The host enters the table of its listener; the first one without a domain is the default.\<close>

definition register_host :: "nat \<Rightarrow> nat \<Rightarrow> 'w start \<Rightarrow> (int \<times> 'w start) option" where
  "register_host l h s =
     (case PushVirtualHostHashNode (hosts (worker_of s)) (listens (worker_of s) l) h of
        None \<Rightarrow> None
      | Some (nret, ls) \<Rightarrow>
          let s = upd_worker (upd_listen l (\<lambda>_. ls)) s in
          if nret \<noteq> 0 then Some (- 1, s)
          else Some (0, upd_worker (upd_listen l (\<lambda>ls.
                 if domain (hosts (worker_of s) h) = [] \<and> p_virtual_host_default ls = None
                 then ls\<lparr>p_virtual_host_default := Some h\<rparr> else ls)) s))"

definition add_website :: "'w start_os \<Rightarrow> nat \<Rightarrow> website_conf \<Rightarrow> 'w start \<Rightarrow> (int \<times> 'w start) option" where
  "add_website os l conf s =
     (if wc_wwwroot conf = [] then Some (0, s)
      else then_ok (call_ok (so_malloc os) s) (\<lambda>s.
        let h = me_next_host (s_env s);
            s = upd_env (\<lambda>me. me\<lparr>me_next_host := h + 1\<rparr>) s;
            s = upd_worker (upd_host h (\<lambda>_. zero_host\<lparr>domain := take 256 (wc_domain conf), wwwroot := take 1024 (wc_wwwroot conf),
                  index_files := take 1024 (wc_index conf), access_log := take 256 (wc_access_log conf)\<rparr>)) s in
        then_ok (open_access_log os h conf s) (\<lambda>s.
        then_ok (compile_template os (wc_rewrites conf) s) (\<lambda>s.
        then_ok (start_all (add_rewrite os h) (wc_rewrites conf) s) (\<lambda>s.
        then_ok (init_redirects os h (wc_redirects conf) s) (\<lambda>s.
        then_ok (init_forward os h (wc_forward conf) s) (register_host l h)))))))"

definition init_hosts :: "'w start_os \<Rightarrow> nat \<Rightarrow> website_conf list \<Rightarrow> 'w start \<Rightarrow> (int \<times> 'w start) option" where
  "init_hosts os l confs s =
     (let (ok, w) = so_malloc os (s_world s); s = s\<lparr>s_world := w\<rparr> in
      case InitVirtualHostHash ok (listens (worker_of s) l) (int (length confs)) of
        None \<Rightarrow> None
      | Some (nret, ls) \<Rightarrow>
          let s = upd_worker (upd_listen l (\<lambda>_. ls)) s in
          if nret \<noteq> 0 then Some (- 1, s) else start_all (add_website os l) confs s)"

definition add_listener :: "'w start_os \<Rightarrow> listen_conf \<Rightarrow> 'w start \<Rightarrow> (int \<times> 'w start) option" where
  "add_listener os conf s =
     then_ok (call_ok (so_malloc os) s) (\<lambda>s.
       let l = me_next_listen (s_env s);
           s = upd_env (\<lambda>me. me\<lparr>me_next_listen := l + 1, me_listen_session_list := l # me_listen_session_list me\<rparr>) s;
           s = upd_worker (upd_listen l (\<lambda>_. zero_listen)) s in
       then_ok (open_listener os l conf s) (\<lambda>s.
       then_ok (ssl_context os (lc_certificate_file conf) (Some (lc_certificate_key_file conf))
                  (upd_listen l (\<lambda>ls. ls\<lparr>ls_ssl_ctx := True\<rparr>)) s) (init_hosts os l (lc_websites conf))))"

definition InitListenEnvirment :: "'w start_os \<Rightarrow> hetao_conf \<Rightarrow> 'w start \<Rightarrow> (int \<times> 'w start) option" where
  "InitListenEnvirment os conf s = start_all (add_listener os) (cf_listens conf) s"

section \<open>The environment (\<open>Envirment.c\<close>)\<close>

abbreviation INIT_HTTP_SESSION_COUNT :: int where "INIT_HTTP_SESSION_COUNT \<equiv> 100"

text \<open>A failure becomes \<open>return -1\<close>.\<close>

definition or_fail :: "(int \<times> 'b) option \<Rightarrow> (int \<times> 'b) option" where
  "or_fail r = map_option (\<lambda>(nret, b). (if nret \<noteq> 0 then - 1 else 0, b)) r"

definition init_mime :: "'w start_os \<Rightarrow> hetao_conf \<Rightarrow> 'w start \<Rightarrow> (int \<times> 'w start) option" where
  "init_mime os conf s =
     (let (ok, w) = so_malloc os (s_world s); s = s\<lparr>s_world := w\<rparr> in
      map_option (\<lambda>(nret, hash). (nret, upd_worker (\<lambda>env. env\<lparr>mime_type_hash := hash\<rparr>) s)) (InitMimeTypeHash ok (cf_mime_types conf)))"

definition load_old :: "'w start_os \<Rightarrow> 'w start \<Rightarrow> (int \<times> 'w start) option" where
  "load_old os s = (let (nret, old, w) = LoadOldListenSockets os (s_world s) in Some (nret, s\<lparr>s_old := old, s_world := w\<rparr>))"

text \<open>\<open>mem\<close> and \<open>alloc\<close>: the allocations of the pool of sessions.\<close>

definition init_sessions :: "(nat \<Rightarrow> bool) \<Rightarrow> allocator \<Rightarrow> 'w start \<Rightarrow> (int \<times> 'w start) option" where
  "init_sessions mem alloc s =
     (let (nret, env) = IncreaseHttpSessions mem alloc
            ((worker_of s)\<lparr>htmlcache_session_list := [], htmlcache_session_count := 0,
                           http_session_unused_list := [], http_session_unused_count := 0\<rparr>) INIT_HTTP_SESSION_COUNT in
      Some (nret, upd_worker (\<lambda>_. env) s))"

definition init_iplimits :: "'w start_os \<Rightarrow> 'w start \<Rightarrow> (int \<times> 'w start) option" where
  "init_iplimits os s =
     (let (ok, w) = so_malloc os (s_world s); (nret, t) = InitIpLimitsHash ok (iplimits_hash (worker_of s)) in
      Some (nret, upd_worker (\<lambda>env. env\<lparr>iplimits_hash := t\<rparr>) (s\<lparr>s_world := w\<rparr>)))"

definition create_epoll :: "'w start_os \<Rightarrow> nat \<Rightarrow> 'w start \<Rightarrow> (int \<times> 'w start) option" where
  "create_epoll os i s =
     (let (fd, w) = so_epoll_create os (s_world s);
          s = upd_env (\<lambda>me. me\<lparr>me_epoll_fds := (me_epoll_fds me)[i := fd]\<rparr>) (s\<lparr>s_world := w\<rparr>) in
      Some (if fd = - 1 then - 1 else 0, s))"

definition shared_memory :: "'w start_os \<Rightarrow> hetao_conf \<Rightarrow> 'w start \<Rightarrow> (int \<times> 'w start) option" where
  "shared_memory os conf s =
     then_ok (call_ok (so_shmget os (cf_worker_processes conf)) s) (\<lambda>s.
       let (ok, w) = so_shmat os (s_world s) in
       if \<not> ok then Some (- 2, s\<lparr>s_world := w\<rparr>)
       else Some (0, upd_env (\<lambda>me. me\<lparr>me_epoll_fds := replicate (nat (cf_worker_processes conf)) 0\<rparr>) (s\<lparr>s_world := w\<rparr>)))"

definition InitEnvirment ::
    "'w start_os \<Rightarrow> (nat \<Rightarrow> bool) \<Rightarrow> allocator \<Rightarrow> hetao_conf \<Rightarrow> main_env \<Rightarrow> 'w \<Rightarrow> (int \<times> 'w start) option" where
  "InitEnvirment os mem alloc conf me w =
     then_ok (shared_memory os conf \<lparr>s_env = me, s_old = None, s_world = w\<rparr>) (\<lambda>s.
     then_ok (or_fail (init_mime os conf s)) (\<lambda>s.
     let s = upd_env (\<lambda>me. me\<lparr>me_listen_session_list := [], me_listen_session_count := 0\<rparr>) s in
     then_ok (or_fail (load_old os s)) (\<lambda>s.
     then_ok (or_fail (InitListenEnvirment os conf s)) (\<lambda>s.
     let s = s\<lparr>s_world := CloseUnusedOldListeners (so_sys os) (s_old s) (s_world s)\<rparr> in
     then_ok (init_sessions mem alloc s) (\<lambda>s.
     then_ok (or_fail (init_iplimits os s)) (\<lambda>s.
     start_all (create_epoll os) [0..<nat (me_worker_processes (s_env s))] s))))))"

text \<open>Releasing it: the sockets and the sessions in use are left to the end of the process.\<close>

definition CleanEnvirment :: "'w start_os \<Rightarrow> main_env \<Rightarrow> 'w \<Rightarrow> main_env \<times> 'w" where
  "CleanEnvirment os me w =
     (let w = foldl (\<lambda>w fd. sys_close (so_sys os) fd w) w (take (nat (me_worker_processes me)) (me_epoll_fds me));
          w = sys_close (so_sys os) (me_inotify_fd me) w;
          w = so_shm_remove os w;
          env = me_worker me in
      (me\<lparr>me_listen_session_list := [],
          me_worker := env\<lparr>listens := (\<lambda>l. if l \<in> set (me_listen_session_list me)
                                            then snd (CleanVirtualHostHash (hosts env) (listens env l)) else listens env l),
                           http_session_unused_list := [],
                           mime_type_hash := snd (CleanMimeTypeHash (mime_type_hash env)),
                           iplimits_hash := snd (CleanIpLimitsHash (iplimits_hash env))\<rparr>\<rparr>, w))"

end
