(* ===== verification/HetaoHandover.thy ===== *)
theory HetaoHandover
  imports HetaoListen
begin

text \<open>
  Theorems on the handover of the listening sockets to the next process: the text fits into its array, what is read
  back is what was written, sockets are taken over by port, and never for a listener with a configured address.
\<close>

section \<open>Printing\<close>

lemma length_decimal: "n < 10 ^ k \<Longrightarrow> 0 < k \<Longrightarrow> length (decimal n) \<le> k"
proof (induction k arbitrary: n)
  case (Suc k)
  show ?case
  proof (cases "n < 10")
    case False
    then have "0 < k" using Suc.prems(1) by (cases k) auto
    moreover have "n div 10 < 10 ^ k" using Suc.prems(1) by (simp add: less_mult_imp_div_less mult.commute)
    ultimately have "length (decimal (n div 10)) \<le> k" using Suc.IH by blast
    then show ?thesis using False by (subst decimal.simps) simp
  qed (subst decimal.simps, simp)
qed simp

definition is_socket :: "int \<Rightarrow> bool" where
  "is_socket n \<longleftrightarrow> 0 \<le> n \<and> n < 2 ^ 31"

lemma print_socket:
  assumes "is_socket n"
  shows "print_int n = decimal (nat n)" "length (print_int n) \<le> 10" "CHR ''|'' \<notin> set (print_int n)" "atoi (print_int n) = n"
proof -
  show 1: "print_int n = decimal (nat n)" using assms by (simp add: print_int_def is_socket_def)
  have "nat n < 10 ^ 10" using assms by (simp add: is_socket_def nat_less_iff)
  then show "length (print_int n) \<le> 10" unfolding 1 by (rule length_decimal) simp
  have "\<not> is_digit (CHR ''|'')" by (simp add: is_digit_def char_int_def)
  then show "CHR ''|'' \<notin> set (print_int n)" unfolding 1 using decimal_digits by blast
  have "foldl (\<lambda>v c. v * 10 + (char_int c - 48)) 0 (takeWhile is_digit (decimal (nat n))) = n"
    using decimal_digits [of "nat n"] decimal_value [of "nat n"] assms by (simp add: takeWhile_eq_all_conv [THEN iffD2] is_socket_def)
  then have d: "digits_value (decimal (nat n)) = n" by (simp add: digits_value_def)
  obtain c ds where c: "decimal (nat n) = c # ds" using decimal_not_Nil by (cases "decimal (nat n)") auto
  then have "is_digit c" using decimal_digits [of "nat n"] by simp
  then have "\<not> is_space c" "c \<noteq> CHR ''-''" "c \<noteq> CHR ''+''" using digit_plain by blast+
  then have "signed_digits (decimal (nat n)) = n" using d c by (simp add: signed_digits_def)
  then show "atoi (print_int n) = n" using assms by (simp add: 1 atoi_def is_socket_def)
qed

text \<open>The array has room for ten digits and a separator for every socket and for their number.\<close>

lemma append_fits: "length buf + length s + 2 \<le> n \<Longrightarrow> append_printf n buf s = buf @ s"
  by (simp add: append_printf_def)

lemma sockets_fit:
  assumes "\<forall>s \<in> set socks. is_socket s" "length buf + 11 * length socks + 2 \<le> n"
  shows "foldl (\<lambda>buf sock. append_printf n buf (print_int sock @ ''|'')) buf socks
     = buf @ concat (map (\<lambda>s. print_int s @ ''|'') socks)"
  using assms
proof (induction socks arbitrary: buf)
  case (Cons s socks)
  have "length (print_int s) \<le> 10" using print_socket(2) Cons.prems(1) by simp
  then have "append_printf n buf (print_int s @ ''|'') = buf @ print_int s @ ''|''"
    "length (buf @ print_int s @ ''|'') + 11 * length socks + 2 \<le> n"
    using Cons.prems(2) append_fits [of buf "print_int s @ ''|''" n] by simp_all
  then show ?case using Cons.IH Cons.prems(1) by simp
qed simp

lemma sockets_text_fits:
  assumes "\<forall>s \<in> set socks. is_socket s" "is_socket (int (length socks))"
  shows "sockets_text (int (length socks)) socks
     = HETAO_LISTEN_SOCKFDS @ ''='' @ print_int (int (length socks)) @ ''|'' @ concat (map (\<lambda>s. print_int s @ ''|'') socks)"
proof -
  let ?n = "length HETAO_LISTEN_SOCKFDS + 1 + 1 + nat (1 + int (length socks)) * (10 + 1) + 1"
    and ?head = "HETAO_LISTEN_SOCKFDS @ ''='' @ print_int (int (length socks)) @ ''|''"
  have n: "?n = length HETAO_LISTEN_SOCKFDS + 14 + 11 * length socks" by (simp add: nat_add_distrib)
  have l: "length ?head \<le> length HETAO_LISTEN_SOCKFDS + 12" using print_socket(2) [OF assms(2)] by simp
  have "append_printf ?n [] ?head = ?head" using append_fits [of "[]" ?head ?n] l n by simp
  moreover have "length ?head + 11 * length socks + 2 \<le> ?n" using l n by simp
  ultimately show ?thesis using sockets_fit [OF assms(1), of ?head ?n] by (simp add: sockets_text_def Let_def)
qed

section \<open>Reading back\<close>

lemma strtok_first:
  assumes "s \<noteq> []" "CHR ''|'' \<notin> set s" shows "strtok ''|'' (s @ ''|'' @ r) = Some (s, r)"
proof -
  obtain c cs where s: "s = c # cs" "c \<noteq> CHR ''|''" using assms by (cases s) auto
  have 1: "dropWhile (\<lambda>d. d \<in> set ''|'') (s @ ''|'' @ r) = s @ ''|'' @ r" by (simp add: s)
  have 2: "takeWhile (\<lambda>d. d \<notin> set ''|'') (s @ ''|'' @ r) = s" "dropWhile (\<lambda>d. d \<notin> set ''|'') (s @ ''|'' @ r) = ''|'' @ r"
    using assms(2) by (subst takeWhile_append2 dropWhile_append2, auto)+
  show ?thesis unfolding strtok_def 1 Let_def 2 using assms(1) by simp
qed

lemma print_int_not_Nil: "is_socket n \<Longrightarrow> print_int n \<noteq> []"
  using print_socket(1) by simp

text \<open>What the next process finds out about the socket \<open>s\<close>, bound to the address and port of \<open>name s\<close>.\<close>

definition taken_over :: "(int \<Rightarrow> ip \<times> nat) \<Rightarrow> int \<Rightarrow> net_address" where
  "taken_over name s = \<lparr>na_ip = printed_address (snd (name s)), na_port = int (snd (name s)), na_sock = s, na_addr = fst (name s)\<rparr>"

lemma load_sockets_printed:
  assumes "\<forall>s \<in> set socks. is_socket s \<and> so_getsockname os s w = Some (name s)"
  shows "load_sockets os (length socks) (concat (map (\<lambda>s. print_int s @ ''|'') socks)) w = Some (map (taken_over name) socks)"
  using assms
proof (induction socks)
  case (Cons s socks)
  have s: "is_socket s" "so_getsockname os s w = Some (name s)" using Cons.prems by simp_all
  have "strtok ''|'' (print_int s @ ''|'' @ concat (map (\<lambda>s. print_int s @ ''|'') socks))
      = Some (print_int s, concat (map (\<lambda>s. print_int s @ ''|'') socks))"
    using strtok_first print_int_not_Nil [OF s(1)] print_socket(3) [OF s(1)] by blast
  moreover have "load_socket os (print_int s) w = Some (taken_over name s)"
    using s(2) print_socket(4) [OF s(1)] by (simp add: load_socket_def taken_over_def split_beta)
  ultimately show ?case using Cons by simp
qed simp

lemma handed_over:
  assumes "socks \<noteq> []" "is_socket (int (length socks))"
    and "\<forall>s \<in> set socks. is_socket s \<and> so_getsockname os s w = Some (name s)"
    and "so_malloc os = (\<lambda>w. (True, w))"
  shows "\<exists>value. sockets_text (int (length socks)) socks = HETAO_LISTEN_SOCKFDS @ ''='' @ value
     \<and> (so_getenv os w HETAO_LISTEN_SOCKFDS = Some value
          \<longrightarrow> LoadOldListenSockets os w = (0, Some (map (taken_over name) socks), w))"
proof -
  let ?rest = "concat (map (\<lambda>s. print_int s @ ''|'') socks)" and ?n = "int (length socks)"
  let ?val = "print_int ?n @ ''|'' @ ?rest"
  have t: "strtok ''|'' ?val = Some (print_int ?n, ?rest)"
    using strtok_first print_int_not_Nil [OF assms(2)] print_socket(3) [OF assms(2)] by blast
  have "0 < ?n" using assms(1) by simp
  then have "so_getenv os w HETAO_LISTEN_SOCKFDS = Some ?val
      \<longrightarrow> LoadOldListenSockets os w = (0, Some (map (taken_over name) socks), w)"
    using t print_socket(4) [OF assms(2)] load_sockets_printed [OF assms(3)] assms(4)
    by (simp add: LoadOldListenSockets_def Let_def)
  moreover have "sockets_text ?n socks = HETAO_LISTEN_SOCKFDS @ ''='' @ ?val"
    using assms(2,3) by (intro sockets_text_fits) auto
  ultimately show ?thesis by blast
qed

section \<open>Taking a socket over\<close>

lemma loaded_addresses:
  assumes "load_sockets os n s w = Some nas" "na \<in> set nas" shows "\<exists>port. na_ip na = printed_address port"
  using assms
proof (induction n arbitrary: s nas)
  case (Suc n)
  then obtain tok r na1 nas1 where 1: "load_socket os tok w = Some na1" "load_sockets os n r w = Some nas1" "nas = na1 # nas1"
    by (auto split: option.splits)
  from 1(1) obtain port where "na_ip na1 = printed_address port" by (auto simp: load_socket_def Let_def)
  then show ?case using Suc.IH [OF 1(2)] Suc.prems(2) 1(3) by auto
qed simp

lemma take_listener_none:
  "ip \<noteq> [] \<Longrightarrow> \<forall>na \<in> set nas. na_ip na \<noteq> ''ip'' \<Longrightarrow> take_listener nas ip port = None"
  by (induction nas) auto

text \<open>A listener with an address of its own never gets its socket back.\<close>

lemma address_not_taken_over:
  assumes "LoadOldListenSockets os w = (0, old, w')" "ip \<noteq> []"
  shows "GetListener old ip port = None"
proof (cases old)
  case (Some nas)
  obtain n s w1 where "load_sockets os n s w1 = Some nas"
    using assms(1) Some by (auto simp: LoadOldListenSockets_def Let_def split: option.splits prod.splits if_splits)
  then have "\<forall>na \<in> set nas. na_ip na \<noteq> ''ip''"
    using loaded_addresses by (fastforce simp: printed_address_def)
  then show ?thesis using take_listener_none [OF assms(2)] Some by (simp add: GetListener_def)
qed (simp add: GetListener_def)

text \<open>One without gets the first socket with its port, and keeps the others.\<close>

lemma port_taken_over:
  assumes "\<forall>na \<in> set xs. na_port na \<noteq> port" "na_port na = port"
  shows "GetListener (Some (xs @ na # ys)) [] port = Some (na\<lparr>na_ip := []\<rparr>, xs @ na\<lparr>na_ip := []\<rparr> # ys)"
proof -
  have "take_listener (xs @ na # ys) [] port = Some (na\<lparr>na_ip := []\<rparr>, xs @ na\<lparr>na_ip := []\<rparr> # ys)"
    using assms(1) by (induction xs) (simp_all add: assms(2))
  then show ?thesis by (simp add: GetListener_def)
qed

end
