(* ===== verification/HetaoStart.thy ===== *)
theory HetaoStart
  imports HetaoHandover HetaoLoop
begin

text \<open>
  Theorems on the start of the server: what the steps of \<open>InitListenEnvirment\<close> leave alone, what a host looks like
  when its website has been set up, and that a listener finds the hosts of its websites.
\<close>

section \<open>Steps and what they keep\<close>

lemma then_ok_Some:
  "then_ok r k = Some (n, u) \<longleftrightarrow> (\<exists>m t. r = Some (m, t) \<and> (if m \<noteq> 0 then n = m \<and> u = t else k t = Some (n, u)))"
  by (auto simp: then_ok_def split: option.splits if_splits)

lemma then_ok_0: "then_ok r k = Some (0, u) \<longleftrightarrow> (\<exists>t. r = Some (0, t) \<and> k t = Some (0, u))"
  by (auto simp: then_ok_Some)

lemma call_ok_state: "call_ok f s = Some (n, t) \<Longrightarrow> \<exists>w. t = s\<lparr>s_world := w\<rparr>"
  by (auto simp: call_ok_def split: prod.splits)

lemma upd_env_simps [simp]:
  "s_env (upd_env f s) = f (s_env s)" "s_old (upd_env f s) = s_old s" "s_world (upd_env f s) = s_world s"
  by (simp_all add: upd_env_def)

lemma upd_worker_simps [simp]:
  "s_env (upd_worker g s) = (s_env s)\<lparr>me_worker := g (worker_of s)\<rparr>" "s_old (upd_worker g s) = s_old s"
  "s_world (upd_worker g s) = s_world s"
  by (simp_all add: upd_worker_def)

lemma upd_listen_simps [simp]:
  "listens (upd_listen l g env) = (listens env)(l := g (listens env l))" "hosts (upd_listen l g env) = hosts env"
  "servers (upd_listen l g env) = servers env"
  by (simp_all add: upd_listen_def)

lemma upd_host_simps [simp]:
  "listens (upd_host h g env) = listens env" "hosts (upd_host h g env) = (hosts env)(h := g (hosts env h))"
  "servers (upd_host h g env) = servers env"
  by (simp_all add: upd_host_def)

text \<open>A relation between the states before and after, that chains of steps inherit from their steps.\<close>

locale stepwise =
  fixes R :: "'w start \<Rightarrow> 'w start \<Rightarrow> bool"
  assumes refl: "R s s" and trans: "R s t \<Longrightarrow> R t u \<Longrightarrow> R s u"
begin

lemma then_step:
  assumes "then_ok r k = Some (n, u)" "\<And>m t. r = Some (m, t) \<Longrightarrow> R s t" "\<And>m t u. k t = Some (m, u) \<Longrightarrow> R t u"
  shows "R s u"
proof -
  obtain m t where t: "r = Some (m, t)" "if m \<noteq> 0 then n = m \<and> u = t else k t = Some (n, u)"
    using assms(1) unfolding then_ok_Some by blast
  show ?thesis
  proof (cases "m = 0")
    case True
    then show ?thesis using trans [OF assms(2) [OF t(1)]] assms(3) t(2) by simp
  qed (use t assms(2) in simp)
qed

lemma all_steps:
  assumes "start_all f xs s = Some (n, t)" "\<And>x s m t. f x s = Some (m, t) \<Longrightarrow> R s t"
  shows "R s t"
  using assms(1)
proof (induction xs arbitrary: s n t)
  case (Cons x xs)
  then have "then_ok (f x s) (start_all f xs) = Some (n, t)" by simp
  then show ?case using assms(2) Cons.IH by (rule then_step)
qed (simp add: refl)

end

text \<open>The parts of the environment that have no listeners, hosts and servers in them; no server has a connection.\<close>

definition beside_sites :: "hetao_env \<Rightarrow> hetao_env" where
  "beside_sites env = env\<lparr>listens := (\<lambda>_. zero_listen), hosts := (\<lambda>_. zero_host), servers := (\<lambda>_. zero_server), new_uri_re := False\<rparr>"

definition all_idle :: "hetao_env \<Rightarrow> bool" where
  "all_idle env \<longleftrightarrow> (\<forall>f. conns env f = 0)"

definition rest_kept :: "'w start \<Rightarrow> 'w start \<Rightarrow> bool" where
  "rest_kept s t \<longleftrightarrow> beside_sites (worker_of t) = beside_sites (worker_of s) \<and> (all_idle (worker_of s) \<longrightarrow> all_idle (worker_of t))"

interpretation rest_kept: stepwise rest_kept
  by unfold_locales (auto simp: rest_kept_def)

text \<open>What exists already is not changed, apart from the listeners \<open>L\<close> and the hosts \<open>H\<close>.\<close>

definition older_kept :: "nat set \<Rightarrow> nat set \<Rightarrow> 'w start \<Rightarrow> 'w start \<Rightarrow> bool" where
  "older_kept L H s t \<longleftrightarrow>
     me_next_listen (s_env s) \<le> me_next_listen (s_env t) \<and> me_next_host (s_env s) \<le> me_next_host (s_env t)
   \<and> me_next_server (s_env s) \<le> me_next_server (s_env t)
   \<and> (\<forall>l < me_next_listen (s_env s). l \<notin> L \<longrightarrow> listens (worker_of t) l = listens (worker_of s) l)
   \<and> (\<forall>h < me_next_host (s_env s). h \<notin> H \<longrightarrow> hosts (worker_of t) h = hosts (worker_of s) h)
   \<and> (\<forall>f < me_next_server (s_env s). servers (worker_of t) f = servers (worker_of s) f)"

interpretation older_kept: stepwise "older_kept L H" for L H
  by unfold_locales (auto simp: older_kept_def)

lemma older_kept_more: "older_kept L H s t \<Longrightarrow> L \<subseteq> L' \<Longrightarrow> H \<subseteq> H' \<Longrightarrow> older_kept L' H' s t"
  unfolding older_kept_def by blast


section \<open>The steps of the listeners\<close>

text \<open>What a step of the host \<open>h\<close>, of the listener \<open>l\<close>, keeps.\<close>

definition host_step :: "nat \<Rightarrow> 'w start \<Rightarrow> 'w start \<Rightarrow> bool" where
  "host_step h s t \<longleftrightarrow> rest_kept s t \<and> older_kept {} {h} s t \<and> listens (worker_of t) = listens (worker_of s)
     \<and> me_next_host (s_env t) = me_next_host (s_env s) \<and> me_next_listen (s_env t) = me_next_listen (s_env s)
     \<and> me_listen_session_list (s_env t) = me_listen_session_list (s_env s)
     \<and> me_listen_session_count (s_env t) = me_listen_session_count (s_env s)"

interpretation host_step: stepwise "host_step h" for h
  by unfold_locales (auto simp: host_step_def intro: rest_kept.refl rest_kept.trans older_kept.refl older_kept.trans)

lemma host_step_same [intro]: "s_env t = s_env s \<Longrightarrow> host_step h s t"
  by (simp add: host_step_def rest_kept_def older_kept_def)

lemma host_step_upd [intro]: "host_step h s (upd_worker (upd_host h g) s)"
  by (auto simp: host_step_def rest_kept_def older_kept_def beside_sites_def all_idle_def upd_host_def)

lemma host_step_call: "call_ok f s = Some (n, t) \<Longrightarrow> host_step h s t"
  by (auto dest!: call_ok_state)

lemma host_step_upd_trans: "host_step h (upd_worker (upd_host h g) s) t \<Longrightarrow> host_step h s t"
  using host_step.trans [OF host_step_upd] .

lemma host_step_then:
  assumes "then_ok (call_ok f s) k = Some (n, t)" "\<And>u m t. k u = Some (m, t) \<Longrightarrow> host_step h u t" shows "host_step h s t"
  using assms(1) host_step_call assms(2) by (rule host_step.then_step)

lemma ssl_context_step:
  assumes "ssl_context os cert key (upd_host h g) s = Some (n, t)" shows "host_step h s t"
proof (cases "cert = []")
  case False
  let ?s = "upd_env (\<lambda>me. me\<lparr>me_init_ssl_env_flag := True\<rparr>) s"
  have flag: "host_step h s ?s" by (simp add: host_step_def rest_kept_def older_kept_def)
  have "host_step h ?s t"
  proof (rule host_step_then)
    show "then_ok (call_ok (so_ssl_ctx_new os) ?s) (\<lambda>s. let s = upd_worker (upd_host h g) s in
        if \<not> so_use_certificate os cert (s_world s) then Some (- 1, s)
        else case key of Some k \<Rightarrow> if \<not> so_use_key os k (s_world s) then Some (- 1, s) else Some (0, s) | None \<Rightarrow> Some (0, s))
      = Some (n, t)" using assms False by (simp add: ssl_context_def Let_def)
    fix u m t
    assume "(let s = upd_worker (upd_host h g) u in
        if \<not> so_use_certificate os cert (s_world s) then Some (- 1, s)
        else case key of Some k \<Rightarrow> if \<not> so_use_key os k (s_world s) then Some (- 1, s) else Some (0, s) | None \<Rightarrow> Some (0, s))
      = Some (m, t)"
    then have "t = upd_worker (upd_host h g) u" by (auto simp: Let_def split: if_splits option.splits)
    then show "host_step h u t" using host_step_upd by simp
  qed
  then show ?thesis by (rule host_step.trans [OF flag])
qed (use assms in \<open>simp add: ssl_context_def host_step.refl\<close>)

lemma add_rewrite_step: "add_rewrite os h conf s = Some (n, t) \<Longrightarrow> host_step h s t"
  unfolding add_rewrite_def
  by (auto simp: then_ok_Some split: if_splits intro: host_step.refl dest!: call_ok_state intro: host_step.trans [OF host_step_same host_step_upd])

lemma compile_template_step: "compile_template os confs s = Some (n, t) \<Longrightarrow> host_step h s t"
  by (auto simp: compile_template_def host_step_def rest_kept_def older_kept_def beside_sites_def all_idle_def split: if_splits)

lemma push_redirect_cases:
  assumes "push_redirect h r s = Some (n, t)"
  obtains nret tab where "PushRedirectDomainHashNode (redirects (hosts (worker_of s) h)) r = Some (nret, tab)"
    "n = (if nret \<noteq> 0 then - 1 else 0)"
    "t = (if nret \<noteq> 0 then upd_worker (upd_host h (\<lambda>v. v\<lparr>redirects := tab\<rparr>)) s
          else upd_worker (upd_host h (\<lambda>v. if rd_domain r = [] \<and> p_redirect_domain_default v = None
                 then v\<lparr>p_redirect_domain_default := Some r\<rparr> else v)) (upd_worker (upd_host h (\<lambda>v. v\<lparr>redirects := tab\<rparr>)) s))"
proof -
  obtain nret tab where p: "PushRedirectDomainHashNode (redirects (hosts (worker_of s) h)) r = Some (nret, tab)"
    using assms by (cases "PushRedirectDomainHashNode (redirects (hosts (worker_of s) h)) r") (auto simp: push_redirect_def)
  show thesis by (rule that [OF p]) (use assms p in \<open>auto simp: push_redirect_def\<close>)
qed

lemma push_redirect_step: "push_redirect h r s = Some (n, t) \<Longrightarrow> host_step h s t"
  by (erule push_redirect_cases, erule ssubst, split if_split)
    (intro conjI impI host_step_upd host_step.trans [OF host_step_upd host_step_upd])

lemma add_redirect_step:
  assumes "add_redirect os h conf s = Some (n, t)" shows "host_step h s t"
proof (cases "dc_new_domain conf = []")
  case False
  with assms show ?thesis unfolding add_redirect_def if_not_P [OF False] by (rule_tac host_step_then [OF _ push_redirect_step])
qed (use assms in \<open>simp add: add_redirect_def host_step.refl\<close>)

lemma init_redirects_step:
  assumes "init_redirects os h confs s = Some (n, t)" shows "host_step h s t"
proof -
  obtain ok w where w: "so_malloc os (s_world s) = (ok, w)" by fastforce
  obtain m tab where i: "InitRedirectDomainHash ok (redirects (hosts (worker_of s) h)) (int (length confs)) = Some (m, tab)"
    using assms w by (auto simp: init_redirects_def split: option.splits)
  let ?u = "upd_worker (upd_host h (\<lambda>v. v\<lparr>redirects := tab\<rparr>)) (s\<lparr>s_world := w\<rparr>)"
  have u: "host_step h s ?u" by (rule host_step.trans [OF host_step_same host_step_upd]) simp
  have "host_step h ?u t"
  proof (cases "m = 0")
    case True
    then have "start_all (add_redirect os h) confs ?u = Some (n, t)" using assms w i by (simp add: init_redirects_def)
    then show ?thesis by (rule host_step.all_steps) (rule add_redirect_step)
  qed (use assms w i in \<open>simp add: init_redirects_def host_step.refl\<close>)
  then show ?thesis by (rule host_step.trans [OF u])
qed

lemma link_server_step: "connection_count fs = 0 \<Longrightarrow> link_server h fs s = Some (n, t) \<Longrightarrow> host_step h s t"
  by (auto simp: link_server_def Let_def AddLeastConnectionCountTreeNode_def host_step_def rest_kept_def
      older_kept_def beside_sites_def all_idle_def upd_host_def)

lemma add_server_step: "add_server os h conf s = Some (n, t) \<Longrightarrow> host_step h s t"
  unfolding add_server_def by (erule host_step_then) (rule link_server_step, simp_all add: new_server_def)

lemma init_forward_step:
  assumes "init_forward os h conf s = Some (n, t)" shows "host_step h s t"
  using assms unfolding init_forward_def Let_def
proof (rule host_step_upd_trans [OF host_step.then_step])
  fix m t u
  show "ssl_context os (fc_certificate_file conf) None (upd_host h (\<lambda>v. v\<lparr>forward_ssl_ctx := True\<rparr>))
      (upd_worker (upd_host h (\<lambda>v. v\<lparr>forward_type := take 16 (fc_type conf), forward_rule := take 1 (fc_rule conf)\<rparr>)) s) = Some (m, t)
    \<Longrightarrow> host_step h (upd_worker (upd_host h (\<lambda>v. v\<lparr>forward_type := take 16 (fc_type conf), forward_rule := take 1 (fc_rule conf)\<rparr>)) s) t"
    by (rule ssl_context_step)
  assume "(if take 1 (fc_rule conf) \<noteq> [] \<and> fc_servers conf \<noteq> []
     then start_all (add_server os h) (fc_servers conf) (upd_worker (upd_host h (\<lambda>v. v\<lparr>roundrobin_list := []\<rparr>)) t)
     else Some (0, upd_worker (upd_host h (\<lambda>v. v\<lparr>roundrobin_list := []\<rparr>)) t)) = Some (m, u)"
  then show "host_step h t u"
    using host_step_upd_trans [OF host_step.all_steps [where f = "add_server os h", OF _ add_server_step]] host_step_upd
    by (auto split: if_splits)
qed

lemma open_access_log_step:
  assumes "open_access_log os h conf s = Some (n, t)" shows "host_step h s t"
proof -
  obtain fd w where fd: "so_open_log os (take 256 (wc_access_log conf)) (s_world s) = (fd, w)" by fastforce
  have "t = upd_worker (upd_host h (\<lambda>v. v\<lparr>access_log_fd := - 1\<rparr>)) s
      \<or> t = upd_worker (upd_host h (\<lambda>v. v\<lparr>access_log_fd := fd\<rparr>)) (s\<lparr>s_world := w\<rparr>)"
    using assms fd by (auto simp: open_access_log_def Let_def split: if_splits)
  moreover have "host_step h s (s\<lparr>s_world := w\<rparr>)" by (rule host_step_same) simp
  ultimately show ?thesis using host_step.trans host_step_upd by metis
qed

section \<open>What a host looks like in the end\<close>

definition rewrite_of :: "rewrite_conf \<Rightarrow> rewrite_uri" where
  "rewrite_of c = \<lparr>rw_pattern = rc_pattern c, rw_new_uri = rc_new_uri c\<rparr>"

definition redirect_of :: "redirect_conf \<Rightarrow> redirect_domain" where
  "redirect_of c = \<lparr>rd_domain = dc_domain c, rd_new_domain = dc_new_domain c\<rparr>"

text \<open>Address and port of a server.\<close>

definition server_address :: "forward_server \<Rightarrow> bytes \<times> int" where
  "server_address fs = (na_ip (fs_netaddr fs), na_port (fs_netaddr fs))"

definition servers_of :: "forward_conf \<Rightarrow> (bytes \<times> int) list" where
  "servers_of fw = (if take 1 (fc_rule fw) = [] then [] else map (\<lambda>c. (take 257 (sc_ip c), sc_port c)) (fc_servers fw))"

definition addresses :: "hetao_env \<Rightarrow> nat \<Rightarrow> (bytes \<times> int) list" where
  "addresses env h = map (\<lambda>f. server_address (servers env f)) (roundrobin_list (hosts env h))"

text \<open>The list of servers and the tree of the host \<open>h\<close>: the same servers, new and without connections.\<close>

definition servers_ready :: "hetao_env \<Rightarrow> nat \<Rightarrow> bool" where
  "servers_ready env h \<longleftrightarrow> distinct (roundrobin_list (hosts env h)) \<and> least_ok env h
     \<and> set (inorder (leastconnection_rbtree (hosts env h))) = set (roundrobin_list (hosts env h))
     \<and> (\<forall>f \<in> set (roundrobin_list (hosts env h)). conns env f = 0 \<and> timestamp_to_valid (servers env f) = 0)"

definition as_configured :: "hetao_env \<Rightarrow> website_conf \<Rightarrow> nat \<Rightarrow> bool" where
  "as_configured env conf h \<longleftrightarrow> (let v = hosts env h in
     domain v = take 256 (wc_domain conf) \<and> wwwroot v = take 1024 (wc_wwwroot conf)
   \<and> index_files v = take 1024 (wc_index conf) \<and> access_log v = take 256 (wc_access_log conf)
   \<and> rewrite_uri_list v = map rewrite_of (wc_rewrites conf)
   \<and> (wc_redirects conf \<noteq> [] \<longrightarrow> (\<forall>d. QueryRedirectDomainHashNode (redirects v) d
        = Some (map_of (map (\<lambda>c. (dc_domain c, redirect_of c)) (wc_redirects conf)) d)))
   \<and> forward_type v = take 16 (fc_type (wc_forward conf)) \<and> forward_rule v = take 1 (fc_rule (wc_forward conf))
   \<and> addresses env h = servers_of (wc_forward conf)
   \<and> servers_ready env h)"

lemma call_ok_0: "call_ok f s = Some (0, t) \<Longrightarrow> s_env t = s_env s"
  by (auto dest: call_ok_state)

lemma add_rewrite_result:
  "add_rewrite os h conf s = Some (0, t) \<Longrightarrow>
   worker_of t = upd_host h (\<lambda>v. v\<lparr>rewrite_uri_list := rewrite_uri_list v @ [rewrite_of conf]\<rparr>) (worker_of s)"
  by (auto simp: add_rewrite_def then_ok_0 rewrite_of_def split: if_splits dest!: call_ok_0)

lemma add_rewrites_result:
  "start_all (add_rewrite os h) confs s = Some (0, t) \<Longrightarrow>
   worker_of t = upd_host h (\<lambda>v. v\<lparr>rewrite_uri_list := rewrite_uri_list v @ map rewrite_of confs\<rparr>) (worker_of s)"
proof (induction confs arbitrary: s)
  case (Cons c confs)
  then obtain u where u: "add_rewrite os h c s = Some (0, u)" "start_all (add_rewrite os h) confs u = Some (0, t)"
    by (auto simp: then_ok_0)
  show ?case using Cons.IH [OF u(2)] add_rewrite_result [OF u(1)] by (simp add: upd_host_def)
qed (simp add: upd_host_def)

text \<open>One redirection more: the domain was not there, and is found afterwards.\<close>

lemma add_redirect_result:
  assumes "add_redirect os h conf s = Some (0, t)" "is_cstr (dc_domain conf)"
    and "chains_ok rd_domain (redirect_domain_hash (redirects (hosts (worker_of s) h)))"
  shows "\<exists>tab d. worker_of t = upd_host h (\<lambda>v. v\<lparr>redirects := tab, p_redirect_domain_default := d\<rparr>) (worker_of s)
     \<and> chains_ok rd_domain (redirect_domain_hash tab)
     \<and> QueryRedirectDomainHashNode (redirects (hosts (worker_of s) h)) (dc_domain conf) = Some None
     \<and> QueryRedirectDomainHashNode tab = (QueryRedirectDomainHashNode (redirects (hosts (worker_of s) h)))
          (dc_domain conf := Some (Some (redirect_of conf)))"
proof -
  let ?v = "hosts (worker_of s) h"
  obtain u where c: "call_ok (so_malloc os) s = Some (0, u)" and p: "push_redirect h (redirect_of conf) u = Some (0, t)"
    using assms(1) by (auto simp: add_redirect_def redirect_of_def then_ok_0 split: if_splits)
  have e: "s_env u = s_env s" using c by (rule call_ok_0)
  obtain tab where u: "PushRedirectDomainHashNode (redirects ?v) (redirect_of conf) = Some (0, tab)"
    "worker_of t = upd_host h (\<lambda>v. if dc_domain conf = [] \<and> p_redirect_domain_default v = None
          then v\<lparr>p_redirect_domain_default := Some (redirect_of conf)\<rparr> else v)
        (upd_host h (\<lambda>v. v\<lparr>redirects := tab\<rparr>) (worker_of s))"
    using p e by (elim push_redirect_cases) (auto simp: redirect_of_def split: if_splits)
  have k: "rd_domain (redirect_of conf) = dc_domain conf" by (simp add: redirect_of_def)
  have none: "QueryRedirectDomainHashNode (redirects ?v) (dc_domain conf) = Some None"
    using redirects.query_defined [OF assms(3), of "dc_domain conf"] redirects.push_again [OF assms(3), of "redirect_of conf"]
      u(1) assms(2) k by fastforce
  obtain tab' where "PushRedirectDomainHashNode (redirects ?v) (redirect_of conf) = Some (0, tab')"
    "chains_ok rd_domain (redirect_domain_hash tab')"
    "QueryRedirectDomainHashNode tab' = (QueryRedirectDomainHashNode (redirects ?v))(dc_domain conf := Some (Some (redirect_of conf)))"
    using redirects.push_new [OF assms(3), of "redirect_of conf"] assms(2) k none by auto
  moreover have "worker_of t = upd_host h (\<lambda>v. v\<lparr>redirects := tab, p_redirect_domain_default :=
      (if dc_domain conf = [] \<and> p_redirect_domain_default ?v = None then Some (redirect_of conf) else p_redirect_domain_default ?v)\<rparr>) (worker_of s)"
    unfolding u(2) by (simp add: upd_host_def)
  ultimately show ?thesis using u(1) none by auto
qed

lemma add_redirects_result:
  assumes "start_all (add_redirect os h) confs s = Some (0, t)" "\<forall>c \<in> set confs. is_cstr (dc_domain c)"
    and "chains_ok rd_domain (redirect_domain_hash (redirects (hosts (worker_of s) h)))"
  shows "\<exists>tab d. worker_of t = upd_host h (\<lambda>v. v\<lparr>redirects := tab, p_redirect_domain_default := d\<rparr>) (worker_of s)
     \<and> (\<forall>x. QueryRedirectDomainHashNode tab x = (case map_of (map (\<lambda>c. (dc_domain c, redirect_of c)) confs) x of
            None \<Rightarrow> QueryRedirectDomainHashNode (redirects (hosts (worker_of s) h)) x | Some e \<Rightarrow> Some (Some e)))
     \<and> (\<forall>x. map_of (map (\<lambda>c. (dc_domain c, redirect_of c)) confs) x \<noteq> None
            \<longrightarrow> QueryRedirectDomainHashNode (redirects (hosts (worker_of s) h)) x = Some None)"
  using assms
proof (induction confs arbitrary: s)
  case Nil
  then show ?case
    by (intro exI [of _ "redirects (hosts (worker_of s) h)"] exI [of _ "p_redirect_domain_default (hosts (worker_of s) h)"])
      (simp add: upd_host_def)
next
  case (Cons c confs)
  let ?q = "QueryRedirectDomainHashNode (redirects (hosts (worker_of s) h))"
  obtain u where u: "add_redirect os h c s = Some (0, u)" "start_all (add_redirect os h) confs u = Some (0, t)"
    using Cons.prems(1) by (auto simp: then_ok_0)
  obtain tab1 d1 where 1: "worker_of u = upd_host h (\<lambda>v. v\<lparr>redirects := tab1, p_redirect_domain_default := d1\<rparr>) (worker_of s)"
    "chains_ok rd_domain (redirect_domain_hash tab1)" "?q (dc_domain c) = Some None"
    "QueryRedirectDomainHashNode tab1 = ?q(dc_domain c := Some (Some (redirect_of c)))"
    using add_redirect_result [OF u(1) _ Cons.prems(3)] Cons.prems(2) by auto
  have r: "redirects (hosts (worker_of u) h) = tab1" using 1(1) by simp
  obtain tab d where 2: "worker_of t = upd_host h (\<lambda>v. v\<lparr>redirects := tab, p_redirect_domain_default := d\<rparr>) (worker_of u)"
    "\<forall>x. QueryRedirectDomainHashNode tab x = (case map_of (map (\<lambda>c. (dc_domain c, redirect_of c)) confs) x of
            None \<Rightarrow> QueryRedirectDomainHashNode tab1 x | Some e \<Rightarrow> Some (Some e))"
    "\<forall>x. map_of (map (\<lambda>c. (dc_domain c, redirect_of c)) confs) x \<noteq> None \<longrightarrow> QueryRedirectDomainHashNode tab1 x = Some None"
    using Cons.IH [OF u(2)] Cons.prems(2) 1(2) r by auto
  have "map_of (map (\<lambda>c. (dc_domain c, redirect_of c)) confs) (dc_domain c) = None"
    using 2(3) [rule_format, of "dc_domain c"] 1(4) by fastforce
  moreover have "worker_of t = upd_host h (\<lambda>v. v\<lparr>redirects := tab, p_redirect_domain_default := d\<rparr>) (worker_of s)"
    unfolding 2(1) 1(1) by (simp add: upd_host_def)
  ultimately show ?case
    using 2(2,3) 1(3,4) by (intro exI [of _ tab] exI [of _ d]) (auto split: option.splits if_splits)
qed

lemma init_redirects_result:
  assumes "init_redirects os h confs s = Some (0, t)" "\<forall>c \<in> set confs. is_cstr (dc_domain c)"
  shows "\<exists>tab d. worker_of t = upd_host h (\<lambda>v. v\<lparr>redirects := tab, p_redirect_domain_default := d\<rparr>) (worker_of s)
     \<and> (confs \<noteq> [] \<longrightarrow> (\<forall>x. QueryRedirectDomainHashNode tab x = Some (map_of (map (\<lambda>c. (dc_domain c, redirect_of c)) confs) x)))"
proof -
  obtain ok w tab where i: "so_malloc os (s_world s) = (ok, w)"
    "InitRedirectDomainHash ok (redirects (hosts (worker_of s) h)) (int (length confs)) = Some (0, tab)"
    "start_all (add_redirect os h) confs (upd_worker (upd_host h (\<lambda>v. v\<lparr>redirects := tab\<rparr>)) (s\<lparr>s_world := w\<rparr>)) = Some (0, t)"
  proof -
    obtain ok w where w: "so_malloc os (s_world s) = (ok, w)" by fastforce
    obtain n tab where i: "InitRedirectDomainHash ok (redirects (hosts (worker_of s) h)) (int (length confs)) = Some (n, tab)"
      using assms(1) w by (cases "InitRedirectDomainHash ok (redirects (hosts (worker_of s) h)) (int (length confs))")
        (auto simp: init_redirects_def)
    show thesis using assms(1) w i that by (auto simp: init_redirects_def Let_def split: if_splits)
  qed
  let ?u = "upd_worker (upd_host h (\<lambda>v. v\<lparr>redirects := tab\<rparr>)) (s\<lparr>s_world := w\<rparr>)"
  show ?thesis
  proof (cases "confs = []")
    case True
    then show ?thesis using i(3)
      by (intro exI [of _ tab] exI [of _ "p_redirect_domain_default (hosts (worker_of s) h)"]) (auto simp: upd_host_def)
  next
    case False
    obtain hash where hash: "init_hash True (int (length confs) * 2) = Some (0, hash)" "redirect_domain_hash tab = hash"
      using i(2) by (auto simp: InitRedirectDomainHash_def init_hash_def split: if_splits)
    have "0 < int (length confs) * 2" using False by simp
    from init_hash_ok [OF this hash(1), of rd_domain]
    have ok: "chains_ok rd_domain (redirect_domain_hash tab)" and none: "QueryRedirectDomainHashNode tab x = Some None" for x
      by (simp_all add: hash(2) QueryRedirectDomainHashNode_def)
    have r: "redirects (hosts (worker_of ?u) h) = tab" by simp
    obtain tab2 d where 2: "worker_of t = upd_host h (\<lambda>v. v\<lparr>redirects := tab2, p_redirect_domain_default := d\<rparr>) (worker_of ?u)"
      "\<forall>x. QueryRedirectDomainHashNode tab2 x = (case map_of (map (\<lambda>c. (dc_domain c, redirect_of c)) confs) x of
            None \<Rightarrow> QueryRedirectDomainHashNode tab x | Some e \<Rightarrow> Some (Some e))"
      using add_redirects_result [OF i(3) assms(2)] ok unfolding r by blast
    have "QueryRedirectDomainHashNode tab2 x = Some (map_of (map (\<lambda>c. (dc_domain c, redirect_of c)) confs) x)" for x
      using 2(2) none [of x] by (simp split: option.splits)
    moreover have "worker_of t = upd_host h (\<lambda>v. v\<lparr>redirects := tab2, p_redirect_domain_default := d\<rparr>) (worker_of s)"
      unfolding 2(1) by (simp add: upd_host_def)
    ultimately show ?thesis by blast
  qed
qed


text \<open>The servers of a host: one after the other at the end of the list and into the tree.\<close>

definition below :: "main_env \<Rightarrow> nat \<Rightarrow> bool" where
  "below me h \<longleftrightarrow> (\<forall>f \<in> set (roundrobin_list (hosts (me_worker me) h)). f < me_next_server me)"

text \<open>The same host but for its servers.\<close>

definition with_servers :: "virtual_host \<Rightarrow> virtual_host \<Rightarrow> bool" where
  "with_servers v v' \<longleftrightarrow> v'\<lparr>roundrobin_list := [], leastconnection_rbtree := RB_NULL\<rparr>
     = v\<lparr>roundrobin_list := [], leastconnection_rbtree := RB_NULL\<rparr>"

lemma with_servers_trans: "with_servers v1 v2 \<Longrightarrow> with_servers v2 v3 \<Longrightarrow> with_servers v1 v3"
  by (simp add: with_servers_def)

lemma with_servers_refl: "with_servers v v"
  by (simp add: with_servers_def)

lemma link_server_result:
  assumes "link_server h srv s = Some (0, t)" "servers_ready (worker_of s) h" "below (s_env s) h"
    and "connection_count srv = 0" "timestamp_to_valid srv = 0"
  shows "servers_ready (worker_of t) h \<and> below (s_env t) h \<and> with_servers (hosts (worker_of s) h) (hosts (worker_of t) h)
     \<and> addresses (worker_of t) h = addresses (worker_of s) h @ [server_address srv]"
proof -
  define f where "f = me_next_server (s_env s)"
  let ?v = "hosts (worker_of s) h"
  define env where "env = upd_host h (\<lambda>v. v\<lparr>roundrobin_list := roundrobin_list v @ [f]\<rparr>)
      ((worker_of s)\<lparr>servers := (servers (worker_of s))(f := srv)\<rparr>)"
  obtain tree where tree: "add_node (conns env) f (leastconnection_rbtree ?v) = Some tree"
    and wt: "worker_of t = upd_host h (\<lambda>v. v\<lparr>leastconnection_rbtree := tree\<rparr>) env" and nt: "me_next_server (s_env t) = f + 1"
  proof -
    let ?S = "upd_worker (upd_host h (\<lambda>v. v\<lparr>roundrobin_list := roundrobin_list v @ [f]\<rparr>))
       (upd_worker (\<lambda>env. env\<lparr>servers := (servers env)(f := srv)\<rparr>) (upd_env (\<lambda>me. me\<lparr>me_next_server := f + 1\<rparr>) s))"
    have S: "worker_of ?S = env" "me_next_server (s_env ?S) = f + 1" by (simp_all add: env_def)
    have v: "leastconnection_rbtree (hosts env h) = leastconnection_rbtree ?v" by (simp add: env_def)
    have "link_server h srv s = map_option (\<lambda>(nret, env). (0, upd_worker (\<lambda>_. env) ?S)) (AddLeastConnectionCountTreeNode (worker_of ?S) h f)"
      unfolding link_server_def Let_def f_def ..
    then obtain n e' where e': "AddLeastConnectionCountTreeNode env h f = Some (n, e')" "t = upd_worker (\<lambda>_. e') ?S"
      using assms(1) unfolding S(1) by (cases "AddLeastConnectionCountTreeNode env h f") auto
    from e'(1) obtain tree where "add_node (conns env) f (leastconnection_rbtree ?v) = Some tree"
      "e' = upd_host h (\<lambda>v. v\<lparr>leastconnection_rbtree := tree\<rparr>) env"
      by (auto simp: AddLeastConnectionCountTreeNode_def v)
    then show thesis using that e'(2) S(2) by simp
  qed
  have new: "f \<notin> set (roundrobin_list ?v)" using assms(3) by (auto simp: below_def f_def)
  have old: "distinct (roundrobin_list ?v)" "index_ok (leastconnection_rbtree ?v)"
    "sorted (map (conns (worker_of s)) (inorder (leastconnection_rbtree ?v)))"
    "set (inorder (leastconnection_rbtree ?v)) = set (roundrobin_list ?v)"
    "\<forall>g \<in> set (roundrobin_list ?v). conns (worker_of s) g = 0 \<and> timestamp_to_valid (servers (worker_of s) g) = 0"
    using assms(2) by (auto simp: servers_ready_def least_ok_def)
  have "map (conns env) (inorder (leastconnection_rbtree ?v)) = map (conns (worker_of s)) (inorder (leastconnection_rbtree ?v))"
    using new old(4) by (intro map_cong refl) (auto simp: env_def upd_host_def)
  then have "sorted (map (conns env) (inorder (leastconnection_rbtree ?v)))" using old(3) by metis
  then have tree': "index_ok tree" "set (inorder tree) = insert f (set (roundrobin_list ?v))" "sorted (map (conns env) (inorder tree))"
    using index.add_new [OF old(2), of f "conns env"] tree new old(4) by auto
  have hv: "hosts (worker_of t) h = ?v\<lparr>roundrobin_list := roundrobin_list ?v @ [f], leastconnection_rbtree := tree\<rparr>"
    by (simp add: wt env_def)
  have sv: "servers (worker_of t) = (servers (worker_of s))(f := srv)" by (simp add: wt env_def)
  have c: "conns (worker_of t) = conns env" by (simp add: wt env_def fun_eq_iff)
  have "servers_ready (worker_of t) h"
    unfolding servers_ready_def least_ok_def hv c using tree' old(1,5) new assms(4,5) sv by (auto simp: env_def)
  moreover have "below (s_env t) h" using assms(3) nt by (auto simp: below_def hv f_def intro: less_SucI)
  moreover have "map (\<lambda>g. server_address (servers (worker_of t) g)) (roundrobin_list ?v)
      = map (\<lambda>g. server_address (servers (worker_of s) g)) (roundrobin_list ?v)"
    using new by (intro map_cong refl) (auto simp: sv)
  ultimately show ?thesis unfolding with_servers_def addresses_def hv by (auto simp: sv)
qed

lemma add_servers_result:
  assumes "start_all (add_server os h) confs s = Some (0, t)" "servers_ready (worker_of s) h" "below (s_env s) h"
  shows "servers_ready (worker_of t) h \<and> below (s_env t) h \<and> with_servers (hosts (worker_of s) h) (hosts (worker_of t) h)
     \<and> addresses (worker_of t) h = addresses (worker_of s) h @ map (\<lambda>c. (take 257 (sc_ip c), sc_port c)) confs"
  using assms
proof (induction confs arbitrary: s)
  case (Cons c confs)
  then obtain u where u0: "add_server os h c s = Some (0, u)" "start_all (add_server os h) confs u = Some (0, t)"
    by (auto simp: then_ok_0)
  from u0(1) obtain v where "call_ok (so_malloc os) s = Some (0, v)" "link_server h (new_server os c) v = Some (0, u)"
    by (auto simp: then_ok_0 add_server_def)
  note u = this u0(2)
  have e: "s_env v = s_env s" using u(1) by (rule call_ok_0)
  have n: "connection_count (new_server os c) = 0" "timestamp_to_valid (new_server os c) = 0"
    "server_address (new_server os c) = (take 257 (sc_ip c), sc_port c)"
    by (simp_all add: new_server_def server_address_def)
  from link_server_result [OF u(2) _ _ n(1,2)] Cons.prems(2,3)
  have 1: "servers_ready (worker_of u) h" "below (s_env u) h" "with_servers (hosts (worker_of s) h) (hosts (worker_of u) h)"
    "addresses (worker_of u) h = addresses (worker_of s) h @ [(take 257 (sc_ip c), sc_port c)]"
    by (simp_all add: e n(3))
  show ?case using Cons.IH [OF u(3) 1(1,2)] 1(3,4) with_servers_trans by auto
qed (auto intro: with_servers_refl)


lemma ssl_context_result:
  assumes "ssl_context os cert key (upd_host h g) s = Some (0, t)"
  shows "(worker_of t = worker_of s \<or> worker_of t = upd_host h g (worker_of s)) \<and> me_next_server (s_env t) = me_next_server (s_env s)"
proof (cases "cert = []")
  case False
  then obtain u where u: "call_ok (so_ssl_ctx_new os) (upd_env (\<lambda>me. me\<lparr>me_init_ssl_env_flag := True\<rparr>) s) = Some (0, u)"
    "t = upd_worker (upd_host h g) u"
    using assms by (auto simp: ssl_context_def Let_def then_ok_0 split: if_splits option.splits)
  then show ?thesis using call_ok_0 [OF u(1)] by simp
qed (use assms in \<open>simp add: ssl_context_def\<close>)

text \<open>The forwarding of a host that has no servers yet; \<open>b\<close>: whether there is a context for the connections to them.\<close>

definition forwarding :: "forward_conf \<Rightarrow> bool \<Rightarrow> virtual_host \<Rightarrow> virtual_host" where
  "forwarding fw b v = v\<lparr>forward_type := take 16 (fc_type fw), forward_rule := take 1 (fc_rule fw), forward_ssl_ctx := b\<rparr>"

lemma init_forward_result:
  assumes "init_forward os h fw s = Some (0, t)" "leastconnection_rbtree (hosts (worker_of s) h) = RB_NULL"
  shows "(\<exists>b. with_servers (forwarding fw b (hosts (worker_of s) h)) (hosts (worker_of t) h))
     \<and> servers_ready (worker_of t) h \<and> below (s_env t) h \<and> addresses (worker_of t) h = servers_of fw"
proof -
  let ?s = "upd_worker (upd_host h (\<lambda>v. v\<lparr>forward_type := take 16 (fc_type fw), forward_rule := take 1 (fc_rule fw)\<rparr>)) s"
  let ?list = "\<lambda>u. upd_worker (upd_host h (\<lambda>v. v\<lparr>roundrobin_list := []\<rparr>)) u"
  obtain u where u: "ssl_context os (fc_certificate_file fw) None (upd_host h (\<lambda>v. v\<lparr>forward_ssl_ctx := True\<rparr>)) ?s = Some (0, u)"
    and k: "(if take 1 (fc_rule fw) \<noteq> [] \<and> fc_servers fw \<noteq> [] then start_all (add_server os h) (fc_servers fw) (?list u)
             else Some (0, ?list u)) = Some (0, t)"
    using assms(1) by (auto simp: init_forward_def Let_def then_ok_0)
  let ?v = "hosts (worker_of s) h"
  have "\<exists>b. hosts (worker_of u) h = forwarding fw b ?v"
    using ssl_context_result [OF u] by (auto simp: forwarding_def intro: exI [of _ "forward_ssl_ctx ?v"] exI [of _ True])
  then obtain b where b: "hosts (worker_of u) h = forwarding fw b ?v" by blast
  have l: "hosts (worker_of (?list u)) h = (forwarding fw b ?v)\<lparr>roundrobin_list := []\<rparr>" by (simp add: b)
  have ready: "servers_ready (worker_of (?list u)) h" "below (s_env (?list u)) h" "addresses (worker_of (?list u)) h = []"
    "with_servers (forwarding fw b ?v) (hosts (worker_of (?list u)) h)"
    using assms(2) by (simp_all add: servers_ready_def least_ok_def below_def addresses_def with_servers_def b forwarding_def)
  show ?thesis
  proof (cases "take 1 (fc_rule fw) \<noteq> [] \<and> fc_servers fw \<noteq> []")
    case True
    then have "start_all (add_server os h) (fc_servers fw) (?list u) = Some (0, t)" using k by simp
    from add_servers_result [OF this ready(1,2)] True ready(3,4) with_servers_trans show ?thesis
      by (auto simp: servers_of_def)
  next
    case False
    then have "t = ?list u" using k by (simp split: if_splits)
    then show ?thesis using ready False by (auto simp: servers_of_def)
  qed
qed

section \<open>The table of the hosts of a listener\<close>

definition members :: "hetao_env \<Rightarrow> nat \<Rightarrow> nat set" where
  "members env l = set (concat (virtual_host_hash (listens env l)))"

definition host_at :: "hetao_env \<Rightarrow> nat \<Rightarrow> bytes \<Rightarrow> nat option option" where
  "host_at env l d = QueryVirtualHostHashNode (hosts env) (listens env l) d"

definition table_ok :: "main_env \<Rightarrow> nat \<Rightarrow> bool" where
  "table_ok me l \<longleftrightarrow> chains_ok (\<lambda>a. domain (hosts (me_worker me) a)) (virtual_host_hash (listens (me_worker me) l))
     \<and> (\<forall>a \<in> members (me_worker me) l. a < me_next_host me)"

lemma chains_cong:
  assumes "\<forall>a \<in> set (concat hash). key' a = key a"
  shows "chains_ok key' hash = chains_ok key hash" "query_node key' hash s = query_node key hash s"
proof -
  have k: "\<forall>a \<in> set (hash ! i). key' a = key a" if "i < length hash" for i using assms that by (metis in_set_conv_nth set_concat UN_I)
  then have "\<And>i. i < length hash \<Longrightarrow> map key' (hash ! i) = map key (hash ! i)" by auto
  then show "chains_ok key' hash = chains_ok key hash" using k unfolding chains_ok_def by (metis (no_types, lifting))
  show "query_node key' hash s = query_node key hash s"
  proof (cases "hash_index s (length hash)")
    case (Some i)
    then have "i < length hash" by (rule hash_index_less)
    then have "List.find (\<lambda>p. length (key' p) = length s \<and> strncmp_eq (key' p) s (length s)) (hash ! i)
        = List.find (\<lambda>p. length (key p) = length s \<and> strncmp_eq (key p) s (length s)) (hash ! i)"
      using k by (intro find_cong) auto
    then show ?thesis using Some by (simp add: query_node_def)
  qed (simp add: query_node_def)
qed

lemma table_kept:
  assumes "table_ok (s_env s) l" "listens (worker_of t) l = listens (worker_of s) l"
    and "\<forall>a < me_next_host (s_env s). hosts (worker_of t) a = hosts (worker_of s) a"
    and "me_next_host (s_env s) \<le> me_next_host (s_env t)"
  shows "table_ok (s_env t) l" "host_at (worker_of t) l = host_at (worker_of s) l"
proof -
  have m: "members (worker_of t) l = members (worker_of s) l" by (simp add: members_def assms(2))
  have "\<forall>a \<in> set (concat (virtual_host_hash (listens (worker_of s) l))). domain (hosts (worker_of t) a) = domain (hosts (worker_of s) a)"
    using assms(1,3) unfolding table_ok_def members_def by metis
  from chains_cong [OF this] show "table_ok (s_env t) l" "host_at (worker_of t) l = host_at (worker_of s) l"
    using assms(1,4) m unfolding table_ok_def host_at_def QueryVirtualHostHashNode_def fun_eq_iff assms(2) by auto
qed

lemma push_node_members:
  assumes "push_node key hash e = Some (n, hash')" shows "set (concat hash') \<subseteq> insert e (set (concat hash))"
proof -
  obtain i where i: "hash_index (key e) (length hash) = Some i" "hash' = hash \<or> hash' = hash[i := e # hash ! i]"
    using assms by (auto simp: push_node_def split: option.splits if_splits)
  have "hash ! i \<in> set hash" using hash_index_less [OF i(1)] by simp
  then show ?thesis using i(2) set_update_subset_insert [of hash i "e # hash ! i"] by fastforce
qed

text \<open>The new host is found under its domain; the domain was not there before.\<close>

lemma register_host_result:
  assumes "register_host l h s = Some (0, t)" "table_ok (s_env s) l" "is_cstr (domain (hosts (worker_of s) h))"
    and "h < me_next_host (s_env s)"
  shows "table_ok (s_env t) l \<and> host_at (worker_of t) l = (host_at (worker_of s) l)(domain (hosts (worker_of s) h) := Some (Some h))
     \<and> host_at (worker_of s) l (domain (hosts (worker_of s) h)) = Some None
     \<and> (\<forall>k. k \<noteq> l \<longrightarrow> listens (worker_of t) k = listens (worker_of s) k) \<and> hosts (worker_of t) = hosts (worker_of s)
     \<and> servers (worker_of t) = servers (worker_of s) \<and> me_next_server (s_env t) = me_next_server (s_env s)"
proof -
  let ?hs = "hosts (worker_of s)" and ?ls = "listens (worker_of s) l" and ?d = "domain (hosts (worker_of s) h)"
  have ok: "chains_ok (\<lambda>a. domain (?hs a)) (virtual_host_hash ?ls)" using assms(2) by (simp add: table_ok_def)
  obtain n ls where p: "PushVirtualHostHashNode ?hs ?ls h = Some (n, ls)"
    using assms(1) by (cases "PushVirtualHostHashNode ?hs ?ls h") (auto simp: register_host_def)
  have n: "n = 0" using assms(1) p by (auto simp: register_host_def Let_def split: if_splits)
  have none: "QueryVirtualHostHashNode ?hs ?ls ?d = Some None"
    using host_table.query_defined [OF ok, of ?d] host_table.push_again [OF ok, of h] assms(3) p n by fastforce
  obtain ls' where ls': "PushVirtualHostHashNode ?hs ?ls h = Some (0, ls')" "chains_ok (\<lambda>a. domain (?hs a)) (virtual_host_hash ls')"
    "QueryVirtualHostHashNode ?hs ls' = (QueryVirtualHostHashNode ?hs ?ls)(?d := Some (Some h))"
    using host_table.push_new [OF ok assms(3) none] by blast
  have t: "t = upd_worker (upd_listen l (\<lambda>ls. if ?d = [] \<and> p_virtual_host_default ls = None then ls\<lparr>p_virtual_host_default := Some h\<rparr> else ls))
      (upd_worker (upd_listen l (\<lambda>_. ls')) s)"
    using assms(1) ls'(1) by (simp add: register_host_def Let_def)
  have lt: "virtual_host_hash (listens (worker_of t) l) = virtual_host_hash ls'" by (simp add: t)
  have "set (concat (virtual_host_hash ls')) \<subseteq> insert h (set (concat (virtual_host_hash ?ls)))"
    using ls'(1) push_node_members by (fastforce simp: PushVirtualHostHashNode_def)
  then have "\<forall>a \<in> members (worker_of t) l. a < me_next_host (s_env s)"
    using assms(2,4) unfolding members_def lt table_ok_def by auto
  moreover have "host_at (worker_of t) l = (host_at (worker_of s) l)(?d := Some (Some h))"
    using ls'(3) by (simp add: host_at_def QueryVirtualHostHashNode_def fun_eq_iff t)
  ultimately show ?thesis
    using ls'(2) none by (auto simp: table_ok_def lt host_at_def) (simp_all add: t)
qed


section \<open>Websites\<close>

text \<open>What \<open>as_configured\<close> says does not depend on what is added later.\<close>

lemma servers_ready_kept:
  assumes "servers_ready env h" "hosts env' h = hosts env h" "\<forall>f \<in> set (roundrobin_list (hosts env h)). servers env' f = servers env f"
  shows "servers_ready env' h" "addresses env' h = addresses env h"
proof -
  have "map (conns env') (inorder (leastconnection_rbtree (hosts env h))) = map (conns env) (inorder (leastconnection_rbtree (hosts env h)))"
    using assms(1,3) by (intro map_cong refl) (auto simp: servers_ready_def)
  then have "sorted (map (conns env') (inorder (leastconnection_rbtree (hosts env h))))"
    using assms(1) unfolding servers_ready_def least_ok_def by metis
  then show "servers_ready env' h" using assms by (simp add: servers_ready_def least_ok_def)
  show "addresses env' h = addresses env h" unfolding addresses_def assms(2) using assms(3) by (intro map_cong refl) auto
qed

definition in_place :: "main_env \<Rightarrow> website_conf \<Rightarrow> nat \<Rightarrow> bool" where
  "in_place me conf h \<longleftrightarrow> as_configured (me_worker me) conf h \<and> h < me_next_host me \<and> below me h"

lemma in_place_kept:
  assumes "in_place (s_env s) conf h" "older_kept L {} s t" shows "in_place (s_env t) conf h"
proof -
  have h: "hosts (worker_of t) h = hosts (worker_of s) h" "h < me_next_host (s_env t)"
    using assms unfolding in_place_def older_kept_def by auto
  have f: "\<forall>f \<in> set (roundrobin_list (hosts (worker_of s) h)). servers (worker_of t) f = servers (worker_of s) f \<and> f < me_next_server (s_env t)"
    using assms unfolding in_place_def older_kept_def below_def by auto
  have "servers_ready (worker_of s) h" using assms(1) by (simp add: in_place_def as_configured_def Let_def)
  from servers_ready_kept [OF this h(1)] f show ?thesis
    using assms(1) h unfolding in_place_def as_configured_def below_def Let_def by auto
qed

lemma take_cstr: "is_cstr s \<Longrightarrow> is_cstr (take n s)"
  by (auto simp: is_cstr_def dest: in_set_takeD)

definition cstr_site :: "website_conf \<Rightarrow> bool" where
  "cstr_site conf \<longleftrightarrow> is_cstr (wc_domain conf) \<and> (\<forall>c \<in> set (wc_redirects conf). is_cstr (dc_domain c))"

text \<open>The host before the settings of its website are worked in.\<close>

definition blank_host :: "website_conf \<Rightarrow> virtual_host" where
  "blank_host conf = zero_host\<lparr>domain := take 256 (wc_domain conf), wwwroot := take 1024 (wc_wwwroot conf),
     index_files := take 1024 (wc_index conf), access_log := take 256 (wc_access_log conf)\<rparr>"

lemma open_access_log_result:
  assumes "open_access_log os h conf s = Some (0, t)"
  shows "\<exists>fd. hosts (worker_of t) h = (hosts (worker_of s) h)\<lparr>access_log_fd := fd\<rparr>"
proof -
  obtain fd w where fd: "so_open_log os (take 256 (wc_access_log conf)) (s_world s) = (fd, w)" by fastforce
  have "t = upd_worker (upd_host h (\<lambda>v. v\<lparr>access_log_fd := - 1\<rparr>)) s
      \<or> t = upd_worker (upd_host h (\<lambda>v. v\<lparr>access_log_fd := fd\<rparr>)) (s\<lparr>s_world := w\<rparr>)"
    using assms fd by (auto simp: open_access_log_def Let_def split: if_splits)
  then show ?thesis by (elim disjE) (simp_all, metis+)
qed

lemma compile_template_result: "compile_template os confs s = Some (n, t) \<Longrightarrow> hosts (worker_of t) = hosts (worker_of s)"
  by (auto simp: compile_template_def split: if_splits)

text \<open>The settings of a website, up to the entry into the table.\<close>

definition setup_host :: "'w start_os \<Rightarrow> nat \<Rightarrow> website_conf \<Rightarrow> 'w start \<Rightarrow> (int \<times> 'w start) option" where
  "setup_host os h conf s =
     then_ok (open_access_log os h conf s) (\<lambda>s.
     then_ok (compile_template os (wc_rewrites conf) s) (\<lambda>s.
     then_ok (start_all (add_rewrite os h) (wc_rewrites conf) s) (\<lambda>s.
     then_ok (init_redirects os h (wc_redirects conf) s) (\<lambda>s.
     init_forward os h (wc_forward conf) s))))"

lemma setup_host_step: "setup_host os h conf s = Some (n, t) \<Longrightarrow> host_step h s t"
  unfolding setup_host_def
  by (erule host_step.then_step, erule open_access_log_step, erule host_step.then_step, erule compile_template_step,
      erule host_step.then_step, erule host_step.all_steps, erule add_rewrite_step,
      erule host_step.then_step, erule init_redirects_step, erule init_forward_step)

lemma setup_host_result:
  assumes "setup_host os h conf s = Some (0, t)" "hosts (worker_of s) h = blank_host conf" "cstr_site conf"
  shows "as_configured (worker_of t) conf h \<and> below (s_env t) h"
proof -
  obtain u1 u2 u3 u4 where u: "open_access_log os h conf s = Some (0, u1)" "compile_template os (wc_rewrites conf) u1 = Some (0, u2)"
    "start_all (add_rewrite os h) (wc_rewrites conf) u2 = Some (0, u3)" "init_redirects os h (wc_redirects conf) u3 = Some (0, u4)"
    "init_forward os h (wc_forward conf) u4 = Some (0, t)"
    using assms(1) unfolding setup_host_def by (auto simp: then_ok_0)
  obtain fd where 1: "hosts (worker_of u1) h = (blank_host conf)\<lparr>access_log_fd := fd\<rparr>"
    using open_access_log_result [OF u(1)] assms(2) by auto
  have 2: "hosts (worker_of u2) h = hosts (worker_of u1) h" using compile_template_result [OF u(2)] by simp
  have 3: "hosts (worker_of u3) h = (blank_host conf)\<lparr>access_log_fd := fd, rewrite_uri_list := map rewrite_of (wc_rewrites conf)\<rparr>"
    using add_rewrites_result [OF u(3)] 1 2 by (simp add: blank_host_def zero_host_def)
  obtain tab d where 4: "worker_of u4 = upd_host h (\<lambda>v. v\<lparr>redirects := tab, p_redirect_domain_default := d\<rparr>) (worker_of u3)"
    "wc_redirects conf \<noteq> [] \<longrightarrow> (\<forall>x. QueryRedirectDomainHashNode tab x
       = Some (map_of (map (\<lambda>c. (dc_domain c, redirect_of c)) (wc_redirects conf)) x))"
    using init_redirects_result [OF u(4)] assms(3) by (auto simp: cstr_site_def)
  have e: "leastconnection_rbtree (hosts (worker_of u4) h) = RB_NULL" by (simp add: 4(1) 3 blank_host_def zero_host_def)
  obtain b where 5: "with_servers (forwarding (wc_forward conf) b (hosts (worker_of u4) h)) (hosts (worker_of t) h)"
    "servers_ready (worker_of t) h" "below (s_env t) h" "addresses (worker_of t) h = servers_of (wc_forward conf)"
    using init_forward_result [OF u(5) e] by blast
  define v where "v = (forwarding (wc_forward conf) b (hosts (worker_of u4) h))\<lparr>roundrobin_list := [], leastconnection_rbtree := RB_NULL\<rparr>"
  have v: "(hosts (worker_of t) h)\<lparr>roundrobin_list := [], leastconnection_rbtree := RB_NULL\<rparr> = v"
    using 5(1) by (simp add: with_servers_def v_def)
  have p: "domain (hosts (worker_of t) h) = domain v" "wwwroot (hosts (worker_of t) h) = wwwroot v"
    "index_files (hosts (worker_of t) h) = index_files v" "access_log (hosts (worker_of t) h) = access_log v"
    "rewrite_uri_list (hosts (worker_of t) h) = rewrite_uri_list v" "redirects (hosts (worker_of t) h) = redirects v"
    "forward_type (hosts (worker_of t) h) = forward_type v" "forward_rule (hosts (worker_of t) h) = forward_rule v"
    by (simp_all add: v [symmetric])
  show ?thesis
    unfolding as_configured_def Let_def p using 4(2) 5(2-4)
    by (simp add: v_def 4(1) 3 forwarding_def blank_host_def zero_host_def)
qed

text \<open>A website with a document root.\<close>

lemma add_website_setup:
  assumes "wc_wwwroot conf \<noteq> []"
  shows "add_website os l conf s = then_ok (call_ok (so_malloc os) s) (\<lambda>s.
     let h = me_next_host (s_env s);
         s = upd_worker (upd_host h (\<lambda>_. blank_host conf)) (upd_env (\<lambda>me. me\<lparr>me_next_host := h + 1\<rparr>) s) in
     then_ok (setup_host os h conf s) (register_host l h))"
proof -
  have a: "then_ok (then_ok r j) k = then_ok r (\<lambda>b. then_ok (j b) k)" for r :: "(int \<times> 'x) option" and j k
    by (auto simp: then_ok_def split: option.splits prod.splits)
  show ?thesis unfolding add_website_def setup_host_def blank_host_def Let_def a using assms by simp
qed


text \<open>What the steps of the listener \<open>l\<close> keep; hosts that are found are found for good.\<close>

definition listen_step :: "nat \<Rightarrow> 'w start \<Rightarrow> 'w start \<Rightarrow> bool" where
  "listen_step l s t \<longleftrightarrow> rest_kept s t \<and> older_kept {l} {} s t \<and> me_next_listen (s_env t) = me_next_listen (s_env s)
     \<and> me_listen_session_list (s_env t) = me_listen_session_list (s_env s)
     \<and> me_listen_session_count (s_env t) = me_listen_session_count (s_env s)"

interpretation listen_step: stepwise "listen_step l" for l
  by unfold_locales (auto simp: listen_step_def intro: rest_kept.refl rest_kept.trans older_kept.refl older_kept.trans)

lemma listen_step_same: "s_env t = s_env s \<Longrightarrow> listen_step l s t"
  by (simp add: listen_step_def rest_kept_def older_kept_def)

lemma listen_step_call: "call_ok f s = Some (n, t) \<Longrightarrow> listen_step l s t"
  by (auto dest!: call_ok_state intro: listen_step_same)

lemma listen_step_upd: "listen_step l s (upd_worker (upd_listen l g) s)"
  by (auto simp: listen_step_def rest_kept_def older_kept_def beside_sites_def all_idle_def upd_listen_def)

text \<open>The new host of the website; the listener is already there.\<close>

lemma add_website_result:
  assumes "add_website os l conf s = Some (0, t)" "cstr_site conf" "l < me_next_listen (s_env s)" "table_ok (s_env s) l"
  shows "listen_step l s t \<and> table_ok (s_env t) l \<and> ls_ssl_ctx (listens (worker_of t) l) = ls_ssl_ctx (listens (worker_of s) l)
     \<and> (\<forall>d h. host_at (worker_of s) l d = Some (Some h) \<longrightarrow> host_at (worker_of t) l d = Some (Some h))
     \<and> (wc_wwwroot conf \<noteq> [] \<longrightarrow> (\<exists>h. host_at (worker_of t) l (take 256 (wc_domain conf)) = Some (Some h) \<and> in_place (s_env t) conf h))"
proof (cases "wc_wwwroot conf = []")
  case True
  then show ?thesis using assms by (simp add: add_website_def listen_step.refl)
next
  case False
  define h where "h = me_next_host (s_env s)"
  obtain u0 where u0: "call_ok (so_malloc os) s = Some (0, u0)" and k:
    "(let h = me_next_host (s_env u0); s = upd_worker (upd_host h (\<lambda>_. blank_host conf)) (upd_env (\<lambda>me. me\<lparr>me_next_host := h + 1\<rparr>) u0) in
      then_ok (setup_host os h conf s) (register_host l h)) = Some (0, t)"
    using assms(1) unfolding add_website_setup [OF False] by (auto simp: then_ok_0)
  have e0: "s_env u0 = s_env s" using u0 by (rule call_ok_0)
  define u where "u = upd_worker (upd_host h (\<lambda>_. blank_host conf)) (upd_env (\<lambda>me. me\<lparr>me_next_host := h + 1\<rparr>) u0)"
  obtain v where v: "setup_host os h conf u = Some (0, v)" "register_host l h v = Some (0, t)"
    using k unfolding e0 h_def [symmetric] Let_def u_def [symmetric] by (auto simp: then_ok_0)
  have su: "older_kept {l} {} s u" "rest_kept s u" "listens (worker_of u) = listens (worker_of s)" "me_next_host (s_env u) = h + 1"
    "me_next_listen (s_env u) = me_next_listen (s_env s)" "me_listen_session_list (s_env u) = me_listen_session_list (s_env s)
       \<and> me_listen_session_count (s_env u) = me_listen_session_count (s_env s)"
    "hosts (worker_of u) h = blank_host conf" "\<forall>a < h. hosts (worker_of u) a = hosts (worker_of s) a"
    by (auto simp: u_def e0 h_def older_kept_def rest_kept_def beside_sites_def all_idle_def upd_host_def)
  have sv: "host_step h u v" using v(1) by (rule setup_host_step)
  have conf: "as_configured (worker_of v) conf h" "below (s_env v) h" using setup_host_result [OF v(1) su(7) assms(2)] by simp_all
  have hv: "\<forall>a < h. hosts (worker_of v) a = hosts (worker_of s) a" using sv su(4,8) by (auto simp: host_step_def older_kept_def)
  have tv: "table_ok (s_env v) l" "host_at (worker_of v) l = host_at (worker_of s) l"
    using table_kept [OF assms(4), of v] hv su(3,4) sv unfolding h_def host_step_def by auto
  have d: "domain (hosts (worker_of v) h) = take 256 (wc_domain conf)" using conf(1) by (simp add: as_configured_def Let_def)
  have "is_cstr (domain (hosts (worker_of v) h))" using assms(2) take_cstr by (simp add: d cstr_site_def)
  moreover have "h < me_next_host (s_env v)" using sv su(4) by (simp add: host_step_def)
  ultimately have r: "table_ok (s_env t) l" "host_at (worker_of t) l = (host_at (worker_of v) l)(take 256 (wc_domain conf) := Some (Some h))"
    "host_at (worker_of v) l (take 256 (wc_domain conf)) = Some None"
    "\<forall>k. k \<noteq> l \<longrightarrow> listens (worker_of t) k = listens (worker_of v) k" "hosts (worker_of t) = hosts (worker_of v)"
    "servers (worker_of t) = servers (worker_of v)" "me_next_server (s_env t) = me_next_server (s_env v)"
    using register_host_result [OF v(2) tv(1)] unfolding d by auto
  obtain g1 g2 where t: "t = upd_worker (upd_listen l g2) (upd_worker (upd_listen l g1) v)"
    and ssl: "ls_ssl_ctx (listens (worker_of t) l) = ls_ssl_ctx (listens (worker_of v) l)"
  proof -
    obtain n ls where p: "PushVirtualHostHashNode (hosts (worker_of v)) (listens (worker_of v) l) h = Some (n, ls)"
      using v(2) by (cases "PushVirtualHostHashNode (hosts (worker_of v)) (listens (worker_of v) l) h") (auto simp: register_host_def)
    have "ls_ssl_ctx ls = ls_ssl_ctx (listens (worker_of v) l)" using p by (auto simp: PushVirtualHostHashNode_def)
    moreover have "t = upd_worker (upd_listen l (\<lambda>ls. if domain (hosts (worker_of v) h) = [] \<and> p_virtual_host_default ls = None
        then ls\<lparr>p_virtual_host_default := Some h\<rparr> else ls)) (upd_worker (upd_listen l (\<lambda>_. ls)) v)"
      using v(2) p by (auto simp: register_host_def Let_def split: if_splits)
    ultimately show thesis by (intro that) simp_all
  qed
  have vt: "listen_step l v t" unfolding t by (rule listen_step.trans [OF listen_step_upd listen_step_upd])
  have sv': "older_kept {l} {} s v"
    using su(1) sv su(4) unfolding host_step_def older_kept_def h_def by fastforce
  have "listen_step l s v"
    using sv' rest_kept.trans [OF su(2)] sv su(5,6) by (auto simp: listen_step_def host_step_def)
  then have "listen_step l s t" using vt by (rule listen_step.trans)
  moreover have "in_place (s_env t) conf h"
    using conf \<open>h < me_next_host (s_env v)\<close> r(5-7) servers_ready_kept(1,2) [of "worker_of v" h "worker_of t"] vt
    unfolding in_place_def as_configured_def Let_def below_def listen_step_def older_kept_def by auto
  moreover have "ls_ssl_ctx (listens (worker_of v) l) = ls_ssl_ctx (listens (worker_of s) l)" using sv su(3) by (simp add: host_step_def)
  ultimately show ?thesis using r(1-3) ssl unfolding tv(2) by auto
qed

lemma add_websites_result:
  assumes "start_all (add_website os l) confs s = Some (0, t)" "\<forall>conf \<in> set confs. cstr_site conf"
    and "l < me_next_listen (s_env s)" "table_ok (s_env s) l"
  shows "listen_step l s t \<and> ls_ssl_ctx (listens (worker_of t) l) = ls_ssl_ctx (listens (worker_of s) l) \<and> table_ok (s_env t) l
     \<and> (\<forall>d h. host_at (worker_of s) l d = Some (Some h) \<longrightarrow> host_at (worker_of t) l d = Some (Some h))
     \<and> (\<forall>conf \<in> set confs. wc_wwwroot conf \<noteq> [] \<longrightarrow>
          (\<exists>h. host_at (worker_of t) l (take 256 (wc_domain conf)) = Some (Some h) \<and> in_place (s_env t) conf h))"
  using assms
proof (induction confs arbitrary: s)
  case (Cons c confs)
  obtain u where u: "add_website os l c s = Some (0, u)" "start_all (add_website os l) confs u = Some (0, t)"
    using Cons.prems(1) by (auto simp: then_ok_0)
  have c: "cstr_site c" "\<forall>conf \<in> set confs. cstr_site conf" using Cons.prems(2) by simp_all
  note 1 = add_website_result [OF u(1) c(1) Cons.prems(3,4)]
  have "l < me_next_listen (s_env u)" "table_ok (s_env u) l" using 1 Cons.prems(3) by (simp_all add: listen_step_def)
  note 2 = Cons.IH [OF u(2) c(2) this]
  have "\<exists>h. host_at (worker_of t) l (take 256 (wc_domain c)) = Some (Some h) \<and> in_place (s_env t) c h" if w: "wc_wwwroot c \<noteq> []"
  proof -
    obtain h where "host_at (worker_of u) l (take 256 (wc_domain c)) = Some (Some h)" "in_place (s_env u) c h" using 1 w by blast
    then show ?thesis using 2 in_place_kept unfolding listen_step_def by blast
  qed
  then show ?case using 1 2 listen_step.trans by auto
qed (simp add: listen_step.refl)


section \<open>Listeners\<close>

definition sites_found :: "main_env \<Rightarrow> website_conf list \<Rightarrow> nat \<Rightarrow> bool" where
  "sites_found me confs l \<longleftrightarrow> (\<forall>conf \<in> set confs. wc_wwwroot conf \<noteq> [] \<longrightarrow>
     (\<exists>h. host_at (me_worker me) l (take 256 (wc_domain conf)) = Some (Some h) \<and> in_place me conf h))"

lemma init_hosts_result:
  assumes "init_hosts os l confs s = Some (0, t)" "\<forall>conf \<in> set confs. cstr_site conf" "l < me_next_listen (s_env s)"
  shows "listen_step l s t \<and> ls_ssl_ctx (listens (worker_of t) l) = ls_ssl_ctx (listens (worker_of s) l)
     \<and> (confs \<noteq> [] \<longrightarrow> table_ok (s_env t) l) \<and> sites_found (s_env t) confs l"
proof -
  obtain ok w where w: "so_malloc os (s_world s) = (ok, w)" by fastforce
  obtain n ls where i: "InitVirtualHostHash ok (listens (worker_of s) l) (int (length confs)) = Some (n, ls)"
    using assms(1) w by (cases "InitVirtualHostHash ok (listens (worker_of s) l) (int (length confs))") (auto simp: init_hosts_def)
  let ?u = "upd_worker (upd_listen l (\<lambda>_. ls)) (s\<lparr>s_world := w\<rparr>)"
  have k: "n = 0" "start_all (add_website os l) confs ?u = Some (0, t)"
    using assms(1) w i by (auto simp: init_hosts_def Let_def split: if_splits)
  have su: "listen_step l s ?u" by (rule listen_step.trans [OF listen_step_same listen_step_upd]) simp
  have ssl: "ls_ssl_ctx (listens (worker_of ?u) l) = ls_ssl_ctx (listens (worker_of s) l)"
    using i by (auto simp: InitVirtualHostHash_def)
  show ?thesis
  proof (cases "confs = []")
    case True
    then show ?thesis using k su ssl by (simp add: sites_found_def)
  next
    case False
    obtain hash where hash: "init_hash True (int (length confs) * 2) = Some (0, hash)" "virtual_host_hash ls = hash"
      using i k(1) by (auto simp: InitVirtualHostHash_def init_hash_def split: if_splits)
    have "0 < int (length confs) * 2" using False by simp
    from init_hash_ok [OF this hash(1)]
    have "chains_ok (\<lambda>a. domain (hosts (worker_of ?u) a)) hash" by simp
    moreover have "set (concat hash) = {}" using hash(1) by (auto simp: init_hash_def)
    ultimately have tu: "table_ok (s_env ?u) l" using hash(2) by (auto simp: table_ok_def members_def)
    have "l < me_next_listen (s_env ?u)" using assms(3) by simp
    from add_websites_result [OF k(2) assms(2) this tu] show ?thesis
      using listen_step.trans [OF su] ssl unfolding sites_found_def by auto
  qed
qed

lemma open_listener_result:
  assumes "open_listener os l conf s = Some (0, t)"
  shows "\<exists>u g. listen_step l s u \<and> s_env t = (s_env u)\<lparr>me_listen_session_count := me_listen_session_count (s_env u) + 1\<rparr>
     \<and> listens (worker_of u) l = (listens (worker_of s) l)\<lparr>ls_netaddr := g\<rparr>"
proof -
  let ?set = "\<lambda>g. upd_worker (upd_listen l (\<lambda>ls. ls\<lparr>ls_netaddr := g\<rparr>))"
  obtain u where u: "(case GetListener (s_old s) (lc_ip conf) (lc_port conf) of
        Some (na, old) \<Rightarrow> Some (0, ?set na (s\<lparr>s_old := Some old\<rparr>)) | None \<Rightarrow> new_socket os l conf s) = Some (0, u)"
    "t = upd_env (\<lambda>me. me\<lparr>me_listen_session_count := me_listen_session_count me + 1\<rparr>) u"
    using assms unfolding open_listener_def then_ok_0 by blast
  have "\<exists>g. s_env u = s_env (?set g s)"
  proof (cases "GetListener (s_old s) (lc_ip conf) (lc_port conf)")
    case None
    then show ?thesis
      using u(1) by (auto simp: new_socket_def Let_def then_ok_0 split: prod.splits if_splits dest!: call_ok_0)
  next
    case (Some r)
    then show ?thesis using u(1) by (cases r) auto
  qed
  then obtain g where g: "s_env u = s_env (?set g s)" by blast
  have "listen_step l s u" by (rule listen_step.trans [OF listen_step_upd listen_step_same]) (rule g)
  then show ?thesis using g u(2) by (intro exI [of _ u] exI [of _ g]) simp
qed

lemma listen_ssl_result:
  assumes "ssl_context os cert key (upd_listen l (\<lambda>ls. ls\<lparr>ls_ssl_ctx := True\<rparr>)) s = Some (0, t)" "\<not> ls_ssl_ctx (listens (worker_of s) l)"
  shows "listen_step l s t \<and> ls_ssl_ctx (listens (worker_of t) l) = (cert \<noteq> [])"
proof (cases "cert = []")
  case False
  then obtain u where u: "call_ok (so_ssl_ctx_new os) (upd_env (\<lambda>me. me\<lparr>me_init_ssl_env_flag := True\<rparr>) s) = Some (0, u)"
    "t = upd_worker (upd_listen l (\<lambda>ls. ls\<lparr>ls_ssl_ctx := True\<rparr>)) u"
    using assms(1) by (auto simp: ssl_context_def Let_def then_ok_0 split: if_splits option.splits)
  have "listen_step l s u" using call_ok_0 [OF u(1)] by (simp add: listen_step_def rest_kept_def older_kept_def)
  then have "listen_step l s t" unfolding u(2) using listen_step_upd by (rule listen_step.trans)
  then show ?thesis using False by (simp add: u(2))
qed (use assms in \<open>simp add: ssl_context_def listen_step.refl\<close>)

definition listener_done :: "main_env \<Rightarrow> listen_conf \<Rightarrow> nat \<Rightarrow> bool" where
  "listener_done me conf l \<longleftrightarrow> l < me_next_listen me \<and> ls_ssl_ctx (listens (me_worker me) l) = (lc_certificate_file conf \<noteq> [])
     \<and> (lc_websites conf \<noteq> [] \<longrightarrow> table_ok me l) \<and> sites_found me (lc_websites conf) l"

lemma listener_done_kept:
  assumes "listener_done (s_env s) conf l" "older_kept {} {} s t" shows "listener_done (s_env t) conf l"
proof -
  have l: "listens (worker_of t) l = listens (worker_of s) l" "l < me_next_listen (s_env t)"
    using assms unfolding listener_done_def older_kept_def by auto
  have h: "\<forall>a < me_next_host (s_env s). hosts (worker_of t) a = hosts (worker_of s) a" "me_next_host (s_env s) \<le> me_next_host (s_env t)"
    using assms(2) by (simp_all add: older_kept_def)
  show ?thesis
  proof (cases "lc_websites conf = []")
    case True
    then show ?thesis using assms(1) l by (simp add: listener_done_def sites_found_def)
  next
    case False
    then have "table_ok (s_env s) l" using assms(1) by (simp add: listener_done_def)
    from table_kept [OF this l(1) h] show ?thesis
      using assms(1) l False in_place_kept [OF _ assms(2)] unfolding listener_done_def sites_found_def by auto
  qed
qed

lemma add_listener_result:
  assumes "add_listener os conf s = Some (0, t)" "\<forall>ws \<in> set (lc_websites conf). cstr_site ws"
  shows "\<exists>l. listener_done (s_env t) conf l \<and> older_kept {} {} s t \<and> rest_kept s t
     \<and> me_listen_session_list (s_env t) = l # me_listen_session_list (s_env s)
     \<and> me_listen_session_count (s_env t) = me_listen_session_count (s_env s) + 1"
proof -
  define l where "l = me_next_listen (s_env s)"
  define new where "new = (\<lambda>s :: 'a start. upd_worker (upd_listen l (\<lambda>_. zero_listen))
     (upd_env (\<lambda>me. me\<lparr>me_next_listen := l + 1, me_listen_session_list := l # me_listen_session_list me\<rparr>) s))"
  obtain u0 where u0: "call_ok (so_malloc os) s = Some (0, u0)" and k: "(let l = me_next_listen (s_env u0);
       s = upd_env (\<lambda>me. me\<lparr>me_next_listen := l + 1, me_listen_session_list := l # me_listen_session_list me\<rparr>) u0;
       s = upd_worker (upd_listen l (\<lambda>_. zero_listen)) s in
       then_ok (open_listener os l conf s) (\<lambda>s.
       then_ok (ssl_context os (lc_certificate_file conf) (Some (lc_certificate_key_file conf))
                  (upd_listen l (\<lambda>ls. ls\<lparr>ls_ssl_ctx := True\<rparr>)) s) (init_hosts os l (lc_websites conf)))) = Some (0, t)"
    using assms(1) unfolding add_listener_def then_ok_0 by blast
  have e: "s_env u0 = s_env s" using u0 by (rule call_ok_0)
  obtain u1 u2 where u: "open_listener os l conf (new u0) = Some (0, u1)"
    "ssl_context os (lc_certificate_file conf) (Some (lc_certificate_key_file conf)) (upd_listen l (\<lambda>ls. ls\<lparr>ls_ssl_ctx := True\<rparr>)) u1 = Some (0, u2)"
    "init_hosts os l (lc_websites conf) u2 = Some (0, t)"
    using k unfolding Let_def e l_def [symmetric] new_def then_ok_0 by blast
  obtain v g where v: "listen_step l (new u0) v" "s_env u1 = (s_env v)\<lparr>me_listen_session_count := me_listen_session_count (s_env v) + 1\<rparr>"
    "listens (worker_of v) l = (listens (worker_of (new u0)) l)\<lparr>ls_netaddr := g\<rparr>"
    using open_listener_result [OF u(1)] by blast
  have "\<not> ls_ssl_ctx (listens (worker_of u1) l)" using v(2,3) by (simp add: new_def zero_listen_def)
  note ssl = listen_ssl_result [OF u(2) this]
  have n: "me_next_listen (s_env (new u0)) = l + 1" "me_listen_session_list (s_env (new u0)) = l # me_listen_session_list (s_env s)"
    "me_listen_session_count (s_env (new u0)) = me_listen_session_count (s_env s)"
    by (simp_all add: new_def e)
  have l2: "l < me_next_listen (s_env u2)" using ssl v(1,2) n(1) by (simp add: listen_step_def)
  note hosts = init_hosts_result [OF u(3) assms(2) l2]
  have s0: "older_kept {l} {} s (new u0)" "rest_kept s (new u0)"
    by (auto simp: new_def e l_def older_kept_def rest_kept_def beside_sites_def all_idle_def upd_listen_def)
  have v1: "older_kept {l} {} v u1" "rest_kept v u1" using v(2) by (simp_all add: older_kept_def rest_kept_def)
  have ut: "listen_step l u1 t" using ssl hosts listen_step.trans by blast
  have "older_kept {l} {} s t"
    using older_kept.trans [OF older_kept.trans [OF older_kept.trans [OF s0(1)] v1(1)]] v(1) ut unfolding listen_step_def by simp
  moreover have "rest_kept s t"
    using rest_kept.trans [OF rest_kept.trans [OF rest_kept.trans [OF s0(2)] v1(2)]] v(1) ut unfolding listen_step_def by simp
  moreover from calculation have "older_kept {} {} s t" unfolding older_kept_def l_def by auto
  moreover have "me_listen_session_list (s_env t) = l # me_listen_session_list (s_env s)"
    "me_listen_session_count (s_env t) = me_listen_session_count (s_env s) + 1"
    using hosts ssl v(1,2) n(2,3) by (simp_all add: listen_step_def)
  moreover have "listener_done (s_env t) conf l"
    using hosts ssl l2 by (simp add: listener_done_def listen_step_def)
  ultimately show ?thesis by blast
qed

text \<open>All of them; the list of listeners has the last one in front.\<close>

lemma listeners_done:
  assumes "InitListenEnvirment os conf s = Some (0, t)" "\<forall>l \<in> set (cf_listens conf). \<forall>ws \<in> set (lc_websites l). cstr_site ws"
  shows "\<exists>ls. list_all2 (listener_done (s_env t)) (cf_listens conf) ls
     \<and> me_listen_session_list (s_env t) = rev ls @ me_listen_session_list (s_env s)
     \<and> me_listen_session_count (s_env t) = me_listen_session_count (s_env s) + int (length (cf_listens conf))
     \<and> older_kept {} {} s t \<and> rest_kept s t"
proof -
  have "start_all (add_listener os) confs s = Some (0, t) \<Longrightarrow> \<forall>l \<in> set confs. \<forall>ws \<in> set (lc_websites l). cstr_site ws \<Longrightarrow>
      \<exists>ls. list_all2 (listener_done (s_env t)) confs ls \<and> me_listen_session_list (s_env t) = rev ls @ me_listen_session_list (s_env s)
     \<and> me_listen_session_count (s_env t) = me_listen_session_count (s_env s) + int (length confs) \<and> older_kept {} {} s t \<and> rest_kept s t"
    for confs
  proof (induction confs arbitrary: s)
    case (Cons c confs)
    obtain u where u: "add_listener os c s = Some (0, u)" "start_all (add_listener os) confs u = Some (0, t)"
      using Cons.prems(1) by (auto simp: then_ok_0)
    obtain l where 1: "listener_done (s_env u) c l" "older_kept {} {} s u" "rest_kept s u"
      "me_listen_session_list (s_env u) = l # me_listen_session_list (s_env s)"
      "me_listen_session_count (s_env u) = me_listen_session_count (s_env s) + 1"
      using add_listener_result [OF u(1)] Cons.prems(2) by auto
    obtain ls where 2: "list_all2 (listener_done (s_env t)) confs ls" "older_kept {} {} u t" "rest_kept u t"
      "me_listen_session_list (s_env t) = rev ls @ me_listen_session_list (s_env u)"
      "me_listen_session_count (s_env t) = me_listen_session_count (s_env u) + int (length confs)"
      using Cons.IH [OF u(2)] Cons.prems(2) by auto
    have "listener_done (s_env t) c l" using 1(1) 2(2) by (rule listener_done_kept)
    then show ?case using 1 2 older_kept.trans rest_kept.trans by (intro exI [of _ "l # ls"]) auto
  qed (auto simp: older_kept.refl rest_kept.refl)
  from this [of "cf_listens conf"] show ?thesis using assms by (simp add: InitListenEnvirment_def)
qed

end
