(* ===== verification/HetaoConfigCorrect.thy ===== *)
theory HetaoConfigCorrect
  imports HetaoConfig
begin

text \<open>
  Theorems on the configuration: what the expansion of environment variables gives, when it does not end and when it
  writes beyond its buffer; what is left of include directives; what holds of a configuration that was accepted.
\<close>

section \<open>Environment variables\<close>

abbreviation DOLLAR :: char where "DOLLAR \<equiv> CHR ''$''"

text \<open>\<open>t\<close> is \<open>s\<close> with its variables replaced, and \<open>k\<close> the sum of what the replacements add to the length, where
  they add something.  The values have no variables in them.\<close>

inductive expands :: "(bytes \<Rightarrow> bytes option) \<Rightarrow> bytes \<Rightarrow> bytes \<Rightarrow> int \<Rightarrow> bool" for env where
  no_variable: "length (filter (\<lambda>c. c = DOLLAR) s) \<le> 1 \<Longrightarrow> expands env s s 0"
| variable: "DOLLAR \<notin> set a \<Longrightarrow> DOLLAR \<notin> set n \<Longrightarrow> env n = Some v \<Longrightarrow> DOLLAR \<notin> set v \<Longrightarrow> expands env s t k
    \<Longrightarrow> expands env (a @ DOLLAR # n @ DOLLAR # s) (a @ v @ t) (max 0 (int (length v) - int (length n) - 2) + k)"

lemma expands_growth: "expands env s t k \<Longrightarrow> 0 \<le> k"
  by (induction rule: expands.induct) auto

lemma strchr_from_found: "c \<notin> set a \<Longrightarrow> strchr_from (p @ a @ c # r) (length p) c = Some (length p + length a)"
proof -
  assume "c \<notin> set a"
  then have "takeWhile (\<lambda>d. d \<noteq> c) (a @ c # r) = a" by (subst takeWhile_append2) auto
  then show ?thesis by (simp add: strchr_from_def)
qed

lemma strchr_from_none: "c \<notin> set (drop p s) \<Longrightarrow> strchr_from s p c = None"
  by (simp add: strchr_from_def)

lemma strchr_from_skip: "c \<notin> set v \<Longrightarrow> strchr_from (p @ v @ s) (length p) c = strchr_from (p @ v @ s) (length p + length v) c"
proof -
  assume "c \<notin> set v"
  moreover from this have "takeWhile (\<lambda>d. d \<noteq> c) (v @ s) = v @ takeWhile (\<lambda>d. d \<noteq> c) s" by (subst takeWhile_append2) auto
  ultimately show ?thesis by (simp add: strchr_from_def)
qed

lemma expand_loop_skip:
  assumes "DOLLAR \<notin> set v"
  shows "expand_loop os cap tlen (p @ v @ s) (length p) = expand_loop os cap tlen (p @ v @ s) (length p + length v)"
  by (subst (1 2) expand_loop.simps) (simp only: strchr_from_skip [OF assms])

lemma expand_loop_step:
  assumes "DOLLAR \<notin> set a" "DOLLAR \<notin> set n" "co_getenv os n = Some v" "co_alloc os"
    "tlen + (int (length v) - int (length n) - 2) < cap" "int (length (p @ a @ v @ s)) < cap"
  shows "expand_loop os cap tlen (p @ a @ DOLLAR # n @ DOLLAR # s) (length p)
    = expand_loop os cap tlen (p @ a @ v @ s) (length p + length a)"
proof -
  let ?b = "p @ a @ DOLLAR # n @ DOLLAR # s" and ?p1 = "length p + length a"
  have 1: "strchr_from ?b (length p) DOLLAR = Some ?p1" using assms(1) by (rule strchr_from_found)
  have 2: "strchr_from ?b (?p1 + 1) DOLLAR = Some (?p1 + 1 + length n)"
    using strchr_from_found [OF assms(2), of "p @ a @ [DOLLAR]" s] by simp
  have 3: "slice (?p1 + 1) (?p1 + 1 + length n - ?p1 - 1) ?b = n" "take ?p1 ?b = p @ a" "drop (?p1 + 1 + length n + 1) ?b = s"
    by (simp_all add: slice_def)
  show ?thesis
    by (subst expand_loop.simps) (use 1 2 3 assms(3-6) in \<open>simp add: algebra_simps\<close>)
qed

lemma expand_loop_expands:
  assumes "expands (co_getenv os) s t k" "co_alloc os" "tlen + k < cap" "int (length (p @ s)) + k < cap"
  shows "expand_loop os cap tlen (p @ s) (length p) = Some (Expanded 0 (p @ t))"
  using assms
proof (induction arbitrary: p rule: expands.induct)
  case (no_variable s)
  have "expand_loop os cap tlen (p @ s) (length p) = Some (Expanded 0 (p @ s))"
  proof (cases "DOLLAR \<in> set s")
    case True
    then obtain a r where s: "s = a @ DOLLAR # r" "DOLLAR \<notin> set a" by (meson split_list_first)
    then have "DOLLAR \<notin> set r" using no_variable(1) by (auto simp: filter_empty_conv)
    then show ?thesis
      by (subst expand_loop.simps) (simp add: s(1) strchr_from_found [OF s(2)] strchr_from_none)
  qed (subst expand_loop.simps, simp add: strchr_from_none)
  then show ?case by simp
next
  case (variable a n v s t k)
  have k: "0 \<le> k" using variable(5) by (rule expands_growth)
  have "expand_loop os cap tlen (p @ a @ DOLLAR # n @ DOLLAR # s) (length p)
      = expand_loop os cap tlen ((p @ a) @ v @ s) (length (p @ a))"
    using expand_loop_step [OF variable(1-3,7), of tlen cap p s] variable(8,9) k by simp
  also have "\<dots> = expand_loop os cap tlen ((p @ a @ v) @ s) (length (p @ a @ v))"
    using expand_loop_skip [OF variable(4), of os cap tlen "p @ a" s] by (simp add: add.assoc)
  also have "\<dots> = Some (Expanded 0 ((p @ a @ v) @ t))"
    by (rule variable.IH) (use variable(7-9) in simp_all)
  finally show ?case by simp
qed

lemma expansion_correct:
  assumes "expands (co_getenv os) s t k" "co_alloc os" "int (length s) + k < cap"
  shows "StringExpandEnvval os s cap = Some (Expanded 0 t)"
  using expand_loop_expands [OF assms(1,2), of "int (length s)" cap "[]"] assms(3) by (simp add: StringExpandEnvval_def)

text \<open>The length that is checked is that of the original text: two values that fit one at a time are written
  both, beyond the end of the buffer.\<close>

lemma two_variables_overrun:
  assumes "DOLLAR \<notin> set n" "co_getenv os n = Some v" "DOLLAR \<notin> set v" "co_alloc os"
    "int (length v) + int (length n) + 2 < cap" "cap \<le> 2 * int (length v)"
  shows "StringExpandEnvval os (DOLLAR # n @ DOLLAR # DOLLAR # n @ [DOLLAR]) cap = Some Overrun"
proof -
  let ?tlen = "int (2 * length n + 4)" and ?b = "v @ DOLLAR # n @ [DOLLAR]"
  have "expand_loop os cap ?tlen (DOLLAR # n @ DOLLAR # DOLLAR # n @ [DOLLAR]) 0
      = expand_loop os cap ?tlen ?b 0"
    using expand_loop_step [of "[]" n os v ?tlen cap "[]" "DOLLAR # n @ [DOLLAR]"] assms by simp
  also have "\<dots> = expand_loop os cap ?tlen ?b (length v)"
    using expand_loop_skip [OF assms(3), of os cap ?tlen "[]"] by simp
  also have "\<dots> = Some Overrun"
  proof -
    have 1: "strchr_from ?b (length v) DOLLAR = Some (length v)" "strchr_from ?b (Suc (length v)) DOLLAR = Some (Suc (length v) + length n)"
      using strchr_from_found [of DOLLAR "[]" v "n @ [DOLLAR]"] strchr_from_found [OF assms(1), of "v @ [DOLLAR]" "[]"] by simp_all
    have 2: "slice (Suc (length v)) (length n) ?b = n" by (simp add: slice_def)
    show ?thesis by (subst expand_loop.simps) (use 1 2 assms in simp)
  qed
  finally show ?thesis by (simp add: StringExpandEnvval_def add.commute)
qed

text \<open>A variable that stands for itself is replaced for ever.\<close>

lemma self_reference_never_ends:
  assumes "DOLLAR \<notin> set n" "co_getenv os n = Some (DOLLAR # n @ [DOLLAR])" "co_alloc os" "int (length n) + 2 < cap"
  shows "StringExpandEnvval os (DOLLAR # n @ [DOLLAR]) cap = None"
proof (rule ccontr)
  let ?b = "DOLLAR # n @ [DOLLAR]" and ?l = "int (length n) + 2"
  assume "StringExpandEnvval os ?b cap \<noteq> None"
  then obtain r where r: "expand_loop os cap ?l ?b 0 = Some r" by (auto simp: StringExpandEnvval_def add.commute)
  have 1: "strchr_from ?b 0 DOLLAR = Some 0" "strchr_from ?b (Suc 0) DOLLAR = Some (Suc (length n))"
    using strchr_from_found [of DOLLAR "[]" "[]" "n @ [DOLLAR]"] strchr_from_found [OF assms(1), of "[DOLLAR]" "[]"] by simp_all
  have 2: "slice (Suc 0) (length n) ?b = n" by (simp add: slice_def)
  have "os = os \<longrightarrow> cap = cap \<longrightarrow> ?l = ?l \<longrightarrow> ?b = ?b \<longrightarrow> (0::nat) = 0 \<longrightarrow> False"
  proof (rule expand_loop.raw_induct [of "\<lambda>os' cap' tlen buf p r. os' = os \<longrightarrow> cap' = cap \<longrightarrow> tlen = ?l \<longrightarrow> buf = ?b \<longrightarrow> p = 0 \<longrightarrow> False", OF _ r],
      intro impI)
    fix rec :: "config_os \<Rightarrow> int \<Rightarrow> int \<Rightarrow> bytes \<Rightarrow> nat \<Rightarrow> expansion option" and os' cap' tlen buf p1 res
    assume IH: "\<And>os' cap' tlen buf p r. rec os' cap' tlen buf p = Some r \<Longrightarrow>
        os' = os \<longrightarrow> cap' = cap \<longrightarrow> tlen = ?l \<longrightarrow> buf = ?b \<longrightarrow> p = 0 \<longrightarrow> False"
      and step: "(case strchr_from buf p1 DOLLAR of None \<Rightarrow> Some (Expanded 0 buf)
        | Some p1 \<Rightarrow> (case strchr_from buf (p1 + 1) DOLLAR of None \<Rightarrow> Some (Expanded 0 buf)
           | Some p2 \<Rightarrow>
               if \<not> co_alloc os' then Some (Expanded (- 1) buf)
               else (case co_getenv os' (slice (p1 + 1) (p2 - p1 - 1) buf) of
                       None \<Rightarrow> Some (Expanded (- 1) buf)
                     | Some v \<Rightarrow>
                         if tlen + (int (length v) - (int p2 - int p1 + 1)) > cap' - 1 then Some (Expanded (- 1) buf)
                         else if int (p1 + length v + length (drop (p2 + 1) buf) + 1) > cap' then Some Overrun
                         else rec os' cap' tlen (take p1 buf @ v @ drop (p2 + 1) buf) p1))) = Some res"
      and eqs: "os' = os" "cap' = cap" "tlen = ?l" "buf = ?b" "p1 = 0"
    have "rec os cap ?l ?b 0 = Some res"
      using step assms(2-4) by (simp add: eqs 1 2)
    then show False using IH by blast
  qed
  then show False by simp
qed

section \<open>Included files\<close>

lemma length_cstr_le: "length (cstr s) \<le> length s"
  by (simp add: cstr_def length_takeWhile_le)

lemma find_text_bound: "find_text f pat s = Some i \<Longrightarrow> i + length pat \<le> length s"
proof (induction s arbitrary: i)
  case (Cons c cs)
  have "length (take (length pat) (cstr (c # cs))) \<le> length (cstr (c # cs))" "length (cstr (c # cs)) \<le> length (c # cs)"
    by simp (rule length_cstr_le)
  then have "map f (take (length pat) (cstr (c # cs))) = map f pat \<Longrightarrow> length pat \<le> length (c # cs)"
    by (metis length_map le_trans)
  then show ?case using Cons by (auto split: if_splits)
qed (auto split: if_splits)

lemma strchr_from_bound: "strchr_from s p c = Some q \<Longrightarrow> p \<le> q \<and> q < length s"
proof -
  assume a: "strchr_from s p c = Some q"
  then have c: "c \<in> set (drop p s)" and q: "q = p + length (takeWhile (\<lambda>d. d \<noteq> c) (drop p s))"
    by (auto simp: strchr_from_def split: if_splits)
  from c obtain a r where s: "drop p s = a @ c # r" "c \<notin> set a" by (meson split_list_first)
  then have "takeWhile (\<lambda>d. d \<noteq> c) (drop p s) = a" by (simp only: s(1)) (subst takeWhile_append2, auto)
  then have "p + length a < length s" using arg_cong [OF s(1), of length] by simp
  then show ?thesis using q \<open>takeWhile (\<lambda>d. d \<noteq> c) (drop p s) = a\<close> by simp
qed

lemma directive_bound: "next_directive buf = Directive offset len name \<Longrightarrow> offset + len \<le> length buf"
proof -
  assume d: "next_directive buf = Directive offset len name"
  then obtain p1 where p1: "strstr_from buf 0 ''!include'' = Some p1" by (auto simp: next_directive_def split: option.splits)
  have b: "p1 + 8 \<le> length buf" using p1 find_text_bound by (fastforce simp: strstr_from_def)
  have "length (takeWhile (\<lambda>c. c = SP) (drop (p1 + 8) buf)) \<le> length (drop (p1 + 8) buf)" by (rule length_takeWhile_le)
  then have "p1 + 8 + length (takeWhile (\<lambda>c. c = SP) (drop (p1 + 8) buf)) \<le> length buf" using b by simp
  then show ?thesis
    using d p1 by (auto simp: next_directive_def Let_def split: option.splits if_splits dest!: strchr_from_bound)
qed

lemma length_one_line [simp]: "length (one_line s) = length s"
  by (simp add: one_line_def)

text \<open>Whatever the files contain: in a text that comes back no directive is left, and it is as long as its size says
  or shorter.\<close>

lemma include_loop_done:
  assumes "include_loop os dir buf n = Some (Some (s, m))" "int (length buf) \<le> n"
  shows "next_directive s = No_directive \<and> int (length s) \<le> m"
proof -
  have "int (length buf) \<le> n \<longrightarrow>
      (case Some (s, m) of None \<Rightarrow> True | Some (s, m) \<Rightarrow> next_directive s = No_directive \<and> int (length s) \<le> m)"
  proof (rule include_loop.raw_induct [of "\<lambda>os dir buf n r. int (length buf) \<le> n \<longrightarrow>
      (case r of None \<Rightarrow> True | Some (s, m) \<Rightarrow> next_directive s = No_directive \<and> int (length s) \<le> m)", OF _ assms(1)], intro impI)
    fix rec :: "config_os \<Rightarrow> bytes \<Rightarrow> bytes \<Rightarrow> int \<Rightarrow> (bytes \<times> int) option option" and os dir buf n r
    assume IH: "\<And>os dir buf n r. rec os dir buf n = Some r \<Longrightarrow> int (length buf) \<le> n \<longrightarrow>
        (case r of None \<Rightarrow> True | Some (s, m) \<Rightarrow> next_directive s = No_directive \<and> int (length s) \<le> m)"
      and step: "(case next_directive buf of No_directive \<Rightarrow> Some (Some (buf, n)) | Bad_directive \<Rightarrow> Some None
        | Directive offset len name \<Rightarrow>
          if length (dir @ name) > 256 then None else if \<not> co_alloc os then Some None
          else (case co_read os (dir @ name) of None \<Rightarrow> Some None
             | Some cs \<Rightarrow> if cs = [] then Some None
                 else do {
                   r \<leftarrow> rec os (include_base (dir @ name)) (cstr cs) (int (length cs));
                   (case r of None \<Rightarrow> Some None
                    | Some (s, isize) \<Rightarrow>
                        rec os dir (take offset buf @ one_line s @ (if int (length s) < isize then [] else drop (offset + len) buf))
                          (n + (isize - int len))) })) = Some r"
      and le: "int (length buf) \<le> n"
    show "case r of None \<Rightarrow> True | Some (s, m) \<Rightarrow> next_directive s = No_directive \<and> int (length s) \<le> m"
    proof (cases "next_directive buf")
      case (Directive offset len name)
      show ?thesis
      proof (cases r)
        case (Some sm)
        then obtain cs s isize where rec: "rec os (include_base (dir @ name)) (cstr cs) (int (length cs)) = Some (Some (s, isize))"
          and again: "rec os dir (take offset buf @ one_line s @ (if int (length s) < isize then [] else drop (offset + len) buf))
                        (n + (isize - int len)) = Some r"
          using step Directive by (auto split: if_splits option.splits bind_splits)
        have "length (cstr cs) \<le> length cs" by (rule length_cstr_le)
        then have "int (length s) \<le> isize" using IH [OF rec] by simp
        then have "int (length (take offset buf @ one_line s @ (if int (length s) < isize then [] else drop (offset + len) buf)))
            \<le> n + (isize - int len)"
          using directive_bound [OF Directive] le by auto
        then show ?thesis using IH [OF again] by simp
      qed simp
    qed (use step le in auto)
  qed
  then show ?thesis using assms(2) by simp
qed

lemma entire_file_expanded:
  assumes "StrdupEntireFile os path = Some (Some (s, n))"
  shows "next_directive s = No_directive \<and> int (length s) \<le> n"
proof -
  obtain cs where "include_loop os (include_base path) (cstr cs) (int (length cs)) = Some (Some (s, n))"
    using assms by (auto simp: StrdupEntireFile_def StringExpandIncludeFile_def split: option.splits if_splits)
  then show ?thesis using include_loop_done length_cstr_le [of cs] by fastforce
qed

text \<open>One directive: its place is taken by the lines of the file, joined with blanks.\<close>

lemma include_one:
  assumes "co_alloc os" "length (include_base path @ name) \<le> 256" "length path \<le> 256"
    "co_read os path = Some cs" "is_cstr cs" "next_directive cs = Directive offset len name"
    "co_read os (include_base path @ name) = Some ds" "is_cstr ds" "ds \<noteq> []" "next_directive ds = No_directive"
    "next_directive (take offset cs @ one_line ds @ drop (offset + len) cs) = No_directive"
  shows "StrdupEntireFile os path = Some (Some (take offset cs @ one_line ds @ drop (offset + len) cs,
     int (length (take offset cs @ one_line ds @ drop (offset + len) cs))))"
proof -
  let ?r = "take offset cs @ one_line ds @ drop (offset + len) cs"
  have b: "offset + len \<le> length cs" using assms(6) by (rule directive_bound)
  have "cs \<noteq> []" using assms(6) by (auto simp: next_directive_def strstr_from_def)
  then have "StrdupEntireFile os path = include_loop os (include_base path) cs (int (length cs))"
    using assms(1,3-5) by (simp add: StrdupEntireFile_def StringExpandIncludeFile_def)
  also have "\<dots> = include_loop os (include_base path) ?r (int (length cs) + (int (length ds) - int len))"
  proof -
    have "include_loop os (include_base (include_base path @ name)) ds (int (length ds)) = Some (Some (ds, int (length ds)))"
      by (subst include_loop.simps) (simp add: assms(10))
    then show ?thesis by (subst include_loop.simps) (use assms(1,2,6-9) in simp)
  qed
  also have "\<dots> = Some (Some (?r, int (length cs) + (int (length ds) - int len)))"
    by (subst include_loop.simps) (simp add: assms(11))
  also have "int (length cs) + (int (length ds) - int len) = int (length ?r)" using b by simp
  finally show ?thesis by simp
qed

section \<open>Default types\<close>

text \<open>The table that is built from the default types has every name of them, with the type of its entry.\<close>

definition default_confs :: "mime_type_conf list" where
  "default_confs = map (\<lambda>(t, m, c). \<lparr>mtc_type = t, mtc_mime = m, mtc_compress_enable = c\<rparr>) default_mime_types"

lemma default_names_distinct:
  "distinct (map mt_type (concat (map conf_types default_confs)))"
  "list_all (\<lambda>t. is_cstr (mt_type t)) (concat (map conf_types default_confs))"
  "list_all (\<lambda>(t, m, c). take 100 m = m) default_mime_types"
  by code_simp+

lemma map_of_keyed: "distinct (map key ts) \<Longrightarrow> t \<in> set ts \<Longrightarrow> map_of (map (\<lambda>t. (key t, t)) ts) (key t) = Some t"
  by (induction ts) (auto simp: rev_image_eqI)

lemma default_types_found:
  assumes "cf_mime_types conf = []"
  shows "\<exists>hash. InitMimeTypeHash True (cf_mime_types (AppendDefaultConfig conf)) = Some (0, hash)
    \<and> (\<forall>(t, m, c) \<in> set default_mime_types. \<forall>n \<in> set (split_names [SP, CR] t).
          QueryMimeTypeHashNode hash n = Some (Some \<lparr>mt_type = n, mt_mime = m, mt_compress_enable = c\<rparr>))"
proof -
  let ?ts = "concat (map conf_types default_confs)"
  have "default_confs \<noteq> []" by (simp add: default_confs_def default_mime_types_def)
  from InitMimeTypeHash_map [OF this default_names_distinct(1,2) [unfolded list_all_iff]]
  obtain hash where hash: "InitMimeTypeHash True default_confs = Some (0, hash)"
    "\<forall>s. QueryMimeTypeHashNode hash s = Some (map_of (map (\<lambda>t. (mt_type t, t)) ?ts) s)" by blast
  have "map_of (map (\<lambda>t. (mt_type t, t)) ?ts) n = Some \<lparr>mt_type = n, mt_mime = m, mt_compress_enable = c\<rparr>"
    if e: "(t, m, c) \<in> set default_mime_types" and n: "n \<in> set (split_names [SP, CR] t)" for t m c n
  proof -
    have "take 100 m = m" using default_names_distinct(3) e by (auto simp: list_all_iff)
    then have "\<lparr>mt_type = n, mt_mime = m, mt_compress_enable = c\<rparr>
        \<in> set (conf_types \<lparr>mtc_type = t, mtc_mime = m, mtc_compress_enable = c\<rparr>)"
      using n by (simp add: conf_types_def)
    moreover have "\<lparr>mtc_type = t, mtc_mime = m, mtc_compress_enable = c\<rparr> \<in> set default_confs"
      unfolding default_confs_def set_map using e by (rule rev_image_eqI) simp
    ultimately have "\<lparr>mt_type = n, mt_mime = m, mt_compress_enable = c\<rparr> \<in> set ?ts"
      unfolding set_concat set_map by (rule UN_I [OF imageI, rotated])
    from map_of_keyed [OF default_names_distinct(1) this] show ?thesis by (simp only: mime_type.select_convs)
  qed
  then have "\<forall>(t, m, c) \<in> set default_mime_types. \<forall>n \<in> set (split_names [SP, CR] t).
      QueryMimeTypeHashNode hash n = Some (Some \<lparr>mt_type = n, mt_mime = m, mt_compress_enable = c\<rparr>)"
    using hash(2) by (intro ballI) (clarsimp simp only: split_paired_all prod.case)
  moreover have "cf_mime_types (AppendDefaultConfig conf) = default_confs"
    using assms by (simp add: AppendDefaultConfig_def default_confs_def)
  ultimately show ?thesis using hash(1) by auto
qed

section \<open>Configurations that are accepted\<close>

definition file_valid :: "config_os \<Rightarrow> bytes \<Rightarrow> bool" where
  "file_valid os s \<longleftrightarrow> s = [] \<or> co_exists os s"

definition website_valid :: "config_os \<Rightarrow> website_conf \<Rightarrow> bool" where
  "website_valid os ws \<longleftrightarrow> co_stat os (wc_wwwroot ws) = Some True
     \<and> fc_rule (wc_forward ws) \<in> {[], ''R'', ''L''}
     \<and> (fc_rule (wc_forward ws) \<noteq> [] \<longrightarrow> file_valid os (fc_certificate_file (wc_forward ws)))"

definition listen_valid :: "config_os \<Rightarrow> listen_conf \<Rightarrow> bool" where
  "listen_valid os l \<longleftrightarrow> lc_websites l \<noteq> [] \<and> file_valid os (lc_certificate_file l)
     \<and> file_valid os (lc_certificate_key_file l) \<and> (\<forall>ws \<in> set (lc_websites l). website_valid os ws)"

lemma convert_all_valid:
  assumes "convert_all f xs = Some (0, ys)" "\<And>x y. f x = Some (0, y) \<Longrightarrow> P y"
  shows "length ys = length xs \<and> (\<forall>y \<in> set ys. P y)"
  using assms(1)
proof (induction xs arbitrary: ys)
  case (Cons x xs)
  then show ?case using assms(2) [of x] by (auto split: option.splits if_splits)
qed simp

lemma convert_file_valid: "convert_file os s = Some (0, t) \<Longrightarrow> file_valid os t"
  by (auto simp: convert_file_def file_valid_def AccessFileExist_def split: if_splits)

lemma convert_forward_valid:
  assumes "convert_forward os fw = Some (0, fw')"
  shows "fc_rule fw' \<in> {[], ''R'', ''L''} \<and> (fc_rule fw' \<noteq> [] \<longrightarrow> file_valid os (fc_certificate_file fw'))"
proof (cases "fc_rule fw = []")
  case False
  then obtain s where s: "convert_file os (fc_certificate_file fw) = Some (0, s)" "fw' = fw\<lparr>fc_certificate_file := s\<rparr>"
    "fc_rule fw = ''R'' \<or> fc_rule fw = ''L''"
    using assms by (auto simp: convert_forward_def Let_def split: if_splits)
  then show ?thesis using convert_file_valid [OF s(1)] by auto
qed (use assms in \<open>simp add: convert_forward_def\<close>)

lemma convert_website_valid:
  assumes "convert_website os ws = Some (0, ws')" shows "website_valid os ws'"
proof -
  obtain root log fw where c: "IsDirectory os root = 1" "convert_forward os (wc_forward ws) = Some (0, fw)"
    "ws' = ws\<lparr>wc_wwwroot := root, wc_access_log := log, wc_forward := fw\<rparr>"
    using assms by (auto simp: convert_website_def Let_def split: option.splits if_splits)
  then show ?thesis using convert_forward_valid [OF c(2)]
    by (auto simp: website_valid_def IsDirectory_def split: option.splits if_splits)
qed

lemma convert_listen_valid:
  assumes "convert_listen os l = Some (0, l')" shows "listen_valid os l'"
proof -
  obtain cert key sites where c: "lc_websites l \<noteq> []" "convert_file os (lc_certificate_file l) = Some (0, cert)"
    "convert_file os (lc_certificate_key_file l) = Some (0, key)"
    "convert_all (convert_website os) (lc_websites l) = Some (0, sites)"
    "l' = l\<lparr>lc_certificate_file := cert, lc_certificate_key_file := key, lc_websites := sites\<rparr>"
    using assms by (auto simp: convert_listen_def Let_def split: option.splits if_splits)
  have "length sites = length (lc_websites l) \<and> (\<forall>ws \<in> set sites. website_valid os ws)"
    using convert_all_valid [OF c(4)] convert_website_valid by blast
  then show ?thesis using c(1,5) convert_file_valid [OF c(2)] convert_file_valid [OF c(3)] by (auto simp: listen_valid_def)
qed

text \<open>What the server runs with is what the configuration says, after the checks.\<close>

definition runs_with :: "hetao_conf \<Rightarrow> main_env \<Rightarrow> bool" where
  "runs_with conf me \<longleftrightarrow> me_worker_processes me = cf_worker_processes conf \<and> me_cpu_affinity me = cf_cpu_affinity conf
     \<and> me_accept_mutex me = cf_accept_mutex conf \<and> me_error_log me = cf_error_log conf
     \<and> limits__max_http_session_count (me_worker me) = cf_max_http_session_count conf
     \<and> limits__max_file_cache (me_worker me) = cf_max_file_cache conf
     \<and> limits__max_connections_per_ip (me_worker me) = cf_max_connections_per_ip conf
     \<and> http_options__timeout (me_worker me) = cf_timeout conf \<and> http_options__elapse (me_worker me) = cf_elapse conf
     \<and> http_options__compress_on (me_worker me) = (cf_compress_on conf \<noteq> 0)
     \<and> http_options__forward_disable (me_worker me) = cf_forward_disable conf"

lemma convert_sites_accepted:
  assumes "convert_sites os conf me = Some (0, conf', me')"
  shows "cf_listens conf' \<noteq> [] \<and> (\<forall>l \<in> set (cf_listens conf'). listen_valid os l) \<and> runs_with conf' me'
    \<and> cf_worker_processes conf' = cf_worker_processes conf \<and> me_log_level me' = me_log_level me"
proof -
  obtain ls pages lib where c: "cf_listens conf \<noteq> []" "convert_all (convert_listen os) (cf_listens conf) = Some (0, ls)"
    "conf' = conf\<lparr>cf_listens := ls, cf_error_pages := pages\<rparr>"
    "me' = fill_environment conf' (me\<lparr>me_worker := (me_worker me)\<lparr>http_lib_state := lib\<rparr>\<rparr>)"
    using assms by (auto simp: convert_sites_def Let_def split: option.splits if_splits prod.splits)
  have "length ls = length (cf_listens conf) \<and> (\<forall>l \<in> set ls. listen_valid os l)"
    using convert_all_valid [OF c(2)] convert_listen_valid by blast
  then show ?thesis using c(1,3,4) by (auto simp: runs_with_def fill_environment_def)
qed

lemma accepted_configuration:
  assumes "ConvertConfig os conf me = Some (0, conf', me')" "cf_user conf = [] \<or> co_user os (cf_user conf)"
  shows "cf_listens conf' \<noteq> [] \<and> (\<forall>l \<in> set (cf_listens conf'). listen_valid os l) \<and> runs_with conf' me'
    \<and> (0 < cf_worker_processes conf \<longrightarrow> me_worker_processes me' = cf_worker_processes conf)
    \<and> (cf_worker_processes conf \<le> 0 \<longrightarrow> me_worker_processes me' = co_processors os)
    \<and> 0 \<le> me_log_level me' \<and> me_log_level me' \<le> 4"
proof -
  obtain conf1 me1 where c: "convert_sites os conf1 me1 = Some (0, conf', me')" "0 \<le> me_log_level me1" "me_log_level me1 \<le> 4"
    "cf_worker_processes conf1 = (if cf_worker_processes conf \<le> 0 then co_processors os else cf_worker_processes conf)"
    using assms by (auto simp: ConvertConfig_def Let_def ConvertLogLevel_atoi_def split: option.splits if_splits prod.splits)
  show ?thesis using convert_sites_accepted [OF c(1)] c(2-4) by (auto simp: runs_with_def)
qed

text \<open>A user that does not exist: the rest of the configuration is neither checked nor taken over, and the function
  returns as if it had been.\<close>

lemma unknown_user_accepted:
  assumes "cf_user conf \<noteq> []" "\<not> co_user os (cf_user conf)" "expanded os (cf_error_log conf) 257 = Some (0, s)"
    "fst (ConvertLogLevel_atoi (cf_log_level conf) (me_log_level me)) = 0"
  shows "\<exists>conf' me'. ConvertConfig os conf me = Some (0, conf', me') \<and> cf_listens conf' = cf_listens conf
     \<and> me_worker_processes me' = me_worker_processes me \<and> me_worker me' = me_worker me"
proof -
  obtain level where "ConvertLogLevel_atoi (cf_log_level conf) (me_log_level me) = (0, level)"
    using assms(4) by (metis prod.collapse)
  then show ?thesis using assms(1-3) by (auto simp: ConvertConfig_def Let_def)
qed

end
