(* ===== verification/HetaoMain.thy ===== *)
theory HetaoMain
  imports HetaoStart HetaoConfigCorrect
begin

text \<open>
  The start of the program (\<open>hetao.c\<close>) from its configuration file to the environment that the processes share, and the
  theorem on it: the environment of the workers satisfies the invariant of the worker loop, and every website of the
  configuration is served by a host that looks as configured.
\<close>

section \<open>From the configuration file to the environment\<close>

text \<open>\<open>memset\<close> of the configuration and of the environment.\<close>

definition zero_conf :: hetao_conf where
  "zero_conf = \<lparr>cf_worker_processes = 0, cf_cpu_affinity = 0, cf_accept_mutex = 0, cf_error_log = [], cf_log_level = [],
     cf_user = [], cf_max_http_session_count = 0, cf_max_file_cache = 0, cf_max_connections_per_ip = 0, cf_listens = [],
     cf_nodelay = 0, cf_nolinger = 0, cf_compress_on = 0, cf_timeout = 0, cf_elapse = 0, cf_forward_disable = 0,
     cf_error_pages = \<lparr>error_page_400 = [], error_page_401 = [], error_page_403 = [], error_page_404 = [],
       error_page_408 = [], error_page_500 = [], error_page_503 = [], error_page_505 = []\<rparr>, cf_mime_types = []\<rparr>"

definition zero_main_env :: main_env where
  "zero_main_env = \<lparr>me_worker_processes = 0, me_cpu_affinity = 0, me_accept_mutex = 0, me_error_log = [], me_log_level = 0,
     me_nodelay = 0, me_nolinger = 0, me_pwd = None, me_init_ssl_env_flag = False, me_listen_session_list = [],
     me_listen_session_count = 0, me_epoll_fds = [], me_inotify_fd = 0, me_worker = zero_hetao_env,
     me_next_listen = 0, me_next_host = 0, me_next_server = 0\<rparr>"

text \<open>The environment with the default texts of the status codes.\<close>

definition first_env :: main_env where
  "first_env = zero_main_env\<lparr>me_worker := zero_hetao_env\<lparr>http_lib_state := ResetAllHttpStatus http_lib_init\<rparr>\<rparr>"

text \<open>Up to the start of the processes; \<open>Inl\<close>: the exit code of the program.\<close>

definition main_start ::
    "config_os \<Rightarrow> (bytes \<Rightarrow> int \<Rightarrow> hetao_conf \<Rightarrow> int \<times> hetao_conf) \<Rightarrow> 'w start_os \<Rightarrow> (nat \<Rightarrow> bool) \<Rightarrow> allocator \<Rightarrow> bytes \<Rightarrow> 'w
       \<Rightarrow> (int + 'w start) option" where
  "main_start cos parse os mem alloc path w =
     (case LoadConfig cos parse (take 256 path) (SetDefaultConfig zero_conf) of
        None \<Rightarrow> None
      | Some (nret, conf) \<Rightarrow>
          if nret \<noteq> 0 then Some (Inl (- nret))
          else (case ConvertConfig cos (AppendDefaultConfig conf) first_env of
                  None \<Rightarrow> None
                | Some (nret, conf, me) \<Rightarrow>
                    if nret \<noteq> 0 then Some (Inl (- nret))
                    else (case InitEnvirment os mem alloc conf me w of
                            None \<Rightarrow> None
                          | Some (nret, s) \<Rightarrow> Some (if nret \<noteq> 0 then Inl (- nret) else Inr s))))"

section \<open>What comes out of it\<close>

text \<open>A worker environment in which nothing has happened yet: only the settings differ from zero.\<close>

definition fresh :: "hetao_env \<Rightarrow> bool" where
  "fresh env \<longleftrightarrow> env = zero_hetao_env\<lparr>limits__max_http_session_count := limits__max_http_session_count env,
     limits__max_file_cache := limits__max_file_cache env, limits__max_connections_per_ip := limits__max_connections_per_ip env,
     http_options__timeout := http_options__timeout env, http_options__elapse := http_options__elapse env,
     http_options__compress_on := http_options__compress_on env, http_options__forward_disable := http_options__forward_disable env,
     http_lib_state := http_lib_state env\<rparr>"

lemma fresh_first: "fresh (me_worker first_env)"
  by (simp add: fresh_def first_env_def zero_main_env_def zero_hetao_env_def)

lemma or_fail_0: "or_fail r = Some (0, t) \<longleftrightarrow> r = Some (0, t)"
  by (auto simp: or_fail_def)

lemma InitEnvirment_parts:
  assumes "InitEnvirment os mem alloc conf me w = Some (0, t)"
  obtains u v env hash where "InitListenEnvirment os conf u = Some (0, v)"
    "InitMimeTypeHash True (cf_mime_types conf) = Some (0, hash) \<or> InitMimeTypeHash False (cf_mime_types conf) = Some (0, hash)"
    "worker_of u = (me_worker me)\<lparr>mime_type_hash := hash\<rparr>"
    "me_listen_session_list (s_env u) = []" "me_listen_session_count (s_env u) = 0"
    "IncreaseHttpSessions mem alloc ((worker_of v)\<lparr>htmlcache_session_list := [], htmlcache_session_count := 0,
        http_session_unused_list := [], http_session_unused_count := 0\<rparr>) 100 = (0, env)"
    "worker_of t = env\<lparr>iplimits_hash := (\<lambda>_. [])\<rparr>"
    "s_env t = (s_env v)\<lparr>me_epoll_fds := me_epoll_fds (s_env t), me_worker := worker_of t\<rparr>"
proof -
  obtain s1 s2 s3 v s4 s5 where s: "shared_memory os conf \<lparr>s_env = me, s_old = None, s_world = w\<rparr> = Some (0, s1)"
    "init_mime os conf s1 = Some (0, s2)"
    "load_old os (upd_env (\<lambda>me. me\<lparr>me_listen_session_list := [], me_listen_session_count := 0\<rparr>) s2) = Some (0, s3)"
    "InitListenEnvirment os conf s3 = Some (0, v)"
    "init_sessions mem alloc (v\<lparr>s_world := CloseUnusedOldListeners (so_sys os) (s_old v) (s_world v)\<rparr>) = Some (0, s4)"
    "init_iplimits os s4 = Some (0, s5)"
    "start_all (create_epoll os) [0..<nat (me_worker_processes (s_env s5))] s5 = Some (0, t)"
    using assms unfolding InitEnvirment_def by (auto simp: then_ok_0 or_fail_0 Let_def)
  have 1: "me_worker (s_env s1) = me_worker me"
  proof -
    obtain s0 where s0: "me_worker (s_env s0) = me_worker me"
      "(let (ok, w) = so_shmat os (s_world s0) in if \<not> ok then Some (- 2 :: int, s0\<lparr>s_world := w\<rparr>)
        else Some (0, upd_env (\<lambda>me. me\<lparr>me_epoll_fds := replicate (nat (cf_worker_processes conf)) 0\<rparr>) (s0\<lparr>s_world := w\<rparr>)))
       = Some (0, s1)"
      using s(1) unfolding shared_memory_def then_ok_0 by (auto dest!: call_ok_0)
    obtain ok w' where "so_shmat os (s_world s0) = (ok, w')" by fastforce
    then show ?thesis using s0 by (auto split: if_splits)
  qed
  obtain ok hash where hash: "InitMimeTypeHash ok (cf_mime_types conf) = Some (0, hash)" "worker_of s2 = (worker_of s1)\<lparr>mime_type_hash := hash\<rparr>"
    using s(2) by (auto simp: init_mime_def Let_def split: prod.splits)
  have 3: "worker_of s3 = worker_of s2" "me_listen_session_list (s_env s3) = []" "me_listen_session_count (s_env s3) = 0"
    using s(3) by (auto simp: load_old_def split: prod.splits)
  obtain env where env: "IncreaseHttpSessions mem alloc ((worker_of v)\<lparr>htmlcache_session_list := [], htmlcache_session_count := 0,
        http_session_unused_list := [], http_session_unused_count := 0\<rparr>) 100 = (0, env)"
    "s_env s4 = (s_env v)\<lparr>me_worker := env\<rparr>"
    using s(5) by (auto simp: init_sessions_def Let_def split: prod.splits)
  have 5: "s_env s5 = (s_env s4)\<lparr>me_worker := env\<lparr>iplimits_hash := (\<lambda>_. [])\<rparr>\<rparr>"
    using s(6) env(2) by (auto simp: init_iplimits_def InitIpLimitsHash_def Let_def split: prod.splits if_splits)
  have epoll: "\<exists>fds. s_env b = (s_env a)\<lparr>me_epoll_fds := fds\<rparr>" if "start_all (create_epoll os) is a = Some (n, b)" for "is" a b n
    using that
  proof (induction "is" arbitrary: a)
    case Nil
    then show ?case by (intro exI [of _ "me_epoll_fds (s_env a)"]) simp
  next
    case (Cons i "is")
    then obtain m c where c: "create_epoll os i a = Some (m, c)" "n = m \<and> b = c \<or> start_all (create_epoll os) is c = Some (n, b)"
      by (auto simp: then_ok_Some split: if_splits)
    have "\<exists>fds. s_env c = (s_env a)\<lparr>me_epoll_fds := fds\<rparr>"
      using c(1) by (auto simp: create_epoll_def Let_def split: prod.splits)
    then show ?case using c(2) Cons.IH [of c] by auto
  qed
  obtain fds where fds: "s_env t = (s_env s5)\<lparr>me_epoll_fds := fds\<rparr>" using epoll [OF s(7)] by blast
  have "InitMimeTypeHash True (cf_mime_types conf) = Some (0, hash) \<or> InitMimeTypeHash False (cf_mime_types conf) = Some (0, hash)"
    using hash(1) by (cases ok) auto
  then show thesis
    by (intro that [OF s(4) _ _ 3(2,3) env(1)]) (auto simp: 3(1) hash(2) 1 fds 5 env(2))
qed

text \<open>Nothing has happened in a fresh environment, and setting up the listeners changes nothing of that.\<close>

lemma fresh_server_ok:
  assumes "fresh env0" "beside_sites env = beside_sites (env0\<lparr>mime_type_hash := hash\<rparr>)" "all_idle env" "0 \<le> limits__max_http_session_count env0"
  shows "server_ok (env\<lparr>htmlcache_session_list := [], htmlcache_session_count := 0, http_session_unused_list := [],
     http_session_unused_count := 0\<rparr>)" (is "server_ok ?env")
proof -
  have f: "sessions env = sessions zero_hetao_env" "next_session env = 0" "next_cache env = 0"
    "http_session_timeout_rbtree_used env = RB_NULL" "http_session_elapse_rbtree_used env = RB_NULL"
    "http_session_used_count env = 0" "htmlcache_wd_rbtree env = RB_NULL" "htmlcache_pathfilename_rbtree env = RB_NULL"
    "iplimits_hash env = (\<lambda>_. [])" "limits__max_http_session_count env = limits__max_http_session_count env0"
  proof -
    note z = assms(1) [unfolded fresh_def]
    have "sessions env = sessions env0" using arg_cong [OF assms(2), of sessions] by (simp add: beside_sites_def)
    then show "sessions env = sessions zero_hetao_env" using arg_cong [OF z, of sessions] by simp
    show "next_session env = 0" using arg_cong [OF assms(2), of next_session] arg_cong [OF z, of next_session]
      by (simp add: beside_sites_def zero_hetao_env_def)
    show "next_cache env = 0" using arg_cong [OF assms(2), of next_cache] arg_cong [OF z, of next_cache]
      by (simp add: beside_sites_def zero_hetao_env_def)
    show "http_session_timeout_rbtree_used env = RB_NULL"
      using arg_cong [OF assms(2), of http_session_timeout_rbtree_used] arg_cong [OF z, of http_session_timeout_rbtree_used]
      by (simp add: beside_sites_def zero_hetao_env_def)
    show "http_session_elapse_rbtree_used env = RB_NULL"
      using arg_cong [OF assms(2), of http_session_elapse_rbtree_used] arg_cong [OF z, of http_session_elapse_rbtree_used]
      by (simp add: beside_sites_def zero_hetao_env_def)
    show "http_session_used_count env = 0"
      using arg_cong [OF assms(2), of http_session_used_count] arg_cong [OF z, of http_session_used_count]
      by (simp add: beside_sites_def zero_hetao_env_def)
    show "htmlcache_wd_rbtree env = RB_NULL"
      using arg_cong [OF assms(2), of htmlcache_wd_rbtree] arg_cong [OF z, of htmlcache_wd_rbtree] by (simp add: beside_sites_def zero_hetao_env_def)
    show "htmlcache_pathfilename_rbtree env = RB_NULL"
      using arg_cong [OF assms(2), of htmlcache_pathfilename_rbtree] arg_cong [OF z, of htmlcache_pathfilename_rbtree]
      by (simp add: beside_sites_def zero_hetao_env_def)
    show "iplimits_hash env = (\<lambda>_. [])"
      using arg_cong [OF assms(2), of iplimits_hash] arg_cong [OF z, of iplimits_hash] by (simp add: beside_sites_def zero_hetao_env_def)
    show "limits__max_http_session_count env = limits__max_http_session_count env0"
      using arg_cong [OF assms(2), of limits__max_http_session_count] by (simp add: beside_sites_def)
  qed
  have n: "p_append_buffer (http (sessions env a)) = None" for a
    by (simp add: f(1) zero_hetao_env_def zero_session_def zero_env_def)
  have "pool_ok ?env" using assms(4) by (simp add: pool_ok_def used_def f)
  moreover have "counted ?env"
    by (simp add: counted_def from_ip_def used_def f ip_table_ok_def ip_chain_ok_def ip_count_def max_def)
  moreover have "balanced ?env" using assms(3) by (simp add: balanced_def link_def f(2) all_idle_def)
  moreover have "pages_ok ?env"
    by (simp add: pages_ok_def cache_ok_def cached_def lends_def borrows_def f(7,8) n)
  ultimately show ?thesis by (simp add: server_ok_def)
qed

text \<open>The lists that the parser fills hold C strings, and the conversion leaves the names of the sites alone.\<close>

definition cstr_listen :: "listen_conf \<Rightarrow> bool" where
  "cstr_listen l \<longleftrightarrow> (\<forall>ws \<in> set (lc_websites l). cstr_site ws)"

lemma convert_all_keeps:
  assumes "convert_all f xs = Some (0, ys)" "\<And>x y. f x = Some (0, y) \<Longrightarrow> P x \<Longrightarrow> P y" "\<forall>x \<in> set xs. P x"
  shows "\<forall>y \<in> set ys. P y"
  using assms(1,3)
proof (induction xs arbitrary: ys)
  case (Cons x xs)
  then show ?case using assms(2) [of x] by (auto split: option.splits if_splits)
qed simp

lemma convert_website_keeps: "convert_website os ws = Some (0, ws') \<Longrightarrow> cstr_site ws \<Longrightarrow> cstr_site ws'"
  by (auto simp: convert_website_def cstr_site_def Let_def split: option.splits if_splits prod.splits)

lemma convert_listen_keeps:
  assumes "convert_listen os l = Some (0, l')" "cstr_listen l" shows "cstr_listen l'"
proof -
  obtain sites where c: "convert_all (convert_website os) (lc_websites l) = Some (0, sites)" "lc_websites l' = sites"
    using assms(1) by (auto simp: convert_listen_def Let_def split: option.splits if_splits)
  show ?thesis using convert_all_keeps [OF c(1) convert_website_keeps] assms(2) c(2) by (simp add: cstr_listen_def)
qed

lemma ConvertConfig_keeps:
  assumes "ConvertConfig os conf me = Some (0, conf', me')" "\<forall>l \<in> set (cf_listens conf). cstr_listen l"
  shows "\<forall>l \<in> set (cf_listens conf'). cstr_listen l"
proof -
  have *: "\<forall>l \<in> set (cf_listens c'). cstr_listen l"
    if c: "convert_sites os c m = Some (0, c', m')" "cf_listens c = cf_listens conf" for c m c' m'
  proof -
    obtain ls where ls: "convert_all (convert_listen os) (cf_listens c) = Some (0, ls)" "cf_listens c' = ls"
      using c(1) by (auto simp: convert_sites_def Let_def split: option.splits if_splits prod.splits)
    show ?thesis using convert_all_keeps [OF ls(1) convert_listen_keeps] assms(2) ls(2) c(2) by simp
  qed
  show ?thesis using assms by (auto simp: ConvertConfig_def Let_def dest: * split: option.splits if_splits prod.splits)
qed

text \<open>The limits and options of a worker.\<close>

definition settings_taken :: "hetao_conf \<Rightarrow> hetao_env \<Rightarrow> bool" where
  "settings_taken conf env \<longleftrightarrow> limits__max_http_session_count env = cf_max_http_session_count conf
     \<and> limits__max_file_cache env = cf_max_file_cache conf \<and> limits__max_connections_per_ip env = cf_max_connections_per_ip conf
     \<and> http_options__timeout env = cf_timeout conf \<and> http_options__elapse env = cf_elapse conf
     \<and> http_options__compress_on env = (cf_compress_on conf \<noteq> 0) \<and> http_options__forward_disable env = cf_forward_disable conf"

lemma convert_sites_fresh:
  assumes "convert_sites os conf me = Some (0, conf', me')" "fresh (me_worker me)"
  shows "fresh (me_worker me') \<and> settings_taken conf' (me_worker me')"
proof -
  obtain lib m where m: "me' = fill_environment conf' m" "me_worker m = (me_worker me)\<lparr>http_lib_state := lib\<rparr>"
    using assms(1) by (auto simp: convert_sites_def Let_def split: option.splits if_splits prod.splits)
  have "me_worker me = zero_hetao_env\<lparr>limits__max_http_session_count := a, limits__max_file_cache := b,
      limits__max_connections_per_ip := c, http_options__timeout := d, http_options__elapse := e,
      http_options__compress_on := f, http_options__forward_disable := g, http_lib_state := h\<rparr> \<Longrightarrow> ?thesis" for a b c d e f g h
    using m by (simp add: fresh_def settings_taken_def fill_environment_def)
  then show ?thesis using assms(2) unfolding fresh_def by metis
qed

text \<open>For an unknown user the environment is left as it was; then no session may be created, and the start fails.\<close>

lemma ConvertConfig_fresh:
  assumes "ConvertConfig os conf me = Some (0, conf', me')" "fresh (me_worker me)"
  shows "fresh (me_worker me') \<and> (settings_taken conf' (me_worker me') \<and> (\<forall>l \<in> set (cf_listens conf'). listen_valid os l)
     \<or> limits__max_http_session_count (me_worker me') = limits__max_http_session_count (me_worker me))"
proof -
  consider c m where "convert_sites os c m = Some (0, conf', me')" "me_worker m = me_worker me"
    | "me_worker me' = me_worker me"
    using assms(1) by (auto simp: ConvertConfig_def Let_def split: option.splits if_splits prod.splits)
  then show ?thesis
  proof cases
    case 1
    then show ?thesis using convert_sites_fresh [OF 1(1)] convert_sites_accepted [OF 1(1)] assms(2) by simp
  qed (use assms(2) in simp)
qed

section \<open>The environment of the workers\<close>

text \<open>What the creation of the sessions leaves alone.\<close>

definition beside_pool :: "hetao_env \<Rightarrow> hetao_env" where
  "beside_pool env = env\<lparr>sessions := (\<lambda>_. sessions zero_hetao_env 0), http_session_unused_list := [], http_session_unused_count := 0,
     next_session := 0, http_lib_state := http_lib_init\<rparr>"

lemma create_sessions_beside: "create_sessions mem alloc i n env = (nret, env') \<Longrightarrow> beside_pool env' = beside_pool env"
proof (induction n arbitrary: i env)
  case (Suc n)
  then show ?case by (auto simp: beside_pool_def Let_def split: prod.splits option.splits)
qed simp

lemma IncreaseHttpSessions_beside:
  assumes "IncreaseHttpSessions mem alloc env c = (nret, env')"
  shows "beside_pool env' = beside_pool env" "nret = 0 \<Longrightarrow> http_session_used_count env < limits__max_http_session_count env"
proof -
  obtain n env1 where 1: "create_sessions mem alloc 2 (nat (if http_session_used_count env + c > limits__max_http_session_count env
      then limits__max_http_session_count env - http_session_used_count env else c)) env = (n, env1)" by fastforce
  have "env' = env \<or> env' = env1 \<or> (\<exists>v. env' = env1\<lparr>http_session_unused_count := v\<rparr>)"
    using assms 1 by (auto simp: IncreaseHttpSessions_def Let_def split: if_splits)
  moreover have "beside_pool (env1\<lparr>http_session_unused_count := v\<rparr>) = beside_pool env1" for v by (simp add: beside_pool_def)
  ultimately show "beside_pool env' = beside_pool env" using create_sessions_beside [OF 1] by auto
  show "http_session_used_count env < limits__max_http_session_count env" if "nret = 0"
    using assms that by (auto simp: IncreaseHttpSessions_def split: if_splits)
qed

lemma first_sessions_ok:
  assumes "server_ok env" "used env = {}" "IncreaseHttpSessions mem alloc env c = (0, env')" "0 < c" "http_session_unused_count env = 0"
  shows "server_ok (env'\<lparr>iplimits_hash := (\<lambda>_. [])\<rparr>) \<and> 0 < http_session_unused_count env'"
proof -
  let ?env = "env'\<lparr>iplimits_hash := (\<lambda>_. [])\<rparr>"
  have p: "pool_ok env'" "used env' = {}" "0 < http_session_unused_count env'"
    using IncreaseHttpSessions_ok [OF _ assms(3) _ assms(5)] assms(1,2,4) by (auto simp: server_ok_def)
  note links = IncreaseHttpSessions_links [OF assms(3)]
  have u: "used ?env = {}" using p(2) by (simp add: used_def)
  have "pool_ok ?env" using p(1) by (simp add: pool_ok_def used_def)
  moreover have "counted ?env" by (simp add: counted_def from_ip_def u p(2) ip_table_ok_def ip_chain_ok_def ip_count_def max_def)
  moreover have "balanced ?env"
  proof -
    have "balanced env" using assms(1) by (simp add: server_ok_def)
    moreover have "link ?env = link env'" by (rule ext) (simp add: link_def)
    moreover have "link env' = link env" using links by blast
    moreover have "\<forall>f. conns ?env f = conns env f" using links by simp
    ultimately show ?thesis using balanced_same [of env ?env] by simp
  qed
  moreover have "pages_ok ?env"
  proof -
    have "quiet env' ?env" by (rule quietI) (simp_all add: same_cache_def)
    with IncreaseHttpSessions_quiet [OF assms(3)] have "quiet env ?env" by (rule quiet_trans)
    moreover have "pages_ok env" using assms(1) by (simp add: server_ok_def)
    ultimately show ?thesis by (rule quiet_pages) (simp add: assms(2))
  qed
  ultimately show ?thesis using p(3) by (simp add: server_ok_def)
qed

text \<open>The program has started: the loop of the workers may begin, and the listeners serve the sites of the configuration.\<close>

definition serves :: "config_os \<Rightarrow> hetao_conf \<Rightarrow> main_env \<Rightarrow> bool" where
  "serves os conf me \<longleftrightarrow> settings_taken conf (me_worker me) \<and> (\<forall>l \<in> set (cf_listens conf). listen_valid os l)
     \<and> list_all2 (listener_done me) (cf_listens conf) (rev (me_listen_session_list me))
     \<and> me_listen_session_count me = int (length (cf_listens conf))"

lemma InitEnvirment_serves:
  assumes "InitEnvirment os mem alloc conf me w = Some (0, t)" "fresh (me_worker me)"
    and "settings_taken conf (me_worker me) \<and> (\<forall>l \<in> set (cf_listens conf). listen_valid cos l)
      \<or> limits__max_http_session_count (me_worker me) = 0"
    and "\<forall>l \<in> set (cf_listens conf). cstr_listen l"
  shows "server_ok (worker_of t) \<and> 0 < http_session_unused_count (worker_of t) \<and> serves cos conf (s_env t)"
proof -
  obtain u v env hash where p: "InitListenEnvirment os conf u = Some (0, v)" "worker_of u = (me_worker me)\<lparr>mime_type_hash := hash\<rparr>"
    "me_listen_session_list (s_env u) = []" "me_listen_session_count (s_env u) = 0"
    "IncreaseHttpSessions mem alloc ((worker_of v)\<lparr>htmlcache_session_list := [], htmlcache_session_count := 0,
        http_session_unused_list := [], http_session_unused_count := 0\<rparr>) 100 = (0, env)"
    "worker_of t = env\<lparr>iplimits_hash := (\<lambda>_. [])\<rparr>"
    "s_env t = (s_env v)\<lparr>me_epoll_fds := me_epoll_fds (s_env t), me_worker := worker_of t\<rparr>"
    using assms(1) by (rule InitEnvirment_parts)
  let ?v = "(worker_of v)\<lparr>htmlcache_session_list := [], htmlcache_session_count := 0,
        http_session_unused_list := [], http_session_unused_count := 0\<rparr>"
  obtain ls where ls: "list_all2 (listener_done (s_env v)) (cf_listens conf) ls" "me_listen_session_list (s_env v) = rev ls"
    "me_listen_session_count (s_env v) = int (length (cf_listens conf))" "rest_kept u v"
    using listeners_done [OF p(1)] assms(4) p(3,4) by (auto simp: cstr_listen_def)
  have idle: "all_idle (worker_of u)" using arg_cong [OF assms(2) [unfolded fresh_def], of servers]
    by (simp add: all_idle_def p(2) zero_hetao_env_def zero_server_def)
  have rest: "beside_sites (worker_of v) = beside_sites ((me_worker me)\<lparr>mime_type_hash := hash\<rparr>)" "all_idle (worker_of v)"
    using ls(4) idle by (simp_all add: rest_kept_def p(2))
  note beside = IncreaseHttpSessions_beside [OF p(5)]
  have used: "http_session_used_count (worker_of v) = 0"
    using arg_cong [OF rest(1), of http_session_used_count] arg_cong [OF assms(2) [unfolded fresh_def], of http_session_used_count]
    by (simp add: beside_sites_def zero_hetao_env_def)
  have limit: "limits__max_http_session_count (worker_of v) = limits__max_http_session_count (me_worker me)"
    using arg_cong [OF rest(1), of limits__max_http_session_count] by (simp add: beside_sites_def)
  have "0 < limits__max_http_session_count (me_worker me)" using beside(2) used limit by simp
  then have ok: "server_ok ?v" and set: "settings_taken conf (me_worker me)" "\<forall>l \<in> set (cf_listens conf). listen_valid cos l"
    using fresh_server_ok [OF assms(2) rest] assms(3) by auto
  have "used ?v = {}" using ok used by (simp add: server_ok_def pool_ok_def card_eq_0_iff)
  then have "server_ok (env\<lparr>iplimits_hash := (\<lambda>_. [])\<rparr>) \<and> 0 < http_session_unused_count env"
    by (rule first_sessions_ok [OF ok _ p(5)]) simp_all
  moreover have "settings_taken conf (worker_of t)"
    using set(1) arg_cong [OF beside(1), of "settings_taken conf"] arg_cong [OF rest(1), of "settings_taken conf"]
    by (simp add: settings_taken_def beside_pool_def beside_sites_def p(6))
  moreover have "list_all2 (listener_done (s_env t)) (cf_listens conf) ls"
  proof -
    have "listens (worker_of t) = listens (worker_of v)" "hosts (worker_of t) = hosts (worker_of v)"
      "servers (worker_of t) = servers (worker_of v)"
      using arg_cong [OF beside(1), of listens] arg_cong [OF beside(1), of hosts] arg_cong [OF beside(1), of servers]
      by (simp_all add: beside_pool_def p(6))
    moreover have "me_next_listen (s_env t) = me_next_listen (s_env v)" "me_next_host (s_env t) = me_next_host (s_env v)"
      "me_next_server (s_env t) = me_next_server (s_env v)"
      using arg_cong [OF p(7), of me_next_listen] arg_cong [OF p(7), of me_next_host] arg_cong [OF p(7), of me_next_server] by simp_all
    ultimately have "older_kept {} {} v t" by (simp add: older_kept_def)
    then show ?thesis using ls(1) listener_done_kept by (auto elim!: list_all2_mono)
  qed
  moreover have "me_listen_session_list (s_env t) = rev ls" "me_listen_session_count (s_env t) = int (length (cf_listens conf))"
    using arg_cong [OF p(7), of me_listen_session_list] arg_cong [OF p(7), of me_listen_session_count] ls(2,3) by simp_all
  ultimately show ?thesis using set(2) p(6) by (simp add: serves_def)
qed

lemma main_start_serves:
  assumes "main_start cos parse os mem alloc path w = Some (Inr s)"
    and "\<And>buf n conf. \<forall>l \<in> set (cf_listens (snd (parse buf n conf))). cstr_listen l"
  shows "server_ok (worker_of s) \<and> 0 < http_session_unused_count (worker_of s)
     \<and> (\<exists>conf0 conf me. LoadConfig cos parse (take 256 path) (SetDefaultConfig zero_conf) = Some (0, conf0)
          \<and> ConvertConfig cos (AppendDefaultConfig conf0) first_env = Some (0, conf, me) \<and> serves cos conf (s_env s))"
proof -
  obtain conf0 conf me where c: "LoadConfig cos parse (take 256 path) (SetDefaultConfig zero_conf) = Some (0, conf0)"
    "ConvertConfig cos (AppendDefaultConfig conf0) first_env = Some (0, conf, me)" "InitEnvirment os mem alloc conf me w = Some (0, s)"
    using assms(1) by (auto simp: main_start_def split: option.splits if_splits prod.splits)
  obtain buf n where "snd (parse buf n (SetDefaultConfig zero_conf)) = conf0"
    using c(1) by (auto simp: LoadConfig_def Let_def split: option.splits prod.splits if_splits) (metis snd_conv)
  then have "\<forall>l \<in> set (cf_listens (AppendDefaultConfig conf0)). cstr_listen l"
    using assms(2) [of buf n "SetDefaultConfig zero_conf"] by (simp add: AppendDefaultConfig_def)
  note k = ConvertConfig_keeps [OF c(2) this]
  note f = ConvertConfig_fresh [OF c(2) fresh_first]
  have "limits__max_http_session_count (me_worker first_env) = 0" by (simp add: first_env_def zero_main_env_def zero_hetao_env_def)
  then have "server_ok (worker_of s) \<and> 0 < http_session_unused_count (worker_of s) \<and> serves cos conf (s_env s)"
    using InitEnvirment_serves [OF c(3) _ _ k, of cos] f by auto
  then show ?thesis using c(1,2) by blast
qed

end
