(* ===== verification/HetaoSites.thy ===== *)
theory HetaoSites
  imports HetaoMain HetaoExamples
begin

text \<open>
  A configuration with one listener and one site, a system on which the program starts with it, and the start.
\<close>

definition one_site :: website_conf where
  "one_site = \<lparr>wc_domain = ''a'', wc_wwwroot = ''/w'', wc_index = ''i'', wc_access_log = [], wc_rewrites = [], wc_redirects = [],
     wc_forward = \<lparr>fc_type = [], fc_rule = [], fc_certificate_file = [], fc_certificate_key_file = [], fc_servers = []\<rparr>\<rparr>"

definition one_site_conf :: hetao_conf where
  "one_site_conf = (SetDefaultConfig zero_conf)\<lparr>cf_error_log := ''log'', cf_user := [], cf_max_http_session_count := 1,
     cf_listens := [\<lparr>lc_ip = [], lc_port = 80, lc_certificate_file = [], lc_certificate_key_file = [], lc_websites = [one_site]\<rparr>],
     cf_mime_types := [\<lparr>mtc_type = ''txt'', mtc_mime = ''text/plain'', mtc_compress_enable = 1\<rparr>]\<rparr>"

definition files_os :: config_os where
  "files_os = \<lparr>co_alloc = True, co_getenv = (\<lambda>_. None), co_read = (\<lambda>_. Some ''{}''), co_exists = (\<lambda>_. True),
     co_stat = (\<lambda>_. Some True), co_user = (\<lambda>_. True), co_processors = 1\<rparr>"

definition idle_start :: "'w start_os" where
  "idle_start = \<lparr>so_sys = idle_sys, so_malloc = (\<lambda>w. (True, w)), so_getenv = (\<lambda>_ _. None), so_putenv = (\<lambda>_ w. w),
     so_getsockname = (\<lambda>_ _. None), so_inet_addr = (\<lambda>_. 0), so_bind = (\<lambda>_ _ w. (True, w)), so_listen = (\<lambda>_ w. (True, w)),
     so_ssl_ctx_new = (\<lambda>w. (True, w)), so_use_certificate = (\<lambda>_ _. True), so_use_key = (\<lambda>_ _. True),
     so_open_log = (\<lambda>_ w. (3, w)), so_pcre_compile = (\<lambda>_. True), so_shmget = (\<lambda>_ w. (True, w)), so_shmat = (\<lambda>w. (True, w)),
     so_shm_remove = (\<lambda>w. w), so_epoll_create = (\<lambda>w. (5, w))\<rparr>"

definition plain_start :: "unit start_os" where
  "plain_start = idle_start"

lemmas plain_start_defs = plain_start_def idle_start_def

lemma one_site_converted:
  "\<exists>me. ConvertConfig files_os (AppendDefaultConfig one_site_conf) first_env = Some (0, one_site_conf, me)
     \<and> me_worker_processes me = 1 \<and> fresh (me_worker me) \<and> limits__max_http_session_count (me_worker me) = 1"
  by (simp add: ConvertConfig_def one_site_conf_def one_site_def AppendDefaultConfig_def SetDefaultConfig_def zero_conf_def
      files_os_def expanded_def StringExpandEnvval_def expand_loop.simps strchr_from_def Let_def ConvertLogLevel_atoi_def
      convert_sites_def convert_listen_def convert_file_def convert_website_def convert_forward_def IsDirectory_def
      error_page_fields_def fill_environment_def first_env_def zero_main_env_def fresh_def zero_hetao_env_def)

lemma one_site_listened:
  assumes "s_old s = None"
  shows "\<exists>t. InitListenEnvirment plain_start one_site_conf s = Some (0, t)"
  using assms
  by (simp add: InitListenEnvirment_def one_site_conf_def one_site_def add_listener_def call_ok_def plain_start_defs then_ok_def
      open_listener_def GetListener_def new_socket_def idle_sys_def ssl_context_def init_hosts_def InitVirtualHostHash_def
      init_hash_def add_website_def open_access_log_def compile_template_def init_redirects_def InitRedirectDomainHash_def
      init_forward_def register_host_def PushVirtualHostHashNode_def push_node_def hash_index_def Let_def upd_listen_def
      zero_listen_def zero_host_def)

lemma one_site_cstr: "\<forall>l \<in> set (cf_listens one_site_conf). \<forall>ws \<in> set (lc_websites l). cstr_site ws"
  by (simp add: one_site_conf_def one_site_def cstr_site_def is_cstr_def)

lemma one_session:
  assumes "http_session_used_count env = 0" "limits__max_http_session_count env = 1"
  shows "\<exists>env'. IncreaseHttpSessions (\<lambda>_. True) (\<lambda>_. True) env 100 = (0, env')"
proof -
  obtain h l where h: "CreateHttpEnv True (\<lambda>_. True) (http_lib_state env) = (Some h, l)" using CreateHttpEnv_succeeds by blast
  obtain f l' where f: "CreateHttpEnv True (\<lambda>_. True) l = (Some f, l')" using CreateHttpEnv_succeeds by blast
  show ?thesis using assms by (simp add: IncreaseHttpSessions_def h f AllocHttpBuffer2_def Let_def)
qed

lemma epolls_created: "\<exists>t. start_all (create_epoll plain_start) is s = Some (0, t)"
proof (induction "is" arbitrary: s)
  case (Cons i "is")
  then show ?case by (simp add: create_epoll_def plain_start_defs then_ok_def Let_def)
qed simp

lemma one_site_environment:
  assumes "fresh (me_worker me)" "limits__max_http_session_count (me_worker me) = 1"
  shows "\<exists>t. InitEnvirment plain_start (\<lambda>_. True) (\<lambda>_. True) one_site_conf me () = Some (0, t)"
proof -
  obtain hash where hash: "InitMimeTypeHash True (cf_mime_types one_site_conf) = Some (0, hash)"
    by (simp add: InitMimeTypeHash_def init_hash_def one_site_conf_def init_mime_types.simps strtok_def PushMimeTypeHashNode_def
        push_node_def hash_index_def Let_def)
  define s where "s = \<lparr>s_env = me\<lparr>me_epoll_fds := [0], me_worker := (me_worker me)\<lparr>mime_type_hash := hash\<rparr>,
      me_listen_session_list := [], me_listen_session_count := 0\<rparr>, s_old = None, s_world = ()\<rparr>"
  obtain v where v: "InitListenEnvirment plain_start one_site_conf s = Some (0, v)"
    using one_site_listened [of s] by (auto simp: s_def)
  then have rest: "beside_sites (worker_of v) = beside_sites (worker_of s)"
    using listeners_done [OF v one_site_cstr] by (auto simp: rest_kept_def)
  have "http_session_used_count (worker_of v) = 0" "limits__max_http_session_count (worker_of v) = 1"
    using arg_cong [OF rest, of http_session_used_count] arg_cong [OF rest, of limits__max_http_session_count] assms(2)
      arg_cong [OF assms(1) [unfolded fresh_def], of http_session_used_count]
    by (simp_all add: beside_sites_def s_def zero_hetao_env_def)
  then obtain env where "IncreaseHttpSessions (\<lambda>_. True) (\<lambda>_. True) ((worker_of v)\<lparr>htmlcache_session_list := [],
      htmlcache_session_count := 0, http_session_unused_list := [], http_session_unused_count := 0\<rparr>) 100 = (0, env)"
    using one_session [of "(worker_of v)\<lparr>htmlcache_session_list := [], htmlcache_session_count := 0,
      http_session_unused_list := [], http_session_unused_count := 0\<rparr>"] by auto
  moreover have "shared_memory plain_start one_site_conf \<lparr>s_env = me, s_old = None, s_world = ()\<rparr>
      = Some (0, \<lparr>s_env = me\<lparr>me_epoll_fds := [0]\<rparr>, s_old = None, s_world = ()\<rparr>)"
    by (simp add: shared_memory_def call_ok_def then_ok_def plain_start_defs one_site_conf_def SetDefaultConfig_def upd_env_def Let_def)
  moreover have "load_old plain_start s' = Some (0, s'\<lparr>s_old := None, s_world := ()\<rparr>)" for s'
    by (simp add: load_old_def LoadOldListenSockets_def plain_start_defs)
  moreover have "init_iplimits plain_start s' = Some (0, upd_worker (\<lambda>env. env\<lparr>iplimits_hash := (\<lambda>_. [])\<rparr>) s')" for s'
    by (simp add: init_iplimits_def InitIpLimitsHash_def plain_start_defs)
  moreover have "init_mime plain_start one_site_conf s' = Some (0, upd_worker (\<lambda>env. env\<lparr>mime_type_hash := hash\<rparr>) s')" for s'
    using hash by (simp add: init_mime_def plain_start_defs)
  ultimately show ?thesis
    using v epolls_created
    by (simp add: InitEnvirment_def then_ok_def or_fail_def init_sessions_def s_def Let_def upd_env_def upd_worker_def)
qed

lemma one_site_started:
  "\<exists>s. main_start files_os (\<lambda>_ _ _. (0, one_site_conf)) plain_start (\<lambda>_. True) (\<lambda>_. True) ''/w/conf'' () = Some (Inr s)"
proof -
  obtain me where me: "ConvertConfig files_os (AppendDefaultConfig one_site_conf) first_env = Some (0, one_site_conf, me)"
    "fresh (me_worker me)" "limits__max_http_session_count (me_worker me) = 1" using one_site_converted by blast
  obtain t where "InitEnvirment plain_start (\<lambda>_. True) (\<lambda>_. True) one_site_conf me () = Some (0, t)"
    using one_site_environment [OF me(2,3)] by blast
  moreover have "LoadConfig files_os (\<lambda>_ _ _. (0, one_site_conf)) ''/w/conf'' c = Some (0, one_site_conf)" for c
    by (simp add: LoadConfig_def StrdupEntireFile_def files_os_def StringExpandIncludeFile_def include_loop.simps
        next_directive_def strstr_from_def cstr_def)
  ultimately show ?thesis using me(1) by (simp add: main_start_def)
qed

end
