(* ===== verification/HetaoMonitor.thy ===== *)
theory HetaoMonitor
  imports HetaoMain HetaoWorker
begin

text \<open>
  The processes of the server: the monitor with its signals, which starts the workers and replaces those that end
  (\<open>MonitorProcess.c\<close>), the entry of a worker (\<open>WorkerProcess.c\<close>), the daemon (\<open>Util.c\<close>) and \<open>main\<close> (\<open>hetao.c\<close>).
  A function runs in the process that its calls of \<open>fork\<close> say; \<open>None\<close> stands for a run that does not end.
\<close>

section \<open>Services of the operating system\<close>

datatype signal = SIGUSR1 | SIGUSR2 | SIGTERM

datatype wait_result = Ended int | Interrupted | Wait_failed

text \<open>The result of the \<open>fork\<close> that is stored in the memory shared with the workers: the value as it is read back,
  the value that the other process leaves there, whether \<open>errno\<close> is \<open>EINTR\<close>, and the signals that have arrived.\<close>

record refork =
  rf_seen :: int
  rf_left :: int
  rf_eintr :: bool
  rf_signals :: "signal list"

record 'w monitor_os =
  mo_start :: "'w start_os"
  mo_worker :: "nat \<Rightarrow> 'w worker_os"  \<comment> \<open>the system of the process with this index, with its own \<open>epoll\<close>\<close>
  mo_pipe :: "'w \<Rightarrow> (int \<times> int) option \<times> 'w"
  mo_write :: "int \<Rightarrow> char \<Rightarrow> 'w \<Rightarrow> 'w"
  mo_set_log_name :: "'w \<Rightarrow> 'w"  \<comment> \<open>\<open>setenv( HETAO_LOG_PATHFILENAME )\<close>\<close>
  mo_fork :: "'w \<Rightarrow> int \<times> 'w"
  mo_refork :: "'w \<Rightarrow> refork \<times> 'w"
  mo_execvp :: "bytes \<Rightarrow> 'w \<Rightarrow> bool \<times> 'w"
  mo_waitpid :: "'w \<Rightarrow> wait_result \<times> signal list \<times> 'w"  \<comment> \<open>with the signals since the last call\<close>
  mo_sleep :: "'w \<Rightarrow> 'w"
  mo_setuid :: "bytes \<Rightarrow> 'w \<Rightarrow> 'w"
  mo_setgid :: "bytes \<Rightarrow> 'w \<Rightarrow> 'w"
  mo_start_timer :: "'w \<Rightarrow> bool \<times> 'w"  \<comment> \<open>\<open>pthread_create\<close>\<close>
  mo_used_counts :: "'w \<Rightarrow> nat \<Rightarrow> int"  \<comment> \<open>\<open>http_session_used_count\<close> in the shared memory\<close>
  mo_chdir :: "bytes \<Rightarrow> 'w \<Rightarrow> 'w"

text \<open>How a process ends: a function returns, the process exits, or it goes on as another program.\<close>

datatype ending = Returns int | Exits int | Becomes bytes

section \<open>Signals\<close>

record process_info =
  pi_pid :: int
  pi_read :: int  \<comment> \<open>\<open>pipe[0]\<close>\<close>
  pi_write :: int  \<comment> \<open>\<open>pipe[1]\<close>\<close>

record master =
  ma_env :: main_env
  ma_info :: "process_info list"  \<comment> \<open>\<open>process_info_array\<close>\<close>
  g_SIGUSR1_flag :: bool
  g_SIGUSR2_flag :: bool
  g_SIGTERM_flag :: bool
  g_monitor_exit_flag :: bool

definition upd_info :: "nat \<Rightarrow> (process_info \<Rightarrow> process_info) \<Rightarrow> master \<Rightarrow> master" where
  "upd_info i f m = m\<lparr>ma_info := (ma_info m)[i := f (ma_info m ! i)]\<rparr>"

definition sig_set_flag :: "signal \<Rightarrow> master \<Rightarrow> master" where
  "sig_set_flag sig m =
     (case sig of
        SIGUSR1 \<Rightarrow> m\<lparr>g_SIGUSR1_flag := True\<rparr>
      | SIGUSR2 \<Rightarrow> m\<lparr>g_SIGUSR2_flag := True\<rparr>
      | SIGTERM \<Rightarrow> m\<lparr>g_SIGTERM_flag := True\<rparr>)"

abbreviation mo_close :: "'w monitor_os \<Rightarrow> int \<Rightarrow> 'w \<Rightarrow> 'w" where
  "mo_close os \<equiv> sys_close (so_sys (mo_start os))"

text \<open>A process for the next generation: what the child of \<open>fork\<close> becomes, or nothing for the monitor.\<close>

definition start_successor :: "'w monitor_os \<Rightarrow> 'w \<Rightarrow> ending option \<times> 'w" where
  "start_successor os w =
     (let (pid, w) = mo_fork os (mo_set_log_name os w) in
      if pid = 0 then let (ok, w) = mo_execvp os ''hetao'' w in (Some (if ok then Becomes ''hetao'' else Exits 9), w)
      else (None, w))"

definition sig_proc :: "'w monitor_os \<Rightarrow> master \<Rightarrow> 'w \<Rightarrow> ending option \<times> master \<times> 'w" where
  "sig_proc os m w =
     (if g_SIGUSR1_flag m then
        (None, m\<lparr>g_SIGUSR1_flag := False\<rparr>, foldl (\<lambda>w p. mo_write os (pi_write p) SIGNAL_REOPEN_LOG w) w (ma_info m))
      else if g_SIGUSR2_flag m then
        let (nret, w) = SaveListenSockets (mo_start os) (ma_env m) w in
        if nret \<noteq> 0 then (None, m, w)
        else let (e, w) = start_successor os w in (e, if e = None then m\<lparr>g_SIGUSR2_flag := False\<rparr> else m, w)
      else if g_SIGTERM_flag m then
        (None, m\<lparr>g_SIGTERM_flag := False, g_monitor_exit_flag := True\<rparr>,
         foldl (\<lambda>w p. mo_close os (pi_write p) w) w (ma_info m))
      else (None, m, w))"

section \<open>A worker (\<open>WorkerProcess.c\<close>)\<close>

definition worker_of_process :: "'w monitor_os \<Rightarrow> nat \<Rightarrow> master \<Rightarrow> 'w \<Rightarrow> worker" where
  "worker_of_process os i m w =
     \<lparr>wk_env = me_worker (ma_env m), listen_session_list = me_listen_session_list (ma_env m), accept_mutex = me_accept_mutex (ma_env m),
      worker_processes = nat (me_worker_processes (ma_env m)), this_process = i, used_counts = mo_used_counts os w,
      pipe_fd = pi_read (ma_info m ! i), htmlcache_inotify_fd = me_inotify_fd (ma_env m), muted = [], g_worker_exit_flag = False\<rparr>"

definition WorkerProcess ::
    "'w monitor_os \<Rightarrow> 'z zlib \<Rightarrow> bool \<Rightarrow> (nat \<Rightarrow> bool) \<Rightarrow> allocator \<Rightarrow> nat \<Rightarrow> master \<Rightarrow> 'w \<Rightarrow> (int \<times> main_env \<times> 'w) option" where
  "WorkerProcess os z node mem alloc i m w =
     (let me = ma_env m;
          w = (case me_pwd me of None \<Rightarrow> w | Some user \<Rightarrow> mo_setgid os user (mo_setuid os user w));
          (ok, w) = mo_start_timer os w in
      if \<not> ok then Some (- 1, me, w)
      else
        map_option (\<lambda>(wk, w). (0, CleanEnvirment (mo_start os)
            (me\<lparr>me_worker := wk_env wk, me_inotify_fd := htmlcache_inotify_fd wk\<rparr>) w))
          (WorkerThread (mo_worker os i) z node mem alloc (worker_of_process os i m w) w))"

text \<open>The child of a \<open>fork\<close> of the monitor closes the writing ends of all pipes that it has.\<close>

definition child_process ::
    "'w monitor_os \<Rightarrow> 'z zlib \<Rightarrow> bool \<Rightarrow> (nat \<Rightarrow> bool) \<Rightarrow> allocator \<Rightarrow> nat \<Rightarrow> nat list \<Rightarrow> master \<Rightarrow> 'w
       \<Rightarrow> (ending option \<times> master \<times> 'w) option" where
  "child_process os z node mem alloc i others m w =
     map_option (\<lambda>(nret, me, w). (Some (Returns (- nret)), m\<lparr>ma_env := me\<rparr>, w))
       (WorkerProcess os z node mem alloc i m
          (foldl (\<lambda>w j. mo_close os (pi_write (ma_info m ! j)) w) w (i # others)))"

section \<open>The monitor (\<open>MonitorProcess.c\<close>)\<close>

text \<open>A new pipe for the worker \<open>i\<close>.\<close>

definition open_pipe :: "'w monitor_os \<Rightarrow> nat \<Rightarrow> master \<Rightarrow> 'w \<Rightarrow> (master \<times> 'w) option" where
  "open_pipe os i m w =
     (case mo_pipe os w of
        (None, w) \<Rightarrow> None
      | (Some (r, wr), w) \<Rightarrow> Some (upd_info i (\<lambda>p. p\<lparr>pi_read := r, pi_write := wr\<rparr>) m, w))"

definition start_worker ::
    "'w monitor_os \<Rightarrow> 'z zlib \<Rightarrow> bool \<Rightarrow> (nat \<Rightarrow> bool) \<Rightarrow> allocator \<Rightarrow> nat \<Rightarrow> master \<Rightarrow> 'w \<Rightarrow> (ending option \<times> master \<times> 'w) option" where
  "start_worker os z node mem alloc i m w =
     (case open_pipe os i m w of
        None \<Rightarrow> Some (Some (Returns (- 1)), m, snd (mo_pipe os w))
      | Some (m, w) \<Rightarrow>
          let (pid, w) = mo_fork os w in
          if pid = - 1 then Some (Some (Returns (- 1)), m, w)
          else if pid = 0 then child_process os z node mem alloc i (rev [0..<i]) m w
          else Some (None, upd_info i (\<lambda>p. p\<lparr>pi_pid := pid\<rparr>) m, mo_close os (pi_read (ma_info m ! i)) w))"

fun start_workers ::
    "'w monitor_os \<Rightarrow> 'z zlib \<Rightarrow> bool \<Rightarrow> (nat \<Rightarrow> bool) \<Rightarrow> allocator \<Rightarrow> nat list \<Rightarrow> master \<Rightarrow> 'w
       \<Rightarrow> (ending option \<times> master \<times> 'w) option" where
  "start_workers os z node mem alloc [] m w = Some (None, m, w)"
| "start_workers os z node mem alloc (i # is) m w =
     (case start_worker os z node mem alloc i m w of
        None \<Rightarrow> None
      | Some (Some e, m, w) \<Rightarrow> Some (Some e, m, w)
      | Some (None, m, w) \<Rightarrow> start_workers os z node mem alloc is m w)"

text \<open>The \<open>fork\<close> for a new worker \<open>i\<close>, repeated when a signal interrupts it; second result: the process identifier
  that is read back.\<close>

partial_function (option) fork_again :: "'w monitor_os \<Rightarrow> nat \<Rightarrow> master \<Rightarrow> 'w \<Rightarrow> (ending option \<times> int \<times> master \<times> 'w) option" where
  "fork_again os i m w =
     (let (r, w) = mo_refork os w;
          m = upd_info i (\<lambda>p. p\<lparr>pi_pid := rf_left r\<rparr>) (foldl (\<lambda>m s. sig_set_flag s m) m (rf_signals r)) in
      if rf_seen r = - 1 then
        if rf_eintr r then
          let (e, m, w) = sig_proc os m w in
          if e \<noteq> None then Some (e, - 1, m, w) else fork_again os i m w
        else Some (Some (Returns (- 1)), - 1, m, w)
      else Some (None, rf_seen r, m, w))"

text \<open>A new worker in the place of one that has ended; the first result of the monitor is \<open>None\<close>.\<close>

definition replace_worker ::
    "'w monitor_os \<Rightarrow> 'z zlib \<Rightarrow> bool \<Rightarrow> (nat \<Rightarrow> bool) \<Rightarrow> allocator \<Rightarrow> nat \<Rightarrow> master \<Rightarrow> 'w \<Rightarrow> (ending option \<times> master \<times> 'w) option" where
  "replace_worker os z node mem alloc i m w =
     (let w = mo_sleep os w in
      case open_pipe os i m w of
        None \<Rightarrow> Some (Some (Returns (- 1)), m, snd (mo_pipe os w))
      | Some (m, w) \<Rightarrow> do {
          (e, pid, m, w) \<leftarrow> fork_again os i m w;
          if e \<noteq> None then Some (e, m, w)
          else if pid = 0 then child_process os z node mem alloc i (filter (\<lambda>j. j \<noteq> i) (rev [0..<length (ma_info m)])) m w
          else Some (None, m, mo_close os (pi_read (ma_info m ! i)) w) })"

text \<open>One \<open>waitpid\<close>; \<open>count\<close> is the variable \<open>worker_processes\<close> of the loop.\<close>

definition monitor_step ::
    "'w monitor_os \<Rightarrow> 'z zlib \<Rightarrow> bool \<Rightarrow> (nat \<Rightarrow> bool) \<Rightarrow> allocator \<Rightarrow> int \<Rightarrow> master \<Rightarrow> 'w
       \<Rightarrow> (ending option \<times> int \<times> master \<times> 'w) option" where
  "monitor_step os z node mem alloc count m w =
     (let (r, signals, w) = mo_waitpid os w; m = foldl (\<lambda>m s. sig_set_flag s m) m signals in
      case r of
        Interrupted \<Rightarrow> let (e, m, w) = sig_proc os m w in Some (e, count, m, w)
      | Wait_failed \<Rightarrow> Some (Some (Returns (- 1)), count, m, w)
      | Ended pid \<Rightarrow>
          (case List.find (\<lambda>i. pi_pid (ma_info m ! i) = pid) [0..<length (ma_info m)] of
             None \<Rightarrow> Some (None, count, m, w)
           | Some i \<Rightarrow>
               let w = mo_close os (pi_write (ma_info m ! i)) w in
               if g_monitor_exit_flag m then Some (None, count - 1, m, w)
               else map_option (\<lambda>(e, m, w). (e, if e = None then count else count - 1, m, w))
                      (replace_worker os z node mem alloc i m w)))"

partial_function (option) monitor_loop ::
    "'w monitor_os \<Rightarrow> 'z zlib \<Rightarrow> bool \<Rightarrow> (nat \<Rightarrow> bool) \<Rightarrow> allocator \<Rightarrow> int \<Rightarrow> master \<Rightarrow> 'w
       \<Rightarrow> (ending option \<times> master \<times> 'w) option" where
  "monitor_loop os z node mem alloc count m w =
     (if count \<le> 0 then Some (None, m, w)
      else
        (case monitor_step os z node mem alloc count m w of
           None \<Rightarrow> None
         | Some (e, count, m, w) \<Rightarrow> if e \<noteq> None then Some (e, m, w) else monitor_loop os z node mem alloc count m w))"

definition new_master :: "main_env \<Rightarrow> master" where
  "new_master me = \<lparr>ma_env = me, ma_info = replicate (nat (me_worker_processes me)) \<lparr>pi_pid = 0, pi_read = 0, pi_write = 0\<rparr>,
     g_SIGUSR1_flag = False, g_SIGUSR2_flag = False, g_SIGTERM_flag = False, g_monitor_exit_flag = False\<rparr>"

definition MonitorProcess ::
    "'w monitor_os \<Rightarrow> 'z zlib \<Rightarrow> bool \<Rightarrow> (nat \<Rightarrow> bool) \<Rightarrow> allocator \<Rightarrow> main_env \<Rightarrow> 'w \<Rightarrow> (ending \<times> master \<times> 'w) option" where
  "MonitorProcess os z node mem alloc me w = do {
     (e, m, w) \<leftarrow> start_workers os z node mem alloc [0..<nat (me_worker_processes me)] (new_master me) w;
     (e, m, w) \<leftarrow> (case e of Some e \<Rightarrow> Some (Some e, m, w) | None \<Rightarrow> monitor_loop os z node mem alloc (me_worker_processes me) m w);
     (case e of
        Some e \<Rightarrow> Some (e, m, w)
      | None \<Rightarrow> let (me, w) = CleanEnvirment (mo_start os) (ma_env m) w in Some (Returns 0, m\<lparr>ma_env := me\<rparr>, w)) }"

section \<open>The program\<close>

definition negated :: "ending \<Rightarrow> ending" where
  "negated e = (case e of Returns n \<Rightarrow> Returns (- n) | _ \<Rightarrow> e)"

text \<open>The daemon: two processes end, the third one goes on as \<open>server\<close>.\<close>

definition BindDaemonServer :: "'w monitor_os \<Rightarrow> ('w \<Rightarrow> (ending \<times> 's \<times> 'w) option) \<Rightarrow> 's \<Rightarrow> 'w \<Rightarrow> (ending \<times> 's \<times> 'w) option" where
  "BindDaemonServer os server s w =
     (let (pid, w) = mo_fork os (mo_chdir os ''/tmp'' w) in
      if pid = - 1 then Some (Returns (- 1), s, w)
      else if pid \<noteq> 0 then Some (Exits 0, s, w)
      else
        let (pid, w) = mo_fork os w in
        if pid = - 1 then Some (Returns (- 2), s, w)
        else if pid \<noteq> 0 then Some (Exits 0, s, w)
        else server w)"

text \<open>\<open>main\<close>, from its arguments behind the name of the program.\<close>

definition hetao_main ::
    "config_os \<Rightarrow> (bytes \<Rightarrow> int \<Rightarrow> hetao_conf \<Rightarrow> int \<times> hetao_conf) \<Rightarrow> 'w monitor_os \<Rightarrow> 'z zlib \<Rightarrow> bool \<Rightarrow> (nat \<Rightarrow> bool) \<Rightarrow> allocator
       \<Rightarrow> bytes list \<Rightarrow> 'w \<Rightarrow> ending option" where
  "hetao_main cos parse os z node mem alloc args w =
     (if length args = 1 \<or> length args = 2 \<and> args ! 1 \<in> {''--no-daemon'', ''--service'', ''--child''} then
        let (ok1, w) = so_malloc (mo_start os) w; (ok2, w) = (if ok1 then so_malloc (mo_start os) w else (True, w)) in
        if \<not> ok1 \<or> \<not> ok2 then Some (Returns 1)
        else
          (case main_start cos parse (mo_start os) mem alloc (args ! 0) w of
             None \<Rightarrow> None
           | Some (Inl code) \<Rightarrow> Some (Returns code)
           | Some (Inr s) \<Rightarrow>
               let monitor = MonitorProcess os z node mem alloc (s_env s) in
               map_option (\<lambda>(e, m, w). negated e)
                 (if length args = 2 \<and> args ! 1 = ''--no-daemon'' then monitor (s_world s)
                  else BindDaemonServer os monitor (new_master (s_env s)) (s_world s)))
      else Some (Exits 9))"

end
