(* ===== verification/HetaoProcesses.thy ===== *)
theory HetaoProcesses
  imports HetaoMonitor HetaoHandover
begin

text \<open>
  What the monitor achieves: every place of a worker is held by a running process until the monitor is told to end,
  then the monitor waits for all of them; and what it does not: the process identifier of a new worker is written to
  memory that both processes share, and a new worker finds the listeners still registered by its predecessor.
\<close>

section \<open>The processes that run\<close>

text \<open>What the system does as seen by the monitor: \<open>alive\<close> are its children that run or have not been waited for,
  \<open>issued\<close> the identifiers that have been given out.  The orderly case of the shared \<open>fork\<close> is assumed here.\<close>

definition same_children :: "('w \<Rightarrow> int set) \<Rightarrow> ('w \<Rightarrow> int set) \<Rightarrow> ('w \<Rightarrow> 'w) \<Rightarrow> bool" where
  "same_children alive issued f \<longleftrightarrow> (\<forall>w. alive (f w) = alive w \<and> issued (f w) = issued w)"

definition forked :: "('w \<Rightarrow> int set) \<Rightarrow> ('w \<Rightarrow> int set) \<Rightarrow> 'w \<Rightarrow> int \<Rightarrow> 'w \<Rightarrow> bool" where
  "forked alive issued w pid w' \<longleftrightarrow>
     (if pid = - 1 then alive w' = alive w \<and> issued w' = issued w
      else 0 < pid \<and> pid \<notin> issued w \<and> alive w' = insert pid (alive w) \<and> issued w' = insert pid (issued w))"

definition children_kept :: "'w monitor_os \<Rightarrow> ('w \<Rightarrow> int set) \<Rightarrow> ('w \<Rightarrow> int set) \<Rightarrow> bool" where
  "children_kept os alive issued \<longleftrightarrow>
     (\<forall>w. alive w \<subseteq> issued w)
   \<and> (\<forall>w pid w'. mo_fork os w = (pid, w') \<longrightarrow> forked alive issued w pid w')
   \<and> (\<forall>w r w'. mo_refork os w = (r, w') \<longrightarrow> forked alive issued w (rf_seen r) w' \<and> rf_left r = rf_seen r)
   \<and> (\<forall>w r signals w'. mo_waitpid os w = (r, signals, w') \<longrightarrow> issued w' = issued w
        \<and> (case r of Ended pid \<Rightarrow> pid \<in> alive w \<and> alive w' = alive w - {pid} | _ \<Rightarrow> alive w' = alive w))
   \<and> same_children alive issued (\<lambda>w. snd (mo_pipe os w)) \<and> same_children alive issued (mo_set_log_name os)
   \<and> same_children alive issued (mo_sleep os) \<and> (\<forall>fd c. same_children alive issued (mo_write os fd c))
   \<and> (\<forall>fd. same_children alive issued (mo_close os fd)) \<and> (\<forall>s. same_children alive issued (so_putenv (mo_start os) s))
   \<and> same_children alive issued (\<lambda>w. snd (so_malloc (mo_start os) w))"

definition pids :: "master \<Rightarrow> int list" where
  "pids m = map pi_pid (ma_info m)"

definition manned :: "('w \<Rightarrow> int set) \<Rightarrow> ('w \<Rightarrow> int set) \<Rightarrow> int \<Rightarrow> master \<Rightarrow> 'w \<Rightarrow> bool" where
  "manned alive issued count m w \<longleftrightarrow> distinct (pids m) \<and> set (pids m) \<subseteq> issued w
     \<and> count = int (card (set (pids m) \<inter> alive w))
     \<and> (\<not> g_monitor_exit_flag m \<longrightarrow> set (pids m) \<subseteq> alive w)"

lemma pids_signals [simp]: "pids (foldl (\<lambda>m s. sig_set_flag s m) m signals) = pids m"
  "g_monitor_exit_flag (foldl (\<lambda>m s. sig_set_flag s m) m signals) = g_monitor_exit_flag m"
  "length (ma_info (foldl (\<lambda>m s. sig_set_flag s m) m signals)) = length (ma_info m)"
  "ma_info (foldl (\<lambda>m s. sig_set_flag s m) m signals) = ma_info m"
  by (induction signals arbitrary: m) (simp_all add: pids_def sig_set_flag_def split: signal.splits)

lemma pids_upd [simp]:
  "pids (upd_info i (\<lambda>p. p\<lparr>pi_read := r, pi_write := wr\<rparr>) m) = pids m"
  "pids (upd_info i (\<lambda>p. p\<lparr>pi_pid := pid\<rparr>) m) = (pids m)[i := pid]"
  "g_monitor_exit_flag (upd_info i f m) = g_monitor_exit_flag m" "length (ma_info (upd_info i f m)) = length (ma_info m)"
proof -
  show "pids (upd_info i (\<lambda>p. p\<lparr>pi_read := r, pi_write := wr\<rparr>) m) = pids m"
    by (cases "i < length (ma_info m)") (simp_all add: pids_def upd_info_def map_update list_update_same_conv list_update_beyond)
qed (simp_all add: pids_def upd_info_def map_update)

lemma same_children_foldl:
  assumes "\<And>p. same_children alive issued (f p)"
  shows "alive (foldl (\<lambda>w p. f p w) w ps) = alive w" "issued (foldl (\<lambda>w p. f p w) w ps) = issued w"
  using assms by (induction ps arbitrary: w) (simp_all add: same_children_def)

text \<open>More processes, none of them under an old identifier.\<close>

definition more_children :: "('w \<Rightarrow> int set) \<Rightarrow> ('w \<Rightarrow> int set) \<Rightarrow> 'w \<Rightarrow> 'w \<Rightarrow> bool" where
  "more_children alive issued w w' \<longleftrightarrow> issued w \<subseteq> issued w' \<and> alive w' \<inter> issued w = alive w \<inter> issued w"

lemma more_children_trans: "more_children alive issued w1 w2 \<Longrightarrow> more_children alive issued w2 w3 \<Longrightarrow> more_children alive issued w1 w3"
  unfolding more_children_def by blast

lemma more_children_same: "alive w' = alive w \<Longrightarrow> issued w' = issued w \<Longrightarrow> more_children alive issued w w'"
  by (simp add: more_children_def)

lemma forked_grown: "forked alive issued w pid w' \<Longrightarrow> more_children alive issued w w'"
  unfolding forked_def more_children_def by (auto split: if_splits)

lemma start_successor_grown:
  assumes "children_kept os alive issued" "start_successor os w = (e, w')"
  shows "e = None \<and> more_children alive issued w w'"
proof -
  obtain pid w1 where f: "mo_fork os (mo_set_log_name os w) = (pid, w1)" by fastforce
  have k: "forked alive issued (mo_set_log_name os w) pid w1" "same_children alive issued (mo_set_log_name os)"
    using assms(1) f unfolding children_kept_def by blast+
  then have "more_children alive issued w w1" using more_children_trans [OF more_children_same forked_grown [OF k(1)]] by (simp add: same_children_def)
  moreover have "pid \<noteq> 0" using k(1) by (auto simp: forked_def split: if_splits)
  ultimately show ?thesis using assms(2) f by (simp add: start_successor_def)
qed

lemma SaveListenSockets_same:
  assumes "children_kept os alive issued" "SaveListenSockets (mo_start os) me w = (n, w')"
  shows "alive w' = alive w \<and> issued w' = issued w"
proof -
  have "same_children alive issued (\<lambda>w. snd (so_malloc (mo_start os) w))" "\<forall>s. same_children alive issued (so_putenv (mo_start os) s)"
    using assms(1) unfolding children_kept_def by blast+
  moreover obtain ok w1 where "so_malloc (mo_start os) w = (ok, w1)" by fastforce
  ultimately show ?thesis using assms(2) by (cases ok) (auto simp: SaveListenSockets_def same_children_def dest: spec [of _ w])
qed

lemma sig_proc_grown:
  assumes "children_kept os alive issued" "sig_proc os m w = (e, m', w')"
  shows "e = None \<and> pids m' = pids m \<and> more_children alive issued w w' \<and> (g_monitor_exit_flag m \<longrightarrow> g_monitor_exit_flag m')"
proof -
  have "same_children alive issued (mo_write os fd c)" "same_children alive issued (mo_close os fd)" for fd c
    using assms(1) unfolding children_kept_def by blast+
  note loops = same_children_foldl [of alive issued "\<lambda>p w. mo_write os (pi_write p) SIGNAL_REOPEN_LOG w", OF this(1)]
    same_children_foldl [of alive issued "\<lambda>p w. mo_close os (pi_write p) w", OF this(2)]
  consider (log) "g_SIGUSR1_flag m" | (save) "\<not> g_SIGUSR1_flag m" "g_SIGUSR2_flag m" | (other) "\<not> g_SIGUSR1_flag m" "\<not> g_SIGUSR2_flag m" by blast
  then show ?thesis
  proof cases
    case save
    obtain n w1 where n: "SaveListenSockets (mo_start os) (ma_env m) w = (n, w1)" by fastforce
    have g: "more_children alive issued w w1" using SaveListenSockets_same [OF assms(1) n] by (intro more_children_same) simp_all
    obtain e1 w2 where s: "start_successor os w1 = (e1, w2)" by fastforce
    have "e1 = None" "more_children alive issued w w2" using start_successor_grown [OF assms(1) s] more_children_trans [OF g] by blast+
    then show ?thesis using assms(2) save n s g by (auto simp: sig_proc_def pids_def split: if_splits)
  next
    case log
    then show ?thesis using assms(2) by (auto simp: sig_proc_def pids_def intro!: more_children_same loops)
  next
    case other
    then show ?thesis using assms(2) by (auto simp: sig_proc_def pids_def intro!: more_children_same loops split: if_splits)
  qed
qed

text \<open>Invariance under what leaves the workers alone.\<close>

lemma manned_more:
  assumes "manned alive issued count m w" "more_children alive issued w w'" "pids m' = pids m"
    and "g_monitor_exit_flag m \<longrightarrow> g_monitor_exit_flag m'"
  shows "manned alive issued count m' w'"
proof -
  have s: "set (pids m) \<subseteq> issued w" using assms(1) by (simp add: manned_def)
  then have "set (pids m) \<inter> alive w' = set (pids m) \<inter> alive w" using assms(2) unfolding more_children_def by blast
  moreover have "set (pids m) \<subseteq> issued w'" using s assms(2) unfolding more_children_def by blast
  ultimately show ?thesis using assms(1,3,4) unfolding manned_def by auto
qed

text \<open>The new worker.\<close>

lemma fork_again_result:
  assumes k: "children_kept os alive issued" and r: "fork_again os i m w = Some (e, pid, m', w')"
  shows "e = None \<longrightarrow> 0 < pid \<and> pid \<notin> issued w \<and> pids m' = (pids m)[i := pid] \<and> pid \<in> alive w' \<and> pid \<in> issued w'
     \<and> more_children alive issued w w' \<and> (g_monitor_exit_flag m \<longrightarrow> g_monitor_exit_flag m')"
proof -
  let ?P = "\<lambda>os' i m w e pid m' w'. os' = os \<longrightarrow> e = None \<longrightarrow> 0 < pid \<and> pid \<notin> issued w \<and> pids m' = (pids m)[i := pid]
     \<and> pid \<in> alive w' \<and> pid \<in> issued w' \<and> more_children alive issued w w' \<and> (g_monitor_exit_flag m \<longrightarrow> g_monitor_exit_flag m')"
  have "case (e, pid, m', w') of (e, pid, m', w') \<Rightarrow> ?P os i m w e pid m' w'"
  proof (rule fork_again.raw_induct [of "\<lambda>os' i m w (e, pid, m', w'). ?P os' i m w e pid m' w'", OF _ r])
    fix rec :: "'a monitor_os \<Rightarrow> nat \<Rightarrow> master \<Rightarrow> 'a \<Rightarrow> (ending option \<times> int \<times> master \<times> 'a) option" and os' i m w res
    assume IH: "\<And>os' i m w res. rec os' i m w = Some res \<Longrightarrow> case res of (e, pid, m', w') \<Rightarrow> ?P os' i m w e pid m' w'"
      and step: "(let (r, w) = mo_refork os' w;
          m = upd_info i (\<lambda>p. p\<lparr>pi_pid := rf_left r\<rparr>) (foldl (\<lambda>m s. sig_set_flag s m) m (rf_signals r)) in
        if rf_seen r = - 1 then
          if rf_eintr r then
            let (e, m, w) = sig_proc os' m w in
            if e \<noteq> None then Some (e, - 1, m, w) else rec os' i m w
          else Some (Some (Returns (- 1)), - 1, m, w)
        else Some (None, rf_seen r, m, w)) = Some res"
    obtain e pid m' w' where res: "res = (e, pid, m', w')" by (cases res) auto
    obtain rf w1 where f: "mo_refork os' w = (rf, w1)" by fastforce
    let ?m = "upd_info i (\<lambda>p. p\<lparr>pi_pid := rf_left rf\<rparr>) (foldl (\<lambda>m s. sig_set_flag s m) m (rf_signals rf))"
    have "?P os' i m w e pid m' w'"
    proof (intro impI)
      assume os: "os' = os" and e: "e = None"
      have fk: "forked alive issued w (rf_seen rf) w1" "rf_left rf = rf_seen rf"
        using k f os unfolding children_kept_def by blast+
      show "0 < pid \<and> pid \<notin> issued w \<and> pids m' = (pids m)[i := pid] \<and> pid \<in> alive w' \<and> pid \<in> issued w'
        \<and> more_children alive issued w w' \<and> (g_monitor_exit_flag m \<longrightarrow> g_monitor_exit_flag m')"
      proof (cases "rf_seen rf = - 1")
        case True
        obtain e2 m2 w2 where p: "sig_proc os ?m w1 = (e2, m2, w2)" by (cases "sig_proc os ?m w1") auto
        note sp = sig_proc_grown [OF k p]
        have rec: "rec os i m2 w2 = Some res"
          using step f True os e res p sp by (auto simp: Let_def split: if_splits)
        have "?P os i m2 w2 e pid m' w'" using IH [OF rec] res by simp
        then have h: "0 < pid" "pid \<notin> issued w2" "pids m' = (pids m2)[i := pid]" "pid \<in> alive w'" "pid \<in> issued w'"
          "more_children alive issued w2 w'" "g_monitor_exit_flag m2 \<longrightarrow> g_monitor_exit_flag m'" using e by simp_all
        have w: "more_children alive issued w w2" using more_children_trans [OF forked_grown [OF fk(1)]] sp by blast
        then have "pid \<notin> issued w" using h(2) unfolding more_children_def by blast
        moreover have "pids m' = (pids m)[i := pid]" using h(3) sp by simp
        moreover have "g_monitor_exit_flag m \<longrightarrow> g_monitor_exit_flag m'" using h(7) sp by simp
        ultimately show ?thesis using h(1,4,5) more_children_trans [OF w h(6)] by blast
      next
        case False
        then have "pid = rf_seen rf" "m' = ?m" "w' = w1" using step f res os by (simp_all add: Let_def)
        then show ?thesis using fk False forked_grown [OF fk(1)] by (auto simp: forked_def)
      qed
    qed
    then show "case res of (e, pid, m', w') \<Rightarrow> ?P os' i m w e pid m' w'" by (simp add: res)
  qed
  then show ?thesis by simp
qed

lemma replace_worker_result:
  assumes "children_kept os alive issued" "replace_worker os z node mem alloc i m w = Some (None, m', w')"
  shows "\<exists>pid. 0 < pid \<and> pid \<notin> issued w \<and> pids m' = (pids m)[i := pid] \<and> pid \<in> alive w' \<and> pid \<in> issued w'
     \<and> more_children alive issued w w' \<and> (g_monitor_exit_flag m \<longrightarrow> g_monitor_exit_flag m')"
proof -
  have same: "same_children alive issued (mo_sleep os)" "same_children alive issued (\<lambda>w. snd (mo_pipe os w))"
    "\<And>fd. same_children alive issued (mo_close os fd)" using assms(1) unfolding children_kept_def by blast+
  obtain m1 w1 where p: "open_pipe os i m (mo_sleep os w) = Some (m1, w1)"
    using assms(2) by (cases "open_pipe os i m (mo_sleep os w)") (auto simp: replace_worker_def Let_def)
  have m1: "pids m1 = pids m" "g_monitor_exit_flag m1 = g_monitor_exit_flag m" "w1 = snd (mo_pipe os (mo_sleep os w))"
    using p by (auto simp: open_pipe_def split: prod.splits option.splits)
  then have w1: "alive w1 = alive w" "issued w1 = issued w" using same(1,2) by (simp_all add: same_children_def)
  obtain e pid m2 w2 where f: "fork_again os i m1 w1 = Some (e, pid, m2, w2)"
    using assms(2) p by (cases "fork_again os i m1 w1") (auto simp: replace_worker_def Let_def)
  note r = fork_again_result [OF assms(1) f]
  have child: "child_process os z node mem alloc j js m3 w3 \<noteq> Some (None, m4, w4)" for j js m3 w3 m4 w4
    by (auto simp: child_process_def)
  have "e = None" using assms(2) p f by (auto simp: replace_worker_def Let_def split: if_splits)
  moreover from this have "m' = m2" "w' = mo_close os (pi_read (ma_info m2 ! i)) w2"
    using assms(2) p f r by (auto simp: replace_worker_def Let_def split: if_splits)
  ultimately show ?thesis using r m1(1,2) w1 same(3) by (auto simp: same_children_def more_children_def)
qed

lemma found_index: "List.find P [0..<n] = Some i \<Longrightarrow> i < n \<and> P i"
  by (auto simp: find_Some_iff)

text \<open>One round of the monitor.\<close>

lemma monitor_step_manned:
  assumes k: "children_kept os alive issued" and s: "monitor_step os z node mem alloc count m w = Some (None, count', m', w')"
    and ok: "manned alive issued count m w"
  shows "manned alive issued count' m' w' \<and> length (ma_info m') = length (ma_info m)
     \<and> (g_monitor_exit_flag m \<longrightarrow> g_monitor_exit_flag m')"
proof -
  obtain r signals w1 where r: "mo_waitpid os w = (r, signals, w1)" by (cases "mo_waitpid os w") auto
  define m1 where "m1 = foldl (\<lambda>m s. sig_set_flag s m) m signals"
  have m1: "pids m1 = pids m" "g_monitor_exit_flag m1 = g_monitor_exit_flag m" "ma_info m1 = ma_info m"
    by (simp_all add: m1_def)
  have wait: "issued w1 = issued w" "case r of Ended pid \<Rightarrow> pid \<in> alive w \<and> alive w1 = alive w - {pid} | _ \<Rightarrow> alive w1 = alive w"
    using k r unfolding children_kept_def by blast+
  have len: "length (ma_info m) = length (pids m)" for m by (simp add: pids_def)
  show ?thesis
  proof (cases r)
    case Interrupted
    obtain e2 m2 w2 where p: "sig_proc os m1 w1 = (e2, m2, w2)" by (cases "sig_proc os m1 w1") auto
    note sp = sig_proc_grown [OF k p]
    have t: "count' = count" "m' = m2" "w' = w2" using s r Interrupted p by (simp_all add: monitor_step_def m1_def [symmetric])
    have "alive w1 = alive w" using wait(2) Interrupted by simp
    then have w01: "more_children alive issued w w1" using wait(1) by (simp add: more_children_def)
    have "more_children alive issued w1 w2" using sp by blast
    with w01 have "more_children alive issued w w2" by (rule more_children_trans)
    moreover have "length (ma_info m2) = length (ma_info m)" using sp m1(1) by (simp add: len)
    ultimately show ?thesis using manned_more [OF ok] sp m1 t by simp
  next
    case Wait_failed
    then show ?thesis using s r by (simp add: monitor_step_def)
  next
    case (Ended pid)
    show ?thesis
    proof (cases "List.find (\<lambda>i. pi_pid (ma_info m ! i) = pid) [0..<length (ma_info m)]")
      case None
      then have t: "count' = count" "m' = m1" "w' = w1" using s r Ended by (simp_all add: monitor_step_def m1_def [symmetric] m1(3))
      have "pid \<notin> set (pids m)" using None by (auto simp: pids_def find_None_iff in_set_conv_nth)
      then have "set (pids m) \<inter> alive w1 = set (pids m) \<inter> alive w" "set (pids m) \<subseteq> alive w \<Longrightarrow> set (pids m) \<subseteq> alive w1"
        using wait Ended by auto
      then show ?thesis using ok t wait(1) m1 unfolding manned_def by auto
    next
      case (Some i)
      then have i: "i < length (pids m)" "pids m ! i = pid"
        using found_index [OF Some] by (simp_all add: pids_def)
      define w2 where "w2 = mo_close os (pi_write (ma_info m ! i)) w1"
      have "same_children alive issued (mo_close os fd)" for fd using k unfolding children_kept_def by blast
      then have w2: "alive w2 = alive w - {pid}" "issued w2 = issued w" using wait Ended by (simp_all add: w2_def same_children_def)
      have pid: "pid \<in> set (pids m)" "pid \<in> alive w" using i wait Ended by auto
      show ?thesis
      proof (cases "g_monitor_exit_flag m")
        case True
        then have t: "count' = count - 1" "m' = m1" "w' = w2"
          using s r Ended Some m1(2) by (simp_all add: monitor_step_def m1_def [symmetric] m1(3) w2_def)
        have "set (pids m) \<inter> (alive w - {pid}) = set (pids m) \<inter> alive w - {pid}" by blast
        moreover have "0 < card (set (pids m) \<inter> alive w)" using pid by (auto simp: card_gt_0_iff)
        ultimately show ?thesis using ok t w2 m1 pid True unfolding manned_def by (simp add: of_nat_diff card_Diff_singleton)
      next
        case False
        obtain e m2 w3 where rw: "replace_worker os z node mem alloc i m1 w2 = Some (e, m2, w3)"
          "e = None" "count' = count" "m' = m2" "w' = w3"
          using s r Ended Some False m1(2) by (auto simp: monitor_step_def m1_def [symmetric] m1(3) w2_def split: if_splits)
        from rw(2) rw(1) obtain pid' where p: "0 < pid'" "pid' \<notin> issued w2" "pids m2 = (pids m1)[i := pid']" "pid' \<in> alive w3"
          "pid' \<in> issued w3" "more_children alive issued w2 w3" "g_monitor_exit_flag m1 \<longrightarrow> g_monitor_exit_flag m2"
          using replace_worker_result [OF k] by blast
        have d: "distinct (pids m)" "set (pids m) \<subseteq> issued w" "set (pids m) \<subseteq> alive w" "count = int (card (set (pids m) \<inter> alive w))"
          using ok False by (simp_all add: manned_def)
        have "pid' \<notin> set (pids m)" using p(2) d(2) unfolding w2(2) by blast
        then have new: "set (pids m2) = insert pid' (set (pids m) - {pid})" "distinct (pids m2)"
          unfolding p(3) m1(1) using set_update_distinct [OF d(1) i(1)] i(2) d(1) by (simp_all add: distinct_list_update)
        have sub: "issued w \<subseteq> issued w3" "(alive w - {pid}) \<inter> issued w \<subseteq> alive w3"
          using p(6) unfolding more_children_def w2 by auto
        moreover have "set (pids m2) \<subseteq> issued w3" unfolding new(1) using d(2) p(5) sub(1) by auto
        moreover have all: "set (pids m2) \<subseteq> alive w3" unfolding new(1) using d(2,3) p(4) sub(2) by auto
        moreover have "card (set (pids m2) \<inter> alive w3) = card (set (pids m) \<inter> alive w)"
        proof -
          have "card (set (pids m2)) = card (set (pids m))" using new(2) d(1) p(3) m1(1) by (simp add: distinct_card)
          then show ?thesis using all d(3) by (simp add: Int_absorb2)
        qed
        moreover have "length (ma_info m2) = length (ma_info m)" using p(3) m1(1) by (simp add: len)
        ultimately show ?thesis using rw(3-5) d(4) False new(2) unfolding manned_def by simp
      qed
    qed
  qed
qed

section \<open>The life of the monitor\<close>

inductive monitor_reaches ::
    "'w monitor_os \<Rightarrow> 'z zlib \<Rightarrow> bool \<Rightarrow> (nat \<Rightarrow> bool) \<Rightarrow> allocator \<Rightarrow> int \<times> master \<times> 'w \<Rightarrow> int \<times> master \<times> 'w \<Rightarrow> bool"
  for os z node mem alloc where
  here: "monitor_reaches os z node mem alloc s s"
| next_wait: "monitor_reaches os z node mem alloc s (count, m, w) \<Longrightarrow> 0 < count
    \<Longrightarrow> monitor_step os z node mem alloc count m w = Some (None, count', m', w')
    \<Longrightarrow> monitor_reaches os z node mem alloc s (count', m', w')"

lemma monitor_reaches_manned:
  assumes "monitor_reaches os z node mem alloc s s'" "children_kept os alive issued"
    and "case s of (count, m, w) \<Rightarrow> manned alive issued count m w"
  shows "case s' of (count, m, w) \<Rightarrow> manned alive issued count m w \<and> length (ma_info m) = length (ma_info (fst (snd s)))"
  using assms(1,3)
proof (induction rule: monitor_reaches.induct)
  case (next_wait s count m w count' m' w')
  then show ?case using monitor_step_manned [OF assms(2)] by fastforce
qed auto

text \<open>The start: one process in every place.\<close>

lemma start_worker_result:
  assumes k: "children_kept os alive issued" and s: "start_worker os z node mem alloc i m w = Some (None, m', w')"
  shows "\<exists>pid. 0 < pid \<and> pid \<notin> issued w \<and> pids m' = (pids m)[i := pid] \<and> pid \<in> alive w' \<and> pid \<in> issued w'
     \<and> more_children alive issued w w' \<and> g_monitor_exit_flag m' = g_monitor_exit_flag m"
proof -
  have same: "same_children alive issued (\<lambda>w. snd (mo_pipe os w))" "\<And>fd. same_children alive issued (mo_close os fd)"
    using k unfolding children_kept_def by blast+
  obtain m1 w1 where p: "open_pipe os i m w = Some (m1, w1)" using s by (cases "open_pipe os i m w") (auto simp: start_worker_def)
  have m1: "pids m1 = pids m" "g_monitor_exit_flag m1 = g_monitor_exit_flag m" "w1 = snd (mo_pipe os w)"
    using p by (auto simp: open_pipe_def split: prod.splits option.splits)
  then have w1: "alive w1 = alive w" "issued w1 = issued w" using same(1) by (simp_all add: same_children_def)
  obtain pid w2 where f: "mo_fork os w1 = (pid, w2)" by fastforce
  then have fk: "forked alive issued w1 pid w2" using k unfolding children_kept_def by blast
  have child: "child_process os z node mem alloc j js m3 w3 \<noteq> Some (None, m4, w4)" for j js m3 w3 m4 w4
    by (auto simp: child_process_def)
  have "pid \<noteq> - 1" "pid \<noteq> 0" "m' = upd_info i (\<lambda>p. p\<lparr>pi_pid := pid\<rparr>) m1" "w' = mo_close os (pi_read (ma_info m1 ! i)) w2"
    using s p f child by (auto simp: start_worker_def split: if_splits)
  then show ?thesis using fk m1 w1 same(2) by (auto simp: forked_def same_children_def more_children_def)
qed

lemma start_workers_manned:
  assumes "children_kept os alive issued" "start_workers os z node mem alloc is m w = Some (None, m', w')"
    and "distinct is" "\<forall>i \<in> set is. i < length (pids m)" "\<not> g_monitor_exit_flag m"
    and "\<forall>i < length (pids m). i \<notin> set is \<longrightarrow> pids m ! i \<in> alive w \<inter> issued w"
    and "\<forall>i j. i < length (pids m) \<longrightarrow> j < length (pids m) \<longrightarrow> i \<notin> set is \<longrightarrow> j \<notin> set is \<longrightarrow> i \<noteq> j \<longrightarrow> pids m ! i \<noteq> pids m ! j"
  shows "manned alive issued (int (length (pids m))) m' w' \<and> length (pids m') = length (pids m)"
  using assms(2-)
proof (induction "is" arbitrary: m w)
  case Nil
  then have "distinct (pids m)" "set (pids m) \<subseteq> alive w \<inter> issued w" by (auto simp: distinct_conv_nth in_set_conv_nth)
  then show ?case using Nil by (auto simp: manned_def Int_absorb2 distinct_card)
next
  case (Cons i "is")
  obtain m1 w1 where s: "start_worker os z node mem alloc i m w = Some (None, m1, w1)"
    "start_workers os z node mem alloc is m1 w1 = Some (None, m', w')"
    using Cons.prems(1) by (auto split: option.splits)
  obtain pid where p: "pid \<notin> issued w" "pids m1 = (pids m)[i := pid]" "pid \<in> alive w1" "pid \<in> issued w1"
    "more_children alive issued w w1" "g_monitor_exit_flag m1 = g_monitor_exit_flag m"
    using start_worker_result [OF assms(1) s(1)] by blast
  have old: "pids m ! j \<in> alive w1 \<inter> issued w1" "pids m ! j \<noteq> pid" if "j < length (pids m)" "j \<notin> set (i # is)" for j
    using Cons.prems(5) that p(1,5) unfolding more_children_def by blast+
  have "manned alive issued (int (length (pids m1))) m' w' \<and> length (pids m') = length (pids m1)"
  proof (rule Cons.IH [OF s(2)])
    show "distinct is" "\<forall>i \<in> set is. i < length (pids m1)" "\<not> g_monitor_exit_flag m1" using Cons.prems(2-4) p(2,6) by simp_all
    show "\<forall>j < length (pids m1). j \<notin> set is \<longrightarrow> pids m1 ! j \<in> alive w1 \<inter> issued w1"
    proof (intro allI impI)
      fix j assume "j < length (pids m1)" "j \<notin> set is"
      then show "pids m1 ! j \<in> alive w1 \<inter> issued w1" using old(1) [of j] p(2-4) by (cases "j = i") simp_all
    qed
    show "\<forall>j k. j < length (pids m1) \<longrightarrow> k < length (pids m1) \<longrightarrow> j \<notin> set is \<longrightarrow> k \<notin> set is \<longrightarrow> j \<noteq> k \<longrightarrow> pids m1 ! j \<noteq> pids m1 ! k"
    proof (intro allI impI)
      fix j k assume jk: "j < length (pids m1)" "k < length (pids m1)" "j \<notin> set is" "k \<notin> set is" "j \<noteq> k"
      consider "j = i" | "k = i" | "j \<noteq> i" "k \<noteq> i" by blast
      then show "pids m1 ! j \<noteq> pids m1 ! k"
        using jk old(2) [of j] old(2) [of k] Cons.prems(6) p(2) by cases auto
    qed
  qed
  then show ?case using p(2) by simp
qed

lemma crew_complete:
  assumes "children_kept os alive issued" "n = nat (me_worker_processes me)"
    and "start_workers os z node mem alloc [0..<n] (new_master me) w = Some (None, m0, w0)"
    and "monitor_reaches os z node mem alloc (int n, m0, w0) (count, m, w')"
  shows "length (ma_info m) = n \<and> distinct (pids m)
     \<and> (\<not> g_monitor_exit_flag m \<longrightarrow> count = int n \<and> set (pids m) \<subseteq> alive w')"
proof -
  have n: "length (pids (new_master me)) = n" by (simp add: pids_def new_master_def assms(2))
  have "manned alive issued (int n) m0 w0 \<and> length (pids m0) = n"
    using start_workers_manned [OF assms(1,3)] by (simp add: n) (simp add: new_master_def)
  then have m: "manned alive issued count m w'" "length (pids m) = n"
    using monitor_reaches_manned [OF assms(4,1)] by (simp_all add: pids_def)
  have "count = int n" if "set (pids m) \<subseteq> alive w'"
    using m that by (simp add: manned_def Int_absorb2 distinct_card)
  then show ?thesis using m by (auto simp: manned_def pids_def)
qed

text \<open>After the signal to end nothing is started, and the loop is left when all workers have ended.\<close>

lemma shutdown:
  assumes k: "children_kept os alive issued" and ok: "manned alive issued count m w" and "g_monitor_exit_flag m"
    and fin: "finite (alive w)" and ends: "\<forall>w. alive w \<noteq> {} \<longrightarrow> (\<exists>pid w'. mo_waitpid os w = (Ended pid, [], w'))"
  shows "\<exists>m' w'. monitor_loop os z node mem alloc count m w = Some (None, m', w') \<and> set (pids m') \<inter> alive w' = {}"
  using ok fin assms(3)
proof (induction "card (alive w)" arbitrary: count m w rule: less_induct)
  case less
  show ?case
  proof (cases "count \<le> 0")
    case True
    then have "set (pids m) \<inter> alive w = {}" using less.prems(1) by (simp add: manned_def)
    then show ?thesis using True by (simp add: monitor_loop.simps)
  next
    case False
    then have "alive w \<noteq> {}" using less.prems(1) by (auto simp: manned_def)
    then obtain pid w1 where w1: "mo_waitpid os w = (Ended pid, [], w1)" using ends by blast
    have wait: "issued w1 = issued w" "pid \<in> alive w" "alive w1 = alive w - {pid}"
      using k [unfolded children_kept_def] w1 by fastforce+
    have close: "same_children alive issued (mo_close os fd)" for fd using k unfolding children_kept_def by blast
    obtain count' w2 where s: "monitor_step os z node mem alloc count m w = Some (None, count', m, w2)" "alive w2 = alive w1"
    proof (cases "List.find (\<lambda>i. pi_pid (ma_info m ! i) = pid) [0..<length (ma_info m)]")
      case None
      show thesis by (rule that [of count w1]) (simp_all add: monitor_step_def w1 None)
    next
      case (Some i)
      show thesis
        by (rule that [of "count - 1" "mo_close os (pi_write (ma_info m ! i)) w1"])
          (use less.prems(3) close in \<open>simp_all add: monitor_step_def w1 Some same_children_def\<close>)
    qed
    have "card (alive w2) < card (alive w)" unfolding s(2) wait(3) using less.prems(2) wait(2) by (rule card_Diff1_less)
    moreover have "manned alive issued count' m w2" using monitor_step_manned [OF k s(1) less.prems(1)] by blast
    moreover have "finite (alive w2)" using s(2) wait(3) less.prems(2) by simp
    ultimately obtain m' w' where "monitor_loop os z node mem alloc count' m w2 = Some (None, m', w')" "set (pids m') \<inter> alive w' = {}"
      using less.hyps less.prems(3) by blast
    then show ?thesis using s(1) False by (subst monitor_loop.simps) simp
  qed
qed

section \<open>The shared identifier\<close>

text \<open>\<open>p_env->process_info_array[i].pid = fork()\<close> writes to memory that the two processes share, and both read it back:
  the parent writes the identifier of the child and the child 0, in any order.\<close>

record race =
  slot :: int
  parent_wrote :: bool
  child_wrote :: bool
  parent_read :: "int option"
  child_read :: "int option"

definition race_start :: "int \<Rightarrow> race" where
  "race_start old = \<lparr>slot = old, parent_wrote = False, child_wrote = False, parent_read = None, child_read = None\<rparr>"

inductive race_step :: "int \<Rightarrow> race \<Rightarrow> race \<Rightarrow> bool" for pid where
  parent_writes: "\<not> parent_wrote r \<Longrightarrow> race_step pid r (r\<lparr>slot := pid, parent_wrote := True\<rparr>)"
| child_writes: "\<not> child_wrote r \<Longrightarrow> race_step pid r (r\<lparr>slot := 0, child_wrote := True\<rparr>)"
| parent_reads: "parent_wrote r \<Longrightarrow> parent_read r = None \<Longrightarrow> race_step pid r (r\<lparr>parent_read := Some (slot r)\<rparr>)"
| child_reads: "child_wrote r \<Longrightarrow> child_read r = None \<Longrightarrow> race_step pid r (r\<lparr>child_read := Some (slot r)\<rparr>)"

inductive race_reaches :: "int \<Rightarrow> int \<Rightarrow> race \<Rightarrow> bool" for old pid where
  not_begun: "race_reaches old pid (race_start old)"
| one_step: "race_reaches old pid r \<Longrightarrow> race_step pid r r' \<Longrightarrow> race_reaches old pid r'"

text \<open>What the parent reads, what the child reads, and what stays in the slot that has held \<open>old\<close>.\<close>

definition race_result :: "int \<Rightarrow> int \<Rightarrow> int \<Rightarrow> int \<Rightarrow> int \<Rightarrow> bool" where
  "race_result old pid p c left \<longleftrightarrow> (\<exists>r. race_reaches old pid r \<and> parent_read r = Some p \<and> child_read r = Some c \<and> slot r = left)"

inductive_cases race_stepE: "race_step pid r r'"

definition race_ok :: "int \<Rightarrow> race \<Rightarrow> bool" where
  "race_ok pid r \<longleftrightarrow>
     (\<not> parent_wrote r \<longrightarrow> parent_read r = None) \<and> (\<not> child_wrote r \<longrightarrow> child_read r = None)
   \<and> (parent_wrote r \<or> child_wrote r \<longrightarrow> slot r = pid \<or> slot r = 0) \<and> (\<not> parent_wrote r \<and> child_wrote r \<longrightarrow> slot r = 0)
   \<and> (\<not> child_wrote r \<and> parent_wrote r \<longrightarrow> slot r = pid \<and> parent_read r \<in> {None, Some pid})
   \<and> (parent_wrote r \<and> child_wrote r \<longrightarrow>
        (slot r = pid \<longrightarrow> parent_read r \<in> {None, Some pid} \<and> child_read r \<in> {None, Some 0, Some pid})
      \<and> (slot r = 0 \<longrightarrow> parent_read r \<in> {None, Some 0, Some pid} \<and> child_read r \<in> {None, Some 0}))
   \<and> (\<not> parent_wrote r \<longrightarrow> child_read r \<in> {None, Some 0})"

lemma race_reaches_ok: "race_reaches old pid r \<Longrightarrow> pid \<noteq> 0 \<Longrightarrow> race_ok pid r"
proof (induction rule: race_reaches.induct)
  case not_begun
  then show ?case by (simp add: race_ok_def race_start_def)
next
  case (one_step r r')
  from one_step(2) show ?case by (rule race_stepE) (use one_step in \<open>auto simp: race_ok_def\<close>)
qed

lemma race_results:
  assumes "pid \<noteq> 0"
  shows "race_result old pid p c left \<longleftrightarrow> (p, c, left) \<in> {(pid, 0, 0), (pid, 0, pid), (0, 0, 0), (pid, pid, pid)}"
proof
  assume "race_result old pid p c left"
  then obtain r where "race_reaches old pid r" "parent_read r = Some p" "child_read r = Some c" "slot r = left"
    by (auto simp: race_result_def)
  then show "(p, c, left) \<in> {(pid, 0, 0), (pid, 0, pid), (0, 0, 0), (pid, pid, pid)}"
    using race_reaches_ok [of old pid r] assms by (auto simp: race_ok_def)
next
  have pw: "\<not> parent_wrote r \<Longrightarrow> race_reaches old pid r \<Longrightarrow> race_reaches old pid (r\<lparr>slot := pid, parent_wrote := True\<rparr>)" for r
    by (erule race_reaches.one_step) (rule parent_writes)
  have cw: "\<not> child_wrote r \<Longrightarrow> race_reaches old pid r \<Longrightarrow> race_reaches old pid (r\<lparr>slot := 0, child_wrote := True\<rparr>)" for r
    by (erule race_reaches.one_step) (rule child_writes)
  have pr: "parent_wrote r \<Longrightarrow> parent_read r = None \<Longrightarrow> race_reaches old pid r \<Longrightarrow> race_reaches old pid (r\<lparr>parent_read := Some (slot r)\<rparr>)" for r
    by (erule race_reaches.one_step) (rule parent_reads)
  have cr: "child_wrote r \<Longrightarrow> child_read r = None \<Longrightarrow> race_reaches old pid r \<Longrightarrow> race_reaches old pid (r\<lparr>child_read := Some (slot r)\<rparr>)" for r
    by (erule race_reaches.one_step) (rule child_reads)
  note s = race_reaches.not_begun [of old pid]
  assume "(p, c, left) \<in> {(pid, 0, 0), (pid, 0, pid), (0, 0, 0), (pid, pid, pid)}"
  then consider "p = pid" "c = 0" "left = 0" | "p = pid" "c = 0" "left = pid" | "p = 0" "c = 0" "left = 0" | "p = pid" "c = pid" "left = pid"
    by auto
  then show "race_result old pid p c left"
  proof cases
    case 1
    then show ?thesis using cr [OF _ _ cw [OF _ pr [OF _ _ pw [OF _ s]]]] unfolding race_result_def race_start_def by fastforce
  next
    case 2
    then show ?thesis using pr [OF _ _ pw [OF _ cr [OF _ _ cw [OF _ s]]]] unfolding race_result_def race_start_def by fastforce
  next
    case 3
    then show ?thesis using cr [OF _ _ pr [OF _ _ cw [OF _ pw [OF _ s]]]] unfolding race_result_def race_start_def by fastforce
  next
    case 4
    then show ?thesis using cr [OF _ _ pr [OF _ _ pw [OF _ cw [OF _ s]]]] unfolding race_result_def race_start_def by fastforce
  qed
qed

text \<open>When the monitor reads 0, it runs as a worker; when 0 stays in the slot, the end of that worker goes unnoticed.\<close>

lemma monitor_as_worker:
  assumes "mo_pipe os (mo_sleep os w) = (Some (r, wr), w1)"
    "mo_refork os w1 = (\<lparr>rf_seen = 0, rf_left = left, rf_eintr = False, rf_signals = []\<rparr>, w2)"
  shows "replace_worker os z node mem alloc i m w
     = child_process os z node mem alloc i (filter (\<lambda>j. j \<noteq> i) (rev [0..<length (ma_info m)]))
         (upd_info i (\<lambda>p. p\<lparr>pi_pid := left\<rparr>) (upd_info i (\<lambda>p. p\<lparr>pi_read := r, pi_write := wr\<rparr>) m)) w2"
  using assms by (simp add: replace_worker_def open_pipe_def fork_again.simps Let_def)

lemma unnoticed_end:
  assumes "mo_waitpid os w = (Ended pid, [], w')" "pid \<notin> set (pids m)"
  shows "monitor_step os z node mem alloc count m w = Some (None, count, m, w')"
proof -
  have "List.find (\<lambda>i. pi_pid (ma_info m ! i) = pid) [0..<length (ma_info m)] = None"
    using assms(2) by (auto simp: find_None_iff pids_def)
  then show ?thesis using assms(1) by (simp add: monitor_step_def)
qed

section \<open>A worker that is started again\<close>

text \<open>The \<open>epoll\<close> of a place is created once, by the first process, and so outlives a worker: the listeners stay
  registered, as the monitor has their sockets open, and to add them again is an error.\<close>

definition still_registered :: "'w sys \<Rightarrow> int \<Rightarrow> bool" where
  "still_registered sys sock \<longleftrightarrow> (\<forall>w. fst (sys_epoll_ctl sys EPOLL_CTL_ADD sock EPOLLIN_ERR w) = - 1)"

lemma watch_listeners_again:
  assumes "ls \<noteq> []" "still_registered sys (na_sock (ls_netaddr (listens env (hd ls))))"
  shows "\<exists>w'. watch_listeners sys env ls w = (False, w')"
proof -
  obtain l ls' where "ls = l # ls'" using assms(1) by (cases ls) auto
  moreover obtain n w1 where "sys_epoll_ctl sys EPOLL_CTL_ADD (na_sock (ls_netaddr (listens env l))) EPOLLIN_ERR w = (n, w1)" by fastforce
  ultimately show ?thesis using assms(2) by (auto simp: still_registered_def dest: spec [of _ w])
qed

lemma second_worker_ends:
  assumes "ls = me_listen_session_list (ma_env m)" "ls \<noteq> []"
    and "still_registered (os_sys (mo_worker os i)) (na_sock (ls_netaddr (listens (me_worker (ma_env m)) (hd ls))))"
    and "me_accept_mutex (ma_env m) = 0 \<or> i = 0"
  shows "\<exists>nret me' w'. WorkerProcess os z node mem alloc i m w = Some (nret, me', w') \<and> (nret = 0 \<or> nret = - 1)
     \<and> http_session_used_count (me_worker me') = http_session_used_count (me_worker (ma_env m))"
proof -
  let ?w = "(case me_pwd (ma_env m) of None \<Rightarrow> w | Some user \<Rightarrow> mo_setgid os user (mo_setuid os user w))"
  obtain ok w0 where t: "mo_start_timer os ?w = (ok, w0)" by fastforce
  let ?wk = "worker_of_process os i m w0" and ?os = "mo_worker os i"
  have "\<exists>fd w'. WorkerThread ?os z node mem alloc ?wk w0 = Some (?wk\<lparr>htmlcache_inotify_fd := fd\<rparr>, w')"
  proof -
    obtain n1 w1 where 1: "sys_epoll_ctl (os_sys ?os) EPOLL_CTL_ADD (pipe_fd ?wk) EPOLLIN_ERR w0 = (n1, w1)" by fastforce
    obtain fd w2 where 2: "os_inotify_init ?os w1 = (fd, w2)" by fastforce
    obtain n3 w3 where 3: "sys_epoll_ctl (os_sys ?os) EPOLL_CTL_ADD fd EPOLLIN_ERR w2 = (n3, w3)" by fastforce
    obtain w4 where 4: "watch_listeners (os_sys ?os) (wk_env ?wk) (listen_session_list ?wk) w3 = (False, w4)"
      using watch_listeners_again [of "listen_session_list ?wk"] assms(1-3) by (force simp: worker_of_process_def)
    have a: "accept_mutex ?wk = 0 \<or> this_process ?wk = 0" using assms(4) by (simp add: worker_of_process_def)
    show ?thesis
    proof (cases "n1 = - 1")
      case True
      then show ?thesis using 1 by (intro exI [of _ "htmlcache_inotify_fd ?wk"] exI [of _ w1]) (simp add: WorkerThread_def)
    next
      case False
      then show ?thesis using 1 2 3 4 a by (auto simp: WorkerThread_def Let_def)
    qed
  qed
  then obtain fd w' where wt: "WorkerThread ?os z node mem alloc ?wk w0 = Some (?wk\<lparr>htmlcache_inotify_fd := fd\<rparr>, w')" by blast
  show ?thesis
    using t wt by (cases ok) (auto simp: WorkerProcess_def worker_of_process_def CleanEnvirment_def Let_def)
qed

section \<open>Signals and the next generation\<close>

text \<open>One signal is worked off at a time; the others wait until \<open>waitpid\<close> is interrupted again.\<close>

lemma signals_set:
  "g_SIGUSR1_flag (foldl (\<lambda>m s. sig_set_flag s m) m signals) \<longleftrightarrow> g_SIGUSR1_flag m \<or> SIGUSR1 \<in> set signals"
  "g_SIGTERM_flag (foldl (\<lambda>m s. sig_set_flag s m) m signals) \<longleftrightarrow> g_SIGTERM_flag m \<or> SIGTERM \<in> set signals"
proof -
  have 1: "g_SIGUSR1_flag (sig_set_flag s m) \<longleftrightarrow> g_SIGUSR1_flag m \<or> SIGUSR1 = s"
    "g_SIGTERM_flag (sig_set_flag s m) \<longleftrightarrow> g_SIGTERM_flag m \<or> SIGTERM = s" for s m
    by (cases s; simp add: sig_set_flag_def)+
  show "g_SIGUSR1_flag (foldl (\<lambda>m s. sig_set_flag s m) m signals) \<longleftrightarrow> g_SIGUSR1_flag m \<or> SIGUSR1 \<in> set signals"
    "g_SIGTERM_flag (foldl (\<lambda>m s. sig_set_flag s m) m signals) \<longleftrightarrow> g_SIGTERM_flag m \<or> SIGTERM \<in> set signals"
    by (induction signals arbitrary: m) (simp_all add: 1)
qed

lemma one_signal_at_a_time:
  assumes "mo_waitpid os w = (Interrupted, signals, w')" "SIGUSR1 \<in> set signals" "SIGTERM \<in> set signals"
  shows "\<exists>m' w''. monitor_step os z node mem alloc count m w = Some (None, count, m', w'') \<and> g_SIGTERM_flag m'
     \<and> \<not> g_SIGUSR1_flag m' \<and> g_monitor_exit_flag m' = g_monitor_exit_flag m"
proof -
  define m1 where "m1 = foldl (\<lambda>m s. sig_set_flag s m) m signals"
  have "g_SIGUSR1_flag m1" "g_SIGTERM_flag m1" using assms(2,3) by (simp_all add: m1_def signals_set)
  moreover have "g_monitor_exit_flag m1 = g_monitor_exit_flag m" by (simp add: m1_def)
  ultimately show ?thesis using assms(1) by (simp add: monitor_step_def m1_def [symmetric] sig_proc_def)
qed

definition listener_sockets :: "main_env \<Rightarrow> int list" where
  "listener_sockets me = map (\<lambda>l. na_sock (ls_netaddr (listens (me_worker me) l))) (me_listen_session_list me)"

text \<open>\<open>putenv\<close> of a text with a name and \<open>=\<close>.\<close>

definition keeps_environment :: "'w start_os \<Rightarrow> bool" where
  "keeps_environment os \<longleftrightarrow> so_malloc os = (\<lambda>w. (True, w))
     \<and> (\<forall>name value w. CHR ''='' \<notin> set name \<longrightarrow> so_getenv os (so_putenv os (name @ ''='' @ value) w) name = Some value)"

lemma sockets_handed_over:
  assumes "keeps_environment os" "SaveListenSockets os me w = (0, w')" "listener_sockets me = socks" "socks \<noteq> []"
    and "me_listen_session_count me = int (length socks)" "is_socket (int (length socks))"
    and "\<forall>s \<in> set socks. is_socket s \<and> so_getsockname os s w' = Some (name s)"
  shows "LoadOldListenSockets os w' = (0, Some (map (taken_over name) socks), w')"
proof -
  have m: "so_malloc os = (\<lambda>w. (True, w))" using assms(1) by (simp add: keeps_environment_def)
  obtain val where v: "sockets_text (int (length socks)) socks = HETAO_LISTEN_SOCKFDS @ ''='' @ val"
    "so_getenv os w' HETAO_LISTEN_SOCKFDS = Some val \<longrightarrow> LoadOldListenSockets os w' = (0, Some (map (taken_over name) socks), w')"
    using handed_over [OF assms(4,6,7) m] by blast
  have "w' = so_putenv os (HETAO_LISTEN_SOCKFDS @ ''='' @ val) w"
    using assms(2,3,5) m v(1) by (simp add: SaveListenSockets_def listener_sockets_def)
  moreover have "CHR ''='' \<notin> set HETAO_LISTEN_SOCKFDS" by (simp add: HETAO_LISTEN_SOCKFDS_def)
  ultimately have "so_getenv os w' HETAO_LISTEN_SOCKFDS = Some val" using assms(1) by (simp add: keeps_environment_def)
  then show ?thesis using v(2) by blast
qed

text \<open>A listener that is configured with a port alone goes on with a socket bound to it.\<close>

lemma port_goes_on:
  assumes "s \<in> set socks" "snd (name s) = port"
  shows "\<exists>t old. t \<in> set socks \<and> snd (name t) = port
     \<and> GetListener (Some (map (taken_over name) socks)) [] (int port) = Some ((taken_over name t)\<lparr>na_ip := []\<rparr>, old)"
proof -
  have "\<exists>na \<in> set (map (taken_over name) socks). na_port na = int port" using assms by (auto simp: taken_over_def)
  from split_list_first_prop [OF this] obtain xs na ys where
    s: "map (taken_over name) socks = xs @ na # ys" "na_port na = int port" "\<forall>y \<in> set xs. na_port y \<noteq> int port" by blast
  then obtain t where t: "t \<in> set socks" "na = taken_over name t" by (metis in_set_conv_decomp list.set_map image_iff)
  then have "snd (name t) = port" using s(2) by (simp add: taken_over_def)
  moreover have "GetListener (Some (map (taken_over name) socks)) [] (int port) = Some (na\<lparr>na_ip := []\<rparr>, xs @ na\<lparr>na_ip := []\<rparr> # ys)"
    unfolding s(1) using s(2,3) by (rule port_taken_over [rotated])
  ultimately show ?thesis using t by blast
qed

end
