(* ===== verification/HetaoCrew.thy ===== *)
theory HetaoCrew
  imports HetaoSites HetaoProcesses
begin

text \<open>
  Systems for the theorems on the processes: one that numbers its processes and lets the youngest end first, one
  whose world is the environment of the process, and one that refuses to register a socket a second time.
\<close>

definition idle_worker :: "'w worker_os" where
  "idle_worker = \<lparr>os_sys = idle_sys, os_inotify_init = (\<lambda>w. (4, w)), os_epoll_wait = (\<lambda>w. (Some [], w)),
     os_second_elapse = (\<lambda>w. (False, w)), os_second_clear = (\<lambda>w. w), os_epoll_add_other = (\<lambda>_ _ w. (0, w)),
     os_read_pipe = (\<lambda>w. (Pipe_failed, w)), os_open_log = (\<lambda>_ w. (3, w))\<rparr>"

definition idle_monitor :: "'w monitor_os" where
  "idle_monitor = \<lparr>mo_start = idle_start, mo_worker = (\<lambda>_. idle_worker), mo_pipe = (\<lambda>w. (Some (8, 9), w)), mo_write = (\<lambda>_ _ w. w),
     mo_set_log_name = (\<lambda>w. w), mo_fork = (\<lambda>w. (- 1, w)),
     mo_refork = (\<lambda>w. (\<lparr>rf_seen = - 1, rf_left = - 1, rf_eintr = False, rf_signals = []\<rparr>, w)), mo_execvp = (\<lambda>_ w. (True, w)),
     mo_waitpid = (\<lambda>w. (Wait_failed, [], w)), mo_sleep = (\<lambda>w. w), mo_setuid = (\<lambda>_ w. w), mo_setgid = (\<lambda>_ w. w),
     mo_start_timer = (\<lambda>w. (True, w)), mo_used_counts = (\<lambda>_ _. 0), mo_chdir = (\<lambda>_ w. w)\<rparr>"

section \<open>Numbered processes\<close>

type_synonym crew = "nat \<times> nat list"  \<comment> \<open>the next number, and the processes that run\<close>

definition crew_alive :: "crew \<Rightarrow> int set" where
  "crew_alive c = (\<lambda>k. int k + 1) ` (set (snd c) \<inter> {..<fst c})"

definition crew_issued :: "crew \<Rightarrow> int set" where
  "crew_issued c = (\<lambda>k. int k + 1) ` {..<fst c}"

definition crew_fork :: "crew \<Rightarrow> int \<times> crew" where
  "crew_fork c = (int (fst c) + 1, (fst c + 1, fst c # snd c))"

definition crew_wait :: "crew \<Rightarrow> wait_result \<times> signal list \<times> crew" where
  "crew_wait c = (case filter (\<lambda>k. k < fst c) (snd c) of
     [] \<Rightarrow> (Wait_failed, [], c)
   | k # _ \<Rightarrow> (Ended (int k + 1), [], (fst c, filter (\<lambda>j. j \<noteq> k) (snd c))))"

definition crew_os :: "crew monitor_os" where
  "crew_os = idle_monitor\<lparr>mo_fork := crew_fork, mo_waitpid := crew_wait,
     mo_refork := (\<lambda>c. (\<lparr>rf_seen = int (fst c) + 1, rf_left = int (fst c) + 1, rf_eintr = False, rf_signals = []\<rparr>, snd (crew_fork c)))\<rparr>"

lemma crew_forked: "forked crew_alive crew_issued c (int (fst c) + 1) (snd (crew_fork c))"
  by (auto simp: forked_def crew_alive_def crew_issued_def crew_fork_def less_Suc_eq)

lemma crew_waited:
  "crew_wait c = (r, signals, c') \<Longrightarrow> crew_issued c' = crew_issued c
     \<and> (case r of Ended pid \<Rightarrow> pid \<in> crew_alive c \<and> crew_alive c' = crew_alive c - {pid} | _ \<Rightarrow> crew_alive c' = crew_alive c)"
proof -
  assume w: "crew_wait c = (r, signals, c')"
  show ?thesis
  proof (cases "filter (\<lambda>k. k < fst c) (snd c)")
    case Nil
    then show ?thesis using w by (auto simp: crew_wait_def)
  next
    case (Cons k ks)
    then have "k \<in> set (filter (\<lambda>k. k < fst c) (snd c))" by simp
    then have k: "k < fst c" "k \<in> set (snd c)" by simp_all
    have "r = Ended (int k + 1)" "c' = (fst c, filter (\<lambda>j. j \<noteq> k) (snd c))" using w Cons by (simp_all add: crew_wait_def)
    then show ?thesis using k by (auto simp: crew_alive_def crew_issued_def)
  qed
qed

lemma crew_children: "children_kept crew_os crew_alive crew_issued"
proof -
  have "crew_alive c \<subseteq> crew_issued c" for c by (auto simp: crew_alive_def crew_issued_def)
  then show ?thesis using crew_forked crew_waited
    by (auto simp: children_kept_def crew_os_def idle_monitor_def idle_start_def idle_sys_def same_children_def crew_fork_def)
qed

lemma crew_ends: "crew_alive c \<noteq> {} \<Longrightarrow> \<exists>pid c'. mo_waitpid crew_os c = (Ended pid, [], c')"
proof -
  assume "crew_alive c \<noteq> {}"
  then have "filter (\<lambda>k. k < fst c) (snd c) \<noteq> []" by (auto simp: crew_alive_def filter_empty_conv)
  then show ?thesis by (cases "filter (\<lambda>k. k < fst c) (snd c)") (simp_all add: crew_os_def crew_wait_def)
qed

section \<open>An environment, and a system that remembers\<close>

definition env_start :: "bytes start_os" where
  "env_start = idle_start\<lparr>so_putenv := (\<lambda>s w. s), so_getsockname := (\<lambda>s w. Some (0, 80)),
     so_getenv := (\<lambda>w name. if take (length name + 1) w = name @ ''='' then Some (drop (length name + 1) w) else None)\<rparr>"

lemma env_keeps: "keeps_environment env_start"
  by (simp add: keeps_environment_def env_start_def idle_start_def)

definition registered_os :: "unit monitor_os" where
  "registered_os = idle_monitor\<lparr>mo_worker := (\<lambda>_. idle_worker\<lparr>os_sys := idle_sys\<lparr>sys_epoll_ctl := (\<lambda>op fd _ w.
     (if op = EPOLL_CTL_ADD \<and> fd = 6 then - 1 else 0, w))\<rparr>\<rparr>)\<rparr>"

text \<open>An environment with one listener, on the socket 6.\<close>

definition listening_env :: main_env where
  "listening_env = zero_main_env\<lparr>me_worker_processes := 2, me_listen_session_list := [0], me_listen_session_count := 1,
     me_worker := zero_hetao_env\<lparr>listens := (\<lambda>_. zero_listen\<lparr>ls_netaddr := zero_netaddr\<lparr>na_sock := 6\<rparr>\<rparr>)\<rparr>\<rparr>"

section \<open>The monitor with two workers\<close>

lemma crew_started:
  "\<exists>m0. start_workers crew_os z node mem alloc [0..<2] (new_master listening_env) (0, []) = Some (None, m0, (2, [1, 0]))
     \<and> map pi_pid (ma_info m0) = [1, 2] \<and> \<not> g_monitor_exit_flag m0"
  by (simp add: numeral_2_eq_2 start_worker_def open_pipe_def crew_os_def idle_monitor_def crew_fork_def upd_info_def new_master_def
      listening_env_def idle_start_def idle_sys_def)

lemma crew_simps:
  "mo_waitpid crew_os = crew_wait" "mo_close crew_os fd w = w" "mo_sleep crew_os w = w" "mo_pipe crew_os w = (Some (8, 9), w)"
  by (simp_all add: crew_os_def idle_monitor_def idle_start_def idle_sys_def)

lemma crew_fork_again:
  "fork_again crew_os i m c = Some (None, int (fst c) + 1, upd_info i (\<lambda>p. p\<lparr>pi_pid := int (fst c) + 1\<rparr>) m, snd (crew_fork c))"
  by (subst fork_again.simps) (simp add: crew_os_def)

text \<open>The second worker ends, and a third process takes its place.\<close>

lemma crew_round:
  assumes "map pi_pid (ma_info m0) = [1, 2]" "\<not> g_monitor_exit_flag m0"
  shows "\<exists>m. monitor_reaches crew_os z node mem alloc (2, m0, (2, [1, 0])) (2, m, (3, [2, 0]))
     \<and> map pi_pid (ma_info m) = [1, 3] \<and> \<not> g_monitor_exit_flag m"
proof -
  obtain p q where i: "ma_info m0 = [p, q]" "pi_pid p = 1" "pi_pid q = 2" using assms(1) by (auto simp: map_eq_Cons_conv)
  have "\<exists>m. monitor_step crew_os z node mem alloc 2 m0 (2, [1, 0]) = Some (None, 2, m, (3, [2, 0]))
     \<and> map pi_pid (ma_info m) = [1, 3] \<and> \<not> g_monitor_exit_flag m"
  proof -
    have w: "crew_wait (2, [Suc 0, 0]) = (Ended 2, [], (2, [0]))" by (simp add: crew_wait_def)
    have f: "List.find (\<lambda>i. pi_pid (ma_info m0 ! i) = 2) [0..<length (ma_info m0)] = Some (Suc 0)" by (simp add: i)
    show ?thesis
      using assms(2)
      by (simp add: monitor_step_def crew_simps w f replace_worker_def open_pipe_def crew_fork_again)
        (simp add: crew_fork_def upd_info_def i)
  qed
  then obtain m where m: "monitor_step crew_os z node mem alloc 2 m0 (2, [1, 0]) = Some (None, 2, m, (3, [2, 0]))
     \<and> map pi_pid (ma_info m) = [1, 3] \<and> \<not> g_monitor_exit_flag m" by (rule exE)
  have "monitor_reaches crew_os z node mem alloc (2, m0, (2, [1, 0])) (2, m, (3, [2, 0]))"
    by (rule monitor_reaches.next_wait [OF monitor_reaches.here _ conjunct1 [OF m]]) simp
  then show ?thesis using conjunct2 [OF m] by (intro exI [of _ m] conjI) simp_all
qed

text \<open>The monitor of two workers that has been told to end.\<close>

definition ending_master :: master where
  "ending_master = (new_master listening_env)\<lparr>ma_info := [\<lparr>pi_pid = 1, pi_read = 8, pi_write = 9\<rparr>, \<lparr>pi_pid = 2, pi_read = 8, pi_write = 9\<rparr>],
     g_monitor_exit_flag := True\<rparr>"

lemma ending_manned: "manned crew_alive crew_issued 2 ending_master (2, [1, 0])"
proof -
  have "{1, 2} \<inter> crew_alive (2, [1, 0]) = {1, 2}" "{1, 2} \<subseteq> crew_issued (2, [1, 0])"
    by (auto simp: crew_alive_def crew_issued_def image_iff)
  then show ?thesis by (simp add: manned_def ending_master_def pids_def)
qed

end
