(* ===== verification/Spec2Isabelle.thy ===== *)
theory Spec2Isabelle
  imports HttpParserResume HttpParserChunked HttpPipeline HttpReception HetaoExamples HetaoCrew
begin

text \<open>
  A verification library for hetao, an event-driven HTTP server written in C (\<open>src/src\<close>; the Linux build).

  \<^bold>\<open>The program.\<close>  \<open>main\<close> (\<open>hetao.c\<close>) reads a configuration file (\<open>Config.c\<close>), sets up the environment and the
  listening sockets, which it may have got from an older generation of the server (\<open>Envirment.c\<close>, \<open>ListenSession.c\<close>),
  and becomes the monitor (\<open>MonitorProcess.c\<close>), which forks the workers (\<open>WorkerProcess.c\<close>), replaces those that end,
  and reacts to signals.  Each worker runs an epoll loop (\<open>WorkerThread.c\<close>): listeners accept connections into sessions
  of a pool (\<open>OnAccepting*.c\<close>, \<open>HttpSession*.c\<close>, \<open>IpLimitsHash.c\<close>); sessions receive requests with the library
  \<open>fasterhttp.c\<close> (\<open>OnReceivingSocket.c\<close>), find their virtual host (\<open>VirtualHostHash.c\<close>, \<open>RedirectDomain.c\<close>,
  \<open>RewriteUri.c\<close>), are answered from a cache of pages or from files (\<open>ProcessHttpRequest.c\<close>, \<open>HtmlCache*.c\<close>,
  \<open>MimeTypeHash.c\<close>) or through another server (\<open>On*Forward.c\<close>, \<open>LeastConnectionCountTree.c\<close>), and send the response
  (\<open>OnSendingSocket.c\<close>).  The indexes are the red-black trees of \<open>rbtree.c\<close>.

  \<^bold>\<open>The theories.\<close>  \<open>Prelude\<close>: bytes, C strings, error codes, shared facts.
  The library \<open>fasterhttp.c\<close>: \<open>HttpBuffer\<close> (\<open>struct HttpBuffer\<close> and its functions), \<open>HttpEnv\<close> (\<open>struct HttpEnv\<close>,
  creation, reset, status table, time-outs), \<open>HttpMessage\<close> (accessors, header tokens, start line), \<open>HttpUri\<close>
  (\<open>SplitHttpUri\<close>), \<open>HttpParser\<close> (\<open>ParseHttpBuffer\<close>, one definition per label), \<open>HttpCompress\<close> (compression of
  bodies), \<open>HttpTransport\<close> (sending and receiving).  The theorems on them: \<open>HttpParserSafety\<close> (the invariant),
  \<open>HttpParserCorrect\<close> (parsing a printed request gives it back), \<open>HttpParserResume\<close> (parsing in instalments),
  \<open>HttpParserChunked\<close>, \<open>HttpPipeline\<close> (several messages), \<open>HttpReception\<close>.
  The server: \<open>RbTree\<close>, \<open>RbTreeCorrect\<close>, \<open>HetaoIndex\<close> (trees), \<open>HetaoHash\<close> (tables), \<open>HetaoState\<close> (the
  structures of \<open>hetao_in.h\<close>), \<open>HetaoHost\<close>, \<open>HetaoSession\<close>, \<open>HetaoForward\<close>, \<open>HetaoCache\<close>, \<open>HetaoRequest\<close>,
  \<open>HetaoSocket\<close>, \<open>HetaoWorker\<close>, with the theorems of \<open>HetaoPages\<close>, \<open>HetaoServing\<close>, \<open>HetaoLoop\<close> (the invariant
  \<open>server_ok\<close> of a worker) and \<open>HetaoAnswers\<close> (what a response consists of).
  The start and the processes: \<open>HetaoConfig\<close>, \<open>HetaoConfigCorrect\<close> (the configuration), \<open>HetaoListen\<close>, \<open>HetaoHandover\<close>,
  \<open>HetaoStart\<close> (sockets handed over, listeners and hosts), \<open>HetaoMain\<close> (from the configuration file to the
  environment), \<open>HetaoMonitor\<close>, \<open>HetaoProcesses\<close> (monitor, workers, \<open>main\<close>).  \<open>HetaoExamples\<close>, \<open>HetaoSites\<close>, \<open>HetaoCrew\<close>:
  concrete states and systems for the witnesses.

  \<^bold>\<open>State and operations.\<close>  A structure of the code is a record with the names of its fields, a function of the code a
  definition with its name, and a long function is divided into definitions in the order of its text.  Structures
  that are shared by pointers live in functions from addresses to records (\<open>hetao_env\<close>); a list of the code is the list
  of its elements, a tree the shape that its pointers span.  A call of the operating system, of OpenSSL, zlib or pcre,
  and the generated parser of the configuration file are parameters: fields of the records \<open>'w os\<close>, \<open>'w sys\<close>,
  \<open>'w worker_os\<close>, \<open>config_os\<close>, \<open>'w start_os\<close>, \<open>'w monitor_os\<close> over a world \<open>'w\<close>, of \<open>'z zlib\<close>, or arguments.  What a
  theorem assumes of them is among its hypotheses (\<open>orderly\<close>, \<open>children_kept\<close>, \<open>keeps_environment\<close>, ...).  Errors are
  the return codes of the code; an access outside an object, a null pointer that is followed, a division by zero and a
  run that does not end are \<open>None\<close>.  The characters of an array of \<open>n\<close> are cut where the code cuts them.

  \<^bold>\<open>Interfaces.\<close>  The locales \<open>byte_sink\<close> (appending to a buffer), \<open>header_field\<close> (the fields of the start lines),
  \<open>two_strings\<close> (the search of \<open>strcasestrstr\<close>), \<open>ordered_index\<close> (trees of addresses by key), \<open>keyed_table\<close> (chained
  hash tables), \<open>connection_counter\<close> (connections per address) and \<open>stepwise\<close> (steps that keep a relation) state what
  one component promises to another; each is interpreted on the model where the component is defined.

  \<^bold>\<open>Groups of lemmas.\<close>  Parsing: for every well-formed request the parser ends in one pass and every accessor gives back
  what was printed; received in pieces it gives the same; its positions stay within the buffer.  The server: every
  event of the loop keeps the pool of sessions, the counters of connections, the books on the forward servers and the
  cache of pages in order; what the response to a page request consists of; which server is chosen.  The start: from an
  accepted configuration to an environment that satisfies this invariant and serves every configured site.  The
  processes: every place of a worker stays manned, the shutdown completes, sockets go on in the next generation.
  Several theorems state how the code fails (C3, C9, C11, C12, C15, C16, C25, C28, C29, C31, C36, C37, C40).

  \<^bold>\<open>Loops.\<close>  No loop is bounded by fuel.  Loops over lists, arrays and trees are structural recursion; the parser and the
  loops over tokens have a measure; loops that may not end (growing a buffer, \<open>strcasestrstr\<close> aside; receiving and
  sending, the recursion over index files, the worker, the monitor, the expansion of variables and included files) are
  partial functions, and where a theorem claims that one ends, it claims \<open>Some\<close>.

  \<^bold>\<open>Not modelled.\<close>  Logging (\<open>LOGC.c\<close>) and messages to the terminal; the timer thread (\<open>TimerThread.c\<close>: it sets the flag
  that the loop of a worker gets as a parameter) and the binding to a processor; options of sockets; the Windows branches,
  \<open>WindowsService.c\<close>, \<open>minihetao.c\<close> and \<open>hetaocheck.c\<close>; \<open>IDL_hetao_conf.dsc.c\<close>, which is generated, with the tokenizer
  \<open>fasterjson.c\<close> that only it calls; the intrusive lists of \<open>list.h\<close>, taken from Linux; the vendored headers.
  Processes and threads are modelled one at a time; the one place where an interleaving decides, the process
  identifier in shared memory, is modelled by the steps of both processes (\<open>race_step\<close>).
\<close>

section \<open>Parsing messages\<close>

text \<open>C1. Round trip of requests: every request that can be printed (any known method, any number of headers,
  with or without a body) is parsed with return code 0 from the bytes of its printed form, whatever
  follows it, and the accessors return its method, URI, version, header names and values in order and
  its body; the parser stops exactly behind it.\<close>

theorem request_round_trip:
  assumes "good_request mt u nvs body" "fresh_env e" "buffer_ok (request_buffer e)"
    and "unprocessed (request_buffer e) = request_text mt u nvs body @ rest" "\<And>n. alloc n"
  shows "\<exists>e'. ParseHttpRequest alloc l e = (0, e') \<and> parse_step e' = PARSESTEP_DONE
    \<and> delivers l e' (mt, u, nvs, body) \<and> unprocessed (request_buffer e') = rest"
  using parsed_request [where alloc = alloc and l = l, OF assms] by blast

theorem request_round_trip_witness:
  "\<exists>e'. ParseHttpRequest (\<lambda>_. True) http_lib_init
       (received (request_text ''POST'' ''/a'' [(''Host'', ''h'')] ''xyz'' @ ''GET'')) = (0, e')
     \<and> delivers http_lib_init e' (''POST'', ''/a'', [(''Host'', ''h'')], ''xyz'')
     \<and> unprocessed (request_buffer e') = ''GET''"
proof -
  have "good_request ''POST'' ''/a'' [(''Host'', ''h'')] ''xyz''"
    by (simp add: good_request_def method_number_def good_uri_def good_header_def unchunked_def ci_eq_def)
  then show ?thesis
    using request_round_trip [where alloc = "\<lambda>_. True" and l = http_lib_init
      and e = "received (request_text ''POST'' ''/a'' [(''Host'', ''h'')] ''xyz'' @ ''GET'')"] by simp blast
qed

text \<open>C2. Requests sent ahead: when the buffer holds the printed forms of several requests, each but the last
  with a body, the cycle of \<open>ParseHttpRequest\<close> and \<open>ResetHttpEnv\<close> delivers each of them, in order.\<close>

theorem requests_served_in_order:
  assumes "\<forall>rq \<in> set rqs. rq_good rq" "\<forall>rq \<in> set (butlast rqs). rq_body rq \<noteq> []"
    and "fresh_env e" "writable (request_buffer e)" "unprocessed (request_buffer e) = concat (map rq_text rqs)"
    and "\<And>n. alloc n"
  shows "serve_all alloc l e rqs"
  using assms by (rule served_in_order)

theorem requests_served_in_order_witness:
  "serve_all (\<lambda>_. True) http_lib_init
     (received (request_text ''PUT'' ''/a'' [] ''x'' @ request_text ''GET'' ''/b'' [(''Host'', ''h'')] []))
     [(''PUT'', ''/a'', [], ''x''), (''GET'', ''/b'', [(''Host'', ''h'')], [])]"
  by (rule requests_served_in_order)
     (simp_all add: good_request_def method_number_def good_uri_def good_header_def unchunked_def ci_eq_def)

text \<open>C3. Bytes that follow a request without a body are forgotten by \<open>ResetHttpEnv\<close>: the parser does not mark
  the environment for reforming on that path.\<close>

theorem bodyless_request_drops_followers:
  assumes "good_request mt u nvs []" "fresh_env e" "buffer_ok (request_buffer e)" "reforming_flag e = 0"
    and "unprocessed (request_buffer e) = request_text mt u nvs [] @ rest" "\<And>n. alloc n"
  shows "\<exists>e'. ParseHttpRequest alloc l e = (0, e') \<and> unprocessed (request_buffer e') = rest
     \<and> unprocessed (request_buffer (ResetHttpEnv alloc e')) = []"
  using assms by (rule bodyless_dropped)

theorem bodyless_request_drops_followers_witness:
  "\<exists>e'. ParseHttpRequest (\<lambda>_. True) http_lib_init
       (received (request_text ''GET'' ''/a'' [] [] @ request_text ''GET'' ''/b'' [] [])) = (0, e')
     \<and> unprocessed (request_buffer e') = request_text ''GET'' ''/b'' [] []
     \<and> unprocessed (request_buffer (ResetHttpEnv (\<lambda>_. True) e')) = []"
  by (rule bodyless_request_drops_followers)
     (simp_all add: good_request_def method_number_def good_uri_def unchunked_def)







section \<open>The server\<close>











text \<open>C12. The request for a directory whose only index file is itself a directory never returns: the loop over the index
  files starts itself again for ever.\<close>

theorem directory_as_index_never_returns:
  assumes "directory_index sys alloc env a root name w" "strtok '','' index = Some (name, [])"
  shows "process_names sys z alloc page env a root index index w = None"
  using assms by (rule directory_index_never_returns)

theorem directory_as_index_never_returns_witness:
  "process_names directories stored_zlib (\<lambda>_. True) True busy_env 0 ''/www/'' ''doc'' ''doc'' () = None"
  by (rule directory_as_index_never_returns [OF busy_directory]) (simp add: strtok_def)

text \<open>C13. Change notifications: the handler returns, keeps the cache in order and leaves no session sending from a page
  that has gone; on success exactly the pages whose watch descriptors were reported are dropped.\<close>

theorem changed_pages_dropped:
  assumes "cache_ok env" "borrow_ok env"
  shows "\<exists>nret env' w'. HtmlCacheEventHander sys alloc env w = Some (nret, env', w') \<and> cache_ok env' \<and> borrow_ok env'
     \<and> cached env' \<subseteq> cached env
     \<and> (nret = 0 \<longrightarrow> inj_on (wd_key env) (cached env) \<longrightarrow> (\<exists>ds. fst (sys_notified sys w) = Some ds
          \<and> cached env' = {c \<in> cached env. wd_key env c \<notin> set ds}))"
  using HtmlCacheEventHander_ok [OF assms refl, of sys alloc w] by blast

theorem changed_pages_dropped_witness:
  "\<exists>nret env' w'. HtmlCacheEventHander (idle_sys\<lparr>sys_notified := \<lambda>w. (Some [7], w)\<rparr>) (\<lambda>_. True) paged_env () = Some (nret, env', w')
     \<and> borrow_ok env' \<and> (nret = 0 \<longrightarrow> cached env' = {})"
proof -
  have "cached paged_env = {0}" "wd_key paged_env 0 = 7" by (simp_all add: paged_env_def cached_def busy_env_def)
  then show ?thesis
    using changed_pages_dropped [OF paged_ok(1,2), of "idle_sys\<lparr>sys_notified := \<lambda>w. (Some [7], w)\<rparr>" "\<lambda>_. True" "()"]
    by fastforce
qed

text \<open>C14. The sweep over expired sessions returns, for every pool that is in order, and leaves exactly the sessions in use
  of which neither the time-out nor the life time has expired.\<close>

theorem sweep_releases_expired:
  assumes "pool_ok env" "clock_stands sys now"
  shows "\<exists>env' w'. second_sweep sys alloc env w = Some (env', w') \<and> pool_ok env' \<and> (counted env \<longrightarrow> counted env')
     \<and> used env' = {a \<in> used env. now < timeout_key env a \<and> now < elapse_key env a}"
  using assms by (rule second_sweep_ok)

theorem sweep_releases_expired_witness:
  "\<exists>env' w'. second_sweep idle_sys (\<lambda>_. True) busy_env () = Some (env', w') \<and> pool_ok env' \<and> used env' = {}"
proof -
  have "{a \<in> used busy_env. 1000 < timeout_key busy_env a \<and> 1000 < elapse_key busy_env a} = {}"
    by (auto simp: busy_env_def zero_session_def)
  then show ?thesis
    using sweep_releases_expired [OF busy_pool(1) idle_clock, of "\<lambda>_. True" "()"] by metis
qed



text \<open>C16. When the pool is full a refused connection stays counted for its address: the counter of the address is one
  higher although no session was handed out.\<close>

theorem full_pool_leaks_count:
  assumes "counted env" "limits__max_connections_per_ip env \<noteq> - 1"
    and "ip_count (iplimits_hash env) ip = 0 \<or> ip_count (iplimits_hash env) ip < limits__max_connections_per_ip env"
    and "http_session_unused_count env = 0" "http_session_used_count env \<ge> limits__max_http_session_count env"
  shows "\<exists>env'. FetchHttpSessionUnused sys True mem alloc env ip w = Some (None, env', w) \<and> used env' = used env
     \<and> ip_count (iplimits_hash env') ip = ip_count (iplimits_hash env) ip + 1"
  using assms by (rule full_pool_keeps_count)

theorem full_pool_leaks_count_witness:
  "\<exists>env'. FetchHttpSessionUnused idle_sys True (\<lambda>_. True) (\<lambda>_. True) (zero_hetao_env\<lparr>limits__max_connections_per_ip := 5\<rparr>) 9 ()
       = Some (None, env', ()) \<and> ip_count (iplimits_hash env') 9 = 1"
proof -
  let ?env = "zero_hetao_env\<lparr>limits__max_connections_per_ip := 5\<rparr>"
  have "counted ?env" "ip_count (iplimits_hash ?env) 9 = 0"
    by (simp_all add: counted_def used_def from_ip_def zero_hetao_env_def ip_table_ok_def ip_chain_ok_def ip_count_def)
  then show ?thesis
    using full_pool_leaks_count [of ?env 9 idle_sys "\<lambda>_. True" "\<lambda>_. True" "()"] by (auto simp: zero_hetao_env_def)
qed

text \<open>C17. Round robin is fair: a forward server that is available is chosen as soon as the servers in front of it in the
  list have had their turn.\<close>

theorem server_selected_soon:
  assumes "round_robin env a h fs" "distinct fs" "f \<in> set fs" "timestamp_to_valid (servers env f) = 0"
    and "length (takeWhile (\<lambda>g. g \<noteq> f) fs) < n"
  shows "\<exists>gs env' w'. select_many sys a n env w = Some (gs, env', w') \<and> f \<in> set gs"
  using selected_soon [OF assms(1-4), of sys n w] assms(5) by blast

theorem server_selected_soon_witness:
  "\<exists>gs env' w'. select_many idle_sys 0 2 (upd_host 0 (\<lambda>v. v\<lparr>forward_rule := ''R'', roundrobin_list := [4, 6]\<rparr>) busy_env) ()
     = Some (gs, env', w') \<and> 6 \<in> set gs"
  by (rule server_selected_soon [where h = 0 and fs = "[4, 6]"])
    (simp_all add: round_robin_def upd_host_def rd_def, simp_all add: busy_env_def zero_hetao_env_def zero_server_def)



text \<open>C19. The table of MIME types refines a finite map: built from any configuration that names every type once, the
  search returns for every name what the map of the configuration holds.\<close>

theorem mime_table_refines_map:
  assumes "confs \<noteq> []" "distinct (map mt_type (concat (map conf_types confs)))"
    and "\<forall>t \<in> set (concat (map conf_types confs)). is_cstr (mt_type t)"
  shows "\<exists>hash. InitMimeTypeHash True confs = Some (0, hash) \<and> (\<forall>s. QueryMimeTypeHashNode hash s =
     Some (map_of (map (\<lambda>t. (mt_type t, t)) (concat (map conf_types confs))) s))"
  using assms by (rule InitMimeTypeHash_map)

theorem mime_table_refines_map_witness:
  "\<exists>hash. InitMimeTypeHash True [\<lparr>mtc_type = ''html htm'', mtc_mime = ''text/html'', mtc_compress_enable = 1\<rparr>] = Some (0, hash)
     \<and> QueryMimeTypeHashNode hash ''htm'' = Some (Some \<lparr>mt_type = ''htm'', mt_mime = ''text/html'', mt_compress_enable = 1\<rparr>)
     \<and> QueryMimeTypeHashNode hash ''css'' = Some None"
proof -
  let ?conf = "\<lparr>mtc_type = ''html htm'', mtc_mime = ''text/html'', mtc_compress_enable = 1\<rparr>"
  have "conf_types ?conf = [\<lparr>mt_type = ''html'', mt_mime = ''text/html'', mt_compress_enable = 1\<rparr>,
      \<lparr>mt_type = ''htm'', mt_mime = ''text/html'', mt_compress_enable = 1\<rparr>]"
    by (simp add: conf_types_def split_names.simps strtok_def)
  then show ?thesis using mime_table_refines_map [of "[?conf]"] by (auto simp: is_cstr_def)
qed

text \<open>C20. The operations of the index trees: insertion by key, which \<open>rb_insert_color\<close> completes, returns a red-black tree
  with the new node in its place in the order of the keys, and \<open>rb_erase\<close> takes it out again, leaving a red-black
  tree with the old nodes in the old order.\<close>

theorem tree_stays_red_black:
  assumes "rb_ok t" "distinct (inorder t)" "x \<notin> set (inorder t)" "sorted (map key (inorder t))"
  shows "\<exists>t' t''. add_node key x t = Some t' \<and> rb_ok t' \<and> inorder t' = insort_key key x (inorder t)
     \<and> rb_erase x t' = Some t'' \<and> rb_ok t'' \<and> inorder t'' = inorder t"
  using assms by (rule insert_then_erase)

theorem tree_stays_red_black_witness:
  "\<exists>t' t''. add_node int 2 (RB_NODE RB_BLACK (RB_NODE RB_RED RB_NULL 1 RB_NULL) 3 RB_NULL) = Some t' \<and> inorder t' = [1, 2, 3]
     \<and> rb_erase 2 t' = Some t'' \<and> rb_ok t''"
proof -
  let ?t = "RB_NODE RB_BLACK (RB_NODE RB_RED RB_NULL (1 :: nat) RB_NULL) 3 RB_NULL"
  have "rb_ok ?t" by (simp add: rb_ok_def)
  then show ?thesis using tree_stays_red_black [of ?t 2 int] by auto
qed

text \<open>C21. Rewriting: when the pattern matches the URI and the template has one placeholder for a group that is not shorter
  than the placeholder, \<open>RegexReplaceString\<close> returns the template with the group in place of the placeholder, if the
  array is long enough.\<close>

theorem rewriting_replaces:
  assumes "one_placeholder pattern_re uri template_re pre ph post g"
    and "\<And>s. CHR ''('' \<notin> set s \<Longrightarrow> fst (template_re s) = PCRE_ERROR_NOMATCH"
    and "CHR ''('' \<notin> set post" "CHR ''('' \<notin> set rest" "length ph \<le> length g"
    and "2 * (length g - length ph) \<le> length rest" "length g - length ph + length pre < length rest"
  shows "\<exists>rest'. RegexReplaceString pattern_re uri template_re (pre @ ph @ post @ rest) (int (length (pre @ ph @ post)))
     = Some (0, pre @ g @ post @ rest', int (length (pre @ g @ post)))"
  using assms by (rule rewrite_replaces)

theorem rewriting_replaces_witness:
  "\<exists>rest'. RegexReplaceString (\<lambda>_. (2, [0, 8, 3, 8])) ''/a/hello'' (\<lambda>s. if CHR ''('' \<in> set s then (2, [3, 6, 3, 6]) else (- 1, []))
     (''/x/'' @ ''(1)'' @ [] @ replicate 8 NUL) (int (length (''/x/'' @ ''(1)'' @ []))) =
       Some (0, ''/x/'' @ ''hello'' @ [] @ rest', int (length (''/x/'' @ ''hello'' @ [])))"
  by (rule rewriting_replaces)
    (simp_all add: one_placeholder_def placeholder_index_def group_of_def slice_def char_int_def)



section \<open>The start of the program\<close>



text \<open>C24. Environment variables in the file names of the configuration: for a text with any number of variables, all set to
  values without the character that marks variables, the result is the text with each variable replaced, provided that
  the text and all the lengths that the replacements add fit into the field.\<close>

theorem variables_expanded:
  assumes "expands (co_getenv os) s t k" "co_alloc os" "int (length s) + k < cap"
  shows "StringExpandEnvval os s cap = Some (Expanded 0 t)"
  using assms by (rule expansion_correct)

theorem variables_expanded_witness:
  "StringExpandEnvval (files_os\<lparr>co_getenv := (\<lambda>_. Some ''/home'')\<rparr>) ''$HOME$/log'' 257 = Some (Expanded 0 ''/home/log'')"
proof -
  have "expands (\<lambda>_. Some ''/home'') ([] @ DOLLAR # ''HOME'' @ DOLLAR # ''/log'') ([] @ ''/home'' @ ''/log'') (max 0 (int (length ''/home'') - int (length ''HOME'') - 2) + 0)"
    by (intro expands.variable expands.no_variable) simp_all
  then show ?thesis
    using variables_expanded [of "files_os\<lparr>co_getenv := (\<lambda>_. Some ''/home'')\<rparr>" "''$HOME$/log''" "''/home/log''" 0 257]
    by (simp add: files_os_def)
qed

text \<open>C25. A flaw of this function: the length that is checked is the one of the original text, so two variables whose
  values fit one at a time are both written, and the second one beyond the end of the field.\<close>

theorem second_variable_overruns:
  assumes "DOLLAR \<notin> set n" "co_getenv os n = Some v" "DOLLAR \<notin> set v" "co_alloc os"
    and "int (length v) + int (length n) + 2 < cap" "cap \<le> 2 * int (length v)"
  shows "StringExpandEnvval os (DOLLAR # n @ DOLLAR # DOLLAR # n @ [DOLLAR]) cap = Some Overrun"
  using assms by (rule two_variables_overrun)

theorem second_variable_overruns_witness:
  "StringExpandEnvval (files_os\<lparr>co_getenv := (\<lambda>_. Some (replicate 200 (CHR ''x'')))\<rparr>) ''$A$$A$'' 257 = Some Overrun"
  using second_variable_overruns [of "''A''" "files_os\<lparr>co_getenv := (\<lambda>_. Some (replicate 200 (CHR ''x'')))\<rparr>" "replicate 200 (CHR ''x'')" 257]
  by (simp add: files_os_def)



text \<open>C27. The end of the server: once the monitor has been told to end it starts nothing any more, and when the system goes
  on to report the ends of the children, its loop is left; then none of the workers runs.\<close>

theorem shutdown_completes:
  assumes "children_kept os alive issued" "manned alive issued count m w" "g_monitor_exit_flag m" "finite (alive w)"
    and "\<forall>w. alive w \<noteq> {} \<longrightarrow> (\<exists>pid w'. mo_waitpid os w = (Ended pid, [], w'))"
  shows "\<exists>m' w'. monitor_loop os z node mem alloc count m w = Some (None, m', w') \<and> set (pids m') \<inter> alive w' = {}"
  using assms by (rule shutdown)

theorem shutdown_completes_witness:
  "\<exists>m' w'. monitor_loop crew_os stored_zlib True (\<lambda>_. True) (\<lambda>_. True) 2 ending_master (2, [1, 0]) = Some (None, m', w')
     \<and> set (pids m') \<inter> crew_alive w' = {}"
proof (rule shutdown_completes [OF crew_children])
  show "manned crew_alive crew_issued 2 ending_master (2, [1, 0])" by (rule ending_manned)
  show "g_monitor_exit_flag ending_master" by (simp add: ending_master_def)
  show "finite (crew_alive (2, [1, 0]))" by (simp add: crew_alive_def)
  show "\<forall>w. crew_alive w \<noteq> {} \<longrightarrow> (\<exists>pid w'. mo_waitpid crew_os w = (Ended pid, [], w'))" using crew_ends by blast
qed

text \<open>C28. A race at the replacement of a worker: the result of \<open>fork\<close> is stored in memory that parent and child share and is
  read back from there.  Of what parent and child read and what stays in the slot exactly four combinations are
  possible, and only \<open>(pid, 0, pid)\<close> is the intended one: both may read 0, and then the monitor runs as a worker; both may
  read the identifier, and then the child runs as a second monitor; and 0 may stay in the slot, and then the end of the
  new worker is not recognised any more.\<close>

theorem restart_race:
  assumes "pid \<noteq> 0"
  shows "race_result old pid p c left \<longleftrightarrow> (p, c, left) \<in> {(pid, 0, pid), (pid, 0, 0), (0, 0, 0), (pid, pid, pid)}"
  using race_results [OF assms, of old p c left] by auto

theorem restart_race_witness:
  "race_result 41 42 0 0 0 \<and> race_result 41 42 42 42 42 \<and> \<not> race_result 41 42 0 42 42"
  using restart_race [of 42 41 0 0 0] restart_race [of 42 41 42 42 42] restart_race [of 42 41 0 42 42] by simp



text \<open>C30. A new generation of the server gets the sockets of the old one: what \<open>SaveListenSockets\<close> puts into the environment,
  \<open>LoadOldListenSockets\<close> reads back as the same sockets in the same order, each with the address and port that it is
  bound to; and a listener that is configured with a port alone goes on with such a socket.\<close>

theorem sockets_go_on:
  assumes "keeps_environment os" "SaveListenSockets os me w = (0, w')" "listener_sockets me = socks" "socks \<noteq> []"
    and "me_listen_session_count me = int (length socks)" "is_socket (int (length socks))"
    and "\<forall>s \<in> set socks. is_socket s \<and> so_getsockname os s w' = Some (name s)"
  shows "LoadOldListenSockets os w' = (0, Some (map (taken_over name) socks), w')
     \<and> (\<forall>s \<in> set socks. \<exists>t old. t \<in> set socks \<and> snd (name t) = snd (name s)
          \<and> GetListener (Some (map (taken_over name) socks)) [] (int (snd (name s))) = Some ((taken_over name t)\<lparr>na_ip := []\<rparr>, old))"
  using sockets_handed_over [OF assms] port_goes_on by blast

theorem sockets_go_on_witness:
  "LoadOldListenSockets env_start (snd (SaveListenSockets env_start listening_env []))
     = (0, Some [\<lparr>na_ip = printed_address 80, na_port = 80, na_sock = 6, na_addr = 0\<rparr>], snd (SaveListenSockets env_start listening_env []))"
proof -
  have s: "SaveListenSockets env_start listening_env [] = (0, snd (SaveListenSockets env_start listening_env []))"
    by (simp add: SaveListenSockets_def env_start_def idle_start_def)
  have "listener_sockets listening_env = [6]" "me_listen_session_count listening_env = int (length [6::int])"
    by (simp_all add: listener_sockets_def listening_env_def)
  then show ?thesis
    using sockets_go_on [OF env_keeps s, of "[6]" "\<lambda>_. (0, 80)"] by (simp add: is_socket_def env_start_def taken_over_def)
qed

text \<open>C31. A flaw of the same: a listener that is configured with an address does not find its old socket, as the addresses
  are compared with the literal \<open>"ip"\<close>.  It then tries to bind a new socket to an address that is in use.\<close>

theorem address_not_reused:
  assumes "LoadOldListenSockets os w = (0, old, w')" "ip \<noteq> []"
  shows "GetListener old ip port = None"
  using assms by (rule address_not_taken_over)

theorem address_not_reused_witness:
  "\<exists>na w. LoadOldListenSockets env_start w = (0, Some [na], w) \<and> na_port na = 80 \<and> GetListener (Some [na]) ''127.0.0.1'' 80 = None"
proof -
  define w where "w = snd (SaveListenSockets env_start listening_env [])"
  have s: "SaveListenSockets env_start listening_env [] = (0, w)" by (simp add: w_def SaveListenSockets_def env_start_def idle_start_def)
  have "listener_sockets listening_env = [6]" "me_listen_session_count listening_env = int (length [6::int])"
    by (simp_all add: listener_sockets_def listening_env_def)
  then have l: "LoadOldListenSockets env_start w = (0, Some [taken_over (\<lambda>_. (0, 80)) 6], w)"
    using sockets_handed_over [OF env_keeps s, of "[6]" "\<lambda>_. (0, 80)"] by (simp add: is_socket_def env_start_def)
  show ?thesis using address_not_reused [OF l, of "''127.0.0.1''" 80] l
    by (intro exI [of _ "taken_over (\<lambda>_. (0, 80)) 6"] exI [of _ w]) (simp add: taken_over_def)
qed

section \<open>Buffers\<close>

text \<open>C32. A chain of appends, as the server uses it to print a response, returns, keeps the buffer sound, and
  on success has appended exactly the concatenation of the pieces, however often the area had to grow.\<close>

theorem appends_concatenate:
  assumes "writable b"
  shows "\<exists>nret b'. put_all (StrcatfHttpBuffer alloc) b ss = Some (nret, b') \<and> writable b'
     \<and> (nret = 0 \<longrightarrow> content b' = content b @ concat ss)"
  using assms by (rule strcatf_sink.put_all_returns)

theorem appends_concatenate_witness:
  "\<exists>nret b'. put_all (StrcatfHttpBuffer (\<lambda>_. True)) (received_buffer ''ab'') [''cd'', ''efgh''] = Some (nret, b')
     \<and> writable b' \<and> (nret = 0 \<longrightarrow> content b' = ''abcdefgh'')"
  using appends_concatenate [OF received_buffer_ok(1) [of "''ab''"], of "\<lambda>_. True" "[''cd'', ''efgh'']"]
  by (simp add: received_buffer_def content_def area_def)

section \<open>Transport\<close>

text \<open>C33. Sending without blocking: between two calls of the driver nothing is lost, repeated or reordered.  What
  went out on the wire followed by what is still pending (the rest of the message, then of the appended
  buffer) stays the same, and return code 0 means that nothing is pending.\<close>

theorem nonblocking_send_loses_nothing:
  assumes "send_law os wire" "sendable l r e" "send_once SendHttpBuffer os l r e w = (nret, e', w')"
  shows "wire w' @ pending_bytes l r e' = wire w @ pending_bytes l r e \<and> sendable l r e'
    \<and> (nret = 0 \<longrightarrow> pending_bytes l r e' = [])"
  using assms by (rule send_once_wire)

theorem nonblocking_send_loses_nothing_witness:
  "case send_once SendHttpBuffer pipe_os http_lib_init ResponseBuffer answering [] of
     (nret, e', w') \<Rightarrow> w' @ pending_bytes http_lib_init ResponseBuffer e' = ''HTTP/1.1 200 OKbody''"
proof -
  obtain nret e' w' where s: "send_once SendHttpBuffer pipe_os http_lib_init ResponseBuffer answering [] = (nret, e', w')"
    by (metis prod_cases3)
  show ?thesis
    using nonblocking_send_loses_nothing [OF pipe_os_laws(1) answering_sendable(1) s] s answering_sendable(2) by simp
qed

text \<open>C34. Sending with blocking: on a network that takes at least one byte per call the driver returns 0, and
  exactly the message and the appended buffer have gone out.\<close>

theorem blocking_send_delivers:
  assumes "taking os" "send_law os wire" "sendable l r e"
  shows "\<exists>e' w'. send_loop os l r e w = Some (0, e', w') \<and> wire w' = wire w @ pending_bytes l r e
     \<and> pending_bytes l r e' = []"
  using assms by (rule send_loop_delivers)

theorem blocking_send_delivers_witness:
  "\<exists>e' w'. send_loop pipe_os http_lib_init ResponseBuffer answering [] = Some (0, e', w')
     \<and> w' = ''HTTP/1.1 200 OKbody''"
  using blocking_send_delivers [OF pipe_os_laws(2,1) answering_sendable(1), of http_lib_init "[]"]
    answering_sendable(2) by auto



text \<open>C36. The byte behind a complete message is overwritten with a NUL when the reception ends: the first byte of
  what the client sent ahead is lost, although it still counts as unprocessed.\<close>

theorem byte_behind_message_lost:
  assumes "r \<noteq> StatusCodeBuffer" "buffer_ok (buffer_at l e r)" "after_hook e = None"
    and "unprocessed (buffer_at l e r) = c # rest"
    and "QueryHttpHeaderPtr l (set_buffer r ((buffer_at l e r)\<lparr>base :=
           Some (write_at (process_ptr (buffer_at l e r)) [NUL] (area (buffer_at l e r)))\<rparr>) e) ''Content-Encoding'' = None"
  shows "\<exists>e'. end_receive z alloc l hook r e = Some (0, e') \<and> unprocessed (buffer_at l e' r) = NUL # rest
     \<and> headers e' = headers e \<and> buffer_ok (buffer_at l e' r)"
  using assms by (rule end_receive_overwrites)

theorem byte_behind_message_lost_witness:
  "\<exists>e'. end_receive stored_zlib (\<lambda>_. True) http_lib_init (\<lambda>_ e _. (0, e)) RequestBuffer followed = Some (0, e')
     \<and> unprocessed (request_buffer e') = [NUL]"
proof -
  have u: "unprocessed (buffer_at http_lib_init followed RequestBuffer) = CHR ''G'' # []"
    using followed_facts(3) by simp
  show ?thesis
    using byte_behind_message_lost [OF _ _ followed_facts(2) u followed_facts(4), of stored_zlib "\<lambda>_. True" "\<lambda>_ e _. (0, e)"]
      followed_facts(1) by auto
qed


section \<open>Compression\<close>



text \<open>C39. The hand-written search for the \<open>Content-Encoding\<close> header or the end of the headers, whichever comes
  first, terminates on every string and agrees with the naive search.\<close>

theorem encoding_search_correct:
  "strcasestrstr s ''Content-Encoding'' [CR, LF, CR, LF]
     = Some (first_of ''Content-Encoding'' [CR, LF, CR, LF] (cstr s))"
  by (rule encoding_search.found)

text \<open>C40. Chunk sizes of two or more hexadecimal digits are read too small: the digits are accumulated with
  base ten.\<close>

theorem chunk_size_misread:
  assumes "\<forall>d \<in> set (c # ds). hex_value d \<noteq> None" "hex_value c \<noteq> Some 0" "ds \<noteq> []"
    and "text_at m p ((c # ds) @ [CR, LF])" "p + length (c # ds) + 2 \<le> fill" "chunked_length e = 0"
  shows "chunked_length (fst (chunk_size_scan m fill e p)) < hex_fold 16 0 (c # ds)"
  using hex_size_misread [OF assms(1-3)] hex_size_line [OF assms(4-6,1)] by simp

theorem chunk_size_misread_witness:
  "chunked_length (fst (chunk_size_scan (''1a'' @ [CR, LF]) 4 zero_env 0)) < 26"
proof -
  have "text_at (''1a'' @ [CR, LF]) 0 (''1a'' @ [CR, LF])" "hex_fold 16 0 ''1a'' = 26"
    by (simp_all add: text_at_def slice_def hex_fold_def hex_value_def char_int_def Let_def)
  then show ?thesis
    using chunk_size_misread [of "CHR ''1''" "''a''" "''1a'' @ [CR, LF]" 0 4 zero_env]
    by (simp add: hex_value_def char_int_def Let_def zero_env_def)
qed

section \<open>Further facts\<close>

text \<open>\<open>CreateHttpEnv\<close> makes an environment that is ready for a request and for a response, with empty
  buffers, the default time-out and the status table filled.\<close>

theorem created_env_ready:
  assumes "CreateHttpEnv node alloc l = (Some e, l')" "r \<noteq> StatusCodeBuffer"
  shows "parser_ready l' e r \<and> fresh_env e \<and> content (buffer_at l' e r) = [] \<and> writable (buffer_at l' e r)
     \<and> init_timeout e = 60 \<and> l' = ResetAllHttpStatus l"
  using created_parser_ready [OF assms] CreateHttpEnv_made [OF assms(1)] assms(2) by (cases r) auto

theorem created_env_ready_witness:
  "\<exists>e. parser_ready (ResetAllHttpStatus http_lib_init) e RequestBuffer \<and> init_timeout e = 60"
proof -
  obtain e l' where c: "CreateHttpEnv True (\<lambda>_. True) http_lib_init = (Some e, l')"
    using CreateHttpEnv_succeeds by blast
  show ?thesis using created_env_ready [OF c, of RequestBuffer] by auto
qed

text \<open>\<open>ResetHttpEnv\<close> brings the environment back to the start of a message: the header fields are empty,
  the request buffer is sound and starts with the bytes that were received but not processed if the
  parser marked them (\<open>kept\<close>), even when its area is shrunk.\<close>

theorem reset_env_fresh:
  assumes "buffer_ok (request_buffer e)" "0 < header_array_size (headers e)"
  shows "fresh_env (ResetHttpEnv alloc e) \<and> buffer_ok (request_buffer (ResetHttpEnv alloc e))
     \<and> unprocessed (request_buffer (ResetHttpEnv alloc e)) = kept e (request_buffer e)"
  using ResetHttpEnv_fresh [OF assms(2)] ResetHttpEnv_request_buffer [OF assms(1)]
  by (simp add: unprocessed_content)

theorem reset_env_fresh_witness:
  "unprocessed (request_buffer (ResetHttpEnv (\<lambda>_. True) ((received ''abc'')\<lparr>reforming_flag := 1\<rparr>))) = ''abc''"
proof -
  let ?e = "(received ''abc'')\<lparr>reforming_flag := 1\<rparr>"
  have "buffer_ok (request_buffer ?e)" "0 < header_array_size (headers ?e)"
    by simp (simp add: received_eq plain_env_def)
  moreover have "kept ?e (request_buffer ?e) = ''abc''" by (simp add: kept_def) (simp add: received_buffer_def)
  ultimately show ?thesis using reset_env_fresh by metis
qed

text \<open>\<open>StrcatHttpBuffer\<close> never returns on a buffer with a borrowed area that is too small:
  \<open>ReallocHttpBuffer\<close> reports success without growing it.\<close>

theorem borrowed_area_never_returns:
  assumes "ref_flag b" "int (fill_ptr b) + int (length s) > buf_size b - 1"
  shows "StrcatHttpBuffer alloc b s = None \<and> MemcatHttpBuffer alloc b s = None"
  using grow_to_ref_stuck [OF assms] by (simp add: StrcatHttpBuffer_def MemcatHttpBuffer_def)

theorem borrowed_area_never_returns_witness:
  "StrcatHttpBuffer (\<lambda>_. True) (snd (InitHttpBuffer2 zero_buffer 4 ''    '')) ''abcd'' = None"
  by (simp add: borrowed_area_never_returns InitHttpBuffer2_def)

text \<open>\<open>StrcatvHttpBuffer\<close> tests the length that \<open>vsnprintf\<close> returns for equality with the room only: a
  longer text is truncated, success is reported, and \<open>fill_ptr\<close> is left at or behind the end of the
  area.\<close>

theorem strcatv_overruns_area:
  assumes "buffer_ok b" "int (length text) > buf_size b - 1 - int (fill_ptr b)"
  shows "\<exists>b'. StrcatvHttpBuffer alloc b text = Some (0, b') \<and> int (fill_ptr b') \<ge> buf_size b'"
  using assms by (rule Strcatv_overruns)

theorem strcatv_overruns_area_witness:
  "\<exists>b'. StrcatvHttpBuffer (\<lambda>_. True) (received_buffer ''ab'') ''cdef'' = Some (0, b') \<and> int (fill_ptr b') \<ge> buf_size b'"
  by (rule strcatv_overruns_area) (simp_all add: received_buffer_def buffer_ok_def area_def)

text \<open>The start line of a response: on an empty response buffer that has room for the version token,
  \<open>FormatHttpResponseStartLine\<close> returns, and on success the buffer holds exactly the version of the
  request, the status line of the code and the keep-alive header if the connection is to be kept.\<close>

theorem response_start_line:
  assumes "writable (response_buffer e)" "process_ptr (response_buffer e) = 0"
    and "GetHttpHeaderPtr_VERSION e = (Some v, vlen)"
    and "int (length (cstr (deref l e v vlen))) < buf_size (response_buffer e) - 1" "0 < code"
  shows "\<exists>nret l' e'. FormatHttpResponseStartLine alloc l code e False None = Some (nret, l', e')
     \<and> (nret = 0 \<and> content (response_buffer e') = startline_text e code (cstr (deref l e v vlen))
          \<and> GetHttpHeaderPtr_STATUSCODE e' = (Some (StatusCodeBuffer, 0), 3)
        \<or> nret = FASTERHTTP_ERROR_ALLOC)"
  using assms by (rule FormatHttpResponseStartLine_text)

theorem response_start_line_witness:
  "\<exists>nret l' e'. FormatHttpResponseStartLine (\<lambda>_. True) http_lib_init 404 versioned False None = Some (nret, l', e')
     \<and> (nret = 0 \<and> content (response_buffer e') = ''HTTP/1.1 404 Not Found'' @ [CR, LF]
           @ ''Connection: keep-alive'' @ [CR, LF] \<or> nret = FASTERHTTP_ERROR_ALLOC)"
  using response_start_line [OF versioned_writable versioned_version, of http_lib_init 404 "\<lambda>_. True"]
    versioned_line by auto

text \<open>Header values that are lists: separators and tokens printed in turn are read back by
  \<open>TokenHttpHeaderValue\<close> as exactly the tokens, up to the end of the line.\<close>

theorem header_tokens_read_back:
  assumes "\<forall>(s, w) \<in> set sws. (\<forall>c \<in> set s. token_sep c) \<and> is_token w" "\<forall>(s, w) \<in> set (tl sws). s \<noteq> []"
    and "\<forall>c \<in> set sp. token_sep c" "r = [] \<or> token_end (hd r)"
  shows "header_tokens (tokens_text sws @ sp @ r) = map snd sws"
  using assms by (rule header_tokens_printed)

theorem header_tokens_read_back_witness: "header_tokens ''gzip, deflate '' = [''gzip'', ''deflate'']"
  using header_tokens_read_back [of "[([], ''gzip''), ('', '', ''deflate'')]" "'' ''" "[]"]
  by (simp add: tokens_text_def token_sep_def token_end_def is_token_def)

text \<open>The time budget of the blocking loops: \<open>AjustTimeval\<close> subtracts the elapsed time exactly while more
  than a second is left; the budget never becomes negative.\<close>

theorem time_budget:
  assumes "tv_usec ptv \<le> 999999" "tv_usec t1 \<le> 999999" "0 \<le> tv_usec t2"
  defines "left \<equiv> micros ptv - (micros t2 - micros t1)"
  shows "(1000000 \<le> left \<longrightarrow> micros (AjustTimeval ptv t1 t2) = left) \<and> 0 \<le> micros (AjustTimeval ptv t1 t2)
     \<and> (left < 0 \<longrightarrow> micros (AjustTimeval ptv t1 t2) < 2000000)"
  using AjustTimeval_micros [OF assms(1-3)] by (simp add: left_def)

theorem time_budget_witness:
  "micros (AjustTimeval \<lparr>tv_sec = 60, tv_usec = 0\<rparr> \<lparr>tv_sec = 7, tv_usec = 900000\<rparr> \<lparr>tv_sec = 9, tv_usec = 100000\<rparr>) = 58800000"
  using time_budget [of "\<lparr>tv_sec = 60, tv_usec = 0\<rparr>" "\<lparr>tv_sec = 7, tv_usec = 900000\<rparr>" "\<lparr>tv_sec = 9, tv_usec = 100000\<rparr>"]
  by (simp add: micros_def)

text \<open>Decompression moves the end of the message without moving \<open>process_ptr\<close>: the part of the decompressed
  body behind the length of the compressed one counts as the beginning of the next message.\<close>

theorem decompressed_tail_left_unprocessed:
  assumes "writable b" "0 < content_length (headers e)" "\<And>n. alloc n" "inflate_init z w = (Z_OK, st)"
    and "inflate_loop z alloc st (slice (body_base_offset e) (nat (content_length (headers e))) (area b)) []
           (nat (content_length (headers e)) * 10) = Some (0, out, st')"
    and "inflate_end z st' = Z_OK"
    and "process_ptr b = body_base_offset e + nat (content_length (headers e))"
  shows "\<exists>e' b'. UncompressBuffer z alloc e b w = Some (0, e', b')
     \<and> unprocessed b' = drop (nat (content_length (headers e))) out"
  using assms by (rule uncompressed_tail)

theorem decompressed_tail_left_unprocessed_witness:
  "\<exists>e' b'. UncompressBuffer stored_zlib (\<lambda>_. True) compressed_body
       ((received_buffer ''-abc'')\<lparr>process_ptr := 4\<rparr>) HTTP_COMPRESSALGORITHM_GZIP = Some (0, e', b')
     \<and> unprocessed b' = ''abc''"
proof -
  let ?b = "(received_buffer ''-abc'')\<lparr>process_ptr := 4\<rparr>"
  have "inflate_loop stored_zlib (\<lambda>_. True) () ''abc'' [] 30 = Some (0, ''abcabc'', ())"
    by (subst inflate_loop.simps) (simp add: stored_zlib_def)
  moreover have "slice 1 3 (area ?b) = ''abc''" by (simp add: received_buffer_def area_def slice_def)
  moreover have "writable ?b" by (simp add: received_buffer_def writable_def buffer_ok_def area_def)
  ultimately show ?thesis
    using decompressed_tail_left_unprocessed [of ?b compressed_body "\<lambda>_. True" stored_zlib HTTP_COMPRESSALGORITHM_GZIP "()"
        "''abcabc''" "()"]
    by (simp add: compressed_body_def stored_zlib_def zero_headers_def)
qed

text \<open>A compressed body with bytes behind the end of the compressed stream: zlib then reports the end of the
  stream without consuming anything, and the loop of \<open>UncompressBuffer\<close> can only end with a failed
  allocation.\<close>

theorem inflate_with_trailing_bytes:
  assumes "\<And>room. inflate_some z st inp room = (Z_STREAM_END, 0, [], st)" "inp \<noteq> []"
    and "inflate_loop z alloc st inp out n = Some res"
  shows "fst res = FASTERHTTP_ERROR_ALLOC \<and> (\<exists>k. \<not> alloc k)"
  using inflate_loop_trailing [OF assms(3)] assms(1,2) by blast

theorem inflate_with_trailing_bytes_witness:
  "inflate_loop (stored_zlib\<lparr>inflate_some := \<lambda>_ _ _. (Z_STREAM_END, 0, [], ())\<rparr>) (\<lambda>_. True) () ''x'' [] 10 = None"
  using inflate_with_trailing_bytes [of "stored_zlib\<lparr>inflate_some := \<lambda>_ _ _. (Z_STREAM_END, 0, [], ())\<rparr>" "()" "''x''"
      "\<lambda>_. True" "[]" 10]
  by (cases "inflate_loop (stored_zlib\<lparr>inflate_some := \<lambda>_ _ _. (Z_STREAM_END, 0, [], ())\<rparr>) (\<lambda>_. True) () ''x'' [] 10") auto

end
